(* ===== verification/Prelude.thy ===== *)
theory Prelude
  imports Main "HOL-Library.Word" "HOL-Library.Monad_Syntax"
begin

text \<open>
  Shared vocabulary of the development: the C integer types as machine words, byte buffers with
  checked accesses, little- and big-endian loads and stores
  (\<^verbatim>\<open>src/libs/gattlib-master/bluez/bluez5/src/shared/util.h\<close>), and the collections of rewrite
  rules that the component theories use.

  An operation of the C code that can access memory returns an \<open>option\<close>: \<open>None\<close> is undefined
  behaviour (an access outside the buffer, a NULL dereference, signed overflow), never an error
  code of the program.  Error codes of the program are values inside \<open>Some\<close>.
\<close>

unbundle bit_operations_syntax

type_synonym u8 = "8 word"
type_synonym u16 = "16 word"
type_synonym u32 = "32 word"
type_synonym u64 = "64 word"
type_synonym size_t = "64 word"
type_synonym bytes = "u8 list"

named_theorems mem_simps \<open>evaluation of buffer accesses at literal offsets\<close>
named_theorems codec_simps \<open>encoders and decoders of fixed-width integers\<close>

section \<open>Checked byte buffers\<close>

definition load8 :: "bytes \<Rightarrow> nat \<Rightarrow> u8 option" where
  "load8 b i = (if i < length b then Some (b ! i) else None)"

definition mem_read :: "bytes \<Rightarrow> nat \<Rightarrow> nat \<Rightarrow> bytes option" where
  "mem_read b off n = (if off + n \<le> length b then Some (take n (drop off b)) else None)"

definition mem_write :: "bytes \<Rightarrow> nat \<Rightarrow> bytes \<Rightarrow> bytes option" where
  "mem_write b off bs =
     (if off + length bs \<le> length b then Some (take off b @ bs @ drop (off + length bs) b)
      else None)"

definition store8 :: "bytes \<Rightarrow> nat \<Rightarrow> u8 \<Rightarrow> bytes option" where
  "store8 b i v = mem_write b i [v]"

text \<open>\<open>memcpy (dst + off, src + soff, n)\<close> between two distinct buffers.\<close>

definition memcpy :: "bytes \<Rightarrow> nat \<Rightarrow> bytes \<Rightarrow> nat \<Rightarrow> nat \<Rightarrow> bytes option" where
  "memcpy dst off src soff n = do { bs \<leftarrow> mem_read src soff n; mem_write dst off bs }"

lemma load8_Cons_0 [mem_simps]: "load8 (x # b) 0 = Some x"
  by (simp add: load8_def)

lemma load8_Cons_Suc [mem_simps]: "load8 (x # b) (Suc i) = load8 b i"
  by (simp add: load8_def)

lemma load8_Cons_numeral [mem_simps]: "load8 (x # b) (numeral k) = load8 b (pred_numeral k)"
  by (simp add: numeral_eq_Suc load8_Cons_Suc)

lemma load8_Some [mem_simps]: "i < length b \<Longrightarrow> load8 b i = Some (b ! i)"
  by (simp add: load8_def)

lemma mem_read_0 [mem_simps]: "n \<le> length b \<Longrightarrow> mem_read b 0 n = Some (take n b)"
  by (simp add: mem_read_def)

lemma mem_read_Cons_Suc [mem_simps]: "mem_read (x # b) (Suc i) n = mem_read b i n"
  by (simp add: mem_read_def)

lemma mem_read_Cons_numeral [mem_simps]:
  "mem_read (x # b) (numeral k) n = mem_read b (pred_numeral k) n"
  by (simp add: numeral_eq_Suc mem_read_Cons_Suc)

lemma mem_write_0 [mem_simps]:
  "length bs \<le> length b \<Longrightarrow> mem_write b 0 bs = Some (bs @ drop (length bs) b)"
  by (simp add: mem_write_def)

lemma mem_write_Cons_Suc [mem_simps]:
  "mem_write (x # b) (Suc i) bs = map_option ((#) x) (mem_write b i bs)"
  by (simp add: mem_write_def)

lemma mem_write_Cons_numeral [mem_simps]:
  "mem_write (x # b) (numeral k) bs = map_option ((#) x) (mem_write b (pred_numeral k) bs)"
  by (simp add: numeral_eq_Suc mem_write_Cons_Suc)

lemma mem_write_length: "mem_write b off bs = Some b' \<Longrightarrow> length b' = length b"
  by (auto simp: mem_write_def split: if_splits)

lemma mem_read_append [mem_simps]:
  "length xs = i \<Longrightarrow> mem_read (xs @ b) i n = mem_read b 0 n"
  by (simp add: mem_read_def)

lemma mem_write_append [mem_simps]:
  "length xs = i \<Longrightarrow> mem_write (xs @ b) i bs = map_option ((@) xs) (mem_write b 0 bs)"
  by (simp add: mem_write_def)

lemma mem_write_None: "mem_write b off bs = None \<longleftrightarrow> length b < off + length bs"
  by (simp add: mem_write_def not_le)

lemma mem_read_write:
  "mem_write b off bs = Some b' \<Longrightarrow> n = length bs \<Longrightarrow> mem_read b' off n = Some bs"
  by (auto simp: mem_write_def mem_read_def split: if_splits)

lemma take_append_take: "take n (take n xs @ ys) = take n (xs @ ys)"
  by (cases "length xs \<le> n") simp_all

section \<open>Fixed-width integers in memory\<close>

definition le16 :: "u16 \<Rightarrow> bytes" where
  "le16 v = [ucast v, ucast (drop_bit 8 v)]"

definition le16_of :: "bytes \<Rightarrow> u16" where
  "le16_of bs = ucast (bs ! 0) OR push_bit 8 (ucast (bs ! 1))"

definition be16 :: "u16 \<Rightarrow> bytes" where
  "be16 v = [ucast (drop_bit 8 v), ucast v]"

definition be16_of :: "bytes \<Rightarrow> u16" where
  "be16_of bs = push_bit 8 (ucast (bs ! 0)) OR ucast (bs ! 1)"

definition le32 :: "u32 \<Rightarrow> bytes" where
  "le32 v = [ucast v, ucast (drop_bit 8 v), ucast (drop_bit 16 v), ucast (drop_bit 24 v)]"

definition le32_of :: "bytes \<Rightarrow> u32" where
  "le32_of bs = ucast (bs ! 0) OR push_bit 8 (ucast (bs ! 1)) OR push_bit 16 (ucast (bs ! 2))
     OR push_bit 24 (ucast (bs ! 3))"

definition be32 :: "u32 \<Rightarrow> bytes" where
  "be32 v = [ucast (drop_bit 24 v), ucast (drop_bit 16 v), ucast (drop_bit 8 v), ucast v]"

definition be32_of :: "bytes \<Rightarrow> u32" where
  "be32_of bs = push_bit 24 (ucast (bs ! 0)) OR push_bit 16 (ucast (bs ! 1))
     OR push_bit 8 (ucast (bs ! 2)) OR ucast (bs ! 3)"

lemma length_le16 [simp]: "length (le16 v) = 2"
  by (simp add: le16_def)

lemma length_be16 [simp]: "length (be16 v) = 2"
  by (simp add: be16_def)

lemma length_le32 [simp]: "length (le32 v) = 4"
  by (simp add: le32_def)

lemma length_be32 [simp]: "length (be32 v) = 4"
  by (simp add: be32_def)

lemma le16_of_le16 [codec_simps, simp]: "le16_of (le16 v @ r) = v"
  unfolding le16_of_def le16_def
  by (rule bit_word_eqI) (auto simp: bit_simps)

lemma be16_of_be16 [codec_simps, simp]: "be16_of (be16 v @ r) = v"
  unfolding be16_of_def be16_def
  by (rule bit_word_eqI) (auto simp: bit_simps)

lemma le32_of_le32 [codec_simps, simp]: "le32_of (le32 v @ r) = v"
  unfolding le32_of_def le32_def
  apply (rule bit_word_eqI)
  subgoal for n
    by (cases "24 \<le> n"; cases "16 \<le> n"; cases "8 \<le> n") (auto simp: bit_simps)
  done

lemma be32_of_be32 [codec_simps, simp]: "be32_of (be32 v @ r) = v"
  unfolding be32_of_def be32_def
  apply (rule bit_word_eqI)
  subgoal for n
    by (cases "24 \<le> n"; cases "16 \<le> n"; cases "8 \<le> n") (auto simp: bit_simps)
  done

lemma not_bit_u8: "8 \<le> n \<Longrightarrow> \<not> bit (w :: u8) n"
  using bit_imp_le_length [of w n] by auto

lemma bit_u8D: "bit (w :: u8) n \<Longrightarrow> n < 8"
  using not_bit_u8 not_le by blast

text \<open>The other direction: storing a loaded value gives the bytes back.\<close>

lemma be16_be16_of: "length bs = 2 \<Longrightarrow> be16 (be16_of bs) = bs"
  by (cases bs; cases "tl bs")
    (auto simp: be16_def be16_of_def bit_simps not_bit_u8 intro!: bit_word_eqI)

lemma le16_le16_of: "length bs = 2 \<Longrightarrow> le16 (le16_of bs) = bs"
  by (cases bs; cases "tl bs")
    (auto simp: le16_def le16_of_def bit_simps not_bit_u8 intro!: bit_word_eqI)

lemma be32_be32_of:
  assumes "length bs = 4"
  shows "be32 (be32_of bs) = bs"
proof -
  obtain a b c d where "bs = [a, b, c, d]"
    using assms by (cases bs; cases "tl bs"; cases "tl (tl bs)"; cases "tl (tl (tl bs))") auto
  then show ?thesis
    by (auto simp: be32_def be32_of_def bit_simps not_bit_u8 intro!: bit_word_eqI)
qed

end
