(* ===== verification/Binary32.thy ===== *)
theory Binary32
  imports Complex_Main "HOL-Library.Log_Nat"
begin

text \<open>
  C's \<^verbatim>\<open>float\<close> as used by \<^verbatim>\<open>convert_to_percent\<close>: IEEE 754 binary32 values are represented by the
  rational they denote, and an operation is the exact rational operation followed by
  \<open>rnd32\<close>, rounding to nearest with ties to even at 24 significant bits.  The exponent range is
  not bounded: every value that the program computes lies between \<open>2 ^ (-10)\<close> and \<open>2 ^ 40\<close> in
  magnitude or is zero, far inside the normal range of binary32.
\<close>

text \<open>\<open>exponent_of x\<close> is the exponent \<open>e\<close> of the binade \<open>2 ^ e \<le> x < 2 ^ (e + 1)\<close> of a positive
  rational \<open>x\<close>, found from the bit lengths of its numerator and denominator.\<close>

definition pow2 :: "int \<Rightarrow> rat" where
  "pow2 k = (if 0 \<le> k then 2 ^ nat k else 1 / 2 ^ nat (- k))"

definition exponent_of :: "rat \<Rightarrow> int" where
  "exponent_of x =
     (case quotient_of x of (p, q) \<Rightarrow>
        let k = int (floorlog 2 (nat p)) - int (floorlog 2 (nat q))
        in if pow2 k \<le> x then k else k - 1)"

definition round_half_even :: "rat \<Rightarrow> int" where
  "round_half_even m =
     (let f = \<lfloor>m\<rfloor>; d = m - of_int f
      in if d < 1 / 2 then f
         else if 1 / 2 < d then f + 1
         else if even f then f else f + 1)"

definition rnd32_pos :: "rat \<Rightarrow> rat" where
  "rnd32_pos x =
     (let ulp = pow2 (exponent_of x - 23) in of_int (round_half_even (x / ulp)) * ulp)"

definition rnd32 :: "rat \<Rightarrow> rat" where
  "rnd32 x = (if x = 0 then 0 else if 0 < x then rnd32_pos x else - rnd32_pos (- x))"

definition f32_of_int :: "int \<Rightarrow> rat" where
  "f32_of_int n = rnd32 (of_int n)"

definition f32_mul :: "rat \<Rightarrow> rat \<Rightarrow> rat" where
  "f32_mul x y = rnd32 (x * y)"

definition f32_div :: "rat \<Rightarrow> rat \<Rightarrow> rat" where
  "f32_div x y = rnd32 (x / y)"

text \<open>Conversion of a float to \<^verbatim>\<open>int\<close> discards the fraction.\<close>

definition f32_to_int :: "rat \<Rightarrow> int" where
  "f32_to_int x = (if 0 \<le> x then \<lfloor>x\<rfloor> else - \<lfloor>- x\<rfloor>)"

section \<open>The rounding error\<close>

lemma pow2_pos [simp]: "0 < pow2 k"
  by (simp add: pow2_def)

lemma pow2_powi: "pow2 k = 2 powi k"
  by (simp add: pow2_def power_int_def field_simps)

lemma pow2_add: "pow2 (a + b) = pow2 a * pow2 b"
  by (simp add: pow2_powi power_int_add)

lemma pow2_mono: "a \<le> b \<Longrightarrow> pow2 a \<le> pow2 b"
  by (simp add: pow2_powi power_int_increasing)

lemma floorlog2_bounds:
  assumes "0 < n"
  shows "2 ^ (floorlog 2 n - 1) \<le> n" and "n < 2 ^ floorlog 2 n" and "0 < floorlog 2 n"
  using floorlog_bounds [of n 2] assms by (auto simp: floorlog_eq_zero_iff intro!: Nat.gr0I)

lemma exponent_of_le:
  assumes "0 < x"
  shows "pow2 (exponent_of x) \<le> x"
proof -
  obtain p q where pq: "quotient_of x = (p, q)"
    by (cases "quotient_of x")
  have q: "0 < q" using quotient_of_denom_pos [OF pq] .
  have x: "x = of_int p / of_int q" using quotient_of_div [OF pq] .
  have p: "0 < p" using assms q by (simp add: x zero_less_divide_iff)
  define a where "a = floorlog 2 (nat p)"
  define b where "b = floorlog 2 (nat q)"
  have "a > 0" and pa: "2 ^ (a - 1) \<le> nat p" and qb: "nat q < 2 ^ b"
    using floorlog2_bounds [of "nat p"] floorlog2_bounds [of "nat q"] p q
    by (auto simp: a_def b_def)
  have "(2::int) ^ (a - 1) \<le> p" using pa p by (simp add: le_nat_iff)
  then have "of_int (2 ^ (a - 1)) \<le> (of_int p :: rat)" by (simp only: of_int_le_iff)
  moreover have "pow2 (int a - 1) = of_int (2 ^ (a - 1))"
    using \<open>a > 0\<close> by (simp add: pow2_def nat_diff_distrib)
  ultimately have p': "pow2 (int a - 1) \<le> of_int p" by simp
  have "q < (2::int) ^ b" using qb q by (simp add: nat_less_iff)
  then have "(of_int q :: rat) \<le> of_int (2 ^ b)" by (simp only: of_int_le_iff less_imp_le)
  then have q': "of_int q \<le> pow2 (int b)" by (simp add: pow2_def)
  have eq: "pow2 (int a - int b - 1) * pow2 (int b) = pow2 (int a - 1)"
    by (simp add: pow2_add [symmetric])
  have "pow2 (int a - int b - 1) * of_int q \<le> pow2 (int a - int b - 1) * pow2 (int b)"
    using q' by (intro mult_left_mono) (auto simp: less_imp_le)
  also have "\<dots> \<le> of_int p"
    using p' eq by simp
  finally have "pow2 (int a - int b - 1) \<le> x"
    using q by (simp add: x field_simps)
  then show ?thesis
    by (simp add: exponent_of_def pq Let_def a_def b_def)
qed

lemma round_half_even_error: "\<bar>of_int (round_half_even m) - m\<bar> \<le> 1 / 2"
proof -
  have "of_int \<lfloor>m\<rfloor> \<le> m" and "m < of_int \<lfloor>m\<rfloor> + 1"
    using floor_correct [of m] by simp_all
  then show ?thesis
    by (auto simp: round_half_even_def Let_def abs_le_iff)
qed

lemma round_half_even_of_int [simp]: "round_half_even (of_int n) = n"
  by (simp add: round_half_even_def)

lemma rnd32_pos_error:
  assumes "0 < x"
  shows "\<bar>rnd32_pos x - x\<bar> \<le> x / 2 ^ 24"
proof -
  define ulp where "ulp = pow2 (exponent_of x - 23)"
  have u: "0 < ulp" by (simp add: ulp_def)
  have "ulp * pow2 23 = pow2 (exponent_of x)"
    by (simp add: ulp_def pow2_add [symmetric])
  then have ub: "ulp * 2 ^ 23 \<le> x"
    using exponent_of_le [OF assms] by (simp add: pow2_def)
  have "rnd32_pos x - x = (of_int (round_half_even (x / ulp)) - x / ulp) * ulp"
    using u by (simp add: rnd32_pos_def ulp_def [symmetric] Let_def field_simps)
  then have "\<bar>rnd32_pos x - x\<bar> = \<bar>of_int (round_half_even (x / ulp)) - x / ulp\<bar> * ulp"
    using u by (simp add: abs_mult)
  also have "\<dots> \<le> 1 / 2 * ulp"
    using round_half_even_error u by (intro mult_right_mono) auto
  also have "\<dots> \<le> x / 2 ^ 24"
    using ub by simp
  finally show ?thesis .
qed

lemma rnd32_error: "\<bar>rnd32 x - x\<bar> \<le> \<bar>x\<bar> / 2 ^ 24"
proof (cases "x < 0")
  case True
  with rnd32_pos_error [of "- x"] show ?thesis
    by (simp add: rnd32_def abs_if split: if_splits)
next
  case False
  then show ?thesis
    using rnd32_pos_error [of x] by (auto simp: rnd32_def)
qed

text \<open>Integers below \<open>2 ^ 24\<close> are represented exactly.\<close>

lemma rnd32_pos_of_int:
  assumes "0 < n" and "n < 2 ^ 24"
  shows "rnd32_pos (of_int n) = of_int n"
proof -
  define e where "e = exponent_of (of_int n)"
  have "pow2 e \<le> of_int n"
    using assms exponent_of_le [of "of_int n"] by (simp add: e_def)
  also have "\<dots> < of_int (2 ^ 24)"
    using assms(2) by (simp only: of_int_less_iff)
  also have "of_int (2 ^ 24) = pow2 24"
    by (simp add: pow2_def)
  finally have "e < 24"
    by (metis not_le pow2_mono)
  then have "of_int n / pow2 (e - 23) = of_int (n * 2 ^ nat (23 - e))"
    by (auto simp: pow2_def)
  then have "round_half_even (of_int n / pow2 (e - 23)) = n * 2 ^ nat (23 - e)"
    by (simp only: round_half_even_of_int)
  with \<open>e < 24\<close> show ?thesis
    by (auto simp: rnd32_pos_def e_def [symmetric] Let_def pow2_def)
qed

lemma rnd32_of_int: "\<bar>n\<bar> < 2 ^ 24 \<Longrightarrow> rnd32 (of_int n) = of_int n"
  using rnd32_pos_of_int [of n] rnd32_pos_of_int [of "- n"]
  by (auto simp: rnd32_def)

text \<open>
  Truncating a rounded quotient of integers gives the integer quotient as long as the quotient is
  so small that its rounding error stays below the spacing \<open>1 / d\<close> of the possible quotients.
\<close>

lemma rnd32_trunc_quotient:
  fixes n d :: int
  assumes "0 \<le> n" and "0 < d" and "n < 2 ^ 24"
  shows "\<lfloor>rnd32 (of_int n / of_int d)\<rfloor> = n div d"
proof -
  define k where "k = n div d"
  have nk: "n = k * d + n mod d" and m: "0 \<le> n mod d" "n mod d < d"
    using assms by (auto simp: k_def)
  have k0: "0 \<le> k"
    using assms by (simp add: k_def pos_imp_zdiv_nonneg_iff)
  have "k * 1 \<le> k * d"
    using k0 assms(2) by (intro mult_left_mono) auto
  then have k: "k < 2 ^ 24"
    using nk m(1) assms(3) by linarith
  have err: "\<bar>rnd32 (of_int n / of_int d) - of_int n / of_int d\<bar> < 1 / of_int d"
  proof -
    have "\<bar>rnd32 (of_int n / of_int d) - of_int n / of_int d\<bar> \<le> of_int n / of_int d / 2 ^ 24"
      using rnd32_error [of "of_int n / of_int d"] assms by simp
    also have "\<dots> < 1 / of_int d"
    proof -
      have "(of_int n :: rat) < of_int (2 ^ 24)"
        using assms(3) by (simp only: of_int_less_iff)
      then show ?thesis using assms(2) by (simp add: field_simps)
    qed
    finally show ?thesis .
  qed
  have lower: "of_int k \<le> rnd32 (of_int n / of_int d)"
  proof (cases "n mod d = 0")
    case True
    then have "n = k * d" using nk by simp
    then have "of_int n / of_int d = (of_int k :: rat)" using assms(2) by simp
    then show ?thesis using rnd32_of_int [of k] k k0 by simp
  next
    case False
    then have "k * d + 1 \<le> n" using nk m by linarith
    then have "of_int (k * d + 1) \<le> (of_int n :: rat)" by (simp only: of_int_le_iff)
    then have "of_int (k * d + 1) / of_int d \<le> (of_int n / of_int d :: rat)"
      using assms(2) by (intro divide_right_mono) auto
    moreover have "of_int (k * d + 1) / of_int d = (of_int k + 1 / of_int d :: rat)"
      using assms(2) by (simp add: field_simps)
    ultimately have "of_int k + 1 / of_int d \<le> (of_int n / of_int d :: rat)" by simp
    with err show ?thesis by linarith
  qed
  have "n + 1 \<le> (k + 1) * d" using nk m by (simp add: algebra_simps)
  then have "of_int (n + 1) \<le> (of_int ((k + 1) * d) :: rat)" by (simp only: of_int_le_iff)
  then have "of_int (n + 1) / of_int d \<le> (of_int ((k + 1) * d) / of_int d :: rat)"
    using assms(2) by (intro divide_right_mono) auto
  then have "of_int n / of_int d + 1 / of_int d \<le> (of_int k + 1 :: rat)"
    using assms(2) by (simp add: add_divide_distrib)
  with err have upper: "rnd32 (of_int n / of_int d) < of_int k + 1" by linarith
  from lower upper show ?thesis
    by (simp add: k_def [symmetric] floor_eq_iff)
qed

end
