(* ===== verification/Throttle.thy ===== *)
theory Throttle
  imports Prelude Binary32
begin

text \<open>
  The joystick thread of the ground station, \<^verbatim>\<open>src/src/throttleinput.c\<close>: the conversion of a raw
  axis value to a percentage, and the thread body \<^verbatim>\<open>hotas_inputs\<close> that reads joystick events and
  publishes the throttle position under \<^verbatim>\<open>throttle_mutex\<close>.

  The kernel's joystick interface is outside the repository: what \<^verbatim>\<open>open\<close> and the successive
  \<^verbatim>\<open>read\<close> calls return is an argument of the model.  The type byte of an event is one of the two
  codes the program compares it with, or any other code.
\<close>

section \<open>Shared variables and events\<close>

record globals =
  throttle_position :: int
  running :: int

definition init_globals :: globals where
  "init_globals = \<lparr>throttle_position = 0, running = 1\<rparr>"

datatype js_type = JS_EVENT_BUTTON | JS_EVENT_AXIS | JS_EVENT_OTHER u8

record js_event =
  js_time :: u32
  js_value :: "16 word"
  js_type :: js_type
  js_number :: u8

text \<open>One call of \<^verbatim>\<open>read(js, &e, sizeof(e))\<close>: a whole event, or anything else.\<close>

datatype read_result = ReadEvent js_event | ReadFail

text \<open>The calls of the thread that the rest of the system can observe.\<close>

datatype hotas_io =
    PerrorOpen
  | PrintReading
  | PerrorRead
  | MutexLock
  | StoreThrottle int
  | MutexUnlock
  | PrintAxis u8 int
  | PrintButton u8 bool
  | PrintBye
  | CloseJs

text \<open>How the thread ended, or that it is blocked in \<^verbatim>\<open>read\<close> for want of events.\<close>

datatype hotas_exit = HotasNoDevice | HotasReadError | HotasStopped | HotasBlocked

section \<open>Conversion to percent\<close>

definition INT_MIN :: int where "INT_MIN = - (2 ^ 31)"
definition INT_MAX :: int where "INT_MAX = 2 ^ 31 - 1"

text \<open>\<open>None\<close> is the signed overflow of \<^verbatim>\<open>raw - 32767\<close>, which is undefined in C.\<close>

definition convert_to_percent :: "int \<Rightarrow> int option" where
  "convert_to_percent raw =
     (if raw = 32767 then Some 0
      else if raw - 32767 < INT_MIN \<or> INT_MAX < raw - 32767 then None
      else Some (f32_to_int
        (f32_div (f32_mul (f32_of_int (raw - 32767)) 100) (f32_of_int (2 * - 32767)))))"

section \<open>The thread body\<close>

text \<open>The part of the loop body after a successful read.\<close>

definition hotas_action :: "globals \<Rightarrow> js_event \<Rightarrow> (globals \<times> hotas_io list) option" where
  "hotas_action g e =
     (if js_type e = JS_EVENT_AXIS then
        (if js_number e = 2 then do {
           percent \<leftarrow> convert_to_percent (sint (js_value e));
           Some (g\<lparr>throttle_position := percent\<rparr>, [MutexLock, StoreThrottle percent, MutexUnlock])
         }
         else Some (g, [PrintAxis (js_number e) (sint (js_value e))]))
      else if js_type e = JS_EVENT_BUTTON then
        (if js_number e = 0 \<and> sint (js_value e) = 1
         then Some (g\<lparr>running := 0\<rparr>,
                [PrintButton (js_number e) (sint (js_value e) \<noteq> 0), PrintBye])
         else Some (g, [PrintButton (js_number e) (sint (js_value e) \<noteq> 0)]))
      else Some (g, []))"

text \<open>The loop, over the results that the successive reads return.  \<^verbatim>\<open>running\<close> is written by no
  other thread.\<close>

fun hotas_loop ::
  "globals \<Rightarrow> read_result list \<Rightarrow> (globals \<times> hotas_io list \<times> hotas_exit) option" where
  "hotas_loop g rs =
     (if running g = 0 then Some (g, [CloseJs], HotasStopped)
      else (case rs of
        [] \<Rightarrow> Some (g, [], HotasBlocked)
      | ReadFail # _ \<Rightarrow> Some (g, [PerrorRead, CloseJs], HotasReadError)
      | ReadEvent e # rs' \<Rightarrow> do {
          (g', io) \<leftarrow> hotas_action g e;
          (g'', io', x) \<leftarrow> hotas_loop g' rs';
          Some (g'', io @ io', x)
        }))"

declare hotas_loop.simps [simp del]

definition hotas_inputs ::
  "globals \<Rightarrow> int \<Rightarrow> read_result list \<Rightarrow> (globals \<times> hotas_io list \<times> hotas_exit) option" where
  "hotas_inputs g js rs =
     (if js < 0 then Some (g, [PerrorOpen], HotasNoDevice)
      else do {
        (g', io, x) \<leftarrow> hotas_loop g rs;
        Some (g', PrintReading # io, x)
      })"

section \<open>Facts about the conversion\<close>

lemma sint16_bounds: "- 32768 \<le> sint (v :: 16 word)" "sint (v :: 16 word) \<le> 32767"
  using sint_ge [of v] sint_lt [of v] by simp_all

lemma convert_to_percent_s16:
  assumes "- 32768 \<le> raw" and "raw \<le> 32767"
  shows "convert_to_percent raw = Some (((32767 - raw) * 100) div 65534)"
proof (cases "raw = 32767")
  case True
  then show ?thesis by (simp add: convert_to_percent_def)
next
  case False
  define m where "m = 32767 - raw"
  have m: "0 \<le> m" "m \<le> 65535" "raw - 32767 = - m"
    using assms by (auto simp: m_def)
  have "rnd32 (of_int (- m)) = of_int (- m)"
    using m by (intro rnd32_of_int) auto
  then have 1: "f32_of_int (- m) = of_int (- m)"
    by (simp add: f32_of_int_def)
  have "rnd32 (of_int (- m * 100)) = of_int (- m * 100)"
    using m by (intro rnd32_of_int) auto
  then have 2: "f32_mul (of_int (- m)) 100 = of_int (- (m * 100))"
    by (simp add: f32_mul_def)
  have "rnd32 (of_int (- 65534)) = of_int (- 65534)"
    by (intro rnd32_of_int) auto
  then have 3: "f32_of_int (2 * - 32767) = - 65534"
    by (simp add: f32_of_int_def)
  have q: "of_int (- (m * 100)) / (- 65534) = (of_int (m * 100) / of_int 65534 :: rat)"
    by simp
  have fl: "\<lfloor>rnd32 (of_int (m * 100) / of_int 65534)\<rfloor> = (m * 100) div 65534"
    using m by (intro rnd32_trunc_quotient) auto
  have "0 \<le> (m * 100) div 65534"
    using m by simp
  then have nn: "0 \<le> rnd32 (of_int (m * 100) / of_int 65534)"
    using fl by (metis zero_le_floor)
  have "f32_to_int (f32_div (of_int (- (m * 100))) (- 65534)) = (m * 100) div 65534"
    using fl nn by (simp only: f32_div_def q f32_to_int_def if_True)
  moreover have "convert_to_percent raw =
      Some (f32_to_int (f32_div (f32_mul (f32_of_int (- m)) 100) (f32_of_int (2 * - 32767))))"
    using False m by (simp add: convert_to_percent_def INT_MIN_def INT_MAX_def)
  ultimately show ?thesis
    by (simp only: 1 2 3 m_def [symmetric])
qed

lemma percent_bounds:
  assumes "0 \<le> m" and "m \<le> (65535 :: int)"
  shows "0 \<le> m * 100 div 65534" and "m * 100 div 65534 \<le> 100"
proof -
  show "0 \<le> m * 100 div 65534" using assms by simp
  have "m * 100 div 65534 \<le> 6553500 div 65534"
    using assms by (intro zdiv_mono1) auto
  then show "m * 100 div 65534 \<le> 100" by simp
qed

lemma convert_to_percent_word:
  "convert_to_percent (sint (v :: 16 word)) = Some (((32767 - sint v) * 100) div 65534)"
  using sint16_bounds by (rule convert_to_percent_s16)

section \<open>What the thread does with a sequence of events\<close>

definition is_stop :: "js_event \<Rightarrow> bool" where
  "is_stop e \<longleftrightarrow> js_type e = JS_EVENT_BUTTON \<and> js_number e = 0 \<and> js_value e = 1"

definition is_throttle :: "js_event \<Rightarrow> bool" where
  "is_throttle e \<longleftrightarrow> js_type e = JS_EVENT_AXIS \<and> js_number e = 2"

definition percent_of :: "js_event \<Rightarrow> int" where
  "percent_of e = ((32767 - sint (js_value e)) * 100) div 65534"

definition throttle_after :: "int \<Rightarrow> js_event list \<Rightarrow> int" where
  "throttle_after p es = foldl (\<lambda>p e. if is_throttle e then percent_of e else p) p es"

text \<open>A call sequence respects the mutex: it locks only when it does not hold the mutex, stores the
  throttle position and unlocks only when it holds it, and ends without it.\<close>

fun lock_ok :: "bool \<Rightarrow> hotas_io list \<Rightarrow> bool" where
  "lock_ok h [] = (\<not> h)"
| "lock_ok h (MutexLock # io) = (\<not> h \<and> lock_ok True io)"
| "lock_ok h (MutexUnlock # io) = (h \<and> lock_ok False io)"
| "lock_ok h (StoreThrottle p # io) = (h \<and> lock_ok h io)"
| "lock_ok h (c # io) = lock_ok h io"

lemma percent_of_range: "0 \<le> percent_of e" "percent_of e \<le> 100"
  using sint16_bounds [of "js_value e"] percent_bounds [of "32767 - sint (js_value e)"]
  unfolding percent_of_def by linarith+

lemma sint_eq_1_iff: "sint (v :: 16 word) = 1 \<longleftrightarrow> v = 1"
  using inj_eq [of "sint :: 16 word \<Rightarrow> int" v 1] by simp

lemma sint_eq_0_iff: "sint (v :: 16 word) = 0 \<longleftrightarrow> v = 0"
  using inj_eq [of "sint :: 16 word \<Rightarrow> int" v 0] by simp

lemma throttle_after_simps [simp]:
  "throttle_after p [] = p"
  "throttle_after p (e # es) = throttle_after (if is_throttle e then percent_of e else p) es"
  by (simp_all add: throttle_after_def)

lemma throttle_after_append [simp]:
  "throttle_after p (es @ fs) = throttle_after (throttle_after p es) fs"
  by (simp add: throttle_after_def)

lemma throttle_after_range:
  "0 \<le> p \<Longrightarrow> p \<le> 100 \<Longrightarrow> 0 \<le> throttle_after p es \<and> throttle_after p es \<le> 100"
  by (induction es arbitrary: p) (auto simp: percent_of_range)

text \<open>The calls of one loop iteration.\<close>

definition action_io :: "js_event \<Rightarrow> hotas_io list" where
  "action_io e =
     (if is_throttle e then [MutexLock, StoreThrottle (percent_of e), MutexUnlock]
      else if js_type e = JS_EVENT_AXIS then [PrintAxis (js_number e) (sint (js_value e))]
      else if is_stop e then [PrintButton 0 True, PrintBye]
      else if js_type e = JS_EVENT_BUTTON then [PrintButton (js_number e) (js_value e \<noteq> 0)]
      else [])"

lemma hotas_action_spec:
  "hotas_action g e = Some (g\<lparr>throttle_position := throttle_after (throttle_position g) [e],
     running := (if is_stop e then 0 else running g)\<rparr>, action_io e)"
  by (simp add: hotas_action_def convert_to_percent_word is_stop_def is_throttle_def
      percent_of_def action_io_def sint_eq_1_iff sint_eq_0_iff)

lemma lock_ok_action_io: "lock_ok False (action_io e @ rest) = lock_ok False rest"
  by (simp add: action_io_def)

lemma hotas_loop_stopped [simp]:
  "running g = 0 \<Longrightarrow> hotas_loop g rs = Some (g, [CloseJs], HotasStopped)"
  by (simp add: hotas_loop.simps)

lemma hotas_loop_running:
  assumes "running g \<noteq> 0"
  shows "hotas_loop g [] = Some (g, [], HotasBlocked)"
    and "hotas_loop g (ReadFail # rs) = Some (g, [PerrorRead, CloseJs], HotasReadError)"
    and "hotas_loop g (ReadEvent e # rs) = map_option (\<lambda>(g', io, x). (g', action_io e @ io, x))
          (hotas_loop (g\<lparr>throttle_position := throttle_after (throttle_position g) [e],
             running := (if is_stop e then 0 else running g)\<rparr>) rs)"
  using assms
  by (simp_all add: hotas_loop.simps [of g] hotas_action_spec map_option_case bind_split
      split: option.splits)

text \<open>The thread never overflows, never leaves the mutex locked, and keeps the position a
  percentage, whatever the reads return.\<close>

lemma hotas_loop_safe:
  "\<exists>g' io x. hotas_loop g rs = Some (g', io, x) \<and> lock_ok False io
     \<and> (throttle_position g \<in> {0..100} \<longrightarrow> throttle_position g' \<in> {0..100})
     \<and> (running g' = running g \<or> running g' = 0)"
proof (induction rs arbitrary: g)
  case Nil
  then show ?case by (cases "running g = 0") (simp_all add: hotas_loop_running)
next
  case (Cons r rs)
  show ?case
  proof (cases "running g \<noteq> 0 \<and> (\<exists>e. r = ReadEvent e)")
    case True
    then obtain e where r: "r = ReadEvent e" "running g \<noteq> 0" by blast
    let ?g = "g\<lparr>throttle_position := throttle_after (throttle_position g) [e],
                running := (if is_stop e then 0 else running g)\<rparr>"
    obtain g' io x where l: "hotas_loop ?g rs = Some (g', io, x)" "lock_ok False io"
      and t: "throttle_position ?g \<in> {0..100} \<longrightarrow> throttle_position g' \<in> {0..100}"
      and ru: "running g' = running ?g \<or> running g' = 0"
      using Cons.IH [of ?g] by blast
    have "hotas_loop g (r # rs) = Some (g', action_io e @ io, x)"
      using l(1) r by (simp add: hotas_loop_running)
    moreover have "throttle_position g \<in> {0..100} \<longrightarrow> throttle_position ?g \<in> {0..100}"
      by (simp add: percent_of_range)
    moreover have "running g' = running g \<or> running g' = 0"
      using ru by (simp split: if_splits)
    ultimately show ?thesis
      using l(2) t lock_ok_action_io by metis
  next
    case False
    then show ?thesis
      by (cases "running g = 0"; cases r) (simp_all add: hotas_loop_running)
  qed
qed

text \<open>A run over events none of which stops the thread is the run over the rest from the position
  the events leave behind.\<close>

lemma hotas_loop_events:
  assumes "running g \<noteq> 0" and "list_all (\<lambda>e. \<not> is_stop e) es"
  shows "hotas_loop g (map ReadEvent es @ rs) =
      map_option (\<lambda>(g', io, x). (g', concat (map action_io es) @ io, x))
        (hotas_loop (g\<lparr>throttle_position := throttle_after (throttle_position g) es\<rparr>) rs)"
  using assms
proof (induction es arbitrary: g)
  case Nil
  then show ?case by (simp add: option.map_ident)
next
  case (Cons e es)
  let ?g = "g\<lparr>throttle_position := throttle_after (throttle_position g) [e]\<rparr>"
  have "hotas_loop ?g (map ReadEvent es @ rs) =
      map_option (\<lambda>(g', io, x). (g', concat (map action_io es) @ io, x))
        (hotas_loop (?g\<lparr>throttle_position := throttle_after (throttle_position ?g) es\<rparr>) rs)"
    using Cons.prems by (intro Cons.IH) simp_all
  with Cons.prems show ?case
    by (simp add: hotas_loop_running option.map_comp comp_def case_prod_beta)
qed

section \<open>Properties\<close>

text \<open>C1: for every value a 16-bit joystick axis can report, the single-precision formula of
  \<^verbatim>\<open>convert_to_percent\<close> is defined and equals the integer quotient
  \<open>(32767 - raw) * 100 div 65534\<close>; so the percentage lies between 0 and 100, decreases with the raw
  value, and the special case for 32767 agrees with the formula.\<close>

theorem convert_to_percent_exact:
  assumes "- 32768 \<le> raw" and "raw \<le> 32767"
  shows "convert_to_percent raw = Some (((32767 - raw) * 100) div 65534)
    \<and> 0 \<le> the (convert_to_percent raw) \<and> the (convert_to_percent raw) \<le> 100
    \<and> (\<forall>raw'. raw \<le> raw' \<and> raw' \<le> 32767
        \<longrightarrow> the (convert_to_percent raw') \<le> the (convert_to_percent raw))"
proof (intro conjI allI impI)
  show eq: "convert_to_percent raw = Some (((32767 - raw) * 100) div 65534)"
    using assms by (rule convert_to_percent_s16)
  show "0 \<le> the (convert_to_percent raw)"
    using assms by (simp add: eq)
  show "the (convert_to_percent raw) \<le> 100"
    unfolding eq option.sel using assms by (intro percent_bounds) auto
  fix raw' assume r: "raw \<le> raw' \<and> raw' \<le> 32767"
  with assms have "convert_to_percent raw' = Some (((32767 - raw') * 100) div 65534)"
    by (intro convert_to_percent_s16) auto
  with r show "the (convert_to_percent raw') \<le> the (convert_to_percent raw)"
    unfolding eq by (auto intro: zdiv_mono1)
qed

theorem convert_to_percent_exact_witness:
  "convert_to_percent (- 16384) = Some 75 \<and> convert_to_percent (- 32768) = Some 100
    \<and> convert_to_percent 32767 = Some 0"
  using convert_to_percent_exact [of "- 16384"] convert_to_percent_exact [of "- 32768"]
    convert_to_percent_exact [of 32767]
  by simp

text \<open>C2: whatever the open and read calls return, the joystick thread performs no undefined
  operation, stores the throttle position only while it holds the mutex and releases it, keeps the
  position between 0 and 100, and never sets \<^verbatim>\<open>running\<close> to anything but 0 (a store that the source
  makes without the mutex).\<close>

theorem hotas_inputs_safe:
  "\<exists>g' io x. hotas_inputs g js rs = Some (g', io, x) \<and> lock_ok False io
     \<and> (throttle_position g \<in> {0..100} \<longrightarrow> throttle_position g' \<in> {0..100})
     \<and> (running g' = running g \<or> running g' = 0)"
proof (cases "js < 0")
  case True
  then show ?thesis by (simp add: hotas_inputs_def)
next
  case False
  obtain g' io x where "hotas_loop g rs = Some (g', io, x)" "lock_ok False io"
    "throttle_position g \<in> {0..100} \<longrightarrow> throttle_position g' \<in> {0..100}"
    "running g' = running g \<or> running g' = 0"
    using hotas_loop_safe [of g rs] by blast
  with False show ?thesis by (simp add: hotas_inputs_def)
qed

theorem hotas_inputs_safe_witness:
  "\<exists>g' io x. hotas_inputs init_globals 3
      [ReadEvent \<lparr>js_time = 1, js_value = - 16384, js_type = JS_EVENT_AXIS, js_number = 2\<rparr>]
      = Some (g', io, x) \<and> lock_ok False io \<and> throttle_position g' \<in> {0..100}"
proof -
  have "throttle_position init_globals \<in> {0..100}" by (simp add: init_globals_def)
  then show ?thesis
    using hotas_inputs_safe [of init_globals 3
      "[ReadEvent \<lparr>js_time = 1, js_value = - 16384, js_type = JS_EVENT_AXIS, js_number = 2\<rparr>]"]
    by blast
qed

text \<open>C3: over events that contain no press of button 0 the thread leaves the position of the last
  throttle event; the press that follows ends the thread with \<^verbatim>\<open>running\<close> cleared and no later event
  counts, whereas a failed read ends the thread with \<^verbatim>\<open>running\<close> still set.\<close>

theorem hotas_inputs_events:
  assumes "0 \<le> js" and "running g \<noteq> 0" and "list_all (\<lambda>e. \<not> is_stop e) es" and "is_stop e"
  shows "(\<exists>io. hotas_inputs g js (map ReadEvent es @ ReadEvent e # rs)
      = Some (\<lparr>throttle_position = throttle_after (throttle_position g) es, running = 0\<rparr>,
          io, HotasStopped))
    \<and> (\<exists>io. hotas_inputs g js (map ReadEvent es @ ReadFail # rs)
      = Some (\<lparr>throttle_position = throttle_after (throttle_position g) es, running = running g\<rparr>,
          io, HotasReadError))"
proof -
  let ?g = "g\<lparr>throttle_position := throttle_after (throttle_position g) es\<rparr>"
  have "running ?g \<noteq> 0" using assms(2) by simp
  moreover have "\<not> is_throttle e" using assms(4) by (simp add: is_stop_def is_throttle_def)
  ultimately show ?thesis
    using assms
    by (cases g) (simp add: hotas_inputs_def hotas_loop_events hotas_loop_running)
qed

theorem hotas_inputs_events_witness:
  "\<exists>io. hotas_inputs init_globals 3
     [ReadEvent \<lparr>js_time = 1, js_value = - 16384, js_type = JS_EVENT_AXIS, js_number = 2\<rparr>,
      ReadEvent \<lparr>js_time = 2, js_value = 1, js_type = JS_EVENT_BUTTON, js_number = 0\<rparr>,
      ReadEvent \<lparr>js_time = 3, js_value = 0, js_type = JS_EVENT_AXIS, js_number = 2\<rparr>]
     = Some (\<lparr>throttle_position = 75, running = 0\<rparr>, io, HotasStopped)"
  using hotas_inputs_events [of 3 init_globals
      "[\<lparr>js_time = 1, js_value = - 16384, js_type = JS_EVENT_AXIS, js_number = 2\<rparr>]"
      "\<lparr>js_time = 2, js_value = 1, js_type = JS_EVENT_BUTTON, js_number = 0\<rparr>"
      "[ReadEvent \<lparr>js_time = 3, js_value = 0, js_type = JS_EVENT_AXIS, js_number = 2\<rparr>]"]
  by (simp add: init_globals_def is_stop_def is_throttle_def percent_of_def)

end
