(* ===== verification/Simpleble.thy ===== *)
theory Simpleble
  imports Prelude
begin

text \<open>
  The C interface of SimpleBLE that the ground station calls
  (\<^verbatim>\<open>src/libs/simpleble-main/simpleble/src_c/adapter.cpp\<close>, \<^verbatim>\<open>peripheral.cpp\<close>, \<^verbatim>\<open>simpleble.cpp\<close> and
  \<^verbatim>\<open>include/simpleble_c/types.h\<close>).  A handle is a pointer to a heap object: \<open>None\<close> is NULL, \<open>Some a\<close>
  the object at address \<open>a\<close>.  The memory that the interface hands out is tracked: the live
  peripheral handles and the number of strings that were allocated and not freed.  What the radio
  and the operating system answer is the argument \<open>env\<close>.  Allocation does not fail.
\<close>

section \<open>Types\<close>

datatype simpleble_err_t = SIMPLEBLE_SUCCESS | SIMPLEBLE_FAILURE

type_synonym uuid_str = string

record simpleble_descriptor_t =
  d_uuid :: uuid_str

record simpleble_characteristic_t =
  c_uuid :: uuid_str
  can_read :: bool
  can_write_request :: bool
  can_write_command :: bool
  can_notify :: bool
  can_indicate :: bool
  c_descriptors :: "simpleble_descriptor_t list"

record simpleble_service_t =
  s_uuid :: uuid_str
  s_data :: bytes
  s_characteristics :: "simpleble_characteristic_t list"

definition SIMPLEBLE_UUID_STR_LEN :: nat where "SIMPLEBLE_UUID_STR_LEN = 37"
definition SIMPLEBLE_CHARACTERISTIC_MAX_COUNT :: nat where
  "SIMPLEBLE_CHARACTERISTIC_MAX_COUNT = 16"
definition SIMPLEBLE_DESCRIPTOR_MAX_COUNT :: nat where "SIMPLEBLE_DESCRIPTOR_MAX_COUNT = 16"

text \<open>The answers of the C++ layer for one peripheral.\<close>

record peripheral_info =
  pi_identifier :: "string option"
  pi_address :: "string option"
  pi_connect :: bool
  pi_disconnect :: bool
  pi_services :: "simpleble_service_t list option"
  pi_read :: "uuid_str \<Rightarrow> uuid_str \<Rightarrow> bytes option"

record ble_env =
  env_adapters :: nat
  env_adapters_again :: nat
  env_adapter_identifier :: "string option"
  env_cb_start_ok :: bool
  env_cb_stop_ok :: bool
  env_cb_found_ok :: bool
  env_scan_starts :: bool
  env_found :: "nat list"
  env_scan_stops :: bool
  env_info :: "nat \<Rightarrow> peripheral_info"

text \<open>Memory owned by the interface.\<close>

record ble_heap =
  live_peripherals :: "nat set"
  live_adapter :: bool
  live_strings :: int

definition init_heap :: ble_heap where
  "init_heap = \<lparr>live_peripherals = {}, live_adapter = False, live_strings = 0\<rparr>"

section \<open>Adapters\<close>

definition adapter_addr :: nat where "adapter_addr = 0"

definition simpleble_adapter_get_count :: "ble_env \<Rightarrow> nat" where
  "simpleble_adapter_get_count env = env_adapters env"

definition simpleble_adapter_get_handle ::
  "ble_env \<Rightarrow> ble_heap \<Rightarrow> nat \<Rightarrow> nat option \<times> ble_heap" where
  "simpleble_adapter_get_handle env m index =
     (if env_adapters_again env \<le> index then (None, m)
      else (Some adapter_addr, m\<lparr>live_adapter := True\<rparr>))"

definition simpleble_adapter_release_handle :: "ble_heap \<Rightarrow> nat option \<Rightarrow> ble_heap option" where
  "simpleble_adapter_release_handle m h =
     (case h of
        None \<Rightarrow> Some m
      | Some a \<Rightarrow> if live_adapter m then Some (m\<lparr>live_adapter := False\<rparr>) else None)"

text \<open>The result of \<^verbatim>\<open>std::optional<std::string>::value_or("")\<close>, copied to a fresh C string.\<close>

definition new_c_string :: "ble_heap \<Rightarrow> string option \<Rightarrow> string \<times> ble_heap" where
  "new_c_string m s = (case s of None \<Rightarrow> '''' | Some t \<Rightarrow> t, m\<lparr>live_strings := live_strings m + 1\<rparr>)"

definition simpleble_adapter_identifier ::
  "ble_env \<Rightarrow> ble_heap \<Rightarrow> nat option \<Rightarrow> (string option \<times> ble_heap) option" where
  "simpleble_adapter_identifier env m h =
     (case h of
        None \<Rightarrow> Some (None, m)
      | Some a \<Rightarrow>
          if live_adapter m
          then let (s, m') = new_c_string m (env_adapter_identifier env) in Some (Some s, m')
          else None)"

section \<open>Peripherals\<close>

definition simpleble_peripheral_release_handle :: "ble_heap \<Rightarrow> nat option \<Rightarrow> ble_heap option" where
  "simpleble_peripheral_release_handle m h =
     (case h of
        None \<Rightarrow> Some m
      | Some a \<Rightarrow>
          if a \<in> live_peripherals m
          then Some (m\<lparr>live_peripherals := live_peripherals m - {a}\<rparr>) else None)"

definition simpleble_peripheral_identifier ::
  "ble_env \<Rightarrow> ble_heap \<Rightarrow> nat option \<Rightarrow> (string option \<times> ble_heap) option" where
  "simpleble_peripheral_identifier env m h =
     (case h of
        None \<Rightarrow> Some (None, m)
      | Some a \<Rightarrow>
          if a \<in> live_peripherals m
          then let (s, m') = new_c_string m (pi_identifier (env_info env a)) in Some (Some s, m')
          else None)"

definition simpleble_peripheral_address ::
  "ble_env \<Rightarrow> ble_heap \<Rightarrow> nat option \<Rightarrow> (string option \<times> ble_heap) option" where
  "simpleble_peripheral_address env m h =
     (case h of
        None \<Rightarrow> Some (None, m)
      | Some a \<Rightarrow>
          if a \<in> live_peripherals m
          then let (s, m') = new_c_string m (pi_address (env_info env a)) in Some (Some s, m')
          else None)"

definition simpleble_peripheral_connect ::
  "ble_env \<Rightarrow> ble_heap \<Rightarrow> nat option \<Rightarrow> simpleble_err_t option" where
  "simpleble_peripheral_connect env m h =
     (case h of
        None \<Rightarrow> Some SIMPLEBLE_FAILURE
      | Some a \<Rightarrow>
          if a \<in> live_peripherals m
          then Some (if pi_connect (env_info env a) then SIMPLEBLE_SUCCESS else SIMPLEBLE_FAILURE)
          else None)"

definition simpleble_peripheral_disconnect ::
  "ble_env \<Rightarrow> ble_heap \<Rightarrow> nat option \<Rightarrow> simpleble_err_t option" where
  "simpleble_peripheral_disconnect env m h =
     (case h of
        None \<Rightarrow> Some SIMPLEBLE_FAILURE
      | Some a \<Rightarrow>
          if a \<in> live_peripherals m
          then Some (if pi_disconnect (env_info env a) then SIMPLEBLE_SUCCESS else SIMPLEBLE_FAILURE)
          else None)"

definition simpleble_peripheral_services_count ::
  "ble_env \<Rightarrow> ble_heap \<Rightarrow> nat option \<Rightarrow> nat option" where
  "simpleble_peripheral_services_count env m h =
     (case h of
        None \<Rightarrow> Some 0
      | Some a \<Rightarrow>
          if a \<in> live_peripherals m
          then Some (case pi_services (env_info env a) of None \<Rightarrow> 0 | Some ss \<Rightarrow> length ss)
          else None)"

text \<open>\<^verbatim>\<open>memcpy(value, uuid.c_str(), SIMPLEBLE_UUID_STR_LEN)\<close>: 36 characters and the terminator.  A
  shorter string makes the copy read past its end, a longer one leaves no terminator.\<close>

definition copy_uuid :: "uuid_str \<Rightarrow> uuid_str option" where
  "copy_uuid u = (if length u + 1 = SIMPLEBLE_UUID_STR_LEN then Some u else None)"

fun map_opt :: "('a \<Rightarrow> 'b option) \<Rightarrow> 'a list \<Rightarrow> 'b list option" where
  "map_opt f [] = Some []"
| "map_opt f (x # xs) = do { y \<leftarrow> f x; ys \<leftarrow> map_opt f xs; Some (y # ys) }"

definition copy_descriptor :: "simpleble_descriptor_t \<Rightarrow> simpleble_descriptor_t option" where
  "copy_descriptor d = do { u \<leftarrow> copy_uuid (d_uuid d); Some \<lparr>d_uuid = u\<rparr> }"

definition copy_characteristic ::
  "simpleble_characteristic_t \<Rightarrow> simpleble_characteristic_t option" where
  "copy_characteristic c = do {
     u \<leftarrow> copy_uuid (c_uuid c);
     ds \<leftarrow> map_opt copy_descriptor (take SIMPLEBLE_DESCRIPTOR_MAX_COUNT (c_descriptors c));
     Some \<lparr>c_uuid = u, can_read = can_read c, can_write_request = can_write_request c,
       can_write_command = can_write_command c, can_notify = can_notify c,
       can_indicate = can_indicate c, c_descriptors = ds\<rparr>
   }"

text \<open>\<open>None\<close> also stands for service data longer than the 27-byte field it is copied into.\<close>

definition simpleble_peripheral_services_get ::
  "ble_env \<Rightarrow> ble_heap \<Rightarrow> nat option \<Rightarrow> nat \<Rightarrow> (simpleble_err_t \<times> simpleble_service_t) option" where
  "simpleble_peripheral_services_get env m h index =
     (let zero = \<lparr>s_uuid = '''', s_data = [], s_characteristics = []\<rparr> in
      case h of
        None \<Rightarrow> Some (SIMPLEBLE_FAILURE, zero)
      | Some a \<Rightarrow>
          if a \<notin> live_peripherals m then None
          else (case pi_services (env_info env a) of
              None \<Rightarrow> Some (SIMPLEBLE_FAILURE, zero)
            | Some ss \<Rightarrow>
                if length ss \<le> index then Some (SIMPLEBLE_FAILURE, zero)
                else do {
                  let s = ss ! index;
                  u \<leftarrow> copy_uuid (s_uuid s);
                  (if 27 < length (s_data s) then None else Some ());
                  cs \<leftarrow> map_opt copy_characteristic
                    (take SIMPLEBLE_CHARACTERISTIC_MAX_COUNT (s_characteristics s));
                  Some (SIMPLEBLE_SUCCESS,
                    \<lparr>s_uuid = u, s_data = s_data s, s_characteristics = cs\<rparr>)
                }))"

text \<open>The out parameters \<^verbatim>\<open>data\<close> and \<^verbatim>\<open>data_length\<close> are NULL or point to the value given; the result
  holds what they point to afterwards.\<close>

definition simpleble_peripheral_read ::
  "ble_env \<Rightarrow> ble_heap \<Rightarrow> nat option \<Rightarrow> uuid_str \<Rightarrow> uuid_str \<Rightarrow> bytes option option \<Rightarrow> nat option
     \<Rightarrow> (simpleble_err_t \<times> bytes option option \<times> nat option) option" where
  "simpleble_peripheral_read env m h service characteristic data data_length =
     (case (h, data, data_length) of
        (Some a, Some _, Some _) \<Rightarrow>
          if a \<notin> live_peripherals m then None
          else (case pi_read (env_info env a) service characteristic of
              None \<Rightarrow> Some (SIMPLEBLE_FAILURE, Some None, Some 0)
            | Some bs \<Rightarrow> Some (SIMPLEBLE_SUCCESS, Some (Some bs), Some (length bs)))
      | _ \<Rightarrow> Some (SIMPLEBLE_FAILURE, data, data_length))"

text \<open>\<^verbatim>\<open>free\<close>: nothing for NULL, otherwise one string less.\<close>

definition simpleble_free :: "ble_heap \<Rightarrow> string option \<Rightarrow> ble_heap" where
  "simpleble_free m s =
     (case s of None \<Rightarrow> m | Some _ \<Rightarrow> m\<lparr>live_strings := live_strings m - 1\<rparr>)"

section \<open>Facts\<close>

lemmas simpleble_defs = simpleble_adapter_get_count_def simpleble_adapter_get_handle_def
  simpleble_adapter_release_handle_def new_c_string_def simpleble_adapter_identifier_def
  simpleble_peripheral_release_handle_def simpleble_peripheral_identifier_def
  simpleble_peripheral_address_def simpleble_peripheral_connect_def
  simpleble_peripheral_disconnect_def simpleble_peripheral_services_count_def
  simpleble_free_def

lemma simpleble_peripheral_read_null:
  "data = None \<or> data_length = None \<Longrightarrow>
     simpleble_peripheral_read env m h su cu data data_length
       = Some (SIMPLEBLE_FAILURE, data, data_length)"
  by (auto simp: simpleble_peripheral_read_def split: option.splits)

lemma map_opt_Some_iff: "map_opt f xs = Some ys \<longleftrightarrow> list_all2 (\<lambda>x y. f x = Some y) xs ys"
  by (induction xs arbitrary: ys)
    (auto simp: list_all2_Cons1 bind_eq_Some_conv)

lemma map_opt_total: "(\<And>x. x \<in> set xs \<Longrightarrow> f x = Some (g x)) \<Longrightarrow> map_opt f xs = Some (map g xs)"
  by (induction xs) auto

end
