(* ===== verification/Scan.thy ===== *)
theory Scan
  imports Simpleble
begin

text \<open>
  The Bluetooth thread of the ground station, \<^verbatim>\<open>src/src/scan.c\<close>: the scan callbacks, the choice of
  the peripheral named \<^verbatim>\<open>ESP32_Control\<close>, the connection and the walk over its services up to the
  sending loop, and \<^verbatim>\<open>clean_on_exit\<close>.  The sending loop itself runs concurrently with the other
  threads and is part of the theory \<open>Control\<close>.  File-scope variables are the record \<open>scan_state\<close>.
\<close>

section \<open>State\<close>

definition PERIPHERAL_LIST_SIZE :: nat where "PERIPHERAL_LIST_SIZE = 10"

definition SERVICE_UUID :: string where
  "SERVICE_UUID = ''12345678-1234-1234-1234-1234567890ab''"

definition CHARACTERISTIC_UUID :: string where
  "CHARACTERISTIC_UUID = ''0000fff1-0000-1000-8000-00805f9b34fb''"

datatype scan_out =
    NoAdapterFound
  | ScanStarted string
  | ScanStopped string
  | DeviceFound string string string
  | DevicesHeader
  | EspFound
  | DeviceListed nat string string
  | Connecting string string
  | ConnectFailed
  | ListingServices nat
  | ServiceFailed
  | RightService
  | ReadError
  | ValueRead nat bytes
  | CharacteristicListed string nat
  | DescriptorListed string
  | ServiceListed string nat
  | RightCharac
  | Releasing

record scan_state =
  peripheral_list :: "nat option list"
  peripheral_list_len :: nat
  adapter :: "nat option"
  service_nb :: int
  charac_nb :: int
  heap :: ble_heap
  cb_start :: bool
  cb_stop :: bool
  cb_found :: bool
  out :: "scan_out list"

definition init_scan_state :: scan_state where
  "init_scan_state = \<lparr>peripheral_list = replicate PERIPHERAL_LIST_SIZE None,
     peripheral_list_len = 0, adapter = None, service_nb = -1, charac_nb = -1, heap = init_heap,
     cb_start = False, cb_stop = False, cb_found = False, out = []\<rparr>"

definition print :: "scan_out \<Rightarrow> scan_state \<Rightarrow> scan_state" where
  "print o1 s = s\<lparr>out := out s @ [o1]\<rparr>"

section \<open>Callbacks\<close>

definition adapter_on_scan_start :: "ble_env \<Rightarrow> scan_state \<Rightarrow> nat option \<Rightarrow> scan_state option" where
  "adapter_on_scan_start env s ad = do {
     (identifier, m) \<leftarrow> simpleble_adapter_identifier env (heap s) ad;
     (case identifier of
        None \<Rightarrow> Some (s\<lparr>heap := m\<rparr>)
      | Some i \<Rightarrow> Some (print (ScanStarted i) (s\<lparr>heap := simpleble_free m identifier\<rparr>)))
   }"

definition adapter_on_scan_stop :: "ble_env \<Rightarrow> scan_state \<Rightarrow> nat option \<Rightarrow> scan_state option" where
  "adapter_on_scan_stop env s ad = do {
     (identifier, m) \<leftarrow> simpleble_adapter_identifier env (heap s) ad;
     (case identifier of
        None \<Rightarrow> Some (s\<lparr>heap := m\<rparr>)
      | Some i \<Rightarrow> Some (print (ScanStopped i) (s\<lparr>heap := simpleble_free m identifier\<rparr>)))
   }"

definition adapter_on_scan_found ::
  "ble_env \<Rightarrow> scan_state \<Rightarrow> nat option \<Rightarrow> nat option \<Rightarrow> scan_state option" where
  "adapter_on_scan_found env s ad peripheral = do {
     (adapter_identifier, m1) \<leftarrow> simpleble_adapter_identifier env (heap s) ad;
     (peripheral_identifier, m2) \<leftarrow> simpleble_peripheral_identifier env m1 peripheral;
     (peripheral_address, m3) \<leftarrow> simpleble_peripheral_address env m2 peripheral;
     (case (adapter_identifier, peripheral_identifier, peripheral_address) of
        (Some ai, Some i, Some a) \<Rightarrow> do {
          let s1 = print (DeviceFound ai i a) (s\<lparr>heap := m3\<rparr>);
          s2 \<leftarrow> (if peripheral_list_len s1 < PERIPHERAL_LIST_SIZE
                then Some (s1\<lparr>peripheral_list :=
                         (peripheral_list s1)[peripheral_list_len s1 := peripheral],
                       peripheral_list_len := peripheral_list_len s1 + 1\<rparr>)
                else do {
                  m4 \<leftarrow> simpleble_peripheral_release_handle (heap s1) peripheral;
                  Some (s1\<lparr>heap := m4\<rparr>)
                });
          Some (s2\<lparr>heap := simpleble_free (simpleble_free (heap s2) peripheral_identifier)
                           peripheral_address\<rparr>)
        }
      | _ \<Rightarrow> Some (s\<lparr>heap := m3\<rparr>))
   }"

definition peripheral_on_notify :: "scan_state \<Rightarrow> bytes \<Rightarrow> nat \<Rightarrow> scan_state option" where
  "peripheral_on_notify s data data_length = do {
     bs \<leftarrow> mem_read data 0 data_length;
     Some (print (ValueRead data_length bs) s)
   }"

section \<open>Scanning\<close>

text \<open>The library allocates a handle for each device it reports and passes it to the callback.\<close>

fun deliver_found :: "ble_env \<Rightarrow> nat option \<Rightarrow> nat list \<Rightarrow> scan_state \<Rightarrow> scan_state option" where
  "deliver_found env ad [] s = Some s"
| "deliver_found env ad (h # hs) s = do {
     let s1 = s\<lparr>heap := (heap s)\<lparr>live_peripherals := insert h (live_peripherals (heap s))\<rparr>\<rparr>;
     s2 \<leftarrow> adapter_on_scan_found env s1 ad (Some h);
     deliver_found env ad hs s2
   }"

definition simpleble_adapter_scan_for ::
  "ble_env \<Rightarrow> nat option \<Rightarrow> scan_state \<Rightarrow> scan_state option" where
  "simpleble_adapter_scan_for env ad s =
     (case ad of
        None \<Rightarrow> Some s
      | Some _ \<Rightarrow> do {
          s1 \<leftarrow> (if cb_start s \<and> env_scan_starts env then adapter_on_scan_start env s ad else Some s);
          s2 \<leftarrow> (if cb_found s1 then deliver_found env ad (env_found env) s1 else Some s1);
          (if cb_stop s2 \<and> env_scan_stops env then adapter_on_scan_stop env s2 ad else Some s2)
        })"

section \<open>Choosing the peripheral\<close>

definition ESP32_NAME :: string where "ESP32_NAME = ''ESP32_Control''"

text \<open>The loop that lists the devices found: \<open>sel\<close> is the variable \<^verbatim>\<open>selection\<close>.\<close>

fun list_devices :: "ble_env \<Rightarrow> nat list \<Rightarrow> int \<Rightarrow> scan_state \<Rightarrow> (int \<times> scan_state) option" where
  "list_devices env [] sel s = Some (sel, s)"
| "list_devices env (i # is) sel s = do {
     peripheral \<leftarrow> (if i < length (peripheral_list s) then Some (peripheral_list s ! i) else None);
     (ident, m1) \<leftarrow> simpleble_peripheral_identifier env (heap s) peripheral;
     (addr, m2) \<leftarrow> simpleble_peripheral_address env m1 peripheral;
     id \<leftarrow> ident;
     ad \<leftarrow> addr;
     let s1 = s\<lparr>heap := simpleble_free (simpleble_free m2 ident) addr\<rparr>;
     (if id = ESP32_NAME
      then list_devices env is (int i) (print EspFound s1)
      else list_devices env is sel (print (DeviceListed i id ad) s1))
   }"

text \<open>\<^verbatim>\<open>peripheral_list[selection]\<close>: reading outside the array is undefined.\<close>

definition select_peripheral :: "scan_state \<Rightarrow> int \<Rightarrow> nat option option" where
  "select_peripheral s selection =
     (if 0 \<le> selection \<and> selection < int (length (peripheral_list s))
      then Some (peripheral_list s ! nat selection) else None)"

section \<open>Walking over the services\<close>

fun print_descriptors :: "simpleble_descriptor_t list \<Rightarrow> scan_state \<Rightarrow> scan_state" where
  "print_descriptors [] s = s"
| "print_descriptors (d # ds) s = print_descriptors ds (print (DescriptorListed (d_uuid d)) s)"

definition print_characteristic :: "simpleble_characteristic_t \<Rightarrow> scan_state \<Rightarrow> scan_state" where
  "print_characteristic c s = print_descriptors (c_descriptors c)
     (print (CharacteristicListed (c_uuid c) (length (c_descriptors c))) s)"

text \<open>The first inner loop, over the characteristics of the wanted service.  The boolean of the result
  says that the thread returned.  \<^verbatim>\<open>data\<close> and \<^verbatim>\<open>data_length\<close> are NULL pointers in the source; after a
  successful read the code would dereference them.\<close>

fun probe_characteristics ::
  "ble_env \<Rightarrow> nat option \<Rightarrow> simpleble_service_t \<Rightarrow> nat list \<Rightarrow> scan_state
     \<Rightarrow> (bool \<times> scan_state) option" where
  "probe_characteristics env peripheral service [] s = Some (False, s)"
| "probe_characteristics env peripheral service (j # js) s = do {
     let c = s_characteristics service ! j;
     (if c_uuid c = CHARACTERISTIC_UUID
      then do {
        let s1 = s\<lparr>charac_nb := int j\<rparr>;
        (err, data, data_length) \<leftarrow> simpleble_peripheral_read env (heap s1) peripheral
            (s_uuid service) (c_uuid (s_characteristics service ! j)) None None;
        (if err \<noteq> SIMPLEBLE_SUCCESS then Some (True, print ReadError s1)
         else do {
           n \<leftarrow> data_length;
           p \<leftarrow> data;
           buf \<leftarrow> p;
           bs \<leftarrow> mem_read buf 0 n;
           probe_characteristics env peripheral service js
             (print_characteristic c (print (ValueRead n bs) s1))
         })
      }
      else probe_characteristics env peripheral service js (print_characteristic c s))
   }"

text \<open>The second inner loop, over the characteristics of every service.\<close>

fun list_characteristics ::
  "simpleble_characteristic_t list \<Rightarrow> nat \<Rightarrow> scan_state \<Rightarrow> scan_state" where
  "list_characteristics [] j s = s"
| "list_characteristics (c # cs) j s =
     (let s1 = (if c_uuid c = CHARACTERISTIC_UUID
                then print RightCharac (s\<lparr>charac_nb := int j\<rparr>) else s)
      in list_characteristics cs (Suc j) (print_characteristic c s1))"

fun walk_services ::
  "ble_env \<Rightarrow> nat option \<Rightarrow> nat list \<Rightarrow> scan_state \<Rightarrow> (bool \<times> scan_state) option" where
  "walk_services env peripheral [] s = Some (False, s)"
| "walk_services env peripheral (i # is) s = do {
     (err_code, service) \<leftarrow> simpleble_peripheral_services_get env (heap s) peripheral i;
     (if err_code \<noteq> SIMPLEBLE_SUCCESS then Some (True, print ServiceFailed s)
      else do {
        (returned, s1) \<leftarrow>
          (if SERVICE_UUID = s_uuid service
           then probe_characteristics env peripheral service
                  [0..<length (s_characteristics service)]
                  (print RightService (s\<lparr>service_nb := int i\<rparr>))
           else Some (False, s));
        (if returned then Some (True, s1)
         else walk_services env peripheral is
           (list_characteristics (s_characteristics service) 0
             (print (ServiceListed (s_uuid service) (length (s_characteristics service))) s1)))
      })
   }"

section \<open>The thread up to its sending loop\<close>

datatype setup_result = SetupReturned | SetupLoop "nat option"

definition ble_connect ::
  "ble_env \<Rightarrow> nat option \<Rightarrow> scan_state \<Rightarrow> (setup_result \<times> scan_state) option" where
  "ble_connect env peripheral s = do {
     (ident, m1) \<leftarrow> simpleble_peripheral_identifier env (heap s) peripheral;
     (addr, m2) \<leftarrow> simpleble_peripheral_address env m1 peripheral;
     id \<leftarrow> ident;
     ad \<leftarrow> addr;
     let s1 = print (Connecting id ad)
                (s\<lparr>heap := simpleble_free (simpleble_free m2 ident) addr\<rparr>);
     err_code \<leftarrow> simpleble_peripheral_connect env (heap s1) peripheral;
     (if err_code \<noteq> SIMPLEBLE_SUCCESS then Some (SetupReturned, print ConnectFailed s1)
      else do {
        services_count \<leftarrow> simpleble_peripheral_services_count env (heap s1) peripheral;
        (returned, s2) \<leftarrow> walk_services env peripheral [0..<services_count]
            (print (ListingServices services_count) s1);
        Some (if returned then SetupReturned else SetupLoop peripheral, s2)
      })
   }"

definition ble_setup :: "ble_env \<Rightarrow> scan_state \<Rightarrow> (setup_result \<times> scan_state) option" where
  "ble_setup env s =
     (if simpleble_adapter_get_count env = 0 then Some (SetupReturned, print NoAdapterFound s)
      else
        let (h, m) = simpleble_adapter_get_handle env (heap s) 0;
            s1 = s\<lparr>adapter := h, heap := m\<rparr>
        in if h = None then Some (SetupReturned, print NoAdapterFound s1)
           else do {
             let s2 = s1\<lparr>cb_start := env_cb_start_ok env, cb_stop := env_cb_stop_ok env,
                         cb_found := env_cb_found_ok env\<rparr>;
             s3 \<leftarrow> simpleble_adapter_scan_for env h s2;
             (selection, s4) \<leftarrow>
                list_devices env [0..<peripheral_list_len s3] (-1) (print DevicesHeader s3);
             peripheral \<leftarrow> select_peripheral s4 selection;
             ble_connect env peripheral s4
           })"

section \<open>Cleaning up\<close>

fun release_all :: "nat option list \<Rightarrow> ble_heap \<Rightarrow> ble_heap option" where
  "release_all [] m = Some m"
| "release_all (h # hs) m = do { m' \<leftarrow> simpleble_peripheral_release_handle m h; release_all hs m' }"

definition clean_on_exit :: "scan_state \<Rightarrow> scan_state option" where
  "clean_on_exit s = do {
     m \<leftarrow> release_all (take (peripheral_list_len s) (peripheral_list s)) (heap s);
     m' \<leftarrow> simpleble_adapter_release_handle m (adapter s);
     Some ((print Releasing s)\<lparr>heap := m'\<rparr>)
   }"

section \<open>The scan invariant\<close>

text \<open>The handles kept in the array, and the invariant of the array: its first
  \<^verbatim>\<open>peripheral_list_len\<close> slots hold distinct handles, and these are the live ones.\<close>

definition saved :: "scan_state \<Rightarrow> nat list" where
  "saved s = map the (take (peripheral_list_len s) (peripheral_list s))"

definition scan_inv :: "scan_state \<Rightarrow> bool" where
  "scan_inv s \<longleftrightarrow> length (peripheral_list s) = PERIPHERAL_LIST_SIZE
     \<and> peripheral_list_len s \<le> PERIPHERAL_LIST_SIZE
     \<and> take (peripheral_list_len s) (peripheral_list s) = map Some (saved s)
     \<and> distinct (saved s) \<and> live_peripherals (heap s) = set (saved s)"

lemma scan_inv_init: "scan_inv init_scan_state"
  by (simp add: scan_inv_def init_scan_state_def saved_def init_heap_def)

lemma scan_inv_length: "scan_inv s \<Longrightarrow> length (saved s) = peripheral_list_len s"
  by (simp add: scan_inv_def saved_def)

lemma scan_inv_nth:
  "scan_inv s \<Longrightarrow> i < peripheral_list_len s \<Longrightarrow> peripheral_list s ! i = Some (saved s ! i)"
  unfolding scan_inv_def
  by (metis length_map length_take min.absorb2 nth_map nth_take)

lemma scan_inv_print [simp]: "scan_inv (print p s) = scan_inv s" "saved (print p s) = saved s"
  by (simp_all add: scan_inv_def saved_def print_def)

definition device_name :: "ble_env \<Rightarrow> nat \<Rightarrow> string" where
  "device_name env h = (case pi_identifier (env_info env h) of None \<Rightarrow> '''' | Some t \<Rightarrow> t)"

lemmas handle_simps = simpleble_adapter_identifier_def simpleble_peripheral_identifier_def
  simpleble_peripheral_address_def new_c_string_def simpleble_free_def print_def Let_def

text \<open>One found device: it is saved while there is room and released otherwise, and each call leaves
  one string (the adapter's identifier) allocated.\<close>

lemma scan_found_step:
  assumes inv: "scan_inv s" and live: "live_adapter (heap s)" and fresh: "h \<notin> live_peripherals (heap s)"
  defines "s1 \<equiv> s\<lparr>heap := (heap s)\<lparr>live_peripherals := insert h (live_peripherals (heap s))\<rparr>\<rparr>"
  shows "\<exists>s'. adapter_on_scan_found env s1 (Some a) (Some h) = Some s' \<and> scan_inv s'
    \<and> saved s' = take PERIPHERAL_LIST_SIZE (saved s @ [h]) \<and> live_adapter (heap s')
    \<and> live_strings (heap s') = live_strings (heap s) + 1
    \<and> adapter s' = adapter s \<and> cb_stop s' = cb_stop s"
proof (cases "peripheral_list_len s < PERIPHERAL_LIST_SIZE")
  case True
  have "take (Suc (peripheral_list_len s)) ((peripheral_list s)[peripheral_list_len s := Some h])
      = map Some (saved s @ [h])"
    using inv True by (simp add: scan_inv_def take_Suc_conv_app_nth)
  then show ?thesis
    using inv live fresh True scan_inv_length [OF inv]
    by (auto simp: adapter_on_scan_found_def s1_def handle_simps scan_inv_def saved_def
        take_Suc_conv_app_nth)
next
  case False
  then have "peripheral_list_len s = PERIPHERAL_LIST_SIZE"
    using inv by (simp add: scan_inv_def)
  then show ?thesis
    using inv live fresh scan_inv_length [OF inv]
    by (auto simp: adapter_on_scan_found_def s1_def handle_simps scan_inv_def saved_def
        simpleble_peripheral_release_handle_def)
qed

lemma deliver_found_spec:
  assumes "scan_inv s" and "live_adapter (heap s)" and "distinct hs"
    and "set hs \<inter> live_peripherals (heap s) = {}"
  shows "\<exists>s'. deliver_found env (Some a) hs s = Some s' \<and> scan_inv s'
    \<and> saved s' = take PERIPHERAL_LIST_SIZE (saved s @ hs) \<and> live_adapter (heap s')
    \<and> live_strings (heap s') = live_strings (heap s) + int (length hs)
    \<and> adapter s' = adapter s \<and> cb_stop s' = cb_stop s"
  using assms
proof (induction hs arbitrary: s)
  case Nil
  then have "length (saved s) \<le> PERIPHERAL_LIST_SIZE"
    using scan_inv_length [of s] by (simp add: scan_inv_def)
  with Nil show ?case by simp
next
  case (Cons h hs)
  let ?s1 = "s\<lparr>heap := (heap s)\<lparr>live_peripherals := insert h (live_peripherals (heap s))\<rparr>\<rparr>"
  have "h \<notin> live_peripherals (heap s)" using Cons.prems by auto
  from scan_found_step [OF Cons.prems(1,2) this, of env a] obtain s2 where
    s2: "adapter_on_scan_found env ?s1 (Some a) (Some h) = Some s2" "scan_inv s2"
      "saved s2 = take PERIPHERAL_LIST_SIZE (saved s @ [h])" "live_adapter (heap s2)"
      "live_strings (heap s2) = live_strings (heap s) + 1"
      "adapter s2 = adapter s" "cb_stop s2 = cb_stop s" by blast
  have "set (saved s2) \<subseteq> insert h (live_peripherals (heap s))"
    using s2(3) Cons.prems(1) by (auto simp: scan_inv_def dest: in_set_takeD)
  moreover have "live_peripherals (heap s2) = set (saved s2)"
    using s2(2) by (simp add: scan_inv_def)
  ultimately have "set hs \<inter> live_peripherals (heap s2) = {}"
    using Cons.prems(3,4) by auto
  with Cons.IH [OF s2(2,4)] Cons.prems(3) obtain s' where
    "deliver_found env (Some a) hs s2 = Some s'" "scan_inv s'"
    "saved s' = take PERIPHERAL_LIST_SIZE (saved s2 @ hs)" "live_adapter (heap s')"
    "live_strings (heap s') = live_strings (heap s2) + int (length hs)"
    "adapter s' = adapter s2" "cb_stop s' = cb_stop s2" by auto
  moreover have "take PERIPHERAL_LIST_SIZE (saved s2 @ hs)
      = take PERIPHERAL_LIST_SIZE (saved s @ h # hs)"
    unfolding s2(3) take_append_take by simp
  ultimately show ?case using s2 by (simp add: Let_def)
qed

lemma scan_callbacks:
  assumes "live_adapter (heap s)"
  shows "adapter_on_scan_start env s (Some a)
      = Some (print (ScanStarted (case env_adapter_identifier env of None \<Rightarrow> '''' | Some t \<Rightarrow> t)) s)"
    and "adapter_on_scan_stop env s (Some a)
      = Some (print (ScanStopped (case env_adapter_identifier env of None \<Rightarrow> '''' | Some t \<Rightarrow> t)) s)"
  using assms by (simp_all add: adapter_on_scan_start_def adapter_on_scan_stop_def handle_simps)

lemma print_fields [simp]:
  "heap (print p s) = heap s" "adapter (print p s) = adapter s" "cb_found (print p s) = cb_found s"
  "cb_start (print p s) = cb_start s" "cb_stop (print p s) = cb_stop s"
  "peripheral_list (print p s) = peripheral_list s"
  "peripheral_list_len (print p s) = peripheral_list_len s"
  "charac_nb (print p s) = charac_nb s" "service_nb (print p s) = service_nb s"
  by (simp_all add: print_def)

text \<open>A scan that starts from no devices keeps the first ten that are reported.\<close>

lemma scan_for_spec:
  assumes "scan_inv s" and "live_adapter (heap s)" and "saved s = []"
    and "distinct (env_found env)" and "cb_found s"
  shows "\<exists>s'. simpleble_adapter_scan_for env (Some a) s = Some s' \<and> scan_inv s'
    \<and> saved s' = take PERIPHERAL_LIST_SIZE (env_found env) \<and> live_adapter (heap s')
    \<and> live_strings (heap s') = live_strings (heap s) + int (length (env_found env))
    \<and> adapter s' = adapter s"
proof -
  obtain s1 where s1: "(if cb_start s \<and> env_scan_starts env
      then adapter_on_scan_start env s (Some a) else Some s) = Some s1"
    "scan_inv s1" "saved s1 = []" "live_adapter (heap s1)" "cb_found s1"
    "live_strings (heap s1) = live_strings (heap s)" "adapter s1 = adapter s"
    using assms by (cases "cb_start s \<and> env_scan_starts env") (auto simp: scan_callbacks)
  have "live_peripherals (heap s1) = {}" using s1(2,3) by (simp add: scan_inv_def)
  with deliver_found_spec [OF s1(2,4) assms(4), of env a] s1(3)
  obtain s2 where s2: "deliver_found env (Some a) (env_found env) s1 = Some s2" "scan_inv s2"
    "saved s2 = take PERIPHERAL_LIST_SIZE (env_found env)" "live_adapter (heap s2)"
    "live_strings (heap s2) = live_strings (heap s1) + int (length (env_found env))"
    "adapter s2 = adapter s1" by auto
  show ?thesis
    using s1 s2
    by (cases "cb_stop s2 \<and> env_scan_stops env")
      (simp_all add: simpleble_adapter_scan_for_def scan_callbacks)
qed

section \<open>The selection\<close>

definition selected :: "ble_env \<Rightarrow> nat list \<Rightarrow> nat list \<Rightarrow> int \<Rightarrow> int" where
  "selected env hs is sel = foldl (\<lambda>a i. if device_name env (hs ! i) = ESP32_NAME then int i else a) sel is"

lemma same_but_out:
  "s'\<lparr>out := x\<rparr> = s\<lparr>out := y\<rparr> \<Longrightarrow> s'\<lparr>out := z\<rparr> = s\<lparr>out := z\<rparr>" for s s' :: scan_state
  by (cases s; cases s') simp

lemma list_devices_spec:
  assumes "scan_inv s" and "\<forall>i\<in>set is. i < peripheral_list_len s"
  shows "\<exists>s'. list_devices env is sel s = Some (selected env (saved s) is sel, s')
    \<and> s'\<lparr>out := out s\<rparr> = s"
  using assms
proof (induction "is" arbitrary: sel s)
  case Nil
  then show ?case by (simp add: selected_def)
next
  case (Cons i "is")
  let ?h = "saved s ! i"
  let ?line = "if device_name env ?h = ESP32_NAME then EspFound else DeviceListed i
    (device_name env ?h) (case pi_address (env_info env ?h) of None \<Rightarrow> '''' | Some t \<Rightarrow> t)"
  let ?sel = "if device_name env ?h = ESP32_NAME then int i else sel"
  have i: "i < length (saved s)" "i < length (peripheral_list s)"
    using Cons.prems scan_inv_length [of s] by (auto simp: scan_inv_def)
  then have "?h \<in> live_peripherals (heap s)"
    using Cons.prems(1) by (simp add: scan_inv_def)
  moreover have "peripheral_list s ! i = Some ?h"
    using Cons.prems by (intro scan_inv_nth) auto
  ultimately have step: "list_devices env (i # is) sel s = list_devices env is ?sel (print ?line s)"
    using i by (simp add: handle_simps device_name_def)
  have "\<forall>j\<in>set is. j < peripheral_list_len (print ?line s)"
    using Cons.prems(2) by (simp add: print_def)
  with Cons.IH [of "print ?line s" ?sel] Cons.prems(1) obtain s' where
    "list_devices env is ?sel (print ?line s)
       = Some (selected env (saved s) is ?sel, s')" "s'\<lparr>out := out (print ?line s)\<rparr> = print ?line s"
    by auto
  moreover from this(2) have "s'\<lparr>out := out s\<rparr> = s"
    using same_but_out [where s = s and s' = s' and z = "out s"]
    by (simp add: print_def)
  moreover have "selected env (saved s) (i # is) sel = selected env (saved s) is ?sel"
    by (simp add: selected_def)
  ultimately show ?case using step by auto
qed

lemma selected_none:
  "(\<And>i. i \<in> set is \<Longrightarrow> device_name env (hs ! i) \<noteq> ESP32_NAME) \<Longrightarrow> selected env hs is sel = sel"
  by (induction "is" arbitrary: sel) (simp_all add: selected_def)

lemma selected_some:
  assumes "i \<in> set is" and "device_name env (hs ! i) = ESP32_NAME"
  shows "\<exists>j\<in>set is. selected env hs is sel = int j \<and> device_name env (hs ! j) = ESP32_NAME"
  using assms
proof (induction "is" arbitrary: sel rule: rev_induct)
  case (snoc j "is")
  then show ?case
    by (cases "device_name env (hs ! j) = ESP32_NAME") (auto simp: selected_def)
qed simp

section \<open>The walk over the services\<close>

lemma print_characteristic_fields [simp]:
  "heap (print_characteristic c s) = heap s"
  "peripheral_list (print_characteristic c s) = peripheral_list s"
  "peripheral_list_len (print_characteristic c s) = peripheral_list_len s"
  "adapter (print_characteristic c s) = adapter s"
proof -
  have "heap (print_descriptors ds s) = heap s
    \<and> peripheral_list (print_descriptors ds s) = peripheral_list s
    \<and> peripheral_list_len (print_descriptors ds s) = peripheral_list_len s
    \<and> adapter (print_descriptors ds s) = adapter s" for ds s
    by (induction ds arbitrary: s) auto
  then show "heap (print_characteristic c s) = heap s"
    "peripheral_list (print_characteristic c s) = peripheral_list s"
    "peripheral_list_len (print_characteristic c s) = peripheral_list_len s"
    "adapter (print_characteristic c s) = adapter s"
    by (simp_all add: print_characteristic_def)
qed

text \<open>Reading through NULL out parameters always fails, so meeting the wanted characteristic inside
  the wanted service makes the thread return.\<close>

lemma probe_characteristics_spec:
  "\<exists>s'. probe_characteristics env p service js s
     = Some (\<exists>j\<in>set js. c_uuid (s_characteristics service ! j) = CHARACTERISTIC_UUID, s')
     \<and> heap s' = heap s
     \<and> ((\<exists>j\<in>set js. c_uuid (s_characteristics service ! j) = CHARACTERISTIC_UUID)
         \<longrightarrow> last (out s') = ReadError)"
proof (induction js arbitrary: s)
  case (Cons j js)
  from Cons.IH [of "print_characteristic (s_characteristics service ! j) s"] show ?case
    by (cases "c_uuid (s_characteristics service ! j) = CHARACTERISTIC_UUID")
      (simp_all add: Let_def simpleble_peripheral_read_null print_def)
qed simp

lemma list_characteristics_heap [simp]: "heap (list_characteristics cs j s) = heap s"
  by (induction cs arbitrary: j s) (auto simp: Let_def)

text \<open>The peripheral offers the wanted characteristic: in the wanted service, among the characteristics
  that the structure of the C interface has room for.\<close>

definition wanted_service :: "simpleble_service_t \<Rightarrow> bool" where
  "wanted_service sv \<longleftrightarrow> s_uuid sv = SERVICE_UUID
     \<and> CHARACTERISTIC_UUID \<in> c_uuid ` set (take SIMPLEBLE_CHARACTERISTIC_MAX_COUNT (s_characteristics sv))"

definition offers_control :: "simpleble_service_t list \<Rightarrow> bool" where
  "offers_control services \<longleftrightarrow> (\<exists>sv\<in>set services. wanted_service sv)"

lemma offers_control_nth: "offers_control services \<longleftrightarrow> (\<exists>i<length services. wanted_service (services ! i))"
  unfolding offers_control_def by (metis in_set_conv_nth)

text \<open>The service can be copied into that structure: UUIDs of 36 characters, service data that fits.\<close>

definition characteristic_fits :: "simpleble_characteristic_t \<Rightarrow> bool" where
  "characteristic_fits c \<longleftrightarrow> length (c_uuid c) = 36
     \<and> (\<forall>d\<in>set (take SIMPLEBLE_DESCRIPTOR_MAX_COUNT (c_descriptors c)). length (d_uuid d) = 36)"

definition service_fits :: "simpleble_service_t \<Rightarrow> bool" where
  "service_fits sv \<longleftrightarrow> length (s_uuid sv) = 36 \<and> length (s_data sv) \<le> 27
     \<and> (\<forall>c\<in>set (take SIMPLEBLE_CHARACTERISTIC_MAX_COUNT (s_characteristics sv)). characteristic_fits c)"

lemma copy_uuid_fits [simp]: "length u = 36 \<Longrightarrow> copy_uuid u = Some u"
  by (simp add: copy_uuid_def SIMPLEBLE_UUID_STR_LEN_def)

lemma copy_uuid_same: "copy_uuid u = Some v \<Longrightarrow> v = u"
  by (simp add: copy_uuid_def split: if_splits)

lemma copy_characteristic_fits:
  assumes "characteristic_fits c"
  shows "copy_characteristic c \<noteq> None"
proof -
  have "map_opt copy_descriptor (take SIMPLEBLE_DESCRIPTOR_MAX_COUNT (c_descriptors c))
      = Some (map id (take SIMPLEBLE_DESCRIPTOR_MAX_COUNT (c_descriptors c)))"
    using assms by (intro map_opt_total) (simp add: copy_descriptor_def characteristic_fits_def)
  then show ?thesis
    using assms by (simp add: copy_characteristic_def characteristic_fits_def)
qed

lemma services_get_copy:
  assumes "simpleble_peripheral_services_get env m (Some h) i = Some (SIMPLEBLE_SUCCESS, sv)"
    and "pi_services (env_info env h) = Some services"
  shows "s_uuid sv = s_uuid (services ! i)" and "map c_uuid (s_characteristics sv)
    = map c_uuid (take SIMPLEBLE_CHARACTERISTIC_MAX_COUNT (s_characteristics (services ! i)))"
proof -
  let ?cs = "take SIMPLEBLE_CHARACTERISTIC_MAX_COUNT (s_characteristics (services ! i))"
  have get: "map_opt copy_characteristic ?cs = Some (s_characteristics sv)"
    "copy_uuid (s_uuid (services ! i)) = Some (s_uuid sv)"
    using assms
    by (auto simp: simpleble_peripheral_services_get_def bind_eq_Some_conv Let_def split: if_splits)
  have "list_all2 (\<lambda>x y. c_uuid x = c_uuid y) ?cs (s_characteristics sv)"
    using get(1) unfolding map_opt_Some_iff
    by (rule list_all2_mono) (auto simp: copy_characteristic_def bind_eq_Some_conv dest: copy_uuid_same)
  then have "map c_uuid ?cs = map c_uuid (s_characteristics sv)"
    by (simp add: list_all2_map1 list_all2_map2 list_all2_eq)
  then show "map c_uuid (s_characteristics sv) = map c_uuid ?cs" by simp
  show "s_uuid sv = s_uuid (services ! i)"
    using get(2) by (rule copy_uuid_same)
qed

text \<open>Whether the loop of \<^verbatim>\<open>walk_services\<close> probes the wanted characteristic.\<close>

lemma wanted_copy:
  assumes "simpleble_peripheral_services_get env m (Some h) i = Some (SIMPLEBLE_SUCCESS, sv)"
    and "pi_services (env_info env h) = Some services"
  shows "wanted_service (services ! i) \<longleftrightarrow> SERVICE_UUID = s_uuid sv
    \<and> (\<exists>j<length (s_characteristics sv). c_uuid (s_characteristics sv ! j) = CHARACTERISTIC_UUID)"
proof -
  note copy = services_get_copy [OF assms]
  have "c_uuid ` set (take SIMPLEBLE_CHARACTERISTIC_MAX_COUNT (s_characteristics (services ! i)))
      = c_uuid ` set (s_characteristics sv)"
    using copy(2) by (metis set_map)
  moreover have "CHARACTERISTIC_UUID \<in> c_uuid ` set (s_characteristics sv)
      \<longleftrightarrow> (\<exists>j<length (s_characteristics sv). c_uuid (s_characteristics sv ! j) = CHARACTERISTIC_UUID)"
    by (metis image_iff in_set_conv_nth)
  ultimately show ?thesis
    using copy(1) by (auto simp: wanted_service_def)
qed

lemma services_get_fits:
  assumes "h \<in> live_peripherals m" and "pi_services (env_info env h) = Some services"
    and "i < length services" and "service_fits (services ! i)"
  shows "\<exists>sv. simpleble_peripheral_services_get env m (Some h) i = Some (SIMPLEBLE_SUCCESS, sv)"
proof -
  let ?cs = "take SIMPLEBLE_CHARACTERISTIC_MAX_COUNT (s_characteristics (services ! i))"
  have "map_opt copy_characteristic ?cs = Some (map (\<lambda>c. the (copy_characteristic c)) ?cs)"
    using assms(4) by (intro map_opt_total) (use copy_characteristic_fits service_fits_def in fastforce)
  then show ?thesis
    using assms by (simp add: simpleble_peripheral_services_get_def service_fits_def Let_def)
qed

lemma walk_services_step:
  assumes "simpleble_peripheral_services_get env (heap s) (Some h) i = Some (SIMPLEBLE_SUCCESS, sv)"
    and "pi_services (env_info env h) = Some services"
  shows "if wanted_service (services ! i)
    then \<exists>s1. walk_services env (Some h) (i # is) s = Some (True, s1) \<and> last (out s1) = ReadError
    else \<exists>s1. walk_services env (Some h) (i # is) s = walk_services env (Some h) is s1 \<and> heap s1 = heap s"
proof (cases "SERVICE_UUID = s_uuid sv")
  case True
  then show ?thesis
    using assms(1) wanted_copy [OF assms]
      probe_characteristics_spec [of env "Some h" sv "[0..<length (s_characteristics sv)]"
        "print RightService (s\<lparr>service_nb := int i\<rparr>)"]
    by (auto simp: Bex_def)
next
  case False
  then show ?thesis
    using assms(1) wanted_copy [OF assms] by auto
qed

lemma walk_services_loop:
  assumes "walk_services env (Some h) is s = Some (False, s')"
    and "pi_services (env_info env h) = Some services" and "i \<in> set is"
  shows "\<not> wanted_service (services ! i)"
  using assms
proof (induction "is" arbitrary: s)
  case (Cons k "is")
  obtain sv where sv: "simpleble_peripheral_services_get env (heap s) (Some h) k = Some (SIMPLEBLE_SUCCESS, sv)"
    using Cons.prems(1) by (auto simp: bind_eq_Some_conv split: if_splits)
  with walk_services_step [OF sv Cons.prems(2), of "is"] Cons show ?case
    by (auto split: if_splits)
qed simp

lemma walk_services_returns:
  assumes "h \<in> live_peripherals (heap s)" and "pi_services (env_info env h) = Some services"
    and "\<forall>i\<in>set is. i < length services \<and> service_fits (services ! i)"
  shows "\<exists>s'. walk_services env (Some h) is s = Some (\<exists>i\<in>set is. wanted_service (services ! i), s')
    \<and> ((\<exists>i\<in>set is. wanted_service (services ! i)) \<longrightarrow> last (out s') = ReadError)"
  using assms
proof (induction "is" arbitrary: s)
  case (Cons k "is")
  obtain sv where sv: "simpleble_peripheral_services_get env (heap s) (Some h) k = Some (SIMPLEBLE_SUCCESS, sv)"
    using services_get_fits [of h "heap s" env services k] Cons.prems by auto
  note step = walk_services_step [OF sv Cons.prems(2), of "is"]
  show ?case
  proof (cases "wanted_service (services ! k)")
    case True
    with step show ?thesis by auto
  next
    case False
    with step obtain s1 where s1: "walk_services env (Some h) (k # is) s = walk_services env (Some h) is s1"
      "heap s1 = heap s" by auto
    with Cons.IH [of s1] Cons.prems False show ?thesis by auto
  qed
qed simp

section \<open>Properties\<close>

text \<open>C4: during a scan every reported device is saved while the array has room and released
  otherwise; the saved devices are the first ten, they are exactly the live handles, and
  \<^verbatim>\<open>clean_on_exit\<close> afterwards releases every handle once.  Each report leaves one string allocated
  for ever: the adapter identifier that \<^verbatim>\<open>adapter_on_scan_found\<close> does not free.\<close>

theorem scan_then_clean:
  assumes "distinct (env_found env)" and "cb_found s" and "scan_inv s" and "saved s = []"
    and "live_adapter (heap s)" and "adapter s = Some a"
  shows "\<exists>s' s''. simpleble_adapter_scan_for env (Some a) s = Some s'
    \<and> saved s' = take PERIPHERAL_LIST_SIZE (env_found env)
    \<and> live_peripherals (heap s') = set (saved s')
    \<and> live_strings (heap s') = live_strings (heap s) + int (length (env_found env))
    \<and> clean_on_exit s' = Some s''
    \<and> live_peripherals (heap s'') = {} \<and> \<not> live_adapter (heap s'')"
proof -
  obtain s' where s': "simpleble_adapter_scan_for env (Some a) s = Some s'" "scan_inv s'"
    "saved s' = take PERIPHERAL_LIST_SIZE (env_found env)" "live_adapter (heap s')"
    "live_strings (heap s') = live_strings (heap s) + int (length (env_found env))"
    "adapter s' = adapter s"
    using scan_for_spec [OF assms(3,5,4,1,2)] by blast
  have rel: "\<exists>m'. release_all (map Some hs) m = Some m' \<and> live_peripherals m' = live_peripherals m - set hs
      \<and> live_adapter m' = live_adapter m" if "distinct hs" "set hs \<subseteq> live_peripherals m" for hs m
    using that
  proof (induction hs arbitrary: m)
    case (Cons h hs)
    let ?m = "m\<lparr>live_peripherals := live_peripherals m - {h}\<rparr>"
    have "set hs \<subseteq> live_peripherals ?m" using Cons.prems by auto
    then obtain m' where "release_all (map Some hs) ?m = Some m'"
      "live_peripherals m' = live_peripherals ?m - set hs" "live_adapter m' = live_adapter ?m"
      using Cons.IH [of ?m] Cons.prems(1) by auto
    then show ?case
      using Cons.prems by (auto simp: simpleble_peripheral_release_handle_def)
  qed simp
  have inv: "take (peripheral_list_len s') (peripheral_list s') = map Some (saved s')"
    "distinct (saved s')" "live_peripherals (heap s') = set (saved s')"
    using s'(2) by (auto simp: scan_inv_def)
  obtain m' where "release_all (map Some (saved s')) (heap s') = Some m'"
    "live_peripherals m' = {}" "live_adapter m'"
    using rel [of "saved s'" "heap s'"] inv s'(4) by auto
  then have "\<exists>s''. clean_on_exit s' = Some s'' \<and> live_peripherals (heap s'') = {}
      \<and> \<not> live_adapter (heap s'')"
    using s'(6) assms(6)
    by (simp add: clean_on_exit_def inv(1) simpleble_adapter_release_handle_def print_def)
  with s' inv(3) show ?thesis by auto
qed

text \<open>A radio environment with one adapter and the given devices, for the witnesses.\<close>

definition sample_env :: "nat list \<Rightarrow> (nat \<Rightarrow> string) \<Rightarrow> simpleble_service_t list \<Rightarrow> ble_env" where
  "sample_env hs names services = \<lparr>env_adapters = 1, env_adapters_again = 1,
     env_adapter_identifier = Some ''hci0'', env_cb_start_ok = True, env_cb_stop_ok = True,
     env_cb_found_ok = True, env_scan_starts = True, env_found = hs, env_scan_stops = True,
     env_info = (\<lambda>h. \<lparr>pi_identifier = Some (names h), pi_address = Some ''1C:69:20:A4:C6:1E'',
       pi_connect = True, pi_disconnect = True, pi_services = Some services,
       pi_read = (\<lambda>_ _. Some [52])\<rparr>)\<rparr>"

theorem scan_then_clean_witness:
  "\<exists>s' s''. simpleble_adapter_scan_for (sample_env [1..<13] (\<lambda>_. ''other'') []) (Some adapter_addr)
      (init_scan_state\<lparr>adapter := Some adapter_addr, heap := init_heap\<lparr>live_adapter := True\<rparr>,
         cb_found := True\<rparr>) = Some s'
    \<and> saved s' = [1..<11] \<and> live_strings (heap s') = 12
    \<and> clean_on_exit s' = Some s'' \<and> live_peripherals (heap s'') = {}"
proof -
  let ?s = "init_scan_state\<lparr>adapter := Some adapter_addr, heap := init_heap\<lparr>live_adapter := True\<rparr>,
    cb_found := True\<rparr>"
  have "scan_inv ?s" "saved ?s = []"
    by (simp_all add: scan_inv_def saved_def init_scan_state_def init_heap_def)
  moreover have "env_found (sample_env [1..<13] (\<lambda>_. ''other'') []) = [1..<13]"
    by (simp add: sample_env_def)
  moreover have "take PERIPHERAL_LIST_SIZE [1..<13] = [1..<11]"
    by (simp add: PERIPHERAL_LIST_SIZE_def)
  ultimately show ?thesis
    using scan_then_clean [of "sample_env [1..<13] (\<lambda>_. ''other'') []" ?s adapter_addr]
    by (auto simp: init_heap_def)
qed

text \<open>C5: if there is an adapter whose callback for found devices could be registered, and none of the
  first ten devices found is called \<^verbatim>\<open>ESP32_Control\<close>, the thread reads \<^verbatim>\<open>peripheral_list[-1]\<close>, outside
  the array: its behaviour is undefined.\<close>

theorem ble_setup_without_esp32:
  assumes "0 < env_adapters env" and "0 < env_adapters_again env" and "env_cb_found_ok env"
    and "distinct (env_found env)"
    and "\<forall>h\<in>set (take PERIPHERAL_LIST_SIZE (env_found env)). device_name env h \<noteq> ESP32_NAME"
  shows "ble_setup env init_scan_state = None"
proof -
  let ?s = "init_scan_state\<lparr>adapter := Some adapter_addr,
    heap := init_heap\<lparr>live_adapter := True\<rparr>, cb_start := env_cb_start_ok env,
    cb_stop := env_cb_stop_ok env, cb_found := env_cb_found_ok env\<rparr>"
  have h: "heap init_scan_state = init_heap" by (simp add: init_scan_state_def)
  have "scan_inv ?s" "saved ?s = []"
    using scan_inv_init by (simp_all add: scan_inv_def saved_def init_scan_state_def init_heap_def)
  then obtain s3 where s3: "simpleble_adapter_scan_for env (Some adapter_addr) ?s = Some s3"
    "scan_inv s3" "saved s3 = take PERIPHERAL_LIST_SIZE (env_found env)"
    using scan_for_spec [of ?s env adapter_addr] assms(3,4) by auto
  obtain s4 where "list_devices env [0..<peripheral_list_len s3] (-1) (print DevicesHeader s3)
      = Some (selected env (saved s3) [0..<peripheral_list_len s3] (-1), s4)"
    using list_devices_spec [of "print DevicesHeader s3" "[0..<peripheral_list_len s3]" env "-1"] s3(2)
    by auto
  moreover have "selected env (saved s3) [0..<peripheral_list_len s3] (-1) = -1"
  proof (rule selected_none)
    fix i assume "i \<in> set [0..<peripheral_list_len s3]"
    then have "saved s3 ! i \<in> set (saved s3)"
      using scan_inv_length [OF s3(2)] by simp
    then show "device_name env (saved s3 ! i) \<noteq> ESP32_NAME"
      using assms(5) s3(3) by simp
  qed
  ultimately have "list_devices env [0..<peripheral_list_len s3] (-1) (print DevicesHeader s3)
      = Some (-1, s4)" by simp
  then show ?thesis
    using assms(1,2) s3(1)
    by (simp add: ble_setup_def simpleble_adapter_get_count_def simpleble_adapter_get_handle_def h
        select_peripheral_def Let_def)
qed

theorem ble_setup_without_esp32_witness:
  "ble_setup (sample_env [1, 2] (\<lambda>_. ''other'') []) init_scan_state = None"
  by (rule ble_setup_without_esp32)
    (simp_all add: sample_env_def device_name_def ESP32_NAME_def PERIPHERAL_LIST_SIZE_def)

text \<open>C6: the thread reaches its sending loop only when the peripheral does not offer the wanted
  characteristic in the wanted service, among the first 16 characteristics that the C interface reports.
  With a live and connected peripheral whose services can be copied, the outcome is determined: without
  the characteristic the thread reaches the loop, and with it the thread prints the read error (the read
  through NULL pointers fails) and returns.\<close>

theorem ble_connect_loop_only_without_characteristic:
  assumes "pi_services (env_info env h) = Some services"
  shows "(\<forall>p s'. ble_connect env (Some h) s = Some (SetupLoop p, s') \<longrightarrow> \<not> offers_control services)
    \<and> (h \<in> live_peripherals (heap s) \<and> pi_connect (env_info env h) \<and> (\<forall>sv\<in>set services. service_fits sv)
        \<longrightarrow> (\<exists>s'. ble_connect env (Some h) s
                = Some (if offers_control services then SetupReturned else SetupLoop (Some h), s')
              \<and> (offers_control services \<longrightarrow> last (out s') = ReadError)))"
proof (intro conjI allI impI)
  fix p s' assume "ble_connect env (Some h) s = Some (SetupLoop p, s')"
  with assms obtain s1 where "walk_services env (Some h) [0..<length services] s1 = Some (False, s')"
    by (auto simp: ble_connect_def bind_eq_Some_conv Let_def simpleble_peripheral_services_count_def
        split: if_splits option.splits)
  from walk_services_loop [OF this assms] show "\<not> offers_control services"
    by (auto simp: offers_control_nth)
next
  assume ok: "h \<in> live_peripherals (heap s) \<and> pi_connect (env_info env h) \<and> (\<forall>sv\<in>set services. service_fits sv)"
  have offers: "(\<exists>i\<in>set [0..<length services]. wanted_service (services ! i)) = offers_control services"
    unfolding offers_control_nth by auto
  obtain s1 where s1: "ble_connect env (Some h) s = do {
      (returned, s2) \<leftarrow> walk_services env (Some h) [0..<length services] s1;
      Some (if returned then SetupReturned else SetupLoop (Some h), s2) }"
    "heap s1 = heap s"
    using ok assms by (fastforce simp: ble_connect_def handle_simps simpleble_peripheral_connect_def
        simpleble_peripheral_services_count_def)
  then show "\<exists>s'. ble_connect env (Some h) s
        = Some (if offers_control services then SetupReturned else SetupLoop (Some h), s')
      \<and> (offers_control services \<longrightarrow> last (out s') = ReadError)"
    using walk_services_returns [of h s1 env services "[0..<length services]"] ok assms
    unfolding offers by fastforce
qed

text \<open>Both outcomes: a wanted service with the wanted characteristic, and one without it.\<close>

definition sample_characteristic :: simpleble_characteristic_t where
  "sample_characteristic = \<lparr>c_uuid = CHARACTERISTIC_UUID, can_read = True, can_write_request = True,
     can_write_command = True, can_notify = True, can_indicate = False, c_descriptors = []\<rparr>"

theorem ble_connect_loop_only_without_characteristic_witness:
  "\<exists>s1 s2. ble_connect (sample_env [1] (\<lambda>_. ESP32_NAME)
        [\<lparr>s_uuid = SERVICE_UUID, s_data = [], s_characteristics = [sample_characteristic]\<rparr>]) (Some 1)
      (init_scan_state\<lparr>heap := init_heap\<lparr>live_peripherals := {1}\<rparr>\<rparr>) = Some (SetupReturned, s1)
    \<and> last (out s1) = ReadError
    \<and> ble_connect (sample_env [1] (\<lambda>_. ESP32_NAME)
        [\<lparr>s_uuid = SERVICE_UUID, s_data = [], s_characteristics = []\<rparr>]) (Some 1)
      (init_scan_state\<lparr>heap := init_heap\<lparr>live_peripherals := {1}\<rparr>\<rparr>) = Some (SetupLoop (Some 1), s2)"
proof -
  let ?sv = "\<lambda>cs. \<lparr>s_uuid = SERVICE_UUID, s_data = [], s_characteristics = cs\<rparr>"
  let ?env = "\<lambda>cs. sample_env [1] (\<lambda>_. ESP32_NAME) [?sv cs]"
  let ?s = "init_scan_state\<lparr>heap := init_heap\<lparr>live_peripherals := {1}\<rparr>\<rparr>"
  have env: "pi_services (env_info (?env cs) 1) = Some [?sv cs]" "pi_connect (env_info (?env cs) 1)"
    "1 \<in> live_peripherals (heap ?s)" for cs
    by (simp_all add: sample_env_def)
  have len: "length SERVICE_UUID = 36" "length CHARACTERISTIC_UUID = 36"
    by (simp_all add: SERVICE_UUID_def CHARACTERISTIC_UUID_def)
  have "offers_control [?sv [sample_characteristic]]" "\<not> offers_control [?sv []]"
    "service_fits (?sv [sample_characteristic])" "service_fits (?sv [])"
    by (simp_all add: offers_control_def wanted_service_def service_fits_def characteristic_fits_def
        sample_characteristic_def SIMPLEBLE_CHARACTERISTIC_MAX_COUNT_def len)
  then show ?thesis
    using ble_connect_loop_only_without_characteristic [OF env(1), of "[sample_characteristic]" ?s]
      ble_connect_loop_only_without_characteristic [OF env(1), of "[]" ?s] env(2,3)
    by auto
qed

end
