(* ===== verification/Transition.thy ===== *)
theory Transition
  imports Prelude
begin

text \<open>
  Transition systems in which several threads move one at a time.  \<open>reach\<close> are the states reachable
  from an initial one; \<open>run_sched\<close> executes a given schedule.  The locale \<open>invariant_system\<close> is the
  contract of an invariant (it holds initially and every move of every thread keeps it) and gives
  it for all reachable states; \<open>ranked_system\<close> adds a measure that one thread's moves decrease.
  The locale \<open>data_refinement\<close> is the contract of a component that implements an abstract one.
\<close>

inductive reach :: "('s \<Rightarrow> bool) \<Rightarrow> ('t \<Rightarrow> 's \<Rightarrow> 's option) \<Rightarrow> 's \<Rightarrow> bool" for init step where
  reach_init: "init s \<Longrightarrow> reach init step s"
| reach_step: "reach init step s \<Longrightarrow> step t s = Some s' \<Longrightarrow> reach init step s'"

fun run_sched :: "('t \<Rightarrow> 's \<Rightarrow> 's option) \<Rightarrow> 't list \<Rightarrow> 's \<Rightarrow> 's option" where
  "run_sched step [] s = Some s"
| "run_sched step (t # ts) s = do { s' \<leftarrow> step t s; run_sched step ts s' }"

lemma reach_run_sched:
  "reach init step s \<Longrightarrow> run_sched step ts s = Some s' \<Longrightarrow> reach init step s'"
  by (induction ts arbitrary: s) (auto simp: bind_eq_Some_conv intro: reach.intros)

locale invariant_system =
  fixes init :: "'s \<Rightarrow> bool" and step :: "'t \<Rightarrow> 's \<Rightarrow> 's option" and inv :: "'s \<Rightarrow> bool"
  assumes inv_init: "init s \<Longrightarrow> inv s"
    and inv_step: "inv s \<Longrightarrow> step t s = Some s' \<Longrightarrow> inv s'"
begin

lemma reach_inv: "reach init step s \<Longrightarrow> inv s"
  by (induction rule: reach.induct) (blast intro: inv_init inv_step)+

lemma run_inv: "inv s \<Longrightarrow> run_sched step ts s = Some s' \<Longrightarrow> inv s'"
  by (induction ts arbitrary: s) (auto simp: bind_eq_Some_conv intro: inv_step)

end

text \<open>From a state where \<open>phase\<close> holds, \<open>phase\<close> stays and every move of thread \<open>w\<close> decreases the
  rank, which no other move increases: thread \<open>w\<close> moves at most \<open>rank s\<close> times.\<close>

locale ranked_system = invariant_system +
  fixes phase :: "'a \<Rightarrow> bool" and w :: 'b and rank :: "'a \<Rightarrow> nat"
  assumes phase_step: "inv s \<Longrightarrow> phase s \<Longrightarrow> step t s = Some s' \<Longrightarrow> phase s'"
    and rank_step: "inv s \<Longrightarrow> phase s \<Longrightarrow> step t s = Some s' \<Longrightarrow> rank s' \<le> rank s"
    and rank_less: "inv s \<Longrightarrow> phase s \<Longrightarrow> step w s = Some s' \<Longrightarrow> rank s' < rank s"
begin

lemma moves_bounded:
  "inv s \<Longrightarrow> phase s \<Longrightarrow> run_sched step ts s = Some s' \<Longrightarrow>
     rank s' + length (filter (\<lambda>t. t = w) ts) \<le> rank s"
proof (induction ts arbitrary: s)
  case (Cons t ts)
  from Cons.prems(3) obtain s1 where
    s1: "step t s = Some s1" "run_sched step ts s1 = Some s'"
    by (auto simp: bind_eq_Some_conv)
  with Cons.prems(1,2) have "inv s1" "phase s1"
    by (auto intro: inv_step phase_step)
  from Cons.IH [OF this s1(2)] rank_step [OF Cons.prems(1,2) s1(1)]
    rank_less [OF Cons.prems(1,2), of s1] s1(1)
  show ?case by auto
qed simp

end

section \<open>Data refinement\<close>

text \<open>A component with commands of type \<open>'cmd\<close>: the concrete step may fail (\<open>None\<close>), the abstract
  one is a function.  Under the contract of the locale every sequence of commands gives the
  abstract answers, and never fails.\<close>

fun run_cmds :: "('cmd \<Rightarrow> 'c \<Rightarrow> ('out \<times> 'c) option) \<Rightarrow> 'cmd list \<Rightarrow> 'c \<Rightarrow> ('out list \<times> 'c) option" where
  "run_cmds cstep [] c = Some ([], c)"
| "run_cmds cstep (k # ks) c = do {
     (r, c1) \<leftarrow> cstep k c;
     (rs, c2) \<leftarrow> run_cmds cstep ks c1;
     Some (r # rs, c2)
   }"

fun run_abs :: "('cmd \<Rightarrow> 'a \<Rightarrow> 'out \<times> 'a) \<Rightarrow> 'cmd list \<Rightarrow> 'a \<Rightarrow> 'out list \<times> 'a" where
  "run_abs astep [] a = ([], a)"
| "run_abs astep (k # ks) a =
     (let (r, a1) = astep k a; (rs, a2) = run_abs astep ks a1 in (r # rs, a2))"

locale data_refinement =
  fixes rep :: "'c \<Rightarrow> 'a \<Rightarrow> bool" and cstep :: "'cmd \<Rightarrow> 'c \<Rightarrow> ('out \<times> 'c) option"
    and astep :: "'cmd \<Rightarrow> 'a \<Rightarrow> 'out \<times> 'a"
  assumes step_refines: "rep c a \<Longrightarrow> \<exists>c'. cstep k c = Some (fst (astep k a), c') \<and> rep c' (snd (astep k a))"
begin

lemma run_refines:
  "rep c a \<Longrightarrow> \<exists>c'. run_cmds cstep ks c = Some (fst (run_abs astep ks a), c')
     \<and> rep c' (snd (run_abs astep ks a))"
proof (induction ks arbitrary: c a)
  case (Cons k ks)
  obtain c1 where c1: "cstep k c = Some (fst (astep k a), c1)" "rep c1 (snd (astep k a))"
    using step_refines [OF Cons.prems] by blast
  from Cons.IH [OF c1(2)] c1(1) show ?case by (auto simp: Let_def case_prod_beta)
qed simp

end

end
