(* ===== verification/Control.thy ===== *)
theory Control
  imports Throttle Scan Transition
begin

text \<open>
  The three threads of the ground station running together: \<^verbatim>\<open>main\<close> (\<^verbatim>\<open>src/src/main.c\<close>), the joystick
  thread \<^verbatim>\<open>hotas_inputs\<close> (\<^verbatim>\<open>src/src/throttleinput.c\<close>) and the sending loop of \<^verbatim>\<open>ble_sender\<close>
  (\<^verbatim>\<open>src/src/scan.c\<close>).  Each thread is a program counter and its local variables; one move of a thread
  is one access to the shared variables or one library call, in the order of the source.  A move
  that is blocked (waiting for the mutex or for a joystick event) or a finished thread is \<open>None\<close>.
  When \<^verbatim>\<open>main\<close> returns the process ends; the model lets the other threads go on, so what it shows for all
  reachable states covers every state the process has before.
\<close>

section \<open>State\<close>

datatype tid = Main | Hotas | Ble

datatype hpc = HIdle | HOpen | HWhile | HRead | HLock int | HStore int | HUnlock | HStop | HClose
  | HDone

datatype mpc = MCreateHotas | MCreateBle | MInit | MWhile | MLock | MCheck | MUpdate | MUnlock
  | MSleep | MDone

datatype bpc = BIdle | BSetup | BInit | BWhile | BCheck | BPrint | BUpdate | BDisconnect | BDone

record sys =
  glob :: globals
  mutex :: "tid option"
  js_fd :: int
  reads :: "read_result list"
  ble_ok :: bool
  hpc :: hpc
  mpc :: mpc
  m_current :: int
  m_out :: "int list"
  bpc :: bpc
  b_current :: int
  b_out :: "int list"

text \<open>\<open>js_fd\<close> and \<open>reads\<close> are what \<^verbatim>\<open>open\<close> and the reads return, \<open>ble_ok\<close> whether the Bluetooth setup
  reaches the sending loop (see \<open>Scan.ble_setup\<close>).\<close>

definition init_sys :: "int \<Rightarrow> read_result list \<Rightarrow> bool \<Rightarrow> sys" where
  "init_sys fd rs ok = \<lparr>glob = init_globals, mutex = None, js_fd = fd, reads = rs, ble_ok = ok,
     hpc = HIdle, mpc = MCreateHotas, m_current = 0, m_out = [], bpc = BIdle, b_current = 0,
     b_out = []\<rparr>"

section \<open>Moves\<close>

definition hotas_next :: "js_event \<Rightarrow> hpc option" where
  "hotas_next e =
     (if js_type e = JS_EVENT_AXIS
      then if js_number e = 2
           then map_option HLock (convert_to_percent (sint (js_value e)))
           else Some HWhile
      else if js_type e = JS_EVENT_BUTTON
      then if js_number e = 0 \<and> sint (js_value e) = 1 then Some HStop else Some HWhile
      else Some HWhile)"

definition hotas_step :: "sys \<Rightarrow> sys option" where
  "hotas_step s =
     (case hpc s of
        HIdle \<Rightarrow> None
      | HOpen \<Rightarrow> Some (s\<lparr>hpc := (if js_fd s < 0 then HDone else HWhile)\<rparr>)
      | HWhile \<Rightarrow> Some (s\<lparr>hpc := (if running (glob s) \<noteq> 0 then HRead else HClose)\<rparr>)
      | HRead \<Rightarrow>
          (case reads s of
             [] \<Rightarrow> None
           | ReadFail # rs \<Rightarrow> Some (s\<lparr>reads := rs, hpc := HClose\<rparr>)
           | ReadEvent e # rs \<Rightarrow> map_option (\<lambda>pc. s\<lparr>reads := rs, hpc := pc\<rparr>) (hotas_next e))
      | HLock p \<Rightarrow> (if mutex s = None then Some (s\<lparr>mutex := Some Hotas, hpc := HStore p\<rparr>) else None)
      | HStore p \<Rightarrow> Some (s\<lparr>glob := (glob s)\<lparr>throttle_position := p\<rparr>, hpc := HUnlock\<rparr>)
      | HUnlock \<Rightarrow> Some (s\<lparr>mutex := None, hpc := HWhile\<rparr>)
      | HStop \<Rightarrow> Some (s\<lparr>glob := (glob s)\<lparr>running := 0\<rparr>, hpc := HWhile\<rparr>)
      | HClose \<Rightarrow> Some (s\<lparr>hpc := HDone\<rparr>)
      | HDone \<Rightarrow> None)"

definition main_step :: "sys \<Rightarrow> sys option" where
  "main_step s =
     (case mpc s of
        MCreateHotas \<Rightarrow> Some (s\<lparr>hpc := HOpen, mpc := MCreateBle\<rparr>)
      | MCreateBle \<Rightarrow> Some (s\<lparr>bpc := BSetup, mpc := MInit\<rparr>)
      | MInit \<Rightarrow> Some (s\<lparr>m_current := throttle_position (glob s), mpc := MWhile\<rparr>)
      | MWhile \<Rightarrow> Some (s\<lparr>mpc := (if running (glob s) \<noteq> 0 then MLock else MDone)\<rparr>)
      | MLock \<Rightarrow> (if mutex s = None then Some (s\<lparr>mutex := Some Main, mpc := MCheck\<rparr>) else None)
      | MCheck \<Rightarrow> Some (s\<lparr>mpc := (if throttle_position (glob s) \<noteq> m_current s
                                then MUpdate else MUnlock)\<rparr>)
      | MUpdate \<Rightarrow> Some (s\<lparr>m_current := throttle_position (glob s),
                          m_out := m_out s @ [throttle_position (glob s)], mpc := MUnlock\<rparr>)
      | MUnlock \<Rightarrow> Some (s\<lparr>mutex := None, mpc := MSleep\<rparr>)
      | MSleep \<Rightarrow> Some (s\<lparr>mpc := MWhile\<rparr>)
      | MDone \<Rightarrow> None)"

definition ble_step :: "sys \<Rightarrow> sys option" where
  "ble_step s =
     (case bpc s of
        BIdle \<Rightarrow> None
      | BSetup \<Rightarrow> Some (s\<lparr>bpc := (if ble_ok s then BInit else BDone)\<rparr>)
      | BInit \<Rightarrow> Some (s\<lparr>b_current := throttle_position (glob s), bpc := BWhile\<rparr>)
      | BWhile \<Rightarrow> Some (s\<lparr>bpc := (if running (glob s) \<noteq> 0 then BCheck else BDisconnect)\<rparr>)
      | BCheck \<Rightarrow> Some (s\<lparr>bpc := (if throttle_position (glob s) \<noteq> b_current s
                                then BPrint else BWhile)\<rparr>)
      | BPrint \<Rightarrow> Some (s\<lparr>b_out := b_out s @ [throttle_position (glob s)], bpc := BUpdate\<rparr>)
      | BUpdate \<Rightarrow> Some (s\<lparr>b_current := throttle_position (glob s), bpc := BWhile\<rparr>)
      | BDisconnect \<Rightarrow> Some (s\<lparr>bpc := BDone\<rparr>)
      | BDone \<Rightarrow> None)"

definition thread_step :: "tid \<Rightarrow> sys \<Rightarrow> sys option" where
  "thread_step t s = (case t of Main \<Rightarrow> main_step s | Hotas \<Rightarrow> hotas_step s | Ble \<Rightarrow> ble_step s)"

definition initial :: "int \<Rightarrow> read_result list \<Rightarrow> bool \<Rightarrow> sys \<Rightarrow> bool" where
  "initial fd rs ok s \<longleftrightarrow> s = init_sys fd rs ok"

abbreviation reachable :: "int \<Rightarrow> read_result list \<Rightarrow> bool \<Rightarrow> sys \<Rightarrow> bool" where
  "reachable fd rs ok \<equiv> reach (initial fd rs ok) thread_step"

lemmas step_defs = thread_step_def hotas_step_def main_step_def ble_step_def

lemma hotas_next_eq:
  "hotas_next e = Some (if is_throttle e then HLock (percent_of e)
     else if is_stop e then HStop else HWhile)"
  by (simp add: hotas_next_def convert_to_percent_word is_throttle_def is_stop_def percent_of_def
      sint_eq_1_iff)

lemma thread_stepE:
  assumes "thread_step t s = Some s'"
  obtains (main) "t = Main" "main_step s = Some s'"
    | (hotas) "t = Hotas" "hotas_step s = Some s'"
    | (ble) "t = Ble" "ble_step s = Some s'"
  using assms by (cases t) (auto simp: thread_step_def)

section \<open>Invariants\<close>

fun h_crit :: "hpc \<Rightarrow> bool" where
  "h_crit (HStore _) = True"
| "h_crit HUnlock = True"
| "h_crit _ = False"

fun m_crit :: "mpc \<Rightarrow> bool" where
  "m_crit MCheck = True"
| "m_crit MUpdate = True"
| "m_crit MUnlock = True"
| "m_crit _ = False"

text \<open>At most one thread is inside its critical section, and the mutex is held by that one.\<close>

definition lock_inv :: "sys \<Rightarrow> bool" where
  "lock_inv s \<longleftrightarrow> \<not> (h_crit (hpc s) \<and> m_crit (mpc s))
     \<and> mutex s = (if h_crit (hpc s) then Some Hotas else if m_crit (mpc s) then Some Main else None)
     \<and> (mpc s = MCreateHotas \<longrightarrow> hpc s = HIdle)"

abbreviation percent :: "int \<Rightarrow> bool" where "percent p \<equiv> 0 \<le> p \<and> p \<le> 100"

text \<open>Every throttle value in the system is a percentage.\<close>

fun h_pending :: "hpc \<Rightarrow> int" where
  "h_pending (HLock p) = p"
| "h_pending (HStore p) = p"
| "h_pending _ = 0"

definition range_inv :: "sys \<Rightarrow> bool" where
  "range_inv s \<longleftrightarrow> percent (throttle_position (glob s)) \<and> percent (h_pending (hpc s))
     \<and> percent (m_current s) \<and> percent (b_current s)
     \<and> list_all percent (m_out s) \<and> list_all percent (b_out s)"

text \<open>What \<^verbatim>\<open>main\<close> printed: no value twice in a row, and the last one is \<^verbatim>\<open>current\<close>.\<close>

fun m_view :: "mpc \<Rightarrow> int \<Rightarrow> int \<Rightarrow> int list \<Rightarrow> bool" where
  "m_view MCreateHotas p c xs = (xs = [])"
| "m_view MCreateBle p c xs = (xs = [])"
| "m_view MInit p c xs = (xs = [])"
| "m_view MUpdate p c xs = (p \<noteq> c)"
| "m_view MUnlock p c xs = (p = c)"
| "m_view _ p c xs = True"

definition out_inv :: "sys \<Rightarrow> bool" where
  "out_inv s \<longleftrightarrow> distinct_adj (m_out s) \<and> (m_out s \<noteq> [] \<longrightarrow> last (m_out s) = m_current s)
     \<and> m_view (mpc s) (throttle_position (glob s)) (m_current s) (m_out s)"

lemma m_view_outside: "\<not> m_crit pc \<Longrightarrow> m_view pc p c xs = m_view pc p' c xs"
  by (cases pc) simp_all

definition sys_inv :: "sys \<Rightarrow> bool" where
  "sys_inv s \<longleftrightarrow> lock_inv s \<and> range_inv s \<and> out_inv s"

lemma lock_inv_main: "lock_inv s \<Longrightarrow> main_step s = Some s' \<Longrightarrow> lock_inv s'"
  by (cases "mpc s")
    (auto simp: main_step_def lock_inv_def split: if_splits)

lemma lock_inv_hotas: "lock_inv s \<Longrightarrow> hotas_step s = Some s' \<Longrightarrow> lock_inv s'"
  by (cases "hpc s")
    (auto simp: hotas_step_def lock_inv_def hotas_next_eq split: if_splits list.splits read_result.splits)

lemma lock_inv_ble: "lock_inv s \<Longrightarrow> ble_step s = Some s' \<Longrightarrow> lock_inv s'"
  by (cases "bpc s")
    (auto simp: ble_step_def lock_inv_def split: if_splits)

lemma lock_inv_step: "lock_inv s \<Longrightarrow> thread_step t s = Some s' \<Longrightarrow> lock_inv s'"
  by (erule thread_stepE) (blast intro: lock_inv_main lock_inv_hotas lock_inv_ble)+

lemma range_inv_main: "range_inv s \<Longrightarrow> main_step s = Some s' \<Longrightarrow> range_inv s'"
  by (cases "mpc s")
    (auto simp: main_step_def range_inv_def split: if_splits)

lemma range_inv_hotas: "range_inv s \<Longrightarrow> hotas_step s = Some s' \<Longrightarrow> range_inv s'"
  by (cases "hpc s")
    (auto simp: hotas_step_def range_inv_def hotas_next_eq percent_of_range split: if_splits list.splits read_result.splits)

lemma range_inv_ble: "range_inv s \<Longrightarrow> ble_step s = Some s' \<Longrightarrow> range_inv s'"
  by (cases "bpc s")
    (auto simp: ble_step_def range_inv_def split: if_splits)

lemma range_inv_step: "range_inv s \<Longrightarrow> thread_step t s = Some s' \<Longrightarrow> range_inv s'"
  by (erule thread_stepE) (blast intro: range_inv_main range_inv_hotas range_inv_ble)+

lemma distinct_adj_snoc:
  "distinct_adj xs \<Longrightarrow> (xs \<noteq> [] \<longrightarrow> last xs \<noteq> x) \<Longrightarrow> distinct_adj (xs @ [x])"
  by (auto simp: distinct_adj_append_iff)

lemma out_inv_main: "lock_inv s \<Longrightarrow> out_inv s \<Longrightarrow> main_step s = Some s' \<Longrightarrow> out_inv s'"
  by (cases "mpc s")
    (auto simp: main_step_def out_inv_def intro!: distinct_adj_snoc split: if_splits)

lemma out_inv_hotas: "lock_inv s \<Longrightarrow> out_inv s \<Longrightarrow> hotas_step s = Some s' \<Longrightarrow> out_inv s'"
  by (cases "hpc s")
    (auto simp: hotas_step_def out_inv_def hotas_next_eq lock_inv_def
      split: if_splits list.splits read_result.splits intro: m_view_outside [THEN iffD1])

lemma out_inv_ble: "lock_inv s \<Longrightarrow> out_inv s \<Longrightarrow> ble_step s = Some s' \<Longrightarrow> out_inv s'"
  by (cases "bpc s")
    (auto simp: ble_step_def out_inv_def split: if_splits)

lemma out_inv_step: "lock_inv s \<Longrightarrow> out_inv s \<Longrightarrow> thread_step t s = Some s' \<Longrightarrow> out_inv s'"
  by (erule thread_stepE) (blast intro: out_inv_main out_inv_hotas out_inv_ble)+

interpretation control: invariant_system "initial fd rs ok" thread_step sys_inv for fd rs ok
proof unfold_locales
  show "sys_inv s" if "initial fd rs ok s" for s
    using that by (simp add: initial_def init_sys_def init_globals_def sys_inv_def lock_inv_def
        range_inv_def out_inv_def)
  show "sys_inv s'" if "sys_inv s" "thread_step t s = Some s'" for s t s'
    using that lock_inv_step range_inv_step out_inv_step unfolding sys_inv_def by blast
qed

section \<open>The joystick thread is not disturbed by the others\<close>

text \<open>What the joystick thread will leave in the shared variables, by the sequential model.\<close>

fun h_future :: "hpc \<Rightarrow> int \<Rightarrow> globals \<Rightarrow> read_result list \<Rightarrow> globals option" where
  "h_future HIdle fd g rs = map_option fst (hotas_inputs g fd rs)"
| "h_future HOpen fd g rs = map_option fst (hotas_inputs g fd rs)"
| "h_future HWhile fd g rs = map_option fst (hotas_loop g rs)"
| "h_future HRead fd g rs = (if running g = 0 then None else map_option fst (hotas_loop g rs))"
| "h_future (HLock p) fd g rs = map_option fst (hotas_loop (g\<lparr>throttle_position := p\<rparr>) rs)"
| "h_future (HStore p) fd g rs = map_option fst (hotas_loop (g\<lparr>throttle_position := p\<rparr>) rs)"
| "h_future HUnlock fd g rs = map_option fst (hotas_loop g rs)"
| "h_future HStop fd g rs = map_option fst (hotas_loop (g\<lparr>running := 0\<rparr>) rs)"
| "h_future HClose fd g rs = Some g"
| "h_future HDone fd g rs = Some g"

definition future_inv :: "int \<Rightarrow> read_result list \<Rightarrow> sys \<Rightarrow> bool" where
  "future_inv fd rs s \<longleftrightarrow> js_fd s = fd \<and> (mpc s = MCreateHotas \<longrightarrow> hpc s = HIdle)
     \<and> h_future (hpc s) fd (glob s) (reads s) = map_option fst (hotas_inputs init_globals fd rs)"

lemma map_option_fst_triple: "map_option fst (map_option (\<lambda>(g, io, x). (g, f io, x)) r) = map_option fst r"
  by (cases r) auto

lemma hotas_inputs_globals:
  "map_option fst (hotas_inputs g fd rs) =
     (if fd < 0 then Some g else map_option fst (hotas_loop g rs))"
  by (cases "hotas_loop g rs") (auto simp: hotas_inputs_def)

lemma future_inv_hotas: "future_inv fd rs s \<Longrightarrow> hotas_step s = Some s' \<Longrightarrow> future_inv fd rs s'"
proof (cases "hpc s")
  case HRead
  assume inv: "future_inv fd rs s" and step: "hotas_step s = Some s'"
  have r: "running (glob s) \<noteq> 0"
    using inv HRead hotas_loop_safe [of init_globals rs]
    by (auto simp: future_inv_def hotas_inputs_def split: if_splits)
  show ?thesis
    using inv step HRead r
    by (auto simp: future_inv_def hotas_step_def hotas_next_eq hotas_loop_running map_option_fst_triple
        is_stop_def is_throttle_def split: list.splits read_result.splits if_splits)
next
  case HOpen
  assume "future_inv fd rs s" "hotas_step s = Some s'"
  with HOpen show ?thesis
    by (auto simp: future_inv_def hotas_step_def hotas_inputs_globals [of "glob s"] split: if_splits)
qed (auto simp: future_inv_def hotas_step_def split: if_splits)

lemma future_inv_main: "future_inv fd rs s \<Longrightarrow> main_step s = Some s' \<Longrightarrow> future_inv fd rs s'"
  by (cases "mpc s") (auto simp: future_inv_def main_step_def split: if_splits)

lemma future_inv_ble: "future_inv fd rs s \<Longrightarrow> ble_step s = Some s' \<Longrightarrow> future_inv fd rs s'"
  by (cases "bpc s") (auto simp: future_inv_def ble_step_def split: if_splits)

interpretation hotas_run: invariant_system "initial fd rs ok" thread_step "future_inv fd rs"
  for fd rs ok
proof unfold_locales
  show "future_inv fd rs s" if "initial fd rs ok s" for s
    using that by (simp add: initial_def init_sys_def future_inv_def)
  show "future_inv fd rs s'" if "future_inv fd rs s" "thread_step t s = Some s'" for s t s'
    using that(2,1)
    by (cases rule: thread_stepE) (blast intro: future_inv_main future_inv_hotas future_inv_ble)+
qed

section \<open>Stopping\<close>

text \<open>The moves \<^verbatim>\<open>main\<close> still makes once \<^verbatim>\<open>running\<close> is 0.\<close>

fun m_rank :: "mpc \<Rightarrow> nat" where
  "m_rank MCreateHotas = 10"
| "m_rank MCreateBle = 9"
| "m_rank MInit = 8"
| "m_rank MLock = 7"
| "m_rank MCheck = 6"
| "m_rank MUpdate = 5"
| "m_rank MUnlock = 4"
| "m_rank MSleep = 3"
| "m_rank MWhile = 2"
| "m_rank MDone = 1"

definition stopped :: "sys \<Rightarrow> bool" where
  "stopped s \<longleftrightarrow> running (glob s) = 0"

lemma stopped_main: "stopped s \<Longrightarrow> main_step s = Some s' \<Longrightarrow> stopped s'"
  by (cases "mpc s") (auto simp: stopped_def main_step_def split: if_splits)

lemma stopped_hotas: "stopped s \<Longrightarrow> hotas_step s = Some s' \<Longrightarrow> stopped s'"
  by (cases "hpc s")
    (auto simp: stopped_def hotas_step_def hotas_next_eq split: if_splits list.splits read_result.splits)

lemma stopped_ble: "stopped s \<Longrightarrow> ble_step s = Some s' \<Longrightarrow> stopped s'"
  by (cases "bpc s") (auto simp: stopped_def ble_step_def split: if_splits)

lemma stopped_step: "stopped s \<Longrightarrow> thread_step t s = Some s' \<Longrightarrow> stopped s'"
  by (erule thread_stepE) (blast intro: stopped_main stopped_hotas stopped_ble)+

lemma mpc_other: "thread_step t s = Some s' \<Longrightarrow> t \<noteq> Main \<Longrightarrow> mpc s' = mpc s"
  by (erule thread_stepE)
    (auto simp: hotas_step_def ble_step_def hotas_next_eq
      split: hpc.splits bpc.splits if_splits list.splits read_result.splits)

lemma m_rank_less: "stopped s \<Longrightarrow> main_step s = Some s' \<Longrightarrow> m_rank (mpc s') < m_rank (mpc s)"
  by (cases "mpc s") (auto simp: stopped_def main_step_def split: if_splits)

interpretation stopping: ranked_system "initial fd rs ok" thread_step sys_inv stopped Main
  "\<lambda>s. m_rank (mpc s)" for fd rs ok
proof unfold_locales
  fix s s' t
  show "stopped s'" if "stopped s" "thread_step t s = Some s'"
    using that by (rule stopped_step)
  show "m_rank (mpc s') \<le> m_rank (mpc s)" if "stopped s" "thread_step t s = Some s'"
    using that mpc_other [OF that(2)] m_rank_less [of s s']
    by (cases "t = Main") (auto simp: thread_step_def)
  show "m_rank (mpc s') < m_rank (mpc s)" if "stopped s" "thread_step Main s = Some s'"
    using that m_rank_less [of s s'] by (simp add: thread_step_def)
qed

text \<open>\<^verbatim>\<open>main\<close> is only ever blocked by a joystick thread that can itself move.\<close>

lemma main_not_stuck:
  "lock_inv s \<Longrightarrow> mpc s \<noteq> MDone \<Longrightarrow> main_step s \<noteq> None \<or> (mutex s = Some Hotas \<and> hotas_step s \<noteq> None)"
  by (cases "mpc s"; cases "hpc s") (auto simp: lock_inv_def main_step_def hotas_step_def split: if_splits)

text \<open>Without a press of button 0 among the events the program keeps running.\<close>

fun no_stop :: "read_result list \<Rightarrow> bool" where
  "no_stop [] = True"
| "no_stop (ReadFail # rs) = no_stop rs"
| "no_stop (ReadEvent e # rs) = (\<not> is_stop e \<and> no_stop rs)"

definition running_inv :: "sys \<Rightarrow> bool" where
  "running_inv s \<longleftrightarrow> running (glob s) = 1 \<and> hpc s \<noteq> HStop \<and> mpc s \<noteq> MDone \<and> no_stop (reads s)"

lemma running_inv_hotas: "running_inv s \<Longrightarrow> hotas_step s = Some s' \<Longrightarrow> running_inv s'"
  by (cases "hpc s")
    (auto simp: running_inv_def hotas_step_def hotas_next_eq
      split: if_splits list.splits read_result.splits)

lemma running_inv_main: "running_inv s \<Longrightarrow> main_step s = Some s' \<Longrightarrow> running_inv s'"
  by (cases "mpc s") (auto simp: running_inv_def main_step_def split: if_splits)

lemma running_inv_ble: "running_inv s \<Longrightarrow> ble_step s = Some s' \<Longrightarrow> running_inv s'"
  by (cases "bpc s") (auto simp: running_inv_def ble_step_def split: if_splits)

interpretation unstopped: invariant_system "\<lambda>s. initial fd rs ok s \<and> no_stop rs" thread_step running_inv
  for fd rs ok
proof unfold_locales
  show "running_inv s" if "initial fd rs ok s \<and> no_stop rs" for s
    using that by (simp add: initial_def init_sys_def init_globals_def running_inv_def)
  show "running_inv s'" if "running_inv s" "thread_step t s = Some s'" for s t s'
    using that(2,1)
    by (cases rule: thread_stepE) (blast intro: running_inv_main running_inv_hotas running_inv_ble)+
qed

lemma reach_strengthen: "reach init step s \<Longrightarrow> (\<And>s. init s \<Longrightarrow> init' s) \<Longrightarrow> reach init' step s"
  by (induction rule: reach.induct) (auto intro: reach.intros)

section \<open>Properties of the program\<close>

text \<open>C7.  In every reachable state of the three threads, whatever the events, the scheduling and the
  outcome of the Bluetooth setup: the joystick thread and \<^verbatim>\<open>main\<close> are never both inside the section
  protected by \<^verbatim>\<open>throttle_mutex\<close>; the shared throttle position and every value that \<^verbatim>\<open>main\<close> printed or the
  Bluetooth thread sent is a percentage; and \<^verbatim>\<open>main\<close> never prints a value twice in a row, its last print
  being its \<^verbatim>\<open>current\<close>.\<close>

theorem control_safe:
  assumes "reachable fd rs ok s"
  shows "\<not> (h_crit (hpc s) \<and> m_crit (mpc s))
    \<and> throttle_position (glob s) \<in> {0..100}
    \<and> set (m_out s) \<subseteq> {0..100} \<and> set (b_out s) \<subseteq> {0..100}
    \<and> distinct_adj (m_out s) \<and> (m_out s \<noteq> [] \<longrightarrow> last (m_out s) = m_current s)"
  using control.reach_inv [OF assms]
  by (auto simp: sys_inv_def lock_inv_def range_inv_def out_inv_def list_all_iff)

definition throttle_js :: "16 word \<Rightarrow> js_event" where
  "throttle_js v = \<lparr>js_time = 0, js_value = v, js_type = JS_EVENT_AXIS, js_number = 2\<rparr>"

definition stop_js :: js_event where
  "stop_js = \<lparr>js_time = 0, js_value = 1, js_type = JS_EVENT_BUTTON, js_number = 0\<rparr>"

abbreviation throttle_event :: "16 word \<Rightarrow> read_result" where
  "throttle_event v \<equiv> ReadEvent (throttle_js v)"

abbreviation stop_event :: read_result where
  "stop_event \<equiv> ReadEvent stop_js"

lemma hotas_next_samples:
  "hotas_next (throttle_js 0) = Some (HLock 50)"
  "hotas_next (throttle_js (- 32767)) = Some (HLock 100)"
  "hotas_next stop_js = Some HStop"
  by (simp_all add: hotas_next_eq throttle_js_def stop_js_def is_throttle_def is_stop_def percent_of_def)

definition after_sched :: "tid list \<Rightarrow> read_result list \<Rightarrow> sys option" where
  "after_sched ts rs = run_sched thread_step ts (init_sys 3 rs True)"

lemma after_sched_reachable: "after_sched ts rs = Some s \<Longrightarrow> reachable 3 rs True s"
  unfolding after_sched_def by (rule reach_run_sched [OF reach_init]) (simp add: initial_def)

lemmas run_simps = after_sched_def step_defs hotas_next_samples init_sys_def init_globals_def

definition full_throttle :: "tid list" where
  "full_throttle = replicate 3 Main @ replicate 6 Hotas @ replicate 4 Main"

lemma full_throttle_runs:
  "\<exists>s. after_sched full_throttle [throttle_event (- 32767)] = Some s
     \<and> m_out s = [100] \<and> mpc s = MUnlock"
  by (simp add: run_simps full_throttle_def eval_nat_numeral)

theorem control_safe_witness:
  "\<exists>s. reachable 3 [throttle_event (- 32767)] True s \<and> m_out s = [100] \<and> m_current s = 100
     \<and> mpc s = MUnlock \<and> \<not> h_crit (hpc s)"
proof -
  obtain s where s: "after_sched full_throttle [throttle_event (- 32767)] = Some s"
    "m_out s = [100]" "mpc s = MUnlock"
    using full_throttle_runs by blast
  from control_safe [OF after_sched_reachable [OF s(1)]] s after_sched_reachable [OF s(1)]
  show ?thesis by auto
qed

text \<open>C8.  When the joystick thread of the concurrent program has finished, the shared variables hold
  exactly what \<^verbatim>\<open>hotas_inputs\<close> leaves when it runs alone on the same device and events: the two other
  threads do not change what it computes.\<close>

theorem hotas_thread_sequential:
  assumes "reachable fd rs ok s" and "hpc s = HDone"
  shows "\<exists>io x. hotas_inputs init_globals fd rs = Some (glob s, io, x)"
  using hotas_run.reach_inv [OF assms(1)] assms(2)
  by (cases "hotas_inputs init_globals fd rs") (auto simp: future_inv_def)

theorem hotas_thread_sequential_witness:
  "\<exists>s. reachable 3 [throttle_event (- 32767), stop_event] True s \<and> hpc s = HDone
     \<and> (\<exists>io x. hotas_inputs init_globals 3 [throttle_event (- 32767), stop_event]
          = Some (glob s, io, x))
     \<and> glob s = \<lparr>throttle_position = 100, running = 0\<rparr>"
proof -
  have "\<exists>s. after_sched (Main # replicate 11 Hotas) [throttle_event (- 32767), stop_event] = Some s
     \<and> hpc s = HDone \<and> glob s = \<lparr>throttle_position = 100, running = 0\<rparr>"
    by (simp add: run_simps eval_nat_numeral)
  then show ?thesis
    using hotas_thread_sequential after_sched_reachable by metis
qed

text \<open>C9.  Once \<^verbatim>\<open>running\<close> is 0, \<^verbatim>\<open>main\<close> makes at most \<open>m_rank\<close> (never more than 10) further moves under
  any schedule, and as long as it has not returned it can move or waits for a mutex whose holder,
  the joystick thread, can move: the program ends after the stop button.\<close>

theorem main_stops:
  assumes "reachable fd rs ok s" and "running (glob s) = 0"
    and "run_sched thread_step ts s = Some s'"
  shows "m_rank (mpc s') + length (filter (\<lambda>t. t = Main) ts) \<le> m_rank (mpc s)
    \<and> m_rank (mpc s) \<le> 10
    \<and> (mpc s' \<noteq> MDone \<longrightarrow> main_step s' \<noteq> None \<or> (mutex s' = Some Hotas \<and> hotas_step s' \<noteq> None))"
proof -
  have inv: "sys_inv s" by (rule control.reach_inv [OF assms(1)])
  then have "sys_inv s'" using assms(3) by (rule control.run_inv)
  moreover have "m_rank pc \<le> 10" for pc by (cases pc) simp_all
  ultimately show ?thesis
    using stopping.moves_bounded [OF inv _ assms(3)] assms(2) main_not_stuck [of s']
    by (auto simp: stopped_def sys_inv_def)
qed

theorem main_stops_witness:
  "\<exists>s s'. reachable 3 [stop_event] True s \<and> running (glob s) = 0 \<and> m_rank (mpc s) = 7
     \<and> run_sched thread_step (replicate 5 Main) s = Some s' \<and> mpc s' = MDone
     \<and> m_rank (mpc s') + length (filter (\<lambda>t. t = Main) (replicate 5 Main)) \<le> 7"
proof -
  have "\<exists>s. after_sched (replicate 4 Main @ replicate 4 Hotas) [stop_event] = Some s
    \<and> running (glob s) = 0 \<and> mpc s = MLock
    \<and> (\<exists>s'. run_sched thread_step (replicate 5 Main) s = Some s' \<and> mpc s' = MDone)"
    by (simp add: run_simps eval_nat_numeral)
  then obtain s where s: "after_sched (replicate 4 Main @ replicate 4 Hotas) [stop_event] = Some s"
    "running (glob s) = 0" "mpc s = MLock"
    "\<exists>s'. run_sched thread_step (replicate 5 Main) s = Some s' \<and> mpc s' = MDone"
    by blast
  then obtain s' where s': "run_sched thread_step (replicate 5 Main) s = Some s'" "mpc s' = MDone"
    by blast
  have "reachable 3 [stop_event] True s" using s(1) by (rule after_sched_reachable)
  with main_stops [OF this s(2) s'(1)] s s' show ?thesis by (intro exI [of _ s] exI [of _ s']) auto
qed

text \<open>C10.  Only button 0 ends the program: if no event of the joystick is a press of button 0, \<^verbatim>\<open>main\<close>
  never leaves its loop, also when the joystick cannot be opened or a read fails and the joystick
  thread has returned.\<close>

theorem main_runs_without_stop:
  assumes "reachable fd rs ok s" and "no_stop rs"
  shows "mpc s \<noteq> MDone \<and> running (glob s) = 1"
proof -
  have "reach (\<lambda>s. initial fd rs ok s \<and> no_stop rs) thread_step s"
    using assms by (auto intro: reach_strengthen)
  from unstopped.reach_inv [OF this] show ?thesis by (simp add: running_inv_def)
qed

theorem main_runs_without_stop_witness:
  "\<exists>s. reachable 3 [ReadFail] True s \<and> hpc s = HDone \<and> mpc s \<noteq> MDone \<and> running (glob s) = 1"
proof -
  have "\<exists>s. after_sched (Main # replicate 4 Hotas) [ReadFail] = Some s \<and> hpc s = HDone"
    by (simp add: run_simps eval_nat_numeral)
  then obtain s where s: "reachable 3 [ReadFail] True s" "hpc s = HDone"
    using after_sched_reachable by blast
  with main_runs_without_stop [OF s(1)] show ?thesis by auto
qed

text \<open>C11.  The sending loop reads \<^verbatim>\<open>throttle_position\<close> three times without the mutex: there is a run in
  which it sends 50, a new position 100 arrives before it stores \<^verbatim>\<open>current\<close>, and it then considers 100
  sent although it never was; with no further event it never sends it, in any number of rounds of
  its loop.\<close>

definition lost_update :: "tid list" where
  "lost_update = replicate 3 Main @ replicate 2 Ble @ replicate 6 Hotas @ replicate 3 Ble
     @ replicate 5 Hotas @ [Ble]"

theorem ble_sender_loses_update:
  "\<exists>s. after_sched lost_update [throttle_event 0, throttle_event (- 32767)] = Some s
     \<and> throttle_position (glob s) = 100 \<and> b_out s = [50]
     \<and> (\<forall>n. \<exists>s'. run_sched thread_step (concat (replicate n [Ble, Ble])) s = Some s'
            \<and> b_out s' = [50] \<and> throttle_position (glob s') = 100)"
proof -
  have "\<exists>s. after_sched lost_update [throttle_event 0, throttle_event (- 32767)] = Some s
    \<and> throttle_position (glob s) = 100 \<and> b_out s = [50] \<and> bpc s = BWhile \<and> b_current s = 100
    \<and> running (glob s) = 1"
    by (simp add: run_simps lost_update_def eval_nat_numeral)
  then obtain s where s: "after_sched lost_update [throttle_event 0, throttle_event (- 32767)] = Some s"
    "throttle_position (glob s) = 100" "b_out s = [50]" "bpc s = BWhile" "b_current s = 100"
    "running (glob s) = 1"
    by blast
  have same: "s\<lparr>bpc := BWhile\<rparr> = s" using s(4) by (cases s) simp
  have "run_sched thread_step (concat (replicate n [Ble, Ble])) s = Some s" for n
    using s by (induction n) (simp_all add: step_defs same)
  with s show ?thesis by blast
qed

end
