(* ===== verification/Queue.thy ===== *)
theory Queue
  imports Transition
begin

text \<open>
  The pointer queue of BlueZ, \<^verbatim>\<open>bluez5/src/shared/queue.c\<close>: a singly linked list with a head and a
  tail pointer, an entry count and a reference count.  Memory is explicit: \<open>queues\<close> and \<open>cells\<close> map
  the addresses of live objects to their contents, so that following a freed or wild pointer is
  \<open>None\<close>.  Pointers are \<open>nat option\<close> (\<open>None\<close> is NULL) and the data of an entry is a pointer.  Addresses
  are handed out in order and not used again; \<^verbatim>\<open>btd_malloc\<close> aborts instead of returning NULL.  A match
  function is a predicate on the data (it includes its user data), a destroy function is observed by
  the calls it gets, in \<open>calls\<close>, and a foreach function is any memory transformer.
\<close>

section \<open>State\<close>

type_synonym ptr = "nat option"

record queue_entry =
  qe_data :: ptr
  qe_next :: ptr

record queue =
  q_ref_count :: u32
  q_head :: ptr
  q_tail :: ptr
  q_entries :: u32

record qmem =
  queues :: "nat \<rightharpoonup> queue"
  cells :: "nat \<rightharpoonup> queue_entry"
  brk :: nat
  calls :: "ptr list"

definition set_queue :: "qmem \<Rightarrow> nat \<Rightarrow> queue \<Rightarrow> qmem" where
  "set_queue m p q = m\<lparr>queues := (queues m)(p \<mapsto> q)\<rparr>"

definition set_next :: "qmem \<Rightarrow> nat \<Rightarrow> ptr \<Rightarrow> qmem option" where
  "set_next m e n = do {
     c \<leftarrow> cells m e;
     Some (m\<lparr>cells := (cells m)(e \<mapsto> c\<lparr>qe_next := n\<rparr>)\<rparr>)
   }"

definition free_entry :: "qmem \<Rightarrow> nat \<Rightarrow> qmem option" where
  "free_entry m e = do { _ \<leftarrow> cells m e; Some (m\<lparr>cells := (cells m)(e := None)\<rparr>) }"

definition free_queue :: "qmem \<Rightarrow> nat \<Rightarrow> qmem option" where
  "free_queue m p = do { _ \<leftarrow> queues m p; Some (m\<lparr>queues := (queues m)(p := None)\<rparr>) }"

section \<open>Operations\<close>

definition queue_ref :: "qmem \<Rightarrow> ptr \<Rightarrow> (ptr \<times> qmem) option" where
  "queue_ref m queue =
     (case queue of
        None \<Rightarrow> Some (None, m)
      | Some p \<Rightarrow> do {
          q \<leftarrow> queues m p;
          Some (queue, set_queue m p (q\<lparr>q_ref_count := q_ref_count q + 1\<rparr>))
        })"

definition queue_unref :: "qmem \<Rightarrow> nat \<Rightarrow> qmem option" where
  "queue_unref m p = do {
     q \<leftarrow> queues m p;
     let n = q_ref_count q - 1;
     let m1 = set_queue m p (q\<lparr>q_ref_count := n\<rparr>);
     (if n \<noteq> 0 then Some m1 else free_queue m1 p)
   }"

definition queue_new :: "qmem \<Rightarrow> (ptr \<times> qmem) option" where
  "queue_new m =
     (let p = brk m;
          m1 = set_queue (m\<lparr>brk := Suc (brk m)\<rparr>) p
                 \<lparr>q_ref_count = 0, q_head = None, q_tail = None, q_entries = 0\<rparr>
      in queue_ref m1 (Some p))"

definition queue_entry_new :: "qmem \<Rightarrow> ptr \<Rightarrow> nat \<times> qmem" where
  "queue_entry_new m data =
     (brk m, m\<lparr>cells := (cells m)(brk m \<mapsto> \<lparr>qe_data = data, qe_next = None\<rparr>),
       brk := Suc (brk m)\<rparr>)"

definition queue_push_tail :: "qmem \<Rightarrow> ptr \<Rightarrow> ptr \<Rightarrow> (bool \<times> qmem) option" where
  "queue_push_tail m queue data =
     (case queue of
        None \<Rightarrow> Some (False, m)
      | Some p \<Rightarrow> do {
          let (entry, m1) = queue_entry_new m data;
          q \<leftarrow> queues m1 p;
          m2 \<leftarrow> (case q_tail q of None \<Rightarrow> Some m1 | Some t \<Rightarrow> set_next m1 t (Some entry));
          let q1 = q\<lparr>q_tail := Some entry\<rparr>;
          let q2 = (if q_head q1 = None then q1\<lparr>q_head := Some entry\<rparr> else q1);
          Some (True, set_queue m2 p (q2\<lparr>q_entries := q_entries q2 + 1\<rparr>))
        })"

definition queue_push_head :: "qmem \<Rightarrow> ptr \<Rightarrow> ptr \<Rightarrow> (bool \<times> qmem) option" where
  "queue_push_head m queue data =
     (case queue of
        None \<Rightarrow> Some (False, m)
      | Some p \<Rightarrow> do {
          let (entry, m1) = queue_entry_new m data;
          q \<leftarrow> queues m1 p;
          m2 \<leftarrow> set_next m1 entry (q_head q);
          let q1 = q\<lparr>q_head := Some entry\<rparr>;
          let q2 = (if q_tail q1 = None then q1\<lparr>q_tail := Some entry\<rparr> else q1);
          Some (True, set_queue m2 p (q2\<lparr>q_entries := q_entries q2 + 1\<rparr>))
        })"

text \<open>The search loops: the first entry whose data satisfies the predicate.  A list that does not
  end gives \<open>None\<close>.\<close>

partial_function (option) find_entry :: "qmem \<Rightarrow> (ptr \<Rightarrow> bool) \<Rightarrow> ptr \<Rightarrow> ptr option" where
  "find_entry m f entry =
     (case entry of
        None \<Rightarrow> Some None
      | Some e \<Rightarrow> do {
          c \<leftarrow> cells m e;
          (if f (qe_data c) then Some (Some e) else find_entry m f (qe_next c))
        })"

definition queue_push_after :: "qmem \<Rightarrow> ptr \<Rightarrow> ptr \<Rightarrow> ptr \<Rightarrow> (bool \<times> qmem) option" where
  "queue_push_after m queue entry data =
     (case queue of
        None \<Rightarrow> Some (False, m)
      | Some p \<Rightarrow> do {
          q \<leftarrow> queues m p;
          qentry \<leftarrow> find_entry m (\<lambda>d. d = entry) (q_head q);
          (case qentry of
             None \<Rightarrow> Some (False, m)
           | Some qe \<Rightarrow> do {
               let (new_entry, m1) = queue_entry_new m data;
               c \<leftarrow> cells m1 qe;
               m2 \<leftarrow> set_next m1 new_entry (qe_next c);
               let q1 = (if qe_next c = None then q\<lparr>q_tail := Some new_entry\<rparr> else q);
               m3 \<leftarrow> set_next m2 qe (Some new_entry);
               Some (True, set_queue m3 p (q1\<lparr>q_entries := q_entries q1 + 1\<rparr>))
             })
        })"

definition queue_pop_head :: "qmem \<Rightarrow> ptr \<Rightarrow> (ptr \<times> qmem) option" where
  "queue_pop_head m queue =
     (case queue of
        None \<Rightarrow> Some (None, m)
      | Some p \<Rightarrow> do {
          q \<leftarrow> queues m p;
          (case q_head q of
             None \<Rightarrow> Some (None, m)
           | Some entry \<Rightarrow> do {
               c \<leftarrow> cells m entry;
               let q1 = (if qe_next c = None then q\<lparr>q_head := None, q_tail := None\<rparr>
                         else q\<lparr>q_head := qe_next c\<rparr>);
               m1 \<leftarrow> free_entry m entry;
               Some (qe_data c, set_queue m1 p (q1\<lparr>q_entries := q_entries q1 - 1\<rparr>))
             })
        })"

definition queue_peek_head :: "qmem \<Rightarrow> ptr \<Rightarrow> ptr option" where
  "queue_peek_head m queue =
     (case queue of
        None \<Rightarrow> Some None
      | Some p \<Rightarrow> do {
          q \<leftarrow> queues m p;
          (case q_head q of None \<Rightarrow> Some None | Some e \<Rightarrow> do { c \<leftarrow> cells m e; Some (qe_data c) })
        })"

definition queue_peek_tail :: "qmem \<Rightarrow> ptr \<Rightarrow> ptr option" where
  "queue_peek_tail m queue =
     (case queue of
        None \<Rightarrow> Some None
      | Some p \<Rightarrow> do {
          q \<leftarrow> queues m p;
          (case q_tail q of None \<Rightarrow> Some None | Some e \<Rightarrow> do { c \<leftarrow> cells m e; Some (qe_data c) })
        })"

partial_function (option) foreach_loop ::
  "nat \<Rightarrow> (ptr \<Rightarrow> qmem \<Rightarrow> qmem option) \<Rightarrow> ptr \<Rightarrow> qmem \<Rightarrow> qmem option" where
  "foreach_loop p f entry m =
     (case entry of
        None \<Rightarrow> Some m
      | Some e \<Rightarrow> do {
          q \<leftarrow> queues m p;
          (if q_head q \<noteq> None \<and> 1 < sint (q_ref_count q)
           then do {
             c \<leftarrow> cells m e;
             m1 \<leftarrow> f (qe_data c) m;
             foreach_loop p f (qe_next c) m1
           }
           else Some m)
        })"

definition queue_foreach :: "qmem \<Rightarrow> ptr \<Rightarrow> (ptr \<Rightarrow> qmem \<Rightarrow> qmem option) option \<Rightarrow> qmem option" where
  "queue_foreach m queue function =
     (case (queue, function) of
        (Some p, Some f) \<Rightarrow> do {
          q \<leftarrow> queues m p;
          (case q_head q of
             None \<Rightarrow> Some m
           | Some e \<Rightarrow> do {
               (_, m1) \<leftarrow> queue_ref m queue;
               m2 \<leftarrow> foreach_loop p f (Some e) m1;
               queue_unref m2 p
             })
        }
      | _ \<Rightarrow> Some m)"

definition queue_find :: "qmem \<Rightarrow> ptr \<Rightarrow> (ptr \<Rightarrow> ptr \<Rightarrow> bool) option \<Rightarrow> ptr \<Rightarrow> ptr option" where
  "queue_find m queue function match_data =
     (case queue of
        None \<Rightarrow> Some None
      | Some p \<Rightarrow> do {
          let f = (case function of None \<Rightarrow> (\<lambda>a b. a = b) | Some g \<Rightarrow> g);
          q \<leftarrow> queues m p;
          entry \<leftarrow> find_entry m (\<lambda>d. f d match_data) (q_head q);
          (case entry of None \<Rightarrow> Some None | Some e \<Rightarrow> do { c \<leftarrow> cells m e; Some (qe_data c) })
        })"

text \<open>The removal loops keep the previous entry; on a match the entry is unlinked and freed.\<close>

partial_function (option) find_prev ::
  "qmem \<Rightarrow> (ptr \<Rightarrow> bool) \<Rightarrow> ptr \<Rightarrow> ptr \<Rightarrow> (ptr \<times> ptr) option" where
  "find_prev m f prev entry =
     (case entry of
        None \<Rightarrow> Some (prev, None)
      | Some e \<Rightarrow> do {
          c \<leftarrow> cells m e;
          (if f (qe_data c) then Some (prev, entry) else find_prev m f entry (qe_next c))
        })"

definition unlink_entry :: "qmem \<Rightarrow> nat \<Rightarrow> ptr \<Rightarrow> nat \<Rightarrow> (ptr \<times> qmem) option" where
  "unlink_entry m p prev e = do {
     q \<leftarrow> queues m p;
     c \<leftarrow> cells m e;
     m1 \<leftarrow> (case prev of None \<Rightarrow> Some m | Some pr \<Rightarrow> set_next m pr (qe_next c));
     let q1 = (if prev = None then q\<lparr>q_head := qe_next c\<rparr> else q);
     let q2 = (if qe_next c = None then q1\<lparr>q_tail := prev\<rparr> else q1);
     m2 \<leftarrow> free_entry m1 e;
     Some (qe_data c, set_queue m2 p (q2\<lparr>q_entries := q_entries q2 - 1\<rparr>))
   }"

definition queue_remove :: "qmem \<Rightarrow> ptr \<Rightarrow> ptr \<Rightarrow> (bool \<times> qmem) option" where
  "queue_remove m queue data =
     (case queue of
        None \<Rightarrow> Some (False, m)
      | Some p \<Rightarrow> do {
          q \<leftarrow> queues m p;
          (prev, entry) \<leftarrow> find_prev m (\<lambda>d. d = data) None (q_head q);
          (case entry of
             None \<Rightarrow> Some (False, m)
           | Some e \<Rightarrow> do { (_, m1) \<leftarrow> unlink_entry m p prev e; Some (True, m1) })
        })"

definition queue_remove_if :: "qmem \<Rightarrow> ptr \<Rightarrow> (ptr \<Rightarrow> bool) option \<Rightarrow> (ptr \<times> qmem) option" where
  "queue_remove_if m queue function =
     (case (queue, function) of
        (Some p, Some f) \<Rightarrow> do {
          q \<leftarrow> queues m p;
          (prev, entry) \<leftarrow> find_prev m f None (q_head q);
          (case entry of None \<Rightarrow> Some (None, m) | Some e \<Rightarrow> unlink_entry m p prev e)
        }
      | _ \<Rightarrow> Some (None, m))"

definition call_destroy :: "bool \<Rightarrow> ptr \<Rightarrow> qmem \<Rightarrow> qmem" where
  "call_destroy destroy data m = (if destroy then m\<lparr>calls := calls m @ [data]\<rparr> else m)"

partial_function (option) remove_matching ::
  "(ptr \<Rightarrow> bool) \<Rightarrow> bool \<Rightarrow> qmem \<Rightarrow> nat \<Rightarrow> u32 \<Rightarrow> (u32 \<times> qmem) option" where
  "remove_matching f destroy m p count = do {
     q \<leftarrow> queues m p;
     (data, m1) \<leftarrow> queue_remove_if m (Some p) (Some f);
     q1 \<leftarrow> queues m1 p;
     (if q_entries q = q_entries q1 then Some (count, m1)
      else remove_matching f destroy (call_destroy destroy data m1) p (count + 1))
   }"

partial_function (option) free_entries ::
  "bool \<Rightarrow> qmem \<Rightarrow> ptr \<Rightarrow> u32 \<Rightarrow> (u32 \<times> qmem) option" where
  "free_entries destroy m entry count =
     (case entry of
        None \<Rightarrow> Some (count, m)
      | Some e \<Rightarrow> do {
          c \<leftarrow> cells m e;
          m1 \<leftarrow> free_entry (call_destroy destroy (qe_data c) m) e;
          free_entries destroy m1 (qe_next c) (count + 1)
        })"

definition queue_remove_all ::
  "qmem \<Rightarrow> ptr \<Rightarrow> (ptr \<Rightarrow> bool) option \<Rightarrow> bool \<Rightarrow> (u32 \<times> qmem) option" where
  "queue_remove_all m queue function destroy =
     (case queue of
        None \<Rightarrow> Some (0, m)
      | Some p \<Rightarrow> do {
          q \<leftarrow> queues m p;
          (case function of
             Some f \<Rightarrow> (if q_head q = None then Some (0, m) else remove_matching f destroy m p 0)
           | None \<Rightarrow> free_entries destroy
               (set_queue m p (q\<lparr>q_head := None, q_tail := None, q_entries := 0\<rparr>)) (q_head q) 0)
        })"

definition queue_destroy :: "qmem \<Rightarrow> ptr \<Rightarrow> bool \<Rightarrow> qmem option" where
  "queue_destroy m queue destroy =
     (case queue of
        None \<Rightarrow> Some m
      | Some p \<Rightarrow> do { (_, m1) \<leftarrow> queue_remove_all m queue None destroy; queue_unref m1 p })"

definition queue_get_entries :: "qmem \<Rightarrow> ptr \<Rightarrow> ptr option" where
  "queue_get_entries m queue =
     (case queue of None \<Rightarrow> Some None | Some p \<Rightarrow> do { q \<leftarrow> queues m p; Some (q_head q) })"

definition queue_length :: "qmem \<Rightarrow> ptr \<Rightarrow> u32 option" where
  "queue_length m queue =
     (case queue of None \<Rightarrow> Some 0 | Some p \<Rightarrow> do { q \<leftarrow> queues m p; Some (q_entries q) })"

definition queue_isempty :: "qmem \<Rightarrow> ptr \<Rightarrow> bool option" where
  "queue_isempty m queue =
     (case queue of None \<Rightarrow> Some True | Some p \<Rightarrow> do { q \<leftarrow> queues m p; Some (q_entries q = 0) })"

section \<open>Lists in memory\<close>

text \<open>\<open>path h x as y\<close>: following \<^verbatim>\<open>next\<close> from \<open>x\<close> visits the cells \<open>as\<close> and arrives at \<open>y\<close>.\<close>

fun path :: "(nat \<rightharpoonup> queue_entry) \<Rightarrow> ptr \<Rightarrow> nat list \<Rightarrow> ptr \<Rightarrow> bool" where
  "path h x [] y = (x = y)"
| "path h x (a # as) y = (x = Some a \<and> a \<in> dom h \<and> path h (qe_next (the (h a))) as y)"

abbreviation dat :: "(nat \<rightharpoonup> queue_entry) \<Rightarrow> nat \<Rightarrow> ptr" where
  "dat h a \<equiv> qe_data (the (h a))"

lemma path_append [simp]:
  "path h x (as @ bs) z \<longleftrightarrow> (\<exists>y. path h x as y \<and> path h y bs z)"
  by (induction as arbitrary: x) auto

lemma path_agree:
  "(\<And>a. a \<in> set as \<Longrightarrow> h' a = h a) \<Longrightarrow> path h' x as y = path h x as y"
  by (induction as arbitrary: x) (auto simp: dom_def)

lemma path_upd [simp]: "e \<notin> set as \<Longrightarrow> path (h(e := v)) x as y = path h x as y"
  by (rule path_agree) auto

lemma path_dom: "path h x as y \<Longrightarrow> set as \<subseteq> dom h"
  by (induction as arbitrary: x) auto

lemma path_hd: "path h x as None \<Longrightarrow> x = (if as = [] then None else Some (hd as))"
  by (cases as) auto

lemma path_Some: "path h x as (Some t) \<Longrightarrow> \<exists>a. x = Some a"
  by (cases as) auto

text \<open>The list of one queue and the state of all queues: the live cells are exactly those of the live
  queues, each in one list, so that nothing leaks and nothing is shared.\<close>

definition qlist :: "(nat \<rightharpoonup> queue_entry) \<Rightarrow> queue \<Rightarrow> nat list \<Rightarrow> bool" where
  "qlist h q as \<longleftrightarrow> path h (q_head q) as None \<and> distinct as
     \<and> q_tail q = (if as = [] then None else Some (last as)) \<and> q_entries q = of_nat (length as)"

type_synonym queues_abs = "nat \<rightharpoonup> ptr list"

definition repr_by :: "(nat \<Rightarrow> nat list) \<Rightarrow> qmem \<Rightarrow> queues_abs \<Rightarrow> bool" where
  "repr_by L m Q \<longleftrightarrow>
     (\<forall>p. Q p = map_option (\<lambda>q. map (dat (cells m)) (L p)) (queues m p))
   \<and> (\<forall>p q. queues m p = Some q \<longrightarrow> qlist (cells m) q (L p))
   \<and> (\<forall>p p'. p \<in> dom (queues m) \<longrightarrow> p' \<in> dom (queues m) \<longrightarrow> p \<noteq> p' \<longrightarrow> set (L p) \<inter> set (L p') = {})
   \<and> dom (cells m) = (\<Union>p\<in>dom (queues m). set (L p))
   \<and> (\<forall>a\<in>dom (cells m) \<union> dom (queues m). a < brk m)"

definition repr :: "qmem \<Rightarrow> queues_abs \<Rightarrow> bool" where
  "repr m Q \<longleftrightarrow> (\<exists>L. repr_by L m Q)"

lemma repr_byD:
  assumes "repr_by L m Q" and "Q p = Some xs"
  obtains q where "queues m p = Some q" "qlist (cells m) q (L p)" "xs = map (dat (cells m)) (L p)"
proof -
  from assms have "map_option (\<lambda>q. map (dat (cells m)) (L p)) (queues m p) = Some xs"
    by (simp add: repr_by_def)
  then obtain q where "queues m p = Some q" "xs = map (dat (cells m)) (L p)" by auto
  with assms(1) show ?thesis by (intro that [of q]) (simp_all add: repr_by_def)
qed

lemma repr_fresh:
  assumes "repr_by L m Q"
  shows "cells m (brk m) = None" "queues m (brk m) = None"
    "p \<in> dom (queues m) \<Longrightarrow> brk m \<notin> set (L p)"
proof -
  have d: "\<forall>a\<in>dom (cells m) \<union> dom (queues m). a < brk m"
    and u: "dom (cells m) = (\<Union>p\<in>dom (queues m). set (L p))"
    using assms by (simp_all add: repr_by_def)
  from d show "cells m (brk m) = None" "queues m (brk m) = None" by blast+
  with d u show "p \<in> dom (queues m) \<Longrightarrow> brk m \<notin> set (L p)" by blast
qed

text \<open>One operation changes the list of one queue: the cells outside it stay, a cell that is new was
  fresh, and a cell that leaves the list is freed.\<close>

lemma repr_update:
  assumes r: "repr_by L m Q" and p: "queues m p = Some q"
    and q': "queues m' = (queues m)(p \<mapsto> q')" and list: "qlist (cells m') q' as"
    and same: "\<And>a. a \<notin> set (L p) \<union> set as \<Longrightarrow> cells m' a = cells m a"
    and freed: "\<And>a. a \<in> set (L p) \<Longrightarrow> a \<notin> set as \<Longrightarrow> cells m' a = None"
    and new: "\<And>a. a \<in> set as \<Longrightarrow> a \<notin> set (L p) \<Longrightarrow> brk m \<le> a \<and> a < brk m'"
    and brk: "brk m \<le> brk m'"
  shows "repr_by (L(p := as)) m' (Q(p \<mapsto> map (dat (cells m')) as))"
proof -
  have ran: "a < brk m" if "a \<in> dom (cells m) \<union> dom (queues m)" for a
    using r that by (auto simp: repr_by_def)
  have cov: "dom (cells m) = (\<Union>p\<in>dom (queues m). set (L p))" using r by (simp add: repr_by_def)
  have own: "set (L p) \<subseteq> dom (cells m)" unfolding cov using p by blast
  have doms: "dom (queues m') = dom (queues m)" using p q' by auto
  have disj: "set (L a) \<inter> set (L b) = {}" if "a \<in> dom (queues m)" "b \<in> dom (queues m)" "a \<noteq> b" for a b
    using r that unfolding repr_by_def by blast
  have other: "set (L p') \<inter> (set (L p) \<union> set as) = {}"
    if p': "p' \<in> dom (queues m)" "p' \<noteq> p" for p'
  proof -
    have "set (L p') \<inter> set (L p) = {}" using disj [of p' p] p p' by auto
    moreover have "a < brk m" if "a \<in> set (L p')" for a using that p' cov ran by blast
    ultimately show ?thesis using new by fastforce
  qed
  have keep: "cells m' a = cells m a" if "p' \<in> dom (queues m)" "p' \<noteq> p" "a \<in> set (L p')" for p' a
    using other [OF that(1,2)] that(3) same by blast
  have lists: "qlist (cells m') r (L p')" if "queues m p' = Some r" "p' \<noteq> p" for p' r
  proof -
    have "path (cells m') (q_head r) (L p') None = path (cells m) (q_head r) (L p') None"
      using keep [of p'] that by (intro path_agree) auto
    then show ?thesis using r that by (auto simp: repr_by_def qlist_def)
  qed
  have "dom (cells m') = (\<Union>p'\<in>dom (queues m). set ((L(p := as)) p'))"
  proof (intro equalityI subsetI)
    fix a assume a: "a \<in> dom (cells m')"
    show "a \<in> (\<Union>p'\<in>dom (queues m). set ((L(p := as)) p'))"
    proof (cases "a \<in> set as")
      case False
      then have "a \<notin> set (L p)" using freed [of a] a by (auto simp: dom_def)
      with False have "a \<in> dom (cells m)" using same [of a] a by (simp add: dom_def)
      then obtain p' where "p' \<in> dom (queues m)" "a \<in> set (L p')" unfolding cov by blast
      with \<open>a \<notin> set (L p)\<close> show ?thesis by (intro UN_I [of p']) auto
    next
      case True
      with p show ?thesis by (intro UN_I [of p]) auto
    qed
  next
    fix a assume "a \<in> (\<Union>p'\<in>dom (queues m). set ((L(p := as)) p'))"
    then obtain p' where a: "p' \<in> dom (queues m)" "a \<in> set ((L(p := as)) p')" by blast
    show "a \<in> dom (cells m')"
    proof (cases "p' = p")
      case True
      with a(2) list path_dom show ?thesis by (fastforce simp: qlist_def)
    next
      case False
      with a have "a \<in> dom (cells m)" unfolding cov by (intro UN_I [of p']) auto
      with a False keep [of p' a] show ?thesis by (simp add: dom_def)
    qed
  qed
  moreover have "a < brk m'" if "a \<in> dom (cells m') \<union> dom (queues m)" for a
  proof (cases "a \<in> set as \<and> a \<notin> set (L p)")
    case False
    then have "a \<in> dom (cells m) \<union> dom (queues m)"
      using that same [of a] own by (cases "a \<in> set (L p)") auto
    with ran brk show ?thesis by fastforce
  qed (use new in blast)
  moreover have "(Q(p \<mapsto> map (dat (cells m')) as)) p'
      = map_option (\<lambda>q. map (dat (cells m')) ((L(p := as)) p')) (queues m' p')" for p'
  proof (cases "p' = p")
    case False
    have "map (dat (cells m')) (L p') = map (dat (cells m)) (L p')" if "queues m p' = Some r" for r
      using keep [of p'] that False by (intro map_cong) (simp_all add: domI)
    moreover have "Q p' = map_option (\<lambda>q. map (dat (cells m)) (L p')) (queues m p')"
      using r by (simp add: repr_by_def)
    ultimately show ?thesis using q' False by (cases "queues m p'") simp_all
  qed (simp add: q')
  moreover have "set ((L(p := as)) a) \<inter> set ((L(p := as)) b) = {}"
    if "a \<in> dom (queues m)" "b \<in> dom (queues m)" "a \<noteq> b" for a b
    using disj [OF that] other [OF that(1)] other [OF that(2)] that by (cases "a = p"; cases "b = p") auto
  ultimately show ?thesis
    unfolding repr_by_def doms using lists list q' by auto
qed

section \<open>The operations on lists in memory\<close>

lemmas mem_defs = set_queue_def set_next_def free_entry_def queue_entry_new_def Let_def

lemma repr_open:
  assumes "repr m Q" and "Q p = Some xs"
  obtains L q where "repr_by L m Q" "queues m p = Some q" "qlist (cells m) q (L p)"
    "xs = map (dat (cells m)) (L p)" "cells m (brk m) = None" "brk m \<notin> set (L p)"
proof -
  from assms(1) obtain L where L: "repr_by L m Q" by (auto simp: repr_def)
  from L assms(2) obtain q where q: "queues m p = Some q" "qlist (cells m) q (L p)"
    "xs = map (dat (cells m)) (L p)" by (rule repr_byD)
  with repr_fresh [OF L] show ?thesis by (intro that [OF L]) auto
qed

lemma repr_close:
  assumes "repr_by L m Q" and "queues m p = Some q"
    and "queues m' = (queues m)(p \<mapsto> q')" and "qlist (cells m') q' as"
    and "\<And>a. a \<notin> set (L p) \<union> set as \<Longrightarrow> cells m' a = cells m a"
    and "\<And>a. a \<in> set (L p) \<Longrightarrow> a \<notin> set as \<Longrightarrow> cells m' a = None"
    and "\<And>a. a \<in> set as \<Longrightarrow> a \<notin> set (L p) \<Longrightarrow> brk m \<le> a \<and> a < brk m'"
    and "brk m \<le> brk m'" and "map (dat (cells m')) as = ys"
  shows "repr m' (Q(p \<mapsto> ys))"
  using repr_update [OF assms(1-8)] assms(9) unfolding repr_def by blast

lemma push_tail_repr:
  assumes "repr m Q" and "Q p = Some xs"
  shows "\<exists>m'. queue_push_tail m (Some p) x = Some (True, m') \<and> repr m' (Q(p \<mapsto> xs @ [x]))"
proof -
  obtain L q where L: "repr_by L m Q" "queues m p = Some q" "qlist (cells m) q (L p)"
    "xs = map (dat (cells m)) (L p)" "cells m (brk m) = None" "brk m \<notin> set (L p)"
    using repr_open [OF assms] .
  show ?thesis
  proof (cases "L p" rule: rev_cases)
    case Nil
    with L(3) have q: "q_head q = None" "q_tail q = None" "q_entries q = 0" by (auto simp: qlist_def)
    define m' where "m' = snd (the (queue_push_tail m (Some p) x))"
    have m': "queue_push_tail m (Some p) x = Some (True, m')"
      using L(2) q by (simp add: m'_def queue_push_tail_def mem_defs)
    moreover have "repr m' (Q(p \<mapsto> xs @ [x]))"
      by (rule repr_close [OF L(1,2), where as = "[brk m]"])
        (use L Nil q in \<open>auto simp: m'_def queue_push_tail_def mem_defs qlist_def\<close>)
    ultimately show ?thesis by blast
  next
    case (snoc as t)
    with L(3) have q: "q_tail q = Some t" "q_head q \<noteq> None" "q_entries q = 1 + of_nat (length as)"
      and p: "path (cells m) (q_head q) as (Some t)" "t \<in> dom (cells m)"
        "qe_next (the (cells m t)) = None" "distinct as" "t \<notin> set as"
      by (auto simp: qlist_def dest: path_Some)
    from p(2) obtain c where c: "cells m t = Some c" by auto
    have fresh: "brk m \<noteq> t" "brk m \<notin> set as" using L(6) snoc by auto
    define m' where "m' = snd (the (queue_push_tail m (Some p) x))"
    have m': "queue_push_tail m (Some p) x = Some (True, m')"
      using L(2) q c fresh by (simp add: m'_def queue_push_tail_def mem_defs)
    moreover have "repr m' (Q(p \<mapsto> xs @ [x]))"
      by (rule repr_close [OF L(1,2), where as = "as @ [t, brk m]"])
        (use L snoc q p c fresh in \<open>auto simp: m'_def queue_push_tail_def mem_defs qlist_def\<close>)
    ultimately show ?thesis by blast
  qed
qed

lemma push_head_repr:
  assumes "repr m Q" and "Q p = Some xs"
  shows "\<exists>m'. queue_push_head m (Some p) x = Some (True, m') \<and> repr m' (Q(p \<mapsto> x # xs))"
proof -
  obtain L q where L: "repr_by L m Q" "queues m p = Some q" "qlist (cells m) q (L p)"
    "xs = map (dat (cells m)) (L p)" "cells m (brk m) = None" "brk m \<notin> set (L p)"
    using repr_open [OF assms] .
  define m' where "m' = snd (the (queue_push_head m (Some p) x))"
  have m': "queue_push_head m (Some p) x = Some (True, m')"
    using L(2) by (simp add: m'_def queue_push_head_def mem_defs)
  moreover have "repr m' (Q(p \<mapsto> x # xs))"
    by (rule repr_close [OF L(1,2), where as = "brk m # L p"])
      (use L in \<open>auto simp: m'_def queue_push_head_def mem_defs qlist_def\<close>)
  ultimately show ?thesis by blast
qed

lemma pop_head_repr:
  assumes "repr m Q" and "Q p = Some xs"
  shows "\<exists>m'. queue_pop_head m (Some p) = Some (if xs = [] then None else hd xs, m')
    \<and> repr m' (Q(p \<mapsto> tl xs))"
proof -
  obtain L q where L: "repr_by L m Q" "queues m p = Some q" "qlist (cells m) q (L p)"
    "xs = map (dat (cells m)) (L p)" "cells m (brk m) = None" "brk m \<notin> set (L p)"
    using repr_open [OF assms] .
  show ?thesis
  proof (cases "L p")
    case Nil
    then have "Q(p \<mapsto> tl xs) = Q" using assms(2) L(4) by auto
    with Nil L assms(1) show ?thesis by (auto simp: queue_pop_head_def qlist_def)
  next
    case (Cons e as)
    with L(3) obtain c where c: "q_head q = Some e" "cells m e = Some c"
      "path (cells m) (qe_next c) as None" "distinct as" "e \<notin> set as"
      "q_tail q = Some (last (e # as))" "q_entries q = 1 + of_nat (length as)"
      by (auto simp: qlist_def)
    define m' where "m' = snd (the (queue_pop_head m (Some p)))"
    have m': "queue_pop_head m (Some p) = Some (qe_data c, m')"
      using L(2) c by (simp add: m'_def queue_pop_head_def mem_defs)
    moreover have "repr m' (Q(p \<mapsto> tl xs))"
      by (rule repr_close [OF L(1,2), where as = as])
        (use L Cons c in \<open>auto simp: m'_def queue_pop_head_def mem_defs qlist_def dest: path_hd\<close>)
    ultimately show ?thesis using L(4) Cons c(2) by auto
  qed
qed

lemma peek_repr:
  assumes "repr m Q" and "Q p = Some xs"
  shows "queue_peek_head m (Some p) = Some (if xs = [] then None else hd xs)"
    and "queue_peek_tail m (Some p) = Some (if xs = [] then None else last xs)"
    and "queue_length m (Some p) = Some (of_nat (length xs))"
    and "length xs < 2 ^ 32 \<Longrightarrow> queue_isempty m (Some p) = Some (xs = [])"
proof -
  obtain L q where L: "repr_by L m Q" "queues m p = Some q" "qlist (cells m) q (L p)"
    "xs = map (dat (cells m)) (L p)" "cells m (brk m) = None" "brk m \<notin> set (L p)"
    using repr_open [OF assms] .
  show "queue_length m (Some p) = Some (of_nat (length xs))"
    using L by (simp add: queue_length_def qlist_def)
  show "queue_isempty m (Some p) = Some (xs = [])" if "length xs < 2 ^ 32"
  proof -
    have "(of_nat (length (L p)) :: u32) = 0 \<longleftrightarrow> L p = []"
      using that L(4) by (simp add: word_of_nat_eq_0_iff nat_dvd_not_less) (auto dest: nat_dvd_not_less)
    then show ?thesis using L by (simp add: queue_isempty_def qlist_def)
  qed
  show "queue_peek_head m (Some p) = Some (if xs = [] then None else hd xs)"
    using L by (cases "L p") (auto simp: queue_peek_head_def qlist_def)
  show "queue_peek_tail m (Some p) = Some (if xs = [] then None else last xs)"
    using L by (cases "L p" rule: rev_cases) (auto simp: queue_peek_tail_def qlist_def)
qed

section \<open>Searching and removing\<close>

text \<open>The list functions that the searching operations implement.\<close>

fun remove_first :: "('a \<Rightarrow> bool) \<Rightarrow> 'a list \<Rightarrow> 'a list" where
  "remove_first f [] = []"
| "remove_first f (x # xs) = (if f x then xs else x # remove_first f xs)"

fun insert_after :: "'a \<Rightarrow> 'a \<Rightarrow> 'a list \<Rightarrow> 'a list" where
  "insert_after y x [] = []"
| "insert_after y x (z # zs) = (if z = y then z # x # zs else z # insert_after y x zs)"

lemma split_first:
  assumes "\<exists>a\<in>set as. f (g a)"
  obtains bs e cs where "as = bs @ e # cs" "f (g e)" "\<forall>b\<in>set bs. \<not> f (g b)"
  using split_list_first_prop [OF assms] by blast

lemma remove_first_append:
  "\<forall>b\<in>set bs. \<not> f b \<Longrightarrow> f e \<Longrightarrow> remove_first f (bs @ e # cs) = bs @ cs"
  by (induction bs) auto

lemma remove_first_none: "\<forall>b\<in>set bs. \<not> f b \<Longrightarrow> remove_first f bs = bs"
  by (induction bs) auto

lemma find_map: "find f (map g as) = map_option g (find (\<lambda>a. f (g a)) as)"
  by (induction as) auto

lemma find_append: "\<forall>b\<in>set bs. \<not> f b \<Longrightarrow> f e \<Longrightarrow> find f (bs @ e # cs) = Some e"
  by (induction bs) auto

lemma insert_after_append:
  "y \<notin> set bs \<Longrightarrow> insert_after y x (bs @ y # cs) = bs @ y # x # cs"
  by (induction bs) auto

lemma find_entry_path:
  "path (cells m) x as None \<Longrightarrow> find_entry m f x = Some (find (\<lambda>a. f (dat (cells m) a)) as)"
  by (induction as arbitrary: x) (auto simp: find_entry.simps)

lemma find_prev_none:
  "path (cells m) x as None \<Longrightarrow> \<forall>a\<in>set as. \<not> f (dat (cells m) a) \<Longrightarrow>
     find_prev m f prev x = Some (if as = [] then prev else Some (last as), None)"
  by (induction as arbitrary: x prev) (auto simp: find_prev.simps)

lemma find_prev_found:
  "path (cells m) x (bs @ e # cs) None \<Longrightarrow> \<forall>b\<in>set bs. \<not> f (dat (cells m) b) \<Longrightarrow> f (dat (cells m) e) \<Longrightarrow>
     find_prev m f prev x = Some (if bs = [] then prev else Some (last bs), Some e)"
  by (induction bs arbitrary: x prev) (auto simp: find_prev.simps)

lemma find_repr:
  assumes "repr m Q" and "Q p = Some xs"
  shows "queue_find m (Some p) function match_data
    = Some (case find (\<lambda>d. (case function of None \<Rightarrow> (=) | Some g \<Rightarrow> g) d match_data) xs of
        None \<Rightarrow> None | Some d \<Rightarrow> d)"
proof -
  obtain L q where L: "repr_by L m Q" "queues m p = Some q" "qlist (cells m) q (L p)"
    "xs = map (dat (cells m)) (L p)" "cells m (brk m) = None" "brk m \<notin> set (L p)"
    using repr_open [OF assms] .
  have d: "set (L p) \<subseteq> dom (cells m)" using L(3) by (auto simp: qlist_def dest!: path_dom)
  define f where "f = (\<lambda>d. (case function of None \<Rightarrow> (=) | Some g \<Rightarrow> g) d match_data)"
  have "find_entry m f (q_head q) = Some (find (\<lambda>a. f (dat (cells m) a)) (L p))"
    using L(3) by (intro find_entry_path) (simp add: qlist_def)
  moreover have "find f xs = map_option (dat (cells m)) (find (\<lambda>a. f (dat (cells m) a)) (L p))"
    unfolding L(4) by (rule find_map)
  moreover have "e \<in> dom (cells m)" if "find (\<lambda>a. f (dat (cells m) a)) (L p) = Some e" for e
    using that d by (auto simp: find_Some_iff dest!: nth_mem)
  ultimately show ?thesis
    using L(2) unfolding queue_find_def f_def [symmetric] Let_def
    by (cases "find (\<lambda>a. f (dat (cells m) a)) (L p)") (auto simp: f_def cong: option.case_cong split: option.splits)
qed

lemma push_after_repr:
  assumes "repr m Q" and "Q p = Some xs"
  shows "\<exists>m'. queue_push_after m (Some p) y x = Some (y \<in> set xs, m')
    \<and> repr m' (Q(p \<mapsto> if y \<in> set xs then insert_after y x xs else xs))"
proof -
  obtain L q where L: "repr_by L m Q" "queues m p = Some q" "qlist (cells m) q (L p)"
    "xs = map (dat (cells m)) (L p)" "cells m (brk m) = None" "brk m \<notin> set (L p)"
    using repr_open [OF assms] .
  have find: "find_entry m (\<lambda>d. d = y) (q_head q) = Some (find (\<lambda>a. dat (cells m) a = y) (L p))"
    using L(3) by (intro find_entry_path) (simp add: qlist_def)
  show ?thesis
  proof (cases "y \<in> set xs")
    case False
    then have "find (\<lambda>a. dat (cells m) a = y) (L p) = None"
      using L(4) by (auto simp: find_None_iff)
    moreover have "Q(p \<mapsto> xs) = Q" using assms(2) by auto
    ultimately show ?thesis using False L(2) find assms(1) by (simp add: queue_push_after_def)
  next
    case True
    then have "\<exists>a\<in>set (L p). dat (cells m) a = y" using L(4) by auto
    then obtain bs e cs where s: "L p = bs @ e # cs" "dat (cells m) e = y"
      "\<forall>b\<in>set bs. dat (cells m) b \<noteq> y" by (rule split_first [of "L p" "\<lambda>d. d = y"])
    have f: "find (\<lambda>a. dat (cells m) a = y) (L p) = Some e"
      unfolding s(1) using s(2,3) by (intro find_append) auto
    from L(3) s(1) obtain c where c: "cells m e = Some c"
      and p: "path (cells m) (q_head q) bs (Some e)" "path (cells m) (qe_next c) cs None"
        "distinct (bs @ e # cs)"
        "q_tail q = Some (last (e # cs))" "q_entries q = of_nat (length (bs @ e # cs))"
      by (auto simp: qlist_def)
    have fresh: "brk m \<noteq> e" "brk m \<notin> set bs" "brk m \<notin> set cs" using L(6) s(1) by auto
    have nxt: "qe_next c = None \<longleftrightarrow> cs = []" using p(2) path_hd by (cases cs) auto
    have "y \<notin> set (map (dat (cells m)) bs)" using s(3) by auto
    then have ins: "insert_after y x xs = map (dat (cells m)) bs @ y # x # map (dat (cells m)) cs"
      unfolding L(4) s(1) using s(2) by (simp add: insert_after_append)
    define m' where "m' = snd (the (queue_push_after m (Some p) y x))"
    have "queue_push_after m (Some p) y x = Some (True, m')"
      using L(2) find f c fresh by (simp add: m'_def queue_push_after_def mem_defs)
    moreover have "repr m' (Q(p \<mapsto> insert_after y x xs))"
      by (rule repr_close [OF L(1,2), where as = "bs @ e # brk m # cs"])
        (use L s find f c p fresh nxt ins in
          \<open>auto simp: m'_def queue_push_after_def mem_defs qlist_def\<close>)
    ultimately show ?thesis using True by auto
  qed
qed

lemma unlink_repr:
  assumes L: "repr_by L m Q" "queues m p = Some q" "qlist (cells m) q (L p)"
    and s: "L p = bs @ e # cs"
  shows "\<exists>m'. unlink_entry m p (if bs = [] then None else Some (last bs)) e
      = Some (dat (cells m) e, m') \<and> calls m' = calls m
    \<and> repr m' (Q(p \<mapsto> map (dat (cells m)) (bs @ cs)))"
proof -
  from L(3) s obtain c where c: "cells m e = Some c"
    and p: "path (cells m) (q_head q) bs (Some e)" "path (cells m) (qe_next c) cs None"
      "distinct (bs @ e # cs)"
      "q_tail q = Some (last (e # cs))" "q_entries q = of_nat (length (bs @ e # cs))"
    by (auto simp: qlist_def)
  have nxt: "qe_next c = None \<longleftrightarrow> cs = []" using p(2) path_hd by (cases cs) auto
  define m' where
    "m' = snd (the (unlink_entry m p (if bs = [] then None else Some (last bs)) e))"
  show ?thesis
  proof (cases bs rule: rev_cases)
    case Nil
    have "unlink_entry m p None e = Some (qe_data c, m')" "calls m' = calls m"
      using L(2) c Nil by (simp_all add: m'_def unlink_entry_def mem_defs)
    moreover have "repr m' (Q(p \<mapsto> map (dat (cells m)) (bs @ cs)))"
      by (rule repr_close [OF L(1,2), where as = cs])
        (use L s c p nxt Nil in \<open>auto simp: m'_def unlink_entry_def mem_defs qlist_def\<close>)
    ultimately show ?thesis using Nil c by auto
  next
    case (snoc ds d)
    with p(1) obtain dc where d: "cells m d = Some dc" by auto
    have "unlink_entry m p (Some d) e = Some (qe_data c, m')" "calls m' = calls m"
      using L(2) c d snoc p(3) by (simp_all add: m'_def unlink_entry_def mem_defs)
    moreover have "repr m' (Q(p \<mapsto> map (dat (cells m)) (bs @ cs)))"
      by (rule repr_close [OF L(1,2), where as = "bs @ cs"])
        (use L s c p nxt snoc d in \<open>auto simp: m'_def unlink_entry_def mem_defs qlist_def\<close>)
    ultimately show ?thesis using snoc c by auto
  qed
qed

text \<open>The two removal loops find the same entry.\<close>

lemma find_prev_repr:
  assumes L: "repr_by L m Q" "queues m p = Some q" "qlist (cells m) q (L p)"
  shows "(\<forall>x\<in>set (map (dat (cells m)) (L p)). \<not> f x)
      \<and> (\<exists>prev. find_prev m f None (q_head q) = Some (prev, None))
    \<or> (\<exists>prev e bs cs m'. find_prev m f None (q_head q) = Some (prev, Some e)
      \<and> L p = bs @ e # cs \<and> f (dat (cells m) e) \<and> (\<forall>b\<in>set bs. \<not> f (dat (cells m) b))
      \<and> unlink_entry m p prev e = Some (dat (cells m) e, m') \<and> calls m' = calls m
      \<and> repr m' (Q(p \<mapsto> remove_first f (map (dat (cells m)) (L p)))))"
proof (cases "\<exists>a\<in>set (L p). f (dat (cells m) a)")
  case False
  with L(3) find_prev_none [of m "q_head q" "L p" f None] show ?thesis by (auto simp: qlist_def)
next
  case True
  then obtain bs e cs where s: "L p = bs @ e # cs" "f (dat (cells m) e)"
    "\<forall>b\<in>set bs. \<not> f (dat (cells m) b)" by (rule split_first [of "L p" f])
  have "find_prev m f None (q_head q) = Some (if bs = [] then None else Some (last bs), Some e)"
    using L(3) s by (intro find_prev_found [where cs = cs]) (auto simp: qlist_def)
  moreover have "remove_first f (map (dat (cells m)) (L p)) = map (dat (cells m)) (bs @ cs)"
    using s remove_first_append [of "map (dat (cells m)) bs" f "dat (cells m) e"] by simp
  ultimately show ?thesis using unlink_repr [OF L s(1)] s by (metis (no_types, lifting))
qed

lemma remove_if_repr:
  assumes "repr m Q" and "Q p = Some xs"
  shows "\<exists>m'. queue_remove_if m (Some p) (Some f)
      = Some (case find f xs of None \<Rightarrow> None | Some d \<Rightarrow> d, m')
    \<and> repr m' (Q(p \<mapsto> remove_first f xs)) \<and> calls m' = calls m"
proof -
  obtain L q where L: "repr_by L m Q" "queues m p = Some q" "qlist (cells m) q (L p)"
    "xs = map (dat (cells m)) (L p)" "cells m (brk m) = None" "brk m \<notin> set (L p)"
    using repr_open [OF assms] .
  from find_prev_repr [OF L(1-3), of f] show ?thesis
  proof (elim disjE conjE exE)
    fix prev assume n: "\<forall>x\<in>set (map (dat (cells m)) (L p)). \<not> f x"
      "find_prev m f None (q_head q) = Some (prev, None)"
    then have "find f xs = None" "Q(p \<mapsto> remove_first f xs) = Q"
      using L(4) assms(2) by (auto simp: find_None_iff remove_first_none)
    with n L(2) assms(1) show ?thesis by (simp add: queue_remove_if_def)
  next
    fix prev e bs cs m' assume h: "find_prev m f None (q_head q) = Some (prev, Some e)"
      "L p = bs @ e # cs" "f (dat (cells m) e)" "\<forall>b\<in>set bs. \<not> f (dat (cells m) b)"
      "unlink_entry m p prev e = Some (dat (cells m) e, m')" "calls m' = calls m"
      "repr m' (Q(p \<mapsto> remove_first f (map (dat (cells m)) (L p))))"
    have "find f xs = Some (dat (cells m) e)"
      using h(3,4) find_append [of "map (dat (cells m)) bs" f] unfolding L(4) h(2) by auto
    with h(1,5-7) L(2,4) show ?thesis by (simp add: queue_remove_if_def)
  qed
qed

lemma remove_repr:
  assumes "repr m Q" and "Q p = Some xs"
  shows "\<exists>m'. queue_remove m (Some p) x = Some (x \<in> set xs, m')
    \<and> repr m' (Q(p \<mapsto> remove1 x xs)) \<and> calls m' = calls m"
proof -
  have r1: "remove_first (\<lambda>d. d = x) xs = remove1 x xs" by (induction xs) auto
  obtain L q where L: "repr_by L m Q" "queues m p = Some q" "qlist (cells m) q (L p)"
    "xs = map (dat (cells m)) (L p)" "cells m (brk m) = None" "brk m \<notin> set (L p)"
    using repr_open [OF assms] .
  from find_prev_repr [OF L(1-3), of "\<lambda>d. d = x"] show ?thesis
  proof (elim disjE conjE exE)
    fix prev assume n: "\<forall>y\<in>set (map (dat (cells m)) (L p)). y \<noteq> x"
      "find_prev m (\<lambda>d. d = x) None (q_head q) = Some (prev, None)"
    then have x: "x \<notin> set xs" using L(4) by auto
    then have "Q(p \<mapsto> remove1 x xs) = Q" using assms(2) by (auto simp: remove1_idem)
    with n x L(2) assms(1) show ?thesis by (simp add: queue_remove_def)
  next
    fix prev e bs cs m' assume h: "find_prev m (\<lambda>d. d = x) None (q_head q) = Some (prev, Some e)"
      "L p = bs @ e # cs" "dat (cells m) e = x"
      "unlink_entry m p prev e = Some (dat (cells m) e, m')" "calls m' = calls m"
      "repr m' (Q(p \<mapsto> remove_first (\<lambda>d. d = x) (map (dat (cells m)) (L p))))"
    have "x \<in> set xs" using h(2,3) L(4) by auto
    with h L(2,4) r1 show ?thesis by (simp add: queue_remove_def)
  qed
qed

section \<open>Removing everything\<close>

lemma repr_calls [simp]: "repr (m\<lparr>calls := cs\<rparr>) Q = repr m Q"
  by (simp add: repr_def repr_by_def)

lemma repr_call_destroy [simp]: "repr (call_destroy d x m) Q = repr m Q"
  by (simp add: call_destroy_def)

lemma calls_call_destroy: "calls (call_destroy d x m) = calls m @ (if d then [x] else [])"
  by (simp add: call_destroy_def)

lemma repr_entries:
  assumes "repr m Q" and "Q p = Some xs"
  obtains q where "queues m p = Some q" "q_entries q = of_nat (length xs)"
    "q_head q = None \<longleftrightarrow> xs = []"
proof -
  obtain L q where "repr_by L m Q" "queues m p = Some q" "qlist (cells m) q (L p)"
    "xs = map (dat (cells m)) (L p)" "cells m (brk m) = None" "brk m \<notin> set (L p)"
    using repr_open [OF assms] .
  then show ?thesis by (intro that [of q]) (auto simp: qlist_def dest: path_hd split: if_splits)
qed

lemma remove_first_filter:
  "filter (\<lambda>x. \<not> f x) (remove_first f xs) = filter (\<lambda>x. \<not> f x) xs"
  "find f xs = Some d \<Longrightarrow> filter f xs = d # filter f (remove_first f xs)"
  "find f xs = Some d \<Longrightarrow> length xs = Suc (length (remove_first f xs))"
  by (induction xs) (auto split: if_splits)

lemma remove_matching_repr:
  "repr m Q \<Longrightarrow> Q p = Some xs \<Longrightarrow>
   \<exists>m'. remove_matching f d m p n = Some (n + of_nat (length (filter f xs)), m')
    \<and> repr m' (Q(p \<mapsto> filter (\<lambda>x. \<not> f x) xs))
    \<and> calls m' = calls m @ (if d then filter f xs else [])"
proof (induction "length xs" arbitrary: m Q xs n rule: less_induct)
  case less
  obtain q where q: "queues m p = Some q" "q_entries q = of_nat (length xs)"
    using repr_entries [OF less.prems] .
  obtain m1 where m1: "queue_remove_if m (Some p) (Some f)
      = Some (case find f xs of None \<Rightarrow> None | Some d \<Rightarrow> d, m1)"
    "repr m1 (Q(p \<mapsto> remove_first f xs))" "calls m1 = calls m"
    using remove_if_repr [OF less.prems] by blast
  obtain q1 where q1: "queues m1 p = Some q1" "q_entries q1 = of_nat (length (remove_first f xs))"
    using repr_entries [OF m1(2), of p "remove_first f xs"] by auto
  show ?case
  proof (cases "find f xs")
    case None
    then have no: "\<forall>x\<in>set xs. \<not> f x" by (simp add: find_None_iff)
    then have "remove_first f xs = xs" "filter f xs = []" "filter (\<lambda>x. \<not> f x) xs = xs"
      by (simp_all add: remove_first_none filter_empty_conv filter_id_conv)
    then show ?thesis using m1 q q1 by (simp add: remove_matching.simps)
  next
    case (Some x)
    note rf = remove_first_filter(2,3) [OF Some]
    obtain m' where "remove_matching f d (call_destroy d x m1) p (n + 1)
        = Some (n + 1 + of_nat (length (filter f (remove_first f xs))), m')"
      "repr m' (Q(p \<mapsto> filter (\<lambda>x. \<not> f x) xs))"
      "calls m' = calls m @ (if d then filter f xs else [])"
      using less.hyps [of "remove_first f xs" "call_destroy d x m1" "Q(p \<mapsto> remove_first f xs)" "n + 1"]
        m1(2,3) rf by (auto simp: remove_first_filter(1) calls_call_destroy)
    moreover have "q_entries q \<noteq> q_entries q1" using q(2) q1(2) rf(2) by simp
    ultimately show ?thesis using q(1) q1(1) m1(1) Some rf(1)
      by (simp add: remove_matching.simps [of f d m])
  qed
qed

lemma free_entries_path:
  "path (cells m) x as None \<Longrightarrow> distinct as \<Longrightarrow>
   free_entries d m x n = Some (n + of_nat (length as),
     m\<lparr>cells := (\<lambda>a. if a \<in> set as then None else cells m a),
       calls := calls m @ (if d then map (dat (cells m)) as else [])\<rparr>)"
proof (induction as arbitrary: m x n)
  case Nil
  then show ?case by (simp add: free_entries.simps)
next
  case (Cons a as)
  then obtain c where c: "x = Some a" "cells m a = Some c" "path (cells m) (qe_next c) as None"
    "a \<notin> set as" "distinct as" by auto
  define m1 where "m1 = (call_destroy d (qe_data c) m)\<lparr>cells := (cells m)(a := None)\<rparr>"
  have "free_entry (call_destroy d (qe_data c) m) a = Some m1"
    using c by (auto simp: m1_def free_entry_def call_destroy_def)
  then have "free_entries d m x n = free_entries d m1 (qe_next c) (n + 1)"
    using c by (simp add: free_entries.simps [of d m])
  also have "path (cells m1) (qe_next c) as None" using c by (simp add: m1_def)
  note Cons.IH [OF this c(5)]
  finally show ?case
    using c by (auto simp: m1_def call_destroy_def fun_eq_iff intro!: qmem.equality map_cong)
qed

text \<open>Emptying a queue: every cell is freed once, the destroy function sees the data in order.\<close>

lemma remove_all_some:
  assumes "repr m Q" and "Q p = Some xs"
  shows "\<exists>m'. queue_remove_all m (Some p) (Some f) d = Some (of_nat (length (filter f xs)), m')
    \<and> repr m' (Q(p \<mapsto> filter (\<lambda>x. \<not> f x) xs))
    \<and> calls m' = calls m @ (if d then filter f xs else [])"
proof -
  obtain q where q: "queues m p = Some q" "q_head q = None \<longleftrightarrow> xs = []"
    using repr_entries [OF assms] .
  have "Q(p \<mapsto> xs) = Q" using assms(2) by auto
  with remove_matching_repr [OF assms, of f d 0] q assms(1) show ?thesis
    by (cases "xs = []") (auto simp: queue_remove_all_def)
qed

lemma remove_all_none:
  assumes "repr_by L m Q" "queues m p = Some q" "qlist (cells m) q (L p)"
  shows "queue_remove_all m (Some p) None d = Some (of_nat (length (L p)),
     m\<lparr>queues := (queues m)(p \<mapsto> q\<lparr>q_head := None, q_tail := None, q_entries := 0\<rparr>),
       cells := (\<lambda>a. if a \<in> set (L p) then None else cells m a),
       calls := calls m @ (if d then map (dat (cells m)) (L p) else [])\<rparr>)"
  using assms free_entries_path [of "set_queue m p (q\<lparr>q_head := None, q_tail := None, q_entries := 0\<rparr>)"
      "q_head q" "L p" d 0]
  unfolding set_queue_def queue_remove_all_def qlist_def by (simp cong: if_cong)

lemma remove_all_none_repr:
  assumes "repr m Q" and "Q p = Some xs"
  shows "\<exists>m'. queue_remove_all m (Some p) None d = Some (of_nat (length xs), m')
    \<and> repr m' (Q(p \<mapsto> [])) \<and> calls m' = calls m @ (if d then xs else [])"
proof -
  obtain L q where L: "repr_by L m Q" "queues m p = Some q" "qlist (cells m) q (L p)"
    "xs = map (dat (cells m)) (L p)" "cells m (brk m) = None" "brk m \<notin> set (L p)"
    using repr_open [OF assms] .
  define m' where "m' = snd (the (queue_remove_all m (Some p) None d))"
  have "repr m' (Q(p \<mapsto> []))"
    by (rule repr_close [OF L(1,2), where as = "[]"])
      (use L in \<open>auto simp: m'_def remove_all_none [OF L(1-3)] qlist_def\<close>)
  then show ?thesis using L(4) by (auto simp: m'_def remove_all_none [OF L(1-3)])
qed

lemma repr_by_delete:
  assumes r: "repr_by L m Q" and p: "queues m p = Some q"
    and m': "queues m' = (queues m)(p := None)"
      "cells m' = (\<lambda>a. if a \<in> set (L p) then None else cells m a)" "brk m \<le> brk m'"
  shows "repr_by L m' (Q(p := None))"
proof -
  have disj: "set (L a) \<inter> set (L p) = {}" if "a \<in> dom (queues m)" "a \<noteq> p" for a
    using r p that unfolding repr_by_def by blast
  have keep: "cells m' x = cells m x" if "a \<in> dom (queues m)" "a \<noteq> p" "x \<in> set (L a)" for a x
    using disj [OF that(1,2)] that(3) m'(2) by auto
  have cov: "dom (cells m) = (\<Union>p\<in>dom (queues m). set (L p))" using r by (simp add: repr_by_def)
  have "dom (cells m') = (\<Union>a\<in>dom (queues m'). set (L a))"
  proof (intro equalityI subsetI)
    fix x assume "x \<in> dom (cells m')"
    then have x: "x \<in> dom (cells m)" "x \<notin> set (L p)" using m'(2) by (auto split: if_splits)
    then obtain a where "a \<in> dom (queues m)" "x \<in> set (L a)" unfolding cov by blast
    with x show "x \<in> (\<Union>a\<in>dom (queues m'). set (L a))"
      using m'(1) by (intro UN_I [of a]) auto
  next
    fix x assume "x \<in> (\<Union>a\<in>dom (queues m'). set (L a))"
    then obtain a where a: "a \<in> dom (queues m)" "a \<noteq> p" "x \<in> set (L a)" using m'(1) by auto
    then have "x \<in> dom (cells m)" unfolding cov by blast
    with keep [OF a] show "x \<in> dom (cells m')" by (simp add: dom_def)
  qed
  moreover have "qlist (cells m') qa (L a)" if "queues m' a = Some qa" for a qa
  proof -
    from that have a: "queues m a = Some qa" "a \<noteq> p" using m'(1) by (auto split: if_splits)
    then have "path (cells m') (q_head qa) (L a) None = path (cells m) (q_head qa) (L a) None"
      using keep [of a] by (intro path_agree) auto
    then show ?thesis using r a by (auto simp: repr_by_def qlist_def)
  qed
  moreover have "(Q(p := None)) a = map_option (\<lambda>q. map (dat (cells m')) (L a)) (queues m' a)" for a
  proof (cases "a = p")
    case False
    have "map (dat (cells m')) (L a) = map (dat (cells m)) (L a)" if "queues m a = Some qa" for qa
      using keep [of a] that False by (intro map_cong) (simp_all add: domI)
    moreover have "Q a = map_option (\<lambda>q. map (dat (cells m)) (L a)) (queues m a)"
      using r by (simp add: repr_by_def)
    ultimately show ?thesis using m'(1) False by (cases "queues m a") simp_all
  qed (simp add: m'(1))
  moreover have "set (L a) \<inter> set (L b) = {}"
    if "a \<in> dom (queues m')" "b \<in> dom (queues m')" "a \<noteq> b" for a b
  proof -
    have "a \<in> dom (queues m)" "b \<in> dom (queues m)" using that m'(1) by (auto split: if_splits)
    then show ?thesis using r that(3) unfolding repr_by_def by blast
  qed
  moreover have "a < brk m'" if "a \<in> dom (cells m') \<union> dom (queues m')" for a
  proof -
    have "a \<in> dom (cells m) \<union> dom (queues m)" using that m'(1,2) by (auto split: if_splits)
    moreover have "\<forall>a\<in>dom (cells m) \<union> dom (queues m). a < brk m" using r by (simp add: repr_by_def)
    ultimately have "a < brk m" by blast
    with m'(3) show ?thesis by simp
  qed
  ultimately show ?thesis unfolding repr_by_def by auto
qed

lemma destroy_repr:
  assumes "repr m Q" and "Q p = Some xs"
    and "map_option q_ref_count (queues m p) = Some 1"
  shows "\<exists>m'. queue_destroy m (Some p) d = Some m' \<and> repr m' (Q(p := None))
    \<and> calls m' = calls m @ (if d then xs else [])"
proof -
  obtain L q where L: "repr_by L m Q" "queues m p = Some q" "qlist (cells m) q (L p)"
    "xs = map (dat (cells m)) (L p)" "cells m (brk m) = None" "brk m \<notin> set (L p)"
    using repr_open [OF assms(1,2)] .
  define m' where "m' = the (queue_destroy m (Some p) d)"
  have m': "queue_destroy m (Some p) d = Some m'" "calls m' = calls m @ (if d then xs else [])"
    "queues m' = (queues m)(p := None)" "brk m' = brk m"
    "cells m' = (\<lambda>a. if a \<in> set (L p) then None else cells m a)"
    using L(2,4) assms(3) remove_all_none [OF L(1-3)]
    by (simp_all add: m'_def queue_destroy_def queue_unref_def free_queue_def mem_defs)
  then have "repr m' (Q(p := None))"
    using repr_by_delete [OF L(1,2), of m'] by (auto simp: repr_def)
  with m' show ?thesis by blast
qed

section \<open>Creation and iteration\<close>

lemma new_repr:
  assumes "repr m Q"
  shows "\<exists>m'. queue_new m = Some (Some (brk m), m') \<and> Q (brk m) = None
    \<and> repr m' (Q(brk m \<mapsto> [])) \<and> map_option q_ref_count (queues m' (brk m)) = Some 1"
proof -
  from assms obtain L where L: "repr_by L m Q" by (auto simp: repr_def)
  note fresh = repr_fresh(2) [OF L]
  define m' where "m' = snd (the (queue_new m))"
  have m': "queue_new m = Some (Some (brk m), m')" "cells m' = cells m" "brk m' = Suc (brk m)"
    "queues m' = (queues m)(brk m \<mapsto> \<lparr>q_ref_count = 1, q_head = None, q_tail = None, q_entries = 0\<rparr>)"
    by (simp_all add: m'_def queue_new_def queue_ref_def set_queue_def Let_def)
  have "Q (brk m) = None" using L fresh by (simp add: repr_by_def)
  moreover have "repr_by (L(brk m := [])) m' (Q(brk m \<mapsto> []))"
  proof -
    have "(\<Union>p\<in>dom (queues m). set ((L(brk m := [])) p)) = (\<Union>p\<in>dom (queues m). set (L p))"
      using fresh by (intro SUP_cong) auto
    moreover have "dom (queues m') = insert (brk m) (dom (queues m))" by (simp add: m'(4))
    ultimately have "(\<Union>p\<in>dom (queues m'). set ((L(brk m := [])) p)) = (\<Union>p\<in>dom (queues m). set (L p))"
      by simp
    moreover have "qlist (cells m') \<lparr>q_ref_count = 1, q_head = None, q_tail = None, q_entries = 0\<rparr> []"
      by (simp add: qlist_def)
    moreover have "\<forall>a\<in>dom (cells m') \<union> dom (queues m'). a < brk m'"
      using L m' unfolding repr_by_def by (auto simp: less_Suc_eq)
    ultimately show ?thesis using L m' unfolding repr_by_def by auto
  qed
  ultimately show ?thesis using m' by (auto simp: repr_def)
qed

text \<open>A foreach function that only observes.\<close>

definition observe :: "ptr \<Rightarrow> qmem \<Rightarrow> qmem option" where
  "observe d m = Some (m\<lparr>calls := calls m @ [d]\<rparr>)"

lemma foreach_loop_observe:
  "path (cells m) x as None \<Longrightarrow> queues m p = Some q \<Longrightarrow> q_head q \<noteq> None \<Longrightarrow> 1 < sint (q_ref_count q) \<Longrightarrow>
     foreach_loop p observe x m = Some (m\<lparr>calls := calls m @ map (dat (cells m)) as\<rparr>)"
proof (induction as arbitrary: x m)
  case (Cons a as)
  then obtain c where c: "x = Some a" "cells m a = Some c" "path (cells m) (qe_next c) as None" by auto
  have "foreach_loop p observe x m
      = foreach_loop p observe (qe_next c) (m\<lparr>calls := calls m @ [qe_data c]\<rparr>)"
    using c Cons.prems(2-4) by (simp add: foreach_loop.simps [of p observe "Some a" m] observe_def)
  with Cons.IH [of "m\<lparr>calls := calls m @ [qe_data c]\<rparr>" "qe_next c"] c Cons.prems(2-4)
  show ?case by simp
qed (simp add: foreach_loop.simps)

lemma repr_by_ref:
  "repr_by L m Q \<Longrightarrow> queues m p = Some q \<Longrightarrow> repr_by L (set_queue m p (q\<lparr>q_ref_count := n\<rparr>)) Q"
  unfolding repr_by_def set_queue_def qlist_def by (auto simp: insert_absorb domI)

lemma foreach_observe_repr:
  assumes "repr m Q" and "Q p = Some xs" and "map_option q_ref_count (queues m p) = Some 1"
  shows "queue_foreach m (Some p) (Some observe) = Some (m\<lparr>calls := calls m @ xs\<rparr>)"
proof -
  obtain L q where L: "repr_by L m Q" "queues m p = Some q" "qlist (cells m) q (L p)"
    "xs = map (dat (cells m)) (L p)" "cells m (brk m) = None" "brk m \<notin> set (L p)"
    using repr_open [OF assms(1,2)] .
  show ?thesis
  proof (cases "q_head q")
    case None
    then have "xs = []" using L(3,4) by (auto simp: qlist_def dest: path_hd split: if_splits)
    with None L(2) show ?thesis by (simp add: queue_foreach_def)
  next
    case (Some e)
    define m1 where "m1 = set_queue m p (q\<lparr>q_ref_count := 2\<rparr>)"
    have rc: "q_ref_count q = 1" using assms(3) L(2) by simp
    have "foreach_loop p observe (Some e) m1 = Some (m1\<lparr>calls := calls m1 @ map (dat (cells m1)) (L p)\<rparr>)"
      using L(3) Some by (intro foreach_loop_observe [where q = "q\<lparr>q_ref_count := 2\<rparr>"])
        (simp_all add: m1_def set_queue_def qlist_def)
    moreover have "q\<lparr>q_ref_count := 1\<rparr> = q" using rc by (cases q) simp
    moreover have "queue_ref m (Some p) = Some (Some p, m1)"
      using L(2) rc by (simp add: queue_ref_def m1_def)
    ultimately show ?thesis using L(2,4) Some
      by (simp add: queue_foreach_def queue_unref_def m1_def set_queue_def Let_def fun_upd_idem)
  qed
qed

text \<open>A foreach function that destroys the queue: the reference that the loop holds keeps the queue
  object alive until the loop has looked at it.\<close>

lemma foreach_destroy_repr:
  assumes "repr m Q" and "Q p = Some xs" and "xs \<noteq> []"
    and "map_option q_ref_count (queues m p) = Some 1"
  shows "\<exists>m'. queue_foreach m (Some p) (Some (\<lambda>d m. queue_destroy m (Some p) True)) = Some m'
    \<and> repr m' (Q(p := None)) \<and> calls m' = calls m @ xs"
proof -
  obtain L q where L: "repr_by L m Q" "queues m p = Some q" "qlist (cells m) q (L p)"
    "xs = map (dat (cells m)) (L p)" "cells m (brk m) = None" "brk m \<notin> set (L p)"
    using repr_open [OF assms(1,2)] .
  have rc: "q_ref_count q = 1" using assms(4) L(2) by simp
  obtain e as where e: "L p = e # as" using assms(3) L(4) by (cases "L p") auto
  with L(3) obtain c where c: "q_head q = Some e" "cells m e = Some c" by (auto simp: qlist_def)
  define m1 where "m1 = set_queue m p (q\<lparr>q_ref_count := 2\<rparr>)"
  define m2 where "m2 = m1\<lparr>queues := (queues m1)(p \<mapsto> q\<lparr>q_ref_count := 1, q_head := None, q_tail := None, q_entries := 0\<rparr>),
       cells := (\<lambda>a. if a \<in> set (L p) then None else cells m a),
       calls := calls m1 @ map (dat (cells m)) (L p)\<rparr>"
  have q1: "queues m1 p = Some (q\<lparr>q_ref_count := 2\<rparr>)" "cells m1 = cells m"
    "qlist (cells m1) (q\<lparr>q_ref_count := 2\<rparr>) (L p)"
    using L(3) by (simp_all add: m1_def set_queue_def qlist_def)
  have "queue_destroy m1 (Some p) True = Some m2"
    using remove_all_none [OF repr_by_ref [OF L(1,2), of 2], of p "q\<lparr>q_ref_count := 2\<rparr>" True] q1
    by (simp add: queue_destroy_def queue_unref_def m2_def m1_def set_queue_def Let_def cong: if_cong)
      (cases m, cases q, simp)
  moreover have "foreach_loop p f x m2 = Some m2" for f x
    by (cases x) (simp_all add: foreach_loop.simps m2_def)
  ultimately have "foreach_loop p (\<lambda>d m. queue_destroy m (Some p) True) (Some e) m1 = Some m2"
    using q1 c by (simp add: foreach_loop.simps [of p _ "Some e" m1])
  then have "queue_foreach m (Some p) (Some (\<lambda>d m. queue_destroy m (Some p) True))
      = Some (m2\<lparr>queues := (queues m2)(p := None)\<rparr>)"
    using L(2) c rc by (simp add: queue_foreach_def queue_ref_def queue_unref_def free_queue_def
        m1_def [symmetric] Let_def) (simp add: m2_def set_queue_def free_queue_def)
  moreover have "repr (m2\<lparr>queues := (queues m2)(p := None)\<rparr>) (Q(p := None))"
    unfolding repr_def by (intro exI, rule repr_by_delete [OF L(1,2)])
      (simp_all add: m2_def m1_def set_queue_def)
  ultimately show ?thesis using L(4) by (simp add: m2_def m1_def set_queue_def)
qed

text \<open>A foreach function that removes the entry it is called for: the loop has read \<^verbatim>\<open>next\<close> before the
  call, and the whole queue is emptied.\<close>

definition remove_current :: "nat \<Rightarrow> ptr \<Rightarrow> qmem \<Rightarrow> qmem option" where
  "remove_current p d m = map_option snd (queue_remove m (Some p) d)"

lemma remove_current_head:
  assumes "queues m p = Some q" "q_head q = Some e" "cells m e = Some c"
  shows "remove_current p (qe_data c) m = Some (m\<lparr>cells := (cells m)(e := None),
    queues := (queues m)(p \<mapsto> q\<lparr>q_head := qe_next c,
      q_tail := (if qe_next c = None then None else q_tail q), q_entries := q_entries q - 1\<rparr>)\<rparr>)"
  using assms
  by (simp add: remove_current_def queue_remove_def unlink_entry_def mem_defs
      find_prev.simps [of m _ None "Some e"])

lemma foreach_loop_remove:
  "path (cells m) (q_head q) as None \<Longrightarrow> distinct as \<Longrightarrow> queues m p = Some q \<Longrightarrow>
   1 < sint (q_ref_count q) \<Longrightarrow> q_tail q = (if as = [] then None else Some (last as)) \<Longrightarrow>
   foreach_loop p (remove_current p) (q_head q) m =
     Some (m\<lparr>cells := (\<lambda>a. if a \<in> set as then None else cells m a),
       queues := (queues m)(p \<mapsto> q\<lparr>q_head := None, q_tail := None,
         q_entries := q_entries q - of_nat (length as)\<rparr>)\<rparr>)"
proof (induction as arbitrary: m q)
  case Nil
  then have "q\<lparr>q_head := None, q_tail := None\<rparr> = q" by (cases q) simp
  with Nil show ?case by (simp add: foreach_loop.simps fun_upd_idem)
next
  case (Cons e as)
  then obtain c where c: "q_head q = Some e" "cells m e = Some c" "path (cells m) (qe_next c) as None"
    "e \<notin> set as" "distinct as" by auto
  define q1 where "q1 = q\<lparr>q_head := qe_next c,
    q_tail := (if qe_next c = None then None else q_tail q), q_entries := q_entries q - 1\<rparr>"
  define m1 where "m1 = m\<lparr>cells := (cells m)(e := None), queues := (queues m)(p \<mapsto> q1)\<rparr>"
  have nxt: "qe_next c = None \<longleftrightarrow> as = []" using c(3) path_hd by (cases as) auto
  have "path (cells m1) (qe_next c) as None = path (cells m) (qe_next c) as None"
    using c(4) by (intro path_agree) (auto simp: m1_def)
  then have p1: "path (cells m1) (q_head q1) as None" using c(3) by (simp add: q1_def)
  have "foreach_loop p (remove_current p) (q_head q) m = foreach_loop p (remove_current p) (q_head q1) m1"
    using c Cons.prems(3,4) remove_current_head [OF Cons.prems(3) c(1,2)]
    by (simp add: foreach_loop.simps [of p _ "Some e" m] m1_def q1_def)
  also have "\<dots> = Some (m1\<lparr>cells := (\<lambda>a. if a \<in> set as then None else cells m1 a),
       queues := (queues m1)(p \<mapsto> q1\<lparr>q_head := None, q_tail := None,
         q_entries := q_entries q1 - of_nat (length as)\<rparr>)\<rparr>)"
    by (rule Cons.IH [OF p1 c(5)]) (use nxt Cons.prems(4,5) in \<open>auto simp: m1_def q1_def\<close>)
  also have "\<dots> = Some (m\<lparr>cells := (\<lambda>a. if a \<in> set (e # as) then None else cells m a),
       queues := (queues m)(p \<mapsto> q\<lparr>q_head := None, q_tail := None,
         q_entries := q_entries q - of_nat (length (e # as))\<rparr>)\<rparr>)"
    by (cases m, cases q) (auto simp: m1_def q1_def fun_eq_iff)
  finally show ?case .
qed

lemma foreach_remove_repr:
  assumes "repr m Q" and "Q p = Some xs" and "map_option q_ref_count (queues m p) = Some 1"
  shows "\<exists>m'. queue_foreach m (Some p) (Some (remove_current p)) = Some m'
    \<and> repr m' (Q(p \<mapsto> []))"
proof -
  obtain L q where L: "repr_by L m Q" "queues m p = Some q" "qlist (cells m) q (L p)"
    "xs = map (dat (cells m)) (L p)" "cells m (brk m) = None" "brk m \<notin> set (L p)"
    using repr_open [OF assms(1,2)] .
  have rc: "q_ref_count q = 1" using assms(3) L(2) by simp
  show ?thesis
  proof (cases "q_head q")
    case None
    then have "xs = []" using L(3,4) by (auto simp: qlist_def dest: path_hd split: if_splits)
    then have "Q(p \<mapsto> []) = Q" using assms(2) by auto
    with None L(2) assms(1) show ?thesis by (simp add: queue_foreach_def)
  next
    case (Some e)
    define m1 where "m1 = set_queue m p (q\<lparr>q_ref_count := 2\<rparr>)"
    define m2 where "m2 = m\<lparr>cells := (\<lambda>a. if a \<in> set (L p) then None else cells m a),
       queues := (queues m)(p \<mapsto> q\<lparr>q_head := None, q_tail := None, q_entries := 0\<rparr>)\<rparr>"
    have "foreach_loop p (remove_current p) (Some e) m1 = Some (m2\<lparr>queues := (queues m2)(p \<mapsto>
        q\<lparr>q_ref_count := 2, q_head := None, q_tail := None, q_entries := 0\<rparr>)\<rparr>)"
      using foreach_loop_remove [of m1 "q\<lparr>q_ref_count := 2\<rparr>" "L p" p] L(3) Some
      by (simp add: m1_def m2_def set_queue_def qlist_def cong: if_cong)
    moreover have "queue_ref m (Some p) = Some (Some p, m1)"
      using L(2) rc by (simp add: queue_ref_def m1_def)
    ultimately have "queue_foreach m (Some p) (Some (remove_current p)) = Some (m2\<lparr>queues := (queues m2)(p \<mapsto>
        q\<lparr>q_ref_count := 1, q_head := None, q_tail := None, q_entries := 0\<rparr>)\<rparr>)"
      using L(2) Some
      by (simp add: queue_foreach_def queue_unref_def set_queue_def Let_def) (cases q, simp)
    moreover have "repr (m2\<lparr>queues := (queues m2)(p \<mapsto>
        q\<lparr>q_ref_count := 1, q_head := None, q_tail := None, q_entries := 0\<rparr>)\<rparr>) (Q(p \<mapsto> []))"
      by (rule repr_close [OF L(1,2), where as = "[]"]) (use L(3) in \<open>auto simp: m2_def qlist_def\<close>)
    ultimately show ?thesis by blast
  qed
qed

section \<open>Refinement of lists\<close>

text \<open>The calls a client makes on one queue, executed on the memory and on a list.\<close>

datatype queue_cmd =
    PushTail ptr
  | PushHead ptr
  | PushAfter ptr ptr
  | PopHead
  | PeekHead
  | PeekTail
  | Find "ptr \<Rightarrow> bool"
  | Remove ptr
  | RemoveIf "ptr \<Rightarrow> bool"
  | RemoveAll "(ptr \<Rightarrow> bool) option" bool
  | Length

datatype queue_out = OutBool bool | OutPtr ptr | OutCount u32

definition queue_exec :: "nat \<Rightarrow> queue_cmd \<Rightarrow> qmem \<Rightarrow> (queue_out \<times> qmem) option" where
  "queue_exec p k m =
     (case k of
        PushTail x \<Rightarrow> map_option (map_prod OutBool id) (queue_push_tail m (Some p) x)
      | PushHead x \<Rightarrow> map_option (map_prod OutBool id) (queue_push_head m (Some p) x)
      | PushAfter y x \<Rightarrow> map_option (map_prod OutBool id) (queue_push_after m (Some p) y x)
      | PopHead \<Rightarrow> map_option (map_prod OutPtr id) (queue_pop_head m (Some p))
      | PeekHead \<Rightarrow> map_option (\<lambda>d. (OutPtr d, m)) (queue_peek_head m (Some p))
      | PeekTail \<Rightarrow> map_option (\<lambda>d. (OutPtr d, m)) (queue_peek_tail m (Some p))
      | Find f \<Rightarrow> map_option (\<lambda>d. (OutPtr d, m)) (queue_find m (Some p) (Some (\<lambda>d _. f d)) None)
      | Remove x \<Rightarrow> map_option (map_prod OutBool id) (queue_remove m (Some p) x)
      | RemoveIf f \<Rightarrow> map_option (map_prod OutPtr id) (queue_remove_if m (Some p) (Some f))
      | RemoveAll f d \<Rightarrow> map_option (map_prod OutCount id) (queue_remove_all m (Some p) f d)
      | Length \<Rightarrow> map_option (\<lambda>n. (OutCount n, m)) (queue_length m (Some p)))"

fun null_or :: "ptr option \<Rightarrow> ptr" where
  "null_or None = None"
| "null_or (Some d) = d"

definition list_exec :: "queue_cmd \<Rightarrow> ptr list \<Rightarrow> queue_out \<times> ptr list" where
  "list_exec k xs =
     (case k of
        PushTail x \<Rightarrow> (OutBool True, xs @ [x])
      | PushHead x \<Rightarrow> (OutBool True, x # xs)
      | PushAfter y x \<Rightarrow> (OutBool (y \<in> set xs), if y \<in> set xs then insert_after y x xs else xs)
      | PopHead \<Rightarrow> (OutPtr (if xs = [] then None else hd xs), tl xs)
      | PeekHead \<Rightarrow> (OutPtr (if xs = [] then None else hd xs), xs)
      | PeekTail \<Rightarrow> (OutPtr (if xs = [] then None else last xs), xs)
      | Find f \<Rightarrow> (OutPtr (null_or (find f xs)), xs)
      | Remove x \<Rightarrow> (OutBool (x \<in> set xs), remove1 x xs)
      | RemoveIf f \<Rightarrow> (OutPtr (null_or (find f xs)), remove_first f xs)
      | RemoveAll None d \<Rightarrow> (OutCount (of_nat (length xs)), [])
      | RemoveAll (Some f) d \<Rightarrow> (OutCount (of_nat (length (filter f xs))), filter (\<lambda>x. \<not> f x) xs)
      | Length \<Rightarrow> (OutCount (of_nat (length xs)), xs))"

lemma null_or_case: "null_or r = (case r of None \<Rightarrow> None | Some d \<Rightarrow> d)"
  by (cases r) auto

text \<open>The other queues of the memory, in \<open>Q\<close>, are not changed.\<close>

interpretation queue_list: data_refinement "\<lambda>m xs. repr m (Q(p \<mapsto> xs))" "queue_exec p" list_exec for p Q
proof unfold_locales
  fix m xs k assume r: "repr m (Q(p \<mapsto> xs))"
  have p: "(Q(p \<mapsto> xs)) p = Some xs" by simp
  show "\<exists>m'. queue_exec p k m = Some (fst (list_exec k xs), m') \<and> repr m' (Q(p \<mapsto> snd (list_exec k xs)))"
  proof (cases k)
    case (PushTail x)
    with push_tail_repr [of m "Q(p \<mapsto> xs)" p, OF r p, of x] show ?thesis by (auto simp: queue_exec_def list_exec_def)
  next
    case (PushHead x)
    with push_head_repr [of m "Q(p \<mapsto> xs)" p, OF r p, of x] show ?thesis by (auto simp: queue_exec_def list_exec_def)
  next
    case (PushAfter y x)
    with push_after_repr [of m "Q(p \<mapsto> xs)" p, OF r p, of y x] show ?thesis by (auto simp: queue_exec_def list_exec_def)
  next
    case PopHead
    with pop_head_repr [of m "Q(p \<mapsto> xs)" p, OF r p] show ?thesis by (auto simp: queue_exec_def list_exec_def)
  next
    case (Remove x)
    with remove_repr [of m "Q(p \<mapsto> xs)" p, OF r p, of x] show ?thesis by (auto simp: queue_exec_def list_exec_def)
  next
    case (RemoveIf f)
    with remove_if_repr [of m "Q(p \<mapsto> xs)" p, OF r p, of f] show ?thesis
      by (auto simp: queue_exec_def list_exec_def null_or_case)
  next
    case (RemoveAll f d)
    with remove_all_none_repr [of m "Q(p \<mapsto> xs)" p, OF r p, of d] remove_all_some [of m "Q(p \<mapsto> xs)" p, OF r p] show ?thesis
      by (cases f) (fastforce simp: queue_exec_def list_exec_def)+
  next
    case (Find f)
    with find_repr [of m "Q(p \<mapsto> xs)" p, OF r p, of "Some (\<lambda>d _. f d)"] r show ?thesis
      by (auto simp: queue_exec_def list_exec_def null_or_case)
  qed (use peek_repr [of m "Q(p \<mapsto> xs)" p, OF r p] r in \<open>auto simp: queue_exec_def list_exec_def\<close>)
qed

section \<open>Properties\<close>

text \<open>C12.  The linked queue implements a list: from any well-formed memory with any number of queues,
  every sequence of pushes, pops, peeks, searches, removals and length queries on one of them
  succeeds without a wild or dangling access, returns what the same calls return on a list, and
  leaves the contents of the other queues as they were, with no cell leaked or shared.\<close>

theorem queue_refines_list:
  assumes "repr m Q" and "Q p = Some xs"
  shows "\<exists>m'. run_cmds (queue_exec p) ks m = Some (fst (run_abs list_exec ks xs), m')
    \<and> repr m' (Q(p \<mapsto> snd (run_abs list_exec ks xs)))"
proof -
  have "Q(p \<mapsto> xs) = Q" using assms(2) by auto
  with assms(1) queue_list.run_refines [of m Q p xs ks] show ?thesis by simp
qed

definition empty_mem :: qmem where
  "empty_mem = \<lparr>queues = (\<lambda>_. None), cells = (\<lambda>_. None), brk = 1, calls = []\<rparr>"

lemma repr_empty_mem: "repr empty_mem Map.empty"
  by (simp add: repr_def repr_by_def empty_mem_def)

definition sample_queue :: qmem where
  "sample_queue = snd (the (queue_new empty_mem))"

lemma repr_sample_queue: "repr sample_queue [1 \<mapsto> []]"
  "map_option q_ref_count (queues sample_queue 1) = Some 1"
  using new_repr [OF repr_empty_mem] by (auto simp: sample_queue_def empty_mem_def)

theorem queue_refines_list_witness:
  "\<exists>m'. run_cmds (queue_exec 1)
      [PushTail (Some 7), PushTail (Some 8), PushHead (Some 6), Remove (Some 7), PopHead, PopHead, PopHead]
      sample_queue
    = Some ([OutBool True, OutBool True, OutBool True, OutBool True, OutPtr (Some 6), OutPtr (Some 8),
        OutPtr None], m') \<and> repr m' [1 \<mapsto> []]"
  using queue_refines_list [OF repr_sample_queue(1), of 1 "[]"
      "[PushTail (Some 7), PushTail (Some 8), PushHead (Some 6), Remove (Some 7), PopHead, PopHead, PopHead]"]
  by (simp add: list_exec_def)

text \<open>C13.  Destroying a queue that nobody else references frees the queue object and every entry
  exactly once, and hands every datum to the destroy function once, in order; \<^verbatim>\<open>queue_remove_all\<close> with a
  match function does the same for the entries that match, and keeps the others in order.\<close>

theorem queue_destroy_frees:
  assumes "repr m Q" and "Q p = Some xs" and "map_option q_ref_count (queues m p) = Some 1"
  shows "(\<exists>m'. queue_destroy m (Some p) True = Some m' \<and> repr m' (Q(p := None)) \<and> calls m' = calls m @ xs)
    \<and> (\<exists>m'. queue_remove_all m (Some p) (Some f) True = Some (of_nat (length (filter f xs)), m')
        \<and> repr m' (Q(p \<mapsto> filter (\<lambda>x. \<not> f x) xs)) \<and> calls m' = calls m @ filter f xs)"
  using destroy_repr [OF assms, of True] remove_all_some [OF assms(1,2), of f True] by auto

theorem queue_destroy_frees_witness:
  "\<exists>m'. queue_destroy sample_queue (Some 1) True = Some m' \<and> repr m' Map.empty \<and> calls m' = []"
proof -
  have "[1 \<mapsto> []](1 := None) = (Map.empty :: nat \<rightharpoonup> ptr list)" by auto
  then show ?thesis
    using queue_destroy_frees [OF repr_sample_queue(1) _ repr_sample_queue(2), of "[]" "\<lambda>_. True"]
    by (auto simp: sample_queue_def empty_mem_def queue_new_def queue_ref_def set_queue_def Let_def)
qed

text \<open>Iteration is robust: \<^verbatim>\<open>queue_foreach\<close> calls its function once for each datum in order and
  leaves the queue as it was; when the function removes the entry it is called for, the loop
  empties the queue without touching freed memory; and when the function destroys the queue, the
  loop stops without touching freed memory and the queue and all its entries are freed.\<close>

theorem queue_foreach_robust:
  assumes "repr m Q" and "Q p = Some xs" and "map_option q_ref_count (queues m p) = Some 1"
  shows "queue_foreach m (Some p) (Some observe) = Some (m\<lparr>calls := calls m @ xs\<rparr>)
    \<and> (\<exists>m'. queue_foreach m (Some p) (Some (remove_current p)) = Some m' \<and> repr m' (Q(p \<mapsto> [])))
    \<and> (xs \<noteq> [] \<longrightarrow> (\<exists>m'. queue_foreach m (Some p) (Some (\<lambda>d m. queue_destroy m (Some p) True)) = Some m'
        \<and> repr m' (Q(p := None)) \<and> calls m' = calls m @ xs))"
  using foreach_observe_repr [OF assms] foreach_remove_repr [OF assms] foreach_destroy_repr [OF assms(1,2) _ assms(3)]
  by blast

theorem queue_foreach_robust_witness:
  "\<exists>m m'. queue_push_tail sample_queue (Some 1) (Some 5) = Some (True, m)
     \<and> queue_foreach m (Some 1) (Some (\<lambda>d m. queue_destroy m (Some 1) True)) = Some m'
     \<and> repr m' Map.empty \<and> calls m' = [Some 5]"
proof -
  define m where "m = snd (the (queue_push_tail sample_queue (Some 1) (Some 5)))"
  have m: "queue_push_tail sample_queue (Some 1) (Some 5) = Some (True, m)" "repr m [1 \<mapsto> [Some 5]]"
    using push_tail_repr [OF repr_sample_queue(1), of 1 "[]" "Some 5"] by (auto simp: m_def)
  have "map_option q_ref_count (queues m 1) = Some 1" "calls m = []"
    by (simp_all add: m_def queue_push_tail_def mem_defs sample_queue_def empty_mem_def queue_new_def
        queue_ref_def)
  moreover have "[1 \<mapsto> [Some 5]](1 := None) = (Map.empty :: nat \<rightharpoonup> ptr list)" by auto
  ultimately show ?thesis
    using queue_foreach_robust [OF m(2), of 1 "[Some 5]"] m(1) by auto
qed

end
