(* ===== verification/Ringbuf.thy ===== *)
theory Ringbuf
  imports Transition
begin

text \<open>
  The byte ring buffer of BlueZ, \<^verbatim>\<open>bluez5/src/shared/ringbuf.c\<close>.  The counters \<^verbatim>\<open>in\<close> and \<^verbatim>\<open>out\<close> are
  \<^verbatim>\<open>size_t\<close> values that grow and wrap around; a position in the buffer is a counter masked with
  \<^verbatim>\<open>size - 1\<close>, so the size has to be a power of two.  The tracing callback is observed by the chunks
  it is called with.  What \<^verbatim>\<open>malloc\<close>, \<^verbatim>\<open>vasprintf\<close>, \<^verbatim>\<open>readv\<close> and \<^verbatim>\<open>writev\<close> answer is an argument.
\<close>

section \<open>State and operations\<close>

record ringbuf =
  rb_buffer :: bytes
  rb_size :: size_t
  rb_in :: size_t
  rb_out :: size_t
  rb_tracing :: bool
  rb_trace :: "bytes list"

definition builtin_clz :: "u32 \<Rightarrow> nat" where
  "builtin_clz x = length (takeWhile (\<lambda>i. \<not> bit x i) (rev [0..<32]))"

definition fls :: "u32 \<Rightarrow> nat" where
  "fls x = (if x \<noteq> 0 then 32 - builtin_clz x else 0)"

text \<open>\<^verbatim>\<open>1 << n\<close> on \<^verbatim>\<open>int\<close>: undefined when the result is not representable.\<close>

definition align_power2 :: "u32 \<Rightarrow> u32 option" where
  "align_power2 u = (let n = fls (u - 1) in if n < 31 then Some (push_bit n 1) else None)"

definition UINT_MAX :: nat where "UINT_MAX = 2 ^ 32 - 1"

text \<open>\<open>None\<close> inside \<open>Some\<close> is NULL.\<close>

definition ringbuf_new :: "(nat \<Rightarrow> bytes option) \<Rightarrow> size_t \<Rightarrow> ringbuf option option" where
  "ringbuf_new malloc sz =
     (if sz < 2 \<or> UINT_MAX < unat sz then Some None
      else do {
        real_size \<leftarrow> align_power2 (ucast sz);
        (case malloc (unat real_size) of
           None \<Rightarrow> Some None
         | Some buf \<Rightarrow> Some (Some \<lparr>rb_buffer = buf, rb_size = ucast real_size, rb_in = 0, rb_out = 0,
             rb_tracing = False, rb_trace = []\<rparr>))
      })"

definition ringbuf_set_input_tracing :: "ringbuf option \<Rightarrow> bool \<Rightarrow> bool \<times> ringbuf option" where
  "ringbuf_set_input_tracing rb callback =
     (case rb of
        None \<Rightarrow> (False, None)
      | Some r \<Rightarrow> (True, Some (r\<lparr>rb_tracing := callback\<rparr>)))"

definition ringbuf_capacity :: "ringbuf option \<Rightarrow> size_t" where
  "ringbuf_capacity rb = (case rb of None \<Rightarrow> 0 | Some r \<Rightarrow> rb_size r)"

definition ringbuf_len :: "ringbuf option \<Rightarrow> size_t" where
  "ringbuf_len rb = (case rb of None \<Rightarrow> 0 | Some r \<Rightarrow> rb_in r - rb_out r)"

definition ringbuf_avail :: "ringbuf option \<Rightarrow> size_t" where
  "ringbuf_avail rb = (case rb of None \<Rightarrow> 0 | Some r \<Rightarrow> rb_size r - rb_in r + rb_out r)"

text \<open>\<^verbatim>\<open>out += n\<close>, and the reset of both counters when the buffer is empty.\<close>

definition advance_out :: "ringbuf \<Rightarrow> size_t \<Rightarrow> ringbuf" where
  "advance_out r n =
     (let r1 = r\<lparr>rb_out := rb_out r + n\<rparr>
      in if rb_out r1 = rb_in r1 then r1\<lparr>rb_in := 0, rb_out := 0\<rparr> else r1)"

definition ringbuf_drain :: "ringbuf option \<Rightarrow> size_t \<Rightarrow> size_t \<times> ringbuf option" where
  "ringbuf_drain rb count =
     (case rb of
        None \<Rightarrow> (0, None)
      | Some r \<Rightarrow>
          let len = min count (rb_in r - rb_out r)
          in if len = 0 then (0, Some r) else (len, Some (advance_out r len)))"

text \<open>The pointer is an index of the buffer; the second result is \<^verbatim>\<open>*len_nowrap\<close>.\<close>

definition ringbuf_peek :: "ringbuf option \<Rightarrow> size_t \<Rightarrow> (size_t \<times> size_t) option" where
  "ringbuf_peek rb offset =
     (case rb of
        None \<Rightarrow> None
      | Some r \<Rightarrow>
          let offset = (rb_out r + offset) AND (rb_size r - 1);
              len = rb_in r - rb_out r
          in Some (offset, min len (rb_size r - offset)))"

text \<open>\<^verbatim>\<open>writev\<close> is given the bytes of the two vectors and the state \<open>w\<close> of what is behind the descriptor,
  which it may change.\<close>

definition ringbuf_write ::
  "(bytes \<Rightarrow> 'w \<Rightarrow> int \<times> 'w) \<Rightarrow> ringbuf option \<Rightarrow> int \<Rightarrow> 'w \<Rightarrow> (int \<times> 'w \<times> ringbuf option) option" where
  "ringbuf_write writev rb fd w =
     (case rb of
        None \<Rightarrow> Some (-1, w, None)
      | Some r \<Rightarrow>
          if fd < 0 then Some (-1, w, rb)
          else let len = rb_in r - rb_out r
          in if len = 0 then Some (0, w, rb)
          else do {
            let offset = rb_out r AND (rb_size r - 1);
            let end = min len (rb_size r - offset);
            v0 \<leftarrow> mem_read (rb_buffer r) (unat offset) (unat end);
            v1 \<leftarrow> mem_read (rb_buffer r) 0 (unat (len - end));
            let (consumed, w) = writev (v0 @ v1) w;
            (if consumed < 0 then Some (-1, w, rb)
             else Some (consumed, w, Some (advance_out r (word_of_int consumed))))
          })"

definition trace_chunk :: "ringbuf \<Rightarrow> nat \<Rightarrow> nat \<Rightarrow> ringbuf option" where
  "trace_chunk r offset len =
     (if rb_tracing r
      then do { c \<leftarrow> mem_read (rb_buffer r) offset len; Some (r\<lparr>rb_trace := rb_trace r @ [c]\<rparr>) }
      else Some r)"

text \<open>\<open>vasprintf\<close> gives the formatted string, or \<open>None\<close> for a negative length; \<open>format\<close> is \<open>None\<close> for
  NULL.\<close>

definition ringbuf_vprintf ::
  "('f \<Rightarrow> bytes option) \<Rightarrow> ringbuf option \<Rightarrow> 'f option \<Rightarrow> (int \<times> ringbuf option) option" where
  "ringbuf_vprintf vasprintf rb format =
     (case (rb, format) of
        (Some r, Some fmt) \<Rightarrow>
          (let avail = rb_size r - rb_in r + rb_out r
           in if avail = 0 then Some (-1, rb)
           else (case vasprintf fmt of
               None \<Rightarrow> Some (-1, rb)
             | Some str \<Rightarrow>
                 let len = of_nat (length str) :: size_t
                 in if avail < len then Some (-1, rb)
                 else do {
                   let offset = rb_in r AND (rb_size r - 1);
                   let end = min len (rb_size r - offset);
                   b1 \<leftarrow> memcpy (rb_buffer r) (unat offset) str 0 (unat end);
                   r1 \<leftarrow> trace_chunk (r\<lparr>rb_buffer := b1\<rparr>) (unat offset) (unat end);
                   r2 \<leftarrow> (if 0 < len - end
                         then do {
                           b2 \<leftarrow> memcpy (rb_buffer r1) 0 str (unat end) (unat (len - end));
                           trace_chunk (r1\<lparr>rb_buffer := b2\<rparr>) 0 (unat (len - end))
                         }
                         else Some r1);
                   Some (int (length str), Some (r2\<lparr>rb_in := rb_in r2 + len\<rparr>))
                 }))
      | _ \<Rightarrow> Some (-1, rb))"

definition ringbuf_printf ::
  "('f \<Rightarrow> bytes option) \<Rightarrow> ringbuf option \<Rightarrow> 'f option \<Rightarrow> (int \<times> ringbuf option) option" where
  "ringbuf_printf vasprintf rb format = ringbuf_vprintf vasprintf rb format"

text \<open>\<open>readv\<close> is given the room in bytes and gives the bytes read, or \<open>None\<close> for an error; they go to
  the first vector and then to the second.\<close>

definition ringbuf_read ::
  "(nat \<Rightarrow> bytes option) \<Rightarrow> ringbuf option \<Rightarrow> int \<Rightarrow> (int \<times> ringbuf option) option" where
  "ringbuf_read readv rb fd =
     (case rb of
        None \<Rightarrow> Some (-1, None)
      | Some r \<Rightarrow>
          if fd < 0 then Some (-1, rb)
          else let avail = rb_size r - rb_in r + rb_out r
          in if avail = 0 then Some (-1, rb)
          else let offset = rb_in r AND (rb_size r - 1);
                   end = min avail (rb_size r - offset)
          in (case readv (unat end + unat (avail - end)) of
                None \<Rightarrow> Some (-1, rb)
              | Some bs \<Rightarrow> do {
                  b1 \<leftarrow> mem_write (rb_buffer r) (unat offset) (take (unat end) bs);
                  b2 \<leftarrow> mem_write b1 0 (drop (unat end) bs);
                  let r0 = r\<lparr>rb_buffer := b2\<rparr>;
                  let consumed = of_nat (length bs);
                  let len = min consumed end;
                  r1 \<leftarrow> trace_chunk r0 (unat offset) (unat len);
                  r2 \<leftarrow> (if 0 < consumed - len then trace_chunk r1 0 (unat (consumed - len)) else Some r1);
                  Some (int (length bs), Some (r2\<lparr>rb_in := rb_in r2 + consumed\<rparr>))
                }))"

section \<open>Reading and writing around the end of the buffer\<close>

text \<open>The \<open>m\<close> bytes from position \<open>off\<close> on, wrapping around.\<close>

definition ring_get :: "bytes \<Rightarrow> nat \<Rightarrow> nat \<Rightarrow> bytes" where
  "ring_get b off m = map (\<lambda>j. b ! ((off + j) mod length b)) [0..<m]"

lemma length_ring_get [simp]: "length (ring_get b off m) = m"
  by (simp add: ring_get_def)

lemma nth_ring_get [simp]: "j < m \<Longrightarrow> ring_get b off m ! j = b ! ((off + j) mod length b)"
  by (simp add: ring_get_def)

lemma ring_get_0 [simp]: "ring_get b off 0 = []"
  by (simp add: ring_get_def)

lemma ring_get_mod: "ring_get b (off mod length b) m = ring_get b off m"
  by (simp add: ring_get_def mod_simps)

lemma take_ring_get: "k \<le> m \<Longrightarrow> take k (ring_get b off m) = ring_get b off k"
  by (rule nth_equalityI) simp_all

lemma drop_ring_get: "drop k (ring_get b off m) = ring_get b (off + k) (m - k)"
  by (rule nth_equalityI) (simp_all add: add.assoc)

lemma ring_get_two_parts:
  assumes "off < length b" and "m \<le> length b"
  shows "take (min m (length b - off)) (drop off b) @ take (m - min m (length b - off)) b
    = ring_get b off m"
proof (rule nth_equalityI)
  fix i assume "i < length (take (min m (length b - off)) (drop off b)
    @ take (m - min m (length b - off)) b)"
  with assms have i: "i < m" by (auto simp: min_def split: if_splits)
  show "(take (min m (length b - off)) (drop off b) @ take (m - min m (length b - off)) b) ! i
    = ring_get b off m ! i"
  proof (cases "i < length b - off")
    case True
    with i assms show ?thesis by (simp add: nth_append)
  next
    case False
    then have "length b \<le> off + i" by arith
    then have "(off + i) mod length b = off + i - length b"
      using assms i by (simp add: mod_if)
    with False i assms show ?thesis by (simp add: nth_append add.commute)
  qed
qed (use assms in auto)

text \<open>A write in two parts.\<close>

definition ring_put :: "bytes \<Rightarrow> nat \<Rightarrow> bytes \<Rightarrow> bytes option" where
  "ring_put b off bs =
     (let e = min (length bs) (length b - off)
      in do { b1 \<leftarrow> mem_write b off (take e bs); mem_write b1 0 (drop e bs) })"

lemma ring_put_Some:
  assumes "off < length b" and "length bs \<le> length b"
  obtains b' where "ring_put b off bs = Some b'" "length b' = length b"
    "\<And>j. j < length bs \<Longrightarrow> b' ! ((off + j) mod length b) = bs ! j"
    "\<And>i. i < length b \<Longrightarrow> (\<And>j. j < length bs \<Longrightarrow> (off + j) mod length b \<noteq> i) \<Longrightarrow> b' ! i = b ! i"
proof -
  define e where "e = min (length bs) (length b - off)"
  define b1 where "b1 = take off b @ take e bs @ drop (off + e) b"
  define b' where "b' = drop e bs @ drop (length bs - e) b1"
  have e: "e \<le> length bs" "off + e \<le> length b" "length bs - e \<le> off"
    using assms by (auto simp: e_def)
  have len: "length b1 = length b" "length b' = length b"
    using assms e by (auto simp: b1_def b'_def)
  have "ring_put b off bs = Some b'"
    using assms e len by (simp add: ring_put_def mem_write_def e_def [symmetric] b1_def [symmetric] b'_def)
  moreover have "b' ! ((off + j) mod length b) = bs ! j" if j: "j < length bs" for j
  proof (cases "j < e")
    case True
    then have "(off + j) mod length b = off + j" using e by simp
    moreover have "\<not> off + j + e - length bs < off + e - length bs" using e by arith
    ultimately show ?thesis using True e j by (simp add: b'_def b1_def nth_append)
  next
    case False
    then have "e = length b - off" using j by (auto simp: e_def)
    moreover have "length b \<le> off + j" using \<open>e = length b - off\<close> False by arith
    ultimately have "(off + j) mod length b = j - e" using False assms j by (simp add: mod_if add.commute)
    moreover have "j - e < length bs - e" using False j by arith
    ultimately show ?thesis using False e j by (simp add: b'_def nth_append)
  qed
  moreover have "b' ! i = b ! i"
    if i: "i < length b" "\<And>j. j < length bs \<Longrightarrow> (off + j) mod length b \<noteq> i" for i
  proof -
    have "\<not> (off \<le> i \<and> i < off + e)"
    proof
      assume a: "off \<le> i \<and> i < off + e"
      then have "i - off < length bs" using e by arith
      with i(2) [of "i - off"] i(1) a show False by simp
    qed
    moreover have "\<not> i < length bs - e"
    proof
      assume a: "i < length bs - e"
      then have "e = length b - off" by (auto simp: e_def)
      then have "(off + (e + i)) mod length b = i" using assms i by simp
      moreover have "e + i < length bs" using a by arith
      ultimately show False using i(2) [of "e + i"] by simp
    qed
    ultimately show ?thesis using i e
      by (auto simp: b'_def b1_def nth_append not_less)
  qed
  ultimately show ?thesis using len that by blast
qed

section \<open>The contents of the buffer\<close>

text \<open>The invariant: a power of two of bytes, of which the \<open>unat (in - out)\<close> bytes from \<^verbatim>\<open>out\<close> on are
  the contents.  The counters themselves may have wrapped.\<close>

definition rb_ok :: "ringbuf \<Rightarrow> bool" where
  "rb_ok r \<longleftrightarrow> (\<exists>k<32. length (rb_buffer r) = 2 ^ k) \<and> unat (rb_size r) = length (rb_buffer r)
     \<and> unat (rb_in r - rb_out r) \<le> length (rb_buffer r)"

definition rb_contents :: "ringbuf \<Rightarrow> bytes" where
  "rb_contents r = ring_get (rb_buffer r) (unat (rb_out r)) (unat (rb_in r - rb_out r))"

lemma unat_mask:
  assumes "unat (s :: size_t) = 2 ^ k" and "k < 32"
  shows "unat (w AND (s - 1)) = unat w mod 2 ^ k"
proof -
  have "s = of_nat (2 ^ k)" using arg_cong [OF assms(1), of "of_nat :: nat \<Rightarrow> size_t"] by simp
  then have "s = 2 ^ k" by simp
  then have "w AND (s - 1) = take_bit k w" by (simp add: take_bit_eq_mask mask_eq_exp_minus_1)
  then show ?thesis by (simp only: unsigned_take_bit_eq) (simp add: take_bit_eq_mod)
qed

lemma unat_mod_pow2: "k \<le> 64 \<Longrightarrow> unat (a + b :: size_t) mod 2 ^ k = (unat a + unat b) mod 2 ^ k"
  unfolding unat_word_ariths by (rule mod_mod_cancel) (rule le_imp_power_dvd, simp)

lemma rb_in_mod:
  assumes "rb_ok r"
  shows "unat (rb_in r) mod length (rb_buffer r)
    = (unat (rb_out r) + length (rb_contents r)) mod length (rb_buffer r)"
proof -
  obtain k where k: "k < 32" "length (rb_buffer r) = 2 ^ k" using assms by (auto simp: rb_ok_def)
  have "rb_in r = rb_out r + (rb_in r - rb_out r)" by simp
  then have "unat (rb_in r) mod 2 ^ k = unat (rb_out r + (rb_in r - rb_out r)) mod 2 ^ k" by simp
  also have "\<dots> = (unat (rb_out r) + unat (rb_in r - rb_out r)) mod 2 ^ k"
    using k by (intro unat_mod_pow2) simp
  finally show ?thesis using k by (simp add: rb_contents_def)
qed

lemma rb_mask:
  assumes "rb_ok r"
  shows "unat (w AND (rb_size r - 1)) = unat w mod length (rb_buffer r)"
proof -
  obtain k where k: "k < 32" "length (rb_buffer r) = 2 ^ k" "unat (rb_size r) = 2 ^ k"
    using assms by (auto simp: rb_ok_def)
  show ?thesis using unat_mask [OF k(3,1)] k(2) by simp
qed

lemma rb_len: "rb_ok r \<Longrightarrow> unat (ringbuf_len (Some r)) = length (rb_contents r)"
  by (simp add: ringbuf_len_def rb_contents_def)

lemma rb_avail:
  assumes "rb_ok r"
  shows "unat (ringbuf_avail (Some r)) = length (rb_buffer r) - length (rb_contents r)"
proof -
  have "rb_size r - rb_in r + rb_out r = rb_size r - (rb_in r - rb_out r)" by simp
  moreover have "rb_in r - rb_out r \<le> rb_size r" using assms by (simp add: rb_ok_def word_le_nat_alt)
  ultimately show ?thesis using assms unat_sub [of "rb_in r - rb_out r" "rb_size r"]
    by (simp only: ringbuf_avail_def option.case) (simp add: rb_ok_def rb_contents_def)
qed

text \<open>Advancing \<^verbatim>\<open>out\<close> drops bytes from the front.\<close>

lemma advance_out_contents:
  assumes "rb_ok r" and "unat n \<le> length (rb_contents r)"
  shows "rb_ok (advance_out r n) \<and> rb_contents (advance_out r n) = drop (unat n) (rb_contents r)
    \<and> rb_size (advance_out r n) = rb_size r \<and> rb_trace (advance_out r n) = rb_trace r
    \<and> rb_tracing (advance_out r n) = rb_tracing r \<and> rb_buffer (advance_out r n) = rb_buffer r"
proof -
  obtain k where k: "k < 32" "length (rb_buffer r) = 2 ^ k" using assms by (auto simp: rb_ok_def)
  have le: "n \<le> rb_in r - rb_out r" using assms(2) by (simp add: rb_contents_def word_le_nat_alt)
  have sub: "rb_in r - (rb_out r + n) = (rb_in r - rb_out r) - n" by simp
  have u: "unat (rb_in r - (rb_out r + n)) = unat (rb_in r - rb_out r) - unat n"
    unfolding sub by (rule unat_sub [OF le])
  have mod: "unat (rb_out r + n) mod length (rb_buffer r)
      = (unat (rb_out r) + unat n) mod length (rb_buffer r)"
    unfolding k(2) using k(1) by (intro unat_mod_pow2) simp
  have "ring_get (rb_buffer r) (unat (rb_out r + n)) (unat (rb_in r - rb_out r) - unat n)
      = ring_get (rb_buffer r) ((unat (rb_out r) + unat n) mod length (rb_buffer r))
          (unat (rb_in r - rb_out r) - unat n)"
    using ring_get_mod [of "rb_buffer r" "unat (rb_out r + n)"] unfolding mod by simp
  then have g: "ring_get (rb_buffer r) (unat (rb_out r + n)) (unat (rb_in r - rb_out r) - unat n)
      = drop (unat n) (rb_contents r)"
    by (simp add: ring_get_mod rb_contents_def drop_ring_get)
  show ?thesis
  proof (cases "rb_out r + n = rb_in r")
    case True
    then have "unat (rb_in r - rb_out r) = unat n" by (metis add_diff_cancel_left')
    then show ?thesis using True assms k
      by (auto simp: advance_out_def rb_ok_def rb_contents_def)
  next
    case False
    then show ?thesis using assms k u g by (auto simp: advance_out_def rb_ok_def rb_contents_def Let_def)
  qed
qed

text \<open>Putting bytes at \<^verbatim>\<open>in\<close> appends them.\<close>

lemma put_contents:
  assumes ok: "rb_ok r" and fits: "length (rb_contents r) + length bs \<le> length (rb_buffer r)"
    and b': "ring_put (rb_buffer r) (unat (rb_in r) mod length (rb_buffer r)) bs = Some b'"
    and r': "rb_buffer r' = b'" "rb_size r' = rb_size r" "rb_out r' = rb_out r"
      "rb_in r' = rb_in r + of_nat (length bs)"
  shows "rb_ok r' \<and> rb_contents r' = rb_contents r @ bs"
proof -
  define n where "n = length (rb_buffer r)"
  define l where "l = length (rb_contents r)"
  obtain k where k: "k < 32" "n = 2 ^ k" using ok by (auto simp: rb_ok_def n_def)
  have n0: "0 < n" using k by simp
  have off: "unat (rb_in r) mod n = (unat (rb_out r) + l) mod n"
    using rb_in_mod [OF ok] by (simp add: n_def l_def)
  have "unat (rb_in r) mod n < n" using n0 by simp
  then obtain b0 where b0: "ring_put (rb_buffer r) (unat (rb_in r) mod n) bs = Some b0"
    and len: "length b0 = n"
    and new: "\<And>j. j < length bs \<Longrightarrow> b0 ! ((unat (rb_in r) mod n + j) mod n) = bs ! j"
    and old: "\<And>i. i < n \<Longrightarrow> (\<And>j. j < length bs \<Longrightarrow> (unat (rb_in r) mod n + j) mod n \<noteq> i)
      \<Longrightarrow> b0 ! i = rb_buffer r ! i"
    using ring_put_Some [of "unat (rb_in r) mod n" "rb_buffer r" bs] fits
    by (auto simp: n_def [symmetric])
  with b' have b0': "b0 = b'" by (simp add: n_def)
  have small: "l + length bs < 2 ^ 64"
  proof -
    have "(2::nat) ^ k \<le> 2 ^ 32" using k by (intro power_increasing) auto
    with fits k show ?thesis by (simp add: n_def [symmetric] l_def [symmetric])
  qed
  have cnt: "unat (rb_in r' - rb_out r') = l + length bs"
  proof -
    have "rb_in r' - rb_out r' = (rb_in r - rb_out r) + of_nat (length bs)" using r' by simp
    also have "\<dots> = of_nat (l + length bs)" by (simp add: l_def rb_contents_def)
    finally show ?thesis using small by (simp only: unat_of_nat) simp
  qed
  have "ring_get b' (unat (rb_out r)) (l + length bs) = rb_contents r @ bs"
  proof (rule nth_equalityI)
    fix i assume i: "i < length (ring_get b' (unat (rb_out r)) (l + length bs))"
    show "ring_get b' (unat (rb_out r)) (l + length bs) ! i = (rb_contents r @ bs) ! i"
    proof (cases "i < l")
      case True
      have "(unat (rb_in r) mod n + j) mod n \<noteq> (unat (rb_out r) + i) mod n" if "j < length bs" for j
      proof
        assume "(unat (rb_in r) mod n + j) mod n = (unat (rb_out r) + i) mod n"
        then have "(unat (rb_out r) + l + j) mod n = (unat (rb_out r) + i) mod n"
          unfolding off by (simp add: mod_simps)
        then have "n dvd (unat (rb_out r) + l + j) - (unat (rb_out r) + i)"
          using True by (subst (asm) mod_eq_dvd_iff_nat) simp_all
        then have "n dvd l + j - i" by (simp add: add.assoc)
        moreover have "l + j < n" using that fits by (simp add: n_def l_def)
        ultimately show False using True by (auto dest: dvd_imp_le)
      qed
      with old [of "(unat (rb_out r) + i) mod n"] True i n0 len show ?thesis
        by (simp add: b0' nth_append rb_contents_def l_def n_def)
    next
      case False
      with i have j: "i - l < length bs" by simp
      have "(unat (rb_in r) mod n + (i - l)) mod n = (unat (rb_out r) + i) mod n"
      proof -
        have "((unat (rb_out r) + l) mod n + (i - l)) mod n = (unat (rb_out r) + l + (i - l)) mod n"
          by (rule mod_add_left_eq)
        with False show ?thesis unfolding off by (simp add: add.assoc)
      qed
      with new [OF j] False i len show ?thesis by (simp add: b0' nth_append l_def)
    qed
  qed (simp add: l_def)
  then show ?thesis using ok r' len b0' cnt fits
    by (simp add: rb_ok_def rb_contents_def [of r'] l_def n_def)
qed

section \<open>The operations\<close>

lemma drain_contents:
  assumes "rb_ok r"
  shows "\<exists>r'. ringbuf_drain (Some r) n = (of_nat (min (unat n) (length (rb_contents r))), Some r')
    \<and> rb_ok r' \<and> rb_contents r' = drop (unat n) (rb_contents r) \<and> rb_size r' = rb_size r"
proof -
  define len where "len = min n (rb_in r - rb_out r)"
  have u: "unat len = min (unat n) (length (rb_contents r))"
    by (simp add: len_def rb_contents_def min_def word_le_nat_alt)
  then have eq: "len = of_nat (min (unat n) (length (rb_contents r)))"
    unfolding u [symmetric] by simp
  have d: "drop (unat len) (rb_contents r) = drop (unat n) (rb_contents r)"
    unfolding u by (simp add: min_def)
  show ?thesis
  proof (cases "len = 0")
    case True
    then have "ringbuf_drain (Some r) n = (len, Some r)" by (simp add: ringbuf_drain_def len_def Let_def)
    with True d assms eq show ?thesis by simp
  next
    case False
    then have "ringbuf_drain (Some r) n = (len, Some (advance_out r len))"
      by (simp add: ringbuf_drain_def len_def [symmetric] Let_def)
    with advance_out_contents [OF assms, of len] u d eq show ?thesis by simp
  qed
qed

lemma min_word_unat: "unat (min a b :: size_t) = min (unat a) (unat b)"
  by (simp add: min_def word_le_nat_alt)

lemma rb_room:
  assumes "rb_ok r"
  shows "unat (rb_size r - (w AND (rb_size r - 1))) = length (rb_buffer r) - unat w mod length (rb_buffer r)"
proof -
  have s: "unat (rb_size r) = length (rb_buffer r)" using assms by (simp add: rb_ok_def)
  have "0 < length (rb_buffer r)" using assms by (auto simp: rb_ok_def)
  then have "w AND (rb_size r - 1) \<le> rb_size r"
    using s by (simp add: word_le_nat_alt rb_mask [OF assms] order_less_imp_le)
  then show ?thesis by (simp add: unat_sub s rb_mask [OF assms])
qed

lemma write_contents:
  assumes ok: "rb_ok r" and fd: "0 \<le> fd"
    and writev: "writev (rb_contents r) w = (n, w')" "n \<le> int (length (rb_contents r))"
  shows "\<exists>r'. ringbuf_write writev (Some r) fd w
      = Some (if rb_contents r = [] then (0, w, Some r') else (max (-1) n, w', Some r'))
    \<and> rb_ok r' \<and> rb_contents r' = drop (nat n) (rb_contents r) \<and> rb_size r' = rb_size r"
proof (cases "rb_contents r = []")
  case True
  then have "rb_in r - rb_out r = 0" by (simp add: rb_contents_def ring_get_def unat_eq_zero)
  with True ok fd show ?thesis by (simp add: ringbuf_write_def Let_def)
next
  case False
  define m where "m = length (rb_buffer r)"
  define l where "l = rb_in r - rb_out r"
  define off where "off = rb_out r AND (rb_size r - 1)"
  define e where "e = min l (rb_size r - off)"
  have n0: "0 < m" using ok by (auto simp: m_def rb_ok_def)
  have off: "unat off = unat (rb_out r) mod m" "unat off < m"
    using n0 by (simp_all add: off_def rb_mask [OF ok] m_def)
  have l: "unat l \<le> m" "l \<noteq> 0" "unat l = length (rb_contents r)"
    using ok False by (auto simp: l_def m_def rb_ok_def rb_contents_def ring_get_def)
  have e: "unat e = min (unat l) (m - unat off)"
    using rb_room [OF ok, of "rb_out r"] off by (simp add: e_def min_word_unat off_def m_def)
  have "e \<le> l" by (simp add: e_def)
  then have le: "unat (l - e) = unat l - unat e" by (simp add: unat_sub)
  have v0: "mem_read (rb_buffer r) (unat off) (unat e) = Some (take (unat e) (drop (unat off) (rb_buffer r)))"
    using e off by (simp add: mem_read_def m_def)
  have v1: "mem_read (rb_buffer r) 0 (unat (l - e)) = Some (take (unat l - unat e) (rb_buffer r))"
    using l le by (simp add: mem_read_def m_def)
  have "take (unat e) (drop (unat off) (rb_buffer r)) @ take (unat l - unat e) (rb_buffer r)
      = ring_get (rb_buffer r) (unat off) (unat l)"
    using ring_get_two_parts [of "unat off" "rb_buffer r" "unat l"] off l e by (simp add: m_def)
  also have "\<dots> = rb_contents r"
    by (simp add: off(1) m_def ring_get_mod rb_contents_def l_def)
  finally have run: "ringbuf_write writev (Some r) fd w
      = (if n < 0 then Some (-1, w', Some r) else Some (n, w', Some (advance_out r (word_of_int n))))"
    using fd l(2) v0 v1 writev(1)
    by (simp add: ringbuf_write_def l_def [symmetric] off_def [symmetric] e_def [symmetric] Let_def)
  show ?thesis
  proof (cases "n < 0")
    case True
    with run ok False show ?thesis by auto
  next
    case neg: False
    have "n < 2 ^ 64"
    proof -
      have "unat l < 2 ^ LENGTH(64)" by (rule unsigned_less)
      then have "length (rb_contents r) < 2 ^ 64" using l(3) by simp
      with writev(2) show ?thesis by simp
    qed
    with neg have u: "unat (word_of_int n :: size_t) = nat n"
      by (simp add: unat_eq_nat_uint take_bit_eq_mod uint_word_of_int)
    with advance_out_contents [OF ok, of "word_of_int n"] writev(2) neg run False
    show ?thesis by auto
  qed
qed

lemma trace_chunk_ok:
  assumes "mem_read (rb_buffer r) off n = Some c"
  shows "trace_chunk r off n = Some (r\<lparr>rb_trace := rb_trace r @ (if rb_tracing r then [c] else [])\<rparr>)"
  using assms by (auto simp: trace_chunk_def)

lemma mem_read_before_write:
  "mem_write b 0 ys = Some b' \<Longrightarrow> length ys \<le> off \<Longrightarrow> mem_read b' off n = mem_read b off n"
  by (auto simp: mem_write_def mem_read_def split: if_splits)

text \<open>What both ways of adding bytes have in common: the two parts, their chunks and the counter.\<close>

lemma two_part_put:
  assumes ok: "rb_ok r" and fits: "length (rb_contents r) + length bs \<le> length (rb_buffer r)"
  defines "off \<equiv> rb_in r AND (rb_size r - 1)"
  defines "e \<equiv> min (of_nat (length bs)) (rb_size r - off)"
  obtains b1 b2 where
    "mem_write (rb_buffer r) (unat off) (take (unat e) bs) = Some b1"
    "mem_write b1 0 (drop (unat e) bs) = Some b2"
    "length bs - unat e \<le> unat off"
    "unat e \<le> length bs" "unat (of_nat (length bs) - e) = length bs - unat e"
    "unat e = min (length bs) (length (rb_buffer r) - unat off)"
    "rb_ok (r\<lparr>rb_buffer := b2, rb_in := rb_in r + of_nat (length bs)\<rparr>)"
    "rb_contents (r\<lparr>rb_buffer := b2, rb_in := rb_in r + of_nat (length bs)\<rparr>) = rb_contents r @ bs"
proof -
  define n where "n = length (rb_buffer r)"
  obtain k where k: "k < 32" "n = 2 ^ k" using ok by (auto simp: rb_ok_def n_def)
  have small: "length bs < 2 ^ 64"
  proof -
    have "(2::nat) ^ k \<le> 2 ^ 32" using k by (intro power_increasing) auto
    with fits k show ?thesis by (simp add: n_def [symmetric])
  qed
  have off: "unat off = unat (rb_in r) mod n" "unat off < n"
    using k by (simp_all add: off_def rb_mask [OF ok] n_def [symmetric])
  have e: "unat e = min (length bs) (n - unat off)"
    using rb_room [OF ok, of "rb_in r"] off small
    by (simp add: e_def min_word_unat off_def n_def unat_of_nat)
  obtain b2 where b2: "ring_put (rb_buffer r) (unat off) bs = Some b2"
    by (rule ring_put_Some [of "unat off" "rb_buffer r" bs]) (use off fits n_def in auto)
  then obtain b1 where b1: "mem_write (rb_buffer r) (unat off) (take (unat e) bs) = Some b1"
    "mem_write b1 0 (drop (unat e) bs) = Some b2"
    unfolding ring_put_def Let_def e n_def [symmetric] by (auto simp: bind_eq_Some_conv)
  have "e \<le> of_nat (length bs)" by (simp add: e_def)
  then have "unat (of_nat (length bs) - e) = length bs - unat e"
    using small by (simp add: unat_sub unat_of_nat)
  with that [OF b1] put_contents [OF ok fits, of b2
      "r\<lparr>rb_buffer := b2, rb_in := rb_in r + of_nat (length bs)\<rparr>"] b2 off e fits
  show ?thesis by (auto simp: n_def)
qed

lemma vprintf_full:
  assumes ok: "rb_ok r" and str: "vasprintf fmt = Some str" and small: "length str < 2 ^ 31"
    and full: "length (rb_buffer r) \<le> length (rb_contents r)
      \<or> length (rb_buffer r) < length (rb_contents r) + length str"
  shows "ringbuf_vprintf vasprintf (Some r) (Some fmt) = Some (-1, Some r)"
proof -
  define a where "a = rb_size r - rb_in r + rb_out r"
  have a: "unat a = length (rb_buffer r) - length (rb_contents r)"
    using rb_avail [OF ok] by (simp add: ringbuf_avail_def a_def)
  have "a = 0 \<or> a < of_nat (length str)"
    using full a small by (auto simp: word_less_nat_alt unat_of_nat unat_eq_zero)
  then show ?thesis using str by (auto simp: ringbuf_vprintf_def Let_def a_def [symmetric])
qed

lemma vprintf_fits:
  assumes ok: "rb_ok r" and str: "vasprintf fmt = Some str"
    and free: "length (rb_contents r) < length (rb_buffer r)"
    and fits: "length (rb_contents r) + length str \<le> length (rb_buffer r)"
  shows "\<exists>r'. ringbuf_vprintf vasprintf (Some r) (Some fmt) = Some (int (length str), Some r')
    \<and> rb_ok r' \<and> rb_contents r' = rb_contents r @ str \<and> rb_size r' = rb_size r
    \<and> rb_tracing r' = rb_tracing r
    \<and> concat (rb_trace r') = concat (rb_trace r) @ (if rb_tracing r then str else [])"
proof -
  define a where "a = rb_size r - rb_in r + rb_out r"
  define off where "off = rb_in r AND (rb_size r - 1)"
  define e where "e = min (of_nat (length str)) (rb_size r - off)"
  obtain b1 b2 where b: "mem_write (rb_buffer r) (unat off) (take (unat e) str) = Some b1"
    "mem_write b1 0 (drop (unat e) str) = Some b2" "length str - unat e \<le> unat off"
    "unat e \<le> length str" "unat (of_nat (length str) - e) = length str - unat e"
    and r': "rb_ok (r\<lparr>rb_buffer := b2, rb_in := rb_in r + of_nat (length str)\<rparr>)"
      "rb_contents (r\<lparr>rb_buffer := b2, rb_in := rb_in r + of_nat (length str)\<rparr>) = rb_contents r @ str"
    using two_part_put [OF ok fits] unfolding off_def e_def by metis
  have a: "unat a = length (rb_buffer r) - length (rb_contents r)"
    using rb_avail [OF ok] by (simp add: ringbuf_avail_def a_def)
  have "length (rb_buffer r) < 2 ^ LENGTH(64)"
    using ok unsigned_less [of "rb_size r", where ?'a = nat] by (simp add: rb_ok_def)
  then have "unat (of_nat (length str) :: size_t) = length str" using fits by (simp add: unat_of_nat)
  then have a': "a \<noteq> 0" "\<not> a < of_nat (length str)"
    using a free fits by (auto simp: word_less_nat_alt)
  have c1: "memcpy (rb_buffer r) (unat off) str 0 (unat e) = Some b1"
    using b by (simp add: memcpy_def mem_read_def)
  have c2: "memcpy b1 0 str (unat e) (unat (of_nat (length str) - e)) = Some b2"
    using b by (simp add: memcpy_def mem_read_def)
  have t1: "mem_read b1 (unat off) (unat e) = Some (take (unat e) str)"
    using b by (intro mem_read_write [OF b(1)]) simp
  have t2: "mem_read b2 0 (unat (of_nat (length str) - e)) = Some (drop (unat e) str)"
    using b by (intro mem_read_write [OF b(2)]) simp
  define r1 where "r1 = r\<lparr>rb_buffer := b1, rb_trace := rb_trace r @ (if rb_tracing r then [take (unat e) str] else [])\<rparr>"
  define r2 where "r2 = r\<lparr>rb_buffer := b2, rb_trace := rb_trace r @ (if rb_tracing r
     then [take (unat e) str] @ (if unat e < length str then [drop (unat e) str] else []) else [])\<rparr>"
  have s1: "trace_chunk (r\<lparr>rb_buffer := b1\<rparr>) (unat off) (unat e) = Some r1"
    using t1 by (subst trace_chunk_ok [where c = "take (unat e) str"]) (simp_all add: r1_def)
  have s2: "(if 0 < of_nat (length str) - e
       then do { b \<leftarrow> memcpy (rb_buffer r1) 0 str (unat e) (unat (of_nat (length str) - e));
         trace_chunk (r1\<lparr>rb_buffer := b\<rparr>) 0 (unat (of_nat (length str) - e)) }
       else Some r1) = Some r2"
  proof (cases "unat e < length str")
    case True
    then have "0 < of_nat (length str) - e" using b(5) by (simp add: word_less_nat_alt)
    then show ?thesis using c2 t2 True
      by (simp add: r1_def r2_def trace_chunk_ok [where c = "drop (unat e) str"])
  next
    case False
    then have "\<not> 0 < of_nat (length str) - e" using b(5) by (simp add: word_less_nat_alt)
    moreover have "b2 = b1" using b(2) False by (simp add: mem_write_def)
    ultimately show ?thesis using False by (simp add: r1_def r2_def)
  qed
  have "ringbuf_vprintf vasprintf (Some r) (Some fmt)
      = Some (int (length str), Some (r2\<lparr>rb_in := rb_in r + of_nat (length str)\<rparr>))"
    unfolding ringbuf_vprintf_def option.case prod.case str Let_def a_def [symmetric]
      off_def [symmetric] e_def [symmetric]
    by (simp only: a' if_False c1 s1 s2 Option.bind.simps) (simp add: r2_def)
  moreover have "rb_ok (r2\<lparr>rb_in := rb_in r + of_nat (length str)\<rparr>)"
    "rb_contents (r2\<lparr>rb_in := rb_in r + of_nat (length str)\<rparr>) = rb_contents r @ str"
    using r' by (simp_all add: r2_def rb_ok_def rb_contents_def)
  ultimately show ?thesis by (auto simp: r2_def)
qed

lemma read_contents:
  assumes ok: "rb_ok r" and fd: "0 \<le> fd"
    and readv: "\<And>bs. readv (length (rb_buffer r) - length (rb_contents r)) = Some bs
      \<Longrightarrow> length bs \<le> length (rb_buffer r) - length (rb_contents r)"
  shows "\<exists>r'. ringbuf_read readv (Some r) fd =
      Some (if length (rb_contents r) = length (rb_buffer r) then -1
          else case readv (length (rb_buffer r) - length (rb_contents r)) of
            None \<Rightarrow> -1 | Some bs \<Rightarrow> int (length bs), Some r')
    \<and> rb_ok r' \<and> rb_size r' = rb_size r \<and> rb_tracing r' = rb_tracing r
    \<and> rb_contents r' = rb_contents r @ (if length (rb_contents r) = length (rb_buffer r) then []
        else case readv (length (rb_buffer r) - length (rb_contents r)) of None \<Rightarrow> [] | Some bs \<Rightarrow> bs)"
proof -
  define n where "n = length (rb_buffer r)"
  define a where "a = rb_size r - rb_in r + rb_out r"
  define off where "off = rb_in r AND (rb_size r - 1)"
  define e where "e = min a (rb_size r - off)"
  have a: "unat a = n - length (rb_contents r)"
    using rb_avail [OF ok] by (simp add: ringbuf_avail_def a_def n_def)
  have le: "length (rb_contents r) \<le> n" using ok by (simp add: rb_ok_def rb_contents_def n_def)
  have "e \<le> a" by (simp add: e_def)
  then have ae: "unat e + unat (a - e) = unat a" by (simp add: unat_sub word_le_nat_alt)
  show ?thesis
  proof (cases "length (rb_contents r) = n")
    case True
    then have "a = 0" using a by (simp add: unat_eq_zero)
    with True ok fd show ?thesis by (simp add: ringbuf_read_def a_def n_def Let_def)
  next
    case False
    then have a0: "a \<noteq> 0" using a le by auto
    show ?thesis
    proof (cases "readv (unat a)")
      case None
      with False a0 ok fd ae a show ?thesis
        by (simp add: ringbuf_read_def a_def [symmetric] off_def [symmetric] e_def [symmetric] Let_def n_def)
    next
      case (Some bs)
      then have bs: "length bs \<le> unat a" using readv a by (simp add: n_def)
      then have fits: "length (rb_contents r) + length bs \<le> length (rb_buffer r)"
        using a le by (simp add: n_def)
      define e' where "e' = min (of_nat (length bs)) (rb_size r - off)"
      obtain b1 b2 where b: "mem_write (rb_buffer r) (unat off) (take (unat e') bs) = Some b1"
        "mem_write b1 0 (drop (unat e') bs) = Some b2" "length bs - unat e' \<le> unat off"
        "unat e' \<le> length bs" "unat (of_nat (length bs) - e') = length bs - unat e'"
        and u: "unat e' = min (length bs) (length (rb_buffer r) - unat off)"
        and r': "rb_ok (r\<lparr>rb_buffer := b2, rb_in := rb_in r + of_nat (length bs)\<rparr>)"
          "rb_contents (r\<lparr>rb_buffer := b2, rb_in := rb_in r + of_nat (length bs)\<rparr>) = rb_contents r @ bs"
        using two_part_put [OF ok fits] unfolding off_def e'_def by metis
      have ue: "unat e = min (unat a) (n - unat off)"
        using rb_room [OF ok, of "rb_in r"] by (simp add: e_def min_word_unat off_def n_def rb_mask [OF ok])
      have part: "take (unat e) bs = take (unat e') bs" "drop (unat e) bs = drop (unat e') bs"
        using u ue bs by (auto simp: n_def min_def)
      have "of_nat (length bs) \<le> a"
        using order_trans [OF mod_less_eq_dividend bs] by (simp add: word_le_nat_alt unat_of_nat)
      then have me: "min (of_nat (length bs)) e = e'" by (simp add: e_def e'_def min.assoc [symmetric] min_absorb1)
      have t1: "mem_read b2 (unat off) (unat e') = Some (take (unat e') bs)"
        using mem_read_before_write [OF b(2), of "unat off" "unat e'"]
          mem_read_write [OF b(1), of "unat e'"] b(3,4) by simp
      have t2: "mem_read b2 0 (unat (of_nat (length bs) - e')) = Some (drop (unat e') bs)"
        using b by (intro mem_read_write [OF b(2)]) simp
      define r1 where "r1 = r\<lparr>rb_buffer := b2, rb_trace := rb_trace r @ (if rb_tracing r then [take (unat e') bs] else [])\<rparr>"
      have s1: "trace_chunk (r\<lparr>rb_buffer := b2\<rparr>) (unat off) (unat e') = Some r1"
        using t1 by (subst trace_chunk_ok [where c = "take (unat e') bs"]) (simp_all add: r1_def)
      define r2 where "r2 = (if 0 < of_nat (length bs) - e'
        then r1\<lparr>rb_trace := rb_trace r1 @ (if rb_tracing r1 then [drop (unat e') bs] else [])\<rparr> else r1)"
      have "mem_read (rb_buffer r1) 0 (unat (of_nat (length bs) - e')) = Some (drop (unat e') bs)"
        using t2 by (simp add: r1_def)
      from trace_chunk_ok [OF this]
      have s2: "(if 0 < of_nat (length bs) - e' then trace_chunk r1 0 (unat (of_nat (length bs) - e'))
          else Some r1) = Some r2"
        by (simp add: r2_def)
      have r2: "rb_buffer r2 = b2" "rb_in r2 = rb_in r" "rb_out r2 = rb_out r"
          "rb_size r2 = rb_size r" "rb_tracing r2 = rb_tracing r"
        by (simp_all add: r2_def r1_def)
      have "ringbuf_read readv (Some r) fd = Some (int (length bs), Some (r2\<lparr>rb_in := rb_in r2 + of_nat (length bs)\<rparr>))"
        unfolding ringbuf_read_def option.case Let_def a_def [symmetric] off_def [symmetric] e_def [symmetric]
        using fd by (simp only: a0 if_False not_less [symmetric] ae Some option.case part b(1,2) me s1 s2 Option.bind.simps)
      moreover have "rb_ok (r2\<lparr>rb_in := rb_in r2 + of_nat (length bs)\<rparr>)"
        "rb_contents (r2\<lparr>rb_in := rb_in r2 + of_nat (length bs)\<rparr>) = rb_contents r @ bs"
        using r' r2 by (simp_all add: rb_ok_def rb_contents_def)
      ultimately show ?thesis using False Some r2 a by (simp add: n_def)
    qed
  qed
qed

section \<open>Creation\<close>

lemma fls_bounds:
  assumes "x \<noteq> 0"
  shows "0 < fls x" "2 ^ (fls x - 1) \<le> unat x" "unat x < 2 ^ fls x"
proof -
  define zs where "zs = takeWhile (\<lambda>i. \<not> bit x i) (rev [0..<32])"
  define n where "n = length zs"
  have clz: "builtin_clz x = n" by (simp add: builtin_clz_def n_def zs_def)
  have zs: "zs = take n (rev [0..<32])" unfolding n_def zs_def by (rule takeWhile_eq_take)
  have "n < 32"
  proof (rule ccontr)
    assume "\<not> n < 32"
    then have "zs = rev [0..<32]" using zs by simp
    then have "\<forall>i\<in>set (rev [0..<32]). \<not> bit x i" unfolding zs_def by (simp add: takeWhile_eq_all_conv)
    then have "\<not> bit x i" for i using bit_imp_le_length [of x i] by (cases "i < 32") auto
    then show False using assms by (auto intro: bit_eqI)
  qed
  then have f: "fls x = 32 - n" "0 < fls x" using assms clz by (simp_all add: fls_def)
  then show "0 < fls x" by simp
  have "bit x (31 - n)"
    using nth_length_takeWhile [of "\<lambda>i. \<not> bit x i" "rev [0..<32]"] \<open>n < 32\<close>
    by (simp add: zs_def [symmetric] n_def [symmetric] rev_nth)
  then have "bit (unat x) (31 - n)" by (simp add: bit_unsigned_iff)
  then have "odd (unat x div 2 ^ (31 - n))" by (simp add: bit_iff_odd)
  then have "unat x div 2 ^ (31 - n) \<noteq> 0" by (metis even_zero)
  then have "2 ^ (31 - n) \<le> unat x" by (metis div_less not_less)
  moreover have "fls x - 1 = 31 - n" using f(1) by simp
  ultimately show "2 ^ (fls x - 1) \<le> unat x" by simp
  have "\<not> bit x i" if i: "32 - n \<le> i" for i
  proof (cases "i < 32")
    case True
    then have "rev [0..<32] ! (31 - i) = i" by (simp add: rev_nth)
    moreover have "31 - i < n" using i True by arith
    then have "rev [0..<32] ! (31 - i) \<in> set zs" using \<open>n < 32\<close> unfolding zs
      by (metis (no_types, lifting) length_take min_less_iff_conj nth_mem nth_take n_def zs)
    ultimately show ?thesis unfolding zs_def by (metis set_takeWhileD)
  next
    case False
    then show ?thesis using bit_imp_le_length [of x i] by auto
  qed
  then have "take_bit (32 - n) x = x" by (intro bit_eqI) (metis bit_take_bit_iff not_le_imp_less)
  then have "unat x = take_bit (32 - n) (unat x)" by (metis unsigned_take_bit_eq)
  also have "\<dots> < 2 ^ (32 - n)" by simp
  finally show "unat x < 2 ^ fls x" using f(1) by simp
qed

lemma align_power2_spec:
  assumes "2 \<le> unat u" and "unat u \<le> 2 ^ 30"
  shows "\<exists>k. 0 < k \<and> k \<le> 30 \<and> align_power2 u = Some (2 ^ k) \<and> unat u \<le> 2 ^ k \<and> 2 ^ k < 2 * unat u"
proof -
  have "(1 :: u32) \<le> u" using assms(1) by (simp add: word_le_nat_alt)
  then have v: "unat (u - 1) = unat u - 1" by (simp add: unat_sub)
  then have "u - 1 \<noteq> 0" using assms(1) by (auto simp: unat_eq_zero [symmetric])
  note f = fls_bounds [OF this]
  have "(2::nat) ^ (fls (u - 1) - 1) < 2 ^ 30" using f(2) v assms by linarith
  then have "fls (u - 1) - 1 < 30" by (rule power_less_imp_less_exp [rotated]) simp
  then have k: "fls (u - 1) \<le> 30" by simp
  have "(2::nat) ^ fls (u - 1) = 2 * 2 ^ (fls (u - 1) - 1)" using f(1) by (simp add: power_eq_if)
  then show ?thesis using f v assms k
    by (intro exI [of _ "fls (u - 1)"]) (simp add: align_power2_def Let_def push_bit_eq_mult, arith)
qed

lemma ringbuf_new_ok:
  assumes "2 \<le> unat sz" and "unat sz \<le> 2 ^ 30" and m: "\<And>n bs. malloc n = Some bs \<Longrightarrow> length bs = n"
  shows "ringbuf_new malloc sz = Some None
    \<or> (\<exists>r. ringbuf_new malloc sz = Some (Some r) \<and> rb_ok r \<and> rb_contents r = []
        \<and> unat sz \<le> length (rb_buffer r) \<and> length (rb_buffer r) < 2 * unat sz)"
proof -
  have u: "unat (ucast sz :: u32) = unat sz"
    using assms(2) by (simp add: unsigned_ucast_eq take_bit_nat_eq_self)
  then obtain k where k: "0 < k" "k \<le> 30" "align_power2 (ucast sz) = Some (2 ^ k)"
    "unat sz \<le> 2 ^ k" "2 ^ k < 2 * unat sz"
    using align_power2_spec [of "ucast sz"] assms(1,2) by auto
  have "(2::nat) ^ k < 2 ^ 32" using k(2) by (intro power_strict_increasing) auto
  then have "unat (of_nat (2 ^ k) :: u32) = 2 ^ k" by (simp only: unat_of_nat) simp
  then have u2: "unat (2 ^ k :: u32) = 2 ^ k" by simp
  then have u3: "unat (ucast (2 ^ k :: u32) :: size_t) = 2 ^ k" using k(2) by (simp add: unsigned_ucast_eq)
  have g: "\<not> (sz < 2 \<or> UINT_MAX < unat sz)"
    using assms(1,2) by (simp add: word_less_nat_alt UINT_MAX_def)
  show ?thesis
  proof (cases "malloc (2 ^ k)")
    case None
    with g k(3) u2 show ?thesis by (simp add: ringbuf_new_def)
  next
    case (Some bs)
    with m have "length bs = 2 ^ k" by simp
    with Some g k u2 u3 show ?thesis
      by (auto simp: ringbuf_new_def rb_ok_def rb_contents_def intro!: exI [of _ k])
  qed
qed

lemma ringbuf_new_big:
  assumes "2 ^ 30 < unat sz" and "unat sz \<le> UINT_MAX"
  shows "ringbuf_new malloc sz = None"
proof -
  have u: "unat (ucast sz :: u32) = unat sz"
    using assms(2) by (simp add: unsigned_ucast_eq take_bit_nat_eq_self UINT_MAX_def)
  define v where "v = (ucast sz :: u32) - 1"
  have "(1 :: u32) \<le> ucast sz" using assms(1) u by (simp add: word_le_nat_alt)
  then have v: "unat v = unat sz - 1" by (simp add: v_def unat_sub u)
  then have "v \<noteq> 0" using assms(1) by (auto simp: unat_eq_zero [symmetric])
  then have "(2::nat) ^ 30 < 2 ^ fls v" using fls_bounds(3) [of v] v assms(1) by linarith
  then have "30 < fls v" by (rule power_less_imp_less_exp [rotated]) simp
  then have "align_power2 (ucast sz) = None" by (simp add: align_power2_def v_def Let_def)
  moreover have "\<not> (sz < 2 \<or> UINT_MAX < unat sz)" using assms by (simp add: word_less_nat_alt)
  ultimately show ?thesis by (simp add: ringbuf_new_def)
qed

section \<open>Refinement of a bounded queue of bytes\<close>

lemma take_nat_min: "take (nat (min n (int (length xs)))) xs = take (nat n) xs"
  and drop_nat_min: "drop (nat (min n (int (length xs)))) xs = drop (nat n) xs"
  by (simp_all add: min_def)

text \<open>The calls of a client.  The string of a print is what \<^verbatim>\<open>vasprintf\<close> makes of the format (a string of
  2 GB or more makes it fail); \<open>Send k\<close> is a write of which the descriptor takes at most \<open>k\<close> bytes, or
  fails when \<open>k\<close> is negative, and its result \<open>RSent\<close> has the bytes that arrived at the descriptor; \<open>Receive\<close> is a read from a descriptor that has the given bytes, or fails.\<close>

datatype ring_cmd =
    Print bytes
  | Drain size_t
  | Send int
  | Receive "bytes option"
  | Len
  | Avail

datatype ring_out = RInt int | RSize size_t | RSent int bytes

definition take_bytes :: "int \<Rightarrow> bytes \<Rightarrow> bytes \<Rightarrow> int \<times> bytes" where
  "take_bytes n bs w = (let c = min n (int (length bs)) in (c, w @ take (nat c) bs))"

definition ring_exec :: "ring_cmd \<Rightarrow> ringbuf \<Rightarrow> (ring_out \<times> ringbuf) option" where
  "ring_exec k r =
     (let some = map_option (\<lambda>(i, rb). (RInt i, the rb)) in
      case k of
        Print str \<Rightarrow>
          some (ringbuf_vprintf (\<lambda>s. if length s < 2 ^ 31 then Some s else None) (Some r) (Some str))
      | Drain n \<Rightarrow> (case ringbuf_drain (Some r) n of (c, rb) \<Rightarrow> Some (RSize c, the rb))
      | Send n \<Rightarrow>
          map_option (\<lambda>(i, sent, rb). (RSent i sent, the rb)) (ringbuf_write (take_bytes n) (Some r) 3 [])
      | Receive bs \<Rightarrow> some (ringbuf_read (\<lambda>room. map_option (take room) bs) (Some r) 3)
      | Len \<Rightarrow> Some (RSize (ringbuf_len (Some r)), r)
      | Avail \<Rightarrow> Some (RSize (ringbuf_avail (Some r)), r))"

definition fifo_exec :: "nat \<Rightarrow> ring_cmd \<Rightarrow> bytes \<Rightarrow> ring_out \<times> bytes" where
  "fifo_exec cap k xs =
     (let free = cap - length xs in
      case k of
        Print str \<Rightarrow>
          if free = 0 \<or> free < length str \<or> 2 ^ 31 \<le> length str then (RInt (-1), xs)
          else (RInt (int (length str)), xs @ str)
      | Drain n \<Rightarrow> (RSize (of_nat (min (unat n) (length xs))), drop (unat n) xs)
      | Send n \<Rightarrow>
          (RSent (if xs = [] then 0 else max (-1) (min n (int (length xs)))) (take (nat n) xs), drop (nat n) xs)
      | Receive bs \<Rightarrow>
          if free = 0 then (RInt (-1), xs)
          else (case bs of None \<Rightarrow> (RInt (-1), xs)
                | Some b \<Rightarrow> (RInt (int (min (length b) free)), xs @ take free b))
      | Len \<Rightarrow> (RSize (of_nat (length xs)), xs)
      | Avail \<Rightarrow> (RSize (of_nat free), xs))"

definition ring_rep :: "nat \<Rightarrow> ringbuf \<Rightarrow> bytes \<Rightarrow> bool" where
  "ring_rep cap r xs \<longleftrightarrow> rb_ok r \<and> rb_contents r = xs \<and> unat (rb_size r) = cap"

lemma rb_ok_size: "rb_ok r \<Longrightarrow> length (rb_buffer r) = unat (rb_size r)"
  by (simp add: rb_ok_def)

lemma rb_contents_le: "rb_ok r \<Longrightarrow> length (rb_contents r) \<le> unat (rb_size r)"
  by (simp add: rb_ok_def rb_contents_def)

lemma of_nat_unat_eq: "unat w = n \<Longrightarrow> w = of_nat n"
  by auto

interpretation ring_fifo: data_refinement "ring_rep cap" ring_exec "fifo_exec cap" for cap
proof unfold_locales
  fix r xs k assume rep: "ring_rep cap r xs"
  then have ok: "rb_ok r" and xs: "rb_contents r = xs" and cap: "unat (rb_size r) = cap"
    by (simp_all add: ring_rep_def)
  have len: "length (rb_buffer r) = cap" "length xs \<le> cap"
    using rb_ok_size [OF ok] rb_contents_le [OF ok] xs cap by simp_all
  show "\<exists>r'. ring_exec k r = Some (fst (fifo_exec cap k xs), r') \<and> ring_rep cap r' (snd (fifo_exec cap k xs))"
  proof (cases k)
    case (Print str)
    show ?thesis
    proof (cases "cap - length xs = 0 \<or> cap - length xs < length str \<or> 2 ^ 31 \<le> length str")
      case True
      let ?v = "\<lambda>s. if length s < 2 ^ 31 then Some s else None"
      have "ringbuf_vprintf ?v (Some r) (Some str) = Some (-1, Some r)"
      proof (cases "length str < 2 ^ 31")
        case True
        then show ?thesis
          using \<open>cap - length xs = 0 \<or> cap - length xs < length str \<or> 2 ^ 31 \<le> length str\<close> len xs
          by (intro vprintf_full [OF ok, where str = str]) auto
      next
        case False
        then show ?thesis by (simp add: ringbuf_vprintf_def Let_def)
      qed
      with True Print rep show ?thesis by (simp add: ring_exec_def fifo_exec_def Let_def)
    next
      case False
      then have "length (rb_contents r) < length (rb_buffer r)"
        "length (rb_contents r) + length str \<le> length (rb_buffer r)" using len xs by arith+
      with False obtain r' where "ringbuf_vprintf (\<lambda>s. if length s < 2 ^ 31 then Some s else None) (Some r) (Some str)
          = Some (int (length str), Some r')" "rb_ok r'" "rb_contents r' = xs @ str" "rb_size r' = rb_size r"
        using vprintf_fits [OF ok, of "\<lambda>s. if length s < 2 ^ 31 then Some s else None" str str] xs by auto
      with False Print cap show ?thesis by (simp add: ring_exec_def fifo_exec_def ring_rep_def Let_def)
    qed
  next
    case (Drain n)
    with drain_contents [OF ok, of n] xs cap show ?thesis
      by (auto simp: ring_exec_def fifo_exec_def ring_rep_def Let_def)
  next
    case (Send n)
    obtain r' where "ringbuf_write (take_bytes n) (Some r) 3 []
        = Some (if xs = [] then (0, [], Some r') else (max (-1) (min n (int (length xs))), take (nat n) xs, Some r'))"
      "rb_ok r'" "rb_contents r' = drop (nat n) xs" "rb_size r' = rb_size r"
      using write_contents [OF ok, of 3 "take_bytes n" "[]" "min n (int (length xs))" "take (nat n) xs"] xs
      by (auto simp: take_bytes_def Let_def take_nat_min drop_nat_min)
    with Send cap show ?thesis
      by (auto simp: ring_exec_def fifo_exec_def ring_rep_def)
  next
    case (Receive bs)
    with read_contents [OF ok, of 3 "\<lambda>room. map_option (take room) bs"] xs cap len show ?thesis
      by (cases bs) (auto simp: ring_exec_def fifo_exec_def ring_rep_def Let_def min.commute)
  next
    case Len
    with rb_len [OF ok] rep xs show ?thesis
      by (auto simp: ring_exec_def fifo_exec_def Let_def intro: of_nat_unat_eq)
  next
    case Avail
    have "ringbuf_avail (Some r) = of_nat (cap - length xs)"
      using rb_avail [OF ok] xs len by (intro of_nat_unat_eq) simp
    with Avail rep show ?thesis by (simp add: ring_exec_def fifo_exec_def Let_def del: of_nat_diff)
  qed
qed

section \<open>Properties\<close>

text \<open>C15.  The ring buffer implements a bounded queue of bytes: whatever the counters (they may wrap
  around \<^verbatim>\<open>size_t\<close>), every sequence of prints, drains, writes to and reads from a descriptor succeeds
  without an access outside the buffer, returns exactly what a queue of the buffer's capacity
  returns, refusing what does not fit, and each write sends the oldest bytes of this queue in
  first-in first-out order.\<close>

theorem ringbuf_refines_fifo:
  assumes "rb_ok r"
  shows "\<exists>r'. run_cmds ring_exec ks r
      = Some (fst (run_abs (fifo_exec (unat (rb_size r))) ks (rb_contents r)), r') \<and> rb_ok r'
    \<and> rb_contents r' = snd (run_abs (fifo_exec (unat (rb_size r))) ks (rb_contents r))"
  using ring_fifo.run_refines [of "unat (rb_size r)" r "rb_contents r" ks] assms
  by (auto simp: ring_rep_def)

definition wrapped_ring :: ringbuf where
  "wrapped_ring = \<lparr>rb_buffer = replicate 4 0, rb_size = 4, rb_in = 1, rb_out = - 1, rb_tracing = False,
     rb_trace = []\<rparr>"

lemma ring_get_replicate: "0 < n \<Longrightarrow> ring_get (replicate n x) off m = replicate m x"
  by (rule nth_equalityI) simp_all

lemma wrapped_ring_ok: "rb_ok wrapped_ring" "rb_contents wrapped_ring = replicate 2 0"
  "unat (rb_size wrapped_ring) = 4"
  by (simp_all add: wrapped_ring_def rb_ok_def rb_contents_def ring_get_replicate exI [of _ 2])

theorem ringbuf_refines_fifo_witness:
  "\<exists>r'. run_cmds ring_exec [Drain 2, Print [1, 2, 3], Send 1, Print [4, 5, 6], Print [7], Send 9] wrapped_ring
     = Some ([RSize 2, RInt 3, RSent 1 [1], RInt (-1), RInt 1, RSent 3 [2, 3, 7]], r')"
  using ringbuf_refines_fifo [OF wrapped_ring_ok(1),
      of "[Drain 2, Print [1, 2, 3], Send 1, Print [4, 5, 6], Print [7], Send 9]"]
  by (auto simp: wrapped_ring_ok(2,3) fifo_exec_def Let_def)

text \<open>\<^verbatim>\<open>ringbuf_new\<close> with a size from 2 to 2^30 returns NULL when memory is short, and otherwise an
  empty ring buffer whose capacity is the next power of two: at least the size asked for and less
  than twice it.  The larger sizes that its guard lets through, up to \<^verbatim>\<open>UINT_MAX\<close>, make the shift in
  \<^verbatim>\<open>align_power2\<close> overflow, which is undefined.\<close>

theorem ringbuf_new_capacity:
  assumes "2 \<le> unat sz" and "unat sz \<le> 2 ^ 30" and "\<forall>n bs. malloc n = Some bs \<longrightarrow> length bs = n"
  shows "(ringbuf_new malloc sz = Some None
      \<or> (\<exists>r. ringbuf_new malloc sz = Some (Some r) \<and> rb_ok r \<and> rb_contents r = []
          \<and> unat sz \<le> unat (ringbuf_capacity (Some r)) \<and> unat (ringbuf_capacity (Some r)) < 2 * unat sz))
    \<and> (\<forall>big. 2 ^ 30 < unat big \<and> unat big \<le> UINT_MAX \<longrightarrow> ringbuf_new malloc big = None)"
proof (rule conjI)
  show "ringbuf_new malloc sz = Some None
      \<or> (\<exists>r. ringbuf_new malloc sz = Some (Some r) \<and> rb_ok r \<and> rb_contents r = []
          \<and> unat sz \<le> unat (ringbuf_capacity (Some r)) \<and> unat (ringbuf_capacity (Some r)) < 2 * unat sz)"
    using ringbuf_new_ok [OF assms(1,2), of malloc] assms(3)
    by (fastforce simp: ringbuf_capacity_def rb_ok_size)
qed (blast intro: ringbuf_new_big)

theorem ringbuf_new_capacity_witness:
  "\<exists>r. ringbuf_new (\<lambda>n. Some (replicate n 0)) 100 = Some (Some r) \<and> rb_ok r
     \<and> unat (ringbuf_capacity (Some r)) \<in> {100..<200}"
proof -
  have "ringbuf_new (\<lambda>n. Some (replicate n 0)) 100 \<noteq> Some None"
    by (simp add: ringbuf_new_def UINT_MAX_def bind_eq_Some_conv)
  with ringbuf_new_capacity [of 100 "\<lambda>n. Some (replicate n 0)"] show ?thesis by auto
qed

end
