(* ===== verification/Cstring.thy ===== *)
theory Cstring
  imports Prelude
begin

text \<open>
  The functions of the C library on strings that the Bluetooth code uses, for base 16: \<^verbatim>\<open>isxdigit\<close>,
  \<^verbatim>\<open>strtol(s, &end, 16)\<close>, the \<^verbatim>\<open>sscanf\<close> conversions \<^verbatim>\<open>%<w>x\<close> and \<^verbatim>\<open>%1[..]\<close> with literal text, and the
  \<^verbatim>\<open>printf\<close> conversions \<^verbatim>\<open>%.<n>x\<close> and \<^verbatim>\<open>%2.2X\<close>.  A C string is the list of its characters before the
  terminator.
\<close>

section \<open>Hexadecimal digits\<close>

definition isspace :: "char \<Rightarrow> bool" where
  "isspace c \<longleftrightarrow> of_char c = (32 :: nat) \<or> of_char c \<in> {9 .. 13 :: nat}"

definition xdigit :: "char \<Rightarrow> nat option" where
  "xdigit c =
     (let n = of_char c :: nat in
      if 48 \<le> n \<and> n \<le> 57 then Some (n - 48)
      else if 65 \<le> n \<and> n \<le> 70 then Some (n - 55)
      else if 97 \<le> n \<and> n \<le> 102 then Some (n - 87)
      else None)"

definition isxdigit :: "char \<Rightarrow> bool" where
  "isxdigit c \<longleftrightarrow> xdigit c \<noteq> None"

text \<open>The value of a string of digits.\<close>

definition hex_value :: "string \<Rightarrow> nat" where
  "hex_value s = foldl (\<lambda>n c. 16 * n + (case xdigit c of None \<Rightarrow> 0 | Some d \<Rightarrow> d)) 0 s"

definition hex_digit :: "nat \<Rightarrow> char" where
  "hex_digit d = ''0123456789abcdef'' ! d"

definition hex_digit_upper :: "nat \<Rightarrow> char" where
  "hex_digit_upper d = ''0123456789ABCDEF'' ! d"

text \<open>The last \<open>k\<close> digits of \<open>v\<close>: \<^verbatim>\<open>%.kx\<close> for a value below 16^k.\<close>

fun hexs :: "nat \<Rightarrow> nat \<Rightarrow> string" where
  "hexs 0 v = []"
| "hexs (Suc k) v = hexs k (v div 16) @ [hex_digit (v mod 16)]"

fun hexs_upper :: "nat \<Rightarrow> nat \<Rightarrow> string" where
  "hexs_upper 0 v = []"
| "hexs_upper (Suc k) v = hexs_upper k (v div 16) @ [hex_digit_upper (v mod 16)]"

section \<open>Reading numbers\<close>

text \<open>What \<^verbatim>\<open>strtol\<close> and \<^verbatim>\<open>%x\<close> read: white space, a sign, the prefix 0x, digits; the last three count
  toward the width.  The result is the sign, the digits and the rest; \<open>None\<close> when there is no digit.\<close>

definition skip_sign :: "string \<Rightarrow> bool \<times> string" where
  "skip_sign s = (case s of c # cs \<Rightarrow> if c = CHR ''-'' then (True, cs)
     else if c = CHR ''+'' then (False, cs) else (False, s) | [] \<Rightarrow> (False, []))"

definition has_0x :: "string \<Rightarrow> bool" where
  "has_0x s \<longleftrightarrow> take 2 s = ''0x'' \<or> take 2 s = ''0X''"

text \<open>\<^verbatim>\<open>%<w>x\<close>: a prefix 0x with no digit after it is a matching failure.\<close>

definition scan_hex :: "nat \<Rightarrow> string \<Rightarrow> (int \<times> string) option" where
  "scan_hex w s =
     (let s1 = dropWhile isspace s;
          (neg, s2) = skip_sign s1;
          w2 = w - (length s1 - length s2);
          (s3, w3) = (if 2 \<le> w2 \<and> has_0x s2 then (drop 2 s2, w2 - 2) else (s2, w2));
          ds = takeWhile isxdigit (take w3 s3)
      in if ds = [] then None
         else Some (if neg then - int (hex_value ds) else int (hex_value ds), drop (length ds) s3))"

definition LONG_MAX :: int where "LONG_MAX = 2 ^ 63 - 1"

text \<open>\<^verbatim>\<open>strtol\<close>: a prefix 0x with no digit after it is read as the digit 0.  The second result is
  \<^verbatim>\<open>*endptr\<close> as the rest of the string.\<close>

definition strtol16 :: "string \<Rightarrow> int \<times> string" where
  "strtol16 s =
     (let s1 = dropWhile isspace s;
          (neg, s2) = skip_sign s1;
          s3 = (if has_0x s2 \<and> (case drop 2 s2 of [] \<Rightarrow> False | c # _ \<Rightarrow> isxdigit c) then drop 2 s2 else s2);
          ds = takeWhile isxdigit s3;
          v = int (hex_value ds)
      in if ds = [] then (0, s)
         else (if neg then max (- v) (- LONG_MAX - 1) else min v LONG_MAX, drop (length ds) s3))"

text \<open>Literal characters of a format, and \<^verbatim>\<open>%1[..]\<close>.\<close>

definition match_lit :: "string \<Rightarrow> string \<Rightarrow> string option" where
  "match_lit lit s = (if take (length lit) s = lit then Some (drop (length lit) s) else None)"

definition scan_set1 :: "char list \<Rightarrow> string \<Rightarrow> string option" where
  "scan_set1 cset s = (case s of [] \<Rightarrow> None | c # cs \<Rightarrow> if c \<in> set cset then Some cs else None)"

text \<open>\<^verbatim>\<open>snprintf(str, n, ..)\<close>: the string left in \<open>str\<close>, or \<open>None\<close> when \<open>n\<close> is 0 and nothing is written.\<close>

definition snprintf :: "nat \<Rightarrow> string \<Rightarrow> string option" where
  "snprintf n s = (if n = 0 then None else Some (take (n - 1) s))"

section \<open>Facts\<close>

lemma hex_digit_table:
  "\<forall>d\<in>set [0..<16]. xdigit (hex_digit d) = Some d \<and> xdigit (hex_digit_upper d) = Some d"
  by code_simp

lemma xdigit_hex_digit [simp]:
  "d < 16 \<Longrightarrow> xdigit (hex_digit d) = Some d" "d < 16 \<Longrightarrow> xdigit (hex_digit_upper d) = Some d"
  using hex_digit_table by auto

text \<open>A digit is neither white space nor a sign nor the x of a prefix.\<close>

lemma isxdigit_other:
  assumes "isxdigit c"
  shows "\<not> isspace c" "c \<noteq> CHR ''-''" "c \<noteq> CHR ''+''" "c \<noteq> CHR ''x''" "c \<noteq> CHR ''X''" "c \<noteq> CHR '':''"
  using assms by (auto simp: isxdigit_def xdigit_def isspace_def Let_def split: if_splits)

lemma isxdigit_hexs: "set (hexs k v) \<subseteq> Collect isxdigit" "set (hexs_upper k v) \<subseteq> Collect isxdigit"
  by (induction k arbitrary: v) (auto simp: isxdigit_def)

lemma length_hexs [simp]: "length (hexs k v) = k" "length (hexs_upper k v) = k"
  by (induction k arbitrary: v) auto

lemma hexs_numeral: "hexs (numeral k) v = hexs (pred_numeral k) (v div 16) @ [hex_digit (v mod 16)]"
  by (subst numeral_eq_Suc) (rule hexs.simps)

lemma hex_value_snoc: "hex_value (s @ [c]) = 16 * hex_value s + (case xdigit c of None \<Rightarrow> 0 | Some d \<Rightarrow> d)"
  by (simp add: hex_value_def)

lemma hex_value_both: "hex_value (hexs k v) = v mod 16 ^ k \<and> hex_value (hexs_upper k v) = v mod 16 ^ k"
proof (induction k arbitrary: v)
  case (Suc k)
  have "16 * (v div 16 mod 16 ^ k) + v mod 16 = v mod 16 ^ Suc k"
    using mod_mult2_eq [of v 16 "16 ^ k"] by simp
  with Suc show ?case by (simp add: hex_value_snoc)
qed (simp add: hex_value_def)

lemmas hex_value_hexs = hex_value_both [THEN conjunct1] hex_value_both [THEN conjunct2]

lemma hexs_append: "hexs (j + k) v = hexs j (v div 16 ^ k) @ hexs k v"
  by (induction k arbitrary: v) (simp_all add: div_mult2_eq mult.commute)

lemma hexs_mod: "hexs k (v mod 16 ^ k) = hexs k v"
proof (induction k arbitrary: v)
  case (Suc k)
  have "v mod 16 ^ Suc k = 16 * (v div 16 mod 16 ^ k) + v mod 16"
    using mod_mult2_eq [of v 16 "16 ^ k"] by simp
  then have "v mod 16 ^ Suc k div 16 = v div 16 mod 16 ^ k" "v mod 16 ^ Suc k mod 16 = v mod 16" by simp_all
  then show ?case using Suc by simp
qed simp

text \<open>A number of \<open>w\<close> digits that ends at a character that is no digit, or exactly at the width.\<close>

lemma dropWhile_head: "s \<noteq> [] \<Longrightarrow> \<not> P (hd s) \<Longrightarrow> dropWhile P s = s"
  by (cases s) auto

lemma skip_sign_digits: "s \<noteq> [] \<Longrightarrow> isxdigit (hd s) \<Longrightarrow> skip_sign s = (False, s)"
  by (cases s) (auto simp: skip_sign_def dest: isxdigit_other)

lemma takeWhile_take_digits:
  assumes "set ds \<subseteq> Collect isxdigit" and "length ds = w"
  shows "takeWhile isxdigit (take w (ds @ rest)) = ds"
  using assms by (auto simp: takeWhile_eq_all_conv)

lemma scan_hex_digits:
  assumes ds: "set ds \<subseteq> Collect isxdigit" "length ds = w" "2 \<le> w"
  shows "scan_hex w (ds @ rest) = Some (int (hex_value ds), rest)"
proof -
  obtain c d es where e: "ds = c # d # es"
    using ds(2,3) by (cases ds; cases "tl ds") auto
  then have cd: "isxdigit c" "isxdigit d" using ds(1) by auto
  have ws: "dropWhile isspace (ds @ rest) = ds @ rest"
    using cd e by (auto dest: isxdigit_other)
  have "\<not> has_0x (ds @ rest)" using cd e by (auto simp: has_0x_def dest: isxdigit_other)
  moreover have "skip_sign (ds @ rest) = (False, ds @ rest)"
    using cd e by (intro skip_sign_digits) auto
  ultimately show ?thesis
    using ws takeWhile_take_digits [OF ds(1,2), of rest] e
    by (simp add: scan_hex_def)
qed

lemma strtol16_digits:
  assumes ds: "set ds \<subseteq> Collect isxdigit" "2 \<le> length ds" "length ds \<le> 15"
    and rest: "rest = [] \<or> \<not> isxdigit (hd rest)"
  shows "strtol16 (ds @ rest) = (int (hex_value ds), rest)"
proof -
  obtain c d es where e: "ds = c # d # es"
    using ds(2) by (cases ds; cases "tl ds") auto
  then have cd: "isxdigit c" "isxdigit d" using ds(1) by auto
  have ws: "dropWhile isspace (ds @ rest) = ds @ rest"
    using cd e by (auto dest: isxdigit_other)
  have "\<not> has_0x (ds @ rest)" using cd e by (auto simp: has_0x_def dest: isxdigit_other)
  moreover have "skip_sign (ds @ rest) = (False, ds @ rest)"
    using cd e by (intro skip_sign_digits) auto
  moreover have "takeWhile isxdigit (ds @ rest) = ds"
    using ds(1) rest by (cases rest) (auto simp: takeWhile_append2 takeWhile_eq_all_conv subset_eq)
  moreover have "hex_value s < 16 ^ length s" for s
  proof (induction s rule: rev_induct)
    case (snoc c s)
    have "(case xdigit c of None \<Rightarrow> 0 | Some d \<Rightarrow> d) < 16"
      by (auto simp: xdigit_def Let_def)
    with snoc show ?case by (simp add: hex_value_snoc)
  qed (simp add: hex_value_def)
  then have "hex_value ds < 16 ^ length ds" .
  moreover have "(16::nat) ^ length ds \<le> 16 ^ 15" using ds(3) by (intro power_increasing) auto
  ultimately show ?thesis using ws e by (simp add: strtol16_def LONG_MAX_def)
qed

end
