(* ===== verification/Bt_Uuid.thy ===== *)
theory Bt_Uuid
  imports Cstring
begin

text \<open>
  Bluetooth UUIDs, \<^verbatim>\<open>bluez5/lib/uuid.c\<close> and \<^verbatim>\<open>uuid.h\<close>: conversion to 128 bits over the Bluetooth base
  UUID, comparison, printing, parsing and the little-endian form used on the air.  The tagged union
  \<^verbatim>\<open>bt_uuid_t\<close> is a datatype; a 128-bit value is the list of its 16 bytes, most significant first.
\<close>

section \<open>Definitions\<close>

datatype bt_uuid_t = BT_UUID_UNSPEC | BT_UUID16 u16 | BT_UUID32 u32 | BT_UUID128 bytes

definition bluetooth_base_uuid :: bytes where
  "bluetooth_base_uuid = [0x00, 0x00, 0x00, 0x00, 0x00, 0x00, 0x10, 0x00,
     0x80, 0x00, 0x00, 0x80, 0x5F, 0x9B, 0x34, 0xFB]"

definition BASE_UUID16_OFFSET :: nat where "BASE_UUID16_OFFSET = 2"
definition BASE_UUID32_OFFSET :: nat where "BASE_UUID32_OFFSET = 0"

definition EINVAL :: int where "EINVAL = 22"

definition bt_uuid16_to_uuid128 :: "u16 \<Rightarrow> bt_uuid_t option" where
  "bt_uuid16_to_uuid128 v =
     map_option BT_UUID128 (mem_write bluetooth_base_uuid BASE_UUID16_OFFSET (be16 v))"

definition bt_uuid32_to_uuid128 :: "u32 \<Rightarrow> bt_uuid_t option" where
  "bt_uuid32_to_uuid128 v =
     map_option BT_UUID128 (mem_write bluetooth_base_uuid BASE_UUID32_OFFSET (be32 v))"

text \<open>The new value of \<^verbatim>\<open>*dst\<close>, which is left as it was for an unspecified UUID.\<close>

definition bt_uuid_to_uuid128 :: "bt_uuid_t \<Rightarrow> bt_uuid_t \<Rightarrow> bt_uuid_t option" where
  "bt_uuid_to_uuid128 src dst =
     (case src of
        BT_UUID128 b \<Rightarrow> Some src
      | BT_UUID32 v \<Rightarrow> bt_uuid32_to_uuid128 v
      | BT_UUID16 v \<Rightarrow> bt_uuid16_to_uuid128 v
      | BT_UUID_UNSPEC \<Rightarrow> Some dst)"

text \<open>The sign of \<^verbatim>\<open>memcmp\<close>.\<close>

fun memcmp :: "bytes \<Rightarrow> bytes \<Rightarrow> int" where
  "memcmp (x # xs) (y # ys) = (if x < y then -1 else if y < x then 1 else memcmp xs ys)"
| "memcmp _ _ = 0"

text \<open>Comparing anything but two 128-bit values reads memory that was not set.\<close>

fun bt_uuid128_cmp :: "bt_uuid_t \<Rightarrow> bt_uuid_t \<Rightarrow> int option" where
  "bt_uuid128_cmp (BT_UUID128 a) (BT_UUID128 b) = Some (memcmp a b)"
| "bt_uuid128_cmp _ _ = None"

definition bt_uuid16_create :: "u16 \<Rightarrow> bt_uuid_t" where
  "bt_uuid16_create v = BT_UUID16 v"

definition bt_uuid32_create :: "u32 \<Rightarrow> bt_uuid_t" where
  "bt_uuid32_create v = BT_UUID32 v"

definition bt_uuid128_create :: "bytes \<Rightarrow> bt_uuid_t" where
  "bt_uuid128_create b = BT_UUID128 b"

text \<open>The local variables start without a value, here \<open>BT_UUID_UNSPEC\<close>.\<close>

definition bt_uuid_cmp :: "bt_uuid_t \<Rightarrow> bt_uuid_t \<Rightarrow> int option" where
  "bt_uuid_cmp uuid1 uuid2 = do {
     u1 \<leftarrow> bt_uuid_to_uuid128 uuid1 BT_UUID_UNSPEC;
     u2 \<leftarrow> bt_uuid_to_uuid128 uuid2 BT_UUID_UNSPEC;
     bt_uuid128_cmp u1 u2
   }"

text \<open>The format \<^verbatim>\<open>"%.8x-%.4x-%.4x-%.4x-%.8x%.4x"\<close> of the fields of a 128-bit value.\<close>

definition uuid128_text :: "bytes \<Rightarrow> string" where
  "uuid128_text data =
     hexs 8 (unat (be32_of (take 4 data))) @ ''-''
     @ hexs 4 (unat (be16_of (take 2 (drop 4 data)))) @ ''-''
     @ hexs 4 (unat (be16_of (take 2 (drop 6 data)))) @ ''-''
     @ hexs 4 (unat (be16_of (take 2 (drop 8 data)))) @ ''-''
     @ hexs 8 (unat (be32_of (take 4 (drop 10 data))))
     @ hexs 4 (unat (be16_of (take 2 (drop 14 data))))"

text \<open>The return value and what is in \<^verbatim>\<open>str\<close> afterwards; \<open>None\<close> for \<^verbatim>\<open>uuid\<close> is NULL.\<close>

definition bt_uuid_to_string :: "bt_uuid_t option \<Rightarrow> nat \<Rightarrow> (int \<times> string option) option" where
  "bt_uuid_to_string uuid n =
     (if uuid = None \<or> uuid = Some BT_UUID_UNSPEC then Some (- EINVAL, snprintf n ''NULL'')
      else do {
        u \<leftarrow> uuid;
        tmp \<leftarrow> bt_uuid_to_uuid128 u BT_UUID_UNSPEC;
        (case tmp of
           BT_UUID128 data \<Rightarrow> Some (0, snprintf n (uuid128_text data))
         | _ \<Rightarrow> None)
      })"

definition is_uuid128 :: "string \<Rightarrow> bool" where
  "is_uuid128 s \<longleftrightarrow> length s = 36 \<and> s ! 8 = CHR ''-'' \<and> s ! 13 = CHR ''-'' \<and> s ! 18 = CHR ''-''
     \<and> s ! 23 = CHR ''-''"

text \<open>The conversions of \<^verbatim>\<open>"0000%04hx-0000-1000-8000-00805%1[fF]9%1[bB]34%1[fF]%1[bB]"\<close> all succeed.\<close>

definition scan_base :: "string \<Rightarrow> string option" where
  "scan_base s = do {
     s1 \<leftarrow> match_lit ''0000'' s;
     (_, s2) \<leftarrow> scan_hex 4 s1;
     s3 \<leftarrow> match_lit ''-0000-1000-8000-00805'' s2;
     s4 \<leftarrow> scan_set1 ''fF'' s3;
     s5 \<leftarrow> match_lit ''9'' s4;
     s6 \<leftarrow> scan_set1 ''bB'' s5;
     s7 \<leftarrow> match_lit ''34'' s6;
     s8 \<leftarrow> scan_set1 ''fF'' s7;
     scan_set1 ''bB'' s8
   }"

definition is_base_uuid128 :: "string \<Rightarrow> bool" where
  "is_base_uuid128 s \<longleftrightarrow> is_uuid128 s \<and> scan_base s \<noteq> None"

definition is_uuid32 :: "string \<Rightarrow> bool" where
  "is_uuid32 s \<longleftrightarrow> length s = 8 \<or> length s = 10"

definition is_uuid16 :: "string \<Rightarrow> bool" where
  "is_uuid16 s \<longleftrightarrow> length s = 4 \<or> length s = 6"

text \<open>The return value and the new value of \<^verbatim>\<open>*uuid\<close>, \<open>None\<close> when it is not written.\<close>

definition bt_string_to_uuid16 :: "string \<Rightarrow> int \<times> bt_uuid_t option" where
  "bt_string_to_uuid16 s =
     (let (v, endptr) = strtol16 s
      in if endptr = [] \<or> hd endptr = CHR ''-'' then (0, Some (bt_uuid16_create (word_of_int v)))
         else (- EINVAL, None))"

definition bt_string_to_uuid32 :: "string \<Rightarrow> int \<times> bt_uuid_t option" where
  "bt_string_to_uuid32 s =
     (let (v, endptr) = strtol16 s
      in if endptr = [] then (0, Some (bt_uuid32_create (word_of_int v))) else (- EINVAL, None))"

definition scan_uuid128 :: "string \<Rightarrow> (u32 \<times> u16 \<times> u16 \<times> u16 \<times> u32 \<times> u16) option" where
  "scan_uuid128 s = do {
     (data0, s0) \<leftarrow> scan_hex 8 s;
     s0' \<leftarrow> match_lit ''-'' s0;
     (data1, s1) \<leftarrow> scan_hex 4 s0';
     s1' \<leftarrow> match_lit ''-'' s1;
     (data2, s2) \<leftarrow> scan_hex 4 s1';
     s2' \<leftarrow> match_lit ''-'' s2;
     (data3, s3) \<leftarrow> scan_hex 4 s2';
     s3' \<leftarrow> match_lit ''-'' s3;
     (data4, s4) \<leftarrow> scan_hex 8 s3';
     (data5, s5) \<leftarrow> scan_hex 4 s4;
     Some (word_of_int data0, word_of_int data1, word_of_int data2, word_of_int data3,
       word_of_int data4, word_of_int data5)
   }"

definition bt_string_to_uuid128 :: "string \<Rightarrow> int \<times> bt_uuid_t option" where
  "bt_string_to_uuid128 s =
     (case scan_uuid128 s of
        None \<Rightarrow> (- EINVAL, None)
      | Some (data0, data1, data2, data3, data4, data5) \<Rightarrow>
          (0, Some (bt_uuid128_create
            (be32 data0 @ be16 data1 @ be16 data2 @ be16 data3 @ be32 data4 @ be16 data5))))"

definition bt_string_to_uuid :: "string \<Rightarrow> int \<times> bt_uuid_t option" where
  "bt_string_to_uuid s =
     (if is_base_uuid128 s then bt_string_to_uuid16 (drop 4 s)
      else if is_uuid128 s then bt_string_to_uuid128 s
      else if is_uuid32 s then bt_string_to_uuid32 s
      else if is_uuid16 s then bt_string_to_uuid16 s
      else (- EINVAL, None))"

definition bt_uuid_strcmp :: "string \<Rightarrow> string \<Rightarrow> int option" where
  "bt_uuid_strcmp a b =
     (case bt_string_to_uuid a of
        (r1, u1) \<Rightarrow> if r1 < 0 then Some (- EINVAL)
        else (case bt_string_to_uuid b of
          (r2, u2) \<Rightarrow> if r2 < 0 then Some (- EINVAL)
          else do { v1 \<leftarrow> u1; v2 \<leftarrow> u2; bt_uuid_cmp v1 v2 }))"

text \<open>\<^verbatim>\<open>bswap_128\<close> of \<^verbatim>\<open>lib/bluetooth.h\<close> on 16 bytes.\<close>

definition bswap_128 :: "bytes \<Rightarrow> bytes option" where
  "bswap_128 s = (if length s < 16 then None else Some (rev (take 16 s)))"

definition bt_uuid_to_le :: "bt_uuid_t \<Rightarrow> bytes \<Rightarrow> (int \<times> bytes) option" where
  "bt_uuid_to_le src dst =
     (case src of
        BT_UUID16 v \<Rightarrow> map_option (\<lambda>d. (0, d)) (mem_write dst 0 (le16 v))
      | BT_UUID32 v \<Rightarrow> do {
          u \<leftarrow> bt_uuid32_to_uuid128 v;
          b \<leftarrow> (case u of BT_UUID128 b \<Rightarrow> Some b | _ \<Rightarrow> None);
          le \<leftarrow> bswap_128 b;
          map_option (\<lambda>d. (0, d)) (mem_write dst 0 le)
        }
      | BT_UUID128 b \<Rightarrow> do {
          le \<leftarrow> bswap_128 b;
          map_option (\<lambda>d. (0, d)) (mem_write dst 0 le)
        }
      | BT_UUID_UNSPEC \<Rightarrow> Some (- EINVAL, dst))"

definition bt_uuid_len :: "bt_uuid_t \<Rightarrow> int" where
  "bt_uuid_len u = (case u of BT_UUID_UNSPEC \<Rightarrow> 0 div 8 | BT_UUID16 _ \<Rightarrow> 16 div 8
     | BT_UUID32 _ \<Rightarrow> 32 div 8 | BT_UUID128 _ \<Rightarrow> 128 div 8)"

section \<open>Conversion and comparison\<close>

text \<open>A UUID is well formed when a 128-bit value has its 16 bytes; \<open>u128\<close> is the value it stands for.\<close>

fun uuid_ok :: "bt_uuid_t \<Rightarrow> bool" where
  "uuid_ok BT_UUID_UNSPEC = False"
| "uuid_ok (BT_UUID16 _) = True"
| "uuid_ok (BT_UUID32 _) = True"
| "uuid_ok (BT_UUID128 b) = (length b = 16)"

fun u128 :: "bt_uuid_t \<Rightarrow> bytes" where
  "u128 (BT_UUID16 v) = [0, 0] @ be16 v @ drop 4 bluetooth_base_uuid"
| "u128 (BT_UUID32 v) = be32 v @ drop 4 bluetooth_base_uuid"
| "u128 (BT_UUID128 b) = b"
| "u128 BT_UUID_UNSPEC = []"

lemma length_u128: "uuid_ok u \<Longrightarrow> length (u128 u) = 16"
  by (cases u) (simp_all add: bluetooth_base_uuid_def)

lemma to_uuid128_u128: "uuid_ok u \<Longrightarrow> bt_uuid_to_uuid128 u dst = Some (BT_UUID128 (u128 u))"
  by (cases u) (simp_all add: bt_uuid_to_uuid128_def bt_uuid16_to_uuid128_def bt_uuid32_to_uuid128_def
      bluetooth_base_uuid_def BASE_UUID16_OFFSET_def BASE_UUID32_OFFSET_def mem_write_def
      numeral_eq_Suc)

lemma u128_inj:
  "u128 (BT_UUID16 v) = u128 (BT_UUID16 v') \<longleftrightarrow> v = v'"
  "u128 (BT_UUID32 v32) = u128 (BT_UUID32 v32') \<longleftrightarrow> v32 = v32'"
  by (auto dest: arg_cong [where f = be16_of] arg_cong [where f = be32_of])
    (metis append_Nil2 be16_of_be16, metis append_Nil2 be32_of_be32)

lemma memcmp_eq: "length a = length b \<Longrightarrow> memcmp a b = 0 \<longleftrightarrow> a = b"
  by (induction a b rule: memcmp.induct) (auto simp: not_less dest: order.antisym)

lemma memcmp_swap: "memcmp a b = - memcmp b a"
  by (induction a b rule: memcmp.induct) (auto dest: order.asym)

lemma memcmp_trans:
  "memcmp a b \<le> 0 \<Longrightarrow> memcmp b c \<le> 0 \<Longrightarrow> length a = length b \<Longrightarrow> length b = length c \<Longrightarrow> memcmp a c \<le> 0"
proof (induction a b arbitrary: c rule: memcmp.induct)
  case (1 x xs y ys)
  then obtain z zs where c: "c = z # zs" by (cases c) auto
  from 1 c show ?case by (auto split: if_splits dest: order.strict_trans order.asym)
qed auto

section \<open>Printing and parsing\<close>

lemma scan_hexs: "2 \<le> w \<Longrightarrow> scan_hex w (hexs w v @ rest) = Some (int (v mod 16 ^ w), rest)"
  using scan_hex_digits [OF isxdigit_hexs(1) length_hexs(1)] by (simp add: hex_value_hexs)

lemma match_lit_append [simp]: "match_lit lit (lit @ rest) = Some rest"
  by (simp add: match_lit_def)

lemma match_lit_Some: "match_lit lit s = Some rest \<longleftrightarrow> s = lit @ rest"
  by (auto simp: match_lit_def) (metis append_take_drop_id)

lemma unat_u32_mod: "unat (x :: u32) mod 16 ^ 8 = unat x"
  using unsigned_less [of x, where ?'a = nat] by simp

lemma unat_u16_mod: "unat (x :: u16) mod 16 ^ 4 = unat x"
  using unsigned_less [of x, where ?'a = nat] by simp

lemma scan_hexs_u32: "scan_hex 8 (hexs 8 (unat (x :: u32)) @ rest) = Some (uint x, rest)"
  by (subst scan_hexs) (simp_all only: unat_u32_mod, simp_all)

lemma scan_hexs_u16: "scan_hex 4 (hexs 4 (unat (x :: u16)) @ rest) = Some (uint x, rest)"
  by (subst scan_hexs) (simp_all only: unat_u16_mod, simp_all)

lemma match_dash: "match_lit ''-'' (''-'' @ rest) = Some rest"
  by (rule match_lit_append)

lemma bytes16_split:
  assumes "length b = 16"
  shows "be32 (be32_of (take 4 b)) @ be16 (be16_of (take 2 (drop 4 b)))
    @ be16 (be16_of (take 2 (drop 6 b))) @ be16 (be16_of (take 2 (drop 8 b)))
    @ be32 (be32_of (take 4 (drop 10 b))) @ be16 (be16_of (take 2 (drop 14 b))) = b"
proof -
  have d: "take n (drop k b) @ drop (k + n) b = drop k b" for n k
    by (metis append_take_drop_id drop_drop add.commute)
  have "take 2 (drop 14 b) = drop 14 b" using assms by simp
  then show ?thesis
    using assms d [of 2 4] d [of 2 6] d [of 2 8] d [of 4 10]
    by (simp add: be32_be32_of be16_be16_of)
qed

lemma parse_uuid128_text:
  assumes "length b = 16"
  shows "bt_string_to_uuid128 (uuid128_text b) = (0, Some (BT_UUID128 b))"
proof -
  have "scan_hex 4 (hexs 4 (unat (x :: u16))) = Some (uint x, [])" for x
    using scan_hexs_u16 [of x "[]"] by simp
  then have "scan_uuid128 (uuid128_text b) =
      Some (be32_of (take 4 b), be16_of (take 2 (drop 4 b)), be16_of (take 2 (drop 6 b)),
        be16_of (take 2 (drop 8 b)), be32_of (take 4 (drop 10 b)), be16_of (take 2 (drop 14 b)))"
    unfolding scan_uuid128_def uuid128_text_def
    by (simp only: append_assoc scan_hexs_u32 scan_hexs_u16 match_dash Option.bind.simps prod.case) simp
  then show ?thesis
    using bytes16_split [OF assms] by (simp add: bt_string_to_uuid128_def bt_uuid128_create_def)
qed

lemma uuid128_text_inj: "length a = 16 \<Longrightarrow> length b = 16 \<Longrightarrow> uuid128_text a = uuid128_text b \<Longrightarrow> a = b"
  by (metis parse_uuid128_text prod.inject option.inject bt_uuid_t.inject(3))

lemma is_uuid128_shape:
  "length A = 8 \<Longrightarrow> length B = 4 \<Longrightarrow> length C = 4 \<Longrightarrow> length D = 4 \<Longrightarrow> length E = 12 \<Longrightarrow>
     is_uuid128 (A @ ''-'' @ B @ ''-'' @ C @ ''-'' @ D @ ''-'' @ E)"
  by (simp add: is_uuid128_def nth_append)

lemma is_uuid128_text: "is_uuid128 (uuid128_text b)"
  unfolding uuid128_text_def by (rule is_uuid128_shape) simp_all

text \<open>A text that the base-UUID format matches is the text of a 16-bit UUID.\<close>

lemma hexs_no_upper: "CHR ''F'' \<notin> set (hexs k v)" "CHR ''B'' \<notin> set (hexs k v)"
proof -
  have "\<forall>d\<in>set [0..<16]. CHR ''F'' \<noteq> hex_digit d \<and> CHR ''B'' \<noteq> hex_digit d" by code_simp
  then have "CHR ''F'' \<noteq> hex_digit (v mod 16)" "CHR ''B'' \<noteq> hex_digit (v mod 16)" for v by simp_all
  then show "CHR ''F'' \<notin> set (hexs k v)" "CHR ''B'' \<notin> set (hexs k v)"
    by (induction k arbitrary: v) auto
qed

definition base_text :: "u16 \<Rightarrow> string" where
  "base_text v = ''0000'' @ hexs 4 (unat v) @ ''-0000-1000-8000-00805f9b34fb''"

lemma uuid128_text_base: "uuid128_text (u128 (BT_UUID16 v)) = base_text v"
proof -
  have e: "u128 (BT_UUID16 v) = 0 # 0 # be16 v @ [0, 0, 0x10, 0, 0x80, 0, 0, 0x80, 0x5F, 0x9B, 0x34, 0xFB]"
    by (simp add: bluetooth_base_uuid_def)
  obtain x y where xy: "be16 v = [x, y]" by (simp add: be16_def)
  have "unat (be32_of [0, 0, x, y]) = unat v"
  proof -
    have "be32_of [0, 0, x, y] = ucast (be16_of [x, y])"
      unfolding be32_of_def be16_of_def by (rule bit_word_eqI) (auto simp: bit_simps dest: bit_u8D)
    also have "be16_of [x, y] = v" using be16_of_be16 [of v "[]"] xy by simp
    finally show ?thesis using unsigned_less [of v, where ?'a = nat]
      by (simp add: unsigned_ucast_eq take_bit_nat_eq_self)
  qed
  moreover have "hexs 8 (unat v) = ''0000'' @ hexs 4 (unat v)"
  proof -
    have "unat v div 16 ^ 4 = 0" using unsigned_less [of v, where ?'a = nat] by simp
    moreover have "hexs 4 0 = ''0000''" by code_simp
    moreover have "hexs 8 (unat v) = hexs 4 (unat v div 16 ^ 4) @ hexs 4 (unat v)"
      using hexs_append [of 4 4 "unat v"] by simp
    ultimately show ?thesis by (simp only:)
  qed
  ultimately have h: "hexs 8 (unat (be32_of [0, 0, x, y])) = ''0000'' @ hexs 4 (unat v)" by simp
  have "hexs 4 (unat (be16_of [0, 0])) = ''0000''" "hexs 4 (unat (be16_of [0x10, 0])) = ''1000''"
    "hexs 4 (unat (be16_of [0x80, 0])) = ''8000''" "hexs 8 (unat (be32_of [0, 0x80, 0x5F, 0x9B])) = ''00805f9b''"
    "hexs 4 (unat (be16_of [0x34, 0xFB])) = ''34fb''"
    by (simp_all add: be16_of_def be32_of_def hexs_numeral hex_digit_def)
  with h xy show ?thesis unfolding e uuid128_text_def base_text_def by simp
qed

lemma scan_base_text:
  assumes "scan_base (uuid128_text b) \<noteq> None"
  shows "\<exists>v. uuid128_text b = base_text v"
proof -
  define A0 where "A0 = hexs 4 (unat (be32_of (take 4 b)) div 16 ^ 4)"
  define A1 where "A1 = hexs 4 (unat (be32_of (take 4 b)))"
  define B where "B = hexs 4 (unat (be16_of (take 2 (drop 4 b)))) @ ''-''
     @ hexs 4 (unat (be16_of (take 2 (drop 6 b)))) @ ''-''
     @ hexs 4 (unat (be16_of (take 2 (drop 8 b)))) @ ''-''
     @ hexs 8 (unat (be32_of (take 4 (drop 10 b))))
     @ hexs 4 (unat (be16_of (take 2 (drop 14 b))))"
  have t: "uuid128_text b = A0 @ A1 @ ''-'' @ B"
    using hexs_append [of 4 4 "unat (be32_of (take 4 b))"]
    by (simp add: uuid128_text_def A0_def A1_def B_def)
  have B: "CHR ''F'' \<notin> set B" "CHR ''B'' \<notin> set B" "length B = 27"
    by (simp_all add: B_def hexs_no_upper)
  have scan: "scan_hex 4 (A1 @ ''-'' @ B) = Some (int (unat (be32_of (take 4 b)) mod 16 ^ 4), ''-'' @ B)"
    unfolding A1_def by (rule scan_hexs) simp
  from assms obtain r where r: "scan_base (uuid128_text b) = Some r" by auto
  then obtain s1 where "uuid128_text b = ''0000'' @ s1"
    unfolding scan_base_def by (auto simp: bind_eq_Some_conv match_lit_Some simp del: append.simps)
  then have A0: "A0 = ''0000''" "s1 = A1 @ ''-'' @ B"
    unfolding t using append_eq_append_conv [of A0 "''0000''"] by (auto simp: A0_def)
  from r obtain s3 s4 s5 s6 s7 s8 where
    s: "match_lit ''-0000-1000-8000-00805'' (''-'' @ B) = Some s3" "scan_set1 ''fF'' s3 = Some s4"
      "match_lit ''9'' s4 = Some s5" "scan_set1 ''bB'' s5 = Some s6" "match_lit ''34'' s6 = Some s7"
      "scan_set1 ''fF'' s7 = Some s8" "scan_set1 ''bB'' s8 = Some r"
    unfolding scan_base_def t A0(1) match_lit_append Option.bind.simps scan prod.case
    by (auto simp only: bind_eq_Some_conv)
  have set1: "s = c # s'" if "scan_set1 [c, d] s = Some s'" "d \<notin> set s" for c d s s'
    using that by (cases s) (auto simp: scan_set1_def split: if_splits)
  have "set s3 \<subseteq> set B" "set s5 \<subseteq> set s4" "set s4 \<subseteq> set s3" "set s7 \<subseteq> set s6" "set s6 \<subseteq> set s5" "set s8 \<subseteq> set s7"
    using s by (auto simp: match_lit_Some scan_set1_def split: list.splits if_splits)
  then have "s3 = CHR ''f'' # s4" "s5 = CHR ''b'' # s6" "s7 = CHR ''f'' # s8" "s8 = CHR ''b'' # r"
    using s B(1,2) set1 [of "CHR ''f''" "CHR ''F''"] set1 [of "CHR ''b''" "CHR ''B''"] by blast+
  with s have e: "''-'' @ B = ''-0000-1000-8000-00805f9b34fb'' @ r" by (simp add: match_lit_Some)
  then have "r = []" using arg_cong [OF e, of length] B(3) by simp
  with e have "uuid128_text b = ''0000'' @ A1 @ ''-0000-1000-8000-00805f9b34fb''"
    unfolding t A0(1) by simp
  moreover have "A1 = hexs 4 (unat (of_nat (unat (be32_of (take 4 b))) :: u16))"
    using hexs_mod [of 4 "unat (be32_of (take 4 b))"] by (simp add: A1_def unsigned_ucast_eq take_bit_eq_mod)
  ultimately show ?thesis unfolding base_text_def by metis
qed

lemma parse_base_text: "bt_string_to_uuid16 (drop 4 (base_text v)) = (0, Some (BT_UUID16 v))"
proof -
  have "strtol16 (hexs 4 (unat v) @ ''-0000-1000-8000-00805f9b34fb'')
      = (int (unat v mod 16 ^ 4), ''-0000-1000-8000-00805f9b34fb'')"
    by (subst strtol16_digits [OF isxdigit_hexs(1)]) (simp_all add: hex_value_hexs isxdigit_def xdigit_def)
  then have "strtol16 (drop 4 (base_text v)) = (uint v, ''-0000-1000-8000-00805f9b34fb'')"
    unfolding unat_u16_mod by (simp add: base_text_def)
  then show ?thesis by (simp add: bt_string_to_uuid16_def bt_uuid16_create_def)
qed

lemma parse_text:
  assumes "length b = 16"
  shows "\<exists>v. bt_string_to_uuid (uuid128_text b) = (0, Some v) \<and> uuid_ok v \<and> u128 v = b"
proof (cases "is_base_uuid128 (uuid128_text b)")
  case True
  then obtain v where v: "uuid128_text b = base_text v"
    using scan_base_text by (auto simp: is_base_uuid128_def)
  then have "u128 (BT_UUID16 v) = b"
    using assms by (intro uuid128_text_inj) (simp_all only: uuid128_text_base length_u128 uuid_ok.simps)
  with True v parse_base_text [of v] show ?thesis by (auto simp: bt_string_to_uuid_def)
next
  case False
  then show ?thesis
    using is_uuid128_text [of b] parse_uuid128_text [OF assms] assms by (auto simp: bt_string_to_uuid_def)
qed

section \<open>Properties\<close>

text \<open>C17.  Printing a UUID and parsing the text gives a UUID of the same 128-bit value: for every
  well-formed UUID (16, 32 or 128 bits) and a buffer of at least 37 bytes, \<^verbatim>\<open>bt_uuid_to_string\<close> writes 36
  characters from which \<^verbatim>\<open>bt_string_to_uuid\<close> recovers a UUID that \<^verbatim>\<open>bt_uuid_cmp\<close> finds equal.\<close>

theorem uuid_string_roundtrip:
  assumes "uuid_ok u" and "37 \<le> n"
  shows "\<exists>s v. bt_uuid_to_string (Some u) n = Some (0, Some s) \<and> length s = 36
    \<and> bt_string_to_uuid s = (0, Some v) \<and> bt_uuid_cmp u v = Some 0"
proof -
  have len: "length (uuid128_text (u128 u)) = 36" by (simp add: uuid128_text_def)
  have "u \<noteq> BT_UUID_UNSPEC" using assms(1) by auto
  then have "bt_uuid_to_string (Some u) n = Some (0, Some (uuid128_text (u128 u)))"
    using assms len by (simp add: bt_uuid_to_string_def to_uuid128_u128 snprintf_def)
  moreover obtain v where "bt_string_to_uuid (uuid128_text (u128 u)) = (0, Some v)" "uuid_ok v" "u128 v = u128 u"
    using parse_text [OF length_u128 [OF assms(1)]] by blast
  moreover from this assms(1) have "bt_uuid_cmp u v = Some 0"
    by (simp add: bt_uuid_cmp_def to_uuid128_u128 memcmp_eq)
  ultimately show ?thesis using len by blast
qed

theorem uuid_string_roundtrip_witness:
  "\<exists>s v. bt_uuid_to_string (Some (BT_UUID32 0x12345678)) 37 = Some (0, Some s)
     \<and> bt_string_to_uuid s = (0, Some v) \<and> bt_uuid_cmp (BT_UUID32 0x12345678) v = Some 0"
  using uuid_string_roundtrip [of "BT_UUID32 0x12345678" 37] by auto

text \<open>\<^verbatim>\<open>bt_uuid_cmp\<close> is a total preorder on well-formed UUIDs of mixed widths: it always has a value,
  it is zero exactly when the 128-bit values are equal, swapping the arguments changes its sign, and
  it is transitive.  In particular 16-bit UUIDs are equal exactly when their values are.\<close>

theorem uuid_cmp_order:
  assumes "uuid_ok a" and "uuid_ok b" and "uuid_ok c"
  shows "bt_uuid_cmp a b = Some (memcmp (u128 a) (u128 b))
    \<and> (bt_uuid_cmp a b = Some 0 \<longleftrightarrow> u128 a = u128 b)
    \<and> bt_uuid_cmp b a = map_option uminus (bt_uuid_cmp a b)
    \<and> (the (bt_uuid_cmp a b) \<le> 0 \<and> the (bt_uuid_cmp b c) \<le> 0 \<longrightarrow> the (bt_uuid_cmp a c) \<le> 0)
    \<and> (bt_uuid_cmp (BT_UUID16 x) (BT_UUID16 y) = Some 0 \<longleftrightarrow> x = y)"
proof -
  have c: "bt_uuid_cmp u v = Some (memcmp (u128 u) (u128 v))" if "uuid_ok u" "uuid_ok v" for u v
    using that by (simp add: bt_uuid_cmp_def to_uuid128_u128)
  have eq: "memcmp (u128 u) (u128 v) = 0 \<longleftrightarrow> u128 u = u128 v" if "uuid_ok u" "uuid_ok v" for u v
    using that by (intro memcmp_eq) (simp add: length_u128)
  have "memcmp (u128 a) (u128 c) \<le> 0" if "memcmp (u128 a) (u128 b) \<le> 0" "memcmp (u128 b) (u128 c) \<le> 0"
    using memcmp_trans [OF that] assms by (simp add: length_u128)
  then show ?thesis
    using c eq [of a b] eq [of "BT_UUID16 x" "BT_UUID16 y"] assms memcmp_swap [of "u128 b" "u128 a"]
      u128_inj(1) [of x y] by (simp del: u128.simps)
qed

theorem uuid_cmp_order_witness:
  "bt_uuid_cmp (BT_UUID16 0x2800) (BT_UUID32 0x2800) = Some 0
    \<and> bt_uuid_cmp (BT_UUID16 0x2800) (BT_UUID16 0x2803) \<noteq> Some 0"
proof -
  have "u128 (BT_UUID16 0x2800) = u128 (BT_UUID32 0x2800)" by code_simp
  then show ?thesis
    using uuid_cmp_order [of "BT_UUID16 0x2800" "BT_UUID32 0x2800" "BT_UUID32 0x2800" "0x2800" "0x2803"]
    by (simp del: u128.simps add: memcmp_eq)
qed

text \<open>The short forms are parsed by their length alone: a string of 6 hexadecimal digits without
  the prefix 0x is accepted as a 16-bit UUID and loses its first two digits, and likewise 10 digits
  are accepted as a 32-bit UUID.\<close>

theorem string_to_uuid_truncates:
  assumes "set ds \<subseteq> Collect isxdigit" and "length ds = 6" and "set es \<subseteq> Collect isxdigit" and "length es = 10"
  shows "bt_string_to_uuid ds = (0, Some (BT_UUID16 (of_nat (hex_value ds))))
    \<and> bt_string_to_uuid es = (0, Some (BT_UUID32 (of_nat (hex_value es))))"
  using strtol16_digits [of ds "[]"] strtol16_digits [of es "[]"] assms
  by (simp add: bt_string_to_uuid_def is_base_uuid128_def is_uuid128_def is_uuid32_def is_uuid16_def
      bt_string_to_uuid16_def bt_string_to_uuid32_def bt_uuid16_create_def bt_uuid32_create_def)

theorem string_to_uuid_truncates_witness:
  "bt_string_to_uuid ''123456'' = (0, Some (BT_UUID16 0x3456))
    \<and> bt_string_to_uuid ''1234567890'' = (0, Some (BT_UUID32 0x34567890))"
proof -
  have "hex_value ''123456'' = 0x123456" "hex_value ''1234567890'' = 0x1234567890"
    by (simp_all add: hex_value_def xdigit_def)
  moreover have "set ''123456'' \<subseteq> Collect isxdigit" "set ''1234567890'' \<subseteq> Collect isxdigit"
    by (simp_all add: isxdigit_def xdigit_def)
  ultimately show ?thesis using string_to_uuid_truncates [of "''123456''" "''1234567890''"] by simp
qed

text \<open>The little-endian form: \<^verbatim>\<open>bt_uuid_to_le\<close> writes 2 bytes for a 16-bit UUID and otherwise the 128-bit
  value reversed, never beyond them; an unspecified UUID is refused.\<close>

theorem uuid_to_le_writes:
  assumes "16 \<le> length dst" and "uuid_ok u"
  shows "bt_uuid_to_le u dst =
      Some (0, (case u of BT_UUID16 v \<Rightarrow> le16 v @ drop 2 dst | _ \<Rightarrow> rev (u128 u) @ drop 16 dst))
    \<and> bt_uuid_to_le BT_UUID_UNSPEC dst = Some (- EINVAL, dst)"
  using assms to_uuid128_u128 [OF assms(2), of BT_UUID_UNSPEC] length_u128 [OF assms(2)]
  by (cases u) (simp_all add: bt_uuid_to_le_def bt_uuid_to_uuid128_def bswap_128_def mem_write_def
      numeral_2_eq_2 del: u128.simps(2))

theorem uuid_to_le_writes_witness:
  "bt_uuid_to_le (BT_UUID16 0x2803) (replicate 20 0) = Some (0, [0x03, 0x28] @ replicate 18 0)"
proof -
  have "le16 0x2803 = [0x03, 0x28]" by code_simp
  then show ?thesis using uuid_to_le_writes [of "replicate 20 0" "BT_UUID16 0x2803"] by simp
qed

end
