(* ===== verification/Bdaddr.thy ===== *)
theory Bdaddr
  imports Bt_Uuid
begin

text \<open>
  Bluetooth device addresses and error codes, \<^verbatim>\<open>bluez5/lib/bluetooth.c\<close>.  An address is the list of its
  six bytes, least significant first; strings are C strings as in the theory \<open>Cstring\<close>.  The error
  numbers are those of Linux.
\<close>

section \<open>Addresses\<close>

type_synonym bdaddr_t = bytes

text \<open>\<^verbatim>\<open>dst\<close> and \<^verbatim>\<open>src\<close> are different objects, as in all uses.\<close>

definition baswap :: "bdaddr_t \<Rightarrow> bdaddr_t" where
  "baswap s = map (\<lambda>i. s ! (5 - i)) [0..<6]"

definition bacmp :: "bdaddr_t \<Rightarrow> bdaddr_t \<Rightarrow> int" where
  "bacmp ba1 ba2 = memcmp ba1 ba2"

text \<open>The conversion \<^verbatim>\<open>%2.2X\<close> of a byte.\<close>

definition hex2 :: "u8 \<Rightarrow> string" where
  "hex2 v = hexs_upper 2 (unat v)"

definition ba_text :: "bdaddr_t \<Rightarrow> nat list \<Rightarrow> string" where
  "ba_text ba is = hex2 (ba ! (is ! 0)) @ '':'' @ hex2 (ba ! (is ! 1)) @ '':'' @ hex2 (ba ! (is ! 2))
     @ '':'' @ hex2 (ba ! (is ! 3)) @ '':'' @ hex2 (ba ! (is ! 4)) @ '':'' @ hex2 (ba ! (is ! 5))"

text \<open>\<open>ok\<close> says whether \<^verbatim>\<open>bt_malloc\<close> succeeds.\<close>

definition batostr :: "bool \<Rightarrow> bdaddr_t \<Rightarrow> string option" where
  "batostr ok ba = (if \<not> ok then None else Some (ba_text ba [0, 1, 2, 3, 4, 5]))"

definition ba2str :: "bdaddr_t \<Rightarrow> int \<times> string" where
  "ba2str ba = (let s = ba_text ba [5, 4, 3, 2, 1, 0] in (int (length s), s))"

definition ba2oui :: "bdaddr_t \<Rightarrow> int \<times> string" where
  "ba2oui ba = (let s = hex2 (ba ! 5) @ ''-'' @ hex2 (ba ! 4) @ ''-'' @ hex2 (ba ! 3)
     in (int (length s), s))"

text \<open>The loop of \<^verbatim>\<open>bachk\<close>; the terminator is not a digit.\<close>

fun bachk_loop :: "string \<Rightarrow> int" where
  "bachk_loop [] = 0"
| "bachk_loop [a] = -1"
| "bachk_loop [a, b] = (if \<not> isxdigit a then -1 else if \<not> isxdigit b then -1 else 0)"
| "bachk_loop (a # b # c # s) =
     (if \<not> isxdigit a then -1
      else if \<not> isxdigit b then -1
      else if c \<noteq> CHR '':'' then -1
      else bachk_loop s)"

definition bachk :: "string option \<Rightarrow> int" where
  "bachk str = (case str of None \<Rightarrow> -1 | Some s \<Rightarrow> if length s \<noteq> 17 then -1 else bachk_loop s)"

text \<open>The byte \<open>i\<close> of the address is read at offset \<open>3 * (5 - i)\<close> of the string.\<close>

definition str2ba :: "string option \<Rightarrow> int \<times> bdaddr_t" where
  "str2ba str =
     (if bachk str < 0 then (-1, replicate 6 0)
      else (0, map (\<lambda>i. word_of_int (fst (strtol16 (drop (3 * (5 - i)) (the str))))) [0..<6]))"

definition strtoba :: "bool \<Rightarrow> string option \<Rightarrow> bdaddr_t option" where
  "strtoba ok str = (if \<not> ok then None else Some (baswap (snd (str2ba str))))"

section \<open>Error codes\<close>

definition EBADRQC :: int where "EBADRQC = 56"
definition ENOTCONN :: int where "ENOTCONN = 107"
definition EIO :: int where "EIO = 5"
definition EHOSTDOWN :: int where "EHOSTDOWN = 112"
definition EACCES :: int where "EACCES = 13"
definition ENOMEM :: int where "ENOMEM = 12"
definition ETIMEDOUT :: int where "ETIMEDOUT = 110"
definition EMLINK :: int where "EMLINK = 31"
definition EALREADY :: int where "EALREADY = 114"
definition EBUSY :: int where "EBUSY = 16"
definition ECONNREFUSED :: int where "ECONNREFUSED = 111"
definition EOPNOTSUPP :: int where "EOPNOTSUPP = 95"
definition ECONNRESET :: int where "ECONNRESET = 104"
definition ECONNABORTED :: int where "ECONNABORTED = 103"
definition ELOOP :: int where "ELOOP = 40"
definition EPROTONOSUPPORT :: int where "EPROTONOSUPPORT = 93"
definition EPROTO :: int where "EPROTO = 71"
definition ENOSYS :: int where "ENOSYS = 38"

definition HCI_UNKNOWN_COMMAND :: u16 where "HCI_UNKNOWN_COMMAND = 0x01"
definition HCI_NO_CONNECTION :: u16 where "HCI_NO_CONNECTION = 0x02"
definition HCI_HARDWARE_FAILURE :: u16 where "HCI_HARDWARE_FAILURE = 0x03"
definition HCI_PAGE_TIMEOUT :: u16 where "HCI_PAGE_TIMEOUT = 0x04"
definition HCI_AUTHENTICATION_FAILURE :: u16 where "HCI_AUTHENTICATION_FAILURE = 0x05"
definition HCI_PIN_OR_KEY_MISSING :: u16 where "HCI_PIN_OR_KEY_MISSING = 0x06"
definition HCI_MEMORY_FULL :: u16 where "HCI_MEMORY_FULL = 0x07"
definition HCI_CONNECTION_TIMEOUT :: u16 where "HCI_CONNECTION_TIMEOUT = 0x08"
definition HCI_MAX_NUMBER_OF_CONNECTIONS :: u16 where "HCI_MAX_NUMBER_OF_CONNECTIONS = 0x09"
definition HCI_MAX_NUMBER_OF_SCO_CONNECTIONS :: u16 where "HCI_MAX_NUMBER_OF_SCO_CONNECTIONS = 0x0a"
definition HCI_ACL_CONNECTION_EXISTS :: u16 where "HCI_ACL_CONNECTION_EXISTS = 0x0b"
definition HCI_COMMAND_DISALLOWED :: u16 where "HCI_COMMAND_DISALLOWED = 0x0c"
definition HCI_TRANSACTION_COLLISION :: u16 where "HCI_TRANSACTION_COLLISION = 0x2a"
definition HCI_ROLE_SWITCH_PENDING :: u16 where "HCI_ROLE_SWITCH_PENDING = 0x32"
definition HCI_REJECTED_LIMITED_RESOURCES :: u16 where "HCI_REJECTED_LIMITED_RESOURCES = 0x0d"
definition HCI_REJECTED_PERSONAL :: u16 where "HCI_REJECTED_PERSONAL = 0x0f"
definition HCI_QOS_REJECTED :: u16 where "HCI_QOS_REJECTED = 0x2d"
definition HCI_HOST_TIMEOUT :: u16 where "HCI_HOST_TIMEOUT = 0x10"
definition HCI_UNSUPPORTED_FEATURE :: u16 where "HCI_UNSUPPORTED_FEATURE = 0x11"
definition HCI_QOS_NOT_SUPPORTED :: u16 where "HCI_QOS_NOT_SUPPORTED = 0x27"
definition HCI_PAIRING_NOT_SUPPORTED :: u16 where "HCI_PAIRING_NOT_SUPPORTED = 0x29"
definition HCI_CLASSIFICATION_NOT_SUPPORTED :: u16 where "HCI_CLASSIFICATION_NOT_SUPPORTED = 0x2e"
definition HCI_UNSUPPORTED_LMP_PARAMETER_VALUE :: u16 where "HCI_UNSUPPORTED_LMP_PARAMETER_VALUE = 0x20"
definition HCI_PARAMETER_OUT_OF_RANGE :: u16 where "HCI_PARAMETER_OUT_OF_RANGE = 0x30"
definition HCI_QOS_UNACCEPTABLE_PARAMETER :: u16 where "HCI_QOS_UNACCEPTABLE_PARAMETER = 0x2c"
definition HCI_INVALID_PARAMETERS :: u16 where "HCI_INVALID_PARAMETERS = 0x12"
definition HCI_SLOT_VIOLATION :: u16 where "HCI_SLOT_VIOLATION = 0x34"
definition HCI_OE_USER_ENDED_CONNECTION :: u16 where "HCI_OE_USER_ENDED_CONNECTION = 0x13"
definition HCI_OE_LOW_RESOURCES :: u16 where "HCI_OE_LOW_RESOURCES = 0x14"
definition HCI_OE_POWER_OFF :: u16 where "HCI_OE_POWER_OFF = 0x15"
definition HCI_CONNECTION_TERMINATED :: u16 where "HCI_CONNECTION_TERMINATED = 0x16"
definition HCI_REPEATED_ATTEMPTS :: u16 where "HCI_REPEATED_ATTEMPTS = 0x17"
definition HCI_REJECTED_SECURITY :: u16 where "HCI_REJECTED_SECURITY = 0x0e"
definition HCI_PAIRING_NOT_ALLOWED :: u16 where "HCI_PAIRING_NOT_ALLOWED = 0x18"
definition HCI_INSUFFICIENT_SECURITY :: u16 where "HCI_INSUFFICIENT_SECURITY = 0x2f"
definition HCI_UNSUPPORTED_REMOTE_FEATURE :: u16 where "HCI_UNSUPPORTED_REMOTE_FEATURE = 0x1a"
definition HCI_SCO_OFFSET_REJECTED :: u16 where "HCI_SCO_OFFSET_REJECTED = 0x1b"
definition HCI_UNKNOWN_LMP_PDU :: u16 where "HCI_UNKNOWN_LMP_PDU = 0x19"
definition HCI_INVALID_LMP_PARAMETERS :: u16 where "HCI_INVALID_LMP_PARAMETERS = 0x1e"
definition HCI_LMP_ERROR_TRANSACTION_COLLISION :: u16 where "HCI_LMP_ERROR_TRANSACTION_COLLISION = 0x23"
definition HCI_LMP_PDU_NOT_ALLOWED :: u16 where "HCI_LMP_PDU_NOT_ALLOWED = 0x24"
definition HCI_ENCRYPTION_MODE_NOT_ACCEPTED :: u16 where "HCI_ENCRYPTION_MODE_NOT_ACCEPTED = 0x25"

definition bt_error :: "u16 \<Rightarrow> int" where
  "bt_error code =
     (if code = 0
        then 0
      else if code = HCI_UNKNOWN_COMMAND
        then EBADRQC
      else if code = HCI_NO_CONNECTION
        then ENOTCONN
      else if code = HCI_HARDWARE_FAILURE
        then EIO
      else if code = HCI_PAGE_TIMEOUT
        then EHOSTDOWN
      else if code = HCI_AUTHENTICATION_FAILURE
        then EACCES
      else if code = HCI_PIN_OR_KEY_MISSING
        then EINVAL
      else if code = HCI_MEMORY_FULL
        then ENOMEM
      else if code = HCI_CONNECTION_TIMEOUT
        then ETIMEDOUT
      else if code = HCI_MAX_NUMBER_OF_CONNECTIONS \<or> code = HCI_MAX_NUMBER_OF_SCO_CONNECTIONS
        then EMLINK
      else if code = HCI_ACL_CONNECTION_EXISTS
        then EALREADY
      else if code \<in> {HCI_COMMAND_DISALLOWED, HCI_TRANSACTION_COLLISION,
          HCI_ROLE_SWITCH_PENDING}
        then EBUSY
      else if code \<in> {HCI_REJECTED_LIMITED_RESOURCES, HCI_REJECTED_PERSONAL, HCI_QOS_REJECTED}
        then ECONNREFUSED
      else if code = HCI_HOST_TIMEOUT
        then ETIMEDOUT
      else if code \<in> {HCI_UNSUPPORTED_FEATURE, HCI_QOS_NOT_SUPPORTED,
          HCI_PAIRING_NOT_SUPPORTED, HCI_CLASSIFICATION_NOT_SUPPORTED,
          HCI_UNSUPPORTED_LMP_PARAMETER_VALUE, HCI_PARAMETER_OUT_OF_RANGE,
          HCI_QOS_UNACCEPTABLE_PARAMETER}
        then EOPNOTSUPP
      else if code = HCI_INVALID_PARAMETERS \<or> code = HCI_SLOT_VIOLATION
        then EINVAL
      else if code \<in> {HCI_OE_USER_ENDED_CONNECTION, HCI_OE_LOW_RESOURCES, HCI_OE_POWER_OFF}
        then ECONNRESET
      else if code = HCI_CONNECTION_TERMINATED
        then ECONNABORTED
      else if code = HCI_REPEATED_ATTEMPTS
        then ELOOP
      else if code \<in> {HCI_REJECTED_SECURITY, HCI_PAIRING_NOT_ALLOWED,
          HCI_INSUFFICIENT_SECURITY}
        then EACCES
      else if code = HCI_UNSUPPORTED_REMOTE_FEATURE
        then EPROTONOSUPPORT
      else if code = HCI_SCO_OFFSET_REJECTED
        then ECONNREFUSED
      else if code \<in> {HCI_UNKNOWN_LMP_PDU, HCI_INVALID_LMP_PARAMETERS,
          HCI_LMP_ERROR_TRANSACTION_COLLISION, HCI_LMP_PDU_NOT_ALLOWED,
          HCI_ENCRYPTION_MODE_NOT_ACCEPTED}
        then EPROTO
      else ENOSYS)"

lemmas errno_defs = EINVAL_def EBADRQC_def ENOTCONN_def EIO_def EHOSTDOWN_def EACCES_def
  ENOMEM_def ETIMEDOUT_def EMLINK_def EALREADY_def EBUSY_def ECONNREFUSED_def
  EOPNOTSUPP_def ECONNRESET_def ECONNABORTED_def ELOOP_def EPROTONOSUPPORT_def EPROTO_def
  ENOSYS_def

section \<open>Facts\<close>

text \<open>The strings that \<^verbatim>\<open>bachk\<close> accepts.\<close>

definition ba_string :: "string \<Rightarrow> bool" where
  "ba_string s \<longleftrightarrow> length s = 17 \<and> (\<forall>i<17. if i mod 3 = 2 then s ! i = CHR '':'' else isxdigit (s ! i))"

fun ba_groups :: "string \<Rightarrow> bool" where
  "ba_groups [a, b] = (isxdigit a \<and> isxdigit b)"
| "ba_groups (a # b # c # s) = (isxdigit a \<and> isxdigit b \<and> c = CHR '':'' \<and> ba_groups s)"
| "ba_groups _ = False"

lemma bachk_loop_groups: "length s mod 3 = 2 \<Longrightarrow> bachk_loop s = (if ba_groups s then 0 else -1)"
  by (induction s rule: bachk_loop.induct) (auto simp: mod_Suc split: if_splits)

lemma bachk_range: "bachk str = 0 \<or> bachk str = -1"
proof -
  have "bachk_loop s = 0 \<or> bachk_loop s = -1" for s by (induction s rule: bachk_loop.induct) auto
  then show ?thesis by (auto simp: bachk_def split: option.splits)
qed

lemma chars17:
  assumes "length s = 17"
  obtains c0 c1 c2 c3 c4 c5 c6 c7 c8 c9 c10 c11 c12 c13 c14 c15 c16 where "s = [c0, c1, c2, c3, c4, c5, c6, c7, c8, c9, c10, c11, c12, c13, c14, c15, c16]"
  using assms by (auto simp: numeral_eq_Suc length_Suc_conv)

lemma ba_string_groups: "ba_string s \<longleftrightarrow> length s = 17 \<and> ba_groups s"
proof (cases "length s = 17")
  case True
  then obtain c0 c1 c2 c3 c4 c5 c6 c7 c8 c9 c10 c11 c12 c13 c14 c15 c16 where s: "s = [c0, c1, c2, c3, c4, c5, c6, c7, c8, c9, c10, c11, c12, c13, c14, c15, c16]" by (rule chars17)
  have all: "(\<forall>i<17. P i) \<longleftrightarrow> list_all P [0..<17]" for P :: "nat \<Rightarrow> bool"
    by (auto simp: list_all_iff)
  show ?thesis unfolding ba_string_def all s by (simp add: upt_rec)
qed (simp add: ba_string_def)

lemma bachk_ok: "bachk (Some s) = 0 \<longleftrightarrow> ba_string s"
  by (auto simp: bachk_def bachk_loop_groups ba_string_groups split: if_splits)

definition pair_byte :: "char \<Rightarrow> char \<Rightarrow> u8" where
  "pair_byte a b = of_nat (hex_value [a, b])"

lemma strtol16_pair:
  assumes "isxdigit a" "isxdigit b" "rest = [] \<or> hd rest = CHR '':''"
  shows "word_of_int (fst (strtol16 (a # b # rest))) = pair_byte a b"
proof -
  have "\<not> isxdigit (CHR '':'')" by (simp add: isxdigit_def xdigit_def)
  then show ?thesis using strtol16_digits [of "[a, b]" rest] assms by (auto simp: pair_byte_def)
qed

lemma str2ba_pairs:
  assumes "ba_groups [c0, c1, c2, c3, c4, c5, c6, c7, c8, c9, c10, c11, c12, c13, c14, c15, c16]"
  shows "str2ba (Some [c0, c1, c2, c3, c4, c5, c6, c7, c8, c9, c10, c11, c12, c13, c14, c15, c16])
    = (0, [pair_byte c15 c16, pair_byte c12 c13, pair_byte c9 c10, pair_byte c6 c7, pair_byte c3 c4,
        pair_byte c0 c1])"
proof -
  have b: "bachk (Some [c0, c1, c2, c3, c4, c5, c6, c7, c8, c9, c10, c11, c12, c13, c14, c15, c16]) = 0"
    using assms by (simp add: bachk_ok ba_string_groups)
  have u: "[0..<6] = [0, 1, 2, 3, 4, 5]" by (simp add: upt_rec)
  show ?thesis using assms b by (simp add: str2ba_def u strtol16_pair)
qed

lemma hex_value_pair: "isxdigit a \<Longrightarrow> isxdigit b \<Longrightarrow> hex_value [a, b] = 16 * the (xdigit a) + the (xdigit b)"
  by (auto simp: hex_value_def isxdigit_def)

lemma xdigit_less: "xdigit c = Some d \<Longrightarrow> d < 16"
  by (auto simp: xdigit_def Let_def split: if_splits)

lemma pair_byte_hex2: "pair_byte (hex2 v ! 0) (hex2 v ! 1) = v"
proof -
  have "hex2 v = [hex2 v ! 0, hex2 v ! 1]" by (simp add: hex2_def numeral_2_eq_2)
  then have "hex_value [hex2 v ! 0, hex2 v ! 1] = unat v mod 16 ^ 2"
    using hex_value_hexs(2) [of 2 "unat v"] by (simp add: hex2_def)
  also have "\<dots> = unat v" using unsigned_less [of v, where ?'a = nat] by simp
  finally show ?thesis by (simp add: pair_byte_def)
qed

text \<open>A digit in upper case.\<close>

definition toupper :: "char \<Rightarrow> char" where
  "toupper c = (if 97 \<le> (of_char c :: nat) \<and> (of_char c :: nat) \<le> 122 then char_of (of_char c - 32 :: nat) else c)"

lemma hex_upper_code:
  assumes "d < 16"
  shows "(of_char (hex_digit_upper d) :: nat) = (if d < 10 then 48 + d else 55 + d)"
proof -
  have "list_all (\<lambda>d. (of_char (hex_digit_upper d) :: nat) = (if d < 10 then 48 + d else 55 + d)) [0..<16]"
    by (simp add: upt_rec hex_digit_upper_def)
  with assms show ?thesis by (simp add: list_all_iff)
qed

lemma hex_digit_upper_xdigit:
  assumes "isxdigit c"
  shows "hex_digit_upper (the (xdigit c)) = toupper c"
proof -
  obtain d where d: "xdigit c = Some d" using assms by (auto simp: isxdigit_def)
  then have "(of_char (hex_digit_upper d) :: nat) = of_char (toupper c)"
    by (subst hex_upper_code) (auto simp: xdigit_def toupper_def Let_def split: if_splits)
  with d show ?thesis by simp
qed

lemma hex2_pair_byte: "isxdigit a \<Longrightarrow> isxdigit b \<Longrightarrow> hex2 (pair_byte a b) = [toupper a, toupper b]"
proof -
  assume ab: "isxdigit a" "isxdigit b"
  then obtain x y where xy: "xdigit a = Some x" "xdigit b = Some y" "x < 16" "y < 16"
    using xdigit_less by (auto simp: isxdigit_def)
  have "unat (pair_byte a b) = 16 * x + y"
    using ab xy by (simp add: pair_byte_def hex_value_pair unat_of_nat del: of_nat_add of_nat_mult)
  then show ?thesis
    using hex_digit_upper_xdigit [OF ab(1)] hex_digit_upper_xdigit [OF ab(2)] xy
    by (simp add: hex2_def numeral_2_eq_2)
qed

lemma hex2_chars:
  obtains a b where "hex2 v = [a, b]" "isxdigit a" "isxdigit b" "pair_byte a b = v"
proof -
  have e: "hex2 v = [hex2 v ! 0, hex2 v ! 1]" by (simp add: hex2_def numeral_2_eq_2)
  have "set (hex2 v) \<subseteq> Collect isxdigit" unfolding hex2_def by (rule isxdigit_hexs)
  then have "isxdigit (hex2 v ! 0)" "isxdigit (hex2 v ! 1)" by (subst (asm) e, simp)+
  then show ?thesis using e that pair_byte_hex2 by blast
qed

lemma bytes6:
  assumes "length ba = 6"
  obtains b0 b1 b2 b3 b4 b5 where "ba = [b0, b1, b2, b3, b4, b5]"
  using assms by (auto simp: numeral_eq_Suc length_Suc_conv)

text \<open>Reading a printed address gives its bytes in the reverse order of printing.\<close>

lemma str2ba_text:
  "str2ba (Some (hex2 v0 @ '':'' @ hex2 v1 @ '':'' @ hex2 v2 @ '':'' @ hex2 v3 @ '':'' @ hex2 v4 @ '':'' @ hex2 v5))
    = (0, [v5, v4, v3, v2, v1, v0])"
proof -
  obtain a0 b0 where 0: "hex2 v0 = [a0, b0]" "isxdigit a0" "isxdigit b0" "pair_byte a0 b0 = v0" by (rule hex2_chars)
  obtain a1 b1 where 1: "hex2 v1 = [a1, b1]" "isxdigit a1" "isxdigit b1" "pair_byte a1 b1 = v1" by (rule hex2_chars)
  obtain a2 b2 where 2: "hex2 v2 = [a2, b2]" "isxdigit a2" "isxdigit b2" "pair_byte a2 b2 = v2" by (rule hex2_chars)
  obtain a3 b3 where 3: "hex2 v3 = [a3, b3]" "isxdigit a3" "isxdigit b3" "pair_byte a3 b3 = v3" by (rule hex2_chars)
  obtain a4 b4 where 4: "hex2 v4 = [a4, b4]" "isxdigit a4" "isxdigit b4" "pair_byte a4 b4 = v4" by (rule hex2_chars)
  obtain a5 b5 where 5: "hex2 v5 = [a5, b5]" "isxdigit a5" "isxdigit b5" "pair_byte a5 b5 = v5" by (rule hex2_chars)
  show ?thesis
    unfolding 0(1) 1(1) 2(1) 3(1) 4(1) 5(1) append.simps
    using 0 1 2 3 4 5 by (subst str2ba_pairs) simp_all
qed

text \<open>\<^verbatim>\<open>bt_error\<close> maps only the code 0 to success: every other Bluetooth error code becomes a positive
  error number.\<close>

lemma bt_error_sound: "if code = 0 then bt_error code = 0 else 0 < bt_error code"
  by (simp add: bt_error_def errno_defs)

section \<open>Properties\<close>

text \<open>Printing and parsing of device addresses are inverse: \<^verbatim>\<open>str2ba\<close> reads back what \<^verbatim>\<open>ba2str\<close>
  printed (17 characters), and \<^verbatim>\<open>strtoba\<close> what \<^verbatim>\<open>batostr\<close> printed.\<close>

theorem bdaddr_string_roundtrip:
  assumes "length ba = 6"
  shows "fst (ba2str ba) = 17 \<and> str2ba (Some (snd (ba2str ba))) = (0, ba)
    \<and> strtoba True (batostr True ba) = Some ba"
proof -
  obtain b0 b1 b2 b3 b4 b5 where ba: "ba = [b0, b1, b2, b3, b4, b5]" using assms by (rule bytes6)
  have u: "[0..<6] = [0, 1, 2, 3, 4, 5]" by (simp add: upt_rec)
  show ?thesis
    using str2ba_text [of b5 b4 b3 b2 b1 b0] str2ba_text [of b0 b1 b2 b3 b4 b5]
    by (simp add: ba ba2str_def ba_text_def strtoba_def batostr_def baswap_def u hex2_def)
qed

theorem bdaddr_string_roundtrip_witness:
  "str2ba (Some (snd (ba2str [0x1E, 0xC6, 0xA4, 0x20, 0x69, 0x1C]))) = (0, [0x1E, 0xC6, 0xA4, 0x20, 0x69, 0x1C])"
  using bdaddr_string_roundtrip [of "[0x1E, 0xC6, 0xA4, 0x20, 0x69, 0x1C]"] by simp

text \<open>\<^verbatim>\<open>bachk\<close> accepts exactly the strings of six pairs of hexadecimal digits separated by colons; on
  any other string \<^verbatim>\<open>str2ba\<close> fails and gives the zero address, and what it reads from an accepted string
  prints as that string in upper case.\<close>

theorem str2ba_accepts:
  "(bachk (Some s) = 0 \<longleftrightarrow> ba_string s)
    \<and> (if ba_string s
       then fst (str2ba (Some s)) = 0 \<and> snd (ba2str (snd (str2ba (Some s)))) = map toupper s
       else str2ba (Some s) = (-1, replicate 6 0))"
proof (cases "ba_string s")
  case False
  then show ?thesis using bachk_ok [of s] bachk_range [of "Some s"] by (auto simp: str2ba_def)
next
  case True
  then have "length s = 17" by (simp add: ba_string_def)
  then obtain c0 c1 c2 c3 c4 c5 c6 c7 c8 c9 c10 c11 c12 c13 c14 c15 c16 where s: "s = [c0, c1, c2, c3, c4, c5, c6, c7, c8, c9, c10, c11, c12, c13, c14, c15, c16]"
    by (rule chars17)
  have g: "ba_groups [c0, c1, c2, c3, c4, c5, c6, c7, c8, c9, c10, c11, c12, c13, c14, c15, c16]" using True s by (simp add: ba_string_groups)
  have "toupper (CHR '':'') = CHR '':''" by (simp add: toupper_def)
  then show ?thesis
    using True g bachk_ok [of s] unfolding s str2ba_pairs [OF g]
    by (simp add: ba2str_def ba_text_def hex2_pair_byte Let_def)
qed

theorem str2ba_accepts_witness:
  "bachk (Some ''1c:69:20:a4:c6:1e'') = 0 \<and> bachk (Some ''1c-69-20-a4-c6-1e'') = -1"
proof -
  have "ba_string ''1c:69:20:a4:c6:1e''" "\<not> ba_string ''1c-69-20-a4-c6-1e''"
    by (simp_all add: ba_string_groups isxdigit_def xdigit_def)
  then show ?thesis
    using str2ba_accepts [of "''1c:69:20:a4:c6:1e''"] str2ba_accepts [of "''1c-69-20-a4-c6-1e''"]
      bachk_range [of "Some ''1c-69-20-a4-c6-1e''"] by auto
qed


end
