(* ===== verification/Att_Pdu.thy ===== *)
theory Att_Pdu
  imports Bt_Uuid
begin

text \<open>
  The PDUs of the Attribute Protocol, \<^verbatim>\<open>bluez5/attrib/att.c\<close>: every encoder and decoder.  A PDU buffer
  is a list of bytes, \<open>None\<close> when the pointer is NULL; \<^verbatim>\<open>len\<close> is a \<^verbatim>\<open>size_t\<close> and wraps.  A function returns
  its 16-bit result with the buffers it has written, or \<open>None\<close> when it accesses memory outside of a
  buffer.  A pointer that the code does not compare with NULL is taken to be valid.
\<close>

section \<open>Opcodes and error codes\<close>

definition ATT_OP_ERROR :: u8 where "ATT_OP_ERROR = 0x01"
definition ATT_OP_MTU_REQ :: u8 where "ATT_OP_MTU_REQ = 0x02"
definition ATT_OP_MTU_RESP :: u8 where "ATT_OP_MTU_RESP = 0x03"
definition ATT_OP_FIND_INFO_REQ :: u8 where "ATT_OP_FIND_INFO_REQ = 0x04"
definition ATT_OP_FIND_INFO_RESP :: u8 where "ATT_OP_FIND_INFO_RESP = 0x05"
definition ATT_OP_FIND_BY_TYPE_REQ :: u8 where "ATT_OP_FIND_BY_TYPE_REQ = 0x06"
definition ATT_OP_FIND_BY_TYPE_RESP :: u8 where "ATT_OP_FIND_BY_TYPE_RESP = 0x07"
definition ATT_OP_READ_BY_TYPE_REQ :: u8 where "ATT_OP_READ_BY_TYPE_REQ = 0x08"
definition ATT_OP_READ_BY_TYPE_RESP :: u8 where "ATT_OP_READ_BY_TYPE_RESP = 0x09"
definition ATT_OP_READ_REQ :: u8 where "ATT_OP_READ_REQ = 0x0A"
definition ATT_OP_READ_RESP :: u8 where "ATT_OP_READ_RESP = 0x0B"
definition ATT_OP_READ_BLOB_REQ :: u8 where "ATT_OP_READ_BLOB_REQ = 0x0C"
definition ATT_OP_READ_BLOB_RESP :: u8 where "ATT_OP_READ_BLOB_RESP = 0x0D"
definition ATT_OP_READ_MULTI_REQ :: u8 where "ATT_OP_READ_MULTI_REQ = 0x0E"
definition ATT_OP_READ_MULTI_RESP :: u8 where "ATT_OP_READ_MULTI_RESP = 0x0F"
definition ATT_OP_READ_BY_GROUP_REQ :: u8 where "ATT_OP_READ_BY_GROUP_REQ = 0x10"
definition ATT_OP_READ_BY_GROUP_RESP :: u8 where "ATT_OP_READ_BY_GROUP_RESP = 0x11"
definition ATT_OP_WRITE_REQ :: u8 where "ATT_OP_WRITE_REQ = 0x12"
definition ATT_OP_WRITE_RESP :: u8 where "ATT_OP_WRITE_RESP = 0x13"
definition ATT_OP_WRITE_CMD :: u8 where "ATT_OP_WRITE_CMD = 0x52"
definition ATT_OP_PREP_WRITE_REQ :: u8 where "ATT_OP_PREP_WRITE_REQ = 0x16"
definition ATT_OP_PREP_WRITE_RESP :: u8 where "ATT_OP_PREP_WRITE_RESP = 0x17"
definition ATT_OP_EXEC_WRITE_REQ :: u8 where "ATT_OP_EXEC_WRITE_REQ = 0x18"
definition ATT_OP_EXEC_WRITE_RESP :: u8 where "ATT_OP_EXEC_WRITE_RESP = 0x19"
definition ATT_OP_HANDLE_NOTIFY :: u8 where "ATT_OP_HANDLE_NOTIFY = 0x1B"
definition ATT_OP_HANDLE_IND :: u8 where "ATT_OP_HANDLE_IND = 0x1D"
definition ATT_OP_HANDLE_CNF :: u8 where "ATT_OP_HANDLE_CNF = 0x1E"
definition ATT_OP_SIGNED_WRITE_CMD :: u8 where "ATT_OP_SIGNED_WRITE_CMD = 0xD2"
definition ATT_ECODE_INVALID_HANDLE :: u8 where "ATT_ECODE_INVALID_HANDLE = 0x01"
definition ATT_ECODE_READ_NOT_PERM :: u8 where "ATT_ECODE_READ_NOT_PERM = 0x02"
definition ATT_ECODE_WRITE_NOT_PERM :: u8 where "ATT_ECODE_WRITE_NOT_PERM = 0x03"
definition ATT_ECODE_INVALID_PDU :: u8 where "ATT_ECODE_INVALID_PDU = 0x04"
definition ATT_ECODE_AUTHENTICATION :: u8 where "ATT_ECODE_AUTHENTICATION = 0x05"
definition ATT_ECODE_REQ_NOT_SUPP :: u8 where "ATT_ECODE_REQ_NOT_SUPP = 0x06"
definition ATT_ECODE_INVALID_OFFSET :: u8 where "ATT_ECODE_INVALID_OFFSET = 0x07"
definition ATT_ECODE_AUTHORIZATION :: u8 where "ATT_ECODE_AUTHORIZATION = 0x08"
definition ATT_ECODE_PREP_QUEUE_FULL :: u8 where "ATT_ECODE_PREP_QUEUE_FULL = 0x09"
definition ATT_ECODE_ATTR_NOT_FOUND :: u8 where "ATT_ECODE_ATTR_NOT_FOUND = 0x0A"
definition ATT_ECODE_ATTR_NOT_LONG :: u8 where "ATT_ECODE_ATTR_NOT_LONG = 0x0B"
definition ATT_ECODE_INSUFF_ENCR_KEY_SIZE :: u8 where "ATT_ECODE_INSUFF_ENCR_KEY_SIZE = 0x0C"
definition ATT_ECODE_INVAL_ATTR_VALUE_LEN :: u8 where "ATT_ECODE_INVAL_ATTR_VALUE_LEN = 0x0D"
definition ATT_ECODE_UNLIKELY :: u8 where "ATT_ECODE_UNLIKELY = 0x0E"
definition ATT_ECODE_INSUFF_ENC :: u8 where "ATT_ECODE_INSUFF_ENC = 0x0F"
definition ATT_ECODE_UNSUPP_GRP_TYPE :: u8 where "ATT_ECODE_UNSUPP_GRP_TYPE = 0x10"
definition ATT_ECODE_INSUFF_RESOURCES :: u8 where "ATT_ECODE_INSUFF_RESOURCES = 0x11"
definition ATT_ECODE_IO :: u8 where "ATT_ECODE_IO = 0x80"
definition ATT_ECODE_TIMEOUT :: u8 where "ATT_ECODE_TIMEOUT = 0x81"
definition ATT_ECODE_ABORTED :: u8 where "ATT_ECODE_ABORTED = 0x82"

definition att_ecode2str :: "u8 \<Rightarrow> string" where
  "att_ecode2str status =
     (if status = ATT_ECODE_INVALID_HANDLE then ''Invalid handle''
      else if status = ATT_ECODE_READ_NOT_PERM then ''Attribute can'' @ [CHR 0x27] @ ''t be read''
      else if status = ATT_ECODE_WRITE_NOT_PERM then ''Attribute can'' @ [CHR 0x27] @ ''t be written''
      else if status = ATT_ECODE_INVALID_PDU then ''Attribute PDU was invalid''
      else if status = ATT_ECODE_AUTHENTICATION then ''Attribute requires authentication before read/write''
      else if status = ATT_ECODE_REQ_NOT_SUPP then ''Server doesn'' @ [CHR 0x27] @ ''t support the request received''
      else if status = ATT_ECODE_INVALID_OFFSET then ''Offset past the end of the attribute''
      else if status = ATT_ECODE_AUTHORIZATION then ''Attribute requires authorization before read/write''
      else if status = ATT_ECODE_PREP_QUEUE_FULL then ''Too many prepare writes have been queued''
      else if status = ATT_ECODE_ATTR_NOT_FOUND then ''No attribute found within the given range''
      else if status = ATT_ECODE_ATTR_NOT_LONG then ''Attribute can'' @ [CHR 0x27] @ ''t be read/written using Read Blob Req''
      else if status = ATT_ECODE_INSUFF_ENCR_KEY_SIZE then ''Encryption Key Size is insufficient''
      else if status = ATT_ECODE_INVAL_ATTR_VALUE_LEN then ''Attribute value length is invalid''
      else if status = ATT_ECODE_UNLIKELY then ''Request attribute has encountered an unlikely error''
      else if status = ATT_ECODE_INSUFF_ENC then ''Encryption required before read/write''
      else if status = ATT_ECODE_UNSUPP_GRP_TYPE then ''Attribute type is not a supported grouping attribute''
      else if status = ATT_ECODE_INSUFF_RESOURCES then ''Insufficient Resources to complete the request''
      else if status = ATT_ECODE_IO then ''Internal application error: I/O''
      else if status = ATT_ECODE_TIMEOUT then ''A timeout occured''
      else if status = ATT_ECODE_ABORTED then ''The operation was aborted''
      else ''Unexpected error code'')"

section \<open>Helpers\<close>

definition get_le16 :: "bytes \<Rightarrow> nat \<Rightarrow> u16 option" where
  "get_le16 b off = do { bs \<leftarrow> mem_read b off 2; Some (le16_of bs) }"

definition put_le16 :: "u16 \<Rightarrow> bytes \<Rightarrow> nat \<Rightarrow> bytes option" where
  "put_le16 v b off = mem_write b off (le16 v)"

text \<open>For a UUID that is not of 16 bits the code swaps the 16 bytes of the union; the callers have
  checked that it is of 128 bits.\<close>

definition put_uuid_le :: "bt_uuid_t \<Rightarrow> bytes \<Rightarrow> nat \<Rightarrow> bytes option" where
  "put_uuid_le src b off =
     (case src of
        BT_UUID16 v \<Rightarrow> put_le16 v b off
      | BT_UUID128 d \<Rightarrow> do { le \<leftarrow> bswap_128 d; mem_write b off le }
      | _ \<Rightarrow> None)"

datatype uuid_type = TYPE_UUID16 | TYPE_UUID128

definition get_uuid :: "uuid_type \<Rightarrow> bytes \<Rightarrow> nat \<Rightarrow> bt_uuid_t option" where
  "get_uuid type b off =
     (case type of
        TYPE_UUID16 \<Rightarrow> do { v \<leftarrow> get_le16 b off; Some (bt_uuid16_create v) }
      | TYPE_UUID128 \<Rightarrow> do {
          bs \<leftarrow> mem_read b off 16;
          be \<leftarrow> bswap_128 bs;
          Some (bt_uuid128_create be)
        })"

text \<open>\<^verbatim>\<open>num\<close> is the length of \<open>al_data\<close>.\<close>

record att_data_list =
  al_len :: u16
  al_data :: "bytes list"

record att_range =
  ar_start :: u16
  ar_end :: u16

definition att_data_list_alloc :: "u16 \<Rightarrow> u16 \<Rightarrow> att_data_list option" where
  "att_data_list_alloc num len =
     (if 255 < len then None
      else Some \<lparr>al_len = len, al_data = replicate (unat num) (replicate (unat len) 0)\<rparr>)"

type_synonym enc_result = "(u16 \<times> bytes option) option"

section \<open>Requests with a handle range and a UUID\<close>

definition enc_read_by_grp_req ::
  "u16 \<Rightarrow> u16 \<Rightarrow> bt_uuid_t option \<Rightarrow> bytes option \<Rightarrow> size_t \<Rightarrow> enc_result" where
  "enc_read_by_grp_req start fin uuid pdu len =
     (case uuid of
        None \<Rightarrow> Some (0, pdu)
      | Some u \<Rightarrow>
          (case (case u of BT_UUID16 _ \<Rightarrow> Some 2 | BT_UUID128 _ \<Rightarrow> Some 16 | _ \<Rightarrow> None) of
             None \<Rightarrow> Some (0, pdu)
           | Some uuid_len \<Rightarrow> do {
               b \<leftarrow> pdu;
               b1 \<leftarrow> store8 b 0 ATT_OP_READ_BY_GROUP_REQ;
               b2 \<leftarrow> put_le16 start b1 1;
               b3 \<leftarrow> put_le16 fin b2 3;
               b4 \<leftarrow> put_uuid_le u b3 5;
               Some (5 + uuid_len, Some b4)
             }))"

text \<open>The out parameters are NULL (\<open>None\<close>) or hold their old value.\<close>

definition dec_read_by_grp_req ::
  "bytes option \<Rightarrow> size_t \<Rightarrow> u16 option \<Rightarrow> u16 option \<Rightarrow> bt_uuid_t option
     \<Rightarrow> (u16 \<times> u16 option \<times> u16 option \<times> bt_uuid_t option) option" where
  "dec_read_by_grp_req pdu len start fin uuid =
     (let fail = Some (0, start, fin, uuid) in
      case pdu of
        None \<Rightarrow> fail
      | Some b \<Rightarrow>
          if start = None \<or> fin = None \<or> uuid = None then fail
          else do {
            op \<leftarrow> load8 b 0;
            (if op \<noteq> ATT_OP_READ_BY_GROUP_REQ then fail
             else (case (if len = 5 + 2 then Some TYPE_UUID16
                         else if len = 5 + 16 then Some TYPE_UUID128 else None) of
                 None \<Rightarrow> fail
               | Some type \<Rightarrow> do {
                   s \<leftarrow> get_le16 b 1;
                   e \<leftarrow> get_le16 b 3;
                   u \<leftarrow> get_uuid type b 5;
                   Some (ucast len, Some s, Some e, Some u)
                 }))
          })"

definition enc_read_by_type_req ::
  "u16 \<Rightarrow> u16 \<Rightarrow> bt_uuid_t option \<Rightarrow> bytes option \<Rightarrow> size_t \<Rightarrow> enc_result" where
  "enc_read_by_type_req start fin uuid pdu len =
     (case uuid of
        None \<Rightarrow> Some (0, pdu)
      | Some u \<Rightarrow>
          (case (case u of BT_UUID16 _ \<Rightarrow> Some 2 | BT_UUID128 _ \<Rightarrow> Some 16 | _ \<Rightarrow> None) of
             None \<Rightarrow> Some (0, pdu)
           | Some uuid_len \<Rightarrow> do {
               b \<leftarrow> pdu;
               b1 \<leftarrow> store8 b 0 ATT_OP_READ_BY_TYPE_REQ;
               b2 \<leftarrow> put_le16 start b1 1;
               b3 \<leftarrow> put_le16 fin b2 3;
               b4 \<leftarrow> put_uuid_le u b3 5;
               Some (5 + uuid_len, Some b4)
             }))"

definition dec_read_by_type_req ::
  "bytes option \<Rightarrow> size_t \<Rightarrow> u16 option \<Rightarrow> u16 option \<Rightarrow> bt_uuid_t option
     \<Rightarrow> (u16 \<times> u16 option \<times> u16 option \<times> bt_uuid_t option) option" where
  "dec_read_by_type_req pdu len start fin uuid =
     (let fail = Some (0, start, fin, uuid) in
      case pdu of
        None \<Rightarrow> fail
      | Some b \<Rightarrow>
          if start = None \<or> fin = None \<or> uuid = None then fail
          else (case (if len = 5 + 2 then Some TYPE_UUID16
                      else if len = 5 + 16 then Some TYPE_UUID128 else None) of
              None \<Rightarrow> fail
            | Some type \<Rightarrow> do {
                op \<leftarrow> load8 b 0;
                (if op \<noteq> ATT_OP_READ_BY_TYPE_REQ then fail
                 else do {
                   s \<leftarrow> get_le16 b 1;
                   e \<leftarrow> get_le16 b 3;
                   u \<leftarrow> get_uuid type b 5;
                   Some (ucast len, Some s, Some e, Some u)
                 })
              }))"

text \<open>\<open>value\<close> is the memory that the caller's value pointer refers to.\<close>

definition enc_find_by_type_req ::
  "u16 \<Rightarrow> u16 \<Rightarrow> bt_uuid_t option \<Rightarrow> bytes \<Rightarrow> size_t \<Rightarrow> bytes option \<Rightarrow> size_t \<Rightarrow> enc_result" where
  "enc_find_by_type_req start fin uuid value vlen pdu len =
     (case pdu of
        None \<Rightarrow> Some (0, None)
      | Some b \<Rightarrow>
          (case uuid of
             Some (BT_UUID16 u) \<Rightarrow> do {
               let vlen = (if len - 7 < vlen then len - 7 else vlen);
               b1 \<leftarrow> store8 b 0 ATT_OP_FIND_BY_TYPE_REQ;
               b2 \<leftarrow> put_le16 start b1 1;
               b3 \<leftarrow> put_le16 fin b2 3;
               b4 \<leftarrow> put_le16 u b3 5;
               (if 0 < vlen
                then do {
                  b5 \<leftarrow> memcpy b4 7 value 0 (unat vlen);
                  Some (7 + ucast vlen, Some b5)
                }
                else Some (7, Some b4))
             }
           | _ \<Rightarrow> Some (0, pdu)))"

definition dec_find_by_type_req ::
  "bytes option \<Rightarrow> size_t \<Rightarrow> u16 \<Rightarrow> u16 \<Rightarrow> bt_uuid_t \<Rightarrow> bytes \<Rightarrow> size_t
     \<Rightarrow> (u16 \<times> u16 \<times> u16 \<times> bt_uuid_t \<times> bytes \<times> size_t) option" where
  "dec_find_by_type_req pdu len start fin uuid value vlen =
     (let fail = Some (0, start, fin, uuid, value, vlen) in
      case pdu of
        None \<Rightarrow> fail
      | Some b \<Rightarrow>
          if len < 7 then fail
          else do {
            op \<leftarrow> load8 b 0;
            (if op \<noteq> ATT_OP_FIND_BY_TYPE_REQ then fail
             else do {
               s \<leftarrow> get_le16 b 1;
               e \<leftarrow> get_le16 b 3;
               u \<leftarrow> get_le16 b 5;
               let vl = len - 7;
               v \<leftarrow> (if 0 < vl then memcpy value 0 b 7 (unat vl) else Some value);
               Some (ucast len, s, e, bt_uuid16_create u, v, vl)
             })
          })"

section \<open>Lists of ranges\<close>

text \<open>The loops that write and read the handle pairs; \<open>offset\<close> is the position in the PDU.\<close>

fun enc_ranges :: "att_range list \<Rightarrow> bytes \<Rightarrow> size_t \<Rightarrow> u16 \<Rightarrow> (u16 \<times> bytes) option" where
  "enc_ranges [] b len offset = Some (offset, b)"
| "enc_ranges (r # rs) b len offset =
     (if len < ucast offset + 4 then Some (offset, b)
      else do {
        b1 \<leftarrow> put_le16 (ar_start r) b (unat offset);
        b2 \<leftarrow> put_le16 (ar_end r) b1 (unat offset + 2);
        enc_ranges rs b2 len (offset + 4)
      })"

definition enc_find_by_type_resp :: "att_range list \<Rightarrow> bytes option \<Rightarrow> size_t \<Rightarrow> enc_result" where
  "enc_find_by_type_resp matches pdu len =
     (case pdu of
        None \<Rightarrow> Some (0, None)
      | Some b \<Rightarrow> do {
          b1 \<leftarrow> store8 b 0 ATT_OP_FIND_BY_TYPE_RESP;
          (offset, b2) \<leftarrow> enc_ranges matches b1 len 1;
          Some (offset, Some b2)
        })"

function dec_ranges :: "bytes \<Rightarrow> nat \<Rightarrow> nat \<Rightarrow> att_range list option" where
  "dec_ranges b len offset =
     (if len < offset + 4 then Some []
      else do {
        s \<leftarrow> get_le16 b offset;
        e \<leftarrow> get_le16 b (offset + 2);
        rs \<leftarrow> dec_ranges b len (offset + 4);
        Some (\<lparr>ar_start = s, ar_end = e\<rparr> # rs)
      })"
  by pat_completeness auto

termination
  by (relation "measure (\<lambda>(b, len, offset). len - offset)") auto

declare dec_ranges.simps [simp del]

definition dec_find_by_type_resp :: "bytes option \<Rightarrow> size_t \<Rightarrow> att_range list option" where
  "dec_find_by_type_resp pdu len =
     (case pdu of
        None \<Rightarrow> Some []
      | Some b \<Rightarrow>
          if len < 5 then Some []
          else do {
            op \<leftarrow> load8 b 0;
            (if op \<noteq> ATT_OP_FIND_BY_TYPE_RESP then Some []
             else if (len - 1) mod 4 \<noteq> 0 then Some []
             else dec_ranges b (unat len) 1)
          })"

section \<open>Attribute data lists\<close>

text \<open>The copy loops of the encoders.  \<open>ptr\<close> is the position in the PDU; the counter \<open>w\<close> is a 16-bit
  variable in the first one and a \<^verbatim>\<open>size_t\<close> in the others.\<close>

fun enc_items16 :: "bytes list \<Rightarrow> u16 \<Rightarrow> bytes \<Rightarrow> size_t \<Rightarrow> nat \<Rightarrow> u16 \<Rightarrow> (u16 \<times> bytes) option" where
  "enc_items16 [] l b len ptr w = Some (w, b)"
| "enc_items16 (d # ds) l b len ptr w =
     (if len < ucast w + ucast l then Some (w, b)
      else do {
        b1 \<leftarrow> memcpy b ptr d 0 (unat l);
        enc_items16 ds l b1 len (ptr + unat l) (w + l)
      })"

fun enc_items :: "bytes list \<Rightarrow> size_t \<Rightarrow> bytes \<Rightarrow> size_t \<Rightarrow> nat \<Rightarrow> size_t \<Rightarrow> (size_t \<times> bytes) option" where
  "enc_items [] l b len ptr w = Some (w, b)"
| "enc_items (d # ds) l b len ptr w =
     (if len < w + l then Some (w, b)
      else do {
        b1 \<leftarrow> memcpy b ptr d 0 (unat l);
        enc_items ds l b1 len (ptr + unat l) (w + l)
      })"

fun dec_items :: "bytes \<Rightarrow> nat \<Rightarrow> nat \<Rightarrow> nat \<Rightarrow> bytes list option" where
  "dec_items b elen 0 ptr = Some []"
| "dec_items b elen (Suc n) ptr = do {
     d \<leftarrow> mem_read b ptr elen;
     ds \<leftarrow> dec_items b elen n (ptr + elen);
     Some (d # ds)
   }"

definition enc_read_by_grp_resp :: "att_data_list option \<Rightarrow> bytes \<Rightarrow> size_t \<Rightarrow> (u16 \<times> bytes) option" where
  "enc_read_by_grp_resp list pdu len =
     (case list of
        None \<Rightarrow> Some (0, pdu)
      | Some l \<Rightarrow>
          if len < ucast (al_len l) + 2 then Some (0, pdu)
          else do {
            b1 \<leftarrow> store8 pdu 0 ATT_OP_READ_BY_GROUP_RESP;
            b2 \<leftarrow> store8 b1 1 (ucast (al_len l));
            enc_items16 (al_data l) (al_len l) b2 len 2 2
          })"

text \<open>The common end of the three list decoders: allocation and the copy loop.  \<open>Some None\<close> is NULL.\<close>

definition dec_data_list :: "bytes \<Rightarrow> size_t \<Rightarrow> u16 \<Rightarrow> att_data_list option option" where
  "dec_data_list pdu len elen =
     (let num = ucast ((len - 2) div ucast elen) :: u16 in
      case att_data_list_alloc num elen of
        None \<Rightarrow> Some None
      | Some l \<Rightarrow> do {
          ds \<leftarrow> dec_items pdu (unat (al_len l)) (unat num) 2;
          Some (Some (l\<lparr>al_data := ds\<rparr>))
        })"

definition dec_read_by_grp_resp :: "bytes \<Rightarrow> size_t \<Rightarrow> att_data_list option option" where
  "dec_read_by_grp_resp pdu len = do {
     op \<leftarrow> load8 pdu 0;
     (if op \<noteq> ATT_OP_READ_BY_GROUP_RESP then Some None
      else if len < 7 then Some None
      else do {
        e \<leftarrow> load8 pdu 1;
        let elen = ucast e;
        (if elen < 5 then Some None
         else if (len - 2) mod ucast elen \<noteq> 0 then Some None
         else dec_data_list pdu len elen)
      })
   }"

definition enc_read_by_type_resp :: "att_data_list option \<Rightarrow> bytes option \<Rightarrow> size_t \<Rightarrow> enc_result" where
  "enc_read_by_type_resp list pdu len =
     (case (list, pdu) of
        (Some al, Some b) \<Rightarrow> do {
          let l = min (len - 2) (ucast (al_len al));
          b1 \<leftarrow> store8 b 0 ATT_OP_READ_BY_TYPE_RESP;
          b2 \<leftarrow> store8 b1 1 (ucast l);
          (w, b3) \<leftarrow> enc_items (al_data al) l b2 len 2 2;
          Some (ucast w, Some b3)
        }
      | _ \<Rightarrow> Some (0, pdu))"

definition dec_read_by_type_resp :: "bytes \<Rightarrow> size_t \<Rightarrow> att_data_list option option" where
  "dec_read_by_type_resp pdu len = do {
     op \<leftarrow> load8 pdu 0;
     (if op \<noteq> ATT_OP_READ_BY_TYPE_RESP then Some None
      else if len < 5 then Some None
      else do {
        e \<leftarrow> load8 pdu 1;
        let elen = ucast e;
        (if elen < 3 then Some None
         else if (len - 2) mod ucast elen \<noteq> 0 then Some None
         else dec_data_list pdu len elen)
      })
   }"

definition enc_find_info_resp ::
  "u8 \<Rightarrow> att_data_list option \<Rightarrow> bytes option \<Rightarrow> size_t \<Rightarrow> enc_result" where
  "enc_find_info_resp format list pdu len =
     (case (pdu, list) of
        (Some b, Some l) \<Rightarrow>
          if len < ucast (al_len l) + 2 then Some (0, pdu)
          else do {
            b1 \<leftarrow> store8 b 0 ATT_OP_FIND_INFO_RESP;
            b2 \<leftarrow> store8 b1 1 format;
            (w, b3) \<leftarrow> enc_items (al_data l) (ucast (al_len l)) b2 len 2 2;
            Some (ucast w, Some b3)
          }
      | _ \<Rightarrow> Some (0, pdu))"

text \<open>The second result is \<^verbatim>\<open>*format\<close>.\<close>

definition dec_find_info_resp ::
  "bytes option \<Rightarrow> size_t \<Rightarrow> u8 option \<Rightarrow> (att_data_list option \<times> u8 option) option" where
  "dec_find_info_resp pdu len format =
     (case (pdu, format) of
        (Some b, Some _) \<Rightarrow> do {
          op \<leftarrow> load8 b 0;
          (if op \<noteq> ATT_OP_FIND_INFO_RESP then Some (None, format)
           else do {
             f \<leftarrow> load8 b 1;
             let elen = (if f = 1 then 2 + 2 else if f = 2 then 2 + 16 else 2);
             l \<leftarrow> dec_data_list b len elen;
             Some (l, Some f)
           })
        }
      | _ \<Rightarrow> Some (None, format))"

section \<open>PDUs with a handle and a value\<close>

definition enc_write_cmd :: "u16 \<Rightarrow> bytes \<Rightarrow> size_t \<Rightarrow> bytes option \<Rightarrow> size_t \<Rightarrow> enc_result" where
  "enc_write_cmd handle value vlen pdu len =
     (case pdu of
        None \<Rightarrow> Some (0, None)
      | Some b \<Rightarrow> do {
          let vlen = (if len - 3 < vlen then len - 3 else vlen);
          b1 \<leftarrow> store8 b 0 ATT_OP_WRITE_CMD;
          b2 \<leftarrow> put_le16 handle b1 1;
          (if 0 < vlen
           then do { b3 \<leftarrow> memcpy b2 3 value 0 (unat vlen); Some (3 + ucast vlen, Some b3) }
           else Some (3, Some b2))
        })"

definition dec_write_cmd ::
  "bytes option \<Rightarrow> size_t \<Rightarrow> u16 option \<Rightarrow> bytes option \<Rightarrow> size_t option
     \<Rightarrow> (u16 \<times> u16 option \<times> bytes option \<times> size_t option) option" where
  "dec_write_cmd pdu len handle value vlen =
     (let fail = Some (0, handle, value, vlen) in
      case (pdu, value) of
        (Some b, Some v) \<Rightarrow>
          if vlen = None \<or> handle = None then fail
          else if len < 3 then fail
          else do {
            op \<leftarrow> load8 b 0;
            (if op \<noteq> ATT_OP_WRITE_CMD then fail
             else do {
               h \<leftarrow> get_le16 b 1;
               v1 \<leftarrow> memcpy v 0 b 3 (unat (len - 3));
               Some (ucast len, Some h, Some v1, Some (len - 3))
             })
          }
      | _ \<Rightarrow> fail)"

definition ATT_SIGNATURE_LEN :: nat where "ATT_SIGNATURE_LEN = 12"

text \<open>\<open>sign m\<close> is what \<^verbatim>\<open>bt_crypto_sign_att\<close> writes for the message \<open>m\<close> with the key and counter given to
  it, or \<open>None\<close> when it fails.\<close>

definition enc_signed_write_cmd ::
  "(bytes \<Rightarrow> bytes option) \<Rightarrow> u16 \<Rightarrow> bytes \<Rightarrow> size_t \<Rightarrow> bytes option \<Rightarrow> size_t \<Rightarrow> enc_result" where
  "enc_signed_write_cmd sign handle value vlen pdu len =
     (case pdu of
        None \<Rightarrow> Some (0, None)
      | Some b \<Rightarrow> do {
          let vlen = (if len - 15 < vlen then len - 15 else vlen);
          b1 \<leftarrow> store8 b 0 ATT_OP_SIGNED_WRITE_CMD;
          b2 \<leftarrow> put_le16 handle b1 1;
          b3 \<leftarrow> (if 0 < vlen then memcpy b2 3 value 0 (unat vlen) else Some b2);
          m \<leftarrow> mem_read b3 0 (unat (3 + vlen));
          (case sign m of
             None \<Rightarrow> Some (0, Some b3)
           | Some sig \<Rightarrow> do {
               b4 \<leftarrow> mem_write b3 (unat (3 + vlen)) sig;
               Some (15 + ucast vlen, Some b4)
             })
        })"

definition dec_signed_write_cmd ::
  "bytes option \<Rightarrow> size_t \<Rightarrow> u16 option \<Rightarrow> bytes option \<Rightarrow> size_t option \<Rightarrow> bytes
     \<Rightarrow> (u16 \<times> u16 option \<times> bytes option \<times> size_t option \<times> bytes) option" where
  "dec_signed_write_cmd pdu len handle value vlen signature =
     (let fail = Some (0, handle, value, vlen, signature) in
      case (pdu, value) of
        (Some b, Some v) \<Rightarrow>
          if vlen = None \<or> handle = None then fail
          else if len < 15 then fail
          else do {
            op \<leftarrow> load8 b 0;
            (if op \<noteq> ATT_OP_SIGNED_WRITE_CMD then fail
             else do {
               let vl = len - 15;
               h \<leftarrow> get_le16 b 1;
               v1 \<leftarrow> memcpy v 0 b 3 (unat vl);
               s1 \<leftarrow> memcpy signature 0 b (3 + unat vl) ATT_SIGNATURE_LEN;
               Some (ucast len, Some h, Some v1, Some vl, s1)
             })
          }
      | _ \<Rightarrow> fail)"

definition enc_write_req :: "u16 \<Rightarrow> bytes \<Rightarrow> size_t \<Rightarrow> bytes option \<Rightarrow> size_t \<Rightarrow> enc_result" where
  "enc_write_req handle value vlen pdu len =
     (case pdu of
        None \<Rightarrow> Some (0, None)
      | Some b \<Rightarrow> do {
          let vlen = (if len - 3 < vlen then len - 3 else vlen);
          b1 \<leftarrow> store8 b 0 ATT_OP_WRITE_REQ;
          b2 \<leftarrow> put_le16 handle b1 1;
          (if 0 < vlen
           then do { b3 \<leftarrow> memcpy b2 3 value 0 (unat vlen); Some (3 + ucast vlen, Some b3) }
           else Some (3, Some b2))
        })"

definition dec_write_req ::
  "bytes option \<Rightarrow> size_t \<Rightarrow> u16 option \<Rightarrow> bytes option \<Rightarrow> size_t option
     \<Rightarrow> (u16 \<times> u16 option \<times> bytes option \<times> size_t option) option" where
  "dec_write_req pdu len handle value vlen =
     (let fail = Some (0, handle, value, vlen) in
      case (pdu, value) of
        (Some b, Some v) \<Rightarrow>
          if vlen = None \<or> handle = None then fail
          else if len < 3 then fail
          else do {
            op \<leftarrow> load8 b 0;
            (if op \<noteq> ATT_OP_WRITE_REQ then fail
             else do {
               h \<leftarrow> get_le16 b 1;
               let vl = len - 3;
               v1 \<leftarrow> (if 0 < vl then memcpy v 0 b 3 (unat vl) else Some v);
               Some (ucast len, Some h, Some v1, Some vl)
             })
          }
      | _ \<Rightarrow> fail)"

definition enc_write_resp :: "bytes option \<Rightarrow> enc_result" where
  "enc_write_resp pdu =
     (case pdu of
        None \<Rightarrow> Some (0, None)
      | Some b \<Rightarrow> do { b1 \<leftarrow> store8 b 0 ATT_OP_WRITE_RESP; Some (1, Some b1) })"

definition dec_write_resp :: "bytes option \<Rightarrow> size_t \<Rightarrow> u16 option" where
  "dec_write_resp pdu len =
     (case pdu of
        None \<Rightarrow> Some 0
      | Some b \<Rightarrow> do {
          op \<leftarrow> load8 b 0;
          Some (if op \<noteq> ATT_OP_WRITE_RESP then 0 else ucast len)
        })"

section \<open>Reads\<close>

definition enc_read_req :: "u16 \<Rightarrow> bytes option \<Rightarrow> size_t \<Rightarrow> enc_result" where
  "enc_read_req handle pdu len =
     (case pdu of
        None \<Rightarrow> Some (0, None)
      | Some b \<Rightarrow> do {
          b1 \<leftarrow> store8 b 0 ATT_OP_READ_REQ;
          b2 \<leftarrow> put_le16 handle b1 1;
          Some (3, Some b2)
        })"

definition enc_read_blob_req :: "u16 \<Rightarrow> u16 \<Rightarrow> bytes option \<Rightarrow> size_t \<Rightarrow> enc_result" where
  "enc_read_blob_req handle offset pdu len =
     (case pdu of
        None \<Rightarrow> Some (0, None)
      | Some b \<Rightarrow> do {
          b1 \<leftarrow> store8 b 0 ATT_OP_READ_BLOB_REQ;
          b2 \<leftarrow> put_le16 handle b1 1;
          b3 \<leftarrow> put_le16 offset b2 3;
          Some (5, Some b3)
        })"

definition dec_read_req :: "bytes option \<Rightarrow> size_t \<Rightarrow> u16 option \<Rightarrow> (u16 \<times> u16 option) option" where
  "dec_read_req pdu len handle =
     (case pdu of
        None \<Rightarrow> Some (0, handle)
      | Some b \<Rightarrow>
          if handle = None then Some (0, handle)
          else if len < 3 then Some (0, handle)
          else do {
            op \<leftarrow> load8 b 0;
            (if op \<noteq> ATT_OP_READ_REQ then Some (0, handle)
             else do { h \<leftarrow> get_le16 b 1; Some (3, Some h) })
          })"

definition dec_read_blob_req ::
  "bytes option \<Rightarrow> size_t \<Rightarrow> u16 option \<Rightarrow> u16 option \<Rightarrow> (u16 \<times> u16 option \<times> u16 option) option" where
  "dec_read_blob_req pdu len handle offset =
     (case pdu of
        None \<Rightarrow> Some (0, handle, offset)
      | Some b \<Rightarrow>
          if handle = None then Some (0, handle, offset)
          else if offset = None then Some (0, handle, offset)
          else if len < 5 then Some (0, handle, offset)
          else do {
            op \<leftarrow> load8 b 0;
            (if op \<noteq> ATT_OP_READ_BLOB_REQ then Some (0, handle, offset)
             else do { h \<leftarrow> get_le16 b 1; off \<leftarrow> get_le16 b 3; Some (5, Some h, Some off) })
          })"

definition enc_read_resp :: "bytes \<Rightarrow> size_t \<Rightarrow> bytes option \<Rightarrow> size_t \<Rightarrow> enc_result" where
  "enc_read_resp value vlen pdu len =
     (case pdu of
        None \<Rightarrow> Some (0, None)
      | Some b \<Rightarrow> do {
          let vlen = (if len - 1 < vlen then len - 1 else vlen);
          b1 \<leftarrow> store8 b 0 ATT_OP_READ_RESP;
          b2 \<leftarrow> memcpy b1 1 value 0 (unat vlen);
          Some (ucast (vlen + 1), Some b2)
        })"

definition enc_read_blob_resp :: "bytes \<Rightarrow> size_t \<Rightarrow> u16 \<Rightarrow> bytes option \<Rightarrow> size_t \<Rightarrow> enc_result" where
  "enc_read_blob_resp value vlen offset pdu len =
     (case pdu of
        None \<Rightarrow> Some (0, None)
      | Some b \<Rightarrow> do {
          let vlen = vlen - ucast offset;
          let vlen = (if len - 1 < vlen then len - 1 else vlen);
          b1 \<leftarrow> store8 b 0 ATT_OP_READ_BLOB_RESP;
          b2 \<leftarrow> memcpy b1 1 value (unat offset) (unat vlen);
          Some (ucast (vlen + 1), Some b2)
        })"

definition ENOBUFS :: int where "ENOBUFS = 105"

text \<open>The result is a 64-bit \<^verbatim>\<open>ssize_t\<close>.\<close>

definition dec_read_resp ::
  "bytes option \<Rightarrow> size_t \<Rightarrow> bytes option \<Rightarrow> size_t \<Rightarrow> (int \<times> bytes option) option" where
  "dec_read_resp pdu len value vlen =
     (case pdu of
        None \<Rightarrow> Some (- EINVAL, value)
      | Some b \<Rightarrow> do {
          op \<leftarrow> load8 b 0;
          (if op \<noteq> ATT_OP_READ_RESP then Some (- EINVAL, value)
           else (case value of
               None \<Rightarrow> Some (sint (len - 1), None)
             | Some v \<Rightarrow>
                 if vlen < len - 1 then Some (- ENOBUFS, value)
                 else do {
                   v1 \<leftarrow> memcpy v 0 b 1 (unat (len - 1));
                   Some (sint (len - 1), Some v1)
                 }))
        })"

definition enc_error_resp :: "u8 \<Rightarrow> u16 \<Rightarrow> u8 \<Rightarrow> bytes \<Rightarrow> size_t \<Rightarrow> (u16 \<times> bytes) option" where
  "enc_error_resp opcode handle status pdu len = do {
     b1 \<leftarrow> store8 pdu 0 ATT_OP_ERROR;
     b2 \<leftarrow> store8 b1 1 opcode;
     b3 \<leftarrow> put_le16 handle b2 2;
     b4 \<leftarrow> store8 b3 4 status;
     Some (5, b4)
   }"

definition enc_find_info_req :: "u16 \<Rightarrow> u16 \<Rightarrow> bytes option \<Rightarrow> size_t \<Rightarrow> enc_result" where
  "enc_find_info_req start fin pdu len =
     (case pdu of
        None \<Rightarrow> Some (0, None)
      | Some b \<Rightarrow> do {
          b1 \<leftarrow> store8 b 0 ATT_OP_FIND_INFO_REQ;
          b2 \<leftarrow> put_le16 start b1 1;
          b3 \<leftarrow> put_le16 fin b2 3;
          Some (5, Some b3)
        })"

definition dec_find_info_req ::
  "bytes option \<Rightarrow> size_t \<Rightarrow> u16 option \<Rightarrow> u16 option \<Rightarrow> (u16 \<times> u16 option \<times> u16 option) option" where
  "dec_find_info_req pdu len start fin =
     (case pdu of
        None \<Rightarrow> Some (0, start, fin)
      | Some b \<Rightarrow>
          if len < 5 then Some (0, start, fin)
          else if start = None \<or> fin = None then Some (0, start, fin)
          else do {
            op \<leftarrow> load8 b 0;
            (if op \<noteq> ATT_OP_FIND_INFO_REQ then Some (0, start, fin)
             else do { s \<leftarrow> get_le16 b 1; e \<leftarrow> get_le16 b 3; Some (5, Some s, Some e) })
          })"

section \<open>Notifications, indications and the MTU\<close>

definition enc_notification :: "u16 \<Rightarrow> bytes \<Rightarrow> size_t \<Rightarrow> bytes option \<Rightarrow> size_t \<Rightarrow> enc_result" where
  "enc_notification handle value vlen pdu len =
     (case pdu of
        None \<Rightarrow> Some (0, None)
      | Some b \<Rightarrow>
          if len < vlen + 3 then Some (0, pdu)
          else do {
            b1 \<leftarrow> store8 b 0 ATT_OP_HANDLE_NOTIFY;
            b2 \<leftarrow> put_le16 handle b1 1;
            b3 \<leftarrow> memcpy b2 3 value 0 (unat vlen);
            Some (ucast (vlen + 3), Some b3)
          })"

definition enc_indication :: "u16 \<Rightarrow> bytes \<Rightarrow> size_t \<Rightarrow> bytes option \<Rightarrow> size_t \<Rightarrow> enc_result" where
  "enc_indication handle value vlen pdu len =
     (case pdu of
        None \<Rightarrow> Some (0, None)
      | Some b \<Rightarrow>
          if len < vlen + 3 then Some (0, pdu)
          else do {
            b1 \<leftarrow> store8 b 0 ATT_OP_HANDLE_IND;
            b2 \<leftarrow> put_le16 handle b1 1;
            b3 \<leftarrow> memcpy b2 3 value 0 (unat vlen);
            Some (ucast (vlen + 3), Some b3)
          })"

definition dec_indication ::
  "bytes option \<Rightarrow> size_t \<Rightarrow> u16 option \<Rightarrow> bytes \<Rightarrow> size_t \<Rightarrow> (u16 \<times> u16 option \<times> bytes) option" where
  "dec_indication pdu len handle value vlen =
     (case pdu of
        None \<Rightarrow> Some (0, handle, value)
      | Some b \<Rightarrow> do {
          op \<leftarrow> load8 b 0;
          (if op \<noteq> ATT_OP_HANDLE_IND then Some (0, handle, value)
           else if len < 3 then Some (0, handle, value)
           else do {
             let dlen = (ucast (min (len - 3) vlen) :: u16);
             h \<leftarrow> (case handle of None \<Rightarrow> Some None | Some _ \<Rightarrow> map_option Some (get_le16 b 1));
             v \<leftarrow> memcpy value 0 b 3 (unat dlen);
             Some (dlen, h, v)
           })
        })"

definition enc_confirmation :: "bytes option \<Rightarrow> size_t \<Rightarrow> enc_result" where
  "enc_confirmation pdu len =
     (case pdu of
        None \<Rightarrow> Some (0, None)
      | Some b \<Rightarrow> do { b1 \<leftarrow> store8 b 0 ATT_OP_HANDLE_CNF; Some (1, Some b1) })"

definition enc_mtu_req :: "u16 \<Rightarrow> bytes option \<Rightarrow> size_t \<Rightarrow> enc_result" where
  "enc_mtu_req mtu pdu len =
     (case pdu of
        None \<Rightarrow> Some (0, None)
      | Some b \<Rightarrow> do {
          b1 \<leftarrow> store8 b 0 ATT_OP_MTU_REQ;
          b2 \<leftarrow> put_le16 mtu b1 1;
          Some (3, Some b2)
        })"

definition dec_mtu_req :: "bytes option \<Rightarrow> size_t \<Rightarrow> u16 option \<Rightarrow> (u16 \<times> u16 option) option" where
  "dec_mtu_req pdu len mtu =
     (case pdu of
        None \<Rightarrow> Some (0, mtu)
      | Some b \<Rightarrow>
          if mtu = None then Some (0, mtu)
          else if len < 3 then Some (0, mtu)
          else do {
            op \<leftarrow> load8 b 0;
            (if op \<noteq> ATT_OP_MTU_REQ then Some (0, mtu)
             else do { m \<leftarrow> get_le16 b 1; Some (3, Some m) })
          })"

definition enc_mtu_resp :: "u16 \<Rightarrow> bytes option \<Rightarrow> size_t \<Rightarrow> enc_result" where
  "enc_mtu_resp mtu pdu len =
     (case pdu of
        None \<Rightarrow> Some (0, None)
      | Some b \<Rightarrow> do {
          b1 \<leftarrow> store8 b 0 ATT_OP_MTU_RESP;
          b2 \<leftarrow> put_le16 mtu b1 1;
          Some (3, Some b2)
        })"

definition dec_mtu_resp :: "bytes option \<Rightarrow> size_t \<Rightarrow> u16 option \<Rightarrow> (u16 \<times> u16 option) option" where
  "dec_mtu_resp pdu len mtu =
     (case pdu of
        None \<Rightarrow> Some (0, mtu)
      | Some b \<Rightarrow>
          if mtu = None then Some (0, mtu)
          else if len < 3 then Some (0, mtu)
          else do {
            op \<leftarrow> load8 b 0;
            (if op \<noteq> ATT_OP_MTU_RESP then Some (0, mtu)
             else do { m \<leftarrow> get_le16 b 1; Some (3, Some m) })
          })"

section \<open>Queued writes\<close>

definition enc_prep_write_req ::
  "u16 \<Rightarrow> u16 \<Rightarrow> bytes \<Rightarrow> size_t \<Rightarrow> bytes option \<Rightarrow> size_t \<Rightarrow> enc_result" where
  "enc_prep_write_req handle offset value vlen pdu len =
     (case pdu of
        None \<Rightarrow> Some (0, None)
      | Some b \<Rightarrow> do {
          let vlen = (if len - 5 < vlen then len - 5 else vlen);
          b1 \<leftarrow> store8 b 0 ATT_OP_PREP_WRITE_REQ;
          b2 \<leftarrow> put_le16 handle b1 1;
          b3 \<leftarrow> put_le16 offset b2 3;
          (if 0 < vlen
           then do { b4 \<leftarrow> memcpy b3 5 value 0 (unat vlen); Some (5 + ucast vlen, Some b4) }
           else Some (5, Some b3))
        })"

definition dec_prep_write_req ::
  "bytes option \<Rightarrow> size_t \<Rightarrow> u16 option \<Rightarrow> u16 option \<Rightarrow> bytes option \<Rightarrow> size_t option
     \<Rightarrow> (u16 \<times> u16 option \<times> u16 option \<times> bytes option \<times> size_t option) option" where
  "dec_prep_write_req pdu len handle offset value vlen =
     (let fail = Some (0, handle, offset, value, vlen) in
      case (pdu, value) of
        (Some b, Some v) \<Rightarrow>
          if handle = None \<or> offset = None \<or> vlen = None then fail
          else if len < 5 then fail
          else do {
            op \<leftarrow> load8 b 0;
            (if op \<noteq> ATT_OP_PREP_WRITE_REQ then fail
             else do {
               h \<leftarrow> get_le16 b 1;
               off \<leftarrow> get_le16 b 3;
               let vl = len - 5;
               v1 \<leftarrow> (if 0 < vl then memcpy v 0 b 5 (unat vl) else Some v);
               Some (ucast len, Some h, Some off, Some v1, Some vl)
             })
          }
      | _ \<Rightarrow> fail)"

definition enc_prep_write_resp ::
  "u16 \<Rightarrow> u16 \<Rightarrow> bytes \<Rightarrow> size_t \<Rightarrow> bytes option \<Rightarrow> size_t \<Rightarrow> enc_result" where
  "enc_prep_write_resp handle offset value vlen pdu len =
     (case pdu of
        None \<Rightarrow> Some (0, None)
      | Some b \<Rightarrow> do {
          let vlen = (if len - 5 < vlen then len - 5 else vlen);
          b1 \<leftarrow> store8 b 0 ATT_OP_PREP_WRITE_RESP;
          b2 \<leftarrow> put_le16 handle b1 1;
          b3 \<leftarrow> put_le16 offset b2 3;
          (if 0 < vlen
           then do { b4 \<leftarrow> memcpy b3 5 value 0 (unat vlen); Some (5 + ucast vlen, Some b4) }
           else Some (5, Some b3))
        })"

definition dec_prep_write_resp ::
  "bytes option \<Rightarrow> size_t \<Rightarrow> u16 option \<Rightarrow> u16 option \<Rightarrow> bytes option \<Rightarrow> size_t option
     \<Rightarrow> (u16 \<times> u16 option \<times> u16 option \<times> bytes option \<times> size_t option) option" where
  "dec_prep_write_resp pdu len handle offset value vlen =
     (let fail = Some (0, handle, offset, value, vlen) in
      case (pdu, value) of
        (Some b, Some v) \<Rightarrow>
          if handle = None \<or> offset = None \<or> vlen = None then fail
          else if len < 5 then fail
          else do {
            op \<leftarrow> load8 b 0;
            (if op \<noteq> ATT_OP_PREP_WRITE_REQ then fail
             else do {
               h \<leftarrow> get_le16 b 1;
               off \<leftarrow> get_le16 b 3;
               let vl = len - 5;
               v1 \<leftarrow> (if 0 < vl then memcpy v 0 b 5 (unat vl) else Some v);
               Some (ucast len, Some h, Some off, Some v1, Some vl)
             })
          }
      | _ \<Rightarrow> fail)"

definition enc_exec_write_req :: "u8 \<Rightarrow> bytes option \<Rightarrow> size_t \<Rightarrow> enc_result" where
  "enc_exec_write_req flags pdu len =
     (case pdu of
        None \<Rightarrow> Some (0, None)
      | Some b \<Rightarrow>
          if 1 < flags then Some (0, pdu)
          else do {
            b1 \<leftarrow> store8 b 0 ATT_OP_EXEC_WRITE_REQ;
            b2 \<leftarrow> store8 b1 1 flags;
            Some (2, Some b2)
          })"

definition dec_exec_write_req :: "bytes option \<Rightarrow> size_t \<Rightarrow> u8 option \<Rightarrow> (u16 \<times> u8 option) option" where
  "dec_exec_write_req pdu len flags =
     (case pdu of
        None \<Rightarrow> Some (0, flags)
      | Some b \<Rightarrow>
          if flags = None then Some (0, flags)
          else if len < 2 then Some (0, flags)
          else do {
            op \<leftarrow> load8 b 0;
            (if op \<noteq> ATT_OP_EXEC_WRITE_REQ then Some (0, flags)
             else do { f \<leftarrow> load8 b 1; Some (2, Some f) })
          })"

definition enc_exec_write_resp :: "bytes option \<Rightarrow> enc_result" where
  "enc_exec_write_resp pdu =
     (case pdu of
        None \<Rightarrow> Some (0, None)
      | Some b \<Rightarrow> do { b1 \<leftarrow> store8 b 0 ATT_OP_EXEC_WRITE_RESP; Some (1, Some b1) })"

definition dec_exec_write_resp :: "bytes option \<Rightarrow> size_t \<Rightarrow> u16 option" where
  "dec_exec_write_resp pdu len =
     (case pdu of
        None \<Rightarrow> Some 0
      | Some b \<Rightarrow>
          if len < 1 then Some 0
          else do {
            op \<leftarrow> load8 b 0;
            Some (if op \<noteq> ATT_OP_EXEC_WRITE_RESP then 0 else ucast len)
          })"

end
