(* ===== verification/Att_Codec.thy ===== *)
theory Att_Codec
  imports Att_Pdu
begin

text \<open>
  The interface between an encoder and a decoder of \<^verbatim>\<open>bluez5/attrib/att.c\<close> as the locale \<open>pdu_codec\<close>, and
  its interpretations on the PDUs of the theory \<open>Att_Pdu\<close>.
\<close>

section \<open>Wire formats and the codec interface\<close>

lemma unat_ucast_u16 [codec_simps]: "unat (ucast (k :: u16) :: size_t) = unat k"
  using unsigned_less [of k, where ?'a = nat] by (simp add: unsigned_ucast_eq take_bit_nat_eq_self)

text \<open>
  What every pair of an encoder and a decoder promises.  \<open>fit n m\<close> is the part of the message \<open>m\<close> that an
  encoder sends when the PDU may hold \<open>n\<close> bytes, \<open>wire\<close> its bytes on the air; \<open>okay n m\<close> says that \<open>m\<close>
  may be given to the encoder with such a PDU.  \<open>out\<close> stands for the caller's memory that the decoder
  fills, large enough by \<open>room\<close>, and \<open>res\<close> is what the decoder then returns.
\<close>

text \<open>An encoder has written the bytes \<open>w\<close> at the start of \<open>b\<close>, nothing else, and returned their number.\<close>

definition emits :: "enc_result \<Rightarrow> bytes \<Rightarrow> bytes \<Rightarrow> bool" where
  "emits r w b \<longleftrightarrow> (\<exists>k. r = Some (k, Some (w @ drop (length w) b)) \<and> unat k = length w)"

lemma emitsI:
  "r = Some (of_nat n, Some (w @ drop n b)) \<Longrightarrow> length w = n \<Longrightarrow> n < 2 ^ 16 \<Longrightarrow> emits r w b"
  by (simp add: emits_def unat_of_nat take_bit_nat_eq_self)

locale pdu_codec =
  fixes wire :: "'m \<Rightarrow> bytes"
    and fit :: "nat \<Rightarrow> 'm \<Rightarrow> 'm"
    and okay :: "nat \<Rightarrow> 'm \<Rightarrow> bool"
    and enc :: "'m \<Rightarrow> bytes \<Rightarrow> size_t \<Rightarrow> enc_result"
    and room :: "'o \<Rightarrow> 'm \<Rightarrow> bool"
    and res :: "'o \<Rightarrow> 'm \<Rightarrow> 'r"
    and dec :: "'o \<Rightarrow> bytes \<Rightarrow> size_t \<Rightarrow> 'r option"
  assumes wire_fits: "okay n m \<Longrightarrow> length (wire (fit n m)) \<le> n"
    and enc_wire: "okay (unat len) m \<Longrightarrow> unat len \<le> length b \<Longrightarrow> unat len < 2 ^ 16 \<Longrightarrow>
      emits (enc m b len) (wire (fit (unat len) m)) b"
    and dec_wire: "okay n m \<Longrightarrow> n < 2 ^ 16 \<Longrightarrow> room out (fit n m) \<Longrightarrow> unat l = length (wire (fit n m)) \<Longrightarrow>
      dec out (wire (fit n m) @ rest) l = Some (res out (fit n m))"
begin

text \<open>The decoder gives back what was sent, the encoder stays within the PDU and leaves the rest of the
  buffer alone.\<close>

lemma roundtrip:
  assumes "okay (unat len) m" "unat len \<le> length b" "unat len < 2 ^ 16"
    and "room out (fit (unat len) m)"
  shows "\<exists>k b'. enc m b len = Some (k, Some b') \<and> unat k \<le> unat len \<and> length b' = length b
           \<and> drop (unat k) b' = drop (unat k) b
           \<and> dec out b' (ucast k) = Some (res out (fit (unat len) m))"
proof -
  let ?w = "wire (fit (unat len) m)"
  have n: "length ?w \<le> unat len"
    by (rule wire_fits [OF assms(1)])
  obtain k where "enc m b len = Some (k, Some (?w @ drop (length ?w) b))" "unat k = length ?w"
    using enc_wire [OF assms(1-3)] by (auto simp: emits_def)
  moreover have "unat (ucast k :: size_t) = length ?w"
    using calculation(2) by (simp add: unat_ucast_u16)
  ultimately show ?thesis
    using n assms(2) dec_wire [OF assms(1,3,4)] by simp
qed

text \<open>Different messages have different bytes.\<close>

lemma wire_inj:
  assumes "okay n m" "okay n m'" "n < 2 ^ 16" "room out (fit n m)" "room out (fit n m')"
    and "wire (fit n m) = wire (fit n m')"
  shows "res out (fit n m) = res out (fit n m')"
proof -
  have "unat (of_nat (length (wire (fit n m))) :: size_t) = length (wire (fit n m))"
    using wire_fits [OF assms(1)] assms(3) by (simp add: unat_of_nat take_bit_nat_eq_self)
  then show ?thesis
    using dec_wire [OF assms(1,3,4), of _ "[]"] dec_wire [OF assms(2,3,5), of _ "[]"] assms(6) by simp
qed

end

section \<open>Buffer lemmas for the PDUs\<close>

lemma le16_of_le16_nil [simp]: "le16_of (le16 v) = v"
  using le16_of_le16 [of v "[]"] by simp

lemma store8_0 [mem_simps]: "0 < length b \<Longrightarrow> store8 b 0 v = Some (v # drop (Suc 0) b)"
  by (cases b) (simp_all add: store8_def mem_write_0)

lemma store8_1 [mem_simps]: "0 < length b \<Longrightarrow> store8 (x # b) (Suc 0) v = Some (x # v # drop (Suc 0) b)"
  by (cases b) (simp_all add: store8_def mem_simps)

lemma put_le16_at [mem_simps]:
  "length xs = i \<Longrightarrow> 2 \<le> length b \<Longrightarrow> put_le16 v (xs @ b) i = Some (xs @ le16 v @ drop 2 b)"
  by (simp add: put_le16_def mem_simps)

lemma put_le16_Cons_Suc [mem_simps]: "put_le16 v (x # b) (Suc i) = map_option ((#) x) (put_le16 v b i)"
  by (simp add: put_le16_def mem_simps)

lemma put_le16_Cons_numeral [mem_simps]:
  "put_le16 v (x # b) (numeral k) = map_option ((#) x) (put_le16 v b (pred_numeral k))"
  by (simp add: put_le16_def mem_simps)

lemma put_le16_0 [mem_simps]: "2 \<le> length b \<Longrightarrow> put_le16 v b 0 = Some (le16 v @ drop 2 b)"
  by (simp add: put_le16_def mem_simps)

lemma get_le16_Cons_Suc [mem_simps]: "get_le16 (x # b) (Suc i) = get_le16 b i"
  by (simp add: get_le16_def mem_simps)

lemma get_le16_Cons_numeral [mem_simps]: "get_le16 (x # b) (numeral k) = get_le16 b (pred_numeral k)"
  by (simp add: get_le16_def mem_simps)

lemma get_le16_0 [mem_simps]: "get_le16 (le16 v @ r) 0 = Some v"
  by (simp add: get_le16_def mem_simps)

lemma mem_read_skip [mem_simps]: "2 \<le> i \<Longrightarrow> mem_read (le16 v @ r) i n = mem_read r (i - 2) n"
  by (auto simp: mem_read_def)

lemma mem_write_skip [mem_simps]:
  "2 \<le> i \<Longrightarrow> mem_write (le16 v @ r) i bs = map_option ((@) (le16 v)) (mem_write r (i - 2) bs)"
  by (auto simp: mem_write_def)

lemma get_le16_skip [mem_simps]: "2 \<le> i \<Longrightarrow> get_le16 (le16 v @ r) i = get_le16 r (i - 2)"
  by (simp add: get_le16_def mem_simps)

lemma put_le16_skip [mem_simps]:
  "2 \<le> i \<Longrightarrow> put_le16 x (le16 v @ r) i = map_option ((@) (le16 v)) (put_le16 x r (i - 2))"
  by (simp add: put_le16_def mem_simps)

lemma memcpy_front [mem_simps]:
  "n \<le> length src \<Longrightarrow> memcpy dst off src 0 n = mem_write dst off (take n src)"
  by (simp add: memcpy_def mem_simps)

lemma memcpy_Cons_Suc [mem_simps]: "memcpy dst off (x # src) (Suc i) n = memcpy dst off src i n"
  by (simp add: memcpy_def mem_simps)

lemma memcpy_Cons_numeral [mem_simps]:
  "memcpy dst off (x # src) (numeral k) n = memcpy dst off src (pred_numeral k) n"
  by (simp add: memcpy_def mem_simps)

lemma memcpy_skip [mem_simps]: "2 \<le> i \<Longrightarrow> memcpy dst off (le16 v @ src) i n = memcpy dst off src (i - 2) n"
  by (simp add: memcpy_def mem_simps)

lemma unat_of_nat_size [codec_simps]: "n < 2 ^ 16 \<Longrightarrow> unat (of_nat n :: size_t) = n"
  by (simp add: unat_of_nat take_bit_nat_eq_self)

lemma of_nat_size_pos [codec_simps]: "n < 2 ^ 16 \<Longrightarrow> 0 < (of_nat n :: size_t) \<longleftrightarrow> 0 < n"
  by (simp add: word_less_nat_alt codec_simps)

lemma ucast_of_nat_size [codec_simps]: "n < 2 ^ 16 \<Longrightarrow> ucast (of_nat n :: size_t) = (of_nat n :: u16)"
  by (metis of_nat_unat unat_of_nat_size)

text \<open>The part of a value that fits behind a header of \<open>hdr\<close> bytes in a PDU of \<open>n\<close> bytes, and the
  expression by which the encoders compute its length.\<close>

definition clip :: "nat \<Rightarrow> nat \<Rightarrow> bytes \<Rightarrow> bytes" where
  "clip hdr n v = take (n - hdr) v"

lemma length_clip [simp]: "length (clip hdr n v) = min (n - hdr) (length v)"
  by (simp add: clip_def)

lemma take_clip [simp]: "take (min (n - hdr) (length v)) v = clip hdr n v"
  by (simp add: clip_def min_def)

lemma clamp_clip:
  assumes "unat k \<le> unat (len :: size_t)" "length v < 2 ^ 64"
  shows "(if len - k < of_nat (length v) then len - k else of_nat (length v))
           = of_nat (length (clip (unat k) (unat len) v))"
proof -
  have "unat (len - k) = unat len - unat k"
    using assms by (simp add: unat_sub word_le_nat_alt)
  moreover have "unat (of_nat (length v) :: size_t) = length v"
    using assms by (simp add: unat_of_nat take_bit_nat_eq_self)
  ultimately show ?thesis
    using assms(2) by (auto simp: word_less_nat_alt min_def word_unat_eq_iff unat_of_nat take_bit_nat_eq_self)
qed

text \<open>What the encoders of a value rely on, for a header of \<open>k\<close> bytes.\<close>

lemma clip_facts:
  assumes "unat (k :: size_t) = j" "0 < j" "j \<le> unat len" "unat len \<le> length b" "unat len < 2 ^ 16"
    and "length v < 2 ^ 64" "c = clip j (unat len) v"
  shows "(if len - k < of_nat (length v) then len - k else of_nat (length v)) = (of_nat (length c) :: size_t)"
    and "length c \<le> length v" "j + length c \<le> length b" "length c < 65536" "take (length c) v = c"
    and "j + length c < 65536" "b \<noteq> []"
  using assms clamp_clip [of k len v] by auto

text \<open>What the decoders of a value rely on.\<close>

lemma tail_facts:
  assumes "unat len = unat (k :: size_t) + n" "unat len < 2 ^ 16"
  shows "\<not> len < k" "unat (len - k) = n" "len - k = of_nat n" "n < 65536" "len = k + of_nat n"
proof -
  show *: "\<not> len < k" "n < 65536" "unat (len - k) = n"
    using assms by (auto simp: word_less_nat_alt unat_sub word_le_nat_alt)
  then show "len - k = of_nat n"
    by (simp add: word_unat_eq_iff unat_of_nat take_bit_nat_eq_self)
  then show "len = k + of_nat n"
    by (simp add: algebra_simps)
qed

lemma ucast_size: "unat (len :: size_t) = n \<Longrightarrow> (ucast len :: u16) = of_nat n"
  by auto

subsection \<open>A handle and a value\<close>

lemma enc_write_cmd_wire:
  assumes "3 \<le> unat len" "unat len \<le> length b" "unat len < 2 ^ 16" "length v < 2 ^ 64"
    and "c = clip 3 (unat len) v"
  shows "emits (enc_write_cmd h v (of_nat (length v)) (Some b) len) (ATT_OP_WRITE_CMD # le16 h @ c) b"
  using clip_facts [of 3 3, OF _ _ assms]
  by (intro emitsI [of _ "length c + 3"]; cases "c = []")
    (simp_all add: enc_write_cmd_def Let_def mem_simps codec_simps)

lemma dec_write_cmd_wire:
  assumes "unat len = 3 + length v" "unat len < 2 ^ 16" "length v \<le> length out"
  shows "dec_write_cmd (Some (ATT_OP_WRITE_CMD # le16 h @ v @ rest)) len (Some h0) (Some out) (Some n0)
    = Some (of_nat (3 + length v), Some h, Some (v @ drop (length v) out), Some (of_nat (length v)))"
  using assms(3) tail_facts [of len 3 "length v"] assms(1,2) ucast_size [OF assms(1)]
  by (cases "v = []") (simp_all add: dec_write_cmd_def Let_def mem_simps codec_simps)

interpretation write_cmd: pdu_codec
  "\<lambda>(h, v). ATT_OP_WRITE_CMD # le16 h @ v"
  "\<lambda>n (h, v). (h, clip 3 n v)"
  "\<lambda>n (h, v). 3 \<le> n \<and> length v < 2 ^ 64"
  "\<lambda>(h, v) b len. enc_write_cmd h v (of_nat (length v)) (Some b) len"
  "\<lambda>(h0, out, n0) (h, v). length v \<le> length out"
  "\<lambda>(h0, out, n0) (h, v). (of_nat (3 + length v), Some h, Some (v @ drop (length v) out),
     Some (of_nat (length v)))"
  "\<lambda>(h0, out, n0) b len. dec_write_cmd (Some b) len (Some h0) (Some out) (Some n0)"
  by unfold_locales (auto simp: enc_write_cmd_wire dec_write_cmd_wire)

lemma enc_write_req_wire:
  assumes "3 \<le> unat len" "unat len \<le> length b" "unat len < 2 ^ 16" "length v < 2 ^ 64"
    and "c = clip 3 (unat len) v"
  shows "emits (enc_write_req h v (of_nat (length v)) (Some b) len) (ATT_OP_WRITE_REQ # le16 h @ c) b"
  using clip_facts [of 3 3, OF _ _ assms]
  by (intro emitsI [of _ "length c + 3"]; cases "c = []")
    (simp_all add: enc_write_req_def Let_def mem_simps codec_simps)

lemma dec_write_req_wire:
  assumes "unat len = 3 + length v" "unat len < 2 ^ 16" "length v \<le> length out"
  shows "dec_write_req (Some (ATT_OP_WRITE_REQ # le16 h @ v @ rest)) len (Some h0) (Some out) (Some n0)
    = Some (of_nat (3 + length v), Some h, Some (v @ drop (length v) out), Some (of_nat (length v)))"
  using assms(3) tail_facts [of len 3 "length v"] assms(1,2) ucast_size [OF assms(1)]
  by (cases "v = []") (simp_all add: dec_write_req_def Let_def mem_simps codec_simps)

interpretation write_req: pdu_codec
  "\<lambda>(h, v). ATT_OP_WRITE_REQ # le16 h @ v"
  "\<lambda>n (h, v). (h, clip 3 n v)"
  "\<lambda>n (h, v). 3 \<le> n \<and> length v < 2 ^ 64"
  "\<lambda>(h, v) b len. enc_write_req h v (of_nat (length v)) (Some b) len"
  "\<lambda>(h0, out, n0) (h, v). length v \<le> length out"
  "\<lambda>(h0, out, n0) (h, v). (of_nat (3 + length v), Some h, Some (v @ drop (length v) out),
     Some (of_nat (length v)))"
  "\<lambda>(h0, out, n0) b len. dec_write_req (Some b) len (Some h0) (Some out) (Some n0)"
  by unfold_locales (auto simp: enc_write_req_wire dec_write_req_wire)

lemma enc_prep_write_req_wire:
  assumes "5 \<le> unat len" "unat len \<le> length b" "unat len < 2 ^ 16" "length v < 2 ^ 64"
    and "c = clip 5 (unat len) v"
  shows "emits (enc_prep_write_req h off v (of_nat (length v)) (Some b) len)
           (ATT_OP_PREP_WRITE_REQ # le16 h @ le16 off @ c) b"
  using clip_facts [of 5 5, OF _ _ assms]
  by (intro emitsI [of _ "length c + 5"]; cases "c = []")
    (simp_all add: enc_prep_write_req_def Let_def mem_simps codec_simps)

lemma dec_prep_write_req_wire:
  assumes "unat len = 5 + length v" "unat len < 2 ^ 16" "length v \<le> length out"
  shows "dec_prep_write_req (Some (ATT_OP_PREP_WRITE_REQ # le16 h @ le16 off @ v @ rest)) len
           (Some h0) (Some off0) (Some out) (Some n0)
    = Some (of_nat (5 + length v), Some h, Some off, Some (v @ drop (length v) out), Some (of_nat (length v)))"
  using assms(3) tail_facts [of len 5 "length v"] assms(1,2) ucast_size [OF assms(1)]
  by (cases "v = []") (simp_all add: dec_prep_write_req_def Let_def mem_simps codec_simps)

interpretation prep_write_req: pdu_codec
  "\<lambda>(h, off, v). ATT_OP_PREP_WRITE_REQ # le16 h @ le16 off @ v"
  "\<lambda>n (h, off, v). (h, off, clip 5 n v)"
  "\<lambda>n (h, off, v). 5 \<le> n \<and> length v < 2 ^ 64"
  "\<lambda>(h, off, v) b len. enc_prep_write_req h off v (of_nat (length v)) (Some b) len"
  "\<lambda>(h0, off0, out, n0) (h, off, v). length v \<le> length out"
  "\<lambda>(h0, off0, out, n0) (h, off, v). (of_nat (5 + length v), Some h, Some off,
     Some (v @ drop (length v) out), Some (of_nat (length v)))"
  "\<lambda>(h0, off0, out, n0) b len. dec_prep_write_req (Some b) len (Some h0) (Some off0) (Some out) (Some n0)"
  by unfold_locales (auto simp: enc_prep_write_req_wire dec_prep_write_req_wire)

lemma enc_find_by_type_req_wire:
  assumes "7 \<le> unat len" "unat len \<le> length b" "unat len < 2 ^ 16" "length v < 2 ^ 64"
    and "c = clip 7 (unat len) v"
  shows "emits (enc_find_by_type_req s e (Some (BT_UUID16 u)) v (of_nat (length v)) (Some b) len)
           (ATT_OP_FIND_BY_TYPE_REQ # le16 s @ le16 e @ le16 u @ c) b"
  using clip_facts [of 7 7, OF _ _ assms]
  by (intro emitsI [of _ "length c + 7"]; cases "c = []")
    (simp_all add: enc_find_by_type_req_def Let_def mem_simps codec_simps)

lemma dec_find_by_type_req_wire:
  assumes "unat len = 7 + length v" "unat len < 2 ^ 16" "length v \<le> length out"
  shows "dec_find_by_type_req (Some (ATT_OP_FIND_BY_TYPE_REQ # le16 s @ le16 e @ le16 u @ v @ rest)) len
           s0 e0 u0 out n0
    = Some (of_nat (7 + length v), s, e, BT_UUID16 u, v @ drop (length v) out, of_nat (length v))"
  using assms(3) tail_facts [of len 7 "length v"] assms(1,2) ucast_size [OF assms(1)]
  by (cases "v = []")
    (simp_all add: dec_find_by_type_req_def Let_def mem_simps codec_simps bt_uuid16_create_def)

interpretation find_by_type_req: pdu_codec
  "\<lambda>(s, e, u, v). ATT_OP_FIND_BY_TYPE_REQ # le16 s @ le16 e @ le16 u @ v"
  "\<lambda>n (s, e, u, v). (s, e, u, clip 7 n v)"
  "\<lambda>n (s, e, u, v). 7 \<le> n \<and> length v < 2 ^ 64"
  "\<lambda>(s, e, u, v) b len. enc_find_by_type_req s e (Some (BT_UUID16 u)) v (of_nat (length v)) (Some b) len"
  "\<lambda>(s0, e0, u0, out, n0) (s, e, u, v). length v \<le> length out"
  "\<lambda>(s0, e0, u0, out, n0) (s, e, u, v). (of_nat (7 + length v), s, e, BT_UUID16 u,
     v @ drop (length v) out, of_nat (length v))"
  "\<lambda>(s0, e0, u0, out, n0) b len. dec_find_by_type_req (Some b) len s0 e0 u0 out n0"
  by unfold_locales (auto simp: enc_find_by_type_req_wire dec_find_by_type_req_wire)

text \<open>The indication: the decoder also limits the value to the size of the caller's buffer.\<close>

lemma enc_indication_wire:
  assumes "3 + length v \<le> unat len" "unat len \<le> length b" "unat len < 2 ^ 16"
  shows "emits (enc_indication h v (of_nat (length v)) (Some b) len) (ATT_OP_HANDLE_IND # le16 h @ v) b"
proof -
  have "\<not> len < of_nat (length v) + 3" "b \<noteq> []"
    using assms by (auto simp: word_less_nat_alt unat_word_ariths unat_of_nat take_bit_nat_eq_self)
  then show ?thesis
    using assms ucast_of_nat_size [of "length v + 3"]
    by (intro emitsI [of _ "length v + 3"])
      (simp_all add: enc_indication_def Let_def mem_simps codec_simps)
qed

lemma dec_indication_wire:
  assumes "unat len = 3 + length v" "unat len < 2 ^ 16" "length v \<le> length out" "length out < 2 ^ 64"
  shows "dec_indication (Some (ATT_OP_HANDLE_IND # le16 h @ v @ rest)) len (Some h0) out (of_nat (length out))
    = Some (of_nat (length v), Some h, v @ drop (length v) out)"
proof -
  have "min (len - 3) (of_nat (length out)) = of_nat (length v)"
    using assms tail_facts [of len 3 "length v"]
    by (simp add: min_def word_le_nat_alt unat_of_nat take_bit_nat_eq_self)
  moreover have "unat (of_nat (length v) :: u16) = length v"
    using assms by (simp add: unat_of_nat take_bit_nat_eq_self)
  ultimately show ?thesis
    using assms(3) tail_facts [of len 3 "length v"] assms(1,2)
    by (simp add: dec_indication_def Let_def mem_simps codec_simps)
qed

interpretation indication: pdu_codec
  "\<lambda>(h, v). ATT_OP_HANDLE_IND # le16 h @ v"
  "\<lambda>n m. m"
  "\<lambda>n (h, v). 3 + length v \<le> n"
  "\<lambda>(h, v) b len. enc_indication h v (of_nat (length v)) (Some b) len"
  "\<lambda>(h0, out) (h, v). length v \<le> length out \<and> length out < 2 ^ 64"
  "\<lambda>(h0, out) (h, v). (of_nat (length v), Some h, v @ drop (length v) out)"
  "\<lambda>(h0, out) b len. dec_indication (Some b) len (Some h0) out (of_nat (length out))"
  by unfold_locales (auto simp: enc_indication_wire dec_indication_wire)

subsection \<open>PDUs of a fixed size\<close>

interpretation read_req: pdu_codec
  "\<lambda>h. ATT_OP_READ_REQ # le16 h"
  "\<lambda>n m. m"
  "\<lambda>n h. 3 \<le> n"
  "\<lambda>h b len. enc_read_req h (Some b) len"
  "\<lambda>_ _. True"
  "\<lambda>_ h. (3, Some h)"
  "\<lambda>h0 b len. dec_read_req (Some b) len (Some h0)"
proof (unfold_locales, goal_cases)
  case (2 len m b)
  then have "b \<noteq> []" "3 \<le> length b"
    by (auto split: prod.splits)
  then show ?case
    by (cases m; intro emitsI [of _ 3]) (simp_all add: enc_read_req_def mem_simps)
qed (auto simp: dec_read_req_def mem_simps word_less_nat_alt)

interpretation mtu_req: pdu_codec
  "\<lambda>h. ATT_OP_MTU_REQ # le16 h"
  "\<lambda>n m. m"
  "\<lambda>n h. 3 \<le> n"
  "\<lambda>h b len. enc_mtu_req h (Some b) len"
  "\<lambda>_ _. True"
  "\<lambda>_ h. (3, Some h)"
  "\<lambda>h0 b len. dec_mtu_req (Some b) len (Some h0)"
proof (unfold_locales, goal_cases)
  case (2 len m b)
  then have "b \<noteq> []" "3 \<le> length b"
    by (auto split: prod.splits)
  then show ?case
    by (cases m; intro emitsI [of _ 3]) (simp_all add: enc_mtu_req_def mem_simps)
qed (auto simp: dec_mtu_req_def mem_simps word_less_nat_alt)

interpretation mtu_resp: pdu_codec
  "\<lambda>h. ATT_OP_MTU_RESP # le16 h"
  "\<lambda>n m. m"
  "\<lambda>n h. 3 \<le> n"
  "\<lambda>h b len. enc_mtu_resp h (Some b) len"
  "\<lambda>_ _. True"
  "\<lambda>_ h. (3, Some h)"
  "\<lambda>h0 b len. dec_mtu_resp (Some b) len (Some h0)"
proof (unfold_locales, goal_cases)
  case (2 len m b)
  then have "b \<noteq> []" "3 \<le> length b"
    by (auto split: prod.splits)
  then show ?case
    by (cases m; intro emitsI [of _ 3]) (simp_all add: enc_mtu_resp_def mem_simps)
qed (auto simp: dec_mtu_resp_def mem_simps word_less_nat_alt)

interpretation read_blob_req: pdu_codec
  "\<lambda>(h, off). ATT_OP_READ_BLOB_REQ # le16 h @ le16 off"
  "\<lambda>n m. m"
  "\<lambda>n (h, off). 5 \<le> n"
  "\<lambda>(h, off) b len. enc_read_blob_req h off (Some b) len"
  "\<lambda>_ _. True"
  "\<lambda>_ (h, off). (5, Some h, Some off)"
  "\<lambda>(h0, off0) b len. dec_read_blob_req (Some b) len (Some h0) (Some off0)"
proof (unfold_locales, goal_cases)
  case (2 len m b)
  then have "b \<noteq> []" "5 \<le> length b"
    by (auto split: prod.splits)
  then show ?case
    by (cases m; intro emitsI [of _ 5]) (simp_all add: enc_read_blob_req_def mem_simps)
qed (auto simp: dec_read_blob_req_def mem_simps word_less_nat_alt)

interpretation find_info_req: pdu_codec
  "\<lambda>(h, off). ATT_OP_FIND_INFO_REQ # le16 h @ le16 off"
  "\<lambda>n m. m"
  "\<lambda>n (h, off). 5 \<le> n"
  "\<lambda>(h, off) b len. enc_find_info_req h off (Some b) len"
  "\<lambda>_ _. True"
  "\<lambda>_ (h, off). (5, Some h, Some off)"
  "\<lambda>(h0, off0) b len. dec_find_info_req (Some b) len (Some h0) (Some off0)"
proof (unfold_locales, goal_cases)
  case (2 len m b)
  then have "b \<noteq> []" "5 \<le> length b"
    by (auto split: prod.splits)
  then show ?case
    by (cases m; intro emitsI [of _ 5]) (simp_all add: enc_find_info_req_def mem_simps)
qed (auto simp: dec_find_info_req_def mem_simps word_less_nat_alt)

interpretation exec_write_req: pdu_codec
  "\<lambda>fl. [ATT_OP_EXEC_WRITE_REQ, fl]"
  "\<lambda>n m. m"
  "\<lambda>n fl. 2 \<le> n \<and> fl \<le> 1"
  "\<lambda>fl b len. enc_exec_write_req fl (Some b) len"
  "\<lambda>_ _. True"
  "\<lambda>_ fl. (2, Some fl)"
  "\<lambda>f0 b len. dec_exec_write_req (Some b) len (Some f0)"
proof (unfold_locales, goal_cases)
  case (2 len m b)
  then have "b \<noteq> []" "2 \<le> length b" "\<not> 1 < m"
    by auto
  then show ?case
    by (intro emitsI [of _ 2]) (simp_all add: enc_exec_write_req_def mem_simps numeral_2_eq_2 [symmetric])
qed (auto simp: dec_exec_write_req_def mem_simps word_less_nat_alt)

subsection \<open>Requests with a UUID\<close>

text \<open>The UUIDs that the protocol carries, and their bytes on the air.\<close>

fun att_uuid :: "bt_uuid_t \<Rightarrow> bool" where
  "att_uuid (BT_UUID16 _) = True"
| "att_uuid (BT_UUID128 d) = (length d = 16)"
| "att_uuid _ = False"

fun uuid_wire :: "bt_uuid_t \<Rightarrow> bytes" where
  "uuid_wire (BT_UUID16 v) = le16 v"
| "uuid_wire (BT_UUID128 d) = rev d"
| "uuid_wire _ = []"

lemma enc_read_by_grp_req_wire:
  assumes "5 + length (uuid_wire u) \<le> length b" "att_uuid u"
  shows "emits (enc_read_by_grp_req s e (Some u) (Some b) len) (ATT_OP_READ_BY_GROUP_REQ # le16 s @ le16 e @ uuid_wire u) b"
proof -
  have "b \<noteq> []"
    using assms by auto
  then show ?thesis
    using assms
    by (cases u; intro emitsI [of _ "5 + length (uuid_wire u)"])
      (simp_all add: enc_read_by_grp_req_def put_uuid_le_def bswap_128_def mem_simps)
qed

lemma dec_read_by_grp_req_wire:
  assumes "unat len = 5 + length (uuid_wire u)" "att_uuid u"
  shows "dec_read_by_grp_req (Some (ATT_OP_READ_BY_GROUP_REQ # le16 s @ le16 e @ uuid_wire u @ rest)) len
           (Some s0) (Some e0) (Some u0) = Some (of_nat (unat len), Some s, Some e, Some u)"
proof (cases u)
  case (BT_UUID16 v)
  then have "len = 7"
    using assms by (simp add: word_unat_eq_iff)
  then show ?thesis
    using BT_UUID16 by (simp add: dec_read_by_grp_req_def get_uuid_def bt_uuid16_create_def mem_simps)
next
  case (BT_UUID128 d)
  then have "len = 21"
    using assms by (simp add: word_unat_eq_iff)
  then show ?thesis
    using BT_UUID128 assms
    by (simp add: dec_read_by_grp_req_def get_uuid_def bt_uuid128_create_def bswap_128_def mem_simps)
qed (use assms in simp_all)

interpretation read_by_grp_req: pdu_codec
  "\<lambda>(s, e, u). ATT_OP_READ_BY_GROUP_REQ # le16 s @ le16 e @ uuid_wire u"
  "\<lambda>n m. m"
  "\<lambda>n (s, e, u). att_uuid u \<and> 5 + length (uuid_wire u) \<le> n"
  "\<lambda>(s, e, u) b len. enc_read_by_grp_req s e (Some u) (Some b) len"
  "\<lambda>_ _. True"
  "\<lambda>_ (s, e, u). (of_nat (5 + length (uuid_wire u)), Some s, Some e, Some u)"
  "\<lambda>(s0, e0, u0) b len. dec_read_by_grp_req (Some b) len (Some s0) (Some e0) (Some u0)"
  by unfold_locales (auto simp: enc_read_by_grp_req_wire dec_read_by_grp_req_wire)

lemma enc_read_by_type_req_wire:
  assumes "5 + length (uuid_wire u) \<le> length b" "att_uuid u"
  shows "emits (enc_read_by_type_req s e (Some u) (Some b) len) (ATT_OP_READ_BY_TYPE_REQ # le16 s @ le16 e @ uuid_wire u) b"
proof -
  have "b \<noteq> []"
    using assms by auto
  then show ?thesis
    using assms
    by (cases u; intro emitsI [of _ "5 + length (uuid_wire u)"])
      (simp_all add: enc_read_by_type_req_def put_uuid_le_def bswap_128_def mem_simps)
qed

lemma dec_read_by_type_req_wire:
  assumes "unat len = 5 + length (uuid_wire u)" "att_uuid u"
  shows "dec_read_by_type_req (Some (ATT_OP_READ_BY_TYPE_REQ # le16 s @ le16 e @ uuid_wire u @ rest)) len
           (Some s0) (Some e0) (Some u0) = Some (of_nat (unat len), Some s, Some e, Some u)"
proof (cases u)
  case (BT_UUID16 v)
  then have "len = 7"
    using assms by (simp add: word_unat_eq_iff)
  then show ?thesis
    using BT_UUID16 by (simp add: dec_read_by_type_req_def get_uuid_def bt_uuid16_create_def mem_simps)
next
  case (BT_UUID128 d)
  then have "len = 21"
    using assms by (simp add: word_unat_eq_iff)
  then show ?thesis
    using BT_UUID128 assms
    by (simp add: dec_read_by_type_req_def get_uuid_def bt_uuid128_create_def bswap_128_def mem_simps)
qed (use assms in simp_all)

interpretation read_by_type_req: pdu_codec
  "\<lambda>(s, e, u). ATT_OP_READ_BY_TYPE_REQ # le16 s @ le16 e @ uuid_wire u"
  "\<lambda>n m. m"
  "\<lambda>n (s, e, u). att_uuid u \<and> 5 + length (uuid_wire u) \<le> n"
  "\<lambda>(s, e, u) b len. enc_read_by_type_req s e (Some u) (Some b) len"
  "\<lambda>_ _. True"
  "\<lambda>_ (s, e, u). (of_nat (5 + length (uuid_wire u)), Some s, Some e, Some u)"
  "\<lambda>(s0, e0, u0) b len. dec_read_by_type_req (Some b) len (Some s0) (Some e0) (Some u0)"
  by unfold_locales (auto simp: enc_read_by_type_req_wire dec_read_by_type_req_wire)

subsection \<open>Lists of handle ranges\<close>

fun range_wire :: "att_range list \<Rightarrow> bytes" where
  "range_wire [] = []"
| "range_wire (r # rs) = le16 (ar_start r) @ le16 (ar_end r) @ range_wire rs"

lemma length_range_wire [simp]: "length (range_wire rs) = 4 * length rs"
  by (induction rs) simp_all

text \<open>The loop writes as many ranges as fit.\<close>

lemma enc_ranges_wire:
  assumes "unat len < 2 ^ 16" "unat len \<le> length b" "unat off \<le> unat len" "length xs = unat off"
    and "ys = take ((unat len - unat off) div 4) rs"
  shows "enc_ranges rs (xs @ drop (unat off) b) len off
           = Some (off + of_nat (4 * length ys), xs @ range_wire ys @ drop (unat off + 4 * length ys) b)"
  using assms
proof (induction rs arbitrary: off xs ys)
  case (Cons r rs)
  have u: "unat (ucast off + 4 :: size_t) = unat off + 4"
    using Cons.prems(1,3) by (simp add: unat_word_ariths unat_ucast_u16)
  show ?case
  proof (cases "unat len < unat off + 4")
    case True
    then show ?thesis
      using Cons.prems u by (simp add: word_less_nat_alt)
  next
    case False
    define zs where "zs = take ((unat len - unat (off + 4)) div 4) rs"
    let ?s = "le16 (ar_start r)" and ?e = "le16 (ar_end r)" and ?o = "unat off"
    have o: "unat (off + 4) = ?o + 4"
      using False Cons.prems(1) by (simp add: unat_word_ariths)
    have "(unat len - ?o) div 4 = Suc ((unat len - unat (off + 4)) div 4)"
      using False o by (simp add: le_div_geq)
    then have ys: "ys = r # zs"
      using Cons.prems(5) by (simp add: zs_def)
    have d: "drop 2 (drop (?o + 2) b) = drop (unat (off + 4)) b"
      unfolding o drop_drop by (rule arg_cong [where f = "\<lambda>n. drop n b"]) simp
    have "put_le16 (ar_start r) (xs @ drop ?o b) ?o = Some (xs @ ?s @ drop (?o + 2) b)"
      using Cons.prems False by (subst put_le16_at) (simp_all add: add.commute)
    moreover have "put_le16 (ar_end r) (xs @ ?s @ drop (?o + 2) b) (?o + 2) = Some ((xs @ ?s @ ?e) @ drop (unat (off + 4)) b)"
      using Cons.prems False put_le16_at [of "xs @ ?s" "?o + 2" "drop (?o + 2) b" "ar_end r"] d
      by simp
    moreover have "enc_ranges rs ((xs @ ?s @ ?e) @ drop (unat (off + 4)) b) len (off + 4)
        = Some (off + 4 + of_nat (4 * length zs), (xs @ ?s @ ?e) @ range_wire zs
            @ drop (unat (off + 4) + 4 * length zs) b)"
      using Cons.prems False o by (intro Cons.IH) (simp_all add: zs_def)
    moreover have "\<not> len < ucast off + 4"
      using False u by (simp add: word_less_nat_alt)
    ultimately show ?thesis
      by (simp add: ys o add.assoc del: append_assoc)
  qed
qed simp

lemma dec_ranges_wire:
  "off = length xs \<Longrightarrow> dec_ranges (xs @ range_wire rs @ rest) (off + 4 * length rs) off = Some rs"
proof (induction rs arbitrary: xs off)
  case (Cons r rs)
  let ?s = "le16 (ar_start r)" and ?e = "le16 (ar_end r)"
  have "dec_ranges ((xs @ ?s @ ?e) @ range_wire rs @ rest) (off + 4 + 4 * length rs) (off + 4) = Some rs"
    using Cons.prems by (intro Cons.IH) simp
  moreover have "get_le16 (xs @ ?s @ ?e @ range_wire rs @ rest) off = Some (ar_start r)"
    "get_le16 (xs @ ?s @ ?e @ range_wire rs @ rest) (off + 2) = Some (ar_end r)"
    using Cons.prems by (simp_all add: get_le16_def mem_read_def)
  ultimately show ?case
    by (subst dec_ranges.simps) (simp add: add.assoc)
qed (simp add: dec_ranges.simps)

text \<open>The number of ranges that fit.\<close>

interpretation find_by_type_resp: pdu_codec
  "\<lambda>rs. ATT_OP_FIND_BY_TYPE_RESP # range_wire rs"
  "\<lambda>n rs. take ((n - 1) div 4) rs"
  "\<lambda>n rs. 5 \<le> n \<and> rs \<noteq> []"
  "\<lambda>rs b len. enc_find_by_type_resp rs (Some b) len"
  "\<lambda>_ _. True"
  "\<lambda>_ rs. rs"
  "\<lambda>(_ :: unit) b len. dec_find_by_type_resp (Some b) len"
proof (unfold_locales, goal_cases)
  case (1 n m)
  then show ?case
    using div_times_less_eq_dividend [of "n - 1" 4] by auto
next
  case (2 len m b)
  let ?ys = "take ((unat len - 1) div 4) m"
  have "b \<noteq> []" and l: "1 + 4 * length ?ys < 2 ^ 16"
    using 2 div_times_less_eq_dividend [of "unat len - 1" 4] by auto
  then have "enc_ranges m (ATT_OP_FIND_BY_TYPE_RESP # drop (Suc 0) b) len 1
      = Some (1 + of_nat (4 * length ?ys), ATT_OP_FIND_BY_TYPE_RESP # range_wire ?ys @ drop (1 + 4 * length ?ys) b)"
    using enc_ranges_wire [of len b 1 "[ATT_OP_FIND_BY_TYPE_RESP]" ?ys m] 2 by simp
  then show ?case
    using \<open>b \<noteq> []\<close> l by (intro emitsI [of _ "1 + 4 * length ?ys"])
      (simp_all add: enc_find_by_type_resp_def mem_simps del: of_nat_mult length_take)
next
  case (3 n m out l rest)
  let ?ys = "take ((n - 1) div 4) m"
  have n: "unat l = 1 + 4 * length ?ys" "?ys \<noteq> []"
    using 3 by (auto simp: div_greater_zero_iff)
  then have "0 < length ?ys" by blast
  then have "\<not> l < 5" "unat ((l - 1) mod 4) = 0"
    using n(1) by (auto simp: word_less_nat_alt unat_mod unat_sub word_le_nat_alt simp del: length_take)
  then show ?case
    using n dec_ranges_wire [of 1 "[ATT_OP_FIND_BY_TYPE_RESP]" ?ys rest]
    by (auto simp: dec_find_by_type_resp_def mem_simps word_unat_eq_iff simp del: length_take)
qed

subsection \<open>Attribute data lists\<close>

text \<open>The 16-bit counter of \<^verbatim>\<open>enc_read_by_grp_resp\<close> does not overflow, so its loop is the loop of the other
  encoders.\<close>

lemma enc_items16_enc_items:
  assumes "unat len < 2 ^ 16" "ptr = unat w"
  shows "map_option (\<lambda>(n, b'). (ucast n, b')) (enc_items16 ds l b len ptr w)
           = enc_items ds (ucast l) b len ptr (ucast w :: size_t)"
  using assms
proof (induction ds arbitrary: b ptr w)
  case (Cons d ds)
  have s: "unat (ucast w + ucast l :: size_t) = unat w + unat l"
    using unsigned_less [of w, where ?'a = nat] unsigned_less [of l, where ?'a = nat]
    by (simp add: unat_word_ariths unat_ucast_u16)
  show ?case
  proof (cases "len < ucast w + ucast l")
    case False
    then have "unat w + unat l < 2 ^ 16"
      using s Cons.prems(1) by (simp add: word_less_nat_alt)
    then have u: "unat (w + l) = unat w + unat l"
      by (simp add: unat_word_ariths)
    then have "ucast (w + l) = (ucast w + ucast l :: size_t)"
      by (simp add: word_unat_eq_iff unat_ucast_u16 s)
    then show ?thesis
      using False Cons.IH [of "ptr + unat l" "w + l"] Cons.prems u
      by (cases "memcpy b ptr d 0 (unat l)") (simp_all add: unat_ucast_u16)
  qed simp
qed simp

text \<open>The loop copies the first \<open>k\<close> bytes of as many items as fit.\<close>

lemma enc_items_wire:
  assumes "unat len < 2 ^ 16" "unat len \<le> length b" "p \<le> unat len" "length xs = p" "0 < k"
    and "unat l = k" "k < 2 ^ 16" "\<forall>d\<in>set ds. k \<le> length d" "ys = take ((unat len - p) div k) ds"
  shows "enc_items ds l (xs @ drop p b) len p (of_nat p)
           = Some (of_nat (p + k * length ys), xs @ concat (map (take k) ys) @ drop (p + k * length ys) b)"
  using assms
proof (induction ds arbitrary: p xs ys)
  case (Cons d ds)
  have u: "unat (of_nat p + l :: size_t) = p + k"
    using Cons.prems(1,3,6,7) by (simp add: unat_word_ariths unat_of_nat take_bit_nat_eq_self)
  show ?case
  proof (cases "unat len < p + k")
    case True
    then show ?thesis
      using Cons.prems u by (simp add: word_less_nat_alt)
  next
    case False
    define zs where "zs = take ((unat len - (p + k)) div k) ds"
    have "(unat len - p) div k = Suc ((unat len - (p + k)) div k)"
      using False Cons.prems(5) by (simp add: le_div_geq)
    then have ys: "ys = d # zs"
      using Cons.prems(9) by (simp add: zs_def)
    have "memcpy (xs @ drop p b) p d 0 (unat l) = Some ((xs @ take k d) @ drop (p + k) b)"
      using Cons.prems False by (simp add: mem_simps add.commute)
    moreover have "enc_items ds l ((xs @ take k d) @ drop (p + k) b) len (p + k) (of_nat (p + k))
        = Some (of_nat (p + k + k * length zs), (xs @ take k d) @ concat (map (take k) zs)
            @ drop (p + k + k * length zs) b)"
      using Cons.prems False by (intro Cons.IH) (simp_all add: zs_def)
    moreover have "l = of_nat k"
      using Cons.prems(6) by auto
    ultimately show ?thesis
      using False u Cons.prems(6) by (simp add: word_less_nat_alt ys add.assoc del: append_assoc)
  qed
qed simp

lemma dec_items_wire:
  "\<forall>d\<in>set ds. length d = k \<Longrightarrow> p = length xs \<Longrightarrow> dec_items (xs @ concat ds @ rest) k (length ds) p = Some ds"
proof (induction ds arbitrary: xs p)
  case (Cons d ds)
  have "dec_items ((xs @ d) @ concat ds @ rest) k (length ds) (p + k) = Some ds"
    using Cons.prems by (intro Cons.IH) simp_all
  moreover have "mem_read (xs @ d @ concat ds @ rest) p k = Some d"
    using Cons.prems by (simp add: mem_read_def)
  ultimately show ?case
    by simp
qed simp

lemma length_concat_const: "\<forall>d\<in>set ds. length d = k \<Longrightarrow> length (concat ds) = k * length ds"
  by (induction ds) simp_all

lemma dec_data_list_wire:
  assumes "unat len = 2 + unat elen * length ds" "unat len < 2 ^ 16" "0 < elen" "elen \<le> 255"
    and "\<forall>d\<in>set ds. length d = unat elen"
  shows "dec_data_list (oc # c # concat ds @ rest) len elen = Some (Some \<lparr>al_len = elen, al_data = ds\<rparr>)"
    and "(len - 2) mod ucast elen = 0"
proof -
  have l: "unat (len - 2) = unat elen * length ds"
    using assms(1) by (simp add: unat_sub word_le_nat_alt)
  have "0 < unat elen"
    using assms(3) by (simp add: word_less_nat_alt)
  then have d: "unat ((len - 2) div ucast elen) = length ds" "unat ((len - 2) mod ucast elen) = 0"
    using l by (simp_all add: unat_div_distrib unat_mod_distrib unat_ucast_u16)
  show "(len - 2) mod ucast elen = 0"
    using d(2) by (simp add: word_unat_eq_iff)
  have "length ds \<le> unat elen * length ds"
    using \<open>0 < unat elen\<close> by simp
  then have "length ds < 2 ^ 16"
    using assms(1,2) by linarith
  then have "unat (ucast ((len - 2) div ucast elen) :: u16) = length ds"
    using d(1) by (simp add: unsigned_ucast_eq take_bit_nat_eq_self)
  then show "dec_data_list (oc # c # concat ds @ rest) len elen = Some (Some \<lparr>al_len = elen, al_data = ds\<rparr>)"
    using assms(4) dec_items_wire [OF assms(5), of 2 "[oc, c]" rest]
    by (simp add: dec_data_list_def att_data_list_alloc_def not_less [symmetric] Let_def)
qed

definition data_ok :: "att_data_list \<Rightarrow> bool" where
  "data_ok al \<longleftrightarrow> (\<forall>d\<in>set (al_data al). length d = unat (al_len al)) \<and> al_len al \<le> 255 \<and> al_data al \<noteq> []"

text \<open>The items that fit into a PDU of \<open>n\<close> bytes behind its two bytes of header.\<close>

definition fit_list :: "nat \<Rightarrow> att_data_list \<Rightarrow> att_data_list" where
  "fit_list n al = al\<lparr>al_data := take ((n - 2) div unat (al_len al)) (al_data al)\<rparr>"

lemma fit_list_simps [simp]:
  "al_len (fit_list n al) = al_len al"
  "al_data (fit_list n al) = take ((n - 2) div unat (al_len al)) (al_data al)"
  by (simp_all add: fit_list_def)

lemma fit_list_ok:
  assumes "data_ok al" "0 < al_len al" "unat (al_len al) + 2 \<le> n"
  shows "\<forall>d\<in>set (al_data (fit_list n al)). length d = unat (al_len al)"
    and "al_data (fit_list n al) \<noteq> []"
    and "length (concat (al_data (fit_list n al))) = unat (al_len al) * length (al_data (fit_list n al))"
    and "2 + unat (al_len al) * length (al_data (fit_list n al)) \<le> n"
proof -
  show *: "\<forall>d\<in>set (al_data (fit_list n al)). length d = unat (al_len al)"
    using assms(1) by (auto simp: data_ok_def dest: in_set_takeD)
  have "0 < unat (al_len al)"
    using assms(2) by (simp add: word_less_nat_alt)
  then show "al_data (fit_list n al) \<noteq> []"
    using assms by (simp add: data_ok_def div_greater_zero_iff)
  show "length (concat (al_data (fit_list n al))) = unat (al_len al) * length (al_data (fit_list n al))"
    by (rule length_concat_const [OF *])
  have "unat (al_len al) * length (al_data (fit_list n al)) \<le> unat (al_len al) * ((n - 2) div unat (al_len al))"
    by simp
  also have "\<dots> \<le> n - 2"
    by (rule times_div_less_eq_dividend)
  finally show "2 + unat (al_len al) * length (al_data (fit_list n al)) \<le> n"
    using assms(3) by simp
qed

lemma enc_items_list:
  assumes "unat len < 2 ^ 16" "unat len \<le> length b" "data_ok al" "0 < al_len al" "unat (al_len al) + 2 \<le> unat len"
  shows "enc_items (al_data al) (ucast (al_len al)) (oc # c # drop 2 b) len 2 2
           = Some (of_nat (2 + length (concat (al_data (fit_list (unat len) al)))),
               oc # c # concat (al_data (fit_list (unat len) al))
               @ drop (2 + length (concat (al_data (fit_list (unat len) al)))) b)"
proof -
  let ?k = "unat (al_len al)" and ?ys = "al_data (fit_list (unat len) al)"
  have m: "map (take ?k) ?ys = ?ys"
    using fit_list_ok(1) [OF assms(3-5)] by (intro map_idI) simp
  have "enc_items (al_data al) (ucast (al_len al)) ([oc, c] @ drop 2 b) len 2 (of_nat 2)
      = Some (of_nat (2 + ?k * length ?ys), [oc, c] @ concat (map (take ?k) ?ys) @ drop (2 + ?k * length ?ys) b)"
    using assms by (intro enc_items_wire) (auto simp: unat_ucast_u16 data_ok_def word_less_nat_alt word_le_nat_alt)
  then show ?thesis
    unfolding m fit_list_ok(3) [OF assms(3-5)] by (simp del: fit_list_simps(2))
qed

lemma ucast_u8_len: "(l :: u16) \<le> 255 \<Longrightarrow> ucast (ucast l :: u8) = l"
  by (simp add: word_unat_eq_iff unsigned_ucast_eq unsigned_take_bit_eq word_le_nat_alt take_bit_nat_eq_self)

lemma ucast_u8_via_size: "ucast (ucast (l :: u16) :: size_t) = (ucast l :: u8)"
  by (rule bit_word_eqI) (simp add: bit_simps)

lemma emits_sizeI:
  fixes w :: bytes
  assumes "r = Some (ucast (of_nat (length w) :: size_t), Some (w @ drop (length w) b))" "length w < 2 ^ 16"
  shows "emits r w b"
  using assms by (intro emitsI [of _ "length w"]) (simp_all add: ucast_of_nat_size)

lemma list_len_guard:
  assumes "unat (al_len al) + 2 \<le> unat len"
  shows "\<not> (len :: size_t) < ucast (al_len al) + 2"
  using assms unsigned_less [of "al_len al", where ?'a = nat]
  by (simp add: word_less_nat_alt unat_word_ariths unat_ucast_u16)

lemma dec_list_facts:
  assumes "data_ok al" "0 < al_len al" "unat (al_len al) + 2 \<le> n" "n < 2 ^ 16"
    and "unat l = 2 + length (concat (al_data (fit_list n al)))"
  shows "2 + unat (al_len al) \<le> unat l" "(l - 2) mod ucast (al_len al) = 0"
    and "dec_data_list (oc # c # concat (al_data (fit_list n al)) @ rest) l (al_len al) = Some (Some (fit_list n al))"
proof -
  let ?f = "fit_list n al"
  have f: "unat l = 2 + unat (al_len al) * length (al_data ?f)" "0 < length (al_data ?f)" "unat l < 2 ^ 16"
    using assms fit_list_ok(2-4) [OF assms(1-3)] by (simp_all del: fit_list_simps(2))
  then show "2 + unat (al_len al) \<le> unat l"
    using mult_le_mono2 [of 1 "length (al_data ?f)" "unat (al_len al)"] by linarith
  have a: "al_len al \<le> 255"
    using assms(1) by (simp add: data_ok_def)
  show "(l - 2) mod ucast (al_len al) = 0"
    by (rule dec_data_list_wire(2) [OF f(1,3) assms(2) a fit_list_ok(1) [OF assms(1-3)]])
  show "dec_data_list (oc # c # concat (al_data ?f) @ rest) l (al_len al) = Some (Some ?f)"
    unfolding dec_data_list_wire(1) [OF f(1,3) assms(2) a fit_list_ok(1) [OF assms(1-3)]]
    by (simp add: fit_list_def)
qed

interpretation read_by_grp_resp: pdu_codec
  "\<lambda>al. ATT_OP_READ_BY_GROUP_RESP # ucast (al_len al) # concat (al_data al)"
  fit_list
  "\<lambda>n al. data_ok al \<and> 5 \<le> al_len al \<and> unat (al_len al) + 2 \<le> n"
  "\<lambda>al b len. map_option (\<lambda>(k, b'). (k, Some b')) (enc_read_by_grp_resp (Some al) b len)"
  "\<lambda>_ _. True"
  "\<lambda>_ al. Some al"
  "\<lambda>(_ :: unit) b len. dec_read_by_grp_resp b len"
proof (unfold_locales, goal_cases)
  case (1 n al)
  then have "0 < al_len al" by (auto simp: word_less_nat_alt word_le_nat_alt)
  then show ?case
    using 1 fit_list_ok(3,4) [of al n] by (simp del: fit_list_simps(2))
next
  case (2 len al b)
  let ?w = "concat (al_data (fit_list (unat len) al))"
  have pos: "0 < al_len al"
    using 2 by (auto simp: word_less_nat_alt word_le_nat_alt)
  have ok: "data_ok al" "unat (al_len al) + 2 \<le> unat len"
    using 2(1) by simp_all
  have two: "ucast (2 :: u16) = (2 :: size_t)" "2 = unat (2 :: u16)"
    by simp_all
  have b: "2 \<le> length b" "2 + length ?w < 2 ^ 16"
    using 2 pos fit_list_ok(3,4) [of al "unat len"] by (simp_all del: fit_list_simps(2))
  have "map_option (\<lambda>(n, b'). (ucast n, b')) (enc_items16 (al_data al) (al_len al)
        (ATT_OP_READ_BY_GROUP_RESP # ucast (al_len al) # drop 2 b) len 2 2)
      = Some (of_nat (2 + length ?w) :: size_t,
          ATT_OP_READ_BY_GROUP_RESP # ucast (al_len al) # ?w @ drop (2 + length ?w) b)"
    by (rule trans [OF enc_items16_enc_items [OF 2(3) two(2), unfolded two(1)]
          enc_items_list [OF 2(3,2) ok(1) pos ok(2)]])
  then obtain k where k: "enc_items16 (al_data al) (al_len al)
        (ATT_OP_READ_BY_GROUP_RESP # ucast (al_len al) # drop 2 b) len 2 2
      = Some (k, ATT_OP_READ_BY_GROUP_RESP # ucast (al_len al) # ?w @ drop (2 + length ?w) b)"
      "ucast k = (of_nat (2 + length ?w) :: size_t)"
    by auto
  have "unat k = 2 + length ?w"
    using arg_cong [OF k(2), of unat] unfolding unat_ucast_u16 unat_of_nat_size [OF b(2)] .
  then show ?case
    using k(1) b(1) list_len_guard [OF ok(2)]
    by (cases b; cases "tl b"; simp add: emits_def enc_read_by_grp_resp_def mem_simps del: fit_list_simps(2))
next
  case (3 n al out l rest)
  have pos: "0 < al_len al"
    using 3 by (auto simp: word_less_nat_alt word_le_nat_alt)
  have u: "unat l = 2 + length (concat (al_data (fit_list n al)))"
    using 3(4) by (simp del: fit_list_simps(2))
  note facts = dec_list_facts [OF _ pos _ 3(2) u]
  have "\<not> l < 7" "\<not> al_len al < 5"
    using 3 facts(1) by (simp_all add: word_less_nat_alt word_le_nat_alt del: fit_list_simps(2))
  then show ?case
    using 3(1) facts(2,3)
    by (simp add: dec_read_by_grp_resp_def mem_simps ucast_u8_len data_ok_def del: fit_list_simps(2))
qed

interpretation read_by_type_resp: pdu_codec
  "\<lambda>al. ATT_OP_READ_BY_TYPE_RESP # ucast (al_len al) # concat (al_data al)"
  fit_list
  "\<lambda>n al. data_ok al \<and> 3 \<le> al_len al \<and> unat (al_len al) + 2 \<le> n"
  "\<lambda>al b len. enc_read_by_type_resp (Some al) (Some b) len"
  "\<lambda>_ _. True"
  "\<lambda>_ al. Some al"
  "\<lambda>(_ :: unit) b len. dec_read_by_type_resp b len"
proof (unfold_locales, goal_cases)
  case (1 n al)
  then have "0 < al_len al" by (auto simp: word_less_nat_alt word_le_nat_alt)
  then show ?case
    using 1 fit_list_ok(3,4) [of al n] by (simp del: fit_list_simps(2))
next
  case (2 len al b)
  let ?w = "concat (al_data (fit_list (unat len) al))"
  have pos: "0 < al_len al"
    using 2 by (auto simp: word_less_nat_alt word_le_nat_alt)
  have ok: "data_ok al" "unat (al_len al) + 2 \<le> unat len"
    using 2(1) by simp_all
  have b: "2 \<le> length b" "2 + length ?w < 2 ^ 16"
    using 2 pos fit_list_ok(3,4) [of al "unat len"] by (simp_all del: fit_list_simps(2))
  have "min (len - 2) (ucast (al_len al)) = ucast (al_len al)"
    using ok(2) by (intro min_absorb2) (simp add: word_le_nat_alt unat_sub unat_ucast_u16)
  then show ?case
    using b enc_items_list [OF 2(3,2) ok(1) pos ok(2)]
    by (intro emits_sizeI; cases b; cases "tl b")
      (simp_all add: enc_read_by_type_resp_def mem_simps Let_def ucast_u8_via_size del: fit_list_simps(2))
next
  case (3 n al out l rest)
  have pos: "0 < al_len al"
    using 3 by (auto simp: word_less_nat_alt word_le_nat_alt)
  have u: "unat l = 2 + length (concat (al_data (fit_list n al)))"
    using 3(4) by (simp del: fit_list_simps(2))
  note facts = dec_list_facts [OF _ pos _ 3(2) u]
  have "\<not> l < 5" "\<not> al_len al < 3"
    using 3 facts(1) by (simp_all add: word_less_nat_alt word_le_nat_alt del: fit_list_simps(2))
  then show ?case
    using 3(1) facts(2,3)
    by (simp add: dec_read_by_type_resp_def mem_simps ucast_u8_len data_ok_def del: fit_list_simps(2))
qed

interpretation find_info_resp: pdu_codec
  "\<lambda>(f, al). ATT_OP_FIND_INFO_RESP # f # concat (al_data al)"
  "\<lambda>n (f, al). (f, fit_list n al)"
  "\<lambda>n (f, al). data_ok al \<and> (f = 1 \<and> al_len al = 4 \<or> f = 2 \<and> al_len al = 18) \<and> unat (al_len al) + 2 \<le> n"
  "\<lambda>(f, al) b len. enc_find_info_resp f (Some al) (Some b) len"
  "\<lambda>_ _. True"
  "\<lambda>_ (f, al). (Some al, Some f)"
  "\<lambda>f0 b len. dec_find_info_resp (Some b) len (Some f0)"
proof (unfold_locales, goal_cases)
  case (1 n m)
  then show ?case
    using fit_list_ok(3,4) [of "snd m" n]
    by (cases m) (simp del: fit_list_simps(2), auto simp: word_less_nat_alt simp del: fit_list_simps(2))
next
  case (2 len m b)
  obtain f al where m: "m = (f, al)" by (cases m)
  let ?w = "concat (al_data (fit_list (unat len) al))"
  have ok: "data_ok al" "unat (al_len al) + 2 \<le> unat len" and pos: "0 < al_len al"
    using 2(1) m by auto
  have b: "2 \<le> length b" "2 + length ?w < 2 ^ 16"
    using 2 pos ok fit_list_ok(3,4) [of al "unat len"] by (simp_all del: fit_list_simps(2))
  then show ?case
    using enc_items_list [OF 2(3,2) ok(1) pos ok(2)] list_len_guard [OF ok(2)]
    by (simp only: m prod.case, intro emits_sizeI; cases b; cases "tl b")
      (simp_all add: enc_find_info_resp_def mem_simps del: fit_list_simps(2))
next
  case (3 n m out l rest)
  obtain f al where m: "m = (f, al)" by (cases m)
  have ok: "data_ok al" "unat (al_len al) + 2 \<le> n" and pos: "0 < al_len al"
    using 3(1) m by auto
  have "unat l = 2 + length (concat (al_data (fit_list n al)))"
    using 3(4) m by (simp del: fit_list_simps(2))
  note facts = dec_list_facts [OF ok(1) pos ok(2) 3(2) this]
  show ?case
    using 3(1) m facts(3)
    by (auto simp: dec_find_info_resp_def mem_simps simp del: fit_list_simps(2))
qed

end
