(* ===== verification/Att_Props.thy ===== *)
theory Att_Props
  imports Att_Codec
begin

text \<open>
  The properties of the Attribute Protocol PDUs (\<^verbatim>\<open>bluez5/attrib/att.c\<close>): every decoder reads back what
  its encoder wrote, decoders stay inside the PDU, and the cases in which the code does not do so.
  In the round trips \<open>b\<close> is the PDU buffer, \<open>len\<close> the size given to the encoder, and the arguments with
  index 0 are what the out parameters held before.
\<close>

section \<open>Round trips\<close>

text \<open>C23.  Write Command and Write Request, for a PDU with room for the header (3 bytes) and a result buffer with room
  for the sent part of the value: the encoder sends the handle and as much of the value as fits,
  stays within the PDU, and the decoder gives the handle and exactly the sent bytes back.\<close>

theorem write_pdus_roundtrip:
  assumes "3 \<le> unat len" "unat len \<le> length b" "unat len < 2 ^ 16" "length v < 2 ^ 64"
    and "c = take (unat len - 3) v" "length c \<le> length out"
  shows "(\<exists>k b'. enc_write_cmd h v (of_nat (length v)) (Some b) len = Some (k, Some b')
           \<and> unat k \<le> unat len \<and> length b' = length b \<and> drop (unat k) b' = drop (unat k) b
           \<and> dec_write_cmd (Some b') (ucast k) (Some h0) (Some out) (Some n0)
               = Some (of_nat (3 + length c), Some h, Some (c @ drop (length c) out), Some (of_nat (length c))))
    \<and> (\<exists>k b'. enc_write_req h v (of_nat (length v)) (Some b) len = Some (k, Some b')
           \<and> unat k \<le> unat len \<and> length b' = length b \<and> drop (unat k) b' = drop (unat k) b
           \<and> dec_write_req (Some b') (ucast k) (Some h0) (Some out) (Some n0)
               = Some (of_nat (3 + length c), Some h, Some (c @ drop (length c) out), Some (of_nat (length c))))"
proof -
  have c: "c = clip 3 (unat len) v"
    using assms(5) by (simp add: clip_def)
  show ?thesis
    using write_cmd.roundtrip [of len "(h, v)" b "(h0, out, n0)"]
      write_req.roundtrip [of len "(h, v)" b "(h0, out, n0)"] assms(1-4,6)
    unfolding prod.case c by blast
qed

theorem write_pdus_roundtrip_witness:
  "\<exists>k b'. enc_write_req 0x10 [0x2A] 1 (Some (replicate 23 0)) 23 = Some (k, Some b')
     \<and> dec_write_req (Some b') (ucast k) (Some 0) (Some [0, 0]) (Some 0)
         = Some (4, Some 0x10, Some [0x2A, 0], Some 1)"
  using write_pdus_roundtrip [of 23 "replicate 23 0" "[0x2A]" "[0x2A]" "[0, 0]" "0x10" 0 0] by auto

text \<open>Requests with a longer header: Prepare Write, Find By Type Value (for a 16-bit UUID) and the
  Handle Value Indication, whose decoder limits the value to the caller's buffer.  The first two cut
  the value to the PDU; the indication is refused when it does not fit, so its value is whole.\<close>

theorem value_requests_roundtrip:
  assumes "unat len \<le> length b" "unat len < 2 ^ 16" "length v < 2 ^ 64" "length out < 2 ^ 64" "length v \<le> length out"
  shows "(5 \<le> unat len \<longrightarrow> (\<exists>k b'. enc_prep_write_req h off v (of_nat (length v)) (Some b) len = Some (k, Some b')
           \<and> unat k \<le> unat len \<and> drop (unat k) b' = drop (unat k) b
           \<and> (let c = take (unat len - 5) v in
              dec_prep_write_req (Some b') (ucast k) (Some h0) (Some off0) (Some out) (Some n0)
                = Some (of_nat (5 + length c), Some h, Some off, Some (c @ drop (length c) out), Some (of_nat (length c))))))
    \<and> (7 \<le> unat len \<longrightarrow> (\<exists>k b'. enc_find_by_type_req s e (Some (BT_UUID16 u)) v (of_nat (length v)) (Some b) len
             = Some (k, Some b')
           \<and> unat k \<le> unat len \<and> drop (unat k) b' = drop (unat k) b
           \<and> (let c = take (unat len - 7) v in
              dec_find_by_type_req (Some b') (ucast k) s0 e0 u0 out n0
                = Some (of_nat (7 + length c), s, e, BT_UUID16 u, c @ drop (length c) out, of_nat (length c)))))
    \<and> (3 + length v \<le> unat len \<longrightarrow> (\<exists>k b'. enc_indication h v (of_nat (length v)) (Some b) len = Some (k, Some b')
           \<and> unat k \<le> unat len \<and> drop (unat k) b' = drop (unat k) b
           \<and> dec_indication (Some b') (ucast k) (Some h0) out (of_nat (length out))
               = Some (of_nat (length v), Some h, v @ drop (length v) out)))"
  using prep_write_req.roundtrip [of len "(h, off, v)" b "(h0, off0, out, n0)"]
    find_by_type_req.roundtrip [of len "(s, e, u, v)" b "(s0, e0, u0, out, n0)"]
    indication.roundtrip [of len "(h, v)" b "(h0, out)"] assms
  unfolding prod.case clip_def Let_def by fastforce

theorem value_requests_roundtrip_witness:
  "(\<exists>k b'. enc_prep_write_req 0x10 4 [1, 2] 2 (Some (replicate 6 0)) 6 = Some (k, Some b')
     \<and> dec_prep_write_req (Some b') (ucast k) (Some 0) (Some 0) (Some [0, 0]) (Some 0)
         = Some (6, Some 0x10, Some 4, Some [1, 0], Some 1))"
  using value_requests_roundtrip [of 6 "replicate 6 0" "[1, 2]" "[0, 0]" "0x10" 4 0 0 0] by auto

text \<open>Read By Group Type and Read By Type requests: for a 16-bit or 128-bit UUID and a PDU that can hold
  the request, the decoder gives the handles and the UUID back.\<close>

theorem uuid_requests_roundtrip:
  assumes "att_uuid u" "5 + length (uuid_wire u) \<le> unat len" "unat len \<le> length b" "unat len < 2 ^ 16"
  shows "(\<exists>k b'. enc_read_by_grp_req s e (Some u) (Some b) len = Some (k, Some b')
           \<and> unat k \<le> unat len \<and> drop (unat k) b' = drop (unat k) b
           \<and> dec_read_by_grp_req (Some b') (ucast k) (Some s0) (Some e0) (Some u0)
               = Some (of_nat (5 + length (uuid_wire u)), Some s, Some e, Some u))
    \<and> (\<exists>k b'. enc_read_by_type_req s e (Some u) (Some b) len = Some (k, Some b')
           \<and> unat k \<le> unat len \<and> drop (unat k) b' = drop (unat k) b
           \<and> dec_read_by_type_req (Some b') (ucast k) (Some s0) (Some e0) (Some u0)
               = Some (of_nat (5 + length (uuid_wire u)), Some s, Some e, Some u))"
  using read_by_grp_req.roundtrip [of len "(s, e, u)" b "(s0, e0, u0)"]
    read_by_type_req.roundtrip [of len "(s, e, u)" b "(s0, e0, u0)"] assms
  unfolding prod.case by blast

theorem uuid_requests_roundtrip_witness:
  "\<exists>k b'. enc_read_by_grp_req 1 0xFFFF (Some (BT_UUID16 0x2800)) (Some (replicate 23 0)) 23 = Some (k, Some b')
     \<and> dec_read_by_grp_req (Some b') (ucast k) (Some 0) (Some 0) (Some BT_UUID_UNSPEC)
         = Some (7, Some 1, Some 0xFFFF, Some (BT_UUID16 0x2800))"
  using uuid_requests_roundtrip [of "BT_UUID16 0x2800" 23 "replicate 23 0" 1 "0xFFFF" 0 0 BT_UUID_UNSPEC] by auto

text \<open>The PDUs of a fixed size are read back exactly: Read, Read Blob, Find Information, both MTU PDUs, and
  Execute Write for the two flags that its encoder accepts; other flags are refused.\<close>

theorem fixed_pdus_roundtrip:
  assumes "5 \<le> unat len" "unat len \<le> length b" "unat len < 2 ^ 16"
  shows "(\<exists>k b'. enc_read_req h (Some b) len = Some (k, Some b') \<and> unat k \<le> unat len
           \<and> dec_read_req (Some b') (ucast k) (Some h0) = Some (3, Some h))
    \<and> (\<exists>k b'. enc_read_blob_req h off (Some b) len = Some (k, Some b') \<and> unat k \<le> unat len
           \<and> dec_read_blob_req (Some b') (ucast k) (Some h0) (Some off0) = Some (5, Some h, Some off))
    \<and> (\<exists>k b'. enc_find_info_req h off (Some b) len = Some (k, Some b') \<and> unat k \<le> unat len
           \<and> dec_find_info_req (Some b') (ucast k) (Some h0) (Some off0) = Some (5, Some h, Some off))
    \<and> (\<exists>k b'. enc_mtu_req h (Some b) len = Some (k, Some b') \<and> unat k \<le> unat len
           \<and> dec_mtu_req (Some b') (ucast k) (Some h0) = Some (3, Some h))
    \<and> (\<exists>k b'. enc_mtu_resp h (Some b) len = Some (k, Some b') \<and> unat k \<le> unat len
           \<and> dec_mtu_resp (Some b') (ucast k) (Some h0) = Some (3, Some h))
    \<and> (if fl \<le> 1 then (\<exists>k b'. enc_exec_write_req fl (Some b) len = Some (k, Some b') \<and> unat k \<le> unat len
           \<and> dec_exec_write_req (Some b') (ucast k) (Some fl0) = Some (2, Some fl))
       else enc_exec_write_req fl (Some b) len = Some (0, Some b))"
proof -
  note rt = read_req.roundtrip [where len = len and b = b and m = h and out = h0]
    read_blob_req.roundtrip [where len = len and b = b and m = "(h, off)" and out = "(h0, off0)"]
    find_info_req.roundtrip [where len = len and b = b and m = "(h, off)" and out = "(h0, off0)"]
    mtu_req.roundtrip [where len = len and b = b and m = h and out = h0]
    mtu_resp.roundtrip [where len = len and b = b and m = h and out = h0]
    exec_write_req.roundtrip [where len = len and b = b and m = fl and out = fl0]
  have "enc_exec_write_req fl (Some b) len = Some (0, Some b)" if "\<not> fl \<le> 1"
    using that by (simp add: enc_exec_write_req_def not_le)
  moreover have "3 \<le> unat len" "2 \<le> unat len"
    using assms(1) by simp_all
  ultimately show ?thesis
    using rt assms unfolding prod.case by auto
qed

theorem fixed_pdus_roundtrip_witness:
  "\<exists>k b'. enc_mtu_req 512 (Some (replicate 23 0)) 23 = Some (k, Some b')
     \<and> dec_mtu_req (Some b') (ucast k) (Some 0) = Some (3, Some 512)"
  using fixed_pdus_roundtrip [of 23 "replicate 23 0" 512 0 0 0 0 0] by auto

text \<open>The list responses (Read By Group Type, Read By Type, Find Information): the encoder sends the items
  that fit, without overflow of its 16-bit counter, and the decoder returns a list of just these
  items.\<close>

theorem list_responses_roundtrip:
  assumes "data_ok al" "unat (al_len al) + 2 \<le> unat len" "unat len \<le> length b" "unat len < 2 ^ 16"
    and "sent = al\<lparr>al_data := take ((unat len - 2) div unat (al_len al)) (al_data al)\<rparr>"
  shows "(5 \<le> al_len al \<longrightarrow> (\<exists>k b'. enc_read_by_grp_resp (Some al) b len = Some (k, b') \<and> unat k \<le> unat len
             \<and> drop (unat k) b' = drop (unat k) b \<and> dec_read_by_grp_resp b' (ucast k) = Some (Some sent)))
    \<and> (3 \<le> al_len al \<longrightarrow> (\<exists>k b'. enc_read_by_type_resp (Some al) (Some b) len = Some (k, Some b')
             \<and> unat k \<le> unat len \<and> drop (unat k) b' = drop (unat k) b
             \<and> dec_read_by_type_resp b' (ucast k) = Some (Some sent)))
    \<and> (f = 1 \<and> al_len al = 4 \<or> f = 2 \<and> al_len al = 18 \<longrightarrow>
         (\<exists>k b'. enc_find_info_resp f (Some al) (Some b) len = Some (k, Some b')
             \<and> unat k \<le> unat len \<and> drop (unat k) b' = drop (unat k) b
             \<and> dec_find_info_resp (Some b') (ucast k) (Some f0) = Some (Some sent, Some f)))"
proof -
  have s: "sent = fit_list (unat len) al"
    using assms(5) by (simp add: fit_list_def)
  note rt = read_by_grp_resp.roundtrip [where len = len and b = b and m = al]
    read_by_type_resp.roundtrip [where len = len and b = b and m = al]
    find_info_resp.roundtrip [where len = len and b = b and m = "(f, al)" and out = f0]
  show ?thesis
    using rt assms(1-4) unfolding s prod.case by (fastforce simp del: fit_list_simps(2))
qed

theorem list_responses_roundtrip_witness:
  "\<exists>k b'. enc_read_by_type_resp (Some \<lparr>al_len = 3, al_data = [[1, 0, 7], [2, 0, 8], [3, 0, 9]]\<rparr>)
            (Some (replicate 9 0)) 9 = Some (k, Some b')
     \<and> dec_read_by_type_resp b' (ucast k) = Some (Some \<lparr>al_len = 3, al_data = [[1, 0, 7], [2, 0, 8]]\<rparr>)"
  using list_responses_roundtrip [of "\<lparr>al_len = 3, al_data = [[1, 0, 7], [2, 0, 8], [3, 0, 9]]\<rparr>" 9 "replicate 9 0"
      "\<lparr>al_len = 3, al_data = [[1, 0, 7], [2, 0, 8]]\<rparr>" 0 0]
  by (auto simp: data_ok_def)

text \<open>Find By Type Value Response: the encoder sends the ranges that fit and the decoder returns them in
  order.\<close>

theorem find_by_type_resp_roundtrip:
  assumes "5 \<le> unat len" "unat len \<le> length b" "unat len < 2 ^ 16" "rs \<noteq> []"
  shows "\<exists>k b'. enc_find_by_type_resp rs (Some b) len = Some (k, Some b') \<and> unat k \<le> unat len
    \<and> drop (unat k) b' = drop (unat k) b
    \<and> dec_find_by_type_resp (Some b') (ucast k) = Some (take ((unat len - 1) div 4) rs)"
  using find_by_type_resp.roundtrip [where len = len and b = b and m = rs] assms by fastforce

theorem find_by_type_resp_roundtrip_witness:
  "\<exists>k b'. enc_find_by_type_resp [\<lparr>ar_start = 1, ar_end = 5\<rparr>, \<lparr>ar_start = 6, ar_end = 9\<rparr>] (Some (replicate 8 0)) 8
       = Some (k, Some b')
     \<and> dec_find_by_type_resp (Some b') (ucast k) = Some [\<lparr>ar_start = 1, ar_end = 5\<rparr>]"
  using find_by_type_resp_roundtrip [of 8 "replicate 8 0" "[\<lparr>ar_start = 1, ar_end = 5\<rparr>, \<lparr>ar_start = 6, ar_end = 9\<rparr>]"]
  by auto

section \<open>Signed writes\<close>

lemma enc_signed_write_cmd_wire:
  assumes "15 \<le> unat len" "unat len \<le> length b" "unat len < 2 ^ 16" "length v < 2 ^ 64"
    and "c = clip 15 (unat len) v" "sign (ATT_OP_SIGNED_WRITE_CMD # le16 h @ c) = Some sg" "length sg = 12"
  shows "enc_signed_write_cmd sign h v (of_nat (length v)) (Some b) len
    = Some (15 + of_nat (length c), Some (ATT_OP_SIGNED_WRITE_CMD # le16 h @ c @ sg @ drop (15 + length c) b))"
proof -
  note f = clip_facts [of 15 15, OF _ _ assms(1-5)]
  have u: "unat (3 + of_nat (length c) :: size_t) = 3 + length c" "length c < 2 ^ 16"
    using f(4,6) by (simp_all add: unat_word_ariths unat_of_nat take_bit_nat_eq_self)
  have "(if 0 < (of_nat (length c) :: size_t) then memcpy (ATT_OP_SIGNED_WRITE_CMD # le16 h @ drop 3 b) 3 v 0
      (unat (of_nat (length c) :: size_t)) else Some (ATT_OP_SIGNED_WRITE_CMD # le16 h @ drop 3 b))
    = Some (ATT_OP_SIGNED_WRITE_CMD # le16 h @ c @ drop (length c + 3) b)"
    using f u(2) by (cases "c = []") (simp_all add: mem_simps codec_simps)
  moreover have "mem_read (ATT_OP_SIGNED_WRITE_CMD # le16 h @ c @ drop (length c + 3) b) 0 (3 + length c)
      = Some (ATT_OP_SIGNED_WRITE_CMD # le16 h @ c)"
    by (simp add: mem_read_def take_Cons')
  moreover have "mem_write (ATT_OP_SIGNED_WRITE_CMD # le16 h @ c @ drop (length c + 3) b) (3 + length c) sg
      = Some (ATT_OP_SIGNED_WRITE_CMD # le16 h @ c @ sg @ drop (15 + length c) b)"
    using f assms(7) mem_write_append [of "ATT_OP_SIGNED_WRITE_CMD # le16 h @ c" "3 + length c" "drop (length c + 3) b" sg]
    by (simp add: mem_write_0)
  ultimately show ?thesis
    using f u assms(6)
    by (simp add: enc_signed_write_cmd_def mem_simps ucast_of_nat_size Let_def)
qed

lemma dec_signed_write_cmd_wire:
  assumes "unat len = 15 + length v" "unat len < 2 ^ 16" "length v \<le> length out" "length sg = 12" "length sg0 = 12"
  shows "dec_signed_write_cmd (Some (ATT_OP_SIGNED_WRITE_CMD # le16 h @ v @ sg @ rest)) len
           (Some h0) (Some out) (Some n0) sg0
    = Some (of_nat (15 + length v), Some h, Some (v @ drop (length v) out), Some (of_nat (length v)), sg)"
proof -
  have "mem_read (ATT_OP_SIGNED_WRITE_CMD # le16 h @ v @ sg @ rest) (3 + length v) 12 = Some sg"
    using assms(4) by (simp add: mem_read_def drop_Cons')
  then show ?thesis
    using assms(3,4,5) tail_facts [of len 15 "length v"] assms(1,2) ucast_size [OF assms(1)]
    by (simp add: dec_signed_write_cmd_def Let_def mem_simps memcpy_def ATT_SIGNATURE_LEN_def)
qed

text \<open>Signed Write Command, for a signature function that always gives 12 bytes: the PDU carries handle,
  value and the signature of all bytes before it, and the decoder returns the three parts.\<close>

theorem signed_write_roundtrip:
  assumes "\<forall>m. \<exists>s. sign m = Some s \<and> length s = 12"
    and "15 \<le> unat len" "unat len \<le> length b" "unat len < 2 ^ 16" "length v < 2 ^ 64"
    and "c = take (unat len - 15) v" "length c \<le> length out" "length sg0 = 12"
  shows "\<exists>k b'. enc_signed_write_cmd sign h v (of_nat (length v)) (Some b) len = Some (k, Some b')
    \<and> unat k \<le> unat len
    \<and> dec_signed_write_cmd (Some b') (ucast k) (Some h0) (Some out) (Some n0) sg0
        = Some (of_nat (15 + length c), Some h, Some (c @ drop (length c) out), Some (of_nat (length c)),
            the (sign (ATT_OP_SIGNED_WRITE_CMD # le16 h @ c)))"
proof -
  obtain sg where sg: "sign (ATT_OP_SIGNED_WRITE_CMD # le16 h @ c) = Some sg" "length sg = 12"
    using assms(1) by blast
  have c: "c = clip 15 (unat len) v"
    using assms(6) by (simp add: clip_def)
  have l: "15 + length c \<le> unat len"
    using assms(2,6) by simp
  then have k: "unat (15 + of_nat (length c) :: u16) = 15 + length c"
    using assms(4) by (simp add: unat_word_ariths unat_of_nat take_bit_nat_eq_self)
  show ?thesis
    using enc_signed_write_cmd_wire [of len b v c sign h sg, OF assms(2-5) c sg] l k assms(4,7,8) sg
      dec_signed_write_cmd_wire [of "ucast (15 + of_nat (length c) :: u16)" c out sg sg0]
    by (simp add: unat_ucast_u16)
qed

theorem signed_write_roundtrip_witness:
  "\<exists>k b'. enc_signed_write_cmd (\<lambda>m. Some (replicate 12 (of_nat (length m)))) 3 [7] 1 (Some (replicate 23 0)) 23
       = Some (k, Some b')
     \<and> dec_signed_write_cmd (Some b') (ucast k) (Some 0) (Some [0, 0]) (Some 0) (replicate 12 0)
         = Some (16, Some 3, Some [7, 0], Some 1, replicate 12 4)"
  using signed_write_roundtrip [of "\<lambda>m. Some (replicate 12 (of_nat (length m)))" 23 "replicate 23 0" "[7]" "[7]"
      "[0, 0]" "replicate 12 0" 3 0 0] by auto

section \<open>Where a decoder and its encoder disagree\<close>

lemma mem_write_head: "mem_write b off bs = Some b' \<Longrightarrow> 0 < off \<Longrightarrow> load8 b' 0 = load8 b 0"
  by (cases b; cases off) (auto simp: mem_write_def load8_def split: if_splits)

lemma put_le16_head: "put_le16 v b off = Some b' \<Longrightarrow> 0 < off \<Longrightarrow> load8 b' 0 = load8 b 0"
  by (simp add: put_le16_def mem_write_head)

lemma memcpy_head: "memcpy b off src soff n = Some b' \<Longrightarrow> 0 < off \<Longrightarrow> load8 b' 0 = load8 b 0"
  by (auto simp: memcpy_def mem_write_head split: bind_splits)

lemma store8_head: "store8 b 0 v = Some b' \<Longrightarrow> load8 b' 0 = Some v"
  by (auto simp: store8_def mem_write_def load8_def split: if_splits)

text \<open>\<^verbatim>\<open>dec_prep_write_resp\<close> tests for the opcode of the request: it refuses every PDU that
  \<^verbatim>\<open>enc_prep_write_resp\<close> produces, whatever its length and contents.\<close>

theorem prep_write_resp_refused:
  assumes "enc_prep_write_resp h off v vl (Some b) len = Some (k, Some b')"
  shows "dec_prep_write_resp (Some b') n h0 off0 out n0 = Some (0, h0, off0, out, n0)"
proof -
  have "load8 b' 0 = Some ATT_OP_PREP_WRITE_RESP"
    using assms
    by (auto simp: enc_prep_write_resp_def Let_def put_le16_head memcpy_head store8_head
        split: if_splits bind_splits)
  then show ?thesis
    by (auto simp: dec_prep_write_resp_def Let_def ATT_OP_PREP_WRITE_RESP_def ATT_OP_PREP_WRITE_REQ_def
        split: option.splits)
qed

theorem prep_write_resp_refused_witness:
  "\<exists>b'. enc_prep_write_resp 0x10 4 [1] 1 (Some (replicate 23 0)) 23 = Some (6, Some b')
     \<and> dec_prep_write_resp (Some b') 6 (Some 0) (Some 0) (Some [0]) (Some 0) = Some (0, Some 0, Some 0, Some [0], Some 0)"
proof -
  have "enc_prep_write_resp 0x10 4 [1] 1 (Some (replicate 23 0)) 23
      = Some (6, Some (ATT_OP_PREP_WRITE_RESP # le16 0x10 @ le16 4 @ [1] @ replicate 17 0))"
    by (simp add: enc_prep_write_resp_def mem_simps)
  then show ?thesis
    using prep_write_resp_refused [of "0x10" 4 "[1]" 1 "replicate 23 0" 23 6] by blast
qed

section \<open>Memory accesses\<close>

lemma get_le16_in: "off + 2 \<le> length b \<Longrightarrow> \<exists>v. get_le16 b off = Some v"
  by (simp add: get_le16_def mem_read_def)

lemma load8_in: "off < length b \<Longrightarrow> \<exists>v. load8 b off = Some v"
  by (simp add: load8_def)

lemma memcpy_in: "soff + n \<le> length src \<Longrightarrow> off + n \<le> length dst \<Longrightarrow> \<exists>d. memcpy dst off src soff n = Some d"
  by (simp add: memcpy_def mem_read_def mem_write_def)

lemma get_uuid_in: "off + 16 \<le> length b \<or> off + 2 \<le> length b \<and> ty = TYPE_UUID16 \<Longrightarrow> \<exists>u. get_uuid ty b off = Some u"
  by (cases ty) (auto simp: get_uuid_def get_le16_def mem_read_def bswap_128_def)

lemma dec_items_in: "p + k * n \<le> length b \<Longrightarrow> \<exists>ds. dec_items b k n p = Some ds"
proof (induction n arbitrary: p)
  case (Suc n)
  then have "mem_read b p k \<noteq> None" "\<exists>ds. dec_items b k n (p + k) = Some ds"
    by (simp_all add: mem_read_def)
  then show ?case
    by auto
qed simp

lemma dec_items_SomeD: "dec_items b k n p = Some ds \<Longrightarrow> p + k * n \<le> length b \<or> n = 0"
proof (induction n arbitrary: p ds)
  case (Suc n)
  then show ?case
    by (cases n) (fastforce simp: mem_read_def split: bind_splits if_splits)+
qed simp

lemma dec_ranges_in: "len \<le> length b \<Longrightarrow> \<exists>rs. dec_ranges b len off = Some rs"
proof (induction b len off rule: dec_ranges.induct)
  case (1 b len off)
  show ?case
  proof (cases "len < off + 4")
    case False
    then obtain s e rs where "get_le16 b off = Some s" "get_le16 b (off + 2) = Some e"
        "dec_ranges b len (off + 4) = Some rs"
      using 1 get_le16_in [of off b] get_le16_in [of "off + 2" b] by fastforce
    then show ?thesis
      using False by (subst dec_ranges.simps) simp
  qed (simp add: dec_ranges.simps)
qed

lemma dec_data_list_in:
  assumes "2 \<le> unat len" "unat len \<le> length b"
  shows "\<exists>r. dec_data_list b len elen = Some r"
proof -
  let ?q = "(len - 2) div ucast elen"
  have "unat (ucast ?q :: u16) \<le> unat ?q"
    by (simp add: unsigned_ucast_eq take_bit_nat_less_eq_self)
  then have "unat elen * unat (ucast ?q :: u16) \<le> unat elen * ((unat len - 2) div unat elen)"
    using assms(1) by (simp add: unat_div_distrib unat_ucast_u16 unat_sub word_le_nat_alt)
  also have "\<dots> \<le> unat len - 2"
    by (rule times_div_less_eq_dividend)
  finally have "2 + unat elen * unat (ucast ?q :: u16) \<le> length b"
    using assms by linarith
  then show ?thesis
    using dec_items_in [of 2 "unat elen" "unat (ucast ?q :: u16)" b]
    by (auto simp: dec_data_list_def att_data_list_alloc_def Let_def)
qed

lemmas in_bounds_simps = Let_def load8_def get_le16_def mem_read_def memcpy_def mem_write_def word_less_nat_alt
  word_le_nat_alt unat_sub

lemma dec_read_by_grp_req_in:
  "2 \<le> unat len \<Longrightarrow> unat len \<le> length b \<Longrightarrow>
    dec_read_by_grp_req (Some b) len s e u \<noteq> None"
  by (auto simp: dec_read_by_grp_req_def in_bounds_simps get_uuid_def bswap_128_def split: option.splits)

lemma dec_read_by_type_req_in:
  "2 \<le> unat len \<Longrightarrow> unat len \<le> length b \<Longrightarrow>
    dec_read_by_type_req (Some b) len s e u \<noteq> None"
  by (auto simp: dec_read_by_type_req_def in_bounds_simps get_uuid_def bswap_128_def split: option.splits)

lemma dec_find_by_type_req_in:
  "2 \<le> unat len \<Longrightarrow> unat len \<le> length b \<Longrightarrow> unat len \<le> length out \<Longrightarrow>
    dec_find_by_type_req (Some b) len s0 e0 u0 out n0 \<noteq> None"
  by (auto simp: dec_find_by_type_req_def in_bounds_simps  split: option.splits)

lemma dec_write_cmd_in:
  "2 \<le> unat len \<Longrightarrow> unat len \<le> length b \<Longrightarrow> unat len \<le> length out \<Longrightarrow>
    dec_write_cmd (Some b) len h (Some out) n \<noteq> None"
  by (auto simp: dec_write_cmd_def in_bounds_simps  split: option.splits)

lemma dec_write_req_in:
  "2 \<le> unat len \<Longrightarrow> unat len \<le> length b \<Longrightarrow> unat len \<le> length out \<Longrightarrow>
    dec_write_req (Some b) len h (Some out) n \<noteq> None"
  by (auto simp: dec_write_req_def in_bounds_simps  split: option.splits)

lemma dec_signed_write_cmd_in:
  "2 \<le> unat len \<Longrightarrow> unat len \<le> length b \<Longrightarrow> unat len \<le> length out \<Longrightarrow> length sg = 12 \<Longrightarrow>
    dec_signed_write_cmd (Some b) len h (Some out) n sg \<noteq> None"
  by (auto simp: dec_signed_write_cmd_def in_bounds_simps ATT_SIGNATURE_LEN_def split: option.splits)

lemma dec_prep_write_req_in:
  "2 \<le> unat len \<Longrightarrow> unat len \<le> length b \<Longrightarrow> unat len \<le> length out \<Longrightarrow>
    dec_prep_write_req (Some b) len h off (Some out) n \<noteq> None"
  by (auto simp: dec_prep_write_req_def in_bounds_simps  split: option.splits)

lemma dec_prep_write_resp_in:
  "2 \<le> unat len \<Longrightarrow> unat len \<le> length b \<Longrightarrow> unat len \<le> length out \<Longrightarrow>
    dec_prep_write_resp (Some b) len h off (Some out) n \<noteq> None"
  by (auto simp: dec_prep_write_resp_def in_bounds_simps  split: option.splits)

lemma dec_read_req_in:
  "2 \<le> unat len \<Longrightarrow> unat len \<le> length b \<Longrightarrow>
    dec_read_req (Some b) len h \<noteq> None"
  by (auto simp: dec_read_req_def in_bounds_simps  split: option.splits)

lemma dec_read_blob_req_in:
  "2 \<le> unat len \<Longrightarrow> unat len \<le> length b \<Longrightarrow>
    dec_read_blob_req (Some b) len h off \<noteq> None"
  by (auto simp: dec_read_blob_req_def in_bounds_simps  split: option.splits)

lemma dec_find_info_req_in:
  "2 \<le> unat len \<Longrightarrow> unat len \<le> length b \<Longrightarrow>
    dec_find_info_req (Some b) len h off \<noteq> None"
  by (auto simp: dec_find_info_req_def in_bounds_simps  split: option.splits)

lemma dec_mtu_req_in:
  "2 \<le> unat len \<Longrightarrow> unat len \<le> length b \<Longrightarrow>
    dec_mtu_req (Some b) len h \<noteq> None"
  by (auto simp: dec_mtu_req_def in_bounds_simps  split: option.splits)

lemma dec_mtu_resp_in:
  "2 \<le> unat len \<Longrightarrow> unat len \<le> length b \<Longrightarrow>
    dec_mtu_resp (Some b) len h \<noteq> None"
  by (auto simp: dec_mtu_resp_def in_bounds_simps  split: option.splits)

lemma dec_exec_write_req_in:
  "2 \<le> unat len \<Longrightarrow> unat len \<le> length b \<Longrightarrow>
    dec_exec_write_req (Some b) len fl \<noteq> None"
  by (auto simp: dec_exec_write_req_def in_bounds_simps  split: option.splits)

lemma dec_write_resp_in:
  "2 \<le> unat len \<Longrightarrow> unat len \<le> length b \<Longrightarrow>
    dec_write_resp (Some b) len \<noteq> None"
  by (auto simp: dec_write_resp_def in_bounds_simps  split: option.splits)

lemma dec_exec_write_resp_in:
  "2 \<le> unat len \<Longrightarrow> unat len \<le> length b \<Longrightarrow>
    dec_exec_write_resp (Some b) len \<noteq> None"
  by (auto simp: dec_exec_write_resp_def in_bounds_simps  split: option.splits)

lemma dec_find_by_type_resp_in: "2 \<le> unat len \<Longrightarrow> unat len \<le> length b \<Longrightarrow> dec_find_by_type_resp (Some b) len \<noteq> None"
  using dec_ranges_in [of "unat len" b 1] by (auto simp: dec_find_by_type_resp_def in_bounds_simps)

lemma dec_list_resps_in:
  assumes "2 \<le> unat len" "unat len \<le> length b"
  shows "dec_read_by_grp_resp b len \<noteq> None" "dec_read_by_type_resp b len \<noteq> None"
    "dec_find_info_resp (Some b) len f \<noteq> None"
proof -
  show "dec_read_by_grp_resp b len \<noteq> None" "dec_read_by_type_resp b len \<noteq> None"
    using assms dec_data_list_in [OF assms]
    by (auto simp: dec_read_by_grp_resp_def dec_read_by_type_resp_def Let_def load8_def)
  show "dec_find_info_resp (Some b) len f \<noteq> None"
    using assms dec_data_list_in [OF assms, of 2] dec_data_list_in [OF assms, of 4] dec_data_list_in [OF assms, of 18]
    by (auto simp: dec_find_info_resp_def Let_def load8_def split: option.splits)
qed

lemma dec_values_in:
  assumes "2 \<le> unat len" "unat len \<le> length b" "unat vl \<le> length out"
  shows "dec_read_resp (Some b) len (Some out) vl \<noteq> None" "dec_indication (Some b) len h out vl \<noteq> None"
proof -
  show "dec_read_resp (Some b) len (Some out) vl \<noteq> None"
    using assms by (auto simp: dec_read_resp_def in_bounds_simps)
  have "unat (ucast (min (len - 3) vl) :: u16) \<le> unat (min (len - 3) vl)"
    by (simp add: unsigned_ucast_eq take_bit_nat_less_eq_self)
  then have "unat (ucast (min (len - 3) vl) :: u16) \<le> unat vl"
    "3 \<le> unat len \<Longrightarrow> unat (ucast (min (len - 3) vl) :: u16) \<le> unat len - 3"
    by (auto simp: min_def word_le_nat_alt unat_sub split: if_splits)
  then show "dec_indication (Some b) len h out vl \<noteq> None"
    using assms
    by (auto simp: dec_indication_def Let_def load8_def get_le16_def mem_read_def memcpy_def mem_write_def
        word_less_nat_alt split: option.splits)
qed

text \<open>C31.  For a PDU of at least two bytes whose length is stated correctly, and result buffers at least as long as the
  PDU (and, for the decoders that are told the size of the buffer, as long as that size), no decoder reads or writes
  outside of the memory it is given: every decoder returns, whatever the bytes of the PDU are.  The condition on the result
  buffers is needed, since the decoders of writes are not told their size (\<open>write_decoders_need_room\<close>).\<close>

theorem decoders_in_bounds:
  assumes "2 \<le> unat len" "unat len \<le> length b" "unat len \<le> length out" "unat vl \<le> length out" "length sg = 12"
  shows "dec_read_by_grp_req (Some b) len s e u \<noteq> None \<and> dec_read_by_type_req (Some b) len s e u \<noteq> None
    \<and> dec_find_by_type_req (Some b) len s0 e0 u0 out n0 \<noteq> None \<and> dec_find_by_type_resp (Some b) len \<noteq> None
    \<and> dec_read_by_grp_resp b len \<noteq> None \<and> dec_read_by_type_resp b len \<noteq> None
    \<and> dec_find_info_resp (Some b) len f \<noteq> None \<and> dec_find_info_req (Some b) len s e \<noteq> None
    \<and> dec_write_cmd (Some b) len h (Some out) n \<noteq> None \<and> dec_write_req (Some b) len h (Some out) n \<noteq> None
    \<and> dec_signed_write_cmd (Some b) len h (Some out) n sg \<noteq> None \<and> dec_write_resp (Some b) len \<noteq> None
    \<and> dec_read_req (Some b) len h \<noteq> None \<and> dec_read_blob_req (Some b) len h off \<noteq> None
    \<and> dec_read_resp (Some b) len (Some out) vl \<noteq> None \<and> dec_indication (Some b) len h out vl \<noteq> None
    \<and> dec_mtu_req (Some b) len h \<noteq> None \<and> dec_mtu_resp (Some b) len h \<noteq> None
    \<and> dec_prep_write_req (Some b) len h off (Some out) n \<noteq> None
    \<and> dec_prep_write_resp (Some b) len h off (Some out) n \<noteq> None
    \<and> dec_exec_write_req (Some b) len fl \<noteq> None \<and> dec_exec_write_resp (Some b) len \<noteq> None"
  by (intro conjI dec_read_by_grp_req_in dec_read_by_type_req_in dec_find_by_type_req_in dec_find_by_type_resp_in
      dec_list_resps_in dec_find_info_req_in dec_write_cmd_in dec_write_req_in dec_signed_write_cmd_in
      dec_write_resp_in dec_read_req_in dec_read_blob_req_in dec_values_in dec_mtu_req_in dec_mtu_resp_in
      dec_prep_write_req_in dec_prep_write_resp_in dec_exec_write_req_in dec_exec_write_resp_in assms)

theorem decoders_in_bounds_witness:
  "dec_write_req (Some [0x12, 1, 0, 7]) 4 (Some 0) (Some (replicate 4 0)) (Some 0) \<noteq> None
    \<and> dec_find_info_resp (Some [0x05, 1, 9, 9, 9]) 5 (Some 0) \<noteq> None"
  using decoders_in_bounds [of 4 "[0x12, 1, 0, 7]" "replicate 4 0" 4 "replicate 12 0"]
    decoders_in_bounds [of 5 "[0x05, 1, 9, 9, 9]" "replicate 5 0" 5 "replicate 12 0"] by auto

text \<open>A Write Command or Write Request is decoded without an access outside of memory exactly when the buffer for its
  value has room for everything behind the header.\<close>

theorem write_decoders_need_room:
  assumes "3 \<le> unat len" "unat len \<le> length b"
  shows "(b ! 0 = ATT_OP_WRITE_CMD \<longrightarrow>
        (dec_write_cmd (Some b) len (Some h) (Some out) (Some n) = None \<longleftrightarrow> length out < unat len - 3))
    \<and> (b ! 0 = ATT_OP_WRITE_REQ \<longrightarrow>
        (dec_write_req (Some b) len (Some h) (Some out) (Some n) = None \<longleftrightarrow> length out < unat len - 3))"
proof -
  have "unat (len - 3) = unat len - 3" "\<not> len < 3"
    using assms(1) by (simp_all add: unat_sub word_le_nat_alt word_less_nat_alt)
  moreover from this(1) have "0 < len - 3 \<longleftrightarrow> 0 < unat len - 3"
    by (simp only: word_less_nat_alt) simp
  ultimately show ?thesis
    using assms by (auto simp: dec_write_cmd_def dec_write_req_def Let_def load8_def get_le16_def mem_read_def
        memcpy_def mem_write_def)
qed

theorem write_decoders_need_room_witness:
  "dec_write_req (Some [0x12, 1, 0, 7, 8]) 5 (Some 0) (Some [0]) (Some 0) = None"
  using write_decoders_need_room [of 5 "[0x12, 1, 0, 7, 8]" 0 "[0]" 0] by (simp add: ATT_OP_WRITE_REQ_def)

text \<open>Below these sizes the arithmetic on \<^verbatim>\<open>size_t\<close> wraps around.  When the PDU is shorter than the
  header, \<^verbatim>\<open>enc_write_req\<close> and \<^verbatim>\<open>enc_prep_write_req\<close> do not cut the value and write past the size they were
  given; \<^verbatim>\<open>dec_find_info_resp\<close> of a PDU of length 1 with format 1 copies 65535 items and leaves every PDU
  buffer smaller than that.\<close>

theorem short_pdus_overrun:
  assumes "unat len < 3" "length v < 2 ^ 15" "5 + length v \<le> length b"
    and "2 \<le> length p" "p ! 0 = ATT_OP_FIND_INFO_RESP" "p ! 1 = 1" "length p < 4 * 65535"
  shows "(\<exists>b'. enc_write_req h v (of_nat (length v)) (Some b) len = Some (of_nat (3 + length v), Some b')
           \<and> take (3 + length v) b' = ATT_OP_WRITE_REQ # le16 h @ v)
    \<and> (\<exists>b'. enc_prep_write_req h off v (of_nat (length v)) (Some b) len = Some (of_nat (5 + length v), Some b')
           \<and> take (5 + length v) b' = ATT_OP_PREP_WRITE_REQ # le16 h @ le16 off @ v)
    \<and> dec_find_info_resp (Some p) 1 (Some f) = None"
proof -
  have minus_one: "unat (- 1 :: size_t) = 18446744073709551615"
    by (simp add: unsigned_minus_1_eq_mask mask_eq_exp_minus_1)
  have big: "length v < unat (len - k)" if "k = 3 \<or> k = (5 :: size_t)" for k
  proof -
    have "unat len = 0 \<or> unat len = 1 \<or> unat len = 2"
      using assms(1) by linarith
    then have "len = 0 \<or> len = 1 \<or> len = 2"
      by (simp add: word_unat_eq_iff)
    then show ?thesis
      using that assms(2) minus_one by auto
  qed
  then have *: "\<not> len - 3 < of_nat (length v)" "\<not> len - 5 < of_nat (length v)"
    using assms(2) by (simp_all add: word_less_nat_alt unat_of_nat take_bit_nat_eq_self not_less less_imp_le)
  have b: "b \<noteq> []"
    using assms(3) by auto
  have w: "\<exists>b'. enc_write_req h v (of_nat (length v)) (Some b) len = Some (of_nat (3 + length v), Some b')
           \<and> take (3 + length v) b' = ATT_OP_WRITE_REQ # le16 h @ v"
    using * b assms(2,3)
    by (cases "v = []") (simp_all add: enc_write_req_def mem_simps codec_simps take_Cons')
  have pw: "\<exists>b'. enc_prep_write_req h off v (of_nat (length v)) (Some b) len = Some (of_nat (5 + length v), Some b')
           \<and> take (5 + length v) b' = ATT_OP_PREP_WRITE_REQ # le16 h @ le16 off @ v"
    using * b assms(2,3)
    by (cases "v = []") (simp_all add: enc_prep_write_req_def mem_simps codec_simps take_Cons')
  have "unat (ucast ((1 - 2 :: size_t) div ucast (4 :: u16)) :: u16) = 65535"
    by simp
  then have "dec_items p 4 65535 2 = None \<Longrightarrow> dec_find_info_resp (Some p) 1 (Some f) = None"
    using assms(4-6) by (simp add: dec_find_info_resp_def dec_data_list_def att_data_list_alloc_def load8_def Let_def)
  moreover have "dec_items p 4 65535 2 = None"
    using assms(7) dec_items_SomeD [of p 4 65535 2] by (cases "dec_items p 4 65535 2") auto
  ultimately show ?thesis
    using w pw by blast
qed

theorem short_pdus_overrun_witness:
  "(\<exists>b'. enc_write_req 0x10 [1, 2] 2 (Some (replicate 8 0)) 1 = Some (5, Some b'))
    \<and> dec_find_info_resp (Some [ATT_OP_FIND_INFO_RESP, 1]) 1 (Some 0) = None"
  using short_pdus_overrun [of 1 "[1, 2]" "replicate 8 0" "[ATT_OP_FIND_INFO_RESP, 1]" "0x10" 0 0] by auto

end
