(* ===== verification/Vli.thy ===== *)
theory Vli
  imports Prelude
begin

text \<open>
  The 256-bit arithmetic of \<^verbatim>\<open>bluez5/src/shared/ecc.c\<close>: numbers are arrays of four 64-bit digits, least
  significant first, here lists of words.  Every routine reads a digit before it writes the digit of
  the same index, so that the in-place calls of the code are calls with equal arguments here.  The loops
  run over the digits of the list; results come with the carry.
\<close>

section \<open>Definitions\<close>

type_synonym vli = "u64 list"

definition NUM_ECC_DIGITS :: nat where "NUM_ECC_DIGITS = 4"

definition vli_clear :: vli where
  "vli_clear = replicate NUM_ECC_DIGITS 0"

fun vli_is_zero :: "vli \<Rightarrow> bool" where
  "vli_is_zero [] = True"
| "vli_is_zero (d # ds) = (if d \<noteq> 0 then False else vli_is_zero ds)"

definition vli_test_bit :: "vli \<Rightarrow> nat \<Rightarrow> u64" where
  "vli_test_bit vli i = vli ! (i div 64) AND push_bit (i mod 64) 1"

text \<open>The search from the end for a digit that is not zero.\<close>

fun num_digits_loop :: "vli \<Rightarrow> nat" where
  "num_digits_loop [] = 0"
| "num_digits_loop (d # ds) = (if d = 0 then num_digits_loop ds else Suc (length ds))"

definition vli_num_digits :: "vli \<Rightarrow> nat" where
  "vli_num_digits vli = num_digits_loop (rev vli)"

lemma unat_shift1: "unat (drop_bit 1 (d :: u64)) = unat d div 2"
  by (subst unat_drop_bit_eq) (simp add: drop_bit_eq_div)

function digit_bits :: "u64 \<Rightarrow> nat" where
  "digit_bits digit = (if digit = 0 then 0 else Suc (digit_bits (drop_bit 1 digit)))"
  by pat_completeness auto

termination
proof (relation "measure unat")
  fix d :: u64
  assume "d \<noteq> 0"
  then show "(drop_bit 1 d, d) \<in> measure unat"
    unfolding in_measure unat_shift1 by (simp add: unat_gt_0)
qed simp

declare digit_bits.simps [simp del]

definition vli_num_bits :: "vli \<Rightarrow> nat" where
  "vli_num_bits vli =
     (let num_digits = vli_num_digits vli in
      if num_digits = 0 then 0
      else (num_digits - 1) * 64 + digit_bits (vli ! (num_digits - 1)))"

definition vli_set :: "vli \<Rightarrow> vli" where
  "vli_set src = src"

text \<open>The loop of \<^verbatim>\<open>vli_cmp\<close> from the most significant digit.\<close>

fun cmp_loop :: "vli \<Rightarrow> vli \<Rightarrow> int" where
  "cmp_loop (l # ls) (r # rs) = (if r < l then 1 else if l < r then -1 else cmp_loop ls rs)"
| "cmp_loop _ _ = 0"

definition vli_cmp :: "vli \<Rightarrow> vli \<Rightarrow> int" where
  "vli_cmp left right = cmp_loop (rev left) (rev right)"

fun lshift_loop :: "nat \<Rightarrow> u64 \<Rightarrow> vli \<Rightarrow> vli \<times> u64" where
  "lshift_loop shift carry [] = ([], carry)"
| "lshift_loop shift carry (temp # ds) =
     (let (ds', carry') = lshift_loop shift (drop_bit (64 - shift) temp) ds
      in ((push_bit shift temp OR carry) # ds', carry'))"

definition vli_lshift :: "vli \<Rightarrow> nat \<Rightarrow> vli \<times> u64" where
  "vli_lshift vli shift = lshift_loop shift 0 vli"

fun rshift1_loop :: "u64 \<Rightarrow> vli \<Rightarrow> vli" where
  "rshift1_loop carry [] = []"
| "rshift1_loop carry (temp # ds) = (drop_bit 1 temp OR carry) # rshift1_loop (push_bit 63 temp) ds"

definition vli_rshift1 :: "vli \<Rightarrow> vli" where
  "vli_rshift1 vli = rev (rshift1_loop 0 (rev vli))"

fun add_loop :: "u64 \<Rightarrow> vli \<Rightarrow> vli \<Rightarrow> vli \<times> u64" where
  "add_loop carry (l # ls) (r # rs) =
     (let sum = l + r + carry;
          carry' = (if sum \<noteq> l then of_bool (sum < l) else carry);
          (ds, c) = add_loop carry' ls rs
      in (sum # ds, c))"
| "add_loop carry _ _ = ([], carry)"

definition vli_add :: "vli \<Rightarrow> vli \<Rightarrow> vli \<times> u64" where
  "vli_add left right = add_loop 0 left right"

fun sub_loop :: "u64 \<Rightarrow> vli \<Rightarrow> vli \<Rightarrow> vli \<times> u64" where
  "sub_loop borrow (l # ls) (r # rs) =
     (let diff = l - r - borrow;
          borrow' = (if diff \<noteq> l then of_bool (l < diff) else borrow);
          (ds, c) = sub_loop borrow' ls rs
      in (diff # ds, c))"
| "sub_loop borrow _ _ = ([], borrow)"

definition vli_sub :: "vli \<Rightarrow> vli \<Rightarrow> vli \<times> u64" where
  "vli_sub left right = sub_loop 0 left right"

section \<open>The number that an array stands for\<close>

fun val :: "vli \<Rightarrow> int" where
  "val [] = 0"
| "val (d # ds) = uint d + 2 ^ 64 * val ds"

abbreviation radix :: int where "radix \<equiv> 2 ^ 256"

lemma val_nonneg: "0 \<le> val ds"
  by (induction ds) simp_all

lemma uint_u64_less: "uint (d :: u64) < 2 ^ 64"
  using uint_bounded [of d] by simp

lemma val_less: "val ds < 2 ^ (64 * length ds)"
proof (induction ds)
  case (Cons d ds)
  have "val ds + 1 \<le> 2 ^ (64 * length ds)"
    using Cons by simp
  then have "2 ^ 64 * (val ds + 1) \<le> 2 ^ 64 * 2 ^ (64 * length ds)"
    by (rule mult_left_mono) simp
  then show ?case
    using uint_u64_less [of d] by (simp add: power_add)
qed simp

lemma val_radix: "length ds = 4 \<Longrightarrow> val ds < radix"
  using val_less [of ds] by simp

lemma val_append: "val (xs @ ys) = val xs + 2 ^ (64 * length xs) * val ys"
  by (induction xs) (simp_all add: power_add algebra_simps)

lemma val_div_mod: "val (d # ds) mod 2 ^ 64 = uint d" "val (d # ds) div 2 ^ 64 = val ds"
  using uint_u64_less [of d] by (simp_all add: div_add1_eq)

lemma val_inj: "length xs = length ys \<Longrightarrow> val xs = val ys \<Longrightarrow> xs = ys"
proof (induction xs ys rule: list_induct2)
  case (Cons x xs y ys)
  have "uint x = uint y" "val xs = val ys"
    using val_div_mod [of x xs] val_div_mod [of y ys] Cons.prems by metis+
  then show ?case
    using Cons by (simp add: word_uint_eq_iff)
qed simp

section \<open>Addition, subtraction and comparison\<close>

lemma mod_wrap:
  fixes x m :: int
  shows "m \<le> x \<Longrightarrow> x < 2 * m \<Longrightarrow> x mod m = x - m" "- m \<le> x \<Longrightarrow> x < 0 \<Longrightarrow> x mod m = x + m"
  using mod_pos_pos_trivial [of "x - m" m] mod_pos_pos_trivial [of "x + m" m] by simp_all

text \<open>One digit: the sum wraps exactly when it is below the left operand, or equal to it with a carry that
  came in and an all-ones right digit.\<close>

lemma carry_int:
  fixes L R C S m :: int
  assumes "0 \<le> L" "L < m" "0 \<le> R" "R < m" "0 \<le> C" "C \<le> 1" "S = (L + R + C) mod m"
  shows "S + m * (if S \<noteq> L then of_bool (S < L) else C) = L + R + C"
proof (cases "L + R + C < m")
  case True
  then have "S = L + R + C"
    using assms by simp
  then show ?thesis
    using assms(1-6) by (auto simp: add_nonneg_eq_0_iff)
next
  case False
  then have "S = L + R + C - m"
    using assms by (simp add: mod_wrap)
  moreover have "C = 0 \<or> C = 1"
    using assms(5,6) by linarith
  ultimately show ?thesis
    using assms(1-6) False by auto
qed

lemma borrow_int:
  fixes L R C S m :: int
  assumes "0 \<le> L" "L < m" "0 \<le> R" "R < m" "0 \<le> C" "C \<le> 1" "S = (L - R - C) mod m"
  shows "S + R + C = L + m * (if S \<noteq> L then of_bool (L < S) else C)"
proof (cases "0 \<le> L - R - C")
  case True
  then have "S = L - R - C"
    using assms by simp
  then show ?thesis
    using assms(1-6) by (auto simp: add_nonneg_eq_0_iff)
next
  case False
  then have "S = L - R - C + m"
    using assms by (simp add: mod_wrap)
  moreover have "C = 0 \<or> C = 1"
    using assms(5,6) by linarith
  ultimately show ?thesis
    using assms(1-6) False by auto
qed

lemma add_digit:
  fixes l r c :: u64
  assumes "uint c \<le> 1" "s = l + r + c" "c' = (if s \<noteq> l then of_bool (s < l) else c)"
  shows "uint s + 2 ^ 64 * uint c' = uint l + uint r + uint c" "uint c' \<le> 1"
proof -
  have "uint s = (uint l + uint r + uint c) mod 2 ^ 64"
    by (simp add: assms(2) uint_word_ariths mod_simps)
  moreover have "uint c' = (if uint s \<noteq> uint l then of_bool (uint s < uint l) else uint c)"
    by (simp add: assms(3) word_less_def word_uint_eq_iff)
  ultimately show "uint s + 2 ^ 64 * uint c' = uint l + uint r + uint c"
    using carry_int [of "uint l" "2 ^ 64" "uint r" "uint c" "uint s"] assms(1)
      uint_u64_less [of l] uint_u64_less [of r] by simp
  show "uint c' \<le> 1"
    using assms(1) by (simp add: assms(3))
qed

lemma sub_digit:
  fixes l r c :: u64
  assumes "uint c \<le> 1" "s = l - r - c" "c' = (if s \<noteq> l then of_bool (l < s) else c)"
  shows "uint s + uint r + uint c = uint l + 2 ^ 64 * uint c'" "uint c' \<le> 1"
proof -
  have "uint s = (uint l - uint r - uint c) mod 2 ^ 64"
    by (simp add: assms(2) uint_word_ariths mod_simps)
  moreover have "uint c' = (if uint s \<noteq> uint l then of_bool (uint l < uint s) else uint c)"
    by (simp add: assms(3) word_less_def word_uint_eq_iff)
  ultimately show "uint s + uint r + uint c = uint l + 2 ^ 64 * uint c'"
    using borrow_int [of "uint l" "2 ^ 64" "uint r" "uint c" "uint s"] assms(1)
      uint_u64_less [of l] uint_u64_less [of r] by simp
  show "uint c' \<le> 1"
    using assms(1) by (simp add: assms(3))
qed

lemma add_loop_val:
  "length ls = length rs \<Longrightarrow> uint c \<le> 1 \<Longrightarrow> add_loop c ls rs = (ds, c') \<Longrightarrow>
     length ds = length ls \<and> uint c' \<le> 1
     \<and> val ds + 2 ^ (64 * length ls) * uint c' = val ls + val rs + uint c"
proof (induction ls rs arbitrary: c ds c' rule: list_induct2)
  case (Cons l ls r rs)
  define s where "s = l + r + c"
  define c1 where "c1 = (if s \<noteq> l then of_bool (s < l) else c)"
  obtain ds' where ds: "ds = s # ds'" "add_loop c1 ls rs = (ds', c')"
    using Cons.prems(2) unfolding add_loop.simps Let_def s_def [symmetric] c1_def [symmetric]
    by (auto split: prod.splits)
  note d = add_digit [OF Cons.prems(1) s_def c1_def]
  have "length ds' = length ls" "uint c' \<le> 1"
    "val ds' + 2 ^ (64 * length ls) * uint c' = val ls + val rs + uint c1"
    using Cons.IH [OF d(2) ds(2)] by blast+
  then show ?case
    using d(1) ds(1) by (simp add: power_add algebra_simps)
qed simp

lemma sub_loop_val:
  "length ls = length rs \<Longrightarrow> uint c \<le> 1 \<Longrightarrow> sub_loop c ls rs = (ds, c') \<Longrightarrow>
     length ds = length ls \<and> uint c' \<le> 1
     \<and> val ds + val rs + uint c = val ls + 2 ^ (64 * length ls) * uint c'"
proof (induction ls rs arbitrary: c ds c' rule: list_induct2)
  case (Cons l ls r rs)
  define s where "s = l - r - c"
  define c1 where "c1 = (if s \<noteq> l then of_bool (l < s) else c)"
  obtain ds' where ds: "ds = s # ds'" "sub_loop c1 ls rs = (ds', c')"
    using Cons.prems(2) unfolding sub_loop.simps Let_def s_def [symmetric] c1_def [symmetric]
    by (auto split: prod.splits)
  note d = sub_digit [OF Cons.prems(1) s_def c1_def]
  have "length ds' = length ls" "uint c' \<le> 1"
    "val ds' + val rs + uint c1 = val ls + 2 ^ (64 * length ls) * uint c'"
    using Cons.IH [OF d(2) ds(2)] by blast+
  then show ?case
    using d(1) ds(1) by (simp add: power_add algebra_simps)
qed simp

lemma vli_add_val:
  assumes "length l = 4" "length r = 4" "vli_add l r = (s, c)"
  shows "length s = 4" "val s + radix * uint c = val l + val r" "uint c \<le> 1"
  using add_loop_val [of l r 0 s c] assms by (simp_all add: vli_add_def)

lemma vli_sub_val:
  assumes "length l = 4" "length r = 4" "vli_sub l r = (s, c)"
  shows "length s = 4" "val s + val r = val l + radix * uint c" "uint c \<le> 1"
  using sub_loop_val [of l r 0 s c] assms by (simp_all add: vli_sub_def)

lemma carry_bit:
  fixes s x m c :: int
  assumes "s + m * c = x" "c \<le> 1" "0 \<le> c" "0 \<le> s" "s < m"
  shows "c = of_bool (m \<le> x)"
proof -
  have "c = 0 \<or> c = 1"
    using assms(2,3) by linarith
  then show ?thesis
    using assms by auto
qed

lemma borrow_bit:
  fixes s l r m c :: int
  assumes "s + r = l + m * c" "c \<le> 1" "0 \<le> c" "0 \<le> s" "s < m"
  shows "c = of_bool (l < r)"
proof -
  have "c = 0 \<or> c = 1"
    using assms(2,3) by linarith
  then show ?thesis
    using assms by auto
qed

text \<open>The value determines carry and borrow.\<close>

lemma vli_add_carry:
  assumes "length l = 4" "length r = 4" "vli_add l r = (s, c)"
  shows "c = of_bool (radix \<le> val l + val r)" "val s = (val l + val r) mod radix"
proof -
  note v = vli_add_val [OF assms]
  have "uint c = of_bool (radix \<le> val l + val r)"
    by (rule carry_bit [OF v(2,3) uint_nonnegative val_nonneg val_radix [OF v(1)]])
  then show "c = of_bool (radix \<le> val l + val r)"
    by (simp add: word_uint_eq_iff)
  have "(val s + radix * uint c) mod radix = val s"
    using val_radix [OF v(1)] by (simp add: val_nonneg)
  then show "val s = (val l + val r) mod radix"
    unfolding v(2) by simp
qed

lemma vli_sub_borrow:
  assumes "length l = 4" "length r = 4" "vli_sub l r = (s, c)"
  shows "c = of_bool (val l < val r)" "val s = (val l - val r) mod radix"
proof -
  note v = vli_sub_val [OF assms]
  have "uint c = of_bool (val l < val r)"
    by (rule borrow_bit [OF v(2,3) uint_nonnegative val_nonneg val_radix [OF v(1)]])
  then show "c = of_bool (val l < val r)"
    by (simp add: word_uint_eq_iff)
  have "val l - val r = val s + radix * (- uint c)"
    using v(2) by simp
  then show "val s = (val l - val r) mod radix"
    using val_radix [OF v(1)] by (simp only: mod_mult_self2) (simp add: val_nonneg)
qed

lemma cmp_loop_snoc: "length ls = length rs \<Longrightarrow> cmp_loop (ls @ [l]) (rs @ [r])
    = (if cmp_loop ls rs \<noteq> 0 then cmp_loop ls rs else if r < l then 1 else if l < r then -1 else 0)"
  by (induction ls rs rule: list_induct2) auto

lemma sgn_digit:
  fixes a b x y m :: int
  assumes "0 \<le> a" "a < m" "0 \<le> b" "b < m"
  shows "sgn ((a + m * x) - (b + m * y)) = (if x \<noteq> y then sgn (x - y) else sgn (a - b))"
proof -
  have "m * x + m \<le> m * y" if "x < y"
    using mult_left_mono [of "x + 1" y m] that assms by (simp add: algebra_simps)
  moreover have "m * y + m \<le> m * x" if "y < x"
    using mult_left_mono [of "y + 1" x m] that assms by (simp add: algebra_simps)
  ultimately show ?thesis
    using assms by (cases "x < y"; cases "y < x") (auto simp: sgn_if)
qed

lemma vli_cmp_val: "length l = length r \<Longrightarrow> vli_cmp l r = sgn (val l - val r)"
proof (induction l r rule: list_induct2)
  case (Cons l ls r rs)
  have c: "vli_cmp (l # ls) (r # rs)
      = (if vli_cmp ls rs \<noteq> 0 then vli_cmp ls rs else if r < l then 1 else if l < r then -1 else 0)"
    using Cons(1) by (simp add: vli_cmp_def cmp_loop_snoc)
  have "sgn (val (l # ls) - val (r # rs)) = (if val ls \<noteq> val rs then sgn (val ls - val rs) else sgn (uint l - uint r))"
    using sgn_digit [of "uint l" "2 ^ 64" "uint r" "val ls" "val rs"] uint_u64_less [of l] uint_u64_less [of r]
    by simp
  then show ?case
    using c Cons.IH by (auto simp: sgn_if word_less_def)
qed (simp add: vli_cmp_def)

section \<open>Shifts and bits\<close>

lemma uint_shift_or:
  fixes d c :: u64
  assumes "0 < k" "k \<le> 64" "uint c < 2 ^ k"
  shows "uint (push_bit k d OR c) = (2 ^ k * uint d) mod 2 ^ 64 + uint c"
proof -
  have c: "\<not> bit c n" if "k \<le> n" for n
  proof -
    have "take_bit k (uint c) = uint c"
      using assms(3) by (simp add: take_bit_int_eq_self)
    then have "bit (uint c) n = bit (take_bit k (uint c)) n"
      by simp
    then show ?thesis
      using that bit_imp_le_length [of c n] by (auto simp: bit_take_bit_iff bit_uint_iff)
  qed
  have "push_bit k d OR c = push_bit k d + c"
    by (rule disjunctive_add [symmetric]) (use c in \<open>auto simp: bit_push_bit_iff not_le\<close>)
  moreover have "uint (push_bit k d) = (2 ^ k * uint d) mod 2 ^ 64"
    by (subst unsigned_push_bit_eq) (simp add: take_bit_eq_mod push_bit_eq_mult mult.commute)
  moreover have "(2 ^ k * uint d) mod 2 ^ 64 + uint c < 2 ^ 64"
  proof -
    have "(2 ^ k * uint d) mod (2 ^ k * 2 ^ (64 - k)) = 2 ^ k * (uint d mod 2 ^ (64 - k))"
      by (rule mult_mod_right [symmetric])
    moreover have "uint d mod 2 ^ (64 - k) < 2 ^ (64 - k)"
      by (rule pos_mod_bound) simp
    then have "uint d mod 2 ^ (64 - k) + 1 \<le> 2 ^ (64 - k)"
      by (simp only: zless_imp_add1_zle)
    then have "2 ^ k * (uint d mod 2 ^ (64 - k) + 1) \<le> 2 ^ k * 2 ^ (64 - k)"
      by (rule mult_left_mono) simp
    moreover have "(2 :: int) ^ k * 2 ^ (64 - k) = 2 ^ 64"
      using assms(2) by (simp flip: power_add)
    ultimately show ?thesis
      using assms(3) by (simp add: algebra_simps)
  qed
  ultimately show ?thesis
    by (simp add: uint_word_ariths)
qed

lemma uint_drop: "uint (drop_bit k (d :: u64)) = uint d div 2 ^ k"
proof -
  have "uint (drop_bit k d) = drop_bit k (uint d)"
  proof (rule bit_eqI)
    fix n
    show "bit (uint (drop_bit k d)) n = bit (drop_bit k (uint d)) n"
      using bit_imp_le_length [of d "k + n"] by (auto simp: bit_uint_iff bit_drop_bit_eq)
  qed
  then show ?thesis
    by (simp add: drop_bit_eq_div)
qed

lemma lshift_loop_val:
  "0 < k \<Longrightarrow> k < 64 \<Longrightarrow> uint c < 2 ^ k \<Longrightarrow> lshift_loop k c ds = (ds', c') \<Longrightarrow>
     length ds' = length ds \<and> uint c' < 2 ^ k
     \<and> val ds' + 2 ^ (64 * length ds) * uint c' = 2 ^ k * val ds + uint c"
proof (induction ds arbitrary: c ds' c')
  case (Cons d ds)
  obtain es where es: "ds' = (push_bit k d OR c) # es" "lshift_loop k (drop_bit (64 - k) d) ds = (es, c')"
    using Cons.prems(4) by (auto split: prod.splits)
  let ?q = "uint d div 2 ^ (64 - k)"
  have pk: "(2 :: int) ^ k * 2 ^ (64 - k) = 2 ^ 64"
    using Cons.prems(2) by (simp flip: power_add)
  have m: "0 \<le> uint d mod 2 ^ (64 - k)"
    by (simp add: pos_mod_sign)
  have "?q * 2 ^ (64 - k) < 2 ^ k * 2 ^ (64 - k)"
    using uint_u64_less [of d] m div_mult_mod_eq [of "uint d" "2 ^ (64 - k)"] unfolding pk by linarith
  then have q: "uint (drop_bit (64 - k) d) < 2 ^ k"
    unfolding uint_drop by (simp only: mult_less_cancel_right) simp
  have IH: "length es = length ds" "uint c' < 2 ^ k"
    "val es + 2 ^ (64 * length ds) * uint c' = 2 ^ k * val ds + ?q"
    using Cons.IH [OF Cons.prems(1,2) q es(2)] unfolding uint_drop by blast+
  have "2 ^ k * (2 ^ (64 - k) * ?q + uint d mod 2 ^ (64 - k)) = 2 ^ k * uint d"
    by (simp only: mult_div_mod_eq)
  then have "2 ^ k * uint d = 2 ^ k * (uint d mod 2 ^ (64 - k)) + 2 ^ 64 * ?q"
    unfolding distrib_left mult.assoc [symmetric] pk by linarith
  moreover have "(2 ^ k * uint d) mod 2 ^ 64 = 2 ^ k * (uint d mod 2 ^ (64 - k))"
    unfolding pk [symmetric] by (rule mult_mod_right [symmetric])
  ultimately have "uint (push_bit k d OR c) + 2 ^ 64 * ?q = 2 ^ k * uint d + uint c"
    using uint_shift_or [of k c d] Cons.prems(1-3) by simp
  then show ?case
    using IH es(1) by (simp add: power_add algebra_simps)
qed simp

lemma vli_lshift_val:
  assumes "length v = 4" "0 < k" "k < 64" "vli_lshift v k = (r, c)"
  shows "length r = 4" "val r + radix * uint c = 2 ^ k * val v" "uint c < 2 ^ k"
  using lshift_loop_val [of k 0 v r c] assms by (simp_all add: vli_lshift_def)

text \<open>The right shift runs from the most significant digit; what it has produced so far, with the bit that
  is carried on, is half of what it has read.\<close>

lemma uint_rshift_or:
  fixes d c :: u64
  assumes "c = push_bit 63 e"
  shows "uint (drop_bit 1 d OR c) = uint d div 2 + 2 ^ 63 * (uint e mod 2)"
proof -
  have "\<not> bit (drop_bit 1 d) n \<or> \<not> bit c n" for n
    using bit_imp_le_length [of d "Suc n"] assms by (auto simp: bit_drop_bit_eq bit_push_bit_iff)
  then have "drop_bit 1 d OR c = drop_bit 1 d + c"
    by (rule disjunctive_add [symmetric])
  moreover have "uint (drop_bit 1 d) = uint d div 2"
    using uint_drop [of 1 d] by simp
  moreover have "uint c = 2 ^ 63 * (uint e mod 2)"
  proof -
    have "uint c = (2 ^ 63 * uint e) mod (2 ^ 63 * 2)"
      unfolding assms by (subst unsigned_push_bit_eq) (simp add: take_bit_eq_mod push_bit_eq_mult mult.commute)
    then show ?thesis
      by (simp only: mult_mod_right)
  qed
  moreover have "uint d div 2 < 2 ^ 63" "2 ^ 63 * (uint e mod 2) \<le> 2 ^ 63"
    using uint_u64_less [of d] by simp_all
  ultimately show ?thesis
    by (simp add: uint_word_ariths)
qed

lemma rshift1_loop_val:
  "length (rshift1_loop (push_bit 63 e) ds) = length ds
    \<and> 2 * val (rev (rshift1_loop (push_bit 63 e) ds)) + uint (last (e # ds)) mod 2
        = val (rev ds) + 2 ^ (64 * length ds) * (uint e mod 2)"
proof (induction ds arbitrary: e)
  case (Cons d ds)
  let ?r = "rshift1_loop (push_bit 63 d) ds" and ?m = "(2 :: int) ^ (64 * length ds)"
  obtain q b where qb: "uint d div 2 = q" "uint d mod 2 = b" "uint d = 2 * q + b"
    using mult_div_mod_eq [of 2 "uint d"] by metis
  have IH: "length ?r = length ds" "2 * val (rev ?r) + uint (last (d # ds)) mod 2 = val (rev ds) + ?m * b"
    using Cons.IH [of d] unfolding qb(2) by blast+
  have "uint (drop_bit 1 d OR push_bit 63 e) = q + 2 ^ 63 * (uint e mod 2)"
    using uint_rshift_or [of "push_bit 63 e" e d] unfolding qb(1) by simp
  moreover have "last (e # d # ds) = last (d # ds)"
    by simp
  ultimately show ?case
    using IH unfolding rshift1_loop.simps rev.simps val_append val.simps qb(3)
    by (simp only:) (simp add: power_add algebra_simps)
qed simp

lemma val_even: "val (d # ds) mod 2 = uint d mod 2"
  by (simp add: mod_add_eq [symmetric] mod_mult_left_eq [symmetric])

lemma vli_rshift1_val: "length (vli_rshift1 v) = length v" "val (vli_rshift1 v) = val v div 2"
proof -
  note l = rshift1_loop_val [of 0 "rev v"]
  show "length (vli_rshift1 v) = length v"
    using l by (simp add: vli_rshift1_def)
  have "uint (last (0 # rev v)) mod 2 = val v mod 2"
    by (cases v) (simp_all only: val_even, simp_all)
  then have "2 * val (vli_rshift1 v) + val v mod 2 = val v"
    using l by (simp add: vli_rshift1_def)
  then show "val (vli_rshift1 v) = val v div 2"
    by presburger
qed

text \<open>Bits.\<close>

lemma val_bit: "i < 64 * length v \<Longrightarrow> bit (val v) i = bit (v ! (i div 64)) (i mod 64)"
proof (induction v arbitrary: i)
  case (Cons d v)
  have "val (d # v) = uint d OR push_bit 64 (val v)"
  proof -
    have "uint d + push_bit 64 (val v) = uint d OR push_bit 64 (val v)"
      by (rule disjunctive_add) (auto simp: bit_uint_iff bit_push_bit_iff dest: bit_imp_le_length)
    then show ?thesis
      by (simp add: push_bit_eq_mult mult.commute)
  qed
  then have "bit (val (d # v)) i \<longleftrightarrow> bit d i \<or> 64 \<le> i \<and> bit (val v) (i - 64)"
    by (simp only: bit_or_iff bit_uint_iff bit_push_bit_iff) (auto dest: bit_imp_le_length)
  then show ?case
    using Cons.IH [of "i - 64"] Cons.prems bit_imp_le_length [of d i]
    by (cases "i < 64") (auto simp: div_eq_0_iff le_div_geq le_mod_geq)
qed simp

lemma vli_test_bit_val: "i < 64 * length v \<Longrightarrow> vli_test_bit v i \<noteq> 0 \<longleftrightarrow> bit (val v) i"
proof -
  assume i: "i < 64 * length v"
  have "vli_test_bit v i \<noteq> 0 \<longleftrightarrow> bit (v ! (i div 64)) (i mod 64)"
  proof
    assume "vli_test_bit v i \<noteq> 0"
    then obtain n where "bit (vli_test_bit v i) n"
      using bit_eq_iff [of "vli_test_bit v i" 0] by auto
    then show "bit (v ! (i div 64)) (i mod 64)"
      by (auto simp: vli_test_bit_def bit_and_iff bit_exp_iff)
  next
    assume "bit (v ! (i div 64)) (i mod 64)"
    then have "bit (vli_test_bit v i) (i mod 64)"
      by (simp add: vli_test_bit_def bit_and_iff bit_exp_iff)
    then show "vli_test_bit v i \<noteq> 0"
      by auto
  qed
  then show ?thesis
    using val_bit [OF i] by simp
qed

lemma vli_is_zero_val: "vli_is_zero v \<longleftrightarrow> val v = 0"
  by (induction v) (auto simp: add_nonneg_eq_0_iff val_nonneg word_uint_eq_iff)

lemma digit_bits_bounds: "uint d < 2 ^ digit_bits d \<and> (d \<noteq> 0 \<longrightarrow> 2 ^ digit_bits d \<le> 2 * uint d)"
proof (induction d rule: digit_bits.induct)
  case (1 d)
  show ?case
  proof (cases "d = 0")
    case False
    have s: "digit_bits d = Suc (digit_bits (drop_bit 1 d))"
      using False by (subst digit_bits.simps) simp
    have u: "uint (drop_bit 1 d) = uint d div 2"
      using uint_drop [of 1 d] by simp
    have IH: "uint d div 2 < 2 ^ digit_bits (drop_bit 1 d)"
      "uint d div 2 \<noteq> 0 \<Longrightarrow> 2 ^ digit_bits (drop_bit 1 d) \<le> 2 * (uint d div 2)"
      using 1 [OF False] u by (auto simp: word_uint_eq_iff)
    have "0 < uint d"
      using False by (simp add: word_neq_0_conv word_less_def)
    moreover have "digit_bits (drop_bit 1 d) = 0" if "uint d div 2 = 0"
    proof -
      have "drop_bit 1 d = 0"
        using that u by (simp only: word_uint_eq_iff) simp
      then show ?thesis
        by (subst digit_bits.simps) simp
    qed
    ultimately show ?thesis
      using IH unfolding s by (cases "uint d div 2 = 0") auto
  qed (simp add: digit_bits.simps)
qed

lemma num_digits_le: "vli_num_digits v \<le> length v"
  by (induction v rule: rev_induct) (auto simp: vli_num_digits_def)

lemma vli_num_bits_snoc:
  "vli_num_bits (v @ [d]) = (if d = 0 then vli_num_bits v else 64 * length v + digit_bits d)"
proof -
  have "vli_num_digits (v @ [d]) = (if d = 0 then vli_num_digits v else Suc (length v))"
    by (simp add: vli_num_digits_def)
  then show ?thesis
    using num_digits_le [of v] by (auto simp: vli_num_bits_def Let_def nth_append)
qed

lemma vli_num_bits_val: "val v < 2 ^ vli_num_bits v \<and> (0 < val v \<longrightarrow> 2 ^ vli_num_bits v \<le> 2 * val v)"
proof (induction v rule: rev_induct)
  case (snoc d v)
  show ?case
  proof (cases "d = 0")
    case False
    let ?m = "(2 :: int) ^ (64 * length v)"
    have "?m * (uint d + 1) \<le> ?m * 2 ^ digit_bits d" "?m * 2 ^ digit_bits d \<le> ?m * (2 * uint d)"
      using digit_bits_bounds [of d] False by simp_all
    then have b: "?m * uint d + ?m \<le> ?m * 2 ^ digit_bits d" "?m * 2 ^ digit_bits d \<le> 2 * (?m * uint d)"
      by (simp_all only: distrib_left mult_1_right)
    have e: "val (v @ [d]) = val v + ?m * uint d" "(2 :: int) ^ vli_num_bits (v @ [d]) = ?m * 2 ^ digit_bits d"
      using False by (simp_all add: vli_num_bits_snoc val_append power_add)
    show ?thesis
      unfolding e
    proof (intro conjI impI)
      show "val v + ?m * uint d < ?m * 2 ^ digit_bits d"
        using b(1) val_less [of v] by linarith
      show "?m * 2 ^ digit_bits d \<le> 2 * (val v + ?m * uint d)"
        by (rule order_trans [OF b(2)]) (simp add: val_nonneg)
    qed
  qed (use snoc in \<open>simp add: vli_num_bits_snoc val_append\<close>)
qed (simp add: vli_num_bits_def vli_num_digits_def)

section \<open>Properties\<close>

text \<open>C33.  Addition, subtraction and comparison of 256-bit numbers are exact: \<^verbatim>\<open>vli_add\<close> gives the sum modulo
  \<open>2^256\<close> and returns 1 exactly when the sum does not fit, \<^verbatim>\<open>vli_sub\<close> gives the difference modulo \<open>2^256\<close> and
  returns 1 exactly when it is negative, although both derive the carry of a digit from one comparison;
  \<^verbatim>\<open>vli_cmp\<close> is the sign of the difference and \<^verbatim>\<open>vli_is_zero\<close> the test for zero.\<close>

theorem vli_arith:
  assumes "length l = 4" "length r = 4"
  shows "(case vli_add l r of (s, c) \<Rightarrow>
           length s = 4 \<and> val s = (val l + val r) mod 2 ^ 256 \<and> c = of_bool (2 ^ 256 \<le> val l + val r))
    \<and> (case vli_sub l r of (s, c) \<Rightarrow>
           length s = 4 \<and> val s = (val l - val r) mod 2 ^ 256 \<and> c = of_bool (val l < val r))
    \<and> vli_cmp l r = sgn (val l - val r) \<and> (vli_is_zero l \<longleftrightarrow> val l = 0)"
proof (intro conjI)
  show "case vli_add l r of (s, c) \<Rightarrow>
      length s = 4 \<and> val s = (val l + val r) mod 2 ^ 256 \<and> c = of_bool (2 ^ 256 \<le> val l + val r)"
    using vli_add_val(1) [OF assms] vli_add_carry [OF assms] by (cases "vli_add l r") blast
  show "case vli_sub l r of (s, c) \<Rightarrow>
      length s = 4 \<and> val s = (val l - val r) mod 2 ^ 256 \<and> c = of_bool (val l < val r)"
    using vli_sub_val(1) [OF assms] vli_sub_borrow [OF assms] by (cases "vli_sub l r") blast
qed (simp_all add: assms vli_cmp_val vli_is_zero_val)

theorem vli_arith_witness:
  "snd (vli_add [- 1, - 1, - 1, - 1] [1, 0, 0, 0]) = 1 \<and> val (fst (vli_add [- 1, - 1, - 1, - 1] [1, 0, 0, 0])) = 0"
proof -
  have "val [- 1, - 1, - 1, - 1] = 2 ^ 256 - 1"
    by (simp add: unsigned_minus_1_eq_mask mask_eq_exp_minus_1)
  then show ?thesis
    using vli_arith [of "[- 1, - 1, - 1, - 1]" "[1, 0, 0, 0]"] by (auto split: prod.splits)
qed

text \<open>Shifts and bits: a left shift by 1 to 63 multiplies, with the bits that leave the number in the
  returned carry; \<^verbatim>\<open>vli_rshift1\<close> halves; \<^verbatim>\<open>vli_test_bit\<close> reads bit \<open>i\<close> of the number; and \<^verbatim>\<open>vli_num_bits\<close> is
  the number of bits that the number needs.\<close>

theorem vli_bits:
  assumes "length v = 4" "0 < k" "k < 64" "i < 256"
  shows "(case vli_lshift v k of (r, c) \<Rightarrow> length r = 4 \<and> val r + 2 ^ 256 * uint c = 2 ^ k * val v \<and> uint c < 2 ^ k)
    \<and> length (vli_rshift1 v) = 4 \<and> val (vli_rshift1 v) = val v div 2
    \<and> (vli_test_bit v i \<noteq> 0 \<longleftrightarrow> bit (val v) i)
    \<and> val v < 2 ^ vli_num_bits v \<and> (0 < val v \<longrightarrow> 2 ^ vli_num_bits v \<le> 2 * val v)"
proof -
  have "case vli_lshift v k of (r, c) \<Rightarrow> length r = 4 \<and> val r + 2 ^ 256 * uint c = 2 ^ k * val v \<and> uint c < 2 ^ k"
    using vli_lshift_val [OF assms(1-3)] by (cases "vli_lshift v k") blast
  then show ?thesis
    using assms(1,4) vli_rshift1_val [of v] vli_test_bit_val [of i v] vli_num_bits_val [of v] by simp
qed

theorem vli_bits_witness:
  "val (vli_rshift1 [1, 1, 0, 0]) = 2 ^ 63 \<and> vli_test_bit [1, 1, 0, 0] 64 \<noteq> 0"
proof -
  have "val [1, 1, 0, 0] = 2 ^ 64 + 1" "bit (2 ^ 64 + 1 :: int) 64"
    by (simp, code_simp)
  then show ?thesis
    using vli_bits [of "[1, 1, 0, 0]" 1 64] by simp
qed

end
