(* ===== verification/Vli_Mult.thy ===== *)
theory Vli_Mult
  imports Vli
begin

text \<open>
  Multiplication and squaring of 256-bit numbers in \<^verbatim>\<open>bluez5/src/shared/ecc.c\<close>.  The digits of the product
  are computed column by column in a 192-bit accumulator, a pair \<open>(r01, r2)\<close>; the carry into \<open>r2\<close> is
  derived from a comparison of the upper halves alone, which is not always the carry.
\<close>

section \<open>Definitions\<close>

record uint128_t =
  m_low :: u64
  m_high :: u64

definition mul_64_64 :: "u64 \<Rightarrow> u64 \<Rightarrow> uint128_t" where
  "mul_64_64 left right =
     (let a0 = left AND 0xffffffff;
          a1 = drop_bit 32 left;
          b0 = right AND 0xffffffff;
          b1 = drop_bit 32 right;
          m0 = a0 * b0;
          m1 = a0 * b1;
          m2 = a1 * b0;
          m3 = a1 * b1;
          m2 = m2 + drop_bit 32 m0;
          m2 = m2 + m1;
          m3 = (if m2 < m1 then m3 + 0x100000000 else m3)
      in \<lparr>m_low = (m0 AND 0xffffffff) OR push_bit 32 m2, m_high = m3 + drop_bit 32 m2\<rparr>)"

definition add_128_128 :: "uint128_t \<Rightarrow> uint128_t \<Rightarrow> uint128_t" where
  "add_128_128 a b =
     (let low = m_low a + m_low b
      in \<lparr>m_low = low, m_high = m_high a + m_high b + of_bool (low < m_low a)\<rparr>)"

text \<open>The two statements that add a product to the accumulator.\<close>

definition acc_step :: "uint128_t \<Rightarrow> uint128_t \<times> u64 \<Rightarrow> uint128_t \<times> u64" where
  "acc_step product acc =
     (let r01 = add_128_128 (fst acc) product
      in (r01, snd acc + of_bool (m_high r01 < m_high product)))"

definition column_min :: "nat \<Rightarrow> nat" where
  "column_min k = (if k < NUM_ECC_DIGITS then 0 else (k + 1) - NUM_ECC_DIGITS)"

text \<open>The inner loop of \<^verbatim>\<open>vli_mult\<close> over \<open>i\<close>, starting with \<open>r2 = 0\<close>.\<close>

definition mult_column :: "vli \<Rightarrow> vli \<Rightarrow> nat \<Rightarrow> uint128_t \<Rightarrow> uint128_t \<times> u64" where
  "mult_column left right k r01 =
     fold (\<lambda>i. acc_step (mul_64_64 (left ! i) (right ! (k - i))))
       [column_min k..<min (Suc k) NUM_ECC_DIGITS] (r01, 0)"

text \<open>The outer loop: a digit of the result per column, the rest of the accumulator moves down.\<close>

fun column_loop :: "(nat \<Rightarrow> uint128_t \<Rightarrow> uint128_t \<times> u64) \<Rightarrow> nat list \<Rightarrow> uint128_t \<Rightarrow> vli" where
  "column_loop column [] r01 = [m_low r01]"
| "column_loop column (k # ks) r01 =
     (let (r, r2) = column k r01
      in m_low r # column_loop column ks \<lparr>m_low = m_high r, m_high = r2\<rparr>)"

definition vli_mult :: "vli \<Rightarrow> vli \<Rightarrow> vli" where
  "vli_mult left right =
     column_loop (mult_column left right) [0..<NUM_ECC_DIGITS * 2 - 1] \<lparr>m_low = 0, m_high = 0\<rparr>"

text \<open>In a square the products off the diagonal are doubled, with the bit that leaves the 128 bits added to
  \<open>r2\<close>.\<close>

definition square_step :: "vli \<Rightarrow> nat \<Rightarrow> nat \<Rightarrow> uint128_t \<times> u64 \<Rightarrow> uint128_t \<times> u64" where
  "square_step left k i acc =
     (let product = mul_64_64 (left ! i) (left ! (k - i))
      in if i < k - i
         then acc_step
                \<lparr>m_low = push_bit 1 (m_low product),
                 m_high = push_bit 1 (m_high product) OR drop_bit 63 (m_low product)\<rparr>
                (fst acc, snd acc + drop_bit 63 (m_high product))
         else acc_step product acc)"

definition square_column :: "vli \<Rightarrow> nat \<Rightarrow> uint128_t \<Rightarrow> uint128_t \<times> u64" where
  "square_column left k r01 =
     fold (square_step left k) (takeWhile (\<lambda>i. i \<le> k - i) [column_min k..<Suc k]) (r01, 0)"

definition vli_square :: "vli \<Rightarrow> vli" where
  "vli_square left =
     column_loop (square_column left) [0..<NUM_ECC_DIGITS * 2 - 1] \<lparr>m_low = 0, m_high = 0\<rparr>"

section \<open>Products of two digits\<close>

definition val128 :: "uint128_t \<Rightarrow> int" where
  "val128 r = uint (m_low r) + 2 ^ 64 * uint (m_high r)"

lemma uint_low32: "uint (d AND 0xffffffff :: u64) = uint d mod 2 ^ 32"
proof -
  have "(0xffffffff :: u64) = mask 32"
    by (simp add: mask_eq_exp_minus_1)
  then have "d AND 0xffffffff = take_bit 32 d"
    by (simp only: take_bit_eq_mask)
  then have "uint (d AND 0xffffffff) = take_bit 32 (uint d)"
    by (simp only: unsigned_take_bit_eq)
  then show ?thesis
    by (simp add: take_bit_eq_mod)
qed

lemma uint_mult_small: "uint a * uint b < 2 ^ 64 \<Longrightarrow> uint (a * b :: u64) = uint a * uint b"
  by (simp add: uint_word_ariths)

lemma uint_add_small: "uint a + uint b < 2 ^ 64 \<Longrightarrow> uint (a + b :: u64) = uint a + uint b"
  by (simp add: uint_word_ariths)

lemma mult_below: "0 \<le> a \<Longrightarrow> 0 \<le> b \<Longrightarrow> a < m \<Longrightarrow> b < m \<Longrightarrow> a * b \<le> (m - 1) * (m - 1)" for a b m :: int
  by (rule mult_mono) simp_all

text \<open>The school method on 32-bit halves, as integers.\<close>

lemma halves_product:
  fixes a0 a1 b0 b1 m1 m2 :: int
  defines "t \<equiv> a1 * b0 + (a0 * b0) div 2 ^ 32"
  assumes "0 \<le> a0" "a0 < 2 ^ 32" "0 \<le> a1" "a1 < 2 ^ 32" "0 \<le> b0" "b0 < 2 ^ 32" "0 \<le> b1" "b1 < 2 ^ 32"
    and "m2 = (t + a0 * b1) mod 2 ^ 64"
  shows "t < 2 ^ 64" "m2 = (if m2 < a0 * b1 then t + a0 * b1 - 2 ^ 64 else t + a0 * b1)"
    and "(a0 * b0) mod 2 ^ 32 + (2 ^ 32 * m2) mod 2 ^ 64
           + 2 ^ 64 * (a1 * b1 + (if m2 < a0 * b1 then 2 ^ 32 else 0) + m2 div 2 ^ 32)
         = (a0 + 2 ^ 32 * a1) * (b0 + 2 ^ 32 * b1)"
proof -
  let ?M = "(2 ^ 32 - 1) * (2 ^ 32 - 1) :: int"
  have p: "a0 * b0 \<le> ?M" "a0 * b1 \<le> ?M" "a1 * b0 \<le> ?M" "0 \<le> a0 * b0" "0 \<le> a0 * b1" "0 \<le> a1 * b0"
    using assms(2-9) by (simp_all add: mult_below [where m = "2 ^ 32", simplified])
  have "(a0 * b0) div 2 ^ 32 \<le> ?M div 2 ^ 32"
    using p(1) by (rule zdiv_mono1) simp
  then have t: "0 \<le> t" "t < 2 ^ 64"
    using p by (simp_all add: t_def pos_imp_zdiv_nonneg_iff)
  show "t < 2 ^ 64"
    by (rule t(2))
  show m2: "m2 = (if m2 < a0 * b1 then t + a0 * b1 - 2 ^ 64 else t + a0 * b1)"
  proof (cases "t + a0 * b1 < 2 ^ 64")
    case True
    then show ?thesis
      using assms(10) t(1) p(5) by simp
  next
    case False
    then have "m2 = t + a0 * b1 - 2 ^ 64"
      unfolding assms(10) using t p by (intro mod_wrap) simp_all
    then show ?thesis
      using t(2) by simp
  qed
  have "2 ^ 32 * m2 = (2 ^ 32 * m2) mod 2 ^ 64 + 2 ^ 64 * (m2 div 2 ^ 32)"
    using mult_div_mod_eq [of "2 ^ 64" "2 ^ 32 * m2"] by simp
  moreover have "a0 * b0 = (a0 * b0) mod 2 ^ 32 + 2 ^ 32 * (t - a1 * b0)"
    using mult_div_mod_eq [of "2 ^ 32" "a0 * b0"] by (simp add: t_def)
  ultimately show "(a0 * b0) mod 2 ^ 32 + (2 ^ 32 * m2) mod 2 ^ 64
           + 2 ^ 64 * (a1 * b1 + (if m2 < a0 * b1 then 2 ^ 32 else 0) + m2 div 2 ^ 32)
         = (a0 + 2 ^ 32 * a1) * (b0 + 2 ^ 32 * b1)"
    using m2 by (auto simp: algebra_simps)
qed

lemma high_less: "lo + 2 ^ 64 * H = X \<Longrightarrow> 0 \<le> lo \<Longrightarrow> X \<le> (2 ^ 64 - 1) * (2 ^ 64 - 1) \<Longrightarrow> H < 2 ^ 64" for H :: int
  by simp

lemma mul_64_64_val: "val128 (mul_64_64 l r) = uint l * uint r"
proof -
  define a0 a1 b0 b1 where ab: "a0 = uint l mod 2 ^ 32" "a1 = uint l div 2 ^ 32" "b0 = uint r mod 2 ^ 32"
    "b1 = uint r div 2 ^ 32"
  have l: "uint l = a0 + 2 ^ 32 * a1" "uint r = b0 + 2 ^ 32 * b1"
    unfolding ab by simp_all
  have b: "0 \<le> a0" "a0 < 2 ^ 32" "0 \<le> a1" "a1 < 2 ^ 32" "0 \<le> b0" "b0 < 2 ^ 32" "0 \<le> b1" "b1 < 2 ^ 32"
    using uint_u64_less [of l] uint_u64_less [of r] unfolding ab by (simp_all add: pos_imp_zdiv_nonneg_iff)
  define t m2 where tm: "t = a1 * b0 + (a0 * b0) div 2 ^ 32" "m2 = (t + a0 * b1) mod 2 ^ 64"
  note h = halves_product [OF b, of m2, folded tm(1), OF tm(2)]
  let ?l0 = "l AND 0xffffffff" and ?r0 = "r AND 0xffffffff"
  let ?m2 = "drop_bit 32 l * ?r0 + drop_bit 32 (?l0 * ?r0) + ?l0 * drop_bit 32 r"
  have below: "x * y < 2 ^ 64" if "0 \<le> x" "x < 2 ^ 32" "0 \<le> y" "y < 2 ^ 32" for x y :: int
    using mult_below [OF that(1,3,2,4)] by simp
  have d: "uint ?l0 = a0" "uint ?r0 = b0" "uint (drop_bit 32 l) = a1" "uint (drop_bit 32 r) = b1"
    by (simp_all only: uint_low32 uint_drop ab)
  have u: "uint (?l0 * ?r0) = a0 * b0" "uint (?l0 * drop_bit 32 r) = a0 * b1"
    "uint (drop_bit 32 l * ?r0) = a1 * b0" "uint (drop_bit 32 l * drop_bit 32 r) = a1 * b1"
    using below b by (simp_all add: uint_mult_small d)
  have "uint (drop_bit 32 l * ?r0 + drop_bit 32 (?l0 * ?r0)) = t"
    using h(1) by (subst uint_add_small) (simp_all add: u uint_drop tm)
  then have m2: "uint ?m2 = m2"
    by (simp add: uint_word_ariths(1) [of _ "?l0 * drop_bit 32 r"] u tm(2))
  have lt: "?m2 < ?l0 * drop_bit 32 r \<longleftrightarrow> m2 < a0 * b1"
    by (simp only: word_less_def m2 u)
  let ?H = "a1 * b1 + (if m2 < a0 * b1 then 2 ^ 32 else 0) + m2 div 2 ^ 32"
  have "uint l * uint r \<le> (2 ^ 64 - 1) * (2 ^ 64 - 1)"
    using uint_u64_less [of l] uint_u64_less [of r] by (intro mult_below) simp_all
  moreover have low: "0 \<le> (a0 * b0) mod 2 ^ 32 + (2 ^ 32 * m2) mod 2 ^ 64"
    by simp
  ultimately have H: "?H < 2 ^ 64"
    using h(3) unfolding l by (intro high_less [OF _ low])
  have m3: "0 \<le> a1 * b1" "0 \<le> m2 div 2 ^ 32"
    using b tm(2) by (simp_all add: pos_imp_zdiv_nonneg_iff)
  let ?m3 = "if ?m2 < ?l0 * drop_bit 32 r then drop_bit 32 l * drop_bit 32 r + 0x100000000 else drop_bit 32 l * drop_bit 32 r"
  have "uint ?m3 = a1 * b1 + (if m2 < a0 * b1 then 2 ^ 32 else 0)"
    using H m3 unfolding lt by (auto simp: uint_add_small u)
  then have "uint (?m3 + drop_bit 32 ?m2) = ?H"
    using H by (subst uint_add_small) (simp_all add: uint_drop m2)
  moreover have "uint ((?l0 * ?r0 AND 0xffffffff) OR push_bit 32 ?m2) = (a0 * b0) mod 2 ^ 32 + (2 ^ 32 * m2) mod 2 ^ 64"
    using uint_shift_or [of 32 "?l0 * ?r0 AND 0xffffffff" ?m2]
    by (simp only: uint_low32 u m2 or.commute) simp
  ultimately show ?thesis
    using h(3) unfolding l by (simp only: val128_def mul_64_64_def Let_def uint128_t.simps)
qed

section \<open>The accumulator\<close>

text \<open>The carry that the comparison misses: the upper half is all ones and the lower halves carry.\<close>

definition lost :: "uint128_t \<Rightarrow> uint128_t \<Rightarrow> int" where
  "lost r p = of_bool (m_high r = - 1 \<and> m_low r + m_low p < m_low r)"

lemma uint_add_carry: "uint (a + b :: u64) + 2 ^ 64 * of_bool (a + b < a) = uint a + uint b"
proof (cases "uint a + uint b < 2 ^ 64")
  case True
  then have "uint (a + b) = uint a + uint b"
    by (rule uint_add_small)
  then show ?thesis
    by (simp add: word_less_def)
next
  case False
  then have "(uint a + uint b) mod 2 ^ 64 = uint a + uint b - 2 ^ 64"
    using uint_u64_less [of a] uint_u64_less [of b] by (intro mod_wrap) simp_all
  then have "uint (a + b) = uint a + uint b - 2 ^ 64"
    by (simp add: uint_word_ariths)
  then show ?thesis
    using uint_u64_less [of b] by (simp add: word_less_def)
qed

lemma high_carry:
  fixes A B C S m :: int
  assumes "0 \<le> A" "A < m" "0 \<le> B" "B < m" "C = 0 \<or> C = 1" "S = (A + B + C) mod m"
  shows "S + m * (of_bool (S < B) + of_bool (A = m - 1 \<and> C = 1)) = A + B + C"
proof (cases "A + B + C < m")
  case True
  then have "S = A + B + C"
    using assms by auto
  then show ?thesis
    using assms True by auto
next
  case False
  then have "S = A + B + C - m"
    unfolding assms(6) using assms(1-5) by (intro mod_wrap) auto
  then show ?thesis
    using assms(1-5) False by auto
qed

lemma uint_minus_1: "uint (- 1 :: u64) = 2 ^ 64 - 1"
  by (simp add: unsigned_minus_1_eq_mask mask_eq_exp_minus_1)

lemma acc_step_val:
  assumes "acc_step p (r, s) = (r', s')" "uint s < 2 ^ 63"
  shows "val128 r' + 2 ^ 128 * (uint s' + lost r p) = val128 r + 2 ^ 128 * uint s + val128 p"
    and "uint s' \<le> uint s + 1" "r' = add_128_128 r p"
proof -
  show r': "r' = add_128_128 r p"
    using assms(1) by (simp add: acc_step_def Let_def)
  have s': "s' = s + of_bool (m_high r' < m_high p)"
    using assms(1) r' by (simp add: acc_step_def Let_def)
  have "uint s' = uint s + of_bool (m_high r' < m_high p)"
    using assms(2) unfolding s' by (subst uint_add_small) auto
  moreover from this show "uint s' \<le> uint s + 1"
    by simp
  moreover have "uint (m_high r') + 2 ^ 64 * (of_bool (m_high r' < m_high p) + lost r p)
      = uint (m_high r) + uint (m_high p) + of_bool (m_low r + m_low p < m_low r)"
  proof -
    have "uint (m_high r') = (uint (m_high r) + uint (m_high p) + of_bool (m_low r + m_low p < m_low r)) mod 2 ^ 64"
      by (simp add: r' add_128_128_def Let_def uint_word_ariths mod_simps)
    then show ?thesis
      using high_carry [of "uint (m_high r)" "2 ^ 64" "uint (m_high p)" "of_bool (m_low r + m_low p < m_low r)" "uint (m_high r')"]
        uint_u64_less [of "m_high r"] uint_u64_less [of "m_high p"]
      by (simp add: lost_def word_less_def word_uint_eq_iff uint_minus_1)
  qed
  moreover have "uint (m_low r') + 2 ^ 64 * of_bool (m_low r + m_low p < m_low r) = uint (m_low r) + uint (m_low p)"
    using uint_add_carry [of "m_low r" "m_low p"] by (simp add: r' add_128_128_def Let_def)
  ultimately show "val128 r' + 2 ^ 128 * (uint s' + lost r p) = val128 r + 2 ^ 128 * uint s + val128 p"
    by (simp add: val128_def algebra_simps)
qed

section \<open>Columns\<close>

text \<open>What a column loop computes: the digits of the sum of the columns, less the carries that were missed.
  A column adds \<open>product k\<close> to the accumulator and misses \<open>missed k r\<close> carries.\<close>

fun column_sum :: "(nat \<Rightarrow> int) \<Rightarrow> nat list \<Rightarrow> int" where
  "column_sum product [] = 0"
| "column_sum product (k # ks) = product k + 2 ^ 64 * column_sum product ks"

fun missed_sum :: "(nat \<Rightarrow> uint128_t \<Rightarrow> uint128_t \<times> u64) \<Rightarrow> (nat \<Rightarrow> uint128_t \<Rightarrow> int) \<Rightarrow> nat list \<Rightarrow> uint128_t \<Rightarrow> int" where
  "missed_sum column missed [] r = 0"
| "missed_sum column missed (k # ks) r =
     2 ^ 128 * missed k r
     + 2 ^ 64 * (case column k r of (r', s) \<Rightarrow> missed_sum column missed ks \<lparr>m_low = m_high r', m_high = s\<rparr>)"

locale column_method =
  fixes column :: "nat \<Rightarrow> uint128_t \<Rightarrow> uint128_t \<times> u64"
    and product :: "nat \<Rightarrow> int"
    and missed :: "nat \<Rightarrow> uint128_t \<Rightarrow> int"
  assumes column_val: "column k r = (r', s) \<Longrightarrow> val128 r' + 2 ^ 128 * (uint s + missed k r) = val128 r + product k"
    and missed_nonneg: "0 \<le> missed k r"
begin

lemma missed_sum_nonneg: "0 \<le> missed_sum column missed ks r"
  by (induction ks arbitrary: r) (simp_all add: missed_nonneg split: prod.splits)

lemma loop_val:
  "\<exists>x\<ge>0. val (column_loop column ks r) + 2 ^ (64 * Suc (length ks)) * x + missed_sum column missed ks r
     = val128 r + column_sum product ks"
proof (induction ks arbitrary: r)
  case Nil
  show ?case
    by (rule exI [of _ "uint (m_high r)"]) (simp add: val128_def)
next
  case (Cons k ks)
  obtain r' s where c: "column k r = (r', s)"
    by (cases "column k r")
  let ?n = "\<lparr>m_low = m_high r', m_high = s\<rparr>"
  obtain x where x: "0 \<le> x" "val (column_loop column ks ?n) + 2 ^ (64 * Suc (length ks)) * x + missed_sum column missed ks ?n
      = val128 ?n + column_sum product ks"
    using Cons.IH [of ?n] by blast
  have "val128 r' + 2 ^ 128 * uint s = uint (m_low r') + 2 ^ 64 * val128 ?n"
    by (simp add: val128_def)
  moreover have "2 ^ 64 * (val (column_loop column ks ?n) + 2 ^ (64 * Suc (length ks)) * x + missed_sum column missed ks ?n)
      = 2 ^ 64 * (val128 ?n + column_sum product ks)"
    using x(2) by simp
  ultimately show ?case
    using x(1) c column_val [OF c] by (intro exI [of _ x]) (simp add: power_add algebra_simps)
qed

text \<open>When the sum of the columns fits into the digits, nothing is left over.\<close>

lemma loop_exact:
  assumes "column_sum product ks < 2 ^ (64 * Suc (length ks))"
  shows "val (column_loop column ks \<lparr>m_low = 0, m_high = 0\<rparr>) + missed_sum column missed ks \<lparr>m_low = 0, m_high = 0\<rparr>
           = column_sum product ks"
proof -
  let ?z = "\<lparr>m_low = 0, m_high = 0\<rparr>" and ?m = "(2 :: int) ^ (64 * Suc (length ks))"
  obtain x where x: "0 \<le> x" "val (column_loop column ks ?z) + ?m * x + missed_sum column missed ks ?z = column_sum product ks"
    using loop_val [of ks ?z] by (auto simp: val128_def)
  have "?m * x < ?m * 1"
    using x(2) assms missed_sum_nonneg [of ks ?z] val_nonneg [of "column_loop column ks ?z"] by linarith
  then have "x < 1"
    by (simp only: mult_less_cancel_left) simp
  then have "x = 0"
    using x(1) by simp
  then show ?thesis
    using x(2) by simp
qed

end

text \<open>The accumulator over a list of products, each with a bit that goes directly to \<open>r2\<close>.\<close>

fun missed_fold :: "uint128_t list \<Rightarrow> uint128_t \<Rightarrow> int" where
  "missed_fold [] r = 0"
| "missed_fold (p # ps) r = lost r p + missed_fold ps (add_128_128 r p)"

lemma missed_fold_nonneg: "0 \<le> missed_fold ps r"
  by (induction ps arbitrary: r) (simp_all add: lost_def)

lemma acc_fold_val:
  assumes "fold (\<lambda>(x, p) (r, s). acc_step p (r, s + x)) xps (r, s) = (r', s')"
    and "\<forall>(x, p)\<in>set xps. uint x \<le> 1" "uint s + 2 * int (length xps) < 2 ^ 63"
  shows "val128 r' + 2 ^ 128 * (uint s' + missed_fold (map snd xps) r)
    = val128 r + 2 ^ 128 * uint s + sum_list (map (\<lambda>(x, p). 2 ^ 128 * uint x + val128 p) xps)"
  using assms
proof (induction xps arbitrary: r s)
  case (Cons xp xps)
  obtain x p where xp: "xp = (x, p)"
    by (cases xp)
  obtain r1 s1 where a: "acc_step p (r, s + x) = (r1, s1)"
    by (cases "acc_step p (r, s + x)")
  have sx: "uint (s + x) = uint s + uint x"
    using Cons.prems(2,3) xp by (intro uint_add_small) auto
  then have "uint (s + x) < 2 ^ 63"
    using Cons.prems(2,3) xp by auto
  note step = acc_step_val [OF a this]
  have "fold (\<lambda>(x, p) (r, s). acc_step p (r, s + x)) xps (r1, s1) = (r', s')"
    using Cons.prems(1) a xp by simp
  moreover have "\<forall>(x, p)\<in>set xps. uint x \<le> 1" "uint s1 + 2 * int (length xps) < 2 ^ 63"
    using Cons.prems(2,3) xp step(2) sx by auto
  ultimately have "val128 r' + 2 ^ 128 * (uint s' + missed_fold (map snd xps) r1)
    = val128 r1 + 2 ^ 128 * uint s1 + sum_list (map (\<lambda>(x, p). 2 ^ 128 * uint x + val128 p) xps)"
    by (rule Cons.IH)
  then show ?case
    using step(1,3) sx xp by (simp add: algebra_simps)
qed simp

text \<open>The columns of a product.\<close>

definition mult_product :: "vli \<Rightarrow> vli \<Rightarrow> nat \<Rightarrow> int" where
  "mult_product l r k = sum_list (map (\<lambda>i. uint (l ! i) * uint (r ! (k - i))) [column_min k..<min (Suc k) NUM_ECC_DIGITS])"

definition mult_missed :: "vli \<Rightarrow> vli \<Rightarrow> nat \<Rightarrow> uint128_t \<Rightarrow> int" where
  "mult_missed l r k = missed_fold (map (\<lambda>i. mul_64_64 (l ! i) (r ! (k - i))) [column_min k..<min (Suc k) NUM_ECC_DIGITS])"

lemma column_length: "min (Suc k) NUM_ECC_DIGITS - column_min k \<le> 4" "Suc k - column_min k \<le> 4"
  by (auto simp: column_min_def NUM_ECC_DIGITS_def)

interpretation mult: column_method "mult_column l r" "mult_product l r" "mult_missed l r" for l r
proof (unfold_locales, goal_cases)
  case (1 k a a' s)
  let ?is = "[column_min k..<min (Suc k) NUM_ECC_DIGITS]" and ?f = "\<lambda>i. mul_64_64 (l ! i) (r ! (k - i))"
  have "fold (\<lambda>(x, p) (r, s). acc_step p (r, s + x)) (map (\<lambda>i. (0, ?f i)) ?is) (a, 0) = mult_column l r k a"
    by (simp add: mult_column_def fold_map comp_def)
  then show ?case
    using acc_fold_val [of "map (\<lambda>i. (0, ?f i)) ?is" a 0 a' s] 1 column_length(1) [of k]
    by (simp add: mult_product_def mult_missed_def comp_def mul_64_64_val)
qed (simp add: mult_missed_def missed_fold_nonneg)

text \<open>The columns of a square.\<close>

definition doubled :: "uint128_t \<Rightarrow> uint128_t" where
  "doubled p = \<lparr>m_low = push_bit 1 (m_low p), m_high = push_bit 1 (m_high p) OR drop_bit 63 (m_low p)\<rparr>"

lemma uint_drop63: "uint (drop_bit 63 (d :: u64)) = uint d div 2 ^ 63" "uint (drop_bit 63 (d :: u64)) \<le> 1"
  using uint_drop [of 63 d] uint_u64_less [of d] by simp_all

lemma doubled_val: "2 ^ 128 * uint (drop_bit 63 (m_high p)) + val128 (doubled p) = 2 * val128 p"
proof -
  have d: "2 * x = (2 * x) mod 2 ^ 64 + 2 ^ 64 * (x div 2 ^ 63)" for x :: int
    using mult_div_mod_eq [of "2 ^ 64" "2 * x"] by simp
  have "uint (push_bit 1 (m_low p)) = (2 * uint (m_low p)) mod 2 ^ 64"
    using uint_shift_or [of 1 0 "m_low p"] by simp
  moreover have "uint (push_bit 1 (m_high p) OR drop_bit 63 (m_low p)) = (2 * uint (m_high p)) mod 2 ^ 64 + uint (m_low p) div 2 ^ 63"
    using uint_shift_or [of 1 "drop_bit 63 (m_low p)" "m_high p"] uint_drop63 [of "m_low p"] by simp
  ultimately show ?thesis
    using d [of "uint (m_low p)"] d [of "uint (m_high p)"]
    by (simp only: val128_def doubled_def uint128_t.simps uint_drop63(1)) (simp add: algebra_simps)
qed

definition square_term :: "vli \<Rightarrow> nat \<Rightarrow> nat \<Rightarrow> u64 \<times> uint128_t" where
  "square_term l k i =
     (let p = mul_64_64 (l ! i) (l ! (k - i))
      in if i < k - i then (drop_bit 63 (m_high p), doubled p) else (0, p))"

definition square_product :: "vli \<Rightarrow> nat \<Rightarrow> int" where
  "square_product l k = sum_list (map (\<lambda>i. (if i < k - i then 2 else 1) * (uint (l ! i) * uint (l ! (k - i))))
     (takeWhile (\<lambda>i. i \<le> k - i) [column_min k..<Suc k]))"

definition square_missed :: "vli \<Rightarrow> nat \<Rightarrow> uint128_t \<Rightarrow> int" where
  "square_missed l k = missed_fold (map (\<lambda>i. snd (square_term l k i)) (takeWhile (\<lambda>i. i \<le> k - i) [column_min k..<Suc k]))"

interpretation square: column_method "square_column l" "square_product l" "square_missed l" for l
proof (unfold_locales, goal_cases)
  case (1 k a a' s)
  let ?is = "takeWhile (\<lambda>i. i \<le> k - i) [column_min k..<Suc k]"
  have "(case square_term l k i of (x, p) \<Rightarrow> (\<lambda>(r, s). acc_step p (r, s + x))) = square_step l k i" for i
    by (rule ext) (auto simp: square_step_def square_term_def doubled_def Let_def)
  then have "fold (\<lambda>(x, p) (r, s). acc_step p (r, s + x)) (map (square_term l k) ?is) (a, 0) = square_column l k a"
    by (simp add: square_column_def fold_map comp_def del: upt_Suc)
  moreover have "(case square_term l k i of (x, p) \<Rightarrow> 2 ^ 128 * uint x + val128 p)
      = (if i < k - i then 2 else 1) * (uint (l ! i) * uint (l ! (k - i)))" for i
    using doubled_val [of "mul_64_64 (l ! i) (l ! (k - i))"] by (simp add: square_term_def Let_def mul_64_64_val)
  moreover have "\<forall>(x, p)\<in>set (map (square_term l k) ?is). uint x \<le> 1"
    by (auto simp: square_term_def Let_def uint_drop63(2) split: if_splits)
  moreover have "length ?is \<le> 4"
    using length_takeWhile_le [of "\<lambda>i. i \<le> k - i" "[column_min k..<Suc k]"] column_length(2) [of k]
    by (simp del: upt_Suc)
  ultimately show ?case
    using acc_fold_val [of "map (square_term l k) ?is" a 0 a' s] 1
    by (simp add: square_product_def square_missed_def comp_def del: upt_Suc)
qed (simp add: square_missed_def missed_fold_nonneg)

section \<open>Results\<close>

lemma digits4: "length v = 4 \<Longrightarrow> \<exists>a b c d. v = [a, b, c, d]"
  by (auto simp: length_Suc_conv numeral_eq_Suc)

lemma column_lists:
  "[0..<NUM_ECC_DIGITS * 2 - 1] = [0, 1, 2, 3, 4, 5, 6]"
  "map (\<lambda>k. [column_min k..<min (Suc k) NUM_ECC_DIGITS]) [0, 1, 2, 3, 4, 5, 6]
    = [[0], [0, 1], [0, 1, 2], [0, 1, 2, 3], [1, 2, 3], [2, 3], [3]]"
  "map (\<lambda>k. takeWhile (\<lambda>i. i \<le> k - i) [column_min k..<Suc k]) [0, 1, 2, 3, 4, 5, 6]
    = [[0], [0], [0, 1], [0, 1], [1, 2], [2], [3]]"
  by code_simp+

lemma mult_columns:
  assumes "length l = 4" "length r = 4"
  shows "column_sum (mult_product l r) [0..<NUM_ECC_DIGITS * 2 - 1] = val l * val r"
proof -
  obtain l0 l1 l2 l3 r0 r1 r2 r3 where lr: "l = [l0, l1, l2, l3]" "r = [r0, r1, r2, r3]"
    using assms digits4 by metis
  show ?thesis
    unfolding column_lists(1) lr using column_lists(2)
    by (simp add: mult_product_def algebra_simps)
qed

lemma square_columns:
  assumes "length l = 4"
  shows "column_sum (square_product l) [0..<NUM_ECC_DIGITS * 2 - 1] = val l * val l"
proof -
  obtain l0 l1 l2 l3 where l: "l = [l0, l1, l2, l3]"
    using assms digits4 by metis
  show ?thesis
    unfolding column_lists(1) l using column_lists(3)
    by (simp add: square_product_def algebra_simps del: upt_Suc)
qed

lemma product_less: "length l = 4 \<Longrightarrow> length r = 4 \<Longrightarrow> val l * val r < 2 ^ (64 * Suc (length [0..<NUM_ECC_DIGITS * 2 - 1]))"
proof -
  assume "length l = 4" "length r = 4"
  then have "val l * val r < radix * radix"
    by (intro mult_strict_mono) (simp_all only: val_radix val_nonneg, simp)
  then show ?thesis
    by (simp add: NUM_ECC_DIGITS_def)
qed

text \<open>The value of all missed carries.\<close>

definition mult_lost :: "vli \<Rightarrow> vli \<Rightarrow> int" where
  "mult_lost l r = missed_sum (mult_column l r) (mult_missed l r) [0..<NUM_ECC_DIGITS * 2 - 1] \<lparr>m_low = 0, m_high = 0\<rparr>"

definition square_lost :: "vli \<Rightarrow> int" where
  "square_lost l = missed_sum (square_column l) (square_missed l) [0..<NUM_ECC_DIGITS * 2 - 1] \<lparr>m_low = 0, m_high = 0\<rparr>"

lemma length_column_loop: "length (column_loop column ks r) = Suc (length ks)"
  by (induction ks arbitrary: r) (simp_all split: prod.splits)

lemma vli_mult_val:
  assumes "length l = 4" "length r = 4"
  shows "length (vli_mult l r) = 8" "val (vli_mult l r) = val l * val r - mult_lost l r" "0 \<le> mult_lost l r"
  using mult.loop_exact [of l r "[0..<NUM_ECC_DIGITS * 2 - 1]"] mult.missed_sum_nonneg
    product_less [OF assms] mult_columns [OF assms]
  by (simp_all add: vli_mult_def mult_lost_def length_column_loop NUM_ECC_DIGITS_def)

lemma vli_square_val:
  assumes "length l = 4"
  shows "length (vli_square l) = 8" "val (vli_square l) = val l * val l - square_lost l" "0 \<le> square_lost l"
  using square.loop_exact [of l "[0..<NUM_ECC_DIGITS * 2 - 1]"] square.missed_sum_nonneg
    product_less [OF assms assms] square_columns [OF assms]
  by (simp_all add: vli_square_def square_lost_def length_column_loop NUM_ECC_DIGITS_def)

text \<open>Products of concrete digits.\<close>

lemma mul_64_64_eq: "uint lo + 2 ^ 64 * uint hi = uint a * uint b \<Longrightarrow> mul_64_64 a b = \<lparr>m_low = lo, m_high = hi\<rparr>"
proof -
  assume *: "uint lo + 2 ^ 64 * uint hi = uint a * uint b"
  obtain l h where m: "mul_64_64 a b = \<lparr>m_low = l, m_high = h\<rparr>"
    by (cases "mul_64_64 a b") auto
  have "val [l, h] = val [lo, hi]"
    using * mul_64_64_val [of a b] by (simp add: m val128_def)
  then show ?thesis
    using val_inj [of "[l, h]" "[lo, hi]"] m by simp
qed

lemma mul_64_64_simps:
  "mul_64_64 0 b = \<lparr>m_low = 0, m_high = 0\<rparr>" "mul_64_64 a 0 = \<lparr>m_low = 0, m_high = 0\<rparr>"
  "mul_64_64 1 b = \<lparr>m_low = b, m_high = 0\<rparr>" "mul_64_64 a 1 = \<lparr>m_low = a, m_high = 0\<rparr>"
  "mul_64_64 0xFFFFFFFFFFFFFFFF 0xFFFFFFFFFFFFFFFF = \<lparr>m_low = 1, m_high = 0xFFFFFFFFFFFFFFFE\<rparr>"
  by (rule mul_64_64_eq; simp)+

section \<open>Properties\<close>

text \<open>\<^verbatim>\<open>vli_mult\<close> and \<^verbatim>\<open>vli_square\<close> compute the eight digits of the product, less exactly the carries that
  the comparison of the upper halves misses; no other step overflows.  In particular the result is the
  product if and only if no carry is missed.\<close>

theorem vli_products:
  assumes "length l = 4" "length r = 4"
  shows "length (vli_mult l r) = 8 \<and> val (vli_mult l r) = val l * val r - mult_lost l r \<and> 0 \<le> mult_lost l r
    \<and> length (vli_square l) = 8 \<and> val (vli_square l) = val l * val l - square_lost l \<and> 0 \<le> square_lost l"
  using vli_mult_val [OF assms] vli_square_val [OF assms(1)] by blast

theorem vli_products_witness:
  "val (vli_mult [0xFFFFFFFFFFFFFFFF, 1, 0, 0] [0xFFFFFFFFFFFFFFFF, 0, 0, 0]) = (2 ^ 65 - 1) * (2 ^ 64 - 1)"
proof -
  have "mult_lost [0xFFFFFFFFFFFFFFFF, 1, 0, 0] [0xFFFFFFFFFFFFFFFF, 0, 0, 0] = 0"
    using column_lists(2) unfolding mult_lost_def column_lists(1)
    by (simp add: mult_missed_def lost_def mult_column_def mul_64_64_simps acc_step_def add_128_128_def Let_def)
  then show ?thesis
    using vli_products [of "[0xFFFFFFFFFFFFFFFF, 1, 0, 0]" "[0xFFFFFFFFFFFFFFFF, 0, 0, 0]"] by simp
qed

text \<open>The missed carry is real: for these two numbers below \<open>2^192\<close> the product that \<^verbatim>\<open>vli_mult\<close> computes is
  too small by \<open>2^256\<close>.\<close>

theorem vli_mult_misses_carry:
  "val (vli_mult [1, 0xFFFFFFFFFFFFFFFF, 1, 0] [0xFFFFFFFFFFFFFFFF, 0xFFFFFFFFFFFFFFFF, 1, 0])
     = val [1, 0xFFFFFFFFFFFFFFFF, 1, 0] * val [0xFFFFFFFFFFFFFFFF, 0xFFFFFFFFFFFFFFFF, 1, 0] - 2 ^ 256"
  using column_lists(2) unfolding vli_mult_def column_lists(1)
  by (simp add: mult_column_def mul_64_64_simps acc_step_def add_128_128_def Let_def)

end
