(* ===== verification/Vli_Mod.thy ===== *)
theory Vli_Mod
  imports Vli_Mult
begin

text \<open>
  Modular arithmetic of \<^verbatim>\<open>bluez5/src/shared/ecc.c\<close> on 256-bit numbers: addition and subtraction, the fast
  reduction modulo the prime of the curve P-256, and the binary inversion.  A loop that the code does not
  bound is a \<open>partial_function\<close>, so that \<open>None\<close> means that it does not end.
\<close>

section \<open>Definitions\<close>

definition curve_p :: vli where
  "curve_p = [0xFFFFFFFFFFFFFFFF, 0x00000000FFFFFFFF, 0x0000000000000000, 0xFFFFFFFF00000001]"

definition vli_mod_add :: "vli \<Rightarrow> vli \<Rightarrow> vli \<Rightarrow> vli" where
  "vli_mod_add left right md =
     (let (result, carry) = vli_add left right
      in if carry \<noteq> 0 \<or> 0 \<le> vli_cmp result md then fst (vli_sub result md) else result)"

definition vli_mod_sub :: "vli \<Rightarrow> vli \<Rightarrow> vli \<Rightarrow> vli" where
  "vli_mod_sub left right md =
     (let (result, borrow) = vli_sub left right
      in if borrow \<noteq> 0 then fst (vli_add result md) else result)"

text \<open>The additions to and subtractions from \<^verbatim>\<open>result\<close> with the signed \<^verbatim>\<open>carry\<close>, a small number.\<close>

definition add_to :: "vli \<Rightarrow> int \<times> vli \<Rightarrow> int \<times> vli" where
  "add_to tmp st = (case vli_add (snd st) tmp of (result, c) \<Rightarrow> (fst st + uint c, result))"

definition sub_from :: "vli \<Rightarrow> int \<times> vli \<Rightarrow> int \<times> vli" where
  "sub_from tmp st = (case vli_sub (snd st) tmp of (result, c) \<Rightarrow> (fst st - uint c, result))"

partial_function (option) reduce_up :: "int \<times> vli \<Rightarrow> vli option" where
  "reduce_up st =
     (if fst (add_to curve_p st) < 0 then reduce_up (add_to curve_p st) else Some (snd (add_to curve_p st)))"

partial_function (option) reduce_down :: "int \<times> vli \<Rightarrow> vli option" where
  "reduce_down st =
     (if fst st \<noteq> 0 \<or> vli_cmp curve_p (snd st) \<noteq> 1 then reduce_down (sub_from curve_p st) else Some (snd st))"

definition vli_mmod_fast :: "vli \<Rightarrow> vli option" where
  "vli_mmod_fast product =
     (let result = vli_set (take NUM_ECC_DIGITS product);
          s1 = [0, product ! 5 AND 0xffffffff00000000, product ! 6, product ! 7];
          (tmp, c) = vli_lshift s1 1;
          st = add_to tmp (uint c, result);
          s2 = tmp[1 := push_bit 32 (product ! 6),
                   2 := drop_bit 32 (product ! 6) OR push_bit 32 (product ! 7),
                   3 := drop_bit 32 (product ! 7)];
          (tmp, c) = vli_lshift s2 1;
          st = add_to tmp (fst st + uint c, snd st);
          st = add_to [product ! 4, product ! 5 AND 0xffffffff, 0, product ! 7] st;
          st = add_to [drop_bit 32 (product ! 4) OR push_bit 32 (product ! 5),
                       drop_bit 32 (product ! 5) OR (product ! 6 AND 0xffffffff00000000),
                       product ! 7,
                       drop_bit 32 (product ! 6) OR push_bit 32 (product ! 4)] st;
          st = sub_from [drop_bit 32 (product ! 5) OR push_bit 32 (product ! 6),
                         drop_bit 32 (product ! 6),
                         0,
                         (product ! 4 AND 0xffffffff) OR push_bit 32 (product ! 5)] st;
          st = sub_from [product ! 6,
                         product ! 7,
                         0,
                         drop_bit 32 (product ! 4) OR (product ! 5 AND 0xffffffff00000000)] st;
          st = sub_from [drop_bit 32 (product ! 6) OR push_bit 32 (product ! 7),
                         drop_bit 32 (product ! 7) OR push_bit 32 (product ! 4),
                         drop_bit 32 (product ! 4) OR push_bit 32 (product ! 5),
                         push_bit 32 (product ! 6)] st;
          st = sub_from [product ! 7,
                         product ! 4 AND 0xffffffff00000000,
                         product ! 5,
                         product ! 6 AND 0xffffffff00000000] st
      in if fst st < 0 then reduce_up st else reduce_down st)"

definition vli_mod_mult_fast :: "vli \<Rightarrow> vli \<Rightarrow> vli option" where
  "vli_mod_mult_fast left right = vli_mmod_fast (vli_mult left right)"

definition vli_mod_square_fast :: "vli \<Rightarrow> vli option" where
  "vli_mod_square_fast left = vli_mmod_fast (vli_square left)"

definition EVEN :: "vli \<Rightarrow> bool" where
  "EVEN v \<longleftrightarrow> v ! 0 AND 1 = 0"

text \<open>The common end of the four branches: make \<open>u\<close> even by adding \<^verbatim>\<open>mod\<close> and halve it, with the carry as
  the new top bit.\<close>

definition halve_mod :: "vli \<Rightarrow> vli \<Rightarrow> vli" where
  "halve_mod u md =
     (let (u, carry) = (if \<not> EVEN u then vli_add u md else (u, 0));
          u = vli_rshift1 u
      in if carry \<noteq> 0
         then u[NUM_ECC_DIGITS - 1 := u ! (NUM_ECC_DIGITS - 1) OR 0x8000000000000000]
         else u)"

definition inv_step :: "vli \<Rightarrow> vli \<times> vli \<times> vli \<times> vli \<Rightarrow> vli \<times> vli \<times> vli \<times> vli" where
  "inv_step md st =
     (case st of (a, b, u, v) \<Rightarrow>
        if EVEN a then (vli_rshift1 a, b, halve_mod u md, v)
        else if EVEN b then (a, vli_rshift1 b, u, halve_mod v md)
        else if 0 < vli_cmp a b
        then (let a = vli_rshift1 (fst (vli_sub a b));
                  u = (if vli_cmp u v < 0 then fst (vli_add u md) else u);
                  u = fst (vli_sub u v)
              in (a, b, halve_mod u md, v))
        else (let b = vli_rshift1 (fst (vli_sub b a));
                  v = (if vli_cmp v u < 0 then fst (vli_add v md) else v);
                  v = fst (vli_sub v u)
              in (a, b, u, halve_mod v md)))"

partial_function (option) inv_loop :: "vli \<Rightarrow> vli \<times> vli \<times> vli \<times> vli \<Rightarrow> vli option" where
  "inv_loop md st =
     (if vli_cmp (fst st) (fst (snd st)) \<noteq> 0 then inv_loop md (inv_step md st)
      else Some (fst (snd (snd st))))"

definition vli_mod_inv :: "vli \<Rightarrow> vli \<Rightarrow> vli option" where
  "vli_mod_inv input md =
     (if vli_is_zero input then Some vli_clear
      else inv_loop md (vli_set input, vli_set md, vli_clear[0 := 1], vli_clear))"

section \<open>Addition and subtraction\<close>

lemma vli_mod_add_val:
  assumes "length l = 4" "length r = 4" "length m = 4" "val l < val m" "val r < val m"
  shows "length (vli_mod_add l r m) = 4" "val (vli_mod_add l r m) = (val l + val r) mod val m"
proof -
  obtain s c where sc: "vli_add l r = (s, c)"
    by (cases "vli_add l r")
  note a = vli_add_val [OF assms(1,2) sc] vli_add_carry [OF assms(1,2) sc]
  obtain t d where td: "vli_sub s m = (t, d)"
    by (cases "vli_sub s m")
  note b = vli_sub_val [OF a(1) assms(3) td] vli_sub_borrow [OF a(1) assms(3) td]
  have cmp: "0 \<le> vli_cmp s m \<longleftrightarrow> val m \<le> val s"
    using vli_cmp_val [of s m] a(1) assms(3) by (simp add: sgn_if)
  note bounds = val_nonneg [of l] val_nonneg [of r] val_radix [OF a(1)] val_radix [OF assms(3)] val_radix [OF b(1)]
    val_nonneg [of s] val_nonneg [of t]
  show "length (vli_mod_add l r m) = 4"
    using a(1) b(1) by (simp add: vli_mod_add_def sc td)
  show "val (vli_mod_add l r m) = (val l + val r) mod val m"
  proof (cases "c \<noteq> 0 \<or> 0 \<le> vli_cmp s m")
    case True
    have ge: "val m \<le> val l + val r"
    proof (cases "c = 0")
      case True
      then show ?thesis
        using \<open>c \<noteq> 0 \<or> 0 \<le> vli_cmp s m\<close> cmp a(2) by simp
    next
      case False
      then show ?thesis
        using a(4) bounds(4) by (cases "radix \<le> val l + val r") simp_all
    qed
    have "val t = (val l + val r - val m) mod radix"
      using b(5) a(5) by (simp add: mod_simps)
    also have "\<dots> = val l + val r - val m"
      using ge assms(4,5) bounds(4) by (intro mod_pos_pos_trivial) linarith+
    finally show ?thesis
      using True ge assms(4,5) mod_wrap(1) [of "val m" "val l + val r"] by (simp add: vli_mod_add_def sc td)
  next
    case False
    then show ?thesis
      using a(2) cmp bounds(1,2) by (simp add: vli_mod_add_def sc)
  qed
qed

lemma vli_mod_sub_val:
  assumes "length l = 4" "length r = 4" "length m = 4" "val l < val m" "val r < val m"
  shows "length (vli_mod_sub l r m) = 4" "val (vli_mod_sub l r m) = (val l - val r) mod val m"
proof -
  obtain s c where sc: "vli_sub l r = (s, c)"
    by (cases "vli_sub l r")
  note a = vli_sub_val [OF assms(1,2) sc] vli_sub_borrow [OF assms(1,2) sc]
  obtain t d where td: "vli_add s m = (t, d)"
    by (cases "vli_add s m")
  note b = vli_add_val [OF a(1) assms(3) td] vli_add_carry [OF a(1) assms(3) td]
  note bounds = val_nonneg [of l] val_nonneg [of r] val_radix [OF assms(3)]
  show "length (vli_mod_sub l r m) = 4"
    using a(1) b(1) by (simp add: vli_mod_sub_def sc td)
  show "val (vli_mod_sub l r m) = (val l - val r) mod val m"
  proof (cases "val l < val r")
    case True
    have "val t = (val l - val r + val m) mod radix"
      using b(5) a(5) by (simp add: mod_simps)
    also have "\<dots> = val l - val r + val m"
      using True assms(4,5) bounds by (intro mod_pos_pos_trivial) linarith+
    finally show ?thesis
      using True a(4) assms(4,5) bounds mod_wrap(2) [of "val m" "val l - val r"] by (simp add: vli_mod_sub_def sc td)
  next
    case False
    then show ?thesis
      using a(2,4) assms(4) bounds by (simp add: vli_mod_sub_def sc)
  qed
qed

section \<open>Fast reduction\<close>

definition P256 :: int where "P256 = 2 ^ 256 - 2 ^ 224 + 2 ^ 192 + 2 ^ 96 - 1"

lemma curve_p_val: "length curve_p = 4" "val curve_p = P256"
  by (simp_all add: curve_p_def P256_def)

lemma P256_bounds: "P256 < radix" "0 < P256"
  by (simp_all add: P256_def)

text \<open>The integer that \<^verbatim>\<open>carry\<close> and \<^verbatim>\<open>result\<close> stand for together.\<close>

definition signed_val :: "int \<times> vli \<Rightarrow> int" where
  "signed_val st = val (snd st) + radix * fst st"

lemma add_to_val:
  assumes "length (snd st) = 4" "length tmp = 4"
  shows "length (snd (add_to tmp st)) = 4" "signed_val (add_to tmp st) = signed_val st + val tmp"
proof -
  obtain r c where rc: "vli_add (snd st) tmp = (r, c)"
    by (cases "vli_add (snd st) tmp")
  show "length (snd (add_to tmp st)) = 4" "signed_val (add_to tmp st) = signed_val st + val tmp"
    using vli_add_val [OF assms rc] by (simp_all add: add_to_def rc signed_val_def algebra_simps)
qed

lemma sub_from_val:
  assumes "length (snd st) = 4" "length tmp = 4"
  shows "length (snd (sub_from tmp st)) = 4" "signed_val (sub_from tmp st) = signed_val st - val tmp"
proof -
  obtain r c where rc: "vli_sub (snd st) tmp = (r, c)"
    by (cases "vli_sub (snd st) tmp")
  show "length (snd (sub_from tmp st)) = 4" "signed_val (sub_from tmp st) = signed_val st - val tmp"
    using vli_sub_val [OF assms rc] by (simp_all add: sub_from_def rc signed_val_def algebra_simps)
qed

lemma carry_sign:
  fixes c v m :: int
  assumes "0 \<le> v" "v < m"
  shows "0 \<le> c \<longleftrightarrow> 0 \<le> v + m * c" "c = 0 \<longleftrightarrow> 0 \<le> v + m * c \<and> v + m * c < m"
proof -
  have neg: "m * c \<le> - m" if "c < 0"
    using mult_left_mono [of c "- 1" m] that assms by simp
  have pos: "m \<le> m * c" if "0 < c"
    using mult_left_mono [of 1 c m] that assms by simp
  have cases: "c < 0 \<or> c = 0 \<or> 0 < c"
    by linarith
  show "0 \<le> c \<longleftrightarrow> 0 \<le> v + m * c"
    using cases neg pos assms by force
  show "c = 0 \<longleftrightarrow> 0 \<le> v + m * c \<and> v + m * c < m"
  proof
    assume a: "0 \<le> v + m * c \<and> v + m * c < m"
    have "\<not> c < 0"
      using neg a assms by linarith
    moreover have "\<not> 0 < c"
      using pos a assms by linarith
    ultimately show "c = 0"
      by simp
  qed (use assms in simp)
qed

lemma signed_val_sign:
  assumes "length (snd st) = 4"
  shows "0 \<le> fst st \<longleftrightarrow> 0 \<le> signed_val st" "fst st = 0 \<longleftrightarrow> 0 \<le> signed_val st \<and> signed_val st < radix"
  unfolding signed_val_def by (rule carry_sign [OF val_nonneg val_radix [OF assms]])+

lemma reduce_down_val:
  assumes "length (snd st) = 4" "0 \<le> signed_val st"
  shows "\<exists>r. reduce_down st = Some r \<and> length r = 4 \<and> val r = signed_val st mod P256"
  using assms
proof (induction "nat (signed_val st)" arbitrary: st rule: less_induct)
  case less
  note P = P256_bounds
  have cmp: "vli_cmp curve_p (snd st) = 1 \<longleftrightarrow> val (snd st) < P256"
    using vli_cmp_val [of curve_p "snd st"] curve_p_val less.prems(1) by (simp add: sgn_if)
  show ?case
  proof (cases "signed_val st < P256")
    case True
    then have "fst st = 0"
      using signed_val_sign(2) [OF less.prems(1)] less.prems(2) P(1) by linarith
    then have "val (snd st) = signed_val st"
      by (simp add: signed_val_def)
    then show ?thesis
      using True \<open>fst st = 0\<close> cmp less.prems by (subst reduce_down.simps) simp
  next
    case False
    have "\<not> (fst st = 0 \<and> val (snd st) < P256)"
      using False by (auto simp: signed_val_def)
    then have c: "fst st \<noteq> 0 \<or> vli_cmp curve_p (snd st) \<noteq> 1"
      using cmp by blast
    note s = sub_from_val [OF less.prems(1) curve_p_val(1), unfolded curve_p_val(2)]
    have "\<exists>r. reduce_down (sub_from curve_p st) = Some r \<and> length r = 4
        \<and> val r = signed_val (sub_from curve_p st) mod P256"
      using False P(2) s by (intro less.hyps) simp_all
    moreover have "(signed_val st - P256) mod P256 = signed_val st mod P256"
      by (rule minus_mod_self2)
    ultimately show ?thesis
      using c s(2) by (subst reduce_down.simps) (simp only: if_True simp_thms)
  qed
qed

lemma reduce_up_val:
  assumes "length (snd st) = 4" "signed_val st < 0"
  shows "\<exists>r. reduce_up st = Some r \<and> length r = 4 \<and> val r = signed_val st mod P256"
  using assms
proof (induction "nat (- signed_val st)" arbitrary: st rule: less_induct)
  case less
  note P = P256_bounds
  note s = add_to_val [OF less.prems(1) curve_p_val(1), unfolded curve_p_val(2)]
  have m: "(signed_val st + P256) mod P256 = signed_val st mod P256"
    by (rule mod_add_self2)
  show ?case
  proof (cases "signed_val (add_to curve_p st) < 0")
    case True
    then have c: "fst (add_to curve_p st) < 0"
      using signed_val_sign(1) [OF s(1)] by linarith
    have "\<exists>r. reduce_up (add_to curve_p st) = Some r \<and> length r = 4
        \<and> val r = signed_val (add_to curve_p st) mod P256"
      using True P(2) s less.prems(2) by (intro less.hyps) simp_all
    then show ?thesis
      using c s(2) m by (subst reduce_up.simps) (simp only: if_True simp_thms)
  next
    case False
    then have "fst (add_to curve_p st) = 0"
      using signed_val_sign(2) [OF s(1)] s(2) less.prems(2) P(1) by linarith
    moreover from this have "val (snd (add_to curve_p st)) = signed_val st + P256"
      using s(2) by (simp add: signed_val_def)
    moreover have "signed_val st + P256 = signed_val st mod P256"
      using False s(2) less.prems(2) m by (metis mod_pos_pos_trivial add_less_same_cancel2 not_less)
    ultimately show ?thesis
      using s(1) by (subst reduce_up.simps) simp
  qed
qed

text \<open>The digits of the terms in 32-bit halves.\<close>

abbreviation lo32 :: "u64 \<Rightarrow> int" where "lo32 d \<equiv> uint d mod 2 ^ 32"
abbreviation hi32 :: "u64 \<Rightarrow> int" where "hi32 d \<equiv> uint d div 2 ^ 32"

lemma hi32_bounds: "0 \<le> hi32 d" "hi32 d < 2 ^ 32"
  using uint_u64_less [of d] by (simp_all add: pos_imp_zdiv_nonneg_iff)

lemma uint_halves: "uint d = lo32 d + 2 ^ 32 * hi32 d"
  by simp

lemma uint_push32: "uint (push_bit 32 (d :: u64)) = 2 ^ 32 * lo32 d"
proof -
  have "uint (push_bit 32 d OR 0) = (2 ^ 32 * uint d) mod (2 ^ 32 * 2 ^ 32) + uint (0 :: u64)"
    using uint_shift_or [of 32 0 d] by simp
  then show ?thesis
    by (simp only: mult_mod_right or.right_neutral) simp
qed

lemma and_high32: "d AND 0xffffffff00000000 = push_bit 32 (drop_bit 32 (d :: u64))"
proof -
  have m: "(0xffffffff00000000 :: u64) = push_bit 32 (mask 32)"
    by (simp add: mask_eq_exp_minus_1 push_bit_eq_mult)
  show ?thesis
    unfolding m by (auto intro!: bit_word_eqI simp: bit_and_iff bit_push_bit_iff bit_mask_iff bit_drop_bit_eq)
qed

lemma uint_high32: "uint (d AND 0xffffffff00000000 :: u64) = 2 ^ 32 * hi32 d"
  unfolding and_high32 uint_push32 uint_drop using hi32_bounds [of d] by simp

lemma uint_or_halves:
  "uint (drop_bit 32 a OR push_bit 32 b :: u64) = hi32 a + 2 ^ 32 * lo32 b"
  "uint (drop_bit 32 a OR (b AND 0xffffffff00000000) :: u64) = hi32 a + 2 ^ 32 * hi32 b"
  "uint ((a AND 0xffffffff) OR push_bit 32 b :: u64) = lo32 a + 2 ^ 32 * lo32 b"
proof -
  have *: "uint (x OR push_bit 32 y) = uint x + 2 ^ 32 * lo32 y" if "uint x < 2 ^ 32" for x y :: u64
    using uint_shift_or [of 32 x y] that uint_push32 [of y] uint_shift_or [of 32 0 y] by (simp add: or.commute)
  show "uint (drop_bit 32 a OR push_bit 32 b :: u64) = hi32 a + 2 ^ 32 * lo32 b"
    using * [of "drop_bit 32 a" b] hi32_bounds [of a] by (simp add: uint_drop)
  show "uint (drop_bit 32 a OR (b AND 0xffffffff00000000) :: u64) = hi32 a + 2 ^ 32 * hi32 b"
    using * [of "drop_bit 32 a" "drop_bit 32 b"] hi32_bounds [of a] hi32_bounds [of b]
    unfolding and_high32 by (simp add: uint_drop)
  show "uint ((a AND 0xffffffff) OR push_bit 32 b :: u64) = lo32 a + 2 ^ 32 * lo32 b"
    using * [of "a AND 0xffffffff" b] uint_low32 [of a] by simp
qed

text \<open>The terms \<open>s1\<close> to \<open>d4\<close> of the reduction, and the congruence of Solinas: \<open>t + 2 s1 + 2 s2 + s3 + s4 - d1 - d2 -
  d3 - d4\<close> differs from the product by a multiple of the prime.\<close>

lemma solinas:
  fixes l4 h4 l5 h5 l6 h6 l7 h7 T :: int
  shows "T + 2 ^ 256 * (l4 + 2 ^ 32 * h4) + 2 ^ 320 * (l5 + 2 ^ 32 * h5) + 2 ^ 384 * (l6 + 2 ^ 32 * h6) + 2 ^ 448 * (l7 + 2 ^ 32 * h7)
    = T + 2 * (2 ^ 64 * (2 ^ 32 * h5) + 2 ^ 128 * (l6 + 2 ^ 32 * h6) + 2 ^ 192 * (l7 + 2 ^ 32 * h7))
        + 2 * (2 ^ 64 * (2 ^ 32 * l6) + 2 ^ 128 * (h6 + 2 ^ 32 * l7) + 2 ^ 192 * h7)
        + ((l4 + 2 ^ 32 * h4) + 2 ^ 64 * l5 + 2 ^ 192 * (l7 + 2 ^ 32 * h7))
        + ((h4 + 2 ^ 32 * l5) + 2 ^ 64 * (h5 + 2 ^ 32 * h6) + 2 ^ 128 * (l7 + 2 ^ 32 * h7) + 2 ^ 192 * (h6 + 2 ^ 32 * l4))
        - ((h5 + 2 ^ 32 * l6) + 2 ^ 64 * h6 + 2 ^ 192 * (l4 + 2 ^ 32 * l5))
        - ((l6 + 2 ^ 32 * h6) + 2 ^ 64 * (l7 + 2 ^ 32 * h7) + 2 ^ 192 * (h4 + 2 ^ 32 * h5))
        - ((h6 + 2 ^ 32 * l7) + 2 ^ 64 * (h7 + 2 ^ 32 * l4) + 2 ^ 128 * (h4 + 2 ^ 32 * l5) + 2 ^ 192 * (2 ^ 32 * l6))
        - ((l7 + 2 ^ 32 * h7) + 2 ^ 64 * (2 ^ 32 * h4) + 2 ^ 128 * (l5 + 2 ^ 32 * h5) + 2 ^ 192 * (2 ^ 32 * h6))
      + P256 * (l4 + 4294967297 * h4 + 18446744078004518912 * l5 + 79228162532711081667253501951 * h5
          + 340282367000166625977638945021017194495 * l6 + 1461501637671185285124623296161210883009696235519 * h6
          + 6277101736848182401166692341332123086285927382448418586623 * l7
          + 26959946673427741530053695850515137729844644212646842236464328081408 * h7)"
  by (simp add: P256_def algebra_simps)

lemma digits8: "length v = 8 \<Longrightarrow> \<exists>a b c d e f g h. v = [a, b, c, d, e, f, g, h]"
  by (auto simp: length_Suc_conv numeral_eq_Suc)

lemma lshift1_val:
  assumes "length v = 4" "vli_lshift v 1 = (r, c)"
  shows "length r = 4" "val r + radix * uint c = 2 * val v"
  using vli_lshift_val [OF assms(1) _ _ assms(2)] by simp_all

lemma lshift1_low: "vli_lshift (0 # v) 1 = (r, c) \<Longrightarrow> r ! 0 = 0"
  by (auto simp: vli_lshift_def split: prod.splits)

lemma carry_pair: "signed_val (fst st + uint c, snd st) = signed_val st + radix * uint c"
  by (simp add: signed_val_def algebra_simps)

lemma val4: "val [a, b, c, d] = uint a + 2 ^ 64 * uint b + 2 ^ 128 * uint c + 2 ^ 192 * uint d"
  by simp

lemma val8: "val [a, b, c, d, e, f, g, h]
    = val [a, b, c, d] + 2 ^ 256 * uint e + 2 ^ 320 * uint f + 2 ^ 384 * uint g + 2 ^ 448 * uint h"
  by simp

lemmas digit_halves = uint_or_halves uint_high32 uint_push32 uint_low32 uint_drop

lemma vli_mmod_fast_val:
  assumes "length v = 8"
  shows "\<exists>r. vli_mmod_fast v = Some r \<and> length r = 4 \<and> val r = val v mod P256"
proof -
  obtain p0 p1 p2 p3 p4 p5 p6 p7 where v: "v = [p0, p1, p2, p3, p4, p5, p6, p7]"
    using digits8 [OF assms] by metis
  define s1 where "s1 = [0, p5 AND 0xffffffff00000000, p6, p7]"
  obtain t1 c1 where t1: "vli_lshift s1 1 = (t1, c1)"
    by (cases "vli_lshift s1 1")
  define s2 where "s2 = t1[1 := push_bit 32 p6, 2 := drop_bit 32 p6 OR push_bit 32 p7, 3 := drop_bit 32 p7]"
  obtain t2 c2 where t2: "vli_lshift s2 1 = (t2, c2)"
    by (cases "vli_lshift s2 1")
  define s3 where "s3 = [p4, p5 AND 0xffffffff, 0, p7]"
  define s4 where "s4 = [drop_bit 32 p4 OR push_bit 32 p5, drop_bit 32 p5 OR (p6 AND 0xffffffff00000000), p7,
    drop_bit 32 p6 OR push_bit 32 p4]"
  define d1 where "d1 = [drop_bit 32 p5 OR push_bit 32 p6, drop_bit 32 p6, 0, (p4 AND 0xffffffff) OR push_bit 32 p5]"
  define d2 where "d2 = [p6, p7, 0, drop_bit 32 p4 OR (p5 AND 0xffffffff00000000)]"
  define d3 where "d3 = [drop_bit 32 p6 OR push_bit 32 p7, drop_bit 32 p7 OR push_bit 32 p4,
    drop_bit 32 p4 OR push_bit 32 p5, push_bit 32 p6]"
  define d4 where "d4 = [p7, p4 AND 0xffffffff00000000, p5, p6 AND 0xffffffff00000000]"
  define st0 where "st0 = add_to t1 (uint c1, [p0, p1, p2, p3])"
  define st where "st = sub_from d4 (sub_from d3 (sub_from d2 (sub_from d1
    (add_to s4 (add_to s3 (add_to t2 (fst st0 + uint c2, snd st0)))))))"
  have def: "vli_mmod_fast v = (if fst st < 0 then reduce_up st else reduce_down st)"
    unfolding vli_mmod_fast_def v st_def st0_def d1_def d2_def d3_def d4_def s3_def s4_def
    using t1 t2 by (simp add: NUM_ECC_DIGITS_def vli_set_def s1_def s2_def Let_def)
  have len: "length s1 = 4" "length s3 = 4" "length s4 = 4" "length d1 = 4" "length d2 = 4" "length d3 = 4" "length d4 = 4"
    by (simp_all add: s1_def s3_def s4_def d1_def d2_def d3_def d4_def)
  note l1 = lshift1_val [OF len(1) t1]
  obtain x y z where "t1 = [0, x, y, z]"
    using digits4 [OF l1(1)] lshift1_low [of _ t1 c1] t1 by (fastforce simp: s1_def)
  then have s2: "s2 = [0, push_bit 32 p6, drop_bit 32 p6 OR push_bit 32 p7, drop_bit 32 p7]"
    by (simp add: s2_def numeral_eq_Suc)
  then have "length s2 = 4"
    by simp
  note l2 = lshift1_val [OF this t2]
  have st0: "length (snd st0) = 4" "signed_val st0 = val [p0, p1, p2, p3] + 2 * val s1"
    using add_to_val [of "(uint c1, [p0, p1, p2, p3])" t1] l1 by (simp_all add: st0_def signed_val_def del: val.simps)
  have st: "length (snd st) = 4" "signed_val st = val [p0, p1, p2, p3] + 2 * val s1 + 2 * val s2 + val s3 + val s4
      - val d1 - val d2 - val d3 - val d4"
    unfolding st_def using st0 l2 len carry_pair [of st0 c2]
    by (simp_all add: add_to_val sub_from_val del: val.simps)
  have "val v = signed_val st + P256 * (lo32 p4 + 4294967297 * hi32 p4 + 18446744078004518912 * lo32 p5
      + 79228162532711081667253501951 * hi32 p5 + 340282367000166625977638945021017194495 * lo32 p6
      + 1461501637671185285124623296161210883009696235519 * hi32 p6
      + 6277101736848182401166692341332123086285927382448418586623 * lo32 p7
      + 26959946673427741530053695850515137729844644212646842236464328081408 * hi32 p7)"
    using solinas [of "val [p0, p1, p2, p3]" "lo32 p4" "hi32 p4" "lo32 p5" "hi32 p5" "lo32 p6" "hi32 p6" "lo32 p7" "hi32 p7"]
    unfolding uint_halves [symmetric]
    unfolding st(2) v val8 s1_def s2 s3_def s4_def d1_def d2_def d3_def d4_def val4 digit_halves unsigned_0
    by simp
  then have "signed_val st mod P256 = val v mod P256"
    by (simp only: mod_mult_self2)
  then show ?thesis
    unfolding def using signed_val_sign(1) [OF st(1)] reduce_up_val [OF st(1)] reduce_down_val [OF st(1)]
    by (cases "fst st < 0") auto
qed

section \<open>Inversion\<close>

text \<open>The step of the binary inversion on integers, which the code refines.\<close>

definition half_mod :: "int \<Rightarrow> int \<Rightarrow> int" where
  "half_mod M U = (if even U then U div 2 else (U + M) div 2)"

definition inv_abs :: "int \<Rightarrow> int \<times> int \<times> int \<times> int \<Rightarrow> int \<times> int \<times> int \<times> int" where
  "inv_abs M st =
     (case st of (A, B, U, V) \<Rightarrow>
        if even A then (A div 2, B, half_mod M U, V)
        else if even B then (A, B div 2, U, half_mod M V)
        else if B < A then ((A - B) div 2, B, half_mod M (if U < V then U + M - V else U - V), V)
        else (A, (B - A) div 2, U, half_mod M (if V < U then V + M - U else V - U)))"

lemma EVEN_val: "length v = 4 \<Longrightarrow> EVEN v \<longleftrightarrow> even (val v)"
proof -
  assume "length v = 4"
  then obtain d ds where v: "v = d # ds"
    by (cases v) simp_all
  have "d AND 1 = 0 \<longleftrightarrow> even (uint d)"
  proof -
    have "odd d \<longleftrightarrow> odd (uint d)"
      unfolding bit_0 [symmetric] by (simp add: bit_uint_iff)
    then show ?thesis
      by (simp add: and_one_eq mod_2_eq_odd)
  qed
  then show ?thesis
    by (simp add: EVEN_def v)
qed

lemma top_bit_val:
  assumes "length v = 4" "val v < 2 ^ 255"
  shows "val (v[3 := v ! 3 OR 0x8000000000000000]) = val v + 2 ^ 255"
proof -
  obtain a b c d where v: "v = [a, b, c, d]"
    using digits4 [OF assms(1)] by blast
  have "2 ^ 192 * uint d < 2 ^ 192 * 2 ^ 63"
    using assms(2) by (simp add: v) (use uint_nonnegative [of a] uint_nonnegative [of b] uint_nonnegative [of c] in linarith)
  then have d: "uint d < 2 ^ 63"
    by simp
  have "(0x8000000000000000 :: u64) = push_bit 63 1"
    by (simp add: push_bit_eq_mult)
  then have "uint (d OR 0x8000000000000000) = uint d + 2 ^ 63"
    using uint_shift_or [of 63 d 1] d by (simp add: or.commute)
  then show ?thesis
    by (simp add: v numeral_eq_Suc)
qed

lemma halve_mod_val:
  assumes "length u = 4" "length m = 4" "odd (val m)" "val u < val m"
  shows "length (halve_mod u m) = 4" "val (halve_mod u m) = half_mod (val m) (val u)"
proof -
  obtain s c where sc: "(if \<not> EVEN u then vli_add u m else (u, 0)) = (s, c)"
    by (metis surj_pair)
  let ?S = "if even (val u) then val u else val u + val m"
  have s: "length s = 4" "val s + radix * uint c = ?S" "uint c \<le> 1"
    using sc vli_add_val [OF assms(1,2)] assms(1) EVEN_val [OF assms(1)] by (auto split: if_splits)
  have S: "even ?S" "half_mod (val m) (val u) = ?S div 2"
    using assms(3) by (simp_all add: half_mod_def)
  let ?h = "vli_rshift1 s"
  have h: "length ?h = 4" "val ?h = val s div 2"
    using vli_rshift1_val [of s] s(1) by simp_all
  have less: "val ?h < 2 ^ 255"
    using h(2) val_radix [OF s(1)] by simp
  have eq: "halve_mod u m = (if c \<noteq> 0 then ?h[3 := ?h ! 3 OR 0x8000000000000000] else ?h)"
    unfolding halve_mod_def sc by (simp add: NUM_ECC_DIGITS_def Let_def)
  then show "length (halve_mod u m) = 4"
    using h(1) by simp
  have "uint c = 0 \<or> uint c = 1"
    using s(3) uint_nonnegative [of c] by linarith
  then show "val (halve_mod u m) = half_mod (val m) (val u)"
  proof
    assume c: "uint c = 0"
    then have "c = 0"
      by (simp add: word_uint_eq_iff)
    then show ?thesis
      using eq h(2) s(2) c S(2) by simp
  next
    assume c: "uint c = 1"
    then have "c \<noteq> 0"
      by auto
    moreover have "?S = val s + 2 ^ 255 * 2"
      using s(2) c by simp
    then have "?S div 2 = val s div 2 + 2 ^ 255"
      by (simp only: div_mult_self1)
    ultimately show ?thesis
      using eq h(2) S(2) top_bit_val [OF h(1) less] by simp
  qed
qed

definition inv_wf :: "vli \<Rightarrow> vli \<times> vli \<times> vli \<times> vli \<Rightarrow> bool" where
  "inv_wf m st \<longleftrightarrow> (case st of (a, b, u, v) \<Rightarrow> length a = 4 \<and> length b = 4 \<and> length u = 4 \<and> length v = 4
     \<and> val u < val m \<and> val v < val m)"

abbreviation vals :: "vli \<times> vli \<times> vli \<times> vli \<Rightarrow> int \<times> int \<times> int \<times> int" where
  "vals st \<equiv> map_prod val (map_prod val (map_prod val val)) st"

lemma half_mod_less: "odd M \<Longrightarrow> 0 \<le> U \<Longrightarrow> U < M \<Longrightarrow> half_mod M U < M"
  by (auto simp: half_mod_def)

text \<open>The difference modulo \<open>m\<close>, by an addition that may wrap and a subtraction that wraps back.\<close>

lemma diff_mod_val:
  assumes "length u = 4" "length v = 4" "length m = 4" "val u < val m" "val v < val m"
  defines "w \<equiv> fst (vli_sub (if vli_cmp u v < 0 then fst (vli_add u m) else u) v)"
  shows "length w = 4" "val w = (if val u < val v then val u + val m - val v else val u - val v)" "val w < val m"
proof -
  let ?x = "if vli_cmp u v < 0 then fst (vli_add u m) else u"
  have cmp: "vli_cmp u v < 0 \<longleftrightarrow> val u < val v"
    using vli_cmp_val [of u v] assms(1,2) by (simp add: sgn_if)
  have x: "length ?x = 4" "val ?x mod radix = (if val u < val v then val u + val m else val u) mod radix"
    using vli_add_val(1) [OF assms(1,3)] vli_add_carry(2) [OF assms(1,3)] assms(1) cmp
    by (cases "vli_add u m"; simp)+
  show "length w = 4"
    using vli_sub_val(1) [OF x(1) assms(2)] by (cases "vli_sub ?x v") (simp add: w_def)
  note b = val_nonneg [of u] val_nonneg [of v] val_radix [OF assms(3)]
  have "val w = (val ?x - val v) mod radix"
    using vli_sub_borrow(2) [OF x(1) assms(2)] by (cases "vli_sub ?x v") (simp add: w_def)
  also have "\<dots> = ((if val u < val v then val u + val m else val u) - val v) mod radix"
    using x(2) by (metis mod_diff_left_eq)
  also have "\<dots> = (if val u < val v then val u + val m - val v else val u - val v)"
    using b assms(4,5) by (auto intro!: mod_pos_pos_trivial)
  finally show "val w = (if val u < val v then val u + val m - val v else val u - val v)" .
  then show "val w < val m"
    using b assms(4,5) by simp
qed

lemma inv_step_refines:
  assumes "inv_wf m st" "length m = 4" "odd (val m)"
  shows "inv_wf m (inv_step m st) \<and> vals (inv_step m st) = inv_abs (val m) (vals st)"
proof -
  obtain a b u v where st: "st = (a, b, u, v)"
    by (metis surj_pair)
  have l: "length a = 4" "length b = 4" "length u = 4" "length v = 4" "val u < val m" "val v < val m"
    using assms(1) by (simp_all add: inv_wf_def st)
  have sub: "length (fst (vli_sub x y)) = 4" "val y \<le> val x \<Longrightarrow> val (fst (vli_sub x y)) = val x - val y"
    if "length x = 4" "length y = 4" for x y
    using vli_sub_val(1) [OF that] vli_sub_borrow(2) [OF that] val_radix [OF that(1)] val_nonneg [of y]
    by (cases "vli_sub x y"; simp)+
  have cmp: "0 < vli_cmp a b \<longleftrightarrow> val b < val a"
    using vli_cmp_val [of a b] l(1,2) by (simp add: sgn_if)
  note h = halve_mod_val [OF _ assms(2,3)]
  note uv = diff_mod_val [OF l(3,4) assms(2) l(5,6)] and vu = diff_mod_val [OF l(4,3) assms(2) l(6,5)]
  have n: "0 \<le> val x" for x
    by (rule val_nonneg)
  consider "even (val a)" | "odd (val a)" "even (val b)" | "odd (val a)" "odd (val b)" "val b < val a"
    | "odd (val a)" "odd (val b)" "\<not> val b < val a"
    by blast
  then show ?thesis
  proof cases
    case 1
    then show ?thesis
      using l h [OF l(3,5)] half_mod_less [OF assms(3) n l(5)]
      by (simp add: inv_step_def inv_abs_def st inv_wf_def EVEN_val vli_rshift1_val)
  next
    case 2
    then show ?thesis
      using l h [OF l(4,6)] half_mod_less [OF assms(3) n l(6)]
      by (simp add: inv_step_def inv_abs_def st inv_wf_def EVEN_val vli_rshift1_val)
  next
    case 3
    then show ?thesis
      using l h [OF uv(1,3)] half_mod_less [OF assms(3) n uv(3)] sub [OF l(1,2)] cmp uv(2)
      by (simp add: inv_step_def inv_abs_def st inv_wf_def EVEN_val vli_rshift1_val Let_def)
  next
    case 4
    then show ?thesis
      using l h [OF vu(1,3)] half_mod_less [OF assms(3) n vu(3)] sub [OF l(2,1)] cmp vu(2)
      by (simp add: inv_step_def inv_abs_def st inv_wf_def EVEN_val vli_rshift1_val Let_def)
  qed
qed

text \<open>The invariant of the loop: \<open>u\<close> and \<open>v\<close> are \<open>a / X\<close> and \<open>b / X\<close> modulo \<open>M\<close>, and the greatest common
  divisor of \<open>a\<close> and \<open>b\<close> does not change.\<close>

definition inv_ok :: "int \<Rightarrow> int \<Rightarrow> int \<times> int \<times> int \<times> int \<Rightarrow> bool" where
  "inv_ok M X st \<longleftrightarrow> (case st of (A, B, U, V) \<Rightarrow> 0 < A \<and> 0 < B \<and> (odd A \<or> odd B)
     \<and> M dvd U * X - A \<and> M dvd V * X - B \<and> gcd A B = gcd X M)"

lemma half_mod_dvd:
  fixes A M U X :: int
  assumes "odd M" "even A" "M dvd U * X - A"
  shows "M dvd half_mod M U * X - A div 2"
proof -
  have "2 * half_mod M U = (if even U then U else U + M)"
    using assms(1) by (simp add: half_mod_def)
  then have "2 * (half_mod M U * X - A div 2) = (U * X - A) + M * (if even U then 0 else X)"
    using assms(2) by (auto simp: algebra_simps)
  then have "M dvd 2 * (half_mod M U * X - A div 2)"
    using assms(3) by simp
  moreover have "coprime M 2"
    using assms(1) by simp
  ultimately show ?thesis
    by (simp only: coprime_dvd_mult_right_iff)
qed

lemma gcd_half:
  fixes A B :: int
  assumes "even A" "odd B"
  shows "gcd (A div 2) B = gcd A B"
proof -
  have "gcd (2 * (A div 2)) B = gcd (A div 2) B"
    using assms(2) by (intro gcd_mult_left_left_cancel) simp
  then show ?thesis
    using assms(1) by simp
qed

lemma inv_abs_ok:
  assumes "inv_ok M X (A, B, U, V)" "odd M" "A \<noteq> B"
  shows "inv_ok M X (inv_abs M (A, B, U, V))"
    and "inv_abs M (A, B, U, V) = (A', B', U', V') \<Longrightarrow> A' + B' < A + B"
proof -
  have i: "0 < A" "0 < B" "odd A \<or> odd B" "M dvd U * X - A" "M dvd V * X - B" "gcd A B = gcd X M"
    using assms(1) by (simp_all add: inv_ok_def)
  have dUV: "M dvd (if U < V then U + M - V else U - V) * X - (A - B)"
    using dvd_diff [OF i(4,5)] dvd_add [OF dvd_diff [OF i(4,5)] dvd_triv_left [of M X]]
    by (auto simp: algebra_simps)
  have dVU: "M dvd (if V < U then V + M - U else V - U) * X - (B - A)"
    using dvd_diff [OF i(5,4)] dvd_add [OF dvd_diff [OF i(5,4)] dvd_triv_left [of M X]]
    by (auto simp: algebra_simps)
  consider "even A" | "odd A" "even B" | "odd A" "odd B" "B < A" | "odd A" "odd B" "A < B"
    using assms(3) by linarith
  then show "inv_ok M X (inv_abs M (A, B, U, V))"
  proof cases
    case 1
    then show ?thesis
      using i half_mod_dvd [OF assms(2) 1 i(4)] gcd_half [OF 1] by (auto simp: inv_abs_def inv_ok_def)
  next
    case 2
    then show ?thesis
      using i half_mod_dvd [OF assms(2) 2(2) i(5)] gcd_half [OF 2(2,1)]
      by (auto simp: inv_abs_def inv_ok_def gcd.commute)
  next
    case 3
    then have e: "even (A - B)" "gcd (A - B) B = gcd A B" "2 \<le> A - B"
      by (simp_all add: gcd_diff1) presburger
    then show ?thesis
      using i 3 half_mod_dvd [OF assms(2) e(1) dUV] gcd_half [OF e(1) 3(2)] by (auto simp: inv_abs_def inv_ok_def)
  next
    case 4
    then have e: "even (B - A)" "gcd (B - A) A = gcd B A" "2 \<le> B - A"
      by (simp_all add: gcd_diff1) presburger
    then show ?thesis
      using i 4 half_mod_dvd [OF assms(2) e(1) dVU] gcd_half [OF e(1) 4(1)]
      by (auto simp: inv_abs_def inv_ok_def gcd.commute)
  qed
  show "inv_abs M (A, B, U, V) = (A', B', U', V') \<Longrightarrow> A' + B' < A + B"
    using i(1-3) assms(3) by (auto simp: inv_abs_def split: if_splits)
qed

lemma inv_loop_val:
  assumes "inv_wf m st" "inv_ok (val m) X (vals st)" "length m = 4" "odd (val m)"
  shows "\<exists>r. inv_loop m st = Some r \<and> length r = 4 \<and> val r < val m \<and> val m dvd val r * X - gcd X (val m)"
  using assms(1,2)
proof (induction "nat (fst (vals st) + fst (snd (vals st)))" arbitrary: st rule: less_induct)
  case less
  obtain a b u v where st: "st = (a, b, u, v)"
    by (metis surj_pair)
  have l: "length a = 4" "length b = 4" "length u = 4" "val u < val m"
    using less.prems(1) by (simp_all add: inv_wf_def st)
  have cmp: "vli_cmp a b \<noteq> 0 \<longleftrightarrow> val a \<noteq> val b"
    using vli_cmp_val [of a b] l(1,2) by (simp add: sgn_if)
  have ok: "inv_ok (val m) X (val a, val b, val u, val v)"
    using less.prems(2) by (simp add: st)
  show ?case
  proof (cases "val a = val b")
    case True
    then have "val a = gcd X (val m)"
      using ok by (auto simp: inv_ok_def)
    then show ?thesis
      using True cmp l ok by (subst inv_loop.simps) (simp add: st inv_ok_def)
  next
    case False
    obtain a' b' u' v' where st': "inv_step m st = (a', b', u', v')"
      by (metis surj_pair)
    note step = inv_step_refines [OF less.prems(1) assms(3,4)]
    have v': "inv_abs (val m) (val a, val b, val u, val v) = (val a', val b', val u', val v')"
      using step st' unfolding st by simp
    note abs = inv_abs_ok [OF ok assms(4) False]
    have "\<exists>r. inv_loop m (inv_step m st) = Some r \<and> length r = 4 \<and> val r < val m \<and> val m dvd val r * X - gcd X (val m)"
    proof (rule less.hyps)
      show "nat (fst (vals (inv_step m st)) + fst (snd (vals (inv_step m st)))) < nat (fst (vals st) + fst (snd (vals st)))"
        using abs(2) [OF v'] ok st' by (simp add: inv_ok_def) (simp add: st)
      show "inv_wf m (inv_step m st)"
        using step by blast
      show "inv_ok (val m) X (vals (inv_step m st))"
        using abs(1) v' st' by simp
    qed
    then show ?thesis
      using False cmp by (subst inv_loop.simps) (simp add: st)
  qed
qed

lemma vli_mod_inv_val:
  assumes "length x = 4" "length m = 4" "odd (val m)" "1 < val m" "0 < val x"
  shows "\<exists>r. vli_mod_inv x m = Some r \<and> length r = 4 \<and> val r < val m \<and> val m dvd val r * val x - gcd (val x) (val m)"
proof -
  let ?st = "(vli_set x, vli_set m, vli_clear[0 := 1], vli_clear)"
  have c: "length vli_clear = 4" "val vli_clear = 0" "val (vli_clear[0 := 1]) = 1"
    by (simp_all add: vli_clear_def NUM_ECC_DIGITS_def numeral_eq_Suc)
  have "inv_wf m ?st" "inv_ok (val m) (val x) (vals ?st)"
    using assms c by (simp_all add: inv_wf_def inv_ok_def vli_set_def)
  then show ?thesis
    using inv_loop_val [OF _ _ assms(2,3)] assms(5) by (simp add: vli_mod_inv_def vli_is_zero_val)
qed

section \<open>Properties\<close>

text \<open>C37.  Arithmetic modulo the prime of P-256.  The fast reduction ends for every 512-bit number and gives
  its remainder modulo \<open>2^256 - 2^224 + 2^192 + 2^96 - 1\<close>; modular addition and subtraction of reduced
  numbers give the reduced sum and difference, for any modulus.\<close>

theorem mod_arith:
  assumes "length v = 8" "length l = 4" "length r = 4" "length m = 4" "val l < val m" "val r < val m"
  shows "(\<exists>q. vli_mmod_fast v = Some q \<and> length q = 4 \<and> val q = val v mod (2 ^ 256 - 2 ^ 224 + 2 ^ 192 + 2 ^ 96 - 1))
    \<and> val (vli_mod_add l r m) = (val l + val r) mod val m \<and> val (vli_mod_sub l r m) = (val l - val r) mod val m"
  using vli_mmod_fast_val [OF assms(1)] vli_mod_add_val(2) [OF assms(2-6)] vli_mod_sub_val(2) [OF assms(2-6)]
  unfolding P256_def by blast

theorem mod_arith_witness:
  "(\<exists>q. vli_mmod_fast [0, 0, 0, 0, 1, 0, 0, 0] = Some q \<and> val q = 2 ^ 224 - 2 ^ 192 - 2 ^ 96 + 1)
    \<and> val (vli_mod_sub [1, 0, 0, 0] [2, 0, 0, 0] [7, 0, 0, 0]) = 6"
proof -
  have m: "val [0, 0, 0, 0, 1, 0, 0, 0] mod (2 ^ 256 - 2 ^ 224 + 2 ^ 192 + 2 ^ 96 - 1) = 2 ^ 224 - 2 ^ 192 - 2 ^ 96 + 1"
    by simp
  show ?thesis
    using mod_arith [of "[0, 0, 0, 0, 1, 0, 0, 0]" "[1, 0, 0, 0]" "[2, 0, 0, 0]" "[7, 0, 0, 0]"] unfolding m by auto
qed

text \<open>C38.  The binary inversion ends for every number that is not zero and every odd modulus above 1, with a
  reduced result; when the two are coprime, the result is the inverse.  Zero is mapped to zero.\<close>

theorem mod_inverse:
  assumes "length x = 4" "length m = 4" "odd (val m)" "1 < val m"
  shows "\<exists>r. vli_mod_inv x m = Some r \<and> length r = 4 \<and> val r < val m
    \<and> (val x = 0 \<longrightarrow> val r = 0) \<and> (val x \<noteq> 0 \<and> coprime (val x) (val m) \<longrightarrow> (val r * val x) mod val m = 1)"
proof (cases "val x = 0")
  case True
  then show ?thesis
    using assms(4) by (simp add: vli_mod_inv_def vli_is_zero_val vli_clear_def NUM_ECC_DIGITS_def numeral_eq_Suc)
next
  case False
  then have "0 < val x"
    using val_nonneg [of x] by linarith
  then obtain r where r: "vli_mod_inv x m = Some r" "length r = 4" "val r < val m"
      "val m dvd val r * val x - gcd (val x) (val m)"
    using vli_mod_inv_val [OF assms] by blast
  have "(val r * val x) mod val m = 1" if "coprime (val x) (val m)"
  proof -
    have "(val r * val x) mod val m = 1 mod val m"
      using r(4) that by (simp add: mod_eq_dvd_iff)
    then show ?thesis
      using assms(4) by simp
  qed
  then show ?thesis
    using r False by blast
qed

theorem mod_inverse_witness:
  "\<exists>r. vli_mod_inv [3, 0, 0, 0] [7, 0, 0, 0] = Some r \<and> (val r * 3) mod 7 = 1"
proof -
  have "coprime (3 :: int) 7"
    by (simp add: coprime_iff_gcd_eq_1 gcd_non_0_int)
  then show ?thesis
    using mod_inverse [of "[3, 0, 0, 0]" "[7, 0, 0, 0]"] by auto
qed

end
