(* ===== verification/Ecc.thy ===== *)
theory Ecc
  imports Vli_Mod
begin

text \<open>
  Points of the curve P-256 and the two functions that \<^verbatim>\<open>bluez5/src/shared/ecc.c\<close> exports, key generation and
  the Diffie-Hellman secret.  Coordinates are 256-bit numbers; an operation is \<open>None\<close> when one of its
  reductions or the inversion does not end.  The random number source is an argument: \<open>rand i\<close> is what the
  \<open>i\<close>-th call of \<^verbatim>\<open>get_random_number\<close> delivers, \<open>None\<close> when it fails.
\<close>

section \<open>Definitions\<close>

record ecc_point =
  px :: vli
  py :: vli

definition ECC_BYTES :: nat where "ECC_BYTES = 32"
definition MAX_TRIES :: nat where "MAX_TRIES = 16"

definition curve_g :: ecc_point where
  "curve_g = \<lparr>
     px = [0xF4A13945D898C296, 0x77037D812DEB33A0, 0xF8BCE6E563A440F2, 0x6B17D1F2E12C4247],
     py = [0xCBB6406837BF51F5, 0x2BCE33576B315ECE, 0x8EE7EB4A7C0F9E16, 0x4FE342E2FE1A7F9B]\<rparr>"

definition curve_n :: vli where
  "curve_n = [0xF3B9CAC2FC632551, 0xBCE6FAADA7179E84, 0xFFFFFFFFFFFFFFFF, 0xFFFFFFFF00000000]"

definition ecc_point_is_zero :: "ecc_point \<Rightarrow> bool" where
  "ecc_point_is_zero point \<longleftrightarrow> vli_is_zero (px point) \<and> vli_is_zero (py point)"

text \<open>Halving modulo the prime, by adding it to an odd number; the carry becomes the top bit.\<close>

definition halve_p :: "vli \<Rightarrow> vli" where
  "halve_p x1 =
     (if vli_test_bit x1 0 \<noteq> 0
      then (let (x1, carry) = vli_add x1 curve_p;
                x1 = vli_rshift1 x1
            in x1[NUM_ECC_DIGITS - 1 := x1 ! (NUM_ECC_DIGITS - 1) OR push_bit 63 carry])
      else vli_rshift1 x1)"

definition ecc_point_double_jacobian :: "vli \<Rightarrow> vli \<Rightarrow> vli \<Rightarrow> (vli \<times> vli \<times> vli) option" where
  "ecc_point_double_jacobian x1 y1 z1 =
     (if vli_is_zero z1 then Some (x1, y1, z1)
      else do {
        t4 \<leftarrow> vli_mod_square_fast y1;
        t5 \<leftarrow> vli_mod_mult_fast x1 t4;
        t4 \<leftarrow> vli_mod_square_fast t4;
        y1 \<leftarrow> vli_mod_mult_fast y1 z1;
        z1 \<leftarrow> vli_mod_square_fast z1;
        let x1 = vli_mod_add x1 z1 curve_p;
        let z1 = vli_mod_add z1 z1 curve_p;
        let z1 = vli_mod_sub x1 z1 curve_p;
        x1 \<leftarrow> vli_mod_mult_fast x1 z1;
        let z1 = vli_mod_add x1 x1 curve_p;
        let x1 = vli_mod_add x1 z1 curve_p;
        let x1 = halve_p x1;
        z1 \<leftarrow> vli_mod_square_fast x1;
        let z1 = vli_mod_sub z1 t5 curve_p;
        let z1 = vli_mod_sub z1 t5 curve_p;
        let t5 = vli_mod_sub t5 z1 curve_p;
        x1 \<leftarrow> vli_mod_mult_fast x1 t5;
        let t4 = vli_mod_sub x1 t4 curve_p;
        Some (vli_set z1, vli_set t4, vli_set y1)
      })"

definition apply_z :: "vli \<Rightarrow> vli \<Rightarrow> vli \<Rightarrow> (vli \<times> vli) option" where
  "apply_z x1 y1 z = do {
     t1 \<leftarrow> vli_mod_square_fast z;
     x1 \<leftarrow> vli_mod_mult_fast x1 t1;
     t1 \<leftarrow> vli_mod_mult_fast t1 z;
     y1 \<leftarrow> vli_mod_mult_fast y1 t1;
     Some (x1, y1)
   }"

text \<open>The results are the new \<^verbatim>\<open>x1\<close>, \<^verbatim>\<open>y1\<close>, \<^verbatim>\<open>x2\<close> and \<^verbatim>\<open>y2\<close>.\<close>

definition xycz_initial_double :: "vli \<Rightarrow> vli \<Rightarrow> vli option \<Rightarrow> (vli \<times> vli \<times> vli \<times> vli) option" where
  "xycz_initial_double x1 y1 p_initial_z = do {
     let x2 = vli_set x1;
     let y2 = vli_set y1;
     let z = vli_clear[0 := 1];
     let z = (case p_initial_z of None \<Rightarrow> z | Some iz \<Rightarrow> vli_set iz);
     (x1, y1) \<leftarrow> apply_z x1 y1 z;
     (x1, y1, z) \<leftarrow> ecc_point_double_jacobian x1 y1 z;
     (x2, y2) \<leftarrow> apply_z x2 y2 z;
     Some (x1, y1, x2, y2)
   }"

definition xycz_add :: "vli \<Rightarrow> vli \<Rightarrow> vli \<Rightarrow> vli \<Rightarrow> (vli \<times> vli \<times> vli \<times> vli) option" where
  "xycz_add x1 y1 x2 y2 = do {
     let t5 = vli_mod_sub x2 x1 curve_p;
     t5 \<leftarrow> vli_mod_square_fast t5;
     x1 \<leftarrow> vli_mod_mult_fast x1 t5;
     x2 \<leftarrow> vli_mod_mult_fast x2 t5;
     let y2 = vli_mod_sub y2 y1 curve_p;
     t5 \<leftarrow> vli_mod_square_fast y2;
     let t5 = vli_mod_sub t5 x1 curve_p;
     let t5 = vli_mod_sub t5 x2 curve_p;
     let x2 = vli_mod_sub x2 x1 curve_p;
     y1 \<leftarrow> vli_mod_mult_fast y1 x2;
     let x2 = vli_mod_sub x1 t5 curve_p;
     y2 \<leftarrow> vli_mod_mult_fast y2 x2;
     let y2 = vli_mod_sub y2 y1 curve_p;
     Some (x1, y1, vli_set t5, y2)
   }"

definition xycz_add_c :: "vli \<Rightarrow> vli \<Rightarrow> vli \<Rightarrow> vli \<Rightarrow> (vli \<times> vli \<times> vli \<times> vli) option" where
  "xycz_add_c x1 y1 x2 y2 = do {
     let t5 = vli_mod_sub x2 x1 curve_p;
     t5 \<leftarrow> vli_mod_square_fast t5;
     x1 \<leftarrow> vli_mod_mult_fast x1 t5;
     x2 \<leftarrow> vli_mod_mult_fast x2 t5;
     let t5 = vli_mod_add y2 y1 curve_p;
     let y2 = vli_mod_sub y2 y1 curve_p;
     let t6 = vli_mod_sub x2 x1 curve_p;
     y1 \<leftarrow> vli_mod_mult_fast y1 t6;
     let t6 = vli_mod_add x1 x2 curve_p;
     x2 \<leftarrow> vli_mod_square_fast y2;
     let x2 = vli_mod_sub x2 t6 curve_p;
     let t7 = vli_mod_sub x1 x2 curve_p;
     y2 \<leftarrow> vli_mod_mult_fast y2 t7;
     let y2 = vli_mod_sub y2 y1 curve_p;
     t7 \<leftarrow> vli_mod_square_fast t5;
     let t7 = vli_mod_sub t7 t6 curve_p;
     let t6 = vli_mod_sub t7 x1 curve_p;
     t6 \<leftarrow> vli_mod_mult_fast t6 t5;
     let y1 = vli_mod_sub t6 y1 curve_p;
     Some (vli_set t7, y1, x2, y2)
   }"

text \<open>The arrays \<^verbatim>\<open>rx\<close> and \<^verbatim>\<open>ry\<close> of the ladder, and a call of an addition on the points of index \<open>i\<close> and \<open>j\<close>.\<close>

definition on_pair ::
  "(vli \<Rightarrow> vli \<Rightarrow> vli \<Rightarrow> vli \<Rightarrow> (vli \<times> vli \<times> vli \<times> vli) option) \<Rightarrow> nat \<Rightarrow> nat
     \<Rightarrow> vli list \<times> vli list \<Rightarrow> (vli list \<times> vli list) option" where
  "on_pair f i j R = do {
     (xi, yi, xj, yj) \<leftarrow> f (fst R ! i) (snd R ! i) (fst R ! j) (snd R ! j);
     Some ((fst R)[i := xi, j := xj], (snd R)[i := yi, j := yj])
   }"

definition not_bit :: "vli \<Rightarrow> nat \<Rightarrow> nat" where
  "not_bit scalar i = (if vli_test_bit scalar i = 0 then 1 else 0)"

text \<open>The loop for the bits \<open>i\<close> down to 1.\<close>

fun ladder :: "vli \<Rightarrow> nat \<Rightarrow> vli list \<times> vli list \<Rightarrow> (vli list \<times> vli list) option" where
  "ladder scalar 0 R = Some R"
| "ladder scalar (Suc i) R = do {
     let nb = not_bit scalar (Suc i);
     R \<leftarrow> on_pair xycz_add_c (1 - nb) nb R;
     R \<leftarrow> on_pair xycz_add nb (1 - nb) R;
     ladder scalar i R
   }"

definition ecc_point_mult :: "ecc_point \<Rightarrow> vli \<Rightarrow> vli option \<Rightarrow> nat \<Rightarrow> ecc_point option" where
  "ecc_point_mult point scalar initial_z num_bits = do {
     (x1, y1, x0, y0) \<leftarrow> xycz_initial_double (vli_set (px point)) (vli_set (py point)) initial_z;
     R \<leftarrow> ladder scalar (num_bits - 2) ([x0, x1], [y0, y1]);
     let nb = not_bit scalar 0;
     R \<leftarrow> on_pair xycz_add_c (1 - nb) nb R;
     let z = vli_mod_sub (fst R ! 1) (fst R ! 0) curve_p;
     z \<leftarrow> vli_mod_mult_fast z (snd R ! (1 - nb));
     z \<leftarrow> vli_mod_mult_fast z (px point);
     z \<leftarrow> vli_mod_inv z curve_p;
     z \<leftarrow> vli_mod_mult_fast z (py point);
     z \<leftarrow> vli_mod_mult_fast z (fst R ! (1 - nb));
     R \<leftarrow> on_pair xycz_add nb (1 - nb) R;
     (x, y) \<leftarrow> apply_z (fst R ! 0) (snd R ! 0) z;
     Some \<lparr>px = vli_set x, py = vli_set y\<rparr>
   }"

definition le64_of :: "bytes \<Rightarrow> u64" where
  "le64_of digit =
     push_bit 0 (ucast (digit ! 0)) OR push_bit 8 (ucast (digit ! 1)) OR push_bit 16 (ucast (digit ! 2))
     OR push_bit 24 (ucast (digit ! 3)) OR push_bit 32 (ucast (digit ! 4)) OR push_bit 40 (ucast (digit ! 5))
     OR push_bit 48 (ucast (digit ! 6)) OR push_bit 56 (ucast (digit ! 7))"

definition le64 :: "u64 \<Rightarrow> bytes" where
  "le64 d = map (\<lambda>i. ucast (drop_bit (8 * i) d)) [0..<8]"

text \<open>The digits in the order of their index, as the loops store them.\<close>

definition ecc_bytes2native :: "bytes \<Rightarrow> vli" where
  "ecc_bytes2native bytes = map (\<lambda>i. le64_of (drop (8 * i) bytes)) [0..<NUM_ECC_DIGITS]"

definition ecc_native2bytes :: "vli \<Rightarrow> bytes" where
  "ecc_native2bytes native = concat (map (\<lambda>i. le64 (native ! i)) [0..<NUM_ECC_DIGITS])"

text \<open>The loop of \<^verbatim>\<open>ecc_make_key\<close>.  \<open>pk\<close> is the local variable, which has no value before the first
  multiplication; \<^verbatim>\<open>continue\<close> goes to the condition of the loop.  \<open>Some None\<close> is the result false.\<close>

function make_key_loop :: "(nat \<Rightarrow> vli option) \<Rightarrow> nat \<Rightarrow> ecc_point \<Rightarrow> (vli \<times> ecc_point) option option" where
  "make_key_loop rand tries pk =
     (case rand tries of
        None \<Rightarrow> Some None
      | Some priv \<Rightarrow>
          if MAX_TRIES \<le> tries then Some None
          else (case (if vli_is_zero priv then Some pk
                      else if vli_cmp curve_n priv \<noteq> 1 then Some pk
                      else ecc_point_mult curve_g priv None (vli_num_bits priv)) of
                  None \<Rightarrow> None
                | Some pk' \<Rightarrow>
                    if ecc_point_is_zero pk' then make_key_loop rand (Suc tries) pk'
                    else Some (Some (priv, pk'))))"
  by pat_completeness auto

termination
  by (relation "measure (\<lambda>(rand, tries, pk). MAX_TRIES - tries)") (auto split: if_splits)

declare make_key_loop.simps [simp del]

text \<open>The result is the public key and the private key.\<close>

definition ecc_make_key :: "(nat \<Rightarrow> vli option) \<Rightarrow> ecc_point \<Rightarrow> (bytes \<times> bytes) option option" where
  "ecc_make_key rand pk = do {
     r \<leftarrow> make_key_loop rand 0 pk;
     Some (map_option (\<lambda>(priv, pk). (ecc_native2bytes (px pk) @ ecc_native2bytes (py pk), ecc_native2bytes priv)) r)
   }"

definition ecdh_shared_secret :: "vli option \<Rightarrow> bytes \<Rightarrow> bytes \<Rightarrow> (bool \<times> bytes option) option" where
  "ecdh_shared_secret rand public_key private_key =
     (case rand of
        None \<Rightarrow> Some (False, None)
      | Some r \<Rightarrow> do {
          let pk = \<lparr>px = ecc_bytes2native public_key, py = ecc_bytes2native (drop 32 public_key)\<rparr>;
          let priv = ecc_bytes2native private_key;
          product \<leftarrow> ecc_point_mult pk priv (Some r) (vli_num_bits priv);
          let secret = ecc_native2bytes (px product);
          Some (\<not> ecc_point_is_zero product, Some secret)
        })"

section \<open>Every operation ends with a reduced result\<close>

text \<open>\<open>returns x P\<close>: the computation \<open>x\<close> ends, with a result that satisfies \<open>P\<close>.  A number is reduced when it
  has four digits and is below the prime.\<close>

definition returns :: "'a option \<Rightarrow> ('a \<Rightarrow> bool) \<Rightarrow> bool" where
  "returns x P \<longleftrightarrow> (\<exists>y. x = Some y \<and> P y)"

definition reduced :: "vli \<Rightarrow> bool" where
  "reduced v \<longleftrightarrow> length v = 4 \<and> val v < P256"

lemma returns_Some [simp]: "returns (Some y) P \<longleftrightarrow> P y"
  by (simp add: returns_def)

lemma returns_bind: "returns x Q \<Longrightarrow> (\<And>y. Q y \<Longrightarrow> returns (f y) P) \<Longrightarrow> returns (x \<bind> f) P"
  by (auto simp: returns_def)

lemma returns_let: "Q e \<Longrightarrow> (\<And>x. Q x \<Longrightarrow> returns (f x) P) \<Longrightarrow> returns (Let e f) P"
  by simp

lemmas returns_let_reduced = returns_let [where Q = reduced]

lemma reduced_length: "reduced v \<Longrightarrow> length v = 4"
  by (simp add: reduced_def)

lemma mod_P256: "x mod P256 < P256" "0 \<le> x mod P256"
  using P256_bounds(2) by simp_all

lemma mmod_fast_returns: "length v = 8 \<Longrightarrow> returns (vli_mmod_fast v) reduced"
  using vli_mmod_fast_val [of v] mod_P256 by (auto simp: returns_def reduced_def)

lemma mult_returns:
  "length l = 4 \<Longrightarrow> length r = 4 \<Longrightarrow> returns (vli_mod_mult_fast l r) reduced"
  "length l = 4 \<Longrightarrow> returns (vli_mod_square_fast l) reduced"
  using vli_mult_val(1) vli_square_val(1) mmod_fast_returns
  by (simp_all add: vli_mod_mult_fast_def vli_mod_square_fast_def)

lemma reduced_add_sub:
  "reduced l \<Longrightarrow> reduced r \<Longrightarrow> reduced (vli_mod_add l r curve_p)"
  "reduced l \<Longrightarrow> reduced r \<Longrightarrow> reduced (vli_mod_sub l r curve_p)"
  using vli_mod_add_val [of l r curve_p] vli_mod_sub_val [of l r curve_p] curve_p_val mod_P256
  by (simp_all add: reduced_def)

lemma reduced_set [simp]: "reduced (vli_set v) \<longleftrightarrow> reduced v"
  by (simp add: vli_set_def)

lemma test_bit_0: "length v = 4 \<Longrightarrow> vli_test_bit v 0 \<noteq> 0 \<longleftrightarrow> \<not> EVEN v"
  by (simp add: vli_test_bit_def EVEN_def)

lemma top_bit_carry: "push_bit 63 (c :: u64) = (if c = 0 then 0 else 0x8000000000000000)" if "uint c \<le> 1"
proof -
  have "uint c = 0 \<or> uint c = 1"
    using that uint_nonnegative [of c] by linarith
  then have "c = 0 \<or> c = 1"
    by (simp add: word_uint_eq_iff)
  then show ?thesis
    by (auto simp: push_bit_eq_mult)
qed

text \<open>The halving inside the doubling is the one of the inversion.\<close>

lemma halve_p_eq: "length x = 4 \<Longrightarrow> halve_p x = halve_mod x curve_p"
proof -
  assume x: "length x = 4"
  obtain s c where sc: "vli_add x curve_p = (s, c)"
    by (cases "vli_add x curve_p")
  have "uint c \<le> 1" "length s = 4"
    using vli_add_val [OF x curve_p_val(1) sc] x by simp_all
  moreover have "length (vli_rshift1 s) = 4"
    using vli_rshift1_val [of s] \<open>length s = 4\<close> by simp
  ultimately show ?thesis
    using test_bit_0 [OF x] sc by (simp add: halve_p_def halve_mod_def top_bit_carry Let_def)
qed

lemma odd_P256: "odd P256"
  by (simp add: P256_def)

lemma reduced_halve: "reduced x \<Longrightarrow> reduced (halve_p x)"
  using halve_mod_val [of x curve_p] half_mod_less [OF odd_P256 val_nonneg, of x] curve_p_val odd_P256
  by (simp add: reduced_def halve_p_eq)

lemma mod_inv_returns: "length x = 4 \<Longrightarrow> returns (vli_mod_inv x curve_p) reduced"
proof (cases "val x = 0")
  case True
  assume "length x = 4"
  then show ?thesis
    using True P256_bounds(2)
    by (simp add: vli_mod_inv_def vli_is_zero_val reduced_def vli_clear_def NUM_ECC_DIGITS_def numeral_eq_Suc)
next
  case False
  assume "length x = 4"
  moreover have "0 < val x"
    using False val_nonneg [of x] by linarith
  moreover have "1 < P256"
    by (simp add: P256_def)
  ultimately show ?thesis
    using vli_mod_inv_val [of x curve_p] curve_p_val odd_P256 by (auto simp: returns_def reduced_def)
qed

lemmas returns_field = returns_bind [OF mult_returns(1)] returns_bind [OF mult_returns(2)]
  returns_let_reduced [OF reduced_add_sub(1)] returns_let_reduced [OF reduced_add_sub(2)]
  returns_let_reduced [OF reduced_halve]

lemma apply_z_returns:
  assumes "length x = 4" "length y = 4" "length z = 4"
  shows "returns (apply_z x y z) (\<lambda>(x', y'). reduced x' \<and> reduced y')"
  unfolding apply_z_def by (intro returns_field; simp add: assms reduced_length)

lemma double_jacobian_returns:
  assumes "reduced x" "reduced y" "length z = 4"
  shows "returns (ecc_point_double_jacobian x y z) (\<lambda>(x', y', z'). reduced x' \<and> reduced y' \<and> length z' = 4)"
proof (cases "vli_is_zero z")
  case True
  then show ?thesis
    using assms by (simp add: ecc_point_double_jacobian_def)
next
  case False
  then show ?thesis
    unfolding ecc_point_double_jacobian_def if_not_P [OF False]
    by (intro returns_field; simp add: assms reduced_length vli_set_def)
qed

lemma xycz_add_returns:
  assumes "reduced x1" "reduced y1" "reduced x2" "reduced y2"
  shows "returns (xycz_add x1 y1 x2 y2) (\<lambda>(x1, y1, x2, y2). reduced x1 \<and> reduced y1 \<and> reduced x2 \<and> reduced y2)"
    and "returns (xycz_add_c x1 y1 x2 y2) (\<lambda>(x1, y1, x2, y2). reduced x1 \<and> reduced y1 \<and> reduced x2 \<and> reduced y2)"
  unfolding xycz_add_def xycz_add_c_def by (intro returns_field; simp add: assms reduced_length)+

lemma xycz_initial_double_returns:
  assumes "length x = 4" "length y = 4" "\<forall>z\<in>set_option iz. length z = 4"
  shows "returns (xycz_initial_double x y iz) (\<lambda>(x1, y1, x2, y2). reduced x1 \<and> reduced y1 \<and> reduced x2 \<and> reduced y2)"
proof -
  define z where "z = (case iz of None \<Rightarrow> vli_clear[0 := 1] | Some iz \<Rightarrow> vli_set iz)"
  have z: "length z = 4"
    using assms(3) by (cases iz) (simp_all add: z_def vli_set_def vli_clear_def NUM_ECC_DIGITS_def)
  show ?thesis
    unfolding xycz_initial_double_def Let_def z_def [symmetric] vli_set_def [of x] vli_set_def [of y]
    by (rule returns_bind [OF apply_z_returns [OF assms(1,2) z]], clarify,
        rule returns_bind [OF double_jacobian_returns [OF _ _ z]], assumption, assumption, clarify,
        rule returns_bind [OF apply_z_returns [OF assms(1,2)]], assumption, clarify, simp)
qed

definition reduced_pair :: "vli list \<times> vli list \<Rightarrow> bool" where
  "reduced_pair R \<longleftrightarrow> (\<exists>x0 x1 y0 y1. R = ([x0, x1], [y0, y1]) \<and> reduced x0 \<and> reduced x1 \<and> reduced y0 \<and> reduced y1)"

lemma reduced_pair_nth: "reduced_pair R \<Longrightarrow> nb \<le> 1 \<Longrightarrow> reduced (fst R ! nb) \<and> reduced (snd R ! nb)"
  by (cases nb) (auto simp: reduced_pair_def)

lemma on_pair_returns:
  assumes "\<And>x1 y1 x2 y2. reduced x1 \<Longrightarrow> reduced y1 \<Longrightarrow> reduced x2 \<Longrightarrow> reduced y2 \<Longrightarrow>
      returns (f x1 y1 x2 y2) (\<lambda>(x1, y1, x2, y2). reduced x1 \<and> reduced y1 \<and> reduced x2 \<and> reduced y2)"
    and "reduced_pair R" "nb \<le> 1" "nb' = 1 - nb"
  shows "returns (on_pair f nb nb' R) reduced_pair"
proof -
  obtain x0 x1 y0 y1 where R: "R = ([x0, x1], [y0, y1])" "reduced x0" "reduced x1" "reduced y0" "reduced y1"
    using assms(2) by (auto simp: reduced_pair_def)
  have "nb = 0 \<or> nb = 1"
    using assms(3) by linarith
  then show ?thesis
    unfolding on_pair_def assms(4)
    by (elim disjE; simp add: R(1)) (rule returns_bind [OF assms(1)], (rule R)+, clarify, simp add: reduced_pair_def)+
qed

lemma not_bit_le: "not_bit scalar i \<le> 1"
  by (simp add: not_bit_def)

lemmas pair_returns = on_pair_returns [OF xycz_add_returns(1)] on_pair_returns [OF xycz_add_returns(2)]

lemma diff_diff_bit: "(nb :: nat) \<le> 1 \<Longrightarrow> nb = 1 - (1 - nb)"
  by simp

lemma ladder_step_returns:
  assumes "reduced_pair R"
  shows "returns (on_pair xycz_add_c (1 - not_bit scalar i) (not_bit scalar i) R) reduced_pair"
    and "returns (on_pair xycz_add (not_bit scalar i) (1 - not_bit scalar i) R) reduced_pair"
  using pair_returns(2) [OF _ _ _ _ assms _ diff_diff_bit [OF not_bit_le]]
    pair_returns(1) [OF _ _ _ _ assms not_bit_le refl] by simp_all

lemma ladder_returns: "reduced_pair R \<Longrightarrow> returns (ladder scalar i R) reduced_pair"
proof (induction i arbitrary: R)
  case (Suc i)
  show ?case
    unfolding ladder.simps Let_def
    by (rule returns_bind [OF ladder_step_returns(1) [OF Suc.prems]], erule returns_bind [OF ladder_step_returns(2)], erule Suc.IH)
qed simp

lemma ecc_point_mult_returns:
  assumes "length (px point) = 4" "length (py point) = 4" "\<forall>z\<in>set_option iz. length z = 4"
  shows "returns (ecc_point_mult point scalar iz n) (\<lambda>q. reduced (px q) \<and> reduced (py q))"
proof -
  let ?nb = "not_bit scalar 0"
  have final: "returns (do {
      let z = vli_mod_sub (fst R ! 1) (fst R ! 0) curve_p;
      z \<leftarrow> vli_mod_mult_fast z (snd R ! (1 - ?nb));
      z \<leftarrow> vli_mod_mult_fast z (px point);
      z \<leftarrow> vli_mod_inv z curve_p;
      z \<leftarrow> vli_mod_mult_fast z (py point);
      z \<leftarrow> vli_mod_mult_fast z (fst R ! (1 - ?nb));
      R \<leftarrow> on_pair xycz_add ?nb (1 - ?nb) R;
      (x, y) \<leftarrow> apply_z (fst R ! 0) (snd R ! 0) z;
      Some \<lparr>px = vli_set x, py = vli_set y\<rparr>}) (\<lambda>q. reduced (px q) \<and> reduced (py q))" if R: "reduced_pair R" for R
  proof -
    have r: "reduced (fst R ! 0)" "reduced (fst R ! 1)" "reduced (fst R ! (1 - ?nb))" "reduced (snd R ! (1 - ?nb))"
      using reduced_pair_nth [OF R] by simp_all
    show ?thesis
      by (intro returns_field returns_bind [OF mod_inv_returns] returns_bind [OF ladder_step_returns(2) [OF R]];
          (simp add: assms r r [simplified] reduced_length)?)
        (rule returns_bind [OF apply_z_returns]; auto simp: reduced_length reduced_pair_nth)
  qed
  show ?thesis
    unfolding ecc_point_mult_def Let_def [of ?nb] vli_set_def [of "px point"] vli_set_def [of "py point"]
    apply (rule returns_bind [OF xycz_initial_double_returns [OF assms]], clarify)
    apply (rule returns_bind [OF ladder_returns])
     apply (simp add: reduced_pair_def)
    apply (erule returns_bind [OF ladder_step_returns(1)])
    apply (erule final)
    done
qed

section \<open>Byte arrays\<close>

lemma bytes8: "8 \<le> length bs \<Longrightarrow> \<exists>a b c d e f g h r. bs = a # b # c # d # e # f # g # h # r"
  by (auto simp: Suc_le_length_iff numeral_eq_Suc)

lemma le64_list: "le64 d = [ucast d, ucast (drop_bit 8 d), ucast (drop_bit 16 d), ucast (drop_bit 24 d),
    ucast (drop_bit 32 d), ucast (drop_bit 40 d), ucast (drop_bit 48 d), ucast (drop_bit 56 d)]"
  by (simp add: le64_def upt_rec)

lemma bit_byte: "bit (b :: u8) n \<Longrightarrow> n < 8"
  using bit_imp_le_length [of b n] by simp

lemma le64_of_le64: "le64_of (le64 d @ r) = d"
proof (rule bit_word_eqI)
  fix n assume "n < LENGTH(64)"
  then consider "n < 8" | "8 \<le> n" "n < 16" | "16 \<le> n" "n < 24" | "24 \<le> n" "n < 32" | "32 \<le> n" "n < 40"
    | "40 \<le> n" "n < 48" | "48 \<le> n" "n < 56" | "56 \<le> n" "n < 64"
    by fastforce
  then show "bit (le64_of (le64 d @ r)) n \<longleftrightarrow> bit d n"
    by cases (simp_all add: le64_of_def le64_list bit_simps less_diff_conv2)
qed

lemma le64_le64_of: "8 \<le> length bs \<Longrightarrow> le64 (le64_of bs) = take 8 bs"
proof -
  assume "8 \<le> length bs"
  then obtain a b c d e f g h r where bs: "bs = a # b # c # d # e # f # g # h # r"
    using bytes8 by blast
  show ?thesis
    unfolding le64_list le64_of_def bs
    by (simp; intro conjI; rule bit_word_eqI; auto simp: bit_simps dest: bit_byte)
qed

lemma digit_range: "[0..<NUM_ECC_DIGITS] = [0, 1, 2, 3]"
  by (simp add: NUM_ECC_DIGITS_def upt_rec)

lemma length_native: "length (ecc_bytes2native bs) = 4" "length (ecc_native2bytes v) = 32"
  by (simp_all add: ecc_bytes2native_def ecc_native2bytes_def digit_range le64_def)

lemma bytes2native_native2bytes: "length v = 4 \<Longrightarrow> ecc_bytes2native (ecc_native2bytes v) = v"
proof -
  assume "length v = 4"
  then obtain a b c d where v: "v = [a, b, c, d]"
    using digits4 by blast
  have "ecc_native2bytes v = le64 a @ le64 b @ le64 c @ le64 d @ []"
    by (simp add: ecc_native2bytes_def digit_range v)
  moreover have "length (le64 x) = 8" for x
    by (simp add: le64_def)
  ultimately show ?thesis
    by (simp add: ecc_bytes2native_def digit_range v le64_of_le64 le64_of_le64 [where r = "[]", simplified])
qed

lemma native2bytes_bytes2native: "length bs = 32 \<Longrightarrow> ecc_native2bytes (ecc_bytes2native bs) = bs"
proof -
  assume l: "length bs = 32"
  have "take 8 bs @ take 8 (drop 8 bs) @ take 8 (drop 16 bs) @ take 8 (drop 24 bs) = take (8 + (8 + (8 + 8))) bs"
    unfolding take_add drop_drop by simp
  then show ?thesis
    using l by (simp add: ecc_bytes2native_def ecc_native2bytes_def digit_range le64_le64_of)
qed

section \<open>Properties\<close>

lemma point_mult_base: "\<exists>q. ecc_point_mult curve_g priv None n = Some q"
  using ecc_point_mult_returns [of curve_g None priv n] by (auto simp: returns_def curve_g_def)

lemma make_key_loop_returns:
  "\<exists>r. make_key_loop rand tries pk = Some r \<and> (\<forall>priv q. r = Some (priv, q) \<longrightarrow> (\<exists>i<MAX_TRIES. rand i = Some priv))"
proof (induction rand tries pk rule: make_key_loop.induct)
  case (1 rand tries pk)
  show ?case
  proof (cases "rand tries")
    case None
    then show ?thesis
      by (simp add: make_key_loop.simps)
  next
    case (Some priv)
    let ?next = "if vli_is_zero priv then Some pk else if vli_cmp curve_n priv \<noteq> 1 then Some pk
      else ecc_point_mult curve_g priv None (vli_num_bits priv)"
    obtain q where q: "?next = Some q"
      using point_mult_base [of priv "vli_num_bits priv"] by (cases "vli_is_zero priv"; cases "vli_cmp curve_n priv = 1") auto
    have "make_key_loop rand tries pk = (if MAX_TRIES \<le> tries then Some None
        else if ecc_point_is_zero q then make_key_loop rand (Suc tries) q else Some (Some (priv, q)))"
      by (subst make_key_loop.simps) (simp only: Some q option.case)
    then show ?thesis
      using 1 [OF Some _ q] Some by (cases "MAX_TRIES \<le> tries"; cases "ecc_point_is_zero q")
        (auto simp: not_le)
  qed
qed

text \<open>C39.  Both exported functions return, whatever the keys and the random numbers are: no reduction and no
  inversion on the way runs forever.  The Diffie-Hellman secret is 32 bytes that hold a number below the
  prime of the curve; it fails without a random number.  Key generation gives up or delivers 64 and 32
  bytes, the latter one of the first 16 random numbers.\<close>

theorem ecc_functions_return:
  assumes "length public_key = 64" "length private_key = 32" "length r = 4"
    and "\<And>i priv. rand i = Some priv \<Longrightarrow> length priv = 4"
  shows "(\<exists>ok secret. ecdh_shared_secret (Some r) public_key private_key = Some (ok, Some secret)
        \<and> length secret = 32 \<and> val (ecc_bytes2native secret) < 2 ^ 256 - 2 ^ 224 + 2 ^ 192 + 2 ^ 96 - 1)
    \<and> ecdh_shared_secret None public_key private_key = Some (False, None)
    \<and> (\<exists>k. ecc_make_key rand pk = Some k
        \<and> (\<forall>pub priv. k = Some (pub, priv) \<longrightarrow> length pub = 64 \<and> length priv = 32
             \<and> (\<exists>i<MAX_TRIES. rand i = Some (ecc_bytes2native priv))))"
proof (intro conjI)
  let ?pk = "\<lparr>px = ecc_bytes2native public_key, py = ecc_bytes2native (drop 32 public_key)\<rparr>"
    and ?priv = "ecc_bytes2native private_key"
  obtain q where q: "ecc_point_mult ?pk ?priv (Some r) (vli_num_bits ?priv) = Some q" "length (px q) = 4" "val (px q) < P256"
    using ecc_point_mult_returns [of ?pk "Some r" ?priv "vli_num_bits ?priv"] assms(3)
    by (auto simp: returns_def reduced_def length_native)
  then show "\<exists>ok secret. ecdh_shared_secret (Some r) public_key private_key = Some (ok, Some secret)
      \<and> length secret = 32 \<and> val (ecc_bytes2native secret) < 2 ^ 256 - 2 ^ 224 + 2 ^ 192 + 2 ^ 96 - 1"
    unfolding P256_def [symmetric] by (simp add: ecdh_shared_secret_def Let_def length_native bytes2native_native2bytes)
  obtain k where k: "make_key_loop rand 0 pk = Some k" "\<forall>priv q. k = Some (priv, q) \<longrightarrow> (\<exists>i<MAX_TRIES. rand i = Some priv)"
    using make_key_loop_returns by blast
  have "ecc_bytes2native (ecc_native2bytes priv) = priv" if "k = Some (priv, q)" for priv q
    using k(2) that assms(4) bytes2native_native2bytes by blast
  then show "\<exists>k. ecc_make_key rand pk = Some k
      \<and> (\<forall>pub priv. k = Some (pub, priv) \<longrightarrow> length pub = 64 \<and> length priv = 32
           \<and> (\<exists>i<MAX_TRIES. rand i = Some (ecc_bytes2native priv)))"
    using k by (auto simp: ecc_make_key_def length_native)
qed (simp add: ecdh_shared_secret_def)

theorem ecc_functions_return_witness:
  "\<exists>ok secret. ecdh_shared_secret (Some [5, 0, 0, 0]) (replicate 64 7) (replicate 32 9) = Some (ok, Some secret)
     \<and> length secret = 32"
  using ecc_functions_return [of "replicate 64 7" "replicate 32 9" "[5, 0, 0, 0]" "\<lambda>i. None" curve_g]
  by (simp only: length_replicate list.size) auto

text \<open>Key generation checks that the private key is between 1 and the order of the curve minus 1, but the
  \<^verbatim>\<open>continue\<close> of a failed check goes on to the condition of the loop, which reads the public key that has
  not been computed.  If that memory is not all zero, the function reports success with the private key it
  rejected, zero or too large, and the content of the memory as the public key.\<close>

theorem ecc_make_key_accepts_rejected:
  assumes "rand 0 = Some priv" "length priv = 4" "val priv = 0 \<or> val curve_n \<le> val priv" "\<not> ecc_point_is_zero pk"
  shows "ecc_make_key rand pk
    = Some (Some (ecc_native2bytes (px pk) @ ecc_native2bytes (py pk), ecc_native2bytes priv))"
proof -
  have "vli_is_zero priv \<or> vli_cmp curve_n priv \<noteq> 1"
    using assms(2,3) vli_cmp_val [of curve_n priv] by (auto simp: vli_is_zero_val sgn_if curve_n_def)
  then show ?thesis
    using assms(1,4) by (auto simp: ecc_make_key_def make_key_loop.simps [of _ 0] MAX_TRIES_def)
qed

theorem ecc_make_key_accepts_rejected_witness:
  "\<exists>pub. ecc_make_key (\<lambda>i. Some [0, 0, 0, 0]) \<lparr>px = [1, 0, 0, 0], py = [0, 0, 0, 0]\<rparr>
     = Some (Some (pub, ecc_native2bytes [0, 0, 0, 0]))"
  using ecc_make_key_accepts_rejected [of "\<lambda>i. Some [0, 0, 0, 0]" "[0, 0, 0, 0]" "\<lparr>px = [1, 0, 0, 0], py = [0, 0, 0, 0]\<rparr>"]
  by (simp add: ecc_point_is_zero_def)

end
