(* ===== verification/Qlist.thy ===== *)
theory Qlist
  imports Queue
begin

text \<open>
  The operations of a queue on the list of its elements, for match functions that may have undefined
  behaviour, and their agreement with the operations that the theory \<open>Queue\<close> proves of the linked queue.
\<close>

text \<open>\<^verbatim>\<open>queue_remove_if\<close> with a match function that may have undefined behaviour: the element removed and the rest.\<close>

fun remove_if :: "('a \<Rightarrow> bool option) \<Rightarrow> 'a list \<Rightarrow> ('a option \<times> 'a list) option" where
  "remove_if f [] = Some (None, [])"
| "remove_if f (x # xs) = do {
     m \<leftarrow> f x;
     (if m then Some (Some x, xs) else map_option (map_prod id ((#) x)) (remove_if f xs))
   }"

fun queue_find_in :: "('a \<Rightarrow> bool option) \<Rightarrow> 'a list \<Rightarrow> nat option option" where
  "queue_find_in f [] = Some None"
| "queue_find_in f (x # xs) = do {
     m \<leftarrow> f x;
     (if m then Some (Some 0) else map_option (map_option Suc) (queue_find_in f xs))
   }"

text \<open>With a match function that is always defined these are the operations of the list refinement.\<close>

lemma remove_if_defined:
  "\<forall>x\<in>set xs. g x = Some (f x) \<Longrightarrow> remove_if g xs = Some (find f xs, remove_first f xs)"
  by (induction xs) auto

text \<open>The position of the first match.\<close>

fun find_index :: "('a \<Rightarrow> bool) \<Rightarrow> 'a list \<Rightarrow> nat option" where
  "find_index f [] = None"
| "find_index f (x # xs) = (if f x then Some 0 else map_option Suc (find_index f xs))"

lemma find_in_defined: "\<forall>x\<in>set xs. g x = Some (f x) \<Longrightarrow> queue_find_in g xs = Some (find_index f xs)"
  by (induction xs) auto

lemma find_index_Some: "find_index f xs = Some i \<Longrightarrow> i < length xs \<and> f (xs ! i)"
  by (induction xs arbitrary: i) (auto split: if_splits)

lemma find_index_find: "map_option ((!) xs) (find_index f xs) = find f xs"
proof (induction xs)
  case (Cons x xs)
  then show ?case
    by (cases "find_index f xs") auto
qed simp

lemma find_index_None: "find_index f xs = None \<longleftrightarrow> (\<forall>x\<in>set xs. \<not> f x)"
  by (induction xs) auto

lemma find_not_None: "find f xs \<noteq> None \<longleftrightarrow> (\<exists>x\<in>set xs. f x)"
  by (induction xs) auto

end
