(* ===== verification/Ad.thy ===== *)
theory Ad
  imports Bt_Uuid Qlist
begin

text \<open>
  Advertising data, \<^verbatim>\<open>bluez5/src/shared/ad.c\<close>: the four queues of a \<^verbatim>\<open>struct bt_ad\<close>, the operations that
  change them and the serialization into the 31 bytes of an advertisement.  A queue is the list of its
  elements, which is what the theory \<open>Queue\<close> shows of it; the elements belong to the queue alone, so that an
  update through a pointer is an update of the list.  \<open>None\<close> for a \<^verbatim>\<open>struct bt_ad\<close> is NULL.  \<open>alloc\<close> says whether
  \<^verbatim>\<open>malloc\<close>, \<^verbatim>\<open>calloc\<close> and \<^verbatim>\<open>realloc\<close> succeed in a call; \<^verbatim>\<open>new0\<close> and the queue never fail.  A buffer with its length
  is a list of bytes.
\<close>

section \<open>State\<close>

definition MAX_ADV_DATA_LEN :: size_t where "MAX_ADV_DATA_LEN = 31"

definition EIR_UUID16_ALL :: u8 where "EIR_UUID16_ALL = 0x03"
definition EIR_UUID32_ALL :: u8 where "EIR_UUID32_ALL = 0x05"
definition EIR_UUID128_ALL :: u8 where "EIR_UUID128_ALL = 0x07"
definition EIR_SOLICIT16 :: u8 where "EIR_SOLICIT16 = 0x14"
definition EIR_SOLICIT128 :: u8 where "EIR_SOLICIT128 = 0x15"
definition EIR_SVC_DATA16 :: u8 where "EIR_SVC_DATA16 = 0x16"
definition EIR_SOLICIT32 :: u8 where "EIR_SOLICIT32 = 0x1F"
definition EIR_SVC_DATA32 :: u8 where "EIR_SVC_DATA32 = 0x20"
definition EIR_SVC_DATA128 :: u8 where "EIR_SVC_DATA128 = 0x21"
definition EIR_MANUFACTURER_DATA :: u8 where "EIR_MANUFACTURER_DATA = 0xFF"

record bt_ad_manufacturer_data =
  manufacturer_id :: u16
  m_data :: bytes

record bt_ad_service_data =
  sd_uuid :: bt_uuid_t
  sd_data :: bytes

record bt_ad =
  ref_count :: int
  service_uuids :: "bt_uuid_t list"
  manufacturer_data :: "bt_ad_manufacturer_data list"
  solicit_uuids :: "bt_uuid_t list"
  service_data :: "bt_ad_service_data list"

definition bt_ad_ref :: "bt_ad option \<Rightarrow> bt_ad option" where
  "bt_ad_ref ad = map_option (\<lambda>a. a\<lparr>ref_count := ref_count a + 1\<rparr>) ad"

definition bt_ad_new :: "bt_ad option" where
  "bt_ad_new = bt_ad_ref (Some
     \<lparr>ref_count = 0, service_uuids = [], manufacturer_data = [], solicit_uuids = [], service_data = []\<rparr>)"

text \<open>\<open>None\<close> as the result for an object is that it has been freed with all its queues.\<close>

definition bt_ad_unref :: "bt_ad option \<Rightarrow> bt_ad option" where
  "bt_ad_unref ad =
     (case ad of
        None \<Rightarrow> None
      | Some a \<Rightarrow> if ref_count a - 1 \<noteq> 0 then Some (a\<lparr>ref_count := ref_count a - 1\<rparr>) else None)"

section \<open>Serialization\<close>

fun uuid_kind :: "bt_uuid_t \<Rightarrow> u8" where
  "uuid_kind BT_UUID_UNSPEC = 0"
| "uuid_kind (BT_UUID16 v) = 16"
| "uuid_kind (BT_UUID32 v) = 32"
| "uuid_kind (BT_UUID128 b) = 128"

text \<open>The loop adds up the lengths and notes which kinds occur.\<close>

fun uuid_list_loop :: "bt_uuid_t list \<Rightarrow> size_t \<times> bool \<times> bool \<times> bool \<Rightarrow> size_t \<times> bool \<times> bool \<times> bool" where
  "uuid_list_loop [] st = st"
| "uuid_list_loop (uuid # entries) (len, uuid16_included, uuid32_included, uuid128_included) =
     (let len = len + of_int (bt_uuid_len uuid)
      in uuid_list_loop entries
           (if uuid_kind uuid = 16 then (len, True, uuid32_included, uuid128_included)
            else if uuid_kind uuid = 32 then (len, uuid16_included, True, uuid128_included)
            else (len, uuid16_included, uuid32_included, True)))"

definition uuid_list_length :: "bt_uuid_t list \<Rightarrow> size_t" where
  "uuid_list_length uuid_queue =
     (let (len, uuid16_included, uuid32_included, uuid128_included) = uuid_list_loop uuid_queue (0, False, False, False);
          len = (if uuid16_included then len + 2 else len);
          len = (if uuid32_included then len + 2 else len)
      in if uuid128_included then len + 2 else len)"

fun mfg_data_length :: "bt_ad_manufacturer_data list \<Rightarrow> size_t" where
  "mfg_data_length [] = 0"
| "mfg_data_length (d # entries) = 2 + 2 + of_nat (length (m_data d)) + mfg_data_length entries"

fun uuid_data_length :: "bt_ad_service_data list \<Rightarrow> size_t" where
  "uuid_data_length [] = 0"
| "uuid_data_length (d # entries) =
     2 + of_int (bt_uuid_len (sd_uuid d)) + of_nat (length (sd_data d)) + uuid_data_length entries"

definition calculate_length :: "bt_ad \<Rightarrow> size_t" where
  "calculate_length ad = uuid_list_length (service_uuids ad) + uuid_list_length (solicit_uuids ad)
     + mfg_data_length (manufacturer_data ad) + uuid_data_length (service_data ad)"

text \<open>The serializers work on the buffer and the 8-bit position.  \<open>emit8\<close> is \<^verbatim>\<open>buf[(*pos)++] = v\<close>.\<close>

type_synonym ad_buf = "bytes \<times> u8"

definition emit8 :: "u8 \<Rightarrow> ad_buf \<Rightarrow> ad_buf option" where
  "emit8 v st = (case st of (buf, pos) \<Rightarrow> do { buf \<leftarrow> store8 buf (unat pos) v; Some (buf, pos + 1) })"

definition emit_bytes :: "bytes \<Rightarrow> ad_buf \<Rightarrow> ad_buf option" where
  "emit_bytes bs st =
     (case st of (buf, pos) \<Rightarrow> do { buf \<leftarrow> mem_write buf (unat pos) bs; Some (buf, pos + of_nat (length bs)) })"

text \<open>\<^verbatim>\<open>bt_put_le32\<close> for a 32-bit UUID, otherwise \<^verbatim>\<open>bt_uuid_to_le\<close>, at \<^verbatim>\<open>buf + *pos\<close>, which then moves by the length of
  the UUID.\<close>

definition emit_uuid :: "bool \<Rightarrow> bt_uuid_t \<Rightarrow> ad_buf \<Rightarrow> ad_buf option" where
  "emit_uuid is32 uuid st =
     (case st of (buf, pos) \<Rightarrow> do {
        buf \<leftarrow> (if \<not> is32
                then (if length buf < unat pos then None
                      else do { (_, b) \<leftarrow> bt_uuid_to_le uuid (drop (unat pos) buf); Some (take (unat pos) buf @ b) })
                else (case uuid of BT_UUID32 v \<Rightarrow> mem_write buf (unat pos) (le32 v) | _ \<Rightarrow> None));
        Some (buf, pos + of_int (bt_uuid_len uuid))
      })"

text \<open>The state of the loop is \<^verbatim>\<open>added\<close>, \<^verbatim>\<open>length_pos\<close> and the buffer.\<close>

fun uuids_loop :: "bt_uuid_t list \<Rightarrow> u8 \<Rightarrow> u8 \<Rightarrow> bool \<times> u8 \<times> ad_buf \<Rightarrow> (bool \<times> u8 \<times> ad_buf) option" where
  "uuids_loop [] type ad_type st = Some st"
| "uuids_loop (uuid # entries) type ad_type (added, length_pos, st) =
     (if uuid_kind uuid = type then do {
        (length_pos, st) \<leftarrow> (if \<not> added
           then do { st' \<leftarrow> emit8 ad_type (fst st, snd st + 1); Some (snd st, st') }
           else Some (length_pos, st));
        st \<leftarrow> emit_uuid (type = 32) uuid st;
        uuids_loop entries type ad_type (True, length_pos, st)
      }
      else uuids_loop entries type ad_type (added, length_pos, st))"

definition serialize_uuids :: "bt_uuid_t list \<Rightarrow> u8 \<Rightarrow> u8 \<Rightarrow> ad_buf \<Rightarrow> ad_buf option" where
  "serialize_uuids uuids type ad_type st = do {
     (added, length_pos, buf, pos) \<leftarrow> uuids_loop uuids type ad_type (False, 0, st);
     (if added then do { buf \<leftarrow> store8 buf (unat length_pos) (pos - length_pos - 1); Some (buf, pos) }
      else Some (buf, pos))
   }"

definition serialize_service_uuids :: "bt_uuid_t list \<Rightarrow> ad_buf \<Rightarrow> ad_buf option" where
  "serialize_service_uuids uuids st = do {
     st \<leftarrow> serialize_uuids uuids 16 EIR_UUID16_ALL st;
     st \<leftarrow> serialize_uuids uuids 32 EIR_UUID32_ALL st;
     serialize_uuids uuids 128 EIR_UUID128_ALL st
   }"

definition serialize_solicit_uuids :: "bt_uuid_t list \<Rightarrow> ad_buf \<Rightarrow> ad_buf option" where
  "serialize_solicit_uuids uuids st = do {
     st \<leftarrow> serialize_uuids uuids 16 EIR_SOLICIT16 st;
     st \<leftarrow> serialize_uuids uuids 32 EIR_SOLICIT32 st;
     serialize_uuids uuids 128 EIR_SOLICIT128 st
   }"

fun serialize_manuf_data :: "bt_ad_manufacturer_data list \<Rightarrow> ad_buf \<Rightarrow> ad_buf option" where
  "serialize_manuf_data [] st = Some st"
| "serialize_manuf_data (d # entries) st = do {
     st \<leftarrow> emit8 (of_nat (length (m_data d) + 2 + 1)) st;
     st \<leftarrow> emit8 EIR_MANUFACTURER_DATA st;
     st \<leftarrow> emit_bytes (le16 (manufacturer_id d)) st;
     st \<leftarrow> emit_bytes (m_data d) st;
     serialize_manuf_data entries st
   }"

fun serialize_service_data :: "bt_ad_service_data list \<Rightarrow> ad_buf \<Rightarrow> ad_buf option" where
  "serialize_service_data [] st = Some st"
| "serialize_service_data (d # entries) st = do {
     let uuid_len = bt_uuid_len (sd_uuid d);
     st \<leftarrow> emit8 (of_int (uuid_len + int (length (sd_data d)) + 1)) st;
     st \<leftarrow> (if uuid_len = 2 then emit8 EIR_SVC_DATA16 st
            else if uuid_len = 4 then emit8 EIR_SVC_DATA32 st
            else if uuid_len = 16 then emit8 EIR_SVC_DATA128 st
            else Some st);
     st \<leftarrow> emit_uuid (uuid_len = 4) (sd_uuid d) st;
     st \<leftarrow> emit_bytes (sd_data d) st;
     serialize_service_data entries st
   }"

text \<open>The returned buffer, \<open>None\<close> for NULL, and \<^verbatim>\<open>*length\<close>, which is not written for a NULL object.\<close>

definition bt_ad_generate :: "bool \<Rightarrow> bt_ad option \<Rightarrow> (bytes option \<times> size_t option) option" where
  "bt_ad_generate alloc ad =
     (case ad of
        None \<Rightarrow> Some (None, None)
      | Some a \<Rightarrow>
          let len = calculate_length a
          in if MAX_ADV_DATA_LEN < len then Some (None, Some len)
             else if \<not> alloc then Some (None, Some len)
             else do {
               st \<leftarrow> serialize_service_uuids (service_uuids a) (replicate (unat len) 0, 0);
               st \<leftarrow> serialize_solicit_uuids (solicit_uuids a) st;
               st \<leftarrow> serialize_manuf_data (manufacturer_data a) st;
               st \<leftarrow> serialize_service_data (service_data a) st;
               Some (Some (fst st), Some len)
             })"

section \<open>Changes of the queues\<close>

text \<open>The operations return their result and the new object.\<close>

definition queue_add_uuid :: "bt_uuid_t list \<Rightarrow> bt_uuid_t \<Rightarrow> bool \<times> bt_uuid_t list" where
  "queue_add_uuid queue uuid = (True, queue @ [uuid])"

text \<open>The truth value of the result of \<^verbatim>\<open>bt_uuid_cmp\<close>.\<close>

definition uuid_match :: "bt_uuid_t \<Rightarrow> bt_uuid_t \<Rightarrow> bool option" where
  "uuid_match match_uuid uuid = map_option (\<lambda>c. c \<noteq> 0) (bt_uuid_cmp match_uuid uuid)"

definition queue_remove_uuid :: "bt_uuid_t list \<Rightarrow> bt_uuid_t option \<Rightarrow> (bool \<times> bt_uuid_t list) option" where
  "queue_remove_uuid queue uuid =
     (case uuid of
        None \<Rightarrow> Some (False, queue)
      | Some u \<Rightarrow> do {
          (removed, queue) \<leftarrow> remove_if (\<lambda>elem. uuid_match elem u) queue;
          Some (removed \<noteq> None, queue)
        })"

definition bt_ad_add_service_uuid :: "bt_ad option \<Rightarrow> bt_uuid_t \<Rightarrow> bool \<times> bt_ad option" where
  "bt_ad_add_service_uuid ad uuid =
     (case ad of
        None \<Rightarrow> (False, None)
      | Some a \<Rightarrow> let (r, q) = queue_add_uuid (service_uuids a) uuid in (r, Some (a\<lparr>service_uuids := q\<rparr>)))"

definition bt_ad_remove_service_uuid :: "bt_ad option \<Rightarrow> bt_uuid_t option \<Rightarrow> (bool \<times> bt_ad option) option" where
  "bt_ad_remove_service_uuid ad uuid =
     (case ad of
        None \<Rightarrow> Some (False, None)
      | Some a \<Rightarrow> do { (r, q) \<leftarrow> queue_remove_uuid (service_uuids a) uuid; Some (r, Some (a\<lparr>service_uuids := q\<rparr>)) })"

definition bt_ad_clear_service_uuid :: "bt_ad option \<Rightarrow> bt_ad option" where
  "bt_ad_clear_service_uuid ad = map_option (\<lambda>a. a\<lparr>service_uuids := []\<rparr>) ad"

definition manufacturer_id_data_match :: "u16 \<Rightarrow> bt_ad_manufacturer_data \<Rightarrow> bool" where
  "manufacturer_id_data_match i m \<longleftrightarrow> manufacturer_id m = i"

text \<open>The part that \<^verbatim>\<open>bt_ad_add_manufacturer_data\<close> and \<^verbatim>\<open>bt_ad_add_service_data\<close> have in common once the length has been
  checked: \<open>found\<close> is the result of \<^verbatim>\<open>queue_find\<close>, \<open>upd\<close> stores the bytes, \<open>fresh\<close> is the new element.\<close>

definition store_data ::
  "bool \<Rightarrow> 'a list \<Rightarrow> nat option \<Rightarrow> ('a \<Rightarrow> bytes) \<Rightarrow> (bytes \<Rightarrow> 'a \<Rightarrow> 'a) \<Rightarrow> (bytes \<Rightarrow> 'a) \<Rightarrow> bytes \<Rightarrow> size_t
     \<Rightarrow> (bool \<times> 'a list) option" where
  "store_data alloc q found get upd fresh data len = do {
     bs \<leftarrow> mem_read data 0 (unat len);
     (case found of
        Some i \<Rightarrow>
          (if length (get (q ! i)) = unat len \<and> memcmp (get (q ! i)) bs = 0 then Some (False, q)
           else if \<not> alloc \<and> len \<noteq> 0 then None
           else Some (True, q[i := upd bs (q ! i)]))
      | None \<Rightarrow> if \<not> alloc then Some (False, q) else Some (True, q @ [fresh bs]))
   }"

definition bt_ad_add_manufacturer_data ::
  "bool \<Rightarrow> bt_ad option \<Rightarrow> u16 \<Rightarrow> bytes \<Rightarrow> size_t \<Rightarrow> (bool \<times> bt_ad option) option" where
  "bt_ad_add_manufacturer_data alloc ad i data len =
     (case ad of
        None \<Rightarrow> Some (False, None)
      | Some a \<Rightarrow>
          if MAX_ADV_DATA_LEN - 2 - 2 < len then Some (False, ad)
          else do {
            new_data \<leftarrow> queue_find_in (\<lambda>m. Some (manufacturer_id_data_match i m)) (manufacturer_data a);
            (r, q) \<leftarrow> store_data alloc (manufacturer_data a) new_data m_data (\<lambda>bs m. m\<lparr>m_data := bs\<rparr>)
                        (\<lambda>bs. \<lparr>manufacturer_id = i, m_data = bs\<rparr>) data len;
            Some (r, Some (a\<lparr>manufacturer_data := q\<rparr>))
          })"

definition manufacturer_data_match :: "bt_ad_manufacturer_data \<Rightarrow> bt_ad_manufacturer_data \<Rightarrow> bool" where
  "manufacturer_data_match m1 m2 \<longleftrightarrow> manufacturer_id m1 = manufacturer_id m2
     \<and> length (m_data m1) = length (m_data m2) \<and> memcmp (m_data m1) (m_data m2) = 0"

definition bt_ad_has_manufacturer_data :: "bt_ad option \<Rightarrow> bt_ad_manufacturer_data option \<Rightarrow> bool" where
  "bt_ad_has_manufacturer_data ad data =
     (case ad of
        None \<Rightarrow> False
      | Some a \<Rightarrow>
          (case data of
             None \<Rightarrow> manufacturer_data a \<noteq> []
           | Some d \<Rightarrow> find (\<lambda>m. manufacturer_data_match m d) (manufacturer_data a) \<noteq> None))"

text \<open>The elements on which the function is called, in order.\<close>

definition bt_ad_foreach_manufacturer_data :: "bt_ad option \<Rightarrow> bt_ad_manufacturer_data list" where
  "bt_ad_foreach_manufacturer_data ad = (case ad of None \<Rightarrow> [] | Some a \<Rightarrow> manufacturer_data a)"

text \<open>\<^verbatim>\<open>manuf_match\<close> takes its second argument, the user data of the search, for the element: it reads through a
  pointer that was made from the number of the manufacturer.\<close>

definition manuf_match :: "bt_ad_manufacturer_data \<Rightarrow> u16 \<Rightarrow> bool option" where
  "manuf_match data elem = None"

definition bt_ad_remove_manufacturer_data :: "bt_ad option \<Rightarrow> u16 \<Rightarrow> (bool \<times> bt_ad option) option" where
  "bt_ad_remove_manufacturer_data ad i =
     (case ad of
        None \<Rightarrow> Some (False, None)
      | Some a \<Rightarrow> do {
          (data, q) \<leftarrow> remove_if (\<lambda>m. manuf_match m i) (manufacturer_data a);
          Some (data \<noteq> None, Some (a\<lparr>manufacturer_data := q\<rparr>))
        })"

definition bt_ad_clear_manufacturer_data :: "bt_ad option \<Rightarrow> bt_ad option" where
  "bt_ad_clear_manufacturer_data ad = map_option (\<lambda>a. a\<lparr>manufacturer_data := []\<rparr>) ad"

definition bt_ad_add_solicit_uuid :: "bt_ad option \<Rightarrow> bt_uuid_t \<Rightarrow> bool \<times> bt_ad option" where
  "bt_ad_add_solicit_uuid ad uuid =
     (case ad of
        None \<Rightarrow> (False, None)
      | Some a \<Rightarrow> let (r, q) = queue_add_uuid (solicit_uuids a) uuid in (r, Some (a\<lparr>solicit_uuids := q\<rparr>)))"

definition bt_ad_remove_solicit_uuid :: "bt_ad option \<Rightarrow> bt_uuid_t option \<Rightarrow> (bool \<times> bt_ad option) option" where
  "bt_ad_remove_solicit_uuid ad uuid =
     (case ad of
        None \<Rightarrow> Some (False, None)
      | Some a \<Rightarrow> do { (r, q) \<leftarrow> queue_remove_uuid (solicit_uuids a) uuid; Some (r, Some (a\<lparr>solicit_uuids := q\<rparr>)) })"

definition bt_ad_clear_solicit_uuid :: "bt_ad option \<Rightarrow> bt_ad option" where
  "bt_ad_clear_solicit_uuid ad = map_option (\<lambda>a. a\<lparr>solicit_uuids := []\<rparr>) ad"

definition service_uuid_match :: "bt_uuid_t \<Rightarrow> bt_ad_service_data \<Rightarrow> bool option" where
  "service_uuid_match uuid s = map_option (\<lambda>c. c = 0) (bt_uuid_cmp (sd_uuid s) uuid)"

definition bt_ad_add_service_data ::
  "bool \<Rightarrow> bt_ad option \<Rightarrow> bt_uuid_t \<Rightarrow> bytes \<Rightarrow> size_t \<Rightarrow> (bool \<times> bt_ad option) option" where
  "bt_ad_add_service_data alloc ad uuid data len =
     (case ad of
        None \<Rightarrow> Some (False, None)
      | Some a \<Rightarrow>
          if MAX_ADV_DATA_LEN - 2 - of_int (bt_uuid_len uuid) < len then Some (False, ad)
          else do {
            new_data \<leftarrow> queue_find_in (service_uuid_match uuid) (service_data a);
            (r, q) \<leftarrow> store_data alloc (service_data a) new_data sd_data (\<lambda>bs s. s\<lparr>sd_data := bs\<rparr>)
                        (\<lambda>bs. \<lparr>sd_uuid = uuid, sd_data = bs\<rparr>) data len;
            Some (r, Some (a\<lparr>service_data := q\<rparr>))
          })"

definition service_data_match :: "bt_ad_service_data \<Rightarrow> bt_ad_service_data \<Rightarrow> bool option" where
  "service_data_match s1 s2 = do {
     c \<leftarrow> bt_uuid_cmp (sd_uuid s1) (sd_uuid s2);
     Some (c = 0 \<and> length (sd_data s1) = length (sd_data s2) \<and> memcmp (sd_data s1) (sd_data s2) = 0)
   }"

definition bt_ad_has_service_data :: "bt_ad option \<Rightarrow> bt_ad_service_data option \<Rightarrow> bool option" where
  "bt_ad_has_service_data ad data =
     (case ad of
        None \<Rightarrow> Some False
      | Some a \<Rightarrow>
          (case data of
             None \<Rightarrow> Some (service_data a \<noteq> [])
           | Some d \<Rightarrow> map_option (\<lambda>r. r \<noteq> None) (queue_find_in (\<lambda>s. service_data_match s d) (service_data a))))"

definition bt_ad_foreach_service_data :: "bt_ad option \<Rightarrow> bt_ad_service_data list" where
  "bt_ad_foreach_service_data ad = (case ad of None \<Rightarrow> [] | Some a \<Rightarrow> service_data a)"

text \<open>\<^verbatim>\<open>uuid_data_match\<close> takes its arguments in the wrong order too, but both structures start with a UUID.\<close>

definition uuid_data_match :: "bt_ad_service_data \<Rightarrow> bt_uuid_t \<Rightarrow> bool option" where
  "uuid_data_match data elem = map_option (\<lambda>c. c = 0) (bt_uuid_cmp elem (sd_uuid data))"

definition bt_ad_remove_service_data :: "bt_ad option \<Rightarrow> bt_uuid_t \<Rightarrow> (bool \<times> bt_ad option) option" where
  "bt_ad_remove_service_data ad uuid =
     (case ad of
        None \<Rightarrow> Some (False, None)
      | Some a \<Rightarrow> do {
          (data, q) \<leftarrow> remove_if (\<lambda>s. uuid_data_match s uuid) (service_data a);
          Some (data \<noteq> None, Some (a\<lparr>service_data := q\<rparr>))
        })"

definition bt_ad_clear_service_data :: "bt_ad option \<Rightarrow> bt_ad option" where
  "bt_ad_clear_service_data ad = map_option (\<lambda>a. a\<lparr>service_data := []\<rparr>) ad"

section \<open>The bytes of an advertisement\<close>

text \<open>An advertisement is a sequence of structures: length, type, payload.\<close>

definition ad_struct :: "u8 \<times> bytes \<Rightarrow> bytes" where
  "ad_struct s = of_nat (length (snd s) + 1) # fst s # snd s"

function parse_ad :: "bytes \<Rightarrow> (u8 \<times> bytes) list option" where
  "parse_ad bs =
     (case bs of
        [] \<Rightarrow> Some []
      | l # r \<Rightarrow>
          if unat l = 0 \<or> length r < unat l then None
          else map_option ((#) (hd r, take (unat l - 1) (tl r))) (parse_ad (drop (unat l) r)))"
  by pat_completeness auto

termination
  by (relation "measure length") auto

declare parse_ad.simps [simp del]

definition uuid_le :: "bt_uuid_t \<Rightarrow> bytes" where
  "uuid_le u = (case u of BT_UUID_UNSPEC \<Rightarrow> [] | BT_UUID16 v \<Rightarrow> le16 v | BT_UUID32 v \<Rightarrow> le32 v | BT_UUID128 b \<Rightarrow> rev b)"

definition uuid_structs :: "u8 \<Rightarrow> u8 \<Rightarrow> bt_uuid_t list \<Rightarrow> (u8 \<times> bytes) list" where
  "uuid_structs t ad_type us =
     (let xs = filter (\<lambda>u. uuid_kind u = t) us in if xs = [] then [] else [(ad_type, concat (map uuid_le xs))])"

definition svc_data_type :: "bt_uuid_t \<Rightarrow> u8" where
  "svc_data_type u = (case u of BT_UUID16 v \<Rightarrow> EIR_SVC_DATA16 | BT_UUID32 v \<Rightarrow> EIR_SVC_DATA32 | _ \<Rightarrow> EIR_SVC_DATA128)"

definition ad_structs :: "bt_ad \<Rightarrow> (u8 \<times> bytes) list" where
  "ad_structs ad =
     uuid_structs 16 EIR_UUID16_ALL (service_uuids ad) @ uuid_structs 32 EIR_UUID32_ALL (service_uuids ad)
     @ uuid_structs 128 EIR_UUID128_ALL (service_uuids ad)
     @ uuid_structs 16 EIR_SOLICIT16 (solicit_uuids ad) @ uuid_structs 32 EIR_SOLICIT32 (solicit_uuids ad)
     @ uuid_structs 128 EIR_SOLICIT128 (solicit_uuids ad)
     @ map (\<lambda>m. (EIR_MANUFACTURER_DATA, le16 (manufacturer_id m) @ m_data m)) (manufacturer_data ad)
     @ map (\<lambda>s. (svc_data_type (sd_uuid s), uuid_le (sd_uuid s) @ sd_data s)) (service_data ad)"

abbreviation ad_flat :: "(u8 \<times> bytes) list \<Rightarrow> bytes" where
  "ad_flat ss \<equiv> concat (map ad_struct ss)"

definition ad_bytes :: "bt_ad \<Rightarrow> bytes" where
  "ad_bytes ad = ad_flat (ad_structs ad)"

definition ad_ok :: "bt_ad \<Rightarrow> bool" where
  "ad_ok ad \<longleftrightarrow> (\<forall>u\<in>set (service_uuids ad) \<union> set (solicit_uuids ad). uuid_ok u)
     \<and> (\<forall>s\<in>set (service_data ad). uuid_ok (sd_uuid s))"

lemma length_ad_struct [simp]: "length (ad_struct s) = length (snd s) + 2"
  by (simp add: ad_struct_def)

lemma parse_ad_flat:
  assumes "\<forall>s\<in>set ss. length (snd s) < 255"
  shows "parse_ad (ad_flat ss) = Some ss"
  using assms
proof (induction ss)
  case (Cons s ss)
  have "unat (of_nat (Suc (length (snd s))) :: u8) = Suc (length (snd s))"
    using Cons.prems by (simp only: unat_of_nat) simp
  then show ?case
    using Cons by (subst parse_ad.simps) (simp add: ad_struct_def [of s])
qed (simp add: parse_ad.simps)

lemma length_flat_mem: "s \<in> set ss \<Longrightarrow> length (snd s) + 2 \<le> length (ad_flat ss)"
  by (induction ss) auto

section \<open>The serializers write these bytes\<close>

text \<open>\<open>writes f bs\<close>: in a buffer of at most 31 bytes with room for \<open>bs\<close>, \<open>f\<close> writes \<open>bs\<close> at the position and moves it.\<close>

definition writes :: "(ad_buf \<Rightarrow> ad_buf option) \<Rightarrow> bytes \<Rightarrow> bool" where
  "writes f bs \<longleftrightarrow> (\<forall>pre rest. length pre + length rest \<le> 31 \<longrightarrow> length bs \<le> length rest \<longrightarrow>
     f (pre @ rest, of_nat (length pre)) = Some (pre @ bs @ drop (length bs) rest, of_nat (length pre + length bs)))"

lemma unat_pos: "n \<le> 31 \<Longrightarrow> unat (of_nat n :: u8) = n"
  by (simp only: unat_of_nat) simp

lemma writesD:
  "writes f bs \<Longrightarrow> length pre + length rest \<le> 31 \<Longrightarrow> length bs \<le> length rest \<Longrightarrow>
     f (pre @ rest, of_nat (length pre)) = Some (pre @ bs @ drop (length bs) rest, of_nat (length pre + length bs))"
  by (simp add: writes_def)

lemma writes_Some: "writes Some []"
  by (simp add: writes_def)

lemma writes_bind:
  assumes "writes f a" "writes g b"
  shows "writes (\<lambda>st. f st \<bind> g) (a @ b)"
  unfolding writes_def
proof (intro allI impI)
  fix pre rest :: bytes
  assume l: "length pre + length rest \<le> 31" "length (a @ b) \<le> length rest"
  have "f (pre @ rest, of_nat (length pre)) = Some ((pre @ a) @ drop (length a) rest, of_nat (length (pre @ a)))"
    using assms(1) l by (simp add: writes_def)
  moreover have "g ((pre @ a) @ drop (length a) rest, of_nat (length (pre @ a)))
      = Some ((pre @ a) @ b @ drop (length b) (drop (length a) rest), of_nat (length (pre @ a) + length b))"
    using writesD [OF assms(2), of "pre @ a" "drop (length a) rest"] l by simp
  ultimately show "f (pre @ rest, of_nat (length pre)) \<bind> g
      = Some (pre @ (a @ b) @ drop (length (a @ b)) rest, of_nat (length pre + length (a @ b)))"
    by (simp add: ac_simps)
qed

lemma writes_bytes: "writes (emit_bytes bs) bs"
  by (auto simp: writes_def emit_bytes_def unat_pos mem_write_def)

lemma writes_emit8: "writes (emit8 v) [v]"
  by (auto simp: writes_def emit8_def unat_pos store8_def mem_write_def)

lemma to_le_drop:
  assumes "uuid_ok u" "uuid_kind u \<noteq> 32" "length (uuid_le u) \<le> length dst"
  shows "\<exists>r. bt_uuid_to_le u dst = Some (r, uuid_le u @ drop (length (uuid_le u)) dst)"
  using assms by (cases u) (auto simp: bt_uuid_to_le_def uuid_le_def bswap_128_def mem_write_def numeral_2_eq_2)

lemma uuid_len_le: "uuid_ok u \<Longrightarrow> bt_uuid_len u = int (length (uuid_le u))"
  by (cases u) (simp_all add: bt_uuid_len_def uuid_le_def)

lemma writes_uuid:
  assumes "uuid_ok u" "is32 \<longleftrightarrow> uuid_kind u = 32"
  shows "writes (emit_uuid is32 u) (uuid_le u)"
  unfolding writes_def
proof (intro allI impI)
  fix pre rest :: bytes
  assume l: "length pre + length rest \<le> 31" "length (uuid_le u) \<le> length rest"
  show "emit_uuid is32 u (pre @ rest, of_nat (length pre))
      = Some (pre @ uuid_le u @ drop (length (uuid_le u)) rest, of_nat (length pre + length (uuid_le u)))"
  proof (cases is32)
    case True
    then obtain v where "u = BT_UUID32 v"
      using assms by (cases u) auto
    then show ?thesis
      using True l uuid_len_le [OF assms(1)] by (simp add: emit_uuid_def unat_pos mem_write_def uuid_le_def)
  next
    case False
    then show ?thesis
      using l to_le_drop [OF assms(1) _ l(2)] assms(2) uuid_len_le [OF assms(1)]
      by (auto simp: emit_uuid_def unat_pos)
  qed
qed

lemma uuids_loop_none: "filter (\<lambda>u. uuid_kind u = t) us = [] \<Longrightarrow> uuids_loop us t ad_type (added, lp, st) = Some (added, lp, st)"
  by (induction us) (auto split: if_splits)

lemma uuids_loop_added:
  assumes "\<forall>u\<in>set us. uuid_ok u" "length pre + length rest \<le> 31"
    and "length (concat (map uuid_le (filter (\<lambda>u. uuid_kind u = t) us))) \<le> length rest"
  shows "uuids_loop us t ad_type (True, lp, pre @ rest, of_nat (length pre))
    = (let bs = concat (map uuid_le (filter (\<lambda>u. uuid_kind u = t) us))
       in Some (True, lp, pre @ bs @ drop (length bs) rest, of_nat (length pre + length bs)))"
  using assms
proof (induction us arbitrary: pre rest)
  case (Cons u us)
  show ?case
  proof (cases "uuid_kind u = t")
    case True
    let ?b = "uuid_le u"
    have "emit_uuid (t = 32) u (pre @ rest, of_nat (length pre))
        = Some ((pre @ ?b) @ drop (length ?b) rest, of_nat (length (pre @ ?b)))"
      using writesD [OF writes_uuid [of u "t = 32"]] Cons.prems True by simp
    then show ?thesis
      using True Cons.prems Cons.IH [of "pre @ ?b" "drop (length ?b) rest"]
      by (simp add: Let_def ac_simps del: of_nat_add)
  qed (use Cons in simp)
qed simp

lemma uuids_loop_first:
  "u \<in> set us \<Longrightarrow> uuid_kind u = t \<Longrightarrow> \<exists>vs v ws. us = vs @ v # ws \<and> uuid_kind v = t \<and> (\<forall>w\<in>set vs. uuid_kind w \<noteq> t)"
  using split_list_first_prop [of us "\<lambda>u. uuid_kind u = t"] by blast

lemma uuids_loop_skip:
  "\<forall>w\<in>set vs. uuid_kind w \<noteq> t \<Longrightarrow> uuids_loop (vs @ us) t ad_type (added, lp, st) = uuids_loop us t ad_type (added, lp, st)"
  by (induction vs) auto

lemma writes_uuids:
  assumes "\<forall>u\<in>set us. uuid_ok u"
  shows "writes (serialize_uuids us t ad_type) (ad_flat (uuid_structs t ad_type us))"
proof (cases "filter (\<lambda>u. uuid_kind u = t) us = []")
  case True
  then show ?thesis
    by (auto simp: writes_def uuid_structs_def serialize_uuids_def uuids_loop_none)
next
  case False
  then obtain u where "u \<in> set us" "uuid_kind u = t"
    by (auto simp: filter_empty_conv)
  then obtain vs v ws where us: "us = vs @ v # ws" "uuid_kind v = t" "\<forall>w\<in>set vs. uuid_kind w \<noteq> t"
    using uuids_loop_first by blast
  let ?bs = "concat (map uuid_le (filter (\<lambda>u. uuid_kind u = t) us))"
  have bs: "?bs = concat (map uuid_le (filter (\<lambda>u. uuid_kind u = t) (v # ws)))"
    using us(3) by (simp add: us(1) filter_empty_conv)
  show ?thesis
    unfolding writes_def
  proof (intro allI impI)
    fix pre rest :: bytes
    assume l: "length pre + length rest \<le> 31" "length (ad_flat (uuid_structs t ad_type us)) \<le> length rest"
    have len: "length ?bs + 2 \<le> length rest"
      using l(2) False by (simp add: uuid_structs_def)
    then obtain x y r where rest: "rest = x # y # r"
      by (cases rest; cases "tl rest") auto
    have step: "uuids_loop us t ad_type (False, 0, pre @ rest, of_nat (length pre))
        = uuids_loop (v # ws) t ad_type (True, of_nat (length pre), (pre @ [x, ad_type]) @ r, of_nat (length (pre @ [x, ad_type])))"
      using us(2) writesD [OF writes_emit8, of "pre @ [x]" "y # r" ad_type] l(1)
      by (simp add: us(1) uuids_loop_skip [OF us(3)] rest ac_simps)
    have "length (pre @ [x, ad_type]) + length r \<le> 31" "length ?bs \<le> length r" "\<forall>u\<in>set (v # ws). uuid_ok u"
      using l(1) len assms by (auto simp: rest us(1))
    then have "uuids_loop us t ad_type (False, 0, pre @ rest, of_nat (length pre))
        = Some (True, of_nat (length pre), (pre @ [x, ad_type]) @ ?bs @ drop (length ?bs) r, of_nat (length (pre @ [x, ad_type]) + length ?bs))"
      unfolding step bs by (subst uuids_loop_added) (simp_all add: Let_def)
    then show "serialize_uuids us t ad_type (pre @ rest, of_nat (length pre))
        = Some (pre @ ad_flat (uuid_structs t ad_type us) @ drop (length (ad_flat (uuid_structs t ad_type us))) rest,
            of_nat (length pre + length (ad_flat (uuid_structs t ad_type us))))"
      using l(1) len False
      by (simp add: serialize_uuids_def uuid_structs_def ad_struct_def rest unat_pos store8_def mem_write_def ac_simps)
  qed
qed

lemma writes_manuf:
  "writes (serialize_manuf_data ms) (ad_flat (map (\<lambda>m. (EIR_MANUFACTURER_DATA, le16 (manufacturer_id m) @ m_data m)) ms))"
proof (induction ms)
  case (Cons m ms)
  have "writes (\<lambda>st. emit8 (of_nat (length (m_data m) + 2 + 1)) st \<bind> (\<lambda>st. emit8 EIR_MANUFACTURER_DATA st
      \<bind> (\<lambda>st. emit_bytes (le16 (manufacturer_id m)) st \<bind> (\<lambda>st. emit_bytes (m_data m) st \<bind> serialize_manuf_data ms))))
    ([of_nat (length (m_data m) + 2 + 1)] @ [EIR_MANUFACTURER_DATA] @ le16 (manufacturer_id m) @ m_data m
      @ ad_flat (map (\<lambda>m. (EIR_MANUFACTURER_DATA, le16 (manufacturer_id m) @ m_data m)) ms))"
    by (intro writes_bind writes_emit8 writes_bytes Cons.IH)
  then show ?case
    by (simp add: ad_struct_def [of "(_, _)"] ac_simps)
qed (simp add: writes_Some)

lemma writes_svc_type:
  assumes "uuid_ok u"
  shows "writes (\<lambda>st. if bt_uuid_len u = 2 then emit8 EIR_SVC_DATA16 st else if bt_uuid_len u = 4 then emit8 EIR_SVC_DATA32 st
    else if bt_uuid_len u = 16 then emit8 EIR_SVC_DATA128 st else Some st) [svc_data_type u]"
  using assms writes_emit8 by (cases u) (simp_all add: bt_uuid_len_def svc_data_type_def)

lemma writes_service_data:
  assumes "\<forall>s\<in>set ss. uuid_ok (sd_uuid s)"
  shows "writes (serialize_service_data ss) (ad_flat (map (\<lambda>s. (svc_data_type (sd_uuid s), uuid_le (sd_uuid s) @ sd_data s)) ss))"
  using assms
proof (induction ss)
  case (Cons s ss)
  let ?u = "sd_uuid s" and ?n = "of_int (bt_uuid_len (sd_uuid s) + int (length (sd_data s)) + 1)"
  have ok: "uuid_ok ?u"
    using Cons.prems by simp
  have is32: "bt_uuid_len ?u = 4 \<longleftrightarrow> uuid_kind ?u = 32"
    by (cases ?u) (simp_all add: bt_uuid_len_def)
  have "writes (\<lambda>st. emit8 ?n st \<bind> (\<lambda>st. (if bt_uuid_len ?u = 2 then emit8 EIR_SVC_DATA16 st
        else if bt_uuid_len ?u = 4 then emit8 EIR_SVC_DATA32 st
        else if bt_uuid_len ?u = 16 then emit8 EIR_SVC_DATA128 st else Some st)
      \<bind> (\<lambda>st. emit_uuid (bt_uuid_len ?u = 4) ?u st \<bind> (\<lambda>st. emit_bytes (sd_data s) st \<bind> serialize_service_data ss))))
    ([?n] @ [svc_data_type ?u] @ uuid_le ?u @ sd_data s
      @ ad_flat (map (\<lambda>s. (svc_data_type (sd_uuid s), uuid_le (sd_uuid s) @ sd_data s)) ss))"
    using Cons by (intro writes_bind writes_emit8 writes_bytes writes_svc_type writes_uuid ok is32) simp_all
  moreover have "ad_struct (svc_data_type ?u, uuid_le ?u @ sd_data s) = [?n] @ [svc_data_type ?u] @ uuid_le ?u @ sd_data s"
    by (simp add: ad_struct_def uuid_len_le [OF ok])
  ultimately show ?case
    by (simp add: Let_def)
qed (simp add: writes_def)

lemma uuid_list_loop_val:
  assumes "\<forall>u\<in>set us. uuid_ok u"
  shows "uuid_list_loop us (n, a, b, c) = (n + of_nat (length (concat (map uuid_le us))),
    a \<or> (\<exists>u\<in>set us. uuid_kind u = 16), b \<or> (\<exists>u\<in>set us. uuid_kind u = 32), c \<or> (\<exists>u\<in>set us. uuid_kind u = 128))"
  using assms
proof (induction us arbitrary: n a b c)
  case (Cons u us)
  then show ?case
    using uuid_len_le [of u] by (cases u) (simp_all add: Let_def add.assoc)
qed simp

lemma length_by_type:
  assumes "\<forall>u\<in>set us. uuid_ok u"
  shows "length (concat (map uuid_le us)) = (\<Sum>t\<leftarrow>[16, 32, 128]. length (concat (map uuid_le (filter (\<lambda>u. uuid_kind u = t) us))))"
  using assms
proof (induction us)
  case (Cons u us)
  then show ?case
    by (cases u) simp_all
qed simp

lemma uuid_list_length_val:
  assumes "\<forall>u\<in>set us. uuid_ok u"
  shows "uuid_list_length us = of_nat (length (ad_flat (uuid_structs 16 a us @ uuid_structs 32 b us @ uuid_structs 128 c us)))"
  using length_by_type [OF assms]
  by (auto simp: uuid_list_length_def uuid_list_loop_val [OF assms] uuid_structs_def Let_def filter_empty_conv)

lemma data_length_val:
  "mfg_data_length ms = of_nat (length (ad_flat (map (\<lambda>m. (EIR_MANUFACTURER_DATA, le16 (manufacturer_id m) @ m_data m)) ms)))"
  "\<forall>s\<in>set ss. uuid_ok (sd_uuid s) \<Longrightarrow>
     uuid_data_length ss = of_nat (length (ad_flat (map (\<lambda>s. (svc_data_type (sd_uuid s), uuid_le (sd_uuid s) @ sd_data s)) ss)))"
  by (induction ms) (simp_all, induction ss, simp_all add: uuid_len_le)

lemma calculate_length_val: "ad_ok ad \<Longrightarrow> calculate_length ad = of_nat (length (ad_bytes ad))"
  using uuid_list_length_val [of "service_uuids ad" EIR_UUID16_ALL EIR_UUID32_ALL EIR_UUID128_ALL]
    uuid_list_length_val [of "solicit_uuids ad" EIR_SOLICIT16 EIR_SOLICIT32 EIR_SOLICIT128]
    data_length_val
  by (simp add: ad_ok_def calculate_length_def ad_bytes_def ad_structs_def)

lemma writes_ad:
  assumes "ad_ok ad"
  shows "writes (\<lambda>st. serialize_service_uuids (service_uuids ad) st \<bind> (\<lambda>st. serialize_solicit_uuids (solicit_uuids ad) st
    \<bind> (\<lambda>st. serialize_manuf_data (manufacturer_data ad) st \<bind> serialize_service_data (service_data ad)))) (ad_bytes ad)"
proof -
  have u: "writes (serialize_uuids (service_uuids ad) t a) (ad_flat (uuid_structs t a (service_uuids ad)))"
    "writes (serialize_uuids (solicit_uuids ad) t a) (ad_flat (uuid_structs t a (solicit_uuids ad)))" for t a
    using assms by (intro writes_uuids; auto simp: ad_ok_def)+
  have "writes (serialize_service_uuids (service_uuids ad)) (ad_flat (uuid_structs 16 EIR_UUID16_ALL (service_uuids ad))
      @ ad_flat (uuid_structs 32 EIR_UUID32_ALL (service_uuids ad)) @ ad_flat (uuid_structs 128 EIR_UUID128_ALL (service_uuids ad)))"
    "writes (serialize_solicit_uuids (solicit_uuids ad)) (ad_flat (uuid_structs 16 EIR_SOLICIT16 (solicit_uuids ad))
      @ ad_flat (uuid_structs 32 EIR_SOLICIT32 (solicit_uuids ad)) @ ad_flat (uuid_structs 128 EIR_SOLICIT128 (solicit_uuids ad)))"
    unfolding serialize_service_uuids_def serialize_solicit_uuids_def by (intro writes_bind u)+
  moreover have "writes (serialize_service_data (service_data ad))
      (ad_flat (map (\<lambda>s. (svc_data_type (sd_uuid s), uuid_le (sd_uuid s) @ sd_data s)) (service_data ad)))"
    using assms by (intro writes_service_data) (simp add: ad_ok_def)
  ultimately have "writes (\<lambda>st. serialize_service_uuids (service_uuids ad) st \<bind> (\<lambda>st. serialize_solicit_uuids (solicit_uuids ad) st
      \<bind> (\<lambda>st. serialize_manuf_data (manufacturer_data ad) st \<bind> serialize_service_data (service_data ad))))
    ((ad_flat (uuid_structs 16 EIR_UUID16_ALL (service_uuids ad))
      @ ad_flat (uuid_structs 32 EIR_UUID32_ALL (service_uuids ad)) @ ad_flat (uuid_structs 128 EIR_UUID128_ALL (service_uuids ad)))
     @ (ad_flat (uuid_structs 16 EIR_SOLICIT16 (solicit_uuids ad))
      @ ad_flat (uuid_structs 32 EIR_SOLICIT32 (solicit_uuids ad)) @ ad_flat (uuid_structs 128 EIR_SOLICIT128 (solicit_uuids ad)))
     @ ad_flat (map (\<lambda>m. (EIR_MANUFACTURER_DATA, le16 (manufacturer_id m) @ m_data m)) (manufacturer_data ad))
     @ ad_flat (map (\<lambda>s. (svc_data_type (sd_uuid s), uuid_le (sd_uuid s) @ sd_data s)) (service_data ad)))"
    by (intro writes_bind writes_manuf)
  then show ?thesis
    by (simp add: ad_bytes_def ad_structs_def)
qed

section \<open>Elements with a key\<close>

lemma uuid_cmp_u128:
  assumes "uuid_ok u" "uuid_ok v"
  shows "bt_uuid_cmp u v = Some (memcmp (u128 u) (u128 v))" "memcmp (u128 u) (u128 v) = 0 \<longleftrightarrow> u128 u = u128 v"
  using assms by (simp_all add: bt_uuid_cmp_def to_uuid128_u128 memcmp_eq length_u128)

text \<open>What a queue of elements with a key and data stands for.\<close>

definition keyed_map :: "('a \<Rightarrow> 'k) \<Rightarrow> ('a \<Rightarrow> bytes) \<Rightarrow> 'a list \<Rightarrow> 'k \<rightharpoonup> bytes" where
  "keyed_map key get q = map_of (map (\<lambda>x. (key x, get x)) q)"

locale keyed_data =
  fixes key :: "'a \<Rightarrow> 'k" and get :: "'a \<Rightarrow> bytes" and upd :: "bytes \<Rightarrow> 'a \<Rightarrow> 'a"
    and fresh :: "'c \<Rightarrow> bytes \<Rightarrow> 'a" and ckey :: "'c \<Rightarrow> 'k"
  assumes upd_laws: "key (upd bs x) = key x" "get (upd bs x) = bs"
    and fresh_laws: "key (fresh c bs) = ckey c" "get (fresh c bs) = bs"
begin

lemma map_of_update:
  assumes "distinct (map key q)" "i < length q"
  shows "keyed_map key get (q[i := upd bs (q ! i)]) = (keyed_map key get q)(key (q ! i) \<mapsto> bs)"
    and "map key (q[i := upd bs (q ! i)]) = map key q"
proof -
  show "map key (q[i := upd bs (q ! i)]) = map key q"
    using assms(2) by (simp add: map_update upd_laws list_update_same_conv)
  show "keyed_map key get (q[i := upd bs (q ! i)]) = (keyed_map key get q)(key (q ! i) \<mapsto> bs)"
    using assms
  proof (induction q arbitrary: i)
    case (Cons x q)
    then have "key x \<noteq> key (q ! n)" if "i = Suc n" for n
      using that nth_mem [of n q] by force
    then show ?case
      using Cons by (cases i) (simp_all add: keyed_map_def upd_laws fun_eq_iff)
  qed simp
qed

lemma map_of_append:
  "k \<notin> set (map key q) \<Longrightarrow> k = ckey c \<Longrightarrow> keyed_map key get (q @ [fresh c bs]) = (keyed_map key get q)(k \<mapsto> bs)"
  by (induction q) (auto simp: keyed_map_def fresh_laws fun_upd_twist)

lemma map_of_nth: "distinct (map key q) \<Longrightarrow> i < length q \<Longrightarrow> keyed_map key get q (key (q ! i)) = Some (get (q ! i))"
  unfolding keyed_map_def by (rule map_of_is_SomeI) (use nth_mem in \<open>fastforce simp: comp_def\<close>)+

lemma store_data_map:
  assumes "distinct (map key q)" "unat len \<le> length data" "\<forall>x\<in>set q. f x = Some (key x = ckey c)"
  shows "\<exists>i r q'. queue_find_in f q = Some i \<and> store_data True q i get upd (fresh c) data len = Some (r, q')
    \<and> distinct (map key q') \<and> keyed_map key get q' = (keyed_map key get q)(ckey c \<mapsto> take (unat len) data)
    \<and> (r \<longleftrightarrow> keyed_map key get q (ckey c) \<noteq> Some (take (unat len) data))"
proof (cases "find_index (\<lambda>x. key x = ckey c) q")
  case None
  then have k: "ckey c \<notin> set (map key q)"
    by (auto simp: find_index_None)
  then have "keyed_map key get q (ckey c) = None"
    by (auto simp: keyed_map_def map_of_eq_None_iff)
  then show ?thesis
    using None assms k map_of_append [OF k refl] find_in_defined [OF assms(3)]
    by (intro exI [of _ None] exI [of _ True] exI [of _ "q @ [fresh c (take (unat len) data)]"])
      (simp add: store_data_def mem_read_def fresh_laws)
next
  case (Some i)
  note i = find_index_Some [OF Some]
  have m: "keyed_map key get q (ckey c) = Some (get (q ! i))"
    using map_of_nth [OF assms(1), of i] i by simp
  have "length (get (q ! i)) = unat len \<and> memcmp (get (q ! i)) (take (unat len) data) = 0
      \<longleftrightarrow> get (q ! i) = take (unat len) data"
    using assms(2) by (auto simp: memcmp_eq)
  then show ?thesis
    using Some assms m i map_of_update [OF assms(1), of i] find_in_defined [OF assms(3)]
    by (auto simp: store_data_def mem_read_def fun_upd_idem)
qed

end

interpretation manuf: keyed_data manufacturer_id m_data "\<lambda>bs m. m\<lparr>m_data := bs\<rparr>"
  "\<lambda>i bs. \<lparr>manufacturer_id = i, m_data = bs\<rparr>" "\<lambda>i. i"
  by unfold_locales simp_all

interpretation svc: keyed_data "\<lambda>s. u128 (sd_uuid s)" sd_data "\<lambda>bs s. s\<lparr>sd_data := bs\<rparr>"
  "\<lambda>u bs. \<lparr>sd_uuid = u, sd_data = bs\<rparr>" u128
  by unfold_locales simp_all

section \<open>Properties\<close>

text \<open>C20.  \<^verbatim>\<open>bt_ad_generate\<close>: the length that it computes beforehand is the number of bytes that it writes; up to
  31 bytes it returns them without an access outside the buffer, and reading them as length, type and payload
  gives exactly one structure per kind of UUID present, per manufacturer and per service data; beyond 31
  bytes it returns NULL.\<close>

theorem ad_generate_roundtrip:
  assumes "ad_ok ad" "length (ad_bytes ad) < 2 ^ 64"
  shows "\<exists>out. bt_ad_generate True (Some ad) = Some (out, Some (of_nat (length (ad_bytes ad))))
    \<and> (case out of None \<Rightarrow> 31 < length (ad_bytes ad)
         | Some bs \<Rightarrow> length bs = length (ad_bytes ad) \<and> length bs \<le> 31 \<and> parse_ad bs = Some (ad_structs ad))"
proof -
  let ?n = "length (ad_bytes ad)"
  have n: "unat (of_nat ?n :: size_t) = ?n"
    using assms(2) by (simp only: unat_of_nat) simp
  have lt: "MAX_ADV_DATA_LEN < of_nat ?n \<longleftrightarrow> 31 < ?n"
    unfolding word_less_nat_alt n by (simp add: MAX_ADV_DATA_LEN_def)
  show ?thesis
  proof (cases "31 < ?n")
    case True
    then show ?thesis
      using lt by (simp add: bt_ad_generate_def calculate_length_val [OF assms(1)] Let_def)
  next
    case False
    have "parse_ad (ad_bytes ad) = Some (ad_structs ad)"
      unfolding ad_bytes_def using length_flat_mem [of _ "ad_structs ad"] False
      by (intro parse_ad_flat) (fastforce simp: ad_bytes_def)
    moreover obtain st where "(serialize_service_uuids (service_uuids ad) (replicate ?n 0, 0)
        \<bind> (\<lambda>st. serialize_solicit_uuids (solicit_uuids ad) st
        \<bind> (\<lambda>st. serialize_manuf_data (manufacturer_data ad) st \<bind> serialize_service_data (service_data ad)))) = Some st"
        "fst st = ad_bytes ad"
      using writesD [OF writes_ad [OF assms(1)], of "[]" "replicate ?n 0"] False by auto
    ultimately have "bt_ad_generate True (Some ad) = Some (Some (ad_bytes ad), Some (of_nat ?n))"
      using lt False n by (cases st) (auto simp: bt_ad_generate_def calculate_length_val [OF assms(1)] Let_def bind_eq_Some_conv)
    then show ?thesis
      using False \<open>parse_ad (ad_bytes ad) = Some (ad_structs ad)\<close> by simp
  qed
qed

theorem ad_generate_roundtrip_witness:
  "\<exists>bs. bt_ad_generate True (Some \<lparr>ref_count = 1, service_uuids = [BT_UUID16 0x180F, BT_UUID32 1, BT_UUID16 0x180A],
       manufacturer_data = [\<lparr>manufacturer_id = 0x02E5, m_data = [7]\<rparr>], solicit_uuids = [], service_data = []\<rparr>)
     = Some (Some bs, Some 17)"
  using ad_generate_roundtrip [of "\<lparr>ref_count = 1, service_uuids = [BT_UUID16 0x180F, BT_UUID32 1, BT_UUID16 0x180A],
       manufacturer_data = [\<lparr>manufacturer_id = 0x02E5, m_data = [7]\<rparr>], solicit_uuids = [], service_data = []\<rparr>"]
  by (auto simp: ad_ok_def ad_bytes_def ad_structs_def uuid_structs_def uuid_le_def split: option.splits)

text \<open>Removal from the advertising data is wrong.  \<^verbatim>\<open>uuid_match\<close> returns the comparison itself, so that
  removing a UUID removes the first one that differs from it and leaves the UUID in place; and
  \<^verbatim>\<open>bt_ad_remove_manufacturer_data\<close> follows the number of the manufacturer as a pointer as soon as there is
  an element to compare.\<close>

theorem ad_remove_wrong:
  assumes "\<forall>v\<in>set (service_uuids ad). uuid_ok v" "uuid_ok u" "manufacturer_data ad \<noteq> []"
  shows "bt_ad_remove_service_uuid (Some ad) (Some u)
      = Some (\<exists>v\<in>set (service_uuids ad). u128 v \<noteq> u128 u,
          Some (ad\<lparr>service_uuids := remove_first (\<lambda>v. u128 v \<noteq> u128 u) (service_uuids ad)\<rparr>))
    \<and> bt_ad_remove_manufacturer_data (Some ad) i = None"
proof
  have "remove_if (\<lambda>v. uuid_match v u) (service_uuids ad) = Some (find (\<lambda>v. u128 v \<noteq> u128 u) (service_uuids ad),
      remove_first (\<lambda>v. u128 v \<noteq> u128 u) (service_uuids ad))"
    using assms(1,2) by (intro remove_if_defined) (auto simp: uuid_match_def uuid_cmp_u128)
  then show "bt_ad_remove_service_uuid (Some ad) (Some u)
      = Some (\<exists>v\<in>set (service_uuids ad). u128 v \<noteq> u128 u,
          Some (ad\<lparr>service_uuids := remove_first (\<lambda>v. u128 v \<noteq> u128 u) (service_uuids ad)\<rparr>))"
    by (simp add: bt_ad_remove_service_uuid_def queue_remove_uuid_def find_not_None [simplified])
  show "bt_ad_remove_manufacturer_data (Some ad) i = None"
    using assms(3) by (cases "manufacturer_data ad") (simp_all add: bt_ad_remove_manufacturer_data_def manuf_match_def)
qed

theorem ad_remove_wrong_witness:
  "bt_ad_remove_service_uuid (Some \<lparr>ref_count = 1, service_uuids = [BT_UUID16 1, BT_UUID16 2],
       manufacturer_data = [\<lparr>manufacturer_id = 1, m_data = []\<rparr>], solicit_uuids = [], service_data = []\<rparr>) (Some (BT_UUID16 2))
     = Some (True, Some \<lparr>ref_count = 1, service_uuids = [BT_UUID16 2],
       manufacturer_data = [\<lparr>manufacturer_id = 1, m_data = []\<rparr>], solicit_uuids = [], service_data = []\<rparr>)"
proof -
  have "u128 (BT_UUID16 1) \<noteq> u128 (BT_UUID16 2)"
    unfolding u128_inj by simp
  then show ?thesis
    using ad_remove_wrong [of "\<lparr>ref_count = 1, service_uuids = [BT_UUID16 1, BT_UUID16 2],
       manufacturer_data = [\<lparr>manufacturer_id = 1, m_data = []\<rparr>], solicit_uuids = [], service_data = []\<rparr>" "BT_UUID16 2"]
    by (simp del: u128.simps)
qed

definition ad_keys_ok :: "bt_ad \<Rightarrow> bool" where
  "ad_keys_ok ad \<longleftrightarrow> distinct (map manufacturer_id (manufacturer_data ad))
     \<and> distinct (map (\<lambda>s. u128 (sd_uuid s)) (service_data ad)) \<and> (\<forall>s\<in>set (service_data ad). uuid_ok (sd_uuid s))"

abbreviation manuf_map :: "bt_ad \<Rightarrow> u16 \<rightharpoonup> bytes" where
  "manuf_map ad \<equiv> keyed_map manufacturer_id m_data (manufacturer_data ad)"

abbreviation svc_map :: "bt_ad \<Rightarrow> bytes \<rightharpoonup> bytes" where
  "svc_map ad \<equiv> keyed_map (\<lambda>s. u128 (sd_uuid s)) sd_data (service_data ad)"

text \<open>C26.  The manufacturer data and the service data of an advertisement are maps, from the manufacturer and from
  the 128-bit UUID to bytes: adding data that fits an advertisement with its header sets the entry of the key and
  keeps the others and reports whether it changed, other data is refused; a key stays unique.\<close>

theorem ad_data_maps:
  assumes "ad_keys_ok ad" "unat len \<le> length data" "uuid_ok u"
  shows "(\<exists>r ad'. bt_ad_add_manufacturer_data True (Some ad) i data len = Some (r, Some ad')
      \<and> (if unat len \<le> 27 then manuf_map ad' = (manuf_map ad)(i \<mapsto> take (unat len) data)
            \<and> r = (manuf_map ad i \<noteq> Some (take (unat len) data)) \<and> ad_keys_ok ad' \<and> svc_map ad' = svc_map ad
         else r = False \<and> ad' = ad))
    \<and> (\<exists>r ad'. bt_ad_add_service_data True (Some ad) u data len = Some (r, Some ad')
      \<and> (if unat len + length (uuid_le u) \<le> 29 then svc_map ad' = (svc_map ad)(u128 u \<mapsto> take (unat len) data)
            \<and> r = (svc_map ad (u128 u) \<noteq> Some (take (unat len) data)) \<and> distinct (map (\<lambda>s. u128 (sd_uuid s)) (service_data ad'))
            \<and> manuf_map ad' = manuf_map ad
         else r = False \<and> ad' = ad))"
proof
  have ok: "distinct (map manufacturer_id (manufacturer_data ad))" "distinct (map (\<lambda>s. u128 (sd_uuid s)) (service_data ad))"
      "\<forall>s\<in>set (service_data ad). uuid_ok (sd_uuid s)"
    using assms(1) by (simp_all add: ad_keys_ok_def)
  have m: "MAX_ADV_DATA_LEN - 2 - 2 < len \<longleftrightarrow> \<not> unat len \<le> 27"
    by (simp add: MAX_ADV_DATA_LEN_def word_less_nat_alt not_le)
  have s: "MAX_ADV_DATA_LEN - 2 - of_int (bt_uuid_len u) < len \<longleftrightarrow> \<not> unat len + length (uuid_le u) \<le> 29"
    using assms(3) by (cases u) (auto simp: MAX_ADV_DATA_LEN_def bt_uuid_len_def uuid_le_def word_less_nat_alt not_le)
  obtain j r q where "queue_find_in (\<lambda>m. Some (manufacturer_id_data_match i m)) (manufacturer_data ad) = Some j"
      "store_data True (manufacturer_data ad) j m_data (\<lambda>bs m. m\<lparr>m_data := bs\<rparr>) (\<lambda>bs. \<lparr>manufacturer_id = i, m_data = bs\<rparr>) data len
        = Some (r, q)"
      "distinct (map manufacturer_id q)" "keyed_map manufacturer_id m_data q = (manuf_map ad)(i \<mapsto> take (unat len) data)"
      "r = (manuf_map ad i \<noteq> Some (take (unat len) data))"
    using manuf.store_data_map [OF ok(1) assms(2), of "\<lambda>m. Some (manufacturer_id_data_match i m)" i]
    by (auto simp: manufacturer_id_data_match_def)
  then show "\<exists>r ad'. bt_ad_add_manufacturer_data True (Some ad) i data len = Some (r, Some ad')
      \<and> (if unat len \<le> 27 then manuf_map ad' = (manuf_map ad)(i \<mapsto> take (unat len) data)
            \<and> r = (manuf_map ad i \<noteq> Some (take (unat len) data)) \<and> ad_keys_ok ad' \<and> svc_map ad' = svc_map ad
         else r = False \<and> ad' = ad)"
    using ok m by (auto simp: bt_ad_add_manufacturer_data_def ad_keys_ok_def)
  have f: "\<forall>x\<in>set (service_data ad). service_uuid_match u x = Some (u128 (sd_uuid x) = u128 u)"
    using ok(3) assms(3) by (simp add: service_uuid_match_def uuid_cmp_u128)
  obtain j r q where "queue_find_in (service_uuid_match u) (service_data ad) = Some j"
      "store_data True (service_data ad) j sd_data (\<lambda>bs s. s\<lparr>sd_data := bs\<rparr>) (\<lambda>bs. \<lparr>sd_uuid = u, sd_data = bs\<rparr>) data len
        = Some (r, q)"
      "distinct (map (\<lambda>s. u128 (sd_uuid s)) q)"
      "keyed_map (\<lambda>s. u128 (sd_uuid s)) sd_data q = (svc_map ad)(u128 u \<mapsto> take (unat len) data)"
      "r = (svc_map ad (u128 u) \<noteq> Some (take (unat len) data))"
    using svc.store_data_map [OF ok(2) assms(2) f] by blast
  then show "\<exists>r ad'. bt_ad_add_service_data True (Some ad) u data len = Some (r, Some ad')
      \<and> (if unat len + length (uuid_le u) \<le> 29 then svc_map ad' = (svc_map ad)(u128 u \<mapsto> take (unat len) data)
            \<and> r = (svc_map ad (u128 u) \<noteq> Some (take (unat len) data)) \<and> distinct (map (\<lambda>s. u128 (sd_uuid s)) (service_data ad'))
            \<and> manuf_map ad' = manuf_map ad
         else r = False \<and> ad' = ad)"
    using s by (auto simp: bt_ad_add_service_data_def)
qed

theorem ad_data_maps_witness:
  "\<exists>ad. bt_ad_add_manufacturer_data True bt_ad_new 0x02E5 [1, 2, 3] 2 = Some (True, Some ad) \<and> manuf_map ad 0x02E5 = Some [1, 2]"
  using ad_data_maps [where ad = "\<lparr>ref_count = 1, service_uuids = [], manufacturer_data = [], solicit_uuids = [], service_data = []\<rparr>"
      and len = 2 and data = "[1, 2, 3]" and u = "BT_UUID16 0" and i = "0x02E5"]
  by (auto simp: bt_ad_new_def bt_ad_ref_def ad_keys_ok_def keyed_map_def)

end
