(* ===== verification/Gatt_Db.thy ===== *)
theory Gatt_Db
  imports Att_Types Bdaddr Qlist
begin

text \<open>
  The attribute database, \<^verbatim>\<open>bluez5/src/shared/gatt-db.c\<close>.  A database keeps a queue of services, each with an array of
  attribute pointers.  Queues are lists (theory \<open>Queue\<close>); a service is kept with its address, which is not used again
  after it was freed, and an attribute pointer is the address of its service with the index in the array.
  Following a pointer to a freed service or to an empty entry is \<open>None\<close>.  Callbacks are not run: the calls they
  would get are appended to \<open>db_log\<close>, and a call through NULL is \<open>None\<close>.  Allocation succeeds.
\<close>

section \<open>State\<close>

definition GATT_PRIM_SVC_UUID :: u16 where "GATT_PRIM_SVC_UUID = 0x2800"
definition GATT_SND_SVC_UUID :: u16 where "GATT_SND_SVC_UUID = 0x2801"
definition GATT_INCLUDE_UUID :: u16 where "GATT_INCLUDE_UUID = 0x2802"
definition GATT_CHARAC_UUID :: u16 where "GATT_CHARAC_UUID = 0x2803"

definition primary_service_uuid :: bt_uuid_t where "primary_service_uuid = BT_UUID16 GATT_PRIM_SVC_UUID"
definition secondary_service_uuid :: bt_uuid_t where "secondary_service_uuid = BT_UUID16 GATT_SND_SVC_UUID"
definition included_service_uuid :: bt_uuid_t where "included_service_uuid = BT_UUID16 GATT_INCLUDE_UUID"
definition characteristic_uuid :: bt_uuid_t where "characteristic_uuid = BT_UUID16 GATT_CHARAC_UUID"

definition ECANCELED :: int where "ECANCELED = 125"

type_synonym attr_ptr = "nat \<times> nat"

text \<open>\<^verbatim>\<open>struct pending_read\<close> and \<^verbatim>\<open>struct pending_write\<close>; functions and user data are numbers.\<close>

record pending =
  pd_id :: u32
  pd_timeout_id :: u32
  pd_func :: nat
  pd_user_data :: nat

record gatt_db_attribute =
  a_handle :: u16
  a_uuid :: bt_uuid_t
  a_permissions :: u32
  a_value_len :: u16
  a_value :: "bytes option"
  a_read_func :: "nat option"
  a_write_func :: "nat option"
  a_user_data :: nat
  a_read_id :: u32
  a_pending_reads :: "pending list"
  a_write_id :: u32
  a_pending_writes :: "pending list"

record gatt_db_service =
  s_active :: bool
  s_claimed :: bool
  s_num_handles :: u16
  s_attributes :: "gatt_db_attribute option list"

record notify =
  n_id :: u32
  n_service_added :: "nat option"
  n_service_removed :: "nat option"
  n_destroy :: "nat option"

datatype db_event =
    ServiceAdded nat attr_ptr
  | ServiceRemoved nat attr_ptr
  | NotifyDestroyed nat
  | TimeoutRemoved u32
  | ReadDone nat int "bytes option" nat
  | WriteDone nat int
  | ReadCalled nat u32 u16 u8
  | WriteCalled nat u32 u16 bytes u8

record gatt_db =
  db_ref_count :: int
  next_handle :: u16
  services :: "(nat \<times> gatt_db_service) list"
  notify_list :: "notify list"
  next_notify_id :: u32
  db_brk :: nat
  db_log :: "db_event list"

definition emit :: "db_event list \<Rightarrow> gatt_db \<Rightarrow> gatt_db" where
  "emit es db = db\<lparr>db_log := db_log db @ es\<rparr>"

text \<open>Following pointers.\<close>

definition service_at :: "gatt_db \<Rightarrow> nat \<Rightarrow> gatt_db_service option" where
  "service_at db p = map_of (services db) p"

definition array_at :: "gatt_db_service \<Rightarrow> nat \<Rightarrow> gatt_db_attribute option option" where
  "array_at s i = (if i < length (s_attributes s) then Some (s_attributes s ! i) else None)"

definition attr_of :: "gatt_db_service \<Rightarrow> nat \<Rightarrow> gatt_db_attribute option" where
  "attr_of s i = do { a \<leftarrow> array_at s i; a }"

definition attribute_at :: "gatt_db \<Rightarrow> attr_ptr \<Rightarrow> gatt_db_attribute option" where
  "attribute_at db a = do { s \<leftarrow> service_at db (fst a); attr_of s (snd a) }"

definition set_service :: "gatt_db \<Rightarrow> nat \<Rightarrow> gatt_db_service \<Rightarrow> gatt_db" where
  "set_service db p s = db\<lparr>services := map (\<lambda>(q, t). (q, if q = p then s else t)) (services db)\<rparr>"

definition set_entry :: "gatt_db_service \<Rightarrow> nat \<Rightarrow> gatt_db_attribute option \<Rightarrow> gatt_db_service" where
  "set_entry s i a = s\<lparr>s_attributes := (s_attributes s)[i := a]\<rparr>"

definition set_attribute :: "gatt_db \<Rightarrow> attr_ptr \<Rightarrow> gatt_db_attribute \<Rightarrow> gatt_db option" where
  "set_attribute db a x = do {
     s \<leftarrow> service_at db (fst a);
     Some (set_service db (fst a) (set_entry s (snd a) (Some x)))
   }"

section \<open>Attributes and their pending requests\<close>

definition timeout_events :: "pending \<Rightarrow> db_event list" where
  "timeout_events p = (if 0 < pd_timeout_id p then [TimeoutRemoved (pd_timeout_id p)] else [])"

definition pending_read_result :: "pending \<Rightarrow> int \<Rightarrow> bytes option \<Rightarrow> nat \<Rightarrow> db_event list" where
  "pending_read_result p err data len = timeout_events p @ [ReadDone (pd_func p) err data len]"

definition pending_read_free :: "pending \<Rightarrow> db_event list" where
  "pending_read_free p = pending_read_result p (- ECANCELED) None 0"

definition pending_write_result :: "pending \<Rightarrow> int \<Rightarrow> db_event list" where
  "pending_write_result p err = timeout_events p @ [WriteDone (pd_func p) err]"

definition pending_write_free :: "pending \<Rightarrow> db_event list" where
  "pending_write_free p = pending_write_result p (- ECANCELED)"

definition attribute_destroy :: "gatt_db_attribute option \<Rightarrow> db_event list" where
  "attribute_destroy attribute =
     (case attribute of
        None \<Rightarrow> []
      | Some a \<Rightarrow> concat (map pending_read_free (a_pending_reads a)) @ concat (map pending_write_free (a_pending_writes a)))"

definition new_attribute :: "u16 \<Rightarrow> bt_uuid_t \<Rightarrow> bytes option \<Rightarrow> u16 \<Rightarrow> gatt_db_attribute option" where
  "new_attribute handle type val len = do {
     value \<leftarrow> (if len \<noteq> 0 then do { v \<leftarrow> val; bs \<leftarrow> mem_read v 0 (unat len); Some (Some bs) } else Some None);
     Some \<lparr>a_handle = handle, a_uuid = type, a_permissions = 0, a_value_len = len, a_value = value,
        a_read_func = None, a_write_func = None, a_user_data = 0, a_read_id = 0, a_pending_reads = [],
        a_write_id = 0, a_pending_writes = []\<rparr>
   }"

section \<open>The database object and its observers\<close>

definition gatt_db_ref :: "gatt_db option \<Rightarrow> gatt_db option" where
  "gatt_db_ref db = map_option (\<lambda>d. d\<lparr>db_ref_count := db_ref_count d + 1\<rparr>) db"

definition gatt_db_new :: "gatt_db option" where
  "gatt_db_new = gatt_db_ref (Some \<lparr>db_ref_count = 0, next_handle = 0x0001, services = [], notify_list = [],
     next_notify_id = 0, db_brk = 0, db_log = []\<rparr>)"

definition notify_destroy :: "notify \<Rightarrow> db_event list" where
  "notify_destroy n = (case n_destroy n of None \<Rightarrow> [] | Some f \<Rightarrow> [NotifyDestroyed f])"

definition handle_notify :: "attr_ptr \<Rightarrow> bool \<Rightarrow> notify \<Rightarrow> db_event option" where
  "handle_notify attr added n =
     (if added then map_option (\<lambda>f. ServiceAdded f attr) (n_service_added n)
      else map_option (\<lambda>f. ServiceRemoved f attr) (n_service_removed n))"

text \<open>The reference that is taken around the calls is given back, so that the count does not change.\<close>

definition notify_service_changed :: "gatt_db \<Rightarrow> nat \<Rightarrow> bool \<Rightarrow> gatt_db option" where
  "notify_service_changed db p added = do {
     es \<leftarrow> those (map (handle_notify (p, 0) added) (notify_list db));
     Some (emit es db)
   }"

definition gatt_db_service_destroy :: "gatt_db \<Rightarrow> nat \<times> gatt_db_service \<Rightarrow> gatt_db option" where
  "gatt_db_service_destroy db service = do {
     db \<leftarrow> (if s_active (snd service) then notify_service_changed db (fst service) False else Some db);
     Some (emit (concat (map attribute_destroy (take (unat (s_num_handles (snd service))) (s_attributes (snd service))))) db)
   }"

fun destroy_services :: "gatt_db \<Rightarrow> (nat \<times> gatt_db_service) list \<Rightarrow> gatt_db option" where
  "destroy_services db [] = Some db"
| "destroy_services db (s # ss) = do { db \<leftarrow> gatt_db_service_destroy db s; destroy_services db ss }"

text \<open>The result is the log of the calls; the database is gone.\<close>

definition gatt_db_destroy :: "gatt_db \<Rightarrow> db_event list option" where
  "gatt_db_destroy db = do {
     let db = emit (concat (map notify_destroy (notify_list db))) db;
     let db = db\<lparr>notify_list := []\<rparr>;
     db \<leftarrow> destroy_services db (services db);
     Some (db_log db)
   }"

text \<open>\<open>Inl\<close> is the log when the database has been freed.\<close>

definition gatt_db_unref :: "gatt_db \<Rightarrow> (db_event list + gatt_db) option" where
  "gatt_db_unref db =
     (if db_ref_count db - 1 \<noteq> 0 then Some (Inr (db\<lparr>db_ref_count := db_ref_count db - 1\<rparr>))
      else map_option Inl (gatt_db_destroy db))"

definition gatt_db_isempty :: "gatt_db option \<Rightarrow> bool" where
  "gatt_db_isempty db = (case db of None \<Rightarrow> True | Some d \<Rightarrow> services d = [])"

definition gatt_db_register ::
  "gatt_db \<Rightarrow> nat option \<Rightarrow> nat option \<Rightarrow> nat option \<Rightarrow> u32 \<times> gatt_db" where
  "gatt_db_register db service_added service_removed destroy =
     (if service_added = None \<and> service_removed = None then (0, db)
      else
        let i = (if next_notify_id db < 1 then 1 else next_notify_id db);
            n = \<lparr>n_id = i, n_service_added = service_added, n_service_removed = service_removed, n_destroy = destroy\<rparr>
        in (i, db\<lparr>next_notify_id := i + 1, notify_list := notify_list db @ [n]\<rparr>))"

definition gatt_db_unregister :: "gatt_db \<Rightarrow> u32 \<Rightarrow> bool \<times> gatt_db" where
  "gatt_db_unregister db i =
     (if i = 0 then (False, db)
      else (case find (\<lambda>n. n_id n = i) (notify_list db) of
              None \<Rightarrow> (False, db)
            | Some n \<Rightarrow> (True, emit (notify_destroy n) (db\<lparr>notify_list := remove1 n (notify_list db)\<rparr>))))"

section \<open>Services\<close>

text \<open>The bytes of a UUID and back; the length is that of the list.\<close>

definition uuid_to_le :: "bt_uuid_t \<Rightarrow> bytes option" where
  "uuid_to_le uuid =
     (case uuid of
        BT_UUID16 v \<Rightarrow> Some (le16 v)
      | _ \<Rightarrow> do {
          u \<leftarrow> bt_uuid_to_uuid128 uuid BT_UUID_UNSPEC;
          (case u of BT_UUID128 b \<Rightarrow> bswap_128 b | _ \<Rightarrow> None)
        })"

definition le_to_uuid :: "bytes \<Rightarrow> bt_uuid_t option" where
  "le_to_uuid src =
     (if length src = 2 then Some (bt_uuid16_create (le16_of src))
      else if length src = 4 then Some (bt_uuid32_create (le32_of src))
      else if length src \<noteq> 16 then None
      else map_option bt_uuid128_create (bswap_128 src))"

definition gatt_db_service_create :: "bt_uuid_t \<Rightarrow> u16 \<Rightarrow> bool \<Rightarrow> u16 \<Rightarrow> gatt_db_service option option" where
  "gatt_db_service_create uuid handle primary num_handles =
     (if num_handles < 1 then Some None
      else do {
        let type = (if primary then primary_service_uuid else secondary_service_uuid);
        value \<leftarrow> uuid_to_le uuid;
        a \<leftarrow> new_attribute handle type (Some value) (of_nat (length value));
        Some (Some \<lparr>s_active = False, s_claimed = False, s_num_handles = 0,
           s_attributes = (replicate (unat num_handles) None)[0 := Some a]\<rparr>)
      })"

definition gatt_db_service_get_handles :: "gatt_db_service \<Rightarrow> (u16 \<times> u16) option" where
  "gatt_db_service_get_handles s = do {
     a \<leftarrow> attr_of s 0;
     Some (a_handle a, a_handle a + s_num_handles s - 1)
   }"

definition gatt_db_remove_service :: "gatt_db option \<Rightarrow> attr_ptr option \<Rightarrow> (bool \<times> gatt_db option) option" where
  "gatt_db_remove_service db attrib =
     (case (db, attrib) of
        (Some d, Some (p, i)) \<Rightarrow> do {
          s \<leftarrow> service_at d p;
          d \<leftarrow> gatt_db_service_destroy (d\<lparr>services := filter (\<lambda>(q, t). q \<noteq> p) (services d)\<rparr>) (p, s);
          Some (True, Some d)
        }
      | _ \<Rightarrow> Some (False, db))"

definition gatt_db_clear :: "gatt_db option \<Rightarrow> (bool \<times> gatt_db option) option" where
  "gatt_db_clear db =
     (case db of
        None \<Rightarrow> Some (False, None)
      | Some d \<Rightarrow> do {
          d \<leftarrow> destroy_services (d\<lparr>services := []\<rparr>) (services d);
          Some (True, Some (d\<lparr>next_handle := 0\<rparr>))
        })"

definition match_range :: "u16 \<Rightarrow> u16 \<Rightarrow> nat \<times> gatt_db_service \<Rightarrow> bool option" where
  "match_range start_handle end_handle service = do {
     (svc_start, svc_end) \<leftarrow> gatt_db_service_get_handles (snd service);
     Some (svc_start \<le> end_handle \<and> start_handle \<le> svc_end)
   }"

text \<open>\<^verbatim>\<open>queue_remove_all\<close> with a match function: the elements that match, in order, and the rest.\<close>

fun partition_opt :: "('a \<Rightarrow> bool option) \<Rightarrow> 'a list \<Rightarrow> ('a list \<times> 'a list) option" where
  "partition_opt f [] = Some ([], [])"
| "partition_opt f (x # xs) = do {
     m \<leftarrow> f x;
     (ys, ns) \<leftarrow> partition_opt f xs;
     Some (if m then (x # ys, ns) else (ys, x # ns))
   }"

definition gatt_db_clear_range :: "gatt_db option \<Rightarrow> u16 \<Rightarrow> u16 \<Rightarrow> (bool \<times> gatt_db option) option" where
  "gatt_db_clear_range db start_handle end_handle =
     (case db of
        None \<Rightarrow> Some (False, None)
      | Some d \<Rightarrow>
          if end_handle < start_handle then Some (False, db)
          else do {
            (gone, rest) \<leftarrow> partition_opt (match_range start_handle end_handle) (services d);
            d \<leftarrow> destroy_services (d\<lparr>services := rest\<rparr>) gone;
            Some (True, Some d)
          })"

text \<open>The loop: the overlapping service, if any, and the one to insert after.\<close>

fun find_insert_loop ::
  "(nat \<times> gatt_db_service) list \<Rightarrow> u16 \<Rightarrow> u16 \<Rightarrow> nat option \<Rightarrow> (nat option \<times> nat option) option" where
  "find_insert_loop [] start_handle end_handle after = Some (None, after)"
| "find_insert_loop (service # entries) start_handle end_handle after = do {
     (cur_start, cur_end) \<leftarrow> gatt_db_service_get_handles (snd service);
     (if cur_start \<le> start_handle \<and> start_handle \<le> cur_end then Some (Some (fst service), after)
      else if cur_start \<le> end_handle \<and> end_handle \<le> cur_end then Some (Some (fst service), after)
      else if end_handle < cur_start then Some (None, after)
      else find_insert_loop entries start_handle end_handle (Some (fst service)))
   }"

definition find_insert_loc :: "gatt_db \<Rightarrow> u16 \<Rightarrow> u16 \<Rightarrow> (nat option \<times> nat option) option" where
  "find_insert_loc db start_handle end_handle = find_insert_loop (services db) start_handle end_handle None"

text \<open>Functions of an attribute that use only its service take the service, \<open>None\<close> for NULL; \<open>Some None\<close> is the result
  false.\<close>

definition gatt_db_attribute_get_service_uuid :: "gatt_db_service option \<Rightarrow> bt_uuid_t option option" where
  "gatt_db_attribute_get_service_uuid attrib =
     (case attrib of
        None \<Rightarrow> Some None
      | Some s \<Rightarrow> do {
          a \<leftarrow> attr_of s 0;
          (if a_value_len a = 2 then do { v \<leftarrow> a_value a; bs \<leftarrow> mem_read v 0 2; Some (Some (bt_uuid16_create (le16_of bs))) }
           else if a_value_len a = 16 then do { v \<leftarrow> a_value a; b \<leftarrow> bswap_128 v; Some (Some (bt_uuid128_create b)) }
           else Some None)
        })"

text \<open>\<^verbatim>\<open>queue_push_after\<close> by the address of the service.\<close>

fun push_after :: "nat \<Rightarrow> nat \<times> gatt_db_service \<Rightarrow> (nat \<times> gatt_db_service) list \<Rightarrow> (nat \<times> gatt_db_service) list" where
  "push_after p s [] = []"
| "push_after p s (t # ts) = (if fst t = p then t # s # ts else t # push_after p s ts)"

text \<open>The comparison of an overlapping service with the request.\<close>

definition service_matches :: "gatt_db_service \<Rightarrow> u16 \<Rightarrow> bt_uuid_t \<Rightarrow> bool \<Rightarrow> u16 \<Rightarrow> bool option" where
  "service_matches s handle uuid primary num_handles = do {
     a \<leftarrow> attr_of s 0;
     let type = (if primary then primary_service_uuid else secondary_service_uuid);
     value \<leftarrow> gatt_db_attribute_get_service_uuid (Some s);
     c1 \<leftarrow> bt_uuid_cmp (a_uuid a) type;
     (if c1 \<noteq> 0 then Some False
      else do {
        v \<leftarrow> value;
        c2 \<leftarrow> bt_uuid_cmp v uuid;
        Some (c2 = 0 \<and> s_num_handles s = num_handles \<and> a_handle a = handle)
      })
   }"

definition gatt_db_insert_service ::
  "gatt_db option \<Rightarrow> u16 \<Rightarrow> bt_uuid_t \<Rightarrow> bool \<Rightarrow> u16 \<Rightarrow> (attr_ptr option \<times> gatt_db option) option" where
  "gatt_db_insert_service db handle uuid primary num_handles =
     (case db of
        None \<Rightarrow> Some (None, None)
      | Some d \<Rightarrow>
          if handle < 1 then Some (None, db)
          else if num_handles < 1 \<or> 0xFFFF < unat handle + unat num_handles - 1 then Some (None, db)
          else do {
            (service, after) \<leftarrow> find_insert_loc d handle (handle + num_handles - 1);
            (case service of
               Some p \<Rightarrow> do {
                 s \<leftarrow> service_at d p;
                 m \<leftarrow> service_matches s handle uuid primary num_handles;
                 Some (if m then Some (p, 0) else None, db)
               }
             | None \<Rightarrow> do {
                 created \<leftarrow> gatt_db_service_create uuid handle primary num_handles;
                 (case created of
                    None \<Rightarrow> Some (None, db)
                  | Some s \<Rightarrow>
                      let s = s\<lparr>s_num_handles := num_handles\<rparr>;
                          entry = (db_brk d, s);
                          q = (case after of Some p \<Rightarrow> push_after p entry (services d) | None \<Rightarrow> entry # services d)
                      in Some (Some (db_brk d, 0),
                           Some (d\<lparr>services := q, db_brk := Suc (db_brk d),
                              next_handle := of_nat (max (unat handle + unat num_handles) (unat (next_handle d)))\<rparr>)))
               })
          })"

definition gatt_db_add_service ::
  "gatt_db \<Rightarrow> bt_uuid_t \<Rightarrow> bool \<Rightarrow> u16 \<Rightarrow> (attr_ptr option \<times> gatt_db option) option" where
  "gatt_db_add_service db uuid primary num_handles =
     gatt_db_insert_service (Some db) (next_handle db) uuid primary num_handles"

section \<open>Characteristics, descriptors and included services\<close>

text \<open>The search for the first free entry below the limit.\<close>

fun free_index :: "gatt_db_attribute option list \<Rightarrow> nat \<Rightarrow> nat" where
  "free_index (Some a # as) (Suc n) = Suc (free_index as n)"
| "free_index _ _ = 0"

definition get_attribute_index :: "gatt_db_service \<Rightarrow> nat \<Rightarrow> nat" where
  "get_attribute_index s end_offset =
     (let limit = unat (s_num_handles s) - end_offset;
          i = free_index (s_attributes s) limit
      in if i = limit then 0 else i)"

definition get_handle_at_index :: "gatt_db_service \<Rightarrow> nat \<Rightarrow> u16 option" where
  "get_handle_at_index s i = map_option a_handle (attr_of s i)"

definition attribute_update :: "gatt_db_service \<Rightarrow> nat \<Rightarrow> gatt_db_service option" where
  "attribute_update s i = do {
     previous_handle \<leftarrow> get_handle_at_index s (i - 1);
     a \<leftarrow> attr_of s i;
     Some (set_entry s i (Some (a\<lparr>a_handle := previous_handle + 1\<rparr>)))
   }"

definition set_attribute_data ::
  "nat option \<Rightarrow> nat option \<Rightarrow> u32 \<Rightarrow> nat \<Rightarrow> gatt_db_attribute \<Rightarrow> gatt_db_attribute" where
  "set_attribute_data read_func write_func permissions user_data a =
     a\<lparr>a_permissions := permissions, a_read_func := read_func, a_write_func := write_func, a_user_data := user_data\<rparr>"

text \<open>The operations on a service return the index of the new attribute, \<open>None\<close> for NULL, and the service.\<close>

definition service_insert_characteristic ::
  "gatt_db_service \<Rightarrow> u16 \<Rightarrow> bt_uuid_t \<Rightarrow> u32 \<Rightarrow> u8 \<Rightarrow> nat option \<Rightarrow> nat option \<Rightarrow> nat
     \<Rightarrow> (nat option \<times> gatt_db_service) option" where
  "service_insert_characteristic s handle uuid permissions properties read_func write_func user_data = do {
     first \<leftarrow> get_handle_at_index s 0;
     (if handle \<noteq> 0 \<and> handle \<le> first then Some (None, s)
      else if handle = 0xFFFF then Some (None, s)
      else do {
        let i = get_attribute_index s 1;
        (if i = 0 then Some (None, s)
         else do {
           handle \<leftarrow> (if handle = 0 then map_option (\<lambda>h. h + 2) (get_handle_at_index s (i - 1)) else Some handle);
           le \<leftarrow> uuid_to_le uuid;
           let value = [properties] @ le16 handle @ le;
           decl \<leftarrow> new_attribute (handle - 1) characteristic_uuid (Some value) (of_nat (length value));
           let s = set_entry s i (Some decl);
           val \<leftarrow> new_attribute handle uuid None 0;
           _ \<leftarrow> array_at s (i + 1);
           let s = set_entry s (i + 1) (Some (set_attribute_data read_func write_func permissions user_data val));
           Some (Some (i + 1), s)
         })
      })
   }"

definition on_service ::
  "gatt_db \<Rightarrow> nat \<Rightarrow> (gatt_db_service \<Rightarrow> (nat option \<times> gatt_db_service) option) \<Rightarrow> (attr_ptr option \<times> gatt_db) option" where
  "on_service db p f = do {
     s \<leftarrow> service_at db p;
     (i, s) \<leftarrow> f s;
     Some (map_option (Pair p) i, set_service db p s)
   }"

definition gatt_db_service_insert_characteristic ::
  "gatt_db \<Rightarrow> attr_ptr option \<Rightarrow> u16 \<Rightarrow> bt_uuid_t \<Rightarrow> u32 \<Rightarrow> u8 \<Rightarrow> nat option \<Rightarrow> nat option \<Rightarrow> nat
     \<Rightarrow> (attr_ptr option \<times> gatt_db) option" where
  "gatt_db_service_insert_characteristic db attrib handle uuid permissions properties read_func write_func user_data =
     (case attrib of
        None \<Rightarrow> Some (None, db)
      | Some (p, _) \<Rightarrow>
          if handle = 0 then Some (None, db)
          else on_service db p (\<lambda>s. service_insert_characteristic s handle uuid permissions properties read_func write_func user_data))"

definition gatt_db_service_add_characteristic ::
  "gatt_db \<Rightarrow> attr_ptr option \<Rightarrow> bt_uuid_t \<Rightarrow> u32 \<Rightarrow> u8 \<Rightarrow> nat option \<Rightarrow> nat option \<Rightarrow> nat
     \<Rightarrow> (attr_ptr option \<times> gatt_db) option" where
  "gatt_db_service_add_characteristic db attrib uuid permissions properties read_func write_func user_data =
     (case attrib of
        None \<Rightarrow> Some (None, db)
      | Some (p, _) \<Rightarrow>
          on_service db p (\<lambda>s. service_insert_characteristic s 0 uuid permissions properties read_func write_func user_data))"

definition service_insert_descriptor ::
  "gatt_db_service \<Rightarrow> u16 \<Rightarrow> bt_uuid_t \<Rightarrow> u32 \<Rightarrow> nat option \<Rightarrow> nat option \<Rightarrow> nat
     \<Rightarrow> (nat option \<times> gatt_db_service) option" where
  "service_insert_descriptor s handle uuid permissions read_func write_func user_data = do {
     let i = get_attribute_index s 0;
     (if i = 0 then Some (None, s)
      else do {
        first \<leftarrow> get_handle_at_index s 0;
        (if handle \<noteq> 0 \<and> handle \<le> first then Some (None, s)
         else do {
           handle \<leftarrow> (if handle = 0 then map_option (\<lambda>h. h + 1) (get_handle_at_index s (i - 1)) else Some handle);
           a \<leftarrow> new_attribute handle uuid None 0;
           Some (Some i, set_entry s i (Some (set_attribute_data read_func write_func permissions user_data a)))
         })
      })
   }"

definition gatt_db_service_insert_descriptor ::
  "gatt_db \<Rightarrow> attr_ptr option \<Rightarrow> u16 \<Rightarrow> bt_uuid_t \<Rightarrow> u32 \<Rightarrow> nat option \<Rightarrow> nat option \<Rightarrow> nat
     \<Rightarrow> (attr_ptr option \<times> gatt_db) option" where
  "gatt_db_service_insert_descriptor db attrib handle uuid permissions read_func write_func user_data =
     (case attrib of
        None \<Rightarrow> Some (None, db)
      | Some (p, _) \<Rightarrow>
          if handle = 0 then Some (None, db)
          else on_service db p (\<lambda>s. service_insert_descriptor s handle uuid permissions read_func write_func user_data))"

definition gatt_db_service_add_descriptor ::
  "gatt_db \<Rightarrow> attr_ptr option \<Rightarrow> bt_uuid_t \<Rightarrow> u32 \<Rightarrow> nat option \<Rightarrow> nat option \<Rightarrow> nat
     \<Rightarrow> (attr_ptr option \<times> gatt_db) option" where
  "gatt_db_service_add_descriptor db attrib uuid permissions read_func write_func user_data =
     (case attrib of
        None \<Rightarrow> Some (None, db)
      | Some (p, _) \<Rightarrow>
          on_service db p (\<lambda>s. service_insert_descriptor s 0 uuid permissions read_func write_func user_data))"

text \<open>The value of an include declaration and the new attribute of the service \<open>s\<close>.\<close>

definition service_add_included :: "gatt_db_service \<Rightarrow> gatt_db_service \<Rightarrow> (nat option \<times> gatt_db_service) option" where
  "service_add_included included s = do {
     incl \<leftarrow> attr_of included 0;
     let included_handle = a_handle incl;
     let value = le16 included_handle @ le16 (included_handle + s_num_handles included - 1);
     value \<leftarrow> (if a_value_len incl = 2 then do { v \<leftarrow> a_value incl; bs \<leftarrow> mem_read v 0 2; Some (value @ bs) } else Some value);
     let i = get_attribute_index s 0;
     (if i = 0 then Some (None, s)
      else do {
        a \<leftarrow> new_attribute 0 included_service_uuid (Some value) (of_nat (length value));
        let s = set_entry s i (Some (set_attribute_data None None 0 0 a));
        s \<leftarrow> attribute_update s i;
        Some (Some i, s)
      })
   }"

definition gatt_db_service_add_included ::
  "gatt_db \<Rightarrow> attr_ptr option \<Rightarrow> attr_ptr option \<Rightarrow> (attr_ptr option \<times> gatt_db) option" where
  "gatt_db_service_add_included db attrib include =
     (case (attrib, include) of
        (Some (p, _), Some (q, _)) \<Rightarrow> do {
          included \<leftarrow> service_at db q;
          on_service db p (service_add_included included)
        }
      | _ \<Rightarrow> Some (None, db))"

definition gatt_db_service_set_active :: "gatt_db \<Rightarrow> attr_ptr option \<Rightarrow> bool \<Rightarrow> (bool \<times> gatt_db) option" where
  "gatt_db_service_set_active db attrib active =
     (case attrib of
        None \<Rightarrow> Some (False, db)
      | Some (p, _) \<Rightarrow> do {
          s \<leftarrow> service_at db p;
          (if s_active s = active then Some (True, db)
           else do {
             db \<leftarrow> notify_service_changed (set_service db p (s\<lparr>s_active := active\<rparr>)) p active;
             Some (True, db)
           })
        })"

definition gatt_db_service_get_active :: "gatt_db \<Rightarrow> attr_ptr option \<Rightarrow> bool option" where
  "gatt_db_service_get_active db attrib =
     (case attrib of None \<Rightarrow> Some False | Some (p, _) \<Rightarrow> map_option s_active (service_at db p))"

definition gatt_db_service_set_claimed :: "gatt_db \<Rightarrow> attr_ptr option \<Rightarrow> bool \<Rightarrow> (bool \<times> gatt_db) option" where
  "gatt_db_service_set_claimed db attrib claimed =
     (case attrib of
        None \<Rightarrow> Some (False, db)
      | Some (p, _) \<Rightarrow> do { s \<leftarrow> service_at db p; Some (True, set_service db p (s\<lparr>s_claimed := claimed\<rparr>)) })"

definition gatt_db_service_get_claimed :: "gatt_db \<Rightarrow> attr_ptr option \<Rightarrow> bool option" where
  "gatt_db_service_get_claimed db attrib =
     (case attrib of None \<Rightarrow> Some False | Some (p, _) \<Rightarrow> map_option s_claimed (service_at db p))"

section \<open>Queries\<close>

text \<open>A queue or the calls of a function that a query produces is the list of the attributes.\<close>

fun read_by_group_loop ::
  "(nat \<times> gatt_db_service) list \<Rightarrow> u16 \<Rightarrow> u16 \<Rightarrow> bt_uuid_t \<Rightarrow> u16 \<Rightarrow> attr_ptr list \<Rightarrow> attr_ptr list option" where
  "read_by_group_loop [] start_handle end_handle type uuid_size queue = Some queue"
| "read_by_group_loop ((p, s) # entries) start_handle end_handle type uuid_size queue =
     (if \<not> s_active s then read_by_group_loop entries start_handle end_handle type uuid_size queue
      else do {
        a \<leftarrow> attr_of s 0;
        c \<leftarrow> bt_uuid_cmp type (a_uuid a);
        let grp_start = a_handle a;
        let grp_end = grp_start + s_num_handles s - 1;
        (if c \<noteq> 0 \<or> grp_end < start_handle \<or> end_handle < grp_start \<or> grp_start < start_handle
         then read_by_group_loop entries start_handle end_handle type uuid_size queue
         else if uuid_size \<noteq> 0 \<and> uuid_size \<noteq> a_value_len a then Some queue
         else read_by_group_loop entries start_handle end_handle type
                (if uuid_size = 0 then a_value_len a else uuid_size) (queue @ [(p, 0)]))
      })"

definition gatt_db_read_by_group_type ::
  "gatt_db \<Rightarrow> u16 \<Rightarrow> u16 \<Rightarrow> bt_uuid_t \<Rightarrow> attr_ptr list \<Rightarrow> attr_ptr list option" where
  "gatt_db_read_by_group_type db start_handle end_handle type queue =
     read_by_group_loop (services db) start_handle end_handle type 0 queue"

text \<open>The loops over the entries of a service, with the index of the first.\<close>

fun find_by_type_loop ::
  "nat \<Rightarrow> nat \<Rightarrow> gatt_db_attribute option list \<Rightarrow> u16 \<Rightarrow> u16 \<Rightarrow> bt_uuid_t \<Rightarrow> bytes option \<Rightarrow> attr_ptr list option" where
  "find_by_type_loop p i [] start_handle end_handle uuid value = Some []"
| "find_by_type_loop p i (None # as) start_handle end_handle uuid value =
     find_by_type_loop p (Suc i) as start_handle end_handle uuid value"
| "find_by_type_loop p i (Some a # as) start_handle end_handle uuid value =
     (if a_handle a < start_handle \<or> end_handle < a_handle a
      then find_by_type_loop p (Suc i) as start_handle end_handle uuid value
      else do {
        c \<leftarrow> bt_uuid_cmp uuid (a_uuid a);
        (if c \<noteq> 0 then find_by_type_loop p (Suc i) as start_handle end_handle uuid value
         else do {
           differs \<leftarrow> (case value of
               None \<Rightarrow> Some False
             | Some v \<Rightarrow> do { w \<leftarrow> (case a_value a of None \<Rightarrow> if v = [] then Some [] else None | Some w \<Rightarrow> Some w);
                             bs \<leftarrow> mem_read w 0 (length v); Some (memcmp bs v \<noteq> 0) });
           rest \<leftarrow> find_by_type_loop p (Suc i) as start_handle end_handle uuid value;
           Some (if differs then rest else (p, i) # rest)
         })
      })"

definition find_by_type ::
  "nat \<times> gatt_db_service \<Rightarrow> u16 \<Rightarrow> u16 \<Rightarrow> bt_uuid_t \<Rightarrow> bytes option \<Rightarrow> attr_ptr list option" where
  "find_by_type service start_handle end_handle uuid value =
     (if \<not> s_active (snd service) then Some []
      else find_by_type_loop (fst service) 0 (take (unat (s_num_handles (snd service))) (s_attributes (snd service)))
             start_handle end_handle uuid value)"

text \<open>\<^verbatim>\<open>queue_foreach\<close> with a function that collects attributes.\<close>

definition collect :: "('a \<Rightarrow> 'b list option) \<Rightarrow> 'a list \<Rightarrow> 'b list option" where
  "collect f xs = map_option concat (those (map f xs))"

text \<open>The number of results is the value of \<^verbatim>\<open>num_of_res\<close> at the end.\<close>

definition gatt_db_find_by_type ::
  "gatt_db \<Rightarrow> u16 \<Rightarrow> u16 \<Rightarrow> bt_uuid_t \<Rightarrow> (u32 \<times> attr_ptr list) option" where
  "gatt_db_find_by_type db start_handle end_handle type = do {
     as \<leftarrow> collect (\<lambda>s. find_by_type s start_handle end_handle type None) (services db);
     Some (of_nat (length as), as)
   }"

text \<open>Here \<^verbatim>\<open>num_of_res\<close> starts with whatever the stack holds, \<open>junk\<close>.\<close>

definition gatt_db_find_by_type_value ::
  "gatt_db \<Rightarrow> u32 \<Rightarrow> u16 \<Rightarrow> u16 \<Rightarrow> bt_uuid_t \<Rightarrow> bytes option \<Rightarrow> (u32 \<times> attr_ptr list) option" where
  "gatt_db_find_by_type_value db junk start_handle end_handle type value = do {
     as \<leftarrow> collect (\<lambda>s. find_by_type s start_handle end_handle type value) (services db);
     Some (junk + of_nat (length as), as)
   }"

fun read_by_type_loop ::
  "nat \<Rightarrow> nat \<Rightarrow> gatt_db_attribute option list \<Rightarrow> u16 \<Rightarrow> u16 \<Rightarrow> bt_uuid_t \<Rightarrow> attr_ptr list option" where
  "read_by_type_loop p i [] start_handle end_handle uuid = Some []"
| "read_by_type_loop p i (None # as) start_handle end_handle uuid = read_by_type_loop p (Suc i) as start_handle end_handle uuid"
| "read_by_type_loop p i (Some a # as) start_handle end_handle uuid =
     (if a_handle a < start_handle then read_by_type_loop p (Suc i) as start_handle end_handle uuid
      else if end_handle < a_handle a then Some []
      else do {
        c \<leftarrow> bt_uuid_cmp uuid (a_uuid a);
        rest \<leftarrow> read_by_type_loop p (Suc i) as start_handle end_handle uuid;
        Some (if c \<noteq> 0 then rest else (p, i) # rest)
      })"

definition read_by_type :: "nat \<times> gatt_db_service \<Rightarrow> u16 \<Rightarrow> u16 \<Rightarrow> bt_uuid_t \<Rightarrow> attr_ptr list option" where
  "read_by_type service start_handle end_handle uuid =
     (if \<not> s_active (snd service) then Some []
      else read_by_type_loop (fst service) 0 (take (unat (s_num_handles (snd service))) (s_attributes (snd service)))
             start_handle end_handle uuid)"

definition gatt_db_read_by_type ::
  "gatt_db \<Rightarrow> u16 \<Rightarrow> u16 \<Rightarrow> bt_uuid_t \<Rightarrow> attr_ptr list \<Rightarrow> attr_ptr list option" where
  "gatt_db_read_by_type db start_handle end_handle type queue =
     map_option ((@) queue) (collect (\<lambda>s. read_by_type s start_handle end_handle type) (services db))"

fun find_information_loop ::
  "nat \<Rightarrow> nat \<Rightarrow> gatt_db_attribute option list \<Rightarrow> u16 \<Rightarrow> u16 \<Rightarrow> attr_ptr list" where
  "find_information_loop p i [] start_handle end_handle = []"
| "find_information_loop p i (None # as) start_handle end_handle = find_information_loop p (Suc i) as start_handle end_handle"
| "find_information_loop p i (Some a # as) start_handle end_handle =
     (if a_handle a < start_handle then find_information_loop p (Suc i) as start_handle end_handle
      else if end_handle < a_handle a then []
      else (p, i) # find_information_loop p (Suc i) as start_handle end_handle)"

text \<open>The end of the service is computed in \<^verbatim>\<open>int\<close>.\<close>

definition find_information :: "nat \<times> gatt_db_service \<Rightarrow> u16 \<Rightarrow> u16 \<Rightarrow> attr_ptr list option" where
  "find_information service start_handle end_handle =
     (if \<not> s_active (snd service) then Some []
      else do {
        a \<leftarrow> attr_of (snd service) 0;
        (if int (unat (a_handle a)) + int (unat (s_num_handles (snd service))) - 1 < int (unat start_handle) then Some []
         else Some (find_information_loop (fst service) 0
                (take (unat (s_num_handles (snd service))) (s_attributes (snd service))) start_handle end_handle))
      })"

definition gatt_db_find_information :: "gatt_db \<Rightarrow> u16 \<Rightarrow> u16 \<Rightarrow> attr_ptr list \<Rightarrow> attr_ptr list option" where
  "gatt_db_find_information db start_handle end_handle queue =
     map_option ((@) queue) (collect (\<lambda>s. find_information s start_handle end_handle) (services db))"

text \<open>The attributes on which the function is called.\<close>

definition foreach_service_in_range ::
  "nat \<times> gatt_db_service \<Rightarrow> bt_uuid_t option \<Rightarrow> u16 \<Rightarrow> u16 \<Rightarrow> attr_ptr list option" where
  "foreach_service_in_range service uuid start_handle end_handle = do {
     svc_start \<leftarrow> get_handle_at_index (snd service) 0;
     (if end_handle < svc_start \<or> svc_start < start_handle then Some []
      else (case uuid of
              None \<Rightarrow> Some [(fst service, 0)]
            | Some u \<Rightarrow> do {
                v \<leftarrow> gatt_db_attribute_get_service_uuid (Some (snd service));
                w \<leftarrow> v;
                c \<leftarrow> bt_uuid_cmp w u;
                Some (if c \<noteq> 0 then [] else [(fst service, 0)])
              }))
   }"

definition gatt_db_foreach_service_in_range ::
  "gatt_db option \<Rightarrow> bt_uuid_t option \<Rightarrow> u16 \<Rightarrow> u16 \<Rightarrow> attr_ptr list option" where
  "gatt_db_foreach_service_in_range db uuid start_handle end_handle =
     (case db of
        None \<Rightarrow> Some []
      | Some d \<Rightarrow>
          if end_handle < start_handle then Some []
          else collect (\<lambda>s. foreach_service_in_range s uuid start_handle end_handle) (services d))"

definition gatt_db_foreach_service :: "gatt_db option \<Rightarrow> bt_uuid_t option \<Rightarrow> attr_ptr list option" where
  "gatt_db_foreach_service db uuid = gatt_db_foreach_service_in_range db uuid 0x0001 0xFFFF"

fun service_foreach_loop :: "nat \<Rightarrow> nat \<Rightarrow> gatt_db_attribute option list \<Rightarrow> bt_uuid_t option \<Rightarrow> attr_ptr list option" where
  "service_foreach_loop p i [] uuid = Some []"
| "service_foreach_loop p i (None # as) uuid = service_foreach_loop p (Suc i) as uuid"
| "service_foreach_loop p i (Some a # as) uuid = do {
     differs \<leftarrow> (case uuid of None \<Rightarrow> Some False | Some u \<Rightarrow> map_option (\<lambda>c. c \<noteq> 0) (bt_uuid_cmp u (a_uuid a)));
     rest \<leftarrow> service_foreach_loop p (Suc i) as uuid;
     Some (if differs then rest else (p, i) # rest)
   }"

definition gatt_db_service_foreach :: "gatt_db \<Rightarrow> attr_ptr option \<Rightarrow> bt_uuid_t option \<Rightarrow> attr_ptr list option" where
  "gatt_db_service_foreach db attrib uuid =
     (case attrib of
        None \<Rightarrow> Some []
      | Some (p, _) \<Rightarrow> do {
          s \<leftarrow> service_at db p;
          service_foreach_loop p 0 (take (unat (s_num_handles s)) (s_attributes s)) uuid
        })"

definition gatt_db_service_foreach_char :: "gatt_db \<Rightarrow> attr_ptr option \<Rightarrow> attr_ptr list option" where
  "gatt_db_service_foreach_char db attrib = gatt_db_service_foreach db attrib (Some characteristic_uuid)"

definition gatt_db_service_foreach_incl :: "gatt_db \<Rightarrow> attr_ptr option \<Rightarrow> attr_ptr list option" where
  "gatt_db_service_foreach_incl db attrib = gatt_db_service_foreach db attrib (Some included_service_uuid)"

text \<open>The loop from the entry after the value of the characteristic up to the next declaration.\<close>

fun foreach_desc_loop :: "nat \<Rightarrow> nat \<Rightarrow> gatt_db_attribute option list \<Rightarrow> attr_ptr list option" where
  "foreach_desc_loop p i [] = Some []"
| "foreach_desc_loop p i (None # as) = foreach_desc_loop p (Suc i) as"
| "foreach_desc_loop p i (Some a # as) = do {
     c1 \<leftarrow> bt_uuid_cmp characteristic_uuid (a_uuid a);
     c2 \<leftarrow> bt_uuid_cmp included_service_uuid (a_uuid a);
     (if c1 = 0 \<or> c2 = 0 then Some [] else map_option ((#) (p, i)) (foreach_desc_loop p (Suc i) as))
   }"

definition gatt_db_service_foreach_desc :: "gatt_db \<Rightarrow> attr_ptr option \<Rightarrow> attr_ptr list option" where
  "gatt_db_service_foreach_desc db attrib =
     (case attrib of
        None \<Rightarrow> Some []
      | Some (p, i) \<Rightarrow> do {
          a \<leftarrow> attribute_at db (p, i);
          c \<leftarrow> bt_uuid_cmp characteristic_uuid (a_uuid a);
          (if c \<noteq> 0 then Some []
           else do {
             s \<leftarrow> service_at db p;
             foreach_desc_loop p (i + 2) (drop (i + 2) (take (unat (s_num_handles s)) (s_attributes s)))
           })
        })"

definition find_service_for_handle :: "u16 \<Rightarrow> nat \<times> gatt_db_service \<Rightarrow> bool option" where
  "find_service_for_handle handle service = do {
     (start_handle, end_handle) \<leftarrow> gatt_db_service_get_handles (snd service);
     Some (start_handle \<le> handle \<and> handle \<le> end_handle)
   }"

definition gatt_db_get_attribute :: "gatt_db option \<Rightarrow> u16 \<Rightarrow> attr_ptr option option" where
  "gatt_db_get_attribute db handle =
     (case db of
        None \<Rightarrow> Some None
      | Some d \<Rightarrow>
          if handle = 0 then Some None
          else do {
            service \<leftarrow> queue_find_in (find_service_for_handle handle) (services d);
            (case service of
               None \<Rightarrow> Some None
             | Some k \<Rightarrow>
                 let (p, s) = services d ! k
                 in Some (map_option (Pair p)
                      (find_index (\<lambda>a. case a of None \<Rightarrow> False | Some a \<Rightarrow> a_handle a = handle)
                        (take (unat (s_num_handles s)) (s_attributes s)))))
          })"

definition find_service_with_uuid :: "bt_uuid_t \<Rightarrow> nat \<times> gatt_db_service \<Rightarrow> bool option" where
  "find_service_with_uuid uuid service = do {
     v \<leftarrow> gatt_db_attribute_get_service_uuid (Some (snd service));
     svc_uuid \<leftarrow> v;
     c \<leftarrow> bt_uuid_cmp uuid svc_uuid;
     Some (c = 0)
   }"

definition gatt_db_get_service_with_uuid :: "gatt_db option \<Rightarrow> bt_uuid_t option \<Rightarrow> attr_ptr option option" where
  "gatt_db_get_service_with_uuid db uuid =
     (case (db, uuid) of
        (Some d, Some u) \<Rightarrow> do {
          service \<leftarrow> queue_find_in (find_service_with_uuid u) (services d);
          Some (map_option (\<lambda>k. (fst (services d ! k), 0)) service)
        }
      | _ \<Rightarrow> Some None)"

section \<open>What an attribute says\<close>

definition gatt_db_attribute_get_type :: "gatt_db_attribute option \<Rightarrow> bt_uuid_t option" where
  "gatt_db_attribute_get_type attrib = map_option a_uuid attrib"

definition gatt_db_attribute_get_handle :: "gatt_db_attribute option \<Rightarrow> u16" where
  "gatt_db_attribute_get_handle attrib = (case attrib of None \<Rightarrow> 0 | Some a \<Rightarrow> a_handle a)"

definition gatt_db_attribute_get_service_handles :: "gatt_db_service option \<Rightarrow> (u16 \<times> u16) option option" where
  "gatt_db_attribute_get_service_handles attrib =
     (case attrib of None \<Rightarrow> Some None | Some s \<Rightarrow> map_option Some (gatt_db_service_get_handles s))"

text \<open>The handles, whether the service is primary and the UUID of its declaration, all asked for.\<close>

definition gatt_db_attribute_get_service_data ::
  "gatt_db_service option \<Rightarrow> (u16 \<times> u16 \<times> bool \<times> bt_uuid_t) option option" where
  "gatt_db_attribute_get_service_data attrib =
     (case attrib of
        None \<Rightarrow> Some None
      | Some s \<Rightarrow> do {
          decl \<leftarrow> attr_of s 0;
          (start_handle, end_handle) \<leftarrow> gatt_db_service_get_handles s;
          c \<leftarrow> bt_uuid_cmp (a_uuid decl) secondary_service_uuid;
          v \<leftarrow> (if a_value_len decl = 0 then Some [] else do { w \<leftarrow> a_value decl; mem_read w 0 (unat (a_value_len decl)) });
          Some (map_option (\<lambda>u. (start_handle, end_handle, c \<noteq> 0, u)) (le_to_uuid v))
        })"

text \<open>Handle, value handle, properties and UUID of a characteristic, when the extended properties are not asked for.\<close>

definition gatt_db_attribute_get_char_data ::
  "gatt_db_attribute option \<Rightarrow> (u16 \<times> u16 \<times> u8 \<times> bt_uuid_t) option option" where
  "gatt_db_attribute_get_char_data attrib =
     (case attrib of
        None \<Rightarrow> Some None
      | Some a \<Rightarrow> do {
          c \<leftarrow> bt_uuid_cmp characteristic_uuid (a_uuid a);
          (if c \<noteq> 0 then Some None
           else (case a_value a of
                   None \<Rightarrow> Some None
                 | Some v \<Rightarrow>
                     if a_value_len a \<noteq> 5 \<and> a_value_len a \<noteq> 19 then Some None
                     else do {
                       properties \<leftarrow> load8 v 0;
                       vh \<leftarrow> mem_read v 1 2;
                       u \<leftarrow> mem_read v 3 (unat (a_value_len a) - 3);
                       Some (map_option (\<lambda>uuid. (a_handle a, le16_of vh, properties, uuid)) (le_to_uuid u))
                     }))
        })"

definition gatt_db_attribute_get_incl_data :: "gatt_db_attribute option \<Rightarrow> (u16 \<times> u16 \<times> u16) option option" where
  "gatt_db_attribute_get_incl_data attrib =
     (case attrib of
        None \<Rightarrow> Some None
      | Some a \<Rightarrow> do {
          c \<leftarrow> bt_uuid_cmp included_service_uuid (a_uuid a);
          (if c \<noteq> 0 then Some None
           else (case a_value a of
                   None \<Rightarrow> Some None
                 | Some v \<Rightarrow>
                     if a_value_len a < 4 \<or> 6 < a_value_len a then Some None
                     else do {
                       sh \<leftarrow> mem_read v 0 2;
                       eh \<leftarrow> mem_read v 2 2;
                       Some (Some (a_handle a, le16_of sh, le16_of eh))
                     }))
        })"

definition gatt_db_attribute_get_permissions :: "gatt_db_attribute option \<Rightarrow> u32" where
  "gatt_db_attribute_get_permissions attrib = (case attrib of None \<Rightarrow> 0 | Some a \<Rightarrow> a_permissions a)"

section \<open>Reading and writing values\<close>

text \<open>\<open>tid\<close> is the number that \<^verbatim>\<open>timeout_add\<close> returns.  An operation on an attribute returns its result, the new
  attribute and the calls made; \<open>func\<close> is the function that gets the result.\<close>

definition read_timeout :: "gatt_db_attribute \<Rightarrow> pending \<Rightarrow> gatt_db_attribute \<times> db_event list" where
  "read_timeout a p =
     (a\<lparr>a_pending_reads := remove1 p (a_pending_reads a)\<rparr>,
      pending_read_result (p\<lparr>pd_timeout_id := 0\<rparr>) (- ETIMEDOUT) None 0)"

definition gatt_db_attribute_read ::
  "gatt_db_attribute option \<Rightarrow> u16 \<Rightarrow> u8 \<Rightarrow> nat option \<Rightarrow> nat \<Rightarrow> u32
     \<Rightarrow> (bool \<times> gatt_db_attribute option \<times> db_event list) option" where
  "gatt_db_attribute_read attrib offset opcode func user_data tid =
     (case (attrib, func) of
        (Some a, Some fn) \<Rightarrow>
          (case a_read_func a of
             Some f \<Rightarrow>
               let i = a_read_id a + 1;
                   p = \<lparr>pd_id = i, pd_timeout_id = tid, pd_func = fn, pd_user_data = user_data\<rparr>
               in Some (True, Some (a\<lparr>a_read_id := i, a_pending_reads := a_pending_reads a @ [p]\<rparr>), [ReadCalled f i offset opcode])
           | None \<Rightarrow>
               if a_value_len a < offset then Some (True, attrib, [ReadDone fn BT_ATT_ERROR_INVALID_OFFSET None 0])
               else if offset = a_value_len a then Some (True, attrib, [ReadDone fn 0 None 0])
               else do {
                 v \<leftarrow> a_value a;
                 bs \<leftarrow> mem_read v (unat offset) (unat (a_value_len a) - unat offset);
                 Some (True, attrib, [ReadDone fn 0 (Some bs) (unat (a_value_len a) - unat offset)])
               })
      | _ \<Rightarrow> Some (False, attrib, []))"

definition find_pending :: "u32 \<Rightarrow> pending \<Rightarrow> bool" where
  "find_pending i p \<longleftrightarrow> pd_id p = i"

definition gatt_db_attribute_read_result ::
  "gatt_db_attribute option \<Rightarrow> u32 \<Rightarrow> int \<Rightarrow> bytes option \<Rightarrow> nat \<Rightarrow> bool \<times> gatt_db_attribute option \<times> db_event list" where
  "gatt_db_attribute_read_result attrib i err value len =
     (case attrib of
        None \<Rightarrow> (False, None, [])
      | Some a \<Rightarrow>
          if i = 0 then (False, attrib, [])
          else (case find (find_pending i) (a_pending_reads a) of
                  None \<Rightarrow> (False, attrib, [])
                | Some p \<Rightarrow> (True, Some (a\<lparr>a_pending_reads := remove_first (find_pending i) (a_pending_reads a)\<rparr>),
                    pending_read_result p err value len)))"

definition write_timeout :: "gatt_db_attribute \<Rightarrow> pending \<Rightarrow> gatt_db_attribute \<times> db_event list" where
  "write_timeout a p =
     (a\<lparr>a_pending_writes := remove1 p (a_pending_writes a)\<rparr>,
      pending_write_result (p\<lparr>pd_timeout_id := 0\<rparr>) (- ETIMEDOUT))"

text \<open>The write to a value that is stored in the database.  \<open>grow_value\<close> is the buffer of \<open>n\<close> bytes after \<^verbatim>\<open>realloc\<close> and
  \<^verbatim>\<open>memset\<close>; \<open>junk i\<close> is the content of byte \<open>i\<close> of the memory that was added.\<close>

definition value_bytes :: "gatt_db_attribute \<Rightarrow> bytes" where
  "value_bytes a = (case a_value a of None \<Rightarrow> [] | Some v \<Rightarrow> v)"

definition grow_value :: "gatt_db_attribute \<Rightarrow> nat \<Rightarrow> nat \<Rightarrow> (nat \<Rightarrow> u8) \<Rightarrow> bytes" where
  "grow_value a off n junk =
     (let buf = take n (value_bytes a) @ map junk [length (value_bytes a)..<n]
      in if a_value_len a = 0 then replicate off 0 @ drop off buf else buf)"

definition write_stored :: "gatt_db_attribute \<Rightarrow> u16 \<Rightarrow> bytes \<Rightarrow> (nat \<Rightarrow> u8) \<Rightarrow> gatt_db_attribute option" where
  "write_stored a offset value junk =
     (if value = [] then Some a
      else do {
        let off = unat offset;
        let len = length value;
        let a = (if a_value a = None \<or> a_value_len a \<le> offset \<or> unat (a_value_len a) - off < len
           then a\<lparr>a_value := Some (grow_value a off (len + off) junk), a_value_len := of_nat (len + off)\<rparr>
           else a);
        v \<leftarrow> a_value a;
        v \<leftarrow> mem_write v off value;
        Some (a\<lparr>a_value := Some v\<rparr>)
      })"

definition gatt_db_attribute_write ::
  "gatt_db_attribute option \<Rightarrow> u16 \<Rightarrow> bytes \<Rightarrow> u8 \<Rightarrow> nat option \<Rightarrow> nat \<Rightarrow> u32 \<Rightarrow> (nat \<Rightarrow> u8)
     \<Rightarrow> (bool \<times> gatt_db_attribute option \<times> db_event list) option" where
  "gatt_db_attribute_write attrib offset value opcode func user_data tid junk =
     (case (attrib, func) of
        (Some a, Some fn) \<Rightarrow>
          (case a_write_func a of
             Some f \<Rightarrow>
               let i = a_write_id a + 1;
                   p = \<lparr>pd_id = i, pd_timeout_id = tid, pd_func = fn, pd_user_data = user_data\<rparr>
               in Some (True, Some (a\<lparr>a_write_id := i, a_pending_writes := a_pending_writes a @ [p]\<rparr>),
                    [WriteCalled f i offset value opcode])
           | None \<Rightarrow> do {
               a \<leftarrow> write_stored a offset value junk;
               Some (True, Some a, [WriteDone fn 0])
             })
      | _ \<Rightarrow> Some (False, attrib, []))"

definition gatt_db_attribute_write_result ::
  "gatt_db_attribute option \<Rightarrow> u32 \<Rightarrow> int \<Rightarrow> bool \<times> gatt_db_attribute option \<times> db_event list" where
  "gatt_db_attribute_write_result attrib i err =
     (case attrib of
        None \<Rightarrow> (False, None, [])
      | Some a \<Rightarrow>
          if i = 0 then (False, attrib, [])
          else (case find (find_pending i) (a_pending_writes a) of
                  None \<Rightarrow> (False, attrib, [])
                | Some p \<Rightarrow> (True, Some (a\<lparr>a_pending_writes := remove_first (find_pending i) (a_pending_writes a)\<rparr>),
                    pending_write_result p err)))"

definition gatt_db_attribute_reset :: "gatt_db_attribute option \<Rightarrow> bool \<times> gatt_db_attribute option" where
  "gatt_db_attribute_reset attrib =
     (case attrib of
        None \<Rightarrow> (False, None)
      | Some a \<Rightarrow>
          if a_value a = None \<or> a_value_len a = 0 then (True, attrib)
          else (True, Some (a\<lparr>a_value := None, a_value_len := 0\<rparr>)))"

section \<open>Extended properties\<close>

text \<open>The descriptor is read with \<^verbatim>\<open>read_ext_prop_value\<close>, function \<open>cb\<close> with the address \<open>addr\<close> of the local variable
  \<^verbatim>\<open>ext_prop\<close>.  When the value is stored it is called at once; otherwise the pending read keeps the address.\<close>

definition GATT_CHARAC_EXT_PROPER_UUID :: u16 where "GATT_CHARAC_EXT_PROPER_UUID = 0x2900"
definition ext_desc_uuid :: bt_uuid_t where "ext_desc_uuid = BT_UUID16 GATT_CHARAC_EXT_PROPER_UUID"

definition read_ext_prop_value :: "int \<Rightarrow> bytes option \<Rightarrow> nat \<Rightarrow> u16 \<Rightarrow> u16 option" where
  "read_ext_prop_value err value len ext_prop =
     (if err \<noteq> 0 \<or> len \<noteq> 2 then Some ext_prop else do { v \<leftarrow> value; b \<leftarrow> load8 v 0; Some (ucast b) })"

definition read_ext_prop :: "nat \<Rightarrow> nat \<Rightarrow> u32 \<Rightarrow> attr_ptr \<Rightarrow> u16 \<times> gatt_db \<Rightarrow> (u16 \<times> gatt_db) option" where
  "read_ext_prop cb addr tid attrib st =
     (if fst st \<noteq> 0 then Some st
      else do {
        a \<leftarrow> attribute_at (snd st) attrib;
        c \<leftarrow> bt_uuid_cmp ext_desc_uuid (a_uuid a);
        (if c \<noteq> 0 then Some st
         else do {
           (_, a', es) \<leftarrow> gatt_db_attribute_read (Some a) 0 BT_ATT_OP_READ_REQ (Some cb) addr tid;
           (case (es, a') of
              ([ReadDone _ err v len], _) \<Rightarrow> map_option (\<lambda>e. (e, snd st)) (read_ext_prop_value err v len (fst st))
            | (_, Some x) \<Rightarrow> map_option (\<lambda>db. (fst st, emit es db)) (set_attribute (snd st) attrib x)
            | _ \<Rightarrow> None)
         })
      })"

fun read_ext_props :: "nat \<Rightarrow> nat \<Rightarrow> u32 \<Rightarrow> attr_ptr list \<Rightarrow> u16 \<times> gatt_db \<Rightarrow> (u16 \<times> gatt_db) option" where
  "read_ext_props cb addr tid [] st = Some st"
| "read_ext_props cb addr tid (a # as) st = do { st \<leftarrow> read_ext_prop cb addr tid a st; read_ext_props cb addr tid as st }"

definition get_char_extended_prop :: "gatt_db \<Rightarrow> attr_ptr option \<Rightarrow> nat \<Rightarrow> nat \<Rightarrow> u32 \<Rightarrow> (u8 \<times> gatt_db) option" where
  "get_char_extended_prop db attrib cb addr tid =
     (case attrib of
        None \<Rightarrow> Some (0, db)
      | Some x \<Rightarrow> do {
          a \<leftarrow> attribute_at db x;
          c \<leftarrow> bt_uuid_cmp characteristic_uuid (a_uuid a);
          (if c \<noteq> 0 then Some (0, db)
           else do {
             v \<leftarrow> a_value a;
             b \<leftarrow> load8 v 0;
             (if b AND BT_GATT_CHRC_PROP_EXT_PROP = 0 then Some (0, db)
              else do {
                ds \<leftarrow> gatt_db_service_foreach_desc db attrib;
                (ext_prop, db) \<leftarrow> read_ext_props cb addr tid ds (0, db);
                Some (ucast ext_prop, db)
              })
           })
        })"

end
