(* ===== verification/Bt_Att.thy ===== *)
theory Bt_Att
  imports Att_Types Bdaddr Qlist
begin

text \<open>
  The transport of the Attribute Protocol, \<^verbatim>\<open>bluez5/src/shared/att.c\<close>: queues of PDUs to send, the request and the
  indication that wait for an answer, and the dispatch of what is received.  Queues are lists.  What the kernel answers
  is an argument \<open>env\<close>: the result of writing, the number of a new timer, the security level of the socket, and the
  signature function.  Callbacks are not run: the calls are appended to \<open>att_log\<close>.  Allocation succeeds.
  Undefined behaviour is \<open>None\<close>.
\<close>

section \<open>Operation types\<close>

definition ATT_OP_SIGNED_MASK :: u8 where "ATT_OP_SIGNED_MASK = 0x80"
definition BT_ATT_SIGNATURE_LEN :: nat where "BT_ATT_SIGNATURE_LEN = 12"

datatype att_op_type =
    ATT_OP_TYPE_REQ
  | ATT_OP_TYPE_RSP
  | ATT_OP_TYPE_CMD
  | ATT_OP_TYPE_IND
  | ATT_OP_TYPE_NOT
  | ATT_OP_TYPE_CONF
  | ATT_OP_TYPE_UNKNOWN

definition att_opcode_type_table :: "(u8 \<times> att_op_type) list" where
  "att_opcode_type_table =
    [(BT_ATT_OP_ERROR_RSP, ATT_OP_TYPE_RSP),
     (BT_ATT_OP_MTU_REQ, ATT_OP_TYPE_REQ),
     (BT_ATT_OP_MTU_RSP, ATT_OP_TYPE_RSP),
     (BT_ATT_OP_FIND_INFO_REQ, ATT_OP_TYPE_REQ),
     (BT_ATT_OP_FIND_INFO_RSP, ATT_OP_TYPE_RSP),
     (BT_ATT_OP_FIND_BY_TYPE_REQ, ATT_OP_TYPE_REQ),
     (BT_ATT_OP_FIND_BY_TYPE_RSP, ATT_OP_TYPE_RSP),
     (BT_ATT_OP_READ_BY_TYPE_REQ, ATT_OP_TYPE_REQ),
     (BT_ATT_OP_READ_BY_TYPE_RSP, ATT_OP_TYPE_RSP),
     (BT_ATT_OP_READ_REQ, ATT_OP_TYPE_REQ),
     (BT_ATT_OP_READ_RSP, ATT_OP_TYPE_RSP),
     (BT_ATT_OP_READ_BLOB_REQ, ATT_OP_TYPE_REQ),
     (BT_ATT_OP_READ_BLOB_RSP, ATT_OP_TYPE_RSP),
     (BT_ATT_OP_READ_MULT_REQ, ATT_OP_TYPE_REQ),
     (BT_ATT_OP_READ_MULT_RSP, ATT_OP_TYPE_RSP),
     (BT_ATT_OP_READ_BY_GRP_TYPE_REQ, ATT_OP_TYPE_REQ),
     (BT_ATT_OP_READ_BY_GRP_TYPE_RSP, ATT_OP_TYPE_RSP),
     (BT_ATT_OP_WRITE_REQ, ATT_OP_TYPE_REQ),
     (BT_ATT_OP_WRITE_RSP, ATT_OP_TYPE_RSP),
     (BT_ATT_OP_WRITE_CMD, ATT_OP_TYPE_CMD),
     (BT_ATT_OP_SIGNED_WRITE_CMD, ATT_OP_TYPE_CMD),
     (BT_ATT_OP_PREP_WRITE_REQ, ATT_OP_TYPE_REQ),
     (BT_ATT_OP_PREP_WRITE_RSP, ATT_OP_TYPE_RSP),
     (BT_ATT_OP_EXEC_WRITE_REQ, ATT_OP_TYPE_REQ),
     (BT_ATT_OP_EXEC_WRITE_RSP, ATT_OP_TYPE_RSP),
     (BT_ATT_OP_HANDLE_VAL_NOT, ATT_OP_TYPE_NOT),
     (BT_ATT_OP_HANDLE_VAL_IND, ATT_OP_TYPE_IND),
     (BT_ATT_OP_HANDLE_VAL_CONF, ATT_OP_TYPE_CONF)]"

definition get_op_type :: "u8 \<Rightarrow> att_op_type" where
  "get_op_type opcode = (case map_of att_opcode_type_table opcode of None \<Rightarrow> ATT_OP_TYPE_UNKNOWN | Some t \<Rightarrow> t)"

definition att_req_rsp_mapping_table :: "(u8 \<times> u8) list" where
  "att_req_rsp_mapping_table =
    [(BT_ATT_OP_MTU_REQ, BT_ATT_OP_MTU_RSP),
     (BT_ATT_OP_FIND_INFO_REQ, BT_ATT_OP_FIND_INFO_RSP),
     (BT_ATT_OP_FIND_BY_TYPE_REQ, BT_ATT_OP_FIND_BY_TYPE_RSP),
     (BT_ATT_OP_READ_BY_TYPE_REQ, BT_ATT_OP_READ_BY_TYPE_RSP),
     (BT_ATT_OP_READ_REQ, BT_ATT_OP_READ_RSP),
     (BT_ATT_OP_READ_BLOB_REQ, BT_ATT_OP_READ_BLOB_RSP),
     (BT_ATT_OP_READ_MULT_REQ, BT_ATT_OP_READ_MULT_RSP),
     (BT_ATT_OP_READ_BY_GRP_TYPE_REQ, BT_ATT_OP_READ_BY_GRP_TYPE_RSP),
     (BT_ATT_OP_WRITE_REQ, BT_ATT_OP_WRITE_RSP),
     (BT_ATT_OP_PREP_WRITE_REQ, BT_ATT_OP_PREP_WRITE_RSP),
     (BT_ATT_OP_EXEC_WRITE_REQ, BT_ATT_OP_EXEC_WRITE_RSP)]"

definition get_req_opcode :: "u8 \<Rightarrow> u8" where
  "get_req_opcode rsp_opcode =
     (case find (\<lambda>e. snd e = rsp_opcode) att_req_rsp_mapping_table of None \<Rightarrow> 0 | Some e \<Rightarrow> fst e)"

section \<open>State\<close>

text \<open>Callbacks and user data are numbers.\<close>

record att_send_op =
  op_id :: u32
  op_timeout_id :: u32
  op_type :: att_op_type
  op_opcode :: u8
  op_pdu :: bytes
  op_callback :: "nat option"
  op_destroy :: "nat option"
  op_user_data :: nat

record att_notify =
  an_id :: u32
  an_opcode :: u8
  an_callback :: "nat option"
  an_destroy :: "nat option"
  an_user_data :: nat

record att_disconn =
  ad_id :: u32
  ad_callback :: "nat option"
  ad_destroy :: "nat option"
  ad_user_data :: nat

record sign_info =
  si_key :: bytes
  si_counter :: nat
  si_user_data :: nat

datatype att_event =
    Written att_op_type bytes
  | WriteFailed bytes
  | ResponseCallback nat nat u8 "bytes option"
  | OpDestroyed nat nat
  | TimerRemoved u32
  | TimeoutCallback nat u32 u8
  | NotifyCallback nat nat u8 bytes
  | DisconnCallback nat nat int
  | RegDestroyed nat nat
  | IoShutdown
  | IoDestroyed
  | SecuritySet int

record bt_att =
  att_ref_count :: int
  att_io :: bool
  io_on_l2cap :: bool
  io_sec_level :: int
  req_queue :: "att_send_op list"
  pending_req :: "att_send_op option"
  ind_queue :: "att_send_op list"
  pending_ind :: "att_send_op option"
  write_queue :: "att_send_op list"
  writer_active :: bool
  att_notify_list :: "att_notify list"
  disconn_list :: "att_disconn list"
  in_req :: bool
  att_mtu :: u16
  next_send_id :: u32
  next_reg_id :: u32
  timeout_callback :: "nat option"
  timeout_destroy :: "nat option"
  timeout_data :: nat
  att_crypto :: bool
  local_sign :: "sign_info option"
  remote_sign :: "sign_info option"
  att_log :: "att_event list"

text \<open>\<open>env_send\<close> is the result of \<^verbatim>\<open>io_send\<close>, \<open>env_handler\<close> that of \<^verbatim>\<open>io_set_write_handler\<close>, \<open>env_timer\<close> the number of a new
  timer, \<open>env_level\<close> and \<open>env_set_level\<close> the results of reading and setting the security level of the socket,
  \<open>env_counter\<close> a counter function that may change the counter or fail, \<open>env_sign\<close> the signature of a PDU.\<close>

record att_env =
  env_send :: int
  env_handler :: bool
  env_timer :: u32
  env_level :: int
  env_set_level :: bool
  env_counter :: "nat \<Rightarrow> nat \<Rightarrow> u32 \<Rightarrow> u32 option"
  env_sign :: "bytes \<Rightarrow> bytes \<Rightarrow> u32 \<Rightarrow> bytes option"

definition att_emit :: "att_event list \<Rightarrow> bt_att \<Rightarrow> bt_att" where
  "att_emit es att = att\<lparr>att_log := att_log att @ es\<rparr>"

definition destroy_event :: "nat option \<Rightarrow> nat \<Rightarrow> att_event list" where
  "destroy_event d user = (case d of None \<Rightarrow> [] | Some f \<Rightarrow> [OpDestroyed f user])"

definition destroy_att_send_op :: "att_send_op \<Rightarrow> att_event list" where
  "destroy_att_send_op op =
     (if op_timeout_id op \<noteq> 0 then [TimerRemoved (op_timeout_id op)] else []) @ destroy_event (op_destroy op) (op_user_data op)"

definition cancel_att_send_op :: "att_send_op \<Rightarrow> att_event list \<times> att_send_op" where
  "cancel_att_send_op op =
     (destroy_event (op_destroy op) (op_user_data op), op\<lparr>op_user_data := 0, op_callback := None, op_destroy := None\<rparr>)"

definition response_event :: "att_send_op \<Rightarrow> u8 \<Rightarrow> bytes option \<Rightarrow> att_event list" where
  "response_event op opcode pdu =
     (case op_callback op of None \<Rightarrow> [] | Some f \<Rightarrow> [ResponseCallback f (op_user_data op) opcode pdu])"

definition destroy_att_notify :: "att_notify \<Rightarrow> att_event list" where
  "destroy_att_notify n = (case an_destroy n of None \<Rightarrow> [] | Some f \<Rightarrow> [RegDestroyed f (an_user_data n)])"

definition destroy_att_disconn :: "att_disconn \<Rightarrow> att_event list" where
  "destroy_att_disconn d = (case ad_destroy d of None \<Rightarrow> [] | Some f \<Rightarrow> [RegDestroyed f (ad_user_data d)])"

section \<open>Sending\<close>

text \<open>The PDU for an opcode and parameters of \<open>len\<close> bytes; \<open>Some None\<close> is the result false.  The length is computed in 16
  bits.  Bytes that are never written are zero here.\<close>

definition encode_pdu :: "att_env \<Rightarrow> bt_att \<Rightarrow> u8 \<Rightarrow> bytes option \<Rightarrow> u16 \<Rightarrow> bytes option option" where
  "encode_pdu env att opcode pdu len =
     (let is_signed = (local_sign att \<noteq> None \<and> opcode AND ATT_OP_SIGNED_MASK \<noteq> 0);
          pdu_len = 1 + (if is_signed then of_nat BT_ATT_SIGNATURE_LEN else 0) + (if len \<noteq> 0 \<and> pdu \<noteq> None then len else 0)
      in if att_mtu att < pdu_len then Some None
         else do {
           buf \<leftarrow> store8 (replicate (unat pdu_len) 0) 0 opcode;
           buf \<leftarrow> (if 1 < pdu_len then do { p \<leftarrow> (if len = 0 then Some [] else pdu); bs \<leftarrow> mem_read p 0 (unat len); mem_write buf 1 bs }
                  else Some buf);
           (case local_sign att of
              None \<Rightarrow> Some (Some buf)
            | Some sign \<Rightarrow>
                if opcode AND ATT_OP_SIGNED_MASK = 0 \<or> \<not> att_crypto att then Some (Some buf)
                else (case env_counter env (si_counter sign) (si_user_data sign) 0 of
                        None \<Rightarrow> Some None
                      | Some cnt \<Rightarrow> do {
                          msg \<leftarrow> mem_read buf 0 (1 + unat len);
                          (case env_sign env (si_key sign) msg cnt of
                             None \<Rightarrow> Some None
                           | Some signature \<Rightarrow> map_option Some (mem_write buf (1 + unat len) signature))
                        }))
         })"

definition create_att_send_op ::
  "att_env \<Rightarrow> bt_att \<Rightarrow> u8 \<Rightarrow> bytes option \<Rightarrow> u16 \<Rightarrow> nat option \<Rightarrow> nat \<Rightarrow> nat option \<Rightarrow> att_send_op option option" where
  "create_att_send_op env att opcode pdu len callback user_data destroy =
     (let type = get_op_type opcode
      in if len \<noteq> 0 \<and> pdu = None then Some None
         else if type = ATT_OP_TYPE_UNKNOWN then Some None
         else if callback \<noteq> None \<and> type \<noteq> ATT_OP_TYPE_REQ \<and> type \<noteq> ATT_OP_TYPE_IND then Some None
         else if callback = None \<and> (type = ATT_OP_TYPE_REQ \<or> type = ATT_OP_TYPE_IND) then Some None
         else map_option (map_option (\<lambda>bs. \<lparr>op_id = 0, op_timeout_id = 0, op_type = type, op_opcode = opcode, op_pdu = bs,
                op_callback = callback, op_destroy = destroy, op_user_data = user_data\<rparr>)) (encode_pdu env att opcode pdu len))"

definition pick_next_send_op :: "bt_att \<Rightarrow> att_send_op option \<times> bt_att" where
  "pick_next_send_op att =
     (case write_queue att of
        op # ops \<Rightarrow> (Some op, att\<lparr>write_queue := ops\<rparr>)
      | [] \<Rightarrow>
          (case (pending_req att, req_queue att) of
             (None, op # ops) \<Rightarrow> (Some op, att\<lparr>req_queue := ops\<rparr>)
           | _ \<Rightarrow>
               (case (pending_ind att, ind_queue att) of
                  (None, op # ops) \<Rightarrow> (Some op, att\<lparr>ind_queue := ops\<rparr>)
                | _ \<Rightarrow> (None, att))))"

text \<open>The argument is the number of the operation whose timer has fired.\<close>

definition timeout_cb :: "u32 \<Rightarrow> bt_att \<Rightarrow> bt_att" where
  "timeout_cb i att =
     (let finish = (\<lambda>op a. att_emit ((case timeout_callback a of None \<Rightarrow> [] | Some f \<Rightarrow> [TimeoutCallback f (op_id op) (op_opcode op)])
                     @ destroy_att_send_op (op\<lparr>op_timeout_id := 0\<rparr>) @ [IoShutdown]) a)
      in (case pending_req att of
            Some op \<Rightarrow> if op_id op = i then finish op (att\<lparr>pending_req := None\<rparr>)
              else (case pending_ind att of
                      Some ind \<Rightarrow> if op_id ind = i then finish ind (att\<lparr>pending_ind := None\<rparr>) else att
                    | None \<Rightarrow> att)
          | None \<Rightarrow> (case pending_ind att of
                      Some ind \<Rightarrow> if op_id ind = i then finish ind (att\<lparr>pending_ind := None\<rparr>) else att
                    | None \<Rightarrow> att)))"

definition write_watch_destroy :: "bt_att \<Rightarrow> bt_att" where
  "write_watch_destroy att = att\<lparr>writer_active := False\<rparr>"

text \<open>The result says whether the write handler stays.\<close>

definition can_write_data :: "att_env \<Rightarrow> bt_att \<Rightarrow> bool \<times> bt_att" where
  "can_write_data env att =
     (case pick_next_send_op att of
        (None, att) \<Rightarrow> (False, att)
      | (Some op, att) \<Rightarrow>
          if env_send env < 0
          then (True, att_emit ([WriteFailed (op_pdu op)] @ response_event op BT_ATT_OP_ERROR_RSP None @ destroy_att_send_op op) att)
          else
            let att = att_emit [Written (op_type op) (op_pdu op)] att
            in (case op_type op of
                  ATT_OP_TYPE_REQ \<Rightarrow> (True, att\<lparr>pending_req := Some (op\<lparr>op_timeout_id := env_timer env\<rparr>)\<rparr>)
                | ATT_OP_TYPE_IND \<Rightarrow> (True, att\<lparr>pending_ind := Some (op\<lparr>op_timeout_id := env_timer env\<rparr>)\<rparr>)
                | ATT_OP_TYPE_RSP \<Rightarrow> (True, att_emit (destroy_att_send_op op) (att\<lparr>in_req := False\<rparr>))
                | _ \<Rightarrow> (True, att_emit (destroy_att_send_op op) att)))"

definition wakeup_writer :: "att_env \<Rightarrow> bt_att \<Rightarrow> bt_att" where
  "wakeup_writer env att =
     (if writer_active att then att
      else if write_queue att = [] \<and> (pending_req att \<noteq> None \<or> req_queue att = []) \<and> (pending_ind att \<noteq> None \<or> ind_queue att = []) then att
      else if \<not> env_handler env then att
      else att\<lparr>writer_active := True\<rparr>)"

definition enqueue_op :: "att_send_op \<Rightarrow> bt_att \<Rightarrow> bt_att" where
  "enqueue_op op att =
     (case op_type op of
        ATT_OP_TYPE_REQ \<Rightarrow> att\<lparr>req_queue := req_queue att @ [op]\<rparr>
      | ATT_OP_TYPE_IND \<Rightarrow> att\<lparr>ind_queue := ind_queue att @ [op]\<rparr>
      | _ \<Rightarrow> att\<lparr>write_queue := write_queue att @ [op]\<rparr>)"

definition bt_att_send ::
  "att_env \<Rightarrow> bt_att \<Rightarrow> u8 \<Rightarrow> bytes option \<Rightarrow> u16 \<Rightarrow> nat option \<Rightarrow> nat \<Rightarrow> nat option \<Rightarrow> (u32 \<times> bt_att) option" where
  "bt_att_send env att opcode pdu len callback user_data destroy =
     (if \<not> att_io att then Some (0, att)
      else do {
        created \<leftarrow> create_att_send_op env att opcode pdu len callback user_data destroy;
        (case created of
           None \<Rightarrow> Some (0, att)
         | Some op \<Rightarrow>
             let i = (if next_send_id att < 1 then 1 else next_send_id att)
             in Some (i, wakeup_writer env (enqueue_op (op\<lparr>op_id := i\<rparr>) (att\<lparr>next_send_id := i + 1\<rparr>))))
      })"

definition ENOENT :: int where "ENOENT = 2"
definition EOVERFLOW :: int where "EOVERFLOW = 75"

definition att_ecode_from_error :: "int \<Rightarrow> u8" where
  "att_ecode_from_error err =
     (if 0 < err \<and> err < 255 then of_int err
      else if err = - ENOENT then of_int BT_ATT_ERROR_INVALID_HANDLE
      else if err = - ENOMEM then of_int BT_ATT_ERROR_INSUFFICIENT_RESOURCES
      else if err = - EALREADY then of_int BT_ERROR_ALREADY_IN_PROGRESS
      else if err = - EOVERFLOW then of_int BT_ERROR_OUT_OF_RANGE
      else of_int BT_ATT_ERROR_UNLIKELY)"

definition bt_att_send_error_rsp :: "att_env \<Rightarrow> bt_att \<Rightarrow> u8 \<Rightarrow> u16 \<Rightarrow> int \<Rightarrow> (u32 \<times> bt_att) option" where
  "bt_att_send_error_rsp env att opcode handle err =
     (if opcode = 0 then Some (0, att)
      else bt_att_send env att BT_ATT_OP_ERROR_RSP (Some ([opcode] @ le16 handle @ [att_ecode_from_error err])) 4 None 0 None)"

section \<open>Cancelling\<close>

definition bt_att_cancel :: "att_env \<Rightarrow> bt_att \<Rightarrow> u32 \<Rightarrow> bool \<times> bt_att" where
  "bt_att_cancel env att i =
     (let is_i = (\<lambda>op. op_id op = i);
          finish = (\<lambda>op a. (True, wakeup_writer env (att_emit (destroy_att_send_op op) a)))
      in if i = 0 then (False, att)
         else if (case pending_req att of Some op \<Rightarrow> is_i op | None \<Rightarrow> False)
         then (let (es, op) = cancel_att_send_op (the (pending_req att)) in (True, att_emit es (att\<lparr>pending_req := Some op\<rparr>)))
         else if (case pending_ind att of Some op \<Rightarrow> is_i op | None \<Rightarrow> False)
         then (let (es, op) = cancel_att_send_op (the (pending_ind att)) in (True, att_emit es (att\<lparr>pending_ind := Some op\<rparr>)))
         else (case find is_i (req_queue att) of
                 Some op \<Rightarrow> finish op (att\<lparr>req_queue := remove_first is_i (req_queue att)\<rparr>)
               | None \<Rightarrow>
                   (case find is_i (ind_queue att) of
                      Some op \<Rightarrow> finish op (att\<lparr>ind_queue := remove_first is_i (ind_queue att)\<rparr>)
                    | None \<Rightarrow>
                        (case find is_i (write_queue att) of
                           Some op \<Rightarrow> finish op (att\<lparr>write_queue := remove_first is_i (write_queue att)\<rparr>)
                         | None \<Rightarrow> (False, att)))))"

definition cancel_pending :: "att_send_op option \<Rightarrow> att_event list \<times> att_send_op option" where
  "cancel_pending p = (case p of None \<Rightarrow> ([], None) | Some op \<Rightarrow> map_prod id Some (cancel_att_send_op op))"

definition bt_att_cancel_all :: "bt_att \<Rightarrow> bt_att" where
  "bt_att_cancel_all att =
     (let es = concat (map destroy_att_send_op (req_queue att)) @ concat (map destroy_att_send_op (ind_queue att))
               @ concat (map destroy_att_send_op (write_queue att));
          (es1, p1) = cancel_pending (pending_req att);
          (es2, p2) = cancel_pending (pending_ind att)
      in att_emit (es @ es1 @ es2) (att\<lparr>req_queue := [], ind_queue := [], write_queue := [], pending_req := p1, pending_ind := p2\<rparr>))"

section \<open>Registration, parameters and the end of the object\<close>

definition bt_att_register :: "bt_att \<Rightarrow> u8 \<Rightarrow> nat option \<Rightarrow> nat \<Rightarrow> nat option \<Rightarrow> u32 \<times> bt_att" where
  "bt_att_register att opcode callback user_data destroy =
     (if callback = None \<or> \<not> att_io att then (0, att)
      else
        let i = (if next_reg_id att < 1 then 1 else next_reg_id att);
            n = \<lparr>an_id = i, an_opcode = opcode, an_callback = callback, an_destroy = destroy, an_user_data = user_data\<rparr>
        in (i, att\<lparr>next_reg_id := i + 1, att_notify_list := att_notify_list att @ [n]\<rparr>))"

definition bt_att_unregister :: "bt_att \<Rightarrow> u32 \<Rightarrow> bool \<times> bt_att" where
  "bt_att_unregister att i =
     (if i = 0 then (False, att)
      else (case find (\<lambda>n. an_id n = i) (att_notify_list att) of
              None \<Rightarrow> (False, att)
            | Some n \<Rightarrow> (True, att_emit (destroy_att_notify n)
                (att\<lparr>att_notify_list := remove_first (\<lambda>n. an_id n = i) (att_notify_list att)\<rparr>))))"

definition bt_att_register_disconnect :: "bt_att \<Rightarrow> nat option \<Rightarrow> nat \<Rightarrow> nat option \<Rightarrow> u32 \<times> bt_att" where
  "bt_att_register_disconnect att callback user_data destroy =
     (if \<not> att_io att then (0, att)
      else
        let i = (if next_reg_id att < 1 then 1 else next_reg_id att);
            d = \<lparr>ad_id = i, ad_callback = callback, ad_destroy = destroy, ad_user_data = user_data\<rparr>
        in (i, att\<lparr>next_reg_id := i + 1, disconn_list := disconn_list att @ [d]\<rparr>))"

definition bt_att_unregister_disconnect :: "bt_att \<Rightarrow> u32 \<Rightarrow> bool \<times> bt_att" where
  "bt_att_unregister_disconnect att i =
     (if i = 0 then (False, att)
      else (case find (\<lambda>d. ad_id d = i) (disconn_list att) of
              None \<Rightarrow> (False, att)
            | Some d \<Rightarrow> (True, att_emit (destroy_att_disconn d)
                (att\<lparr>disconn_list := remove_first (\<lambda>d. ad_id d = i) (disconn_list att)\<rparr>))))"

definition bt_att_unregister_all :: "bt_att \<Rightarrow> bt_att" where
  "bt_att_unregister_all att =
     att_emit (concat (map destroy_att_notify (att_notify_list att)) @ concat (map destroy_att_disconn (disconn_list att)))
       (att\<lparr>att_notify_list := [], disconn_list := []\<rparr>)"

definition bt_att_set_mtu :: "bt_att \<Rightarrow> u16 \<Rightarrow> bool \<times> bt_att" where
  "bt_att_set_mtu att mtu = (if mtu < BT_ATT_DEFAULT_LE_MTU then (False, att) else (True, att\<lparr>att_mtu := mtu\<rparr>))"

definition bt_att_set_timeout_cb :: "bt_att \<Rightarrow> nat option \<Rightarrow> nat \<Rightarrow> nat option \<Rightarrow> bt_att" where
  "bt_att_set_timeout_cb att callback user_data destroy =
     att_emit (case timeout_destroy att of None \<Rightarrow> [] | Some f \<Rightarrow> [RegDestroyed f (timeout_data att)])
       (att\<lparr>timeout_callback := callback, timeout_destroy := destroy, timeout_data := user_data\<rparr>)"

text \<open>\<^verbatim>\<open>EIO\<close> is the result when the level of the socket cannot be read; \<open>env_level\<close> then is negative.\<close>

definition bt_att_get_security :: "att_env \<Rightarrow> bt_att \<Rightarrow> int" where
  "bt_att_get_security env att =
     (if \<not> io_on_l2cap att then io_sec_level att else if env_level env < 0 then - EIO else env_level env)"

definition bt_att_set_security :: "att_env \<Rightarrow> bt_att \<Rightarrow> int \<Rightarrow> bool \<times> bt_att" where
  "bt_att_set_security env att level =
     (if level < BT_ATT_SECURITY_AUTO \<or> BT_ATT_SECURITY_HIGH < level then (False, att)
      else if \<not> io_on_l2cap att then (True, att\<lparr>io_sec_level := level\<rparr>)
      else if \<not> env_set_level env then (False, att)
      else (True, att_emit [SecuritySet level] att))"

definition sign_set_key :: "sign_info option \<Rightarrow> bytes \<Rightarrow> nat \<Rightarrow> nat \<Rightarrow> sign_info option" where
  "sign_set_key sign key func user_data = Some \<lparr>si_key = key, si_counter = func, si_user_data = user_data\<rparr>"

definition bt_att_set_local_key :: "bt_att \<Rightarrow> bytes \<Rightarrow> nat \<Rightarrow> nat \<Rightarrow> bt_att" where
  "bt_att_set_local_key att key func user_data = att\<lparr>local_sign := sign_set_key (local_sign att) key func user_data\<rparr>"

definition bt_att_set_remote_key :: "bt_att \<Rightarrow> bytes \<Rightarrow> nat \<Rightarrow> nat \<Rightarrow> bt_att" where
  "bt_att_set_remote_key att key func user_data = att\<lparr>remote_sign := sign_set_key (remote_sign att) key func user_data\<rparr>"

text \<open>A new object: \<open>l2cap\<close> whether the socket is an L2CAP socket, \<open>bredr_mtu\<close> the MTU of a BR/EDR link, \<open>crypto\<close> whether
  \<^verbatim>\<open>bt_crypto_new\<close> succeeded.\<close>

definition bt_att_new :: "bool \<Rightarrow> bool \<Rightarrow> u16 option \<Rightarrow> bool \<Rightarrow> bt_att option" where
  "bt_att_new ext_signed l2cap bredr_mtu crypto =
     (let mtu = (case bredr_mtu of Some m \<Rightarrow> m | None \<Rightarrow> BT_ATT_DEFAULT_LE_MTU)
      in if mtu < BT_ATT_DEFAULT_LE_MTU then None
         else Some \<lparr>att_ref_count = 1, att_io = True, io_on_l2cap = l2cap,
           io_sec_level = (if l2cap then BT_ATT_SECURITY_AUTO else BT_ATT_SECURITY_LOW),
           req_queue = [], pending_req = None, ind_queue = [], pending_ind = None, write_queue = [], writer_active = False,
           att_notify_list = [], disconn_list = [], in_req = False, att_mtu = mtu, next_send_id = 0, next_reg_id = 0,
           timeout_callback = None, timeout_destroy = None, timeout_data = 0, att_crypto = (\<not> ext_signed \<and> crypto),
           local_sign = None, remote_sign = None, att_log = []\<rparr>)"

text \<open>The log of the calls when the object is freed.\<close>

definition bt_att_free :: "bt_att \<Rightarrow> att_event list" where
  "bt_att_free att =
     att_log att @ (case pending_req att of None \<Rightarrow> [] | Some op \<Rightarrow> destroy_att_send_op op)
       @ (case pending_ind att of None \<Rightarrow> [] | Some op \<Rightarrow> destroy_att_send_op op)
       @ (if att_io att then [IoDestroyed] else [])
       @ (case timeout_destroy att of None \<Rightarrow> [] | Some f \<Rightarrow> [RegDestroyed f (timeout_data att)])"

definition bt_att_ref :: "bt_att \<Rightarrow> bt_att" where
  "bt_att_ref att = att\<lparr>att_ref_count := att_ref_count att + 1\<rparr>"

definition bt_att_unref :: "bt_att \<Rightarrow> att_event list + bt_att" where
  "bt_att_unref att =
     (if att_ref_count att - 1 \<noteq> 0 then Inr (att\<lparr>att_ref_count := att_ref_count att - 1\<rparr>)
      else Inl (bt_att_free (bt_att_cancel_all (bt_att_unregister_all att))))"

section \<open>Receiving\<close>

definition change_security :: "att_env \<Rightarrow> bt_att \<Rightarrow> int \<Rightarrow> bool \<times> bt_att" where
  "change_security env att ecode =
     (let security = bt_att_get_security env att
      in if io_sec_level att \<noteq> BT_ATT_SECURITY_AUTO then (False, att)
         else if ecode = BT_ATT_ERROR_INSUFFICIENT_ENCRYPTION \<and> security < BT_ATT_SECURITY_MEDIUM
         then bt_att_set_security env att BT_ATT_SECURITY_MEDIUM
         else if ecode = BT_ATT_ERROR_AUTHENTICATION
         then (if security < BT_ATT_SECURITY_MEDIUM then bt_att_set_security env att BT_ATT_SECURITY_MEDIUM
               else if security < BT_ATT_SECURITY_HIGH then bt_att_set_security env att BT_ATT_SECURITY_HIGH
               else if security < BT_ATT_SECURITY_FIPS then bt_att_set_security env att BT_ATT_SECURITY_FIPS
               else (False, att))
         else (False, att))"

text \<open>The result, the request opcode and the state.\<close>

definition handle_error_rsp :: "att_env \<Rightarrow> bt_att \<Rightarrow> att_send_op \<Rightarrow> bytes \<Rightarrow> bool \<times> u8 \<times> bt_att" where
  "handle_error_rsp env att op pdu =
     (if length pdu \<noteq> 4 then (False, 0, att)
      else (case change_security env att (uint (pdu ! 3)) of
              (False, att) \<Rightarrow> (False, pdu ! 0, att)
            | (True, att) \<Rightarrow> (True, pdu ! 0, att\<lparr>pending_req := None, req_queue := op # req_queue att\<rparr>)))"

definition handle_rsp :: "att_env \<Rightarrow> bt_att \<Rightarrow> u8 \<Rightarrow> bytes \<Rightarrow> bt_att" where
  "handle_rsp env att opcode pdu =
     (case pending_req att of
        None \<Rightarrow> att_emit [IoShutdown] att
      | Some op \<Rightarrow>
          let (retry, req_opcode, att) =
                (if opcode = BT_ATT_OP_ERROR_RSP then handle_error_rsp env att op pdu else (False, get_req_opcode opcode, att))
          in if retry then wakeup_writer env att
             else
               let failed = (opcode \<noteq> BT_ATT_OP_ERROR_RSP \<and> req_opcode = 0 \<or> req_opcode \<noteq> op_opcode op);
                   rsp = (if failed then (BT_ATT_OP_ERROR_RSP, None) else (opcode, if pdu = [] then None else Some pdu))
               in wakeup_writer env ((att_emit (response_event op (fst rsp) (snd rsp) @ destroy_att_send_op op) att)\<lparr>pending_req := None\<rparr>))"

definition handle_conf :: "att_env \<Rightarrow> bt_att \<Rightarrow> bytes \<Rightarrow> bt_att" where
  "handle_conf env att pdu =
     (case pending_ind att of
        None \<Rightarrow> att_emit [IoShutdown] att
      | Some op \<Rightarrow>
          if pdu \<noteq> [] then att_emit [IoShutdown] att
          else wakeup_writer env
            ((att_emit (response_event op BT_ATT_OP_HANDLE_VAL_CONF None @ destroy_att_send_op op) att)\<lparr>pending_ind := None\<rparr>))"

definition opcode_match :: "u8 \<Rightarrow> u8 \<Rightarrow> bool" where
  "opcode_match opcode test_opcode \<longleftrightarrow>
     opcode = BT_ATT_ALL_REQUESTS \<and> (get_op_type test_opcode = ATT_OP_TYPE_REQ \<or> get_op_type test_opcode = ATT_OP_TYPE_CMD)
     \<or> opcode = test_opcode"

definition respond_not_supported :: "att_env \<Rightarrow> bt_att \<Rightarrow> u8 \<Rightarrow> bt_att option" where
  "respond_not_supported env att opcode =
     map_option snd (bt_att_send env att BT_ATT_OP_ERROR_RSP
       (Some ([opcode] @ le16 0 @ [of_int BT_ATT_ERROR_REQUEST_NOT_SUPPORTED])) 4 None 0 None)"

text \<open>The result and the PDU, whose signature is overwritten by the one computed.  Computing it needs the crypto object:
  without it \<^verbatim>\<open>bt_crypto_sign_att\<close> fails.\<close>

definition handle_signed :: "att_env \<Rightarrow> bt_att \<Rightarrow> bytes \<Rightarrow> bool \<times> bytes" where
  "handle_signed env att pdu =
     (if length pdu < 2 + BT_ATT_SIGNATURE_LEN then (False, pdu)
      else (case remote_sign att of
              None \<Rightarrow> (False, pdu)
            | Some sign \<Rightarrow>
                let body = take (length pdu - BT_ATT_SIGNATURE_LEN) pdu;
                    cnt = le32_of (drop (length pdu - BT_ATT_SIGNATURE_LEN) pdu)
                in (case env_counter env (si_counter sign) (si_user_data sign) cnt of
                      None \<Rightarrow> (False, pdu)
                    | Some cnt \<Rightarrow>
                        if \<not> att_crypto att then (False, pdu)
                        else (case env_sign env (si_key sign) body cnt of
                                None \<Rightarrow> (False, pdu)
                              | Some signature \<Rightarrow> (True, body @ signature)))))"

definition notify_events :: "bt_att \<Rightarrow> u8 \<Rightarrow> bytes \<Rightarrow> att_event list" where
  "notify_events att opcode pdu =
     concat (map (\<lambda>n. if opcode_match (an_opcode n) opcode
                      then (case an_callback n of None \<Rightarrow> [] | Some f \<Rightarrow> [NotifyCallback f (an_user_data n) opcode pdu]) else [])
       (att_notify_list att))"

definition att_handle_notify :: "att_env \<Rightarrow> bt_att \<Rightarrow> u8 \<Rightarrow> bytes \<Rightarrow> bt_att option" where
  "att_handle_notify env att opcode pdu =
     (let deliver = (\<lambda>pdu.
            let found = (\<exists>n\<in>set (att_notify_list att). opcode_match (an_opcode n) opcode);
                att = att_emit (notify_events att opcode pdu) att
            in if \<not> found \<and> get_op_type opcode = ATT_OP_TYPE_REQ then respond_not_supported env att opcode else Some att)
      in if opcode AND ATT_OP_SIGNED_MASK \<noteq> 0 \<and> \<not> att_crypto att
         then (case handle_signed env att pdu of
                 (False, _) \<Rightarrow> Some att
               | (True, pdu) \<Rightarrow> deliver (take (length pdu - BT_ATT_SIGNATURE_LEN) pdu))
         else deliver pdu)"

text \<open>\<open>bytes_read\<close> is what \<^verbatim>\<open>read\<close> put into the buffer, \<open>None\<close> an error.  The result says whether the read handler stays.\<close>

definition can_read_data :: "att_env \<Rightarrow> bt_att \<Rightarrow> bytes option \<Rightarrow> (bool \<times> bt_att) option" where
  "can_read_data env att bytes_read =
     (case bytes_read of
        None \<Rightarrow> Some (False, att)
      | Some [] \<Rightarrow> Some (True, att)
      | Some (opcode # pdu) \<Rightarrow>
          (case get_op_type opcode of
             ATT_OP_TYPE_RSP \<Rightarrow> Some (True, handle_rsp env att opcode pdu)
           | ATT_OP_TYPE_CONF \<Rightarrow> Some (True, handle_conf env att pdu)
           | ATT_OP_TYPE_REQ \<Rightarrow>
               if in_req att then Some (False, att_emit [IoShutdown] att)
               else map_option (Pair True) (att_handle_notify env (att\<lparr>in_req := True\<rparr>) opcode pdu)
           | _ \<Rightarrow> map_option (Pair True) (att_handle_notify env att opcode pdu)))"

definition disconn_handler :: "int \<Rightarrow> att_disconn \<Rightarrow> att_event list" where
  "disconn_handler err d = (case ad_callback d of None \<Rightarrow> [] | Some f \<Rightarrow> [DisconnCallback f (ad_user_data d) err])"

definition disc_att_send_op :: "att_send_op \<Rightarrow> att_event list" where
  "disc_att_send_op op = response_event op BT_ATT_OP_ERROR_RSP None @ destroy_att_send_op op"

text \<open>The reference that is taken around the handlers is given back.\<close>

definition disconnect_cb :: "bt_att \<Rightarrow> int \<Rightarrow> bt_att" where
  "disconnect_cb att err =
     (let disc = (\<lambda>ops. concat (map disc_att_send_op ops));
          disc_opt = (\<lambda>p. case p of None \<Rightarrow> [] | Some op \<Rightarrow> disc_att_send_op op)
      in bt_att_unregister_all
           (att_emit ([IoDestroyed] @ disc (req_queue att) @ disc (ind_queue att) @ disc (write_queue att)
               @ disc_opt (pending_req att) @ disc_opt (pending_ind att) @ concat (map (disconn_handler err) (disconn_list att)))
             (att\<lparr>att_io := False, req_queue := [], ind_queue := [], write_queue := [], pending_req := None, pending_ind := None\<rparr>)))"

end
