(* ===== verification/Gatt_Server.thy ===== *)
theory Gatt_Server
  imports Gatt_Db Bt_Att
begin

text \<open>
  The server that answers requests from the attribute database, \<^verbatim>\<open>bluez5/src/shared/gatt-server.c\<close>.  The state of a server
  holds its database (\<open>Gatt_Db\<close>) and its transport (\<open>Bt_Att\<close>).  The functions that the server hands to them are
  numbers.  A read or write of a stored value calls such a function at once; for an attribute with functions of its own the
  call comes later, as \<open>sv_read_result\<close> or \<open>sv_write_result\<close>.  Operations that wait for it have addresses; using one that was
  freed is \<open>None\<close>.  The length of a PDU is the length of its list; the transport passes at most its MTU.
  Allocation succeeds, debug output is left out.
\<close>

section \<open>State\<close>

definition DEFAULT_MAX_PREP_QUEUE_LEN :: u32 where "DEFAULT_MAX_PREP_QUEUE_LEN = 30"

record async_read_op =
  ro_opcode :: u8
  ro_done :: bool
  ro_pdu :: bytes
  ro_pdu_len :: nat
  ro_value_len :: nat
  ro_db_data :: "attr_ptr list"

record async_write_op =
  wo_opcode :: u8

record prep_write_data =
  pw_value :: bytes
  pw_handle :: u16
  pw_offset :: u16
  pw_length :: u16
  pw_reliable_supported :: bool

record read_multiple_resp_data =
  rm_handles :: "u16 list"
  rm_cur_handle :: nat
  rm_rsp_data :: bytes
  rm_length :: nat
  rm_mtu :: nat

record ind_data =
  in_callback :: "nat option"
  in_destroy :: "nat option"
  in_user_data :: nat

text \<open>\<open>sv_addr\<close> is the address of the server, \<open>sv_ids\<close> are the numbers of the registrations from \<^verbatim>\<open>mtu_id\<close> to \<^verbatim>\<open>exec_write_id\<close>.  \<open>sv_multi\<close> is the local variable of a
  \<^verbatim>\<open>read_multiple_cb\<close> that has not returned, \<open>sv_inds\<close> the data of indications that are not confirmed, \<open>sv_brk\<close> the next
  address.\<close>

record bt_gatt_server =
  sv_db :: gatt_db
  sv_att :: bt_att
  sv_addr :: nat
  sv_ref_count :: int
  sv_mtu :: u16
  sv_ids :: "u32 list"
  prep_queue :: "prep_write_data list"
  max_prep_queue_len :: u32
  pending_read_op :: "(nat \<times> async_read_op) option"
  pending_write_op :: "(nat \<times> async_write_op) option"
  sv_multi :: "(nat \<times> read_multiple_resp_data) option"
  sv_inds :: "(nat \<times> ind_data) list"
  sv_brk :: nat

text \<open>\<open>e_att\<close> is the environment of the transport, \<open>e_tid\<close> the number of a new timer, \<open>e_junk\<close> the content of memory that was not
  written.\<close>

record sv_env =
  e_att :: att_env
  e_tid :: u32
  e_junk :: "nat \<Rightarrow> u8"

text \<open>The functions of the server.\<close>

definition EXCHANGE_MTU_CB :: nat where "EXCHANGE_MTU_CB = 1"
definition READ_BY_GRP_TYPE_CB :: nat where "READ_BY_GRP_TYPE_CB = 2"
definition READ_BY_TYPE_CB :: nat where "READ_BY_TYPE_CB = 3"
definition FIND_INFO_CB :: nat where "FIND_INFO_CB = 4"
definition FIND_BY_TYPE_VAL_CB :: nat where "FIND_BY_TYPE_VAL_CB = 5"
definition WRITE_CB :: nat where "WRITE_CB = 6"
definition READ_CB :: nat where "READ_CB = 7"
definition READ_BLOB_CB :: nat where "READ_BLOB_CB = 8"
definition READ_MULTIPLE_CB :: nat where "READ_MULTIPLE_CB = 9"
definition PREP_WRITE_CB :: nat where "PREP_WRITE_CB = 10"
definition EXEC_WRITE_CB :: nat where "EXEC_WRITE_CB = 11"
definition ATTRIBUTE_READ_CB :: nat where "ATTRIBUTE_READ_CB = 12"
definition READ_BY_TYPE_COMPLETE_CB :: nat where "READ_BY_TYPE_COMPLETE_CB = 13"
definition READ_COMPLETE_CB :: nat where "READ_COMPLETE_CB = 14"
definition READ_MULTIPLE_COMPLETE_CB :: nat where "READ_MULTIPLE_COMPLETE_CB = 15"
definition WRITE_COMPLETE_CB :: nat where "WRITE_COMPLETE_CB = 16"
definition EXEC_WRITE_COMPLETE_CB :: nat where "EXEC_WRITE_COMPLETE_CB = 17"
definition READ_EXT_PROP_CB :: nat where "READ_EXT_PROP_CB = 18"
definition CONF_CB :: nat where "CONF_CB = 19"
definition DESTROY_IND_DATA :: nat where "DESTROY_IND_DATA = 20"

lemmas sv_fns = EXCHANGE_MTU_CB_def READ_BY_GRP_TYPE_CB_def READ_BY_TYPE_CB_def FIND_INFO_CB_def FIND_BY_TYPE_VAL_CB_def
  WRITE_CB_def READ_CB_def READ_BLOB_CB_def READ_MULTIPLE_CB_def PREP_WRITE_CB_def EXEC_WRITE_CB_def ATTRIBUTE_READ_CB_def
  READ_BY_TYPE_COMPLETE_CB_def READ_COMPLETE_CB_def READ_MULTIPLE_COMPLETE_CB_def WRITE_COMPLETE_CB_def EXEC_WRITE_COMPLETE_CB_def
  READ_EXT_PROP_CB_def CONF_CB_def DESTROY_IND_DATA_def

section \<open>Calls of the transport and of the database\<close>

definition pdu_le16 :: "bytes \<Rightarrow> nat \<Rightarrow> u16 option" where
  "pdu_le16 pdu off = map_option le16_of (mem_read pdu off 2)"

definition junk_buffer :: "sv_env \<Rightarrow> nat \<Rightarrow> bytes" where
  "junk_buffer env n = map (e_junk env) [0..<n]"

definition sv_send :: "sv_env \<Rightarrow> bt_gatt_server \<Rightarrow> u8 \<Rightarrow> bytes option \<Rightarrow> u16 \<Rightarrow> bt_gatt_server option" where
  "sv_send env server opcode pdu len =
     map_option (\<lambda>(_, att). server\<lparr>sv_att := att\<rparr>) (bt_att_send (e_att env) (sv_att server) opcode pdu len None 0 None)"

definition sv_error :: "sv_env \<Rightarrow> bt_gatt_server \<Rightarrow> u8 \<Rightarrow> u16 \<Rightarrow> int \<Rightarrow> bt_gatt_server option" where
  "sv_error env server opcode handle err =
     map_option (\<lambda>(_, att). server\<lparr>sv_att := att\<rparr>) (bt_att_send_error_rsp (e_att env) (sv_att server) opcode handle err)"

text \<open>Reading and writing the attribute at a pointer: the result, the arguments of the function if it was called at once, and the
  database.\<close>

definition called_at_once :: "db_event list \<Rightarrow> (int \<times> bytes option \<times> nat) option" where
  "called_at_once es = (case es of [ReadDone _ err v len] \<Rightarrow> Some (err, v, len) | [WriteDone _ err] \<Rightarrow> Some (err, None, 0) | _ \<Rightarrow> None)"

definition read_attribute ::
  "sv_env \<Rightarrow> gatt_db \<Rightarrow> attr_ptr \<Rightarrow> u16 \<Rightarrow> u8 \<Rightarrow> nat \<Rightarrow> nat \<Rightarrow> (bool \<times> (int \<times> bytes option \<times> nat) option \<times> gatt_db) option" where
  "read_attribute env db x offset opcode fn user_data = do {
     a \<leftarrow> attribute_at db x;
     (ok, a', es) \<leftarrow> gatt_db_attribute_read (Some a) offset opcode (Some fn) user_data (e_tid env);
     b \<leftarrow> a';
     db \<leftarrow> set_attribute db x b;
     Some (ok, called_at_once es, emit es db)
   }"

definition write_attribute ::
  "sv_env \<Rightarrow> gatt_db \<Rightarrow> attr_ptr \<Rightarrow> u16 \<Rightarrow> bytes \<Rightarrow> u8 \<Rightarrow> nat \<Rightarrow> nat \<Rightarrow> (bool \<times> (int \<times> bytes option \<times> nat) option \<times> gatt_db) option" where
  "write_attribute env db x offset bs opcode fn user_data = do {
     a \<leftarrow> attribute_at db x;
     (ok, a', es) \<leftarrow> gatt_db_attribute_write (Some a) offset bs opcode (Some fn) user_data (e_tid env) (e_junk env);
     b \<leftarrow> a';
     db \<leftarrow> set_attribute db x b;
     Some (ok, called_at_once es, emit es db)
   }"

definition get_uuid_le :: "bytes \<Rightarrow> bt_uuid_t option" where
  "get_uuid_le uuid =
     (if length uuid = 2 then Some (bt_uuid16_create (le16_of uuid))
      else if length uuid = 16 then map_option bt_uuid128_create (bswap_128 uuid)
      else None)"

text \<open>The error code, 0 for none.\<close>

definition check_permissions :: "sv_env \<Rightarrow> bt_gatt_server \<Rightarrow> gatt_db_attribute \<Rightarrow> u32 \<Rightarrow> int" where
  "check_permissions env server attr msk =
     (let perm = gatt_db_attribute_get_permissions (Some attr)
      in if perm \<noteq> 0 \<and> msk AND BT_ATT_PERM_READ \<noteq> 0 \<and> perm AND BT_ATT_PERM_READ = 0 then BT_ATT_ERROR_READ_NOT_PERMITTED
         else if perm \<noteq> 0 \<and> msk AND BT_ATT_PERM_WRITE \<noteq> 0 \<and> perm AND BT_ATT_PERM_WRITE = 0 then BT_ATT_ERROR_WRITE_NOT_PERMITTED
         else
           let perm = perm AND msk
           in if perm = 0 then 0
              else
                let security = bt_att_get_security (e_att env) (sv_att server)
                in if perm AND BT_ATT_PERM_SECURE \<noteq> 0 \<and> security < BT_ATT_SECURITY_FIPS then BT_ATT_ERROR_AUTHENTICATION
                   else if perm AND BT_ATT_PERM_AUTHEN \<noteq> 0 \<and> security < BT_ATT_SECURITY_HIGH then BT_ATT_ERROR_AUTHENTICATION
                   else if perm AND BT_ATT_PERM_ENCRYPT \<noteq> 0 \<and> security < BT_ATT_SECURITY_MEDIUM then BT_ATT_ERROR_INSUFFICIENT_ENCRYPTION
                   else 0)"

definition READ_MASK :: u32 where
  "READ_MASK = BT_ATT_PERM_READ OR BT_ATT_PERM_READ_AUTHEN OR BT_ATT_PERM_READ_ENCRYPT"

definition WRITE_MASK :: u32 where
  "WRITE_MASK = BT_ATT_PERM_WRITE OR BT_ATT_PERM_WRITE_AUTHEN OR BT_ATT_PERM_WRITE_ENCRYPT"

section \<open>Read By Group Type\<close>

text \<open>The loop over the queue, with \<^verbatim>\<open>iter\<close> and \<^verbatim>\<open>data_val_len\<close>; the result, the PDU, its length and the database.\<close>

fun encode_read_by_grp_type_rsp ::
  "sv_env \<Rightarrow> gatt_db \<Rightarrow> attr_ptr list \<Rightarrow> u16 \<Rightarrow> bytes \<Rightarrow> nat \<Rightarrow> nat \<Rightarrow> (bool \<times> bytes \<times> nat \<times> gatt_db) option" where
  "encode_read_by_grp_type_rsp env db [] mtu pdu iter data_val_len = Some (True, pdu, iter, db)"
| "encode_read_by_grp_type_rsp env db (attrib # q) mtu pdu iter data_val_len = do {
     (ok, r, db) \<leftarrow> read_attribute env db attrib 0 BT_ATT_OP_READ_BY_GRP_TYPE_REQ ATTRIBUTE_READ_CB 0;
     (case r of
        None \<Rightarrow> Some (False, pdu, 0, db)
      | Some (_, v, iov_len) \<Rightarrow>
          if \<not> ok \<or> iov_len = 0 then Some (False, pdu, 0, db)
          else do {
            (first, iter, data_val_len, pdu) \<leftarrow>
              (if iter = 0
               then let n = min (min (unat mtu - 6) 251) iov_len
                    in map_option (\<lambda>p. (True, 1, n, p)) (store8 pdu 0 (of_nat (n + 4)))
               else Some (False, iter, data_val_len, pdu));
            (if \<not> first \<and> iov_len \<noteq> data_val_len then Some (True, pdu, iter, db)
             else if unat mtu - 1 < iter + data_val_len + 4 then Some (True, pdu, iter, db)
             else do {
               s \<leftarrow> service_at db (fst attrib);
               (start_handle, end_handle) \<leftarrow> gatt_db_service_get_handles s;
               pdu \<leftarrow> mem_write pdu iter (le16 start_handle);
               pdu \<leftarrow> mem_write pdu (iter + 2) (le16 end_handle);
               w \<leftarrow> v;
               pdu \<leftarrow> memcpy pdu (iter + 4) w 0 data_val_len;
               encode_read_by_grp_type_rsp env db q mtu pdu (iter + data_val_len + 4) data_val_len
             })
          })
   }"

definition read_by_grp_type_cb :: "sv_env \<Rightarrow> bt_gatt_server \<Rightarrow> u8 \<Rightarrow> bytes \<Rightarrow> bt_gatt_server option" where
  "read_by_grp_type_cb env server opcode pdu =
     (let mtu = att_mtu (sv_att server)
      in if length pdu \<noteq> 6 \<and> length pdu \<noteq> 20 then sv_error env server opcode 0 BT_ATT_ERROR_INVALID_PDU
         else do {
           start \<leftarrow> pdu_le16 pdu 0;
           endh \<leftarrow> pdu_le16 pdu 2;
           type \<leftarrow> get_uuid_le (drop 4 pdu);
           (if start = 0 \<or> endh = 0 then sv_error env server opcode 0 BT_ATT_ERROR_INVALID_HANDLE
            else if endh < start then sv_error env server opcode start BT_ATT_ERROR_INVALID_HANDLE
            else do {
              c1 \<leftarrow> bt_uuid_cmp type (bt_uuid16_create GATT_PRIM_SVC_UUID);
              c2 \<leftarrow> bt_uuid_cmp type (bt_uuid16_create GATT_SND_SVC_UUID);
              (if c1 \<noteq> 0 \<and> c2 \<noteq> 0 then sv_error env server opcode start BT_ATT_ERROR_UNSUPPORTED_GROUP_TYPE
               else do {
                 q \<leftarrow> gatt_db_read_by_group_type (sv_db server) start endh type [];
                 (if q = [] then sv_error env server opcode start BT_ATT_ERROR_ATTRIBUTE_NOT_FOUND
                  else do {
                    (ok, rsp_pdu, rsp_len, db) \<leftarrow> encode_read_by_grp_type_rsp env (sv_db server) q mtu (junk_buffer env (unat mtu)) 0 0;
                    let server = server\<lparr>sv_db := db\<rparr>;
                    (if \<not> ok then sv_error env server opcode start BT_ATT_ERROR_UNLIKELY
                     else sv_send env server BT_ATT_OP_READ_BY_GRP_TYPE_RSP (Some rsp_pdu) (of_nat rsp_len))
                  })
               })
            })
         })"

section \<open>Read By Type\<close>

text \<open>The end of \<^verbatim>\<open>read_by_type_read_complete_cb\<close> calls \<^verbatim>\<open>process_read_by_type\<close>.  \<open>Inl\<close>: the operation ended with an error; \<open>Inr\<close>: the
  operation before that call.\<close>

definition read_by_type_read_complete ::
  "sv_env \<Rightarrow> bt_gatt_server \<Rightarrow> async_read_op \<Rightarrow> gatt_db_attribute \<Rightarrow> int \<Rightarrow> bytes option \<Rightarrow> nat
     \<Rightarrow> (bt_gatt_server + async_read_op) option" where
  "read_by_type_read_complete env server op attr err v len =
     (let mtu = unat (att_mtu (sv_att server));
          handle = gatt_db_attribute_get_handle (Some attr)
      in if err \<noteq> 0
         then map_option (\<lambda>s. Inl (s\<lparr>pending_read_op := None\<rparr>)) (sv_error env server BT_ATT_OP_READ_BY_TYPE_REQ handle err)
         else do {
           first \<leftarrow> Some (ro_pdu_len op = 0);
           op \<leftarrow> (if first
                  then let n = min (min (mtu - 4) 253) len
                       in map_option (\<lambda>p. op\<lparr>ro_value_len := n, ro_pdu := p, ro_pdu_len := 1\<rparr>) (store8 (ro_pdu op) 0 (of_nat (n + 2)))
                  else Some op);
           (if \<not> first \<and> len \<noteq> ro_value_len op then Some (Inr (op\<lparr>ro_done := True\<rparr>))
            else if mtu - 1 < ro_pdu_len op + ro_value_len op + 2 then Some (Inr (op\<lparr>ro_done := True\<rparr>))
            else do {
              p \<leftarrow> mem_write (ro_pdu op) (ro_pdu_len op) (le16 handle);
              w \<leftarrow> (if ro_value_len op = 0 then Some [] else v);
              p \<leftarrow> memcpy p (ro_pdu_len op + 2) w 0 (ro_value_len op);
              let op = op\<lparr>ro_pdu := p, ro_pdu_len := ro_pdu_len op + ro_value_len op + 2\<rparr>;
              Some (Inr (if ro_pdu_len op = mtu - 1 then op\<lparr>ro_done := True\<rparr> else op))
            })
         })"

text \<open>\<open>addr\<close> is the address of the operation and \<open>q\<close> its queue \<^verbatim>\<open>db_data\<close>.\<close>

fun process_read_by_type :: "sv_env \<Rightarrow> bt_gatt_server \<Rightarrow> nat \<Rightarrow> async_read_op \<Rightarrow> attr_ptr list \<Rightarrow> bt_gatt_server option" where
  "process_read_by_type env server addr op [] =
     map_option (\<lambda>s. s\<lparr>pending_read_op := None\<rparr>)
       (sv_send env server BT_ATT_OP_READ_BY_TYPE_RSP (Some (ro_pdu op)) (of_nat (ro_pdu_len op)))"
| "process_read_by_type env server addr op (x # q) =
     (if ro_done op
      then map_option (\<lambda>s. s\<lparr>pending_read_op := None\<rparr>)
             (sv_send env server BT_ATT_OP_READ_BY_TYPE_RSP (Some (ro_pdu op)) (of_nat (ro_pdu_len op)))
      else do {
        attr \<leftarrow> attribute_at (sv_db server) x;
        let fail = (\<lambda>s ecode. map_option (\<lambda>s. s\<lparr>pending_read_op := None\<rparr>)
                      (sv_error env s BT_ATT_OP_READ_BY_TYPE_REQ (gatt_db_attribute_get_handle (Some attr)) ecode));
        let ecode = check_permissions env server attr READ_MASK;
        (if ecode \<noteq> 0 then fail server ecode
         else do {
           (ok, r, db) \<leftarrow> read_attribute env (sv_db server) x 0 (ro_opcode op) READ_BY_TYPE_COMPLETE_CB addr;
           let server = server\<lparr>sv_db := db\<rparr>;
           (if \<not> ok then fail server BT_ATT_ERROR_UNLIKELY
            else (case r of
                    None \<Rightarrow> Some (server\<lparr>pending_read_op := Some (addr, op\<lparr>ro_db_data := q\<rparr>)\<rparr>)
                  | Some (err, v, len) \<Rightarrow> do {
                      next \<leftarrow> read_by_type_read_complete env server op attr err v len;
                      (case next of Inl s \<Rightarrow> Some s | Inr op \<Rightarrow> process_read_by_type env server addr op q)
                    }))
         })
      })"

definition read_by_type_cb :: "sv_env \<Rightarrow> bt_gatt_server \<Rightarrow> u8 \<Rightarrow> bytes \<Rightarrow> bt_gatt_server option" where
  "read_by_type_cb env server opcode pdu =
     (if length pdu \<noteq> 6 \<and> length pdu \<noteq> 20 then sv_error env server opcode 0 BT_ATT_ERROR_INVALID_PDU
      else do {
        start \<leftarrow> pdu_le16 pdu 0;
        endh \<leftarrow> pdu_le16 pdu 2;
        type \<leftarrow> get_uuid_le (drop 4 pdu);
        (if start = 0 \<or> endh = 0 then sv_error env server opcode 0 BT_ATT_ERROR_INVALID_HANDLE
         else if endh < start then sv_error env server opcode start BT_ATT_ERROR_INVALID_HANDLE
         else do {
           q \<leftarrow> gatt_db_read_by_type (sv_db server) start endh type [];
           (if q = [] then sv_error env server opcode start BT_ATT_ERROR_ATTRIBUTE_NOT_FOUND
            else if pending_read_op server \<noteq> None then sv_error env server opcode start BT_ATT_ERROR_UNLIKELY
            else
              let op = \<lparr>ro_opcode = opcode, ro_done = False, ro_pdu = junk_buffer env (unat (att_mtu (sv_att server))), ro_pdu_len = 0,
                         ro_value_len = 0, ro_db_data = q\<rparr>;
                  addr = sv_brk server
              in process_read_by_type env (server\<lparr>pending_read_op := Some (addr, op), sv_brk := addr + 1\<rparr>) addr op q)
         })
      })"

section \<open>Find Information\<close>

fun encode_find_info_rsp :: "gatt_db \<Rightarrow> attr_ptr list \<Rightarrow> u16 \<Rightarrow> bytes \<Rightarrow> nat \<Rightarrow> int \<Rightarrow> (bool \<times> bytes \<times> nat) option" where
  "encode_find_info_rsp db [] mtu pdu iter uuid_len = Some (True, pdu, iter)"
| "encode_find_info_rsp db (x # q) mtu pdu iter uuid_len = do {
     attr \<leftarrow> attribute_at db x;
     let handle = gatt_db_attribute_get_handle (Some attr);
     type \<leftarrow> gatt_db_attribute_get_type (Some attr);
     (if handle = 0 then Some (False, pdu, 0)
      else
        let cur_uuid_len = bt_uuid_len type
        in if iter = 0 \<and> cur_uuid_len \<noteq> 2 \<and> cur_uuid_len \<noteq> 4 \<and> cur_uuid_len \<noteq> 16 then Some (False, pdu, 0)
           else do {
             (first, iter, uuid_len, pdu) \<leftarrow>
               (if iter = 0
                then if cur_uuid_len = 2 then map_option (\<lambda>p. (True, 1, 2, p)) (store8 pdu 0 1)
                     else map_option (\<lambda>p. (True, 1, 16, p)) (store8 pdu 0 2)
                else Some (False, iter, uuid_len, pdu));
             (if \<not> first \<and> cur_uuid_len \<noteq> uuid_len then Some (True, pdu, iter)
              else if int (unat mtu) - 1 < int iter + uuid_len + 2 then Some (True, pdu, iter)
              else do {
                pdu \<leftarrow> mem_write pdu iter (le16 handle);
                (_, rest) \<leftarrow> bt_uuid_to_le type (drop (iter + 2) pdu);
                encode_find_info_rsp db q mtu (take (iter + 2) pdu @ rest) (iter + nat uuid_len + 2) uuid_len
              })
           })
   }"

definition find_info_cb :: "sv_env \<Rightarrow> bt_gatt_server \<Rightarrow> u8 \<Rightarrow> bytes \<Rightarrow> bt_gatt_server option" where
  "find_info_cb env server opcode pdu =
     (let mtu = att_mtu (sv_att server)
      in if length pdu \<noteq> 4 then sv_error env server opcode 0 BT_ATT_ERROR_INVALID_PDU
         else do {
           start \<leftarrow> pdu_le16 pdu 0;
           endh \<leftarrow> pdu_le16 pdu 2;
           (if start = 0 \<or> endh = 0 then sv_error env server opcode 0 BT_ATT_ERROR_INVALID_HANDLE
            else if endh < start then sv_error env server opcode start BT_ATT_ERROR_INVALID_HANDLE
            else do {
              q \<leftarrow> gatt_db_find_information (sv_db server) start endh [];
              (if q = [] then sv_error env server opcode start BT_ATT_ERROR_ATTRIBUTE_NOT_FOUND
               else do {
                 (ok, rsp_pdu, rsp_len) \<leftarrow> encode_find_info_rsp (sv_db server) q mtu (junk_buffer env (unat mtu)) 0 0;
                 (if \<not> ok then sv_error env server opcode start BT_ATT_ERROR_UNLIKELY
                  else sv_send env server BT_ATT_OP_FIND_INFO_RSP (Some rsp_pdu) (of_nat rsp_len))
               })
            })
         })"

section \<open>Find By Type Value\<close>

text \<open>\<^verbatim>\<open>struct find_by_type_val_data\<close> is the PDU, its length and the error code.\<close>

definition find_by_type_val_att_cb :: "gatt_db \<Rightarrow> u16 \<Rightarrow> attr_ptr \<Rightarrow> bytes \<times> u16 \<times> int \<Rightarrow> (bytes \<times> u16 \<times> int) option" where
  "find_by_type_val_att_cb db mtu x data =
     (let (pdu, len, ecode) = data
      in if ecode \<noteq> 0 then Some data
         else if int (unat mtu) - 1 < int (unat len) + 4 then Some data
         else do {
           s \<leftarrow> service_at db (fst x);
           (handle, end_handle) \<leftarrow> gatt_db_service_get_handles s;
           (if handle = 0 \<or> end_handle = 0 then Some (pdu, len, BT_ATT_ERROR_UNLIKELY)
            else do {
              pdu \<leftarrow> mem_write pdu (unat len) (le16 handle);
              pdu \<leftarrow> mem_write pdu (unat len + 2) (le16 end_handle);
              Some (pdu, len + 4, 0)
            })
         })"

fun find_by_type_val_atts :: "gatt_db \<Rightarrow> u16 \<Rightarrow> attr_ptr list \<Rightarrow> bytes \<times> u16 \<times> int \<Rightarrow> (bytes \<times> u16 \<times> int) option" where
  "find_by_type_val_atts db mtu [] data = Some data"
| "find_by_type_val_atts db mtu (x # xs) data = do { data \<leftarrow> find_by_type_val_att_cb db mtu x data; find_by_type_val_atts db mtu xs data }"

definition find_by_type_val_cb :: "sv_env \<Rightarrow> bt_gatt_server \<Rightarrow> u8 \<Rightarrow> bytes \<Rightarrow> bt_gatt_server option" where
  "find_by_type_val_cb env server opcode pdu =
     (let mtu = att_mtu (sv_att server)
      in if length pdu < 6 then sv_error env server opcode 0 BT_ATT_ERROR_INVALID_PDU
         else do {
           start \<leftarrow> pdu_le16 pdu 0;
           endh \<leftarrow> pdu_le16 pdu 2;
           uuid16 \<leftarrow> pdu_le16 pdu 4;
           (if endh < start then sv_error env server opcode start BT_ATT_ERROR_INVALID_HANDLE
            else do {
              (_, xs) \<leftarrow> gatt_db_find_by_type_value (sv_db server) 0 start endh (bt_uuid16_create uuid16) (Some (drop 6 pdu));
              (rsp, len, ecode) \<leftarrow> find_by_type_val_atts (sv_db server) mtu xs (junk_buffer env (unat mtu), 0, 0);
              let ecode = (if len = 0 then BT_ATT_ERROR_ATTRIBUTE_NOT_FOUND else ecode);
              (if ecode \<noteq> 0 then sv_error env server opcode start ecode
               else sv_send env server BT_ATT_OP_FIND_BY_TYPE_RSP (Some rsp) len)
            })
         })"

section \<open>Writing\<close>

text \<open>The server is alive: \<^verbatim>\<open>op->server\<close> is not NULL.\<close>

definition write_complete_cb :: "sv_env \<Rightarrow> bt_gatt_server \<Rightarrow> gatt_db_attribute \<Rightarrow> int \<Rightarrow> nat \<Rightarrow> bt_gatt_server option" where
  "write_complete_cb env server attr err addr = do {
     (a, op) \<leftarrow> pending_write_op server;
     (if a \<noteq> addr then None
      else if wo_opcode op = BT_ATT_OP_WRITE_CMD then Some (server\<lparr>pending_write_op := None\<rparr>)
      else map_option (\<lambda>s. s\<lparr>pending_write_op := None\<rparr>)
             (if err \<noteq> 0 then sv_error env server (wo_opcode op) (gatt_db_attribute_get_handle (Some attr)) err
              else sv_send env server BT_ATT_OP_WRITE_RSP None 0))
   }"

definition write_cb :: "sv_env \<Rightarrow> bt_gatt_server \<Rightarrow> u8 \<Rightarrow> bytes \<Rightarrow> bt_gatt_server option" where
  "write_cb env server opcode pdu =
     (let fail = (\<lambda>s handle ecode. if opcode = BT_ATT_OP_WRITE_CMD then Some s else sv_error env s opcode handle ecode)
      in if length pdu < 2 then fail server 0 BT_ATT_ERROR_INVALID_PDU
         else do {
           handle \<leftarrow> pdu_le16 pdu 0;
           found \<leftarrow> gatt_db_get_attribute (Some (sv_db server)) handle;
           (case found of
              None \<Rightarrow> fail server handle BT_ATT_ERROR_INVALID_HANDLE
            | Some x \<Rightarrow> do {
                attr \<leftarrow> attribute_at (sv_db server) x;
                let ecode = check_permissions env server attr WRITE_MASK;
                (if ecode \<noteq> 0 then fail server handle ecode
                 else if pending_write_op server \<noteq> None then fail server handle BT_ATT_ERROR_UNLIKELY
                 else do {
                   let addr = sv_brk server;
                   let server = server\<lparr>pending_write_op := Some (addr, \<lparr>wo_opcode = opcode\<rparr>), sv_brk := addr + 1\<rparr>;
                   (ok, r, db) \<leftarrow> write_attribute env (sv_db server) x 0 (drop 2 pdu) opcode WRITE_COMPLETE_CB addr;
                   let server = server\<lparr>sv_db := db\<rparr>;
                   (case r of
                      Some (err, _) \<Rightarrow> do { attr \<leftarrow> attribute_at db x; write_complete_cb env server attr err addr }
                    | None \<Rightarrow> if ok then Some server else fail (server\<lparr>pending_write_op := None\<rparr>) handle BT_ATT_ERROR_UNLIKELY)
                 })
              })
         })"

section \<open>Reading\<close>

definition get_read_rsp_opcode :: "u8 \<Rightarrow> u8" where
  "get_read_rsp_opcode opcode =
     (if opcode = BT_ATT_OP_READ_REQ then BT_ATT_OP_READ_RSP
      else if opcode = BT_ATT_OP_READ_BLOB_REQ then BT_ATT_OP_READ_BLOB_RSP
      else 0)"

definition read_complete_cb ::
  "sv_env \<Rightarrow> bt_gatt_server \<Rightarrow> gatt_db_attribute \<Rightarrow> int \<Rightarrow> bytes option \<Rightarrow> nat \<Rightarrow> nat \<Rightarrow> bt_gatt_server option" where
  "read_complete_cb env server attr err v len addr = do {
     (a, op) \<leftarrow> pending_read_op server;
     (if a \<noteq> addr then None
      else map_option (\<lambda>s. s\<lparr>pending_read_op := None\<rparr>)
             (if err \<noteq> 0 then sv_error env server (ro_opcode op) (gatt_db_attribute_get_handle (Some attr)) err
              else sv_send env server (get_read_rsp_opcode (ro_opcode op)) (if len \<noteq> 0 then v else None)
                     (of_nat (min (unat (att_mtu (sv_att server)) - 1) len))))
   }"

definition handle_read_req :: "sv_env \<Rightarrow> bt_gatt_server \<Rightarrow> u8 \<Rightarrow> u16 \<Rightarrow> u16 \<Rightarrow> bt_gatt_server option" where
  "handle_read_req env server opcode handle offset = do {
     found \<leftarrow> gatt_db_get_attribute (Some (sv_db server)) handle;
     (case found of
        None \<Rightarrow> sv_error env server opcode handle BT_ATT_ERROR_INVALID_HANDLE
      | Some x \<Rightarrow> do {
          attr \<leftarrow> attribute_at (sv_db server) x;
          let ecode = check_permissions env server attr READ_MASK;
          (if ecode \<noteq> 0 then sv_error env server opcode handle ecode
           else if pending_read_op server \<noteq> None then sv_error env server opcode handle BT_ATT_ERROR_UNLIKELY
           else do {
             let addr = sv_brk server;
             let op = \<lparr>ro_opcode = opcode, ro_done = False, ro_pdu = [], ro_pdu_len = 0, ro_value_len = 0, ro_db_data = []\<rparr>;
             let server = server\<lparr>pending_read_op := Some (addr, op), sv_brk := addr + 1\<rparr>;
             (ok, r, db) \<leftarrow> read_attribute env (sv_db server) x offset opcode READ_COMPLETE_CB addr;
             let server = server\<lparr>sv_db := db\<rparr>;
             (case r of
                Some (err, v, len) \<Rightarrow> read_complete_cb env server attr err v len addr
              | None \<Rightarrow> if ok then Some server
                        else sv_error env (server\<lparr>pending_read_op := None\<rparr>) opcode handle BT_ATT_ERROR_UNLIKELY)
           })
        })
   }"

definition read_cb :: "sv_env \<Rightarrow> bt_gatt_server \<Rightarrow> u8 \<Rightarrow> bytes \<Rightarrow> bt_gatt_server option" where
  "read_cb env server opcode pdu =
     (if length pdu \<noteq> 2 then sv_error env server opcode 0 BT_ATT_ERROR_INVALID_PDU
      else do { handle \<leftarrow> pdu_le16 pdu 0; handle_read_req env server opcode handle 0 })"

definition read_blob_cb :: "sv_env \<Rightarrow> bt_gatt_server \<Rightarrow> u8 \<Rightarrow> bytes \<Rightarrow> bt_gatt_server option" where
  "read_blob_cb env server opcode pdu =
     (if length pdu \<noteq> 4 then sv_error env server opcode 0 BT_ATT_ERROR_INVALID_PDU
      else do { handle \<leftarrow> pdu_le16 pdu 0; offset \<leftarrow> pdu_le16 pdu 2; handle_read_req env server opcode handle offset })"

section \<open>Read Multiple\<close>

text \<open>\<^verbatim>\<open>read_multiple_complete_cb\<close> up to the choice of the next attribute.  \<open>Inl\<close>: the answer was sent.\<close>

definition read_multiple_step ::
  "sv_env \<Rightarrow> bt_gatt_server \<Rightarrow> read_multiple_resp_data \<Rightarrow> gatt_db_attribute \<Rightarrow> int \<Rightarrow> bytes option \<Rightarrow> nat
     \<Rightarrow> (bt_gatt_server + read_multiple_resp_data) option" where
  "read_multiple_step env server data attr err v len =
     (let handle = gatt_db_attribute_get_handle (Some attr);
          ecode = check_permissions env server attr READ_MASK
      in if err \<noteq> 0 then map_option Inl (sv_error env server BT_ATT_OP_READ_MULT_REQ handle err)
         else if ecode \<noteq> 0 then map_option Inl (sv_error env server BT_ATT_OP_READ_MULT_REQ handle ecode)
         else do {
           let n = min len (rm_mtu data - rm_length data - 1);
           w \<leftarrow> (if n = 0 then Some [] else v);
           rsp \<leftarrow> memcpy (rm_rsp_data data) (rm_length data) w 0 n;
           let data = data\<lparr>rm_rsp_data := rsp, rm_length := rm_length data + n, rm_cur_handle := rm_cur_handle data + 1\<rparr>;
           (if rm_mtu data - 1 \<le> rm_length data \<or> rm_cur_handle data = length (rm_handles data)
            then map_option Inl (sv_send env server BT_ATT_OP_READ_MULT_RSP (Some rsp) (of_nat (rm_length data)))
            else Some (Inr data))
         })"

text \<open>\<open>addr\<close> is the address of the local variable, \<open>hs\<close> are the handles behind the current one.  When the read is deferred the variable
  stays in \<open>sv_multi\<close> until the handler has returned.\<close>

fun read_multiple_complete_cb ::
  "sv_env \<Rightarrow> bt_gatt_server \<Rightarrow> nat \<Rightarrow> read_multiple_resp_data \<Rightarrow> gatt_db_attribute \<Rightarrow> int \<Rightarrow> bytes option \<Rightarrow> nat \<Rightarrow> u16 list
     \<Rightarrow> bt_gatt_server option" where
  "read_multiple_complete_cb env server addr data attr err v len hs = do {
     r \<leftarrow> read_multiple_step env (server\<lparr>sv_multi := None\<rparr>) data attr err v len;
     (case r of
        Inl s \<Rightarrow> Some s
      | Inr data \<Rightarrow>
          (case hs of
             [] \<Rightarrow> None
           | h # hs \<Rightarrow> do {
               found \<leftarrow> gatt_db_get_attribute (Some (sv_db server)) h;
               (case found of
                  None \<Rightarrow> sv_error env (server\<lparr>sv_multi := None\<rparr>) BT_ATT_OP_READ_MULT_REQ h BT_ATT_ERROR_INVALID_HANDLE
                | Some x \<Rightarrow> do {
                    attr \<leftarrow> attribute_at (sv_db server) x;
                    (ok, r, db) \<leftarrow> read_attribute env (sv_db server) x 0 BT_ATT_OP_READ_MULT_REQ READ_MULTIPLE_COMPLETE_CB addr;
                    (case r of
                       Some (err, v, len) \<Rightarrow> read_multiple_complete_cb env (server\<lparr>sv_db := db\<rparr>) addr data attr err v len hs
                     | None \<Rightarrow>
                         if ok then Some (server\<lparr>sv_db := db, sv_multi := Some (addr, data)\<rparr>)
                         else sv_error env (server\<lparr>sv_db := db, sv_multi := None\<rparr>) BT_ATT_OP_READ_MULT_REQ h BT_ATT_ERROR_UNLIKELY)
                  })
             }))
   }"

fun get_handles :: "bytes \<Rightarrow> nat \<Rightarrow> u16 list option" where
  "get_handles pdu 0 = Some []"
| "get_handles pdu (Suc n) = do { hs \<leftarrow> get_handles pdu n; h \<leftarrow> pdu_le16 pdu (n * 2); Some (hs @ [h]) }"

definition read_multiple_cb :: "sv_env \<Rightarrow> bt_gatt_server \<Rightarrow> u8 \<Rightarrow> bytes \<Rightarrow> bt_gatt_server option" where
  "read_multiple_cb env server opcode pdu =
     (if length pdu < 4 then sv_error env server opcode 0 BT_ATT_ERROR_INVALID_PDU
      else do {
        let mtu = unat (att_mtu (sv_att server));
        handles \<leftarrow> get_handles pdu (length pdu div 2);
        let data = \<lparr>rm_handles = handles, rm_cur_handle = 0, rm_rsp_data = junk_buffer env (mtu - 1), rm_length = 0, rm_mtu = mtu\<rparr>;
        found \<leftarrow> gatt_db_get_attribute (Some (sv_db server)) (hd handles);
        (case found of
           None \<Rightarrow> sv_error env server opcode 0 BT_ATT_ERROR_INVALID_HANDLE
         | Some x \<Rightarrow> do {
             attr \<leftarrow> attribute_at (sv_db server) x;
             let addr = sv_brk server;
             (ok, r, db) \<leftarrow> read_attribute env (sv_db server) x 0 opcode READ_MULTIPLE_COMPLETE_CB addr;
             let server = server\<lparr>sv_db := db, sv_brk := addr + 1\<rparr>;
             (case r of
                Some (err, v, len) \<Rightarrow> read_multiple_complete_cb env server addr data attr err v len (tl handles)
              | None \<Rightarrow> if ok then Some (server\<lparr>sv_multi := Some (addr, data)\<rparr>)
                        else sv_error env server opcode 0 BT_ATT_ERROR_UNLIKELY)
           })
      })"

section \<open>Prepared writes\<close>

text \<open>A length of 0 after the sum wrapped makes \<^verbatim>\<open>realloc\<close> free the value, which is freed again later.\<close>

definition append_prep_data :: "sv_env \<Rightarrow> prep_write_data \<Rightarrow> bytes \<Rightarrow> prep_write_data option" where
  "append_prep_data env prep_data bs =
     (if bs = [] then Some prep_data
      else
        let len = pw_length prep_data + of_nat (length bs);
            val = take (unat len) (pw_value prep_data) @ map (e_junk env) [length (pw_value prep_data)..<unat len]
        in if len = 0 then None
           else map_option (\<lambda>v. prep_data\<lparr>pw_value := v, pw_length := len\<rparr>) (mem_write val (unat (pw_length prep_data)) bs))"

text \<open>\<^verbatim>\<open>gatt_db_attribute_get_char_data\<close> with only the extended properties asked for.\<close>

definition get_char_ext_prop :: "sv_env \<Rightarrow> gatt_db \<Rightarrow> attr_ptr \<Rightarrow> (u16 option \<times> gatt_db) option" where
  "get_char_ext_prop env db x = do {
     a \<leftarrow> attribute_at db x;
     c \<leftarrow> bt_uuid_cmp characteristic_uuid (a_uuid a);
     (if c \<noteq> 0 \<or> a_value a = None \<or> a_value_len a \<noteq> 5 \<and> a_value_len a \<noteq> 19 then Some (None, db)
      else map_option (\<lambda>(e, db). (Some (ucast e), db)) (get_char_extended_prop db (Some x) READ_EXT_PROP_CB 0 (e_tid env)))
   }"

definition is_reliable_write_supported :: "sv_env \<Rightarrow> gatt_db \<Rightarrow> u16 \<Rightarrow> (bool \<times> gatt_db) option" where
  "is_reliable_write_supported env db handle = do {
     found \<leftarrow> gatt_db_get_attribute (Some db) handle;
     (case found of
        None \<Rightarrow> Some (False, db)
      | Some x \<Rightarrow> do {
          (e, db) \<leftarrow> get_char_ext_prop env db x;
          Some (case e of None \<Rightarrow> False | Some ext_prop \<Rightarrow> ext_prop AND BT_GATT_CHRC_EXT_PROP_RELIABLE_WRITE \<noteq> 0, db)
        })
   }"

definition prep_data_new :: "sv_env \<Rightarrow> bt_gatt_server \<Rightarrow> u16 \<Rightarrow> u16 \<Rightarrow> bytes \<Rightarrow> bt_gatt_server option" where
  "prep_data_new env server handle offset bs = do {
     prep_data \<leftarrow> append_prep_data env \<lparr>pw_value = [], pw_handle = 0, pw_offset = 0, pw_length = 0, pw_reliable_supported = False\<rparr> bs;
     (reliable, db) \<leftarrow> is_reliable_write_supported env (sv_db server) (handle - 1);
     let prep_data = prep_data\<lparr>pw_handle := handle, pw_offset := offset, pw_reliable_supported := reliable\<rparr>;
     Some (server\<lparr>sv_db := db, prep_queue := prep_queue server @ [prep_data]\<rparr>)
   }"

definition store_prep_data :: "sv_env \<Rightarrow> bt_gatt_server \<Rightarrow> u16 \<Rightarrow> u16 \<Rightarrow> bytes \<Rightarrow> bt_gatt_server option" where
  "store_prep_data env server handle offset bs =
     (let q = prep_queue server
      in if q \<noteq> [] \<and> pw_handle (last q) = handle \<and> unat offset = unat (pw_length (last q)) + unat (pw_offset (last q))
         then map_option (\<lambda>d. server\<lparr>prep_queue := butlast q @ [d]\<rparr>) (append_prep_data env (last q) bs)
         else prep_data_new env server handle offset bs)"

definition prep_write_cb :: "sv_env \<Rightarrow> bt_gatt_server \<Rightarrow> u8 \<Rightarrow> bytes \<Rightarrow> bt_gatt_server option" where
  "prep_write_cb env server opcode pdu =
     (if length pdu < 4 then sv_error env server opcode 0 BT_ATT_ERROR_INVALID_PDU
      else if unat (max_prep_queue_len server) \<le> length (prep_queue server)
      then sv_error env server opcode 0 BT_ATT_ERROR_PREPARE_QUEUE_FULL
      else do {
        handle \<leftarrow> pdu_le16 pdu 0;
        offset \<leftarrow> pdu_le16 pdu 2;
        found \<leftarrow> gatt_db_get_attribute (Some (sv_db server)) handle;
        (case found of
           None \<Rightarrow> sv_error env server opcode handle BT_ATT_ERROR_INVALID_HANDLE
         | Some x \<Rightarrow> do {
             attr \<leftarrow> attribute_at (sv_db server) x;
             let ecode = check_permissions env server attr WRITE_MASK;
             (if ecode \<noteq> 0 then sv_error env server opcode handle ecode
              else do {
                server \<leftarrow> store_prep_data env server handle offset (drop 4 pdu);
                sv_send env server BT_ATT_OP_PREP_WRITE_RSP (Some pdu) (of_nat (length pdu))
              })
           })
      })"

text \<open>The last argument is the queue of prepared writes.  The callback \<^verbatim>\<open>exec_write_complete_cb\<close> is the recursive call.\<close>

fun exec_next_prep_write :: "sv_env \<Rightarrow> bt_gatt_server \<Rightarrow> u16 \<Rightarrow> int \<Rightarrow> prep_write_data list \<Rightarrow> bt_gatt_server option" where
  "exec_next_prep_write env server ehandle err q =
     (let fail = (\<lambda>s e. sv_error env (s\<lparr>prep_queue := []\<rparr>) BT_ATT_OP_EXEC_WRITE_REQ ehandle e)
      in if err \<noteq> 0 then fail server err
         else (case q of
                 [] \<Rightarrow> sv_send env (server\<lparr>prep_queue := []\<rparr>) BT_ATT_OP_EXEC_WRITE_RSP None 0
               | pw # q \<Rightarrow> do {
                   found \<leftarrow> gatt_db_get_attribute (Some (sv_db server)) (pw_handle pw);
                   (case found of
                      None \<Rightarrow> fail server BT_ATT_ERROR_UNLIKELY
                    | Some x \<Rightarrow> do {
                        bs \<leftarrow> mem_read (pw_value pw) 0 (unat (pw_length pw));
                        (ok, r, db) \<leftarrow> write_attribute env (sv_db server) x (pw_offset pw) bs BT_ATT_OP_EXEC_WRITE_REQ EXEC_WRITE_COMPLETE_CB
                          (sv_addr server);
                        (case r of
                           Some (err, _) \<Rightarrow> do {
                             attr \<leftarrow> attribute_at db x;
                             exec_next_prep_write env (server\<lparr>sv_db := db\<rparr>) (gatt_db_attribute_get_handle (Some attr)) err q
                           }
                         | None \<Rightarrow> if ok then Some (server\<lparr>sv_db := db, prep_queue := q\<rparr>) else fail (server\<lparr>sv_db := db\<rparr>) BT_ATT_ERROR_UNLIKELY)
                      })
                 }))"

definition exec_write_cb :: "sv_env \<Rightarrow> bt_gatt_server \<Rightarrow> u8 \<Rightarrow> bytes \<Rightarrow> bt_gatt_server option" where
  "exec_write_cb env server opcode pdu =
     (let fail = (\<lambda>ehandle ecode. sv_error env (server\<lparr>prep_queue := []\<rparr>) opcode ehandle ecode)
      in if length pdu \<noteq> 1 then fail 0 BT_ATT_ERROR_INVALID_PDU
         else do {
           flags \<leftarrow> load8 pdu 0;
           (if flags \<noteq> 0 \<and> flags \<noteq> 1 then fail 0 BT_ATT_ERROR_INVALID_PDU
            else if flags = 0 then sv_send env (server\<lparr>prep_queue := []\<rparr>) BT_ATT_OP_EXEC_WRITE_RSP None 0
            else (case (if 1 < length (prep_queue server) then find (\<lambda>d. \<not> pw_reliable_supported d) (prep_queue server) else None) of
                    Some d \<Rightarrow> fail (pw_handle d) BT_ATT_ERROR_REQUEST_NOT_SUPPORTED
                  | None \<Rightarrow> exec_next_prep_write env server 0 0 (prep_queue server)))
         })"

section \<open>Exchange MTU\<close>

definition exchange_mtu_cb :: "sv_env \<Rightarrow> bt_gatt_server \<Rightarrow> u8 \<Rightarrow> bytes \<Rightarrow> bt_gatt_server option" where
  "exchange_mtu_cb env server opcode pdu =
     (if length pdu \<noteq> 2 then sv_error env server opcode 0 BT_ATT_ERROR_INVALID_PDU
      else do {
        client_rx_mtu \<leftarrow> pdu_le16 pdu 0;
        let final_mtu = max (min client_rx_mtu (sv_mtu server)) BT_ATT_DEFAULT_LE_MTU;
        server \<leftarrow> sv_send env server BT_ATT_OP_MTU_RSP (Some (le16 (sv_mtu server))) 2;
        Some (server\<lparr>sv_mtu := final_mtu, sv_att := snd (bt_att_set_mtu (sv_att server) final_mtu)\<rparr>)
      })"

section \<open>The server object\<close>

fun register_handlers :: "bt_att \<Rightarrow> nat \<Rightarrow> (u8 \<times> nat) list \<Rightarrow> bool \<times> u32 list \<times> bt_att" where
  "register_handlers att server [] = (True, [], att)"
| "register_handlers att server ((opcode, f) # hs) =
     (let (i, att) = bt_att_register att opcode (Some f) server None
      in if i = 0 then (False, [], att)
         else let (ok, is, att) = register_handlers att server hs in (ok, i # is, att))"

definition gatt_server_register_att_handlers :: "bt_gatt_server \<Rightarrow> bool \<times> bt_gatt_server" where
  "gatt_server_register_att_handlers server =
     (let (ok, is, att) = register_handlers (sv_att server) (sv_addr server)
            [(BT_ATT_OP_MTU_REQ, EXCHANGE_MTU_CB),
             (BT_ATT_OP_READ_BY_GRP_TYPE_REQ, READ_BY_GRP_TYPE_CB),
             (BT_ATT_OP_READ_BY_TYPE_REQ, READ_BY_TYPE_CB),
             (BT_ATT_OP_FIND_INFO_REQ, FIND_INFO_CB),
             (BT_ATT_OP_FIND_BY_TYPE_REQ, FIND_BY_TYPE_VAL_CB),
             (BT_ATT_OP_WRITE_REQ, WRITE_CB),
             (BT_ATT_OP_WRITE_CMD, WRITE_CB),
             (BT_ATT_OP_READ_REQ, READ_CB),
             (BT_ATT_OP_READ_BLOB_REQ, READ_BLOB_CB),
             (BT_ATT_OP_READ_MULT_REQ, READ_MULTIPLE_CB),
             (BT_ATT_OP_PREP_WRITE_REQ, PREP_WRITE_CB),
             (BT_ATT_OP_EXEC_WRITE_REQ, EXEC_WRITE_CB)]
      in (ok, server\<lparr>sv_ids := is, sv_att := att\<rparr>))"

text \<open>What is left of the database and of the transport when a server was freed.\<close>

definition bt_gatt_server_free :: "bt_gatt_server \<Rightarrow> ((db_event list + gatt_db) \<times> (att_event list + bt_att)) option" where
  "bt_gatt_server_free server = do {
     let att = fold (\<lambda>i att. snd (bt_att_unregister att i)) (sv_ids server) (sv_att server);
     db \<leftarrow> gatt_db_unref (sv_db server);
     Some (db, bt_att_unref att)
   }"

definition bt_gatt_server_ref :: "bt_gatt_server \<Rightarrow> bt_gatt_server" where
  "bt_gatt_server_ref server = server\<lparr>sv_ref_count := sv_ref_count server + 1\<rparr>"

definition bt_gatt_server_unref ::
  "bt_gatt_server \<Rightarrow> ((db_event list + gatt_db) \<times> (att_event list + bt_att) + bt_gatt_server) option" where
  "bt_gatt_server_unref server =
     (if sv_ref_count server - 1 \<noteq> 0 then Some (Inr (server\<lparr>sv_ref_count := sv_ref_count server - 1\<rparr>))
      else map_option Inl (bt_gatt_server_free server))"

definition bt_gatt_server_new ::
  "gatt_db \<Rightarrow> bt_att \<Rightarrow> u16 \<Rightarrow> nat \<Rightarrow> ((db_event list + gatt_db) \<times> (att_event list + bt_att) + bt_gatt_server) option" where
  "bt_gatt_server_new db att mtu addr = do {
     db \<leftarrow> gatt_db_ref (Some db);
     let (ok, server) = gatt_server_register_att_handlers
           \<lparr>sv_db = db, sv_att = bt_att_ref att, sv_addr = addr, sv_ref_count = 0, sv_mtu = max mtu BT_ATT_DEFAULT_LE_MTU, sv_ids = [],
             prep_queue = [], max_prep_queue_len = DEFAULT_MAX_PREP_QUEUE_LEN, pending_read_op = None, pending_write_op = None,
             sv_multi = None, sv_inds = [], sv_brk = 0\<rparr>;
     (if ok then Some (Inr (bt_gatt_server_ref server)) else map_option Inl (bt_gatt_server_free server))
   }"

section \<open>Notifications and indications\<close>

text \<open>The PDU of a notification or an indication; \<open>None\<close> inside when the arguments are refused.\<close>

definition value_pdu :: "sv_env \<Rightarrow> bt_gatt_server \<Rightarrow> u16 \<Rightarrow> bytes option \<Rightarrow> u16 \<Rightarrow> (bytes \<times> u16) option" where
  "value_pdu env server handle bs len = do {
     let n = min (unat (att_mtu (sv_att server)) - 1) (unat len + 2);
     pdu \<leftarrow> mem_write (junk_buffer env n) 0 (le16 handle);
     w \<leftarrow> (if n = 2 then Some [] else bs);
     pdu \<leftarrow> memcpy pdu 2 w 0 (n - 2);
     Some (pdu, of_nat n)
   }"

definition bt_gatt_server_send_notification ::
  "sv_env \<Rightarrow> bt_gatt_server \<Rightarrow> u16 \<Rightarrow> bytes option \<Rightarrow> u16 \<Rightarrow> (bool \<times> bt_gatt_server) option" where
  "bt_gatt_server_send_notification env server handle bs len =
     (if len \<noteq> 0 \<and> bs = None then Some (False, server)
      else do {
        (pdu, n) \<leftarrow> value_pdu env server handle bs len;
        (i, att) \<leftarrow> bt_att_send (e_att env) (sv_att server) BT_ATT_OP_HANDLE_VAL_NOT (Some pdu) n None 0 None;
        Some (i \<noteq> 0, server\<lparr>sv_att := att\<rparr>)
      })"

text \<open>The functions that the data of an indication has called, with their user data.\<close>

definition conf_cb :: "bt_gatt_server \<Rightarrow> nat \<Rightarrow> (nat \<times> nat) list option" where
  "conf_cb server addr = do {
     data \<leftarrow> map_of (sv_inds server) addr;
     Some (case in_callback data of None \<Rightarrow> [] | Some f \<Rightarrow> [(f, in_user_data data)])
   }"

definition destroy_ind_data :: "bt_gatt_server \<Rightarrow> nat \<Rightarrow> ((nat \<times> nat) list \<times> bt_gatt_server) option" where
  "destroy_ind_data server addr = do {
     data \<leftarrow> map_of (sv_inds server) addr;
     Some (case in_destroy data of None \<Rightarrow> [] | Some f \<Rightarrow> [(f, in_user_data data)],
           server\<lparr>sv_inds := filter (\<lambda>(a, _). a \<noteq> addr) (sv_inds server)\<rparr>)
   }"

definition bt_gatt_server_send_indication ::
  "sv_env \<Rightarrow> bt_gatt_server \<Rightarrow> u16 \<Rightarrow> bytes option \<Rightarrow> u16 \<Rightarrow> nat option \<Rightarrow> nat \<Rightarrow> nat option
     \<Rightarrow> (bool \<times> (nat \<times> nat) list \<times> bt_gatt_server) option" where
  "bt_gatt_server_send_indication env server handle bs len callback user_data destroy =
     (if len \<noteq> 0 \<and> bs = None then Some (False, [], server)
      else do {
        (pdu, n) \<leftarrow> value_pdu env server handle bs len;
        let addr = sv_brk server;
        let server = server\<lparr>sv_inds := (addr, \<lparr>in_callback = callback, in_destroy = destroy, in_user_data = user_data\<rparr>) # sv_inds server,
              sv_brk := addr + 1\<rparr>;
        (i, att) \<leftarrow> bt_att_send (e_att env) (sv_att server) BT_ATT_OP_HANDLE_VAL_IND (Some pdu) n (Some CONF_CB) addr (Some DESTROY_IND_DATA);
        let server = server\<lparr>sv_att := att\<rparr>;
        (if i \<noteq> 0 then Some (True, [], server)
         else map_option (\<lambda>(calls, s). (False, calls, s)) (destroy_ind_data server addr))
      })"

section \<open>Events\<close>

text \<open>A received request or command is given to the handler that was registered for it.  The handlers only queue PDUs, so that
  they can run after the transport has recorded the calls.\<close>

definition sv_handler :: "sv_env \<Rightarrow> bt_gatt_server \<Rightarrow> nat \<Rightarrow> u8 \<Rightarrow> bytes \<Rightarrow> bt_gatt_server option" where
  "sv_handler env server f opcode pdu =
     (if f = EXCHANGE_MTU_CB then exchange_mtu_cb env server opcode pdu
      else if f = READ_BY_GRP_TYPE_CB then read_by_grp_type_cb env server opcode pdu
      else if f = READ_BY_TYPE_CB then read_by_type_cb env server opcode pdu
      else if f = FIND_INFO_CB then find_info_cb env server opcode pdu
      else if f = FIND_BY_TYPE_VAL_CB then find_by_type_val_cb env server opcode pdu
      else if f = WRITE_CB then write_cb env server opcode pdu
      else if f = READ_CB then read_cb env server opcode pdu
      else if f = READ_BLOB_CB then read_blob_cb env server opcode pdu
      else if f = READ_MULTIPLE_CB then read_multiple_cb env server opcode pdu
      else if f = PREP_WRITE_CB then prep_write_cb env server opcode pdu
      else if f = EXEC_WRITE_CB then exec_write_cb env server opcode pdu
      else Some server)"

fun run_notifies :: "sv_env \<Rightarrow> bt_gatt_server \<Rightarrow> att_event list \<Rightarrow> bt_gatt_server option" where
  "run_notifies env server [] = Some server"
| "run_notifies env server (NotifyCallback f ud opcode pdu # es) =
     (if ud = sv_addr server then do { server \<leftarrow> sv_handler env server f opcode pdu; run_notifies env server es }
      else run_notifies env server es)"
| "run_notifies env server (_ # es) = run_notifies env server es"

definition server_receive :: "sv_env \<Rightarrow> bt_gatt_server \<Rightarrow> bytes option \<Rightarrow> (bool \<times> bt_gatt_server) option" where
  "server_receive env server bytes_read = do {
     (r, att) \<leftarrow> can_read_data (e_att env) (sv_att server) bytes_read;
     server' \<leftarrow> run_notifies env (server\<lparr>sv_att := att\<rparr>) (drop (length (att_log (sv_att server))) (att_log att));
     Some (r, server')
   }"

text \<open>A deferred read has its result.  The variables of \<^verbatim>\<open>encode_read_by_grp_type_rsp\<close> and of \<^verbatim>\<open>get_char_extended_prop\<close> are gone by then.\<close>

definition read_done ::
  "sv_env \<Rightarrow> bt_gatt_server \<Rightarrow> gatt_db_attribute \<Rightarrow> pending \<Rightarrow> int \<Rightarrow> bytes option \<Rightarrow> nat \<Rightarrow> bt_gatt_server option" where
  "read_done env server attr p err v len =
     (if pd_func p = READ_BY_TYPE_COMPLETE_CB
      then do {
        (addr, op) \<leftarrow> pending_read_op server;
        (if addr \<noteq> pd_user_data p then None
         else do {
           next \<leftarrow> read_by_type_read_complete env server op attr err v len;
           (case next of Inl s \<Rightarrow> Some s | Inr op \<Rightarrow> process_read_by_type env server addr op (ro_db_data op))
         })
      }
      else if pd_func p = READ_COMPLETE_CB then read_complete_cb env server attr err v len (pd_user_data p)
      else if pd_func p = READ_MULTIPLE_COMPLETE_CB
      then do {
        (addr, data) \<leftarrow> sv_multi server;
        (if addr \<noteq> pd_user_data p then None
         else read_multiple_complete_cb env server addr data attr err v len (drop (Suc (rm_cur_handle data)) (rm_handles data)))
      }
      else if pd_func p = ATTRIBUTE_READ_CB then None
      else if pd_func p = READ_EXT_PROP_CB then (if err \<noteq> 0 \<or> len \<noteq> 2 then Some server else None)
      else Some server)"

text \<open>\<open>nested\<close>: the application gives the result inside its read function, while the handler that asked for it has not returned.\<close>

definition sv_read_result ::
  "sv_env \<Rightarrow> bt_gatt_server \<Rightarrow> bool \<Rightarrow> attr_ptr \<Rightarrow> u32 \<Rightarrow> int \<Rightarrow> bytes option \<Rightarrow> nat \<Rightarrow> bt_gatt_server option" where
  "sv_read_result env server nested x i err v len = do {
     a \<leftarrow> attribute_at (sv_db server) x;
     let (_, a', es) = gatt_db_attribute_read_result (Some a) i err v len;
     b \<leftarrow> a';
     db \<leftarrow> set_attribute (sv_db server) x b;
     let server = server\<lparr>sv_db := emit es db, sv_multi := (if nested then sv_multi server else None)\<rparr>;
     (case (if i = 0 then None else find (find_pending i) (a_pending_reads a)) of
        None \<Rightarrow> Some server
      | Some p \<Rightarrow> read_done env server b p err v len)
   }"

definition write_done :: "sv_env \<Rightarrow> bt_gatt_server \<Rightarrow> gatt_db_attribute \<Rightarrow> pending \<Rightarrow> int \<Rightarrow> bt_gatt_server option" where
  "write_done env server attr p err =
     (if pd_func p = WRITE_COMPLETE_CB then write_complete_cb env server attr err (pd_user_data p)
      else if pd_func p = EXEC_WRITE_COMPLETE_CB
      then (if pd_user_data p \<noteq> sv_addr server then None
            else exec_next_prep_write env server (gatt_db_attribute_get_handle (Some attr)) err (prep_queue server))
      else Some server)"

definition sv_write_result :: "sv_env \<Rightarrow> bt_gatt_server \<Rightarrow> attr_ptr \<Rightarrow> u32 \<Rightarrow> int \<Rightarrow> bt_gatt_server option" where
  "sv_write_result env server x i err = do {
     a \<leftarrow> attribute_at (sv_db server) x;
     let (_, a', es) = gatt_db_attribute_write_result (Some a) i err;
     b \<leftarrow> a';
     db \<leftarrow> set_attribute (sv_db server) x b;
     let server = server\<lparr>sv_db := emit es db\<rparr>;
     (case (if i = 0 then None else find (find_pending i) (a_pending_writes a)) of
        None \<Rightarrow> Some server
      | Some p \<Rightarrow> write_done env server b p err)
   }"

end
