(* ===== verification/Gatt_Helpers.thy ===== *)
theory Gatt_Helpers
  imports Gatt_Server
begin

text \<open>
  The procedures of a GATT client (\<^verbatim>\<open>bluez5/src/shared/gatt-helpers.c\<close>): discovery of services, included services,
  characteristics and descriptors, reading by type and the exchange of the MTU.  A procedure is a request object that counts
  its references and collects the responses; the callbacks that the transport calls with a response check it, append it to the
  results and send the next request.  Objects are found by their addresses, and a look-up of a freed object is undefined, as
  is an access outside a PDU.  Calls of the application's functions are recorded in \<open>gc_log\<close>; what the
  application does in them comes afterwards.  Allocation succeeds.
\<close>

section \<open>Results\<close>

text \<open>The chain of results is a list.  A result points to its request \<^verbatim>\<open>op\<close>, which is an argument of the functions that use it.\<close>

record bt_gatt_result =
  rs_opcode :: u8
  rs_pdu :: bytes
  rs_data_len :: nat

record bt_gatt_request =
  rq_id :: u32
  rq_start_handle :: u16
  rq_end_handle :: u16
  rq_ref_count :: int
  rq_uuid :: bt_uuid_t
  rq_service_type :: u16
  rq_results :: "bt_gatt_result list"
  rq_callback :: "nat option"
  rq_user_data :: nat
  rq_destroy :: "nat option"

definition result_create :: "u8 \<Rightarrow> bytes \<Rightarrow> nat \<Rightarrow> bt_gatt_result" where
  "result_create opcode pdu data_len = \<lparr>rs_opcode = opcode, rs_pdu = pdu, rs_data_len = data_len\<rparr>"

definition result_append :: "u8 \<Rightarrow> bytes \<Rightarrow> nat \<Rightarrow> bt_gatt_request \<Rightarrow> bt_gatt_request" where
  "result_append opcode pdu data_len op = op\<lparr>rq_results := rq_results op @ [result_create opcode pdu data_len]\<rparr>"

text \<open>\<open>None\<close> is a division by zero.\<close>

fun result_element_count :: "bt_gatt_result list \<Rightarrow> nat option" where
  "result_element_count [] = Some 0"
| "result_element_count (r # rs) =
     (if rs_data_len r = 0 then None
      else map_option (\<lambda>n. length (rs_pdu r) div rs_data_len r + n) (result_element_count rs))"

definition bt_gatt_result_service_count :: "bt_gatt_result list \<Rightarrow> nat option" where
  "bt_gatt_result_service_count result =
     (case result of
        [] \<Rightarrow> Some 0
      | r # _ \<Rightarrow>
          if rs_opcode r \<noteq> BT_ATT_OP_READ_BY_GRP_TYPE_RSP \<and> rs_opcode r \<noteq> BT_ATT_OP_FIND_BY_TYPE_RSP then Some 0
          else result_element_count result)"

definition bt_gatt_result_characteristic_count :: "bt_gatt_result list \<Rightarrow> nat option" where
  "bt_gatt_result_characteristic_count result =
     (case result of
        [] \<Rightarrow> Some 0
      | r # _ \<Rightarrow>
          if rs_opcode r \<noteq> BT_ATT_OP_READ_BY_TYPE_RSP then Some 0
          else if rs_data_len r \<noteq> 21 \<and> rs_data_len r \<noteq> 7 then Some 0
          else result_element_count result)"

definition bt_gatt_result_descriptor_count :: "bt_gatt_result list \<Rightarrow> nat option" where
  "bt_gatt_result_descriptor_count result =
     (case result of
        [] \<Rightarrow> Some 0
      | r # _ \<Rightarrow> if rs_opcode r \<noteq> BT_ATT_OP_FIND_INFO_RSP then Some 0 else result_element_count result)"

definition bt_gatt_result_included_count :: "bt_gatt_result list \<Rightarrow> nat option" where
  "bt_gatt_result_included_count result =
     (case result of
        [] \<Rightarrow> Some 0
      | r # _ \<Rightarrow>
          if rs_opcode r \<noteq> BT_ATT_OP_READ_BY_TYPE_RSP then Some 0
          else if rs_data_len r \<noteq> 6 \<and> rs_data_len r \<noteq> 8 then Some 0
          else result_element_count (filter (\<lambda>r. rs_opcode r = BT_ATT_OP_READ_BY_TYPE_RSP) result))"

section \<open>Iterators\<close>

record bt_gatt_iter =
  it_result :: "bt_gatt_result list"
  it_pos :: nat

definition bt_gatt_iter_init :: "bt_gatt_result list \<Rightarrow> bt_gatt_iter option" where
  "bt_gatt_iter_init result = (if result = [] then None else Some \<lparr>it_result = result, it_pos = 0\<rparr>)"

text \<open>\<open>dst\<close> stays as it is when the length is neither 2 nor 16.\<close>

definition convert_uuid_le :: "bytes \<Rightarrow> nat \<Rightarrow> nat \<Rightarrow> bytes \<Rightarrow> bytes option" where
  "convert_uuid_le pdu off len dst =
     (if len = 16 then do { src \<leftarrow> mem_read pdu off 16; bswap_128 src }
      else if len \<noteq> 2 then Some dst
      else do { src \<leftarrow> mem_read pdu off 2; Some (bluetooth_base_uuid[2 := src ! 1, 3 := src ! 0]) })"

definition iter_advance :: "bt_gatt_iter \<Rightarrow> bt_gatt_result \<Rightarrow> bt_gatt_result list \<Rightarrow> bt_gatt_iter" where
  "iter_advance iter r rest =
     (let pos = it_pos iter + rs_data_len r
      in if pos = length (rs_pdu r) then iter\<lparr>it_result := rest, it_pos := 0\<rparr> else iter\<lparr>it_pos := pos\<rparr>)"

text \<open>The result of a call: \<open>None\<close> inside when it returns \<^verbatim>\<open>false\<close>, otherwise what it stores and the iterator.\<close>

definition bt_gatt_iter_next_included_service ::
  "bt_gatt_request \<Rightarrow> bt_gatt_iter \<Rightarrow> bytes \<Rightarrow> ((u16 \<times> u16 \<times> u16 \<times> bytes) \<times> bt_gatt_iter) option option" where
  "bt_gatt_iter_next_included_service op iter uuid =
     (case it_result iter of
        [] \<Rightarrow> Some None
      | r # rest \<Rightarrow>
          if rs_opcode r \<noteq> BT_ATT_OP_READ_BY_TYPE_RSP then Some None
          else if rq_uuid op \<noteq> BT_UUID_UNSPEC then Some None
          else if rs_data_len r \<noteq> 8 \<and> rs_data_len r \<noteq> 6 then Some None
          else do {
            handle \<leftarrow> pdu_le16 (rs_pdu r) (it_pos iter);
            start_handle \<leftarrow> pdu_le16 (rs_pdu r) (it_pos iter + 2);
            end_handle \<leftarrow> pdu_le16 (rs_pdu r) (it_pos iter + 4);
            (if rs_data_len r = 8
             then do {
               u \<leftarrow> convert_uuid_le (rs_pdu r) (it_pos iter + 6) 2 uuid;
               Some (Some ((handle, start_handle, end_handle, u), iter_advance iter r rest))
             }
             else
               (case drop (it_pos iter div rs_data_len r) rest of
                  [] \<Rightarrow> Some None
                | read_result # rest' \<Rightarrow> do {
                    u \<leftarrow> convert_uuid_le (rs_pdu read_result) 0 (rs_data_len read_result) uuid;
                    Some (Some ((handle, start_handle, end_handle, u), iter_advance iter r rest'))
                  }))
          })"

definition bt_gatt_iter_next_service ::
  "bt_gatt_request \<Rightarrow> bt_gatt_iter \<Rightarrow> bytes \<Rightarrow> ((u16 \<times> u16 \<times> bytes) \<times> bt_gatt_iter) option option" where
  "bt_gatt_iter_next_service op iter uuid =
     (case it_result iter of
        [] \<Rightarrow> Some None
      | r # rest \<Rightarrow>
          if rs_opcode r \<noteq> BT_ATT_OP_READ_BY_GRP_TYPE_RSP \<and> rs_opcode r \<noteq> BT_ATT_OP_FIND_BY_TYPE_RSP then Some None
          else do {
            start_handle \<leftarrow> pdu_le16 (rs_pdu r) (it_pos iter);
            end_handle \<leftarrow> pdu_le16 (rs_pdu r) (it_pos iter + 2);
            u \<leftarrow> (if rs_opcode r = BT_ATT_OP_READ_BY_GRP_TYPE_RSP
                  then convert_uuid_le (rs_pdu r) (it_pos iter + 4) (rs_data_len r - 4) uuid
                  else do {
                    tmp \<leftarrow> bt_uuid_to_uuid128 (rq_uuid op) BT_UUID_UNSPEC;
                    (case tmp of BT_UUID128 b \<Rightarrow> Some b | _ \<Rightarrow> None)
                  });
            Some (Some ((start_handle, end_handle, u), iter_advance iter r rest))
          })"

definition bt_gatt_iter_next_characteristic ::
  "bt_gatt_request \<Rightarrow> bt_gatt_iter \<Rightarrow> bytes \<Rightarrow> ((u16 \<times> u16 \<times> u16 \<times> u8 \<times> bytes) \<times> bt_gatt_iter) option option" where
  "bt_gatt_iter_next_characteristic op iter uuid =
     (case it_result iter of
        [] \<Rightarrow> Some None
      | r # rest \<Rightarrow>
          if rs_opcode r \<noteq> BT_ATT_OP_READ_BY_TYPE_RSP then Some None
          else if rq_uuid op \<noteq> BT_UUID_UNSPEC then Some None
          else if rs_data_len r \<noteq> 21 \<and> rs_data_len r \<noteq> 7 then Some None
          else do {
            start_handle \<leftarrow> pdu_le16 (rs_pdu r) (it_pos iter);
            properties \<leftarrow> load8 (rs_pdu r) (it_pos iter + 2);
            value_handle \<leftarrow> pdu_le16 (rs_pdu r) (it_pos iter + 3);
            u \<leftarrow> convert_uuid_le (rs_pdu r) (it_pos iter + 5) (rs_data_len r - 5) uuid;
            let iter = iter_advance iter r rest;
            end_handle \<leftarrow> (case it_result iter of
                [] \<Rightarrow> Some (rq_end_handle op)
              | r # _ \<Rightarrow> map_option (\<lambda>h. h - 1) (pdu_le16 (rs_pdu r) (it_pos iter)));
            Some (Some ((start_handle, end_handle, value_handle, properties, u), iter))
          })"

definition bt_gatt_iter_next_descriptor ::
  "bt_gatt_iter \<Rightarrow> bytes \<Rightarrow> ((u16 \<times> bytes) \<times> bt_gatt_iter) option option" where
  "bt_gatt_iter_next_descriptor iter uuid =
     (case it_result iter of
        [] \<Rightarrow> Some None
      | r # rest \<Rightarrow>
          if rs_opcode r \<noteq> BT_ATT_OP_FIND_INFO_RSP then Some None
          else do {
            handle \<leftarrow> pdu_le16 (rs_pdu r) (it_pos iter);
            u \<leftarrow> convert_uuid_le (rs_pdu r) (it_pos iter + 2) (rs_data_len r - 2) uuid;
            Some (Some ((handle, u), iter_advance iter r rest))
          })"

text \<open>\<^verbatim>\<open>*value\<close> is the offset of the value in the current result.\<close>

definition bt_gatt_iter_next_read_by_type ::
  "bt_gatt_request \<Rightarrow> bt_gatt_iter \<Rightarrow> ((u16 \<times> nat \<times> nat) \<times> bt_gatt_iter) option option" where
  "bt_gatt_iter_next_read_by_type op iter =
     (case it_result iter of
        [] \<Rightarrow> Some None
      | r # rest \<Rightarrow>
          if rs_opcode r \<noteq> BT_ATT_OP_READ_BY_TYPE_RSP then Some None
          else if rq_uuid op = BT_UUID_UNSPEC then Some None
          else do {
            handle \<leftarrow> pdu_le16 (rs_pdu r) (it_pos iter);
            Some (Some ((handle, rs_data_len r - 2, it_pos iter + 2), iter_advance iter r rest))
          })"

section \<open>The client\<close>

record read_incl_data =
  ri_op :: nat
  ri_result :: nat
  ri_pos :: nat
  ri_ref_count :: int

record mtu_op =
  mo_client_rx_mtu :: u16
  mo_callback :: "nat option"
  mo_user_data :: nat
  mo_destroy :: "nat option"

text \<open>Calls of the functions of the application.\<close>

datatype gh_event =
    RequestDone nat bool u8 "bt_gatt_result list" nat
  | RequestDestroyed nat nat
  | MtuDone nat bool u8 nat
  | MtuDestroyed nat nat

record gatt_client =
  gc_att :: bt_att
  gc_reqs :: "nat \<Rightarrow> bt_gatt_request option"
  gc_incls :: "nat \<Rightarrow> read_incl_data option"
  gc_mtus :: "nat \<Rightarrow> mtu_op option"
  gc_brk :: nat
  gc_log :: "gh_event list"

text \<open>The functions that the transport is given.\<close>

definition GH_MTU_CB :: nat where "GH_MTU_CB = 31"
definition GH_READ_BY_GRP_TYPE_CB :: nat where "GH_READ_BY_GRP_TYPE_CB = 32"
definition GH_FIND_BY_TYPE_VAL_CB :: nat where "GH_FIND_BY_TYPE_VAL_CB = 33"
definition READ_INCLUDED_CB :: nat where "READ_INCLUDED_CB = 34"
definition DISCOVER_INCLUDED_CB :: nat where "DISCOVER_INCLUDED_CB = 35"
definition DISCOVER_CHRCS_CB :: nat where "DISCOVER_CHRCS_CB = 36"
definition GH_READ_BY_TYPE_CB :: nat where "GH_READ_BY_TYPE_CB = 37"
definition DISCOVER_DESCS_CB :: nat where "DISCOVER_DESCS_CB = 38"
definition DESTROY_MTU_OP :: nat where "DESTROY_MTU_OP = 39"
definition ASYNC_REQ_UNREF :: nat where "ASYNC_REQ_UNREF = 40"
definition READ_INCLUDED_UNREF :: nat where "READ_INCLUDED_UNREF = 41"

lemmas gh_fns = GH_MTU_CB_def GH_READ_BY_GRP_TYPE_CB_def GH_FIND_BY_TYPE_VAL_CB_def READ_INCLUDED_CB_def DISCOVER_INCLUDED_CB_def
  DISCOVER_CHRCS_CB_def GH_READ_BY_TYPE_CB_def DISCOVER_DESCS_CB_def DESTROY_MTU_OP_def ASYNC_REQ_UNREF_def READ_INCLUDED_UNREF_def

definition gc_emit :: "gh_event list \<Rightarrow> gatt_client \<Rightarrow> gatt_client" where
  "gc_emit es c = c\<lparr>gc_log := gc_log c @ es\<rparr>"

definition set_req :: "nat \<Rightarrow> bt_gatt_request \<Rightarrow> gatt_client \<Rightarrow> gatt_client" where
  "set_req a r c = c\<lparr>gc_reqs := (gc_reqs c)(a := Some r)\<rparr>"

definition gc_send :: "att_env \<Rightarrow> gatt_client \<Rightarrow> u8 \<Rightarrow> bytes \<Rightarrow> nat \<Rightarrow> nat \<Rightarrow> nat \<Rightarrow> (u32 \<times> gatt_client) option" where
  "gc_send env c opcode pdu callback user_data destroy =
     map_option (\<lambda>(i, att). (i, c\<lparr>gc_att := att\<rparr>))
       (bt_att_send env (gc_att c) opcode (Some pdu) (of_nat (length pdu)) (Some callback) user_data (Some destroy))"

section \<open>Requests and their references\<close>

definition bt_gatt_request_ref :: "gatt_client \<Rightarrow> nat \<Rightarrow> gatt_client option" where
  "bt_gatt_request_ref c a = map_option (\<lambda>r. set_req a (r\<lparr>rq_ref_count := rq_ref_count r + 1\<rparr>) c) (gc_reqs c a)"

definition done_events :: "bt_gatt_request \<Rightarrow> bool \<Rightarrow> u8 \<Rightarrow> bt_gatt_result list \<Rightarrow> gh_event list" where
  "done_events op success ecode result =
     (case rq_callback op of None \<Rightarrow> [] | Some f \<Rightarrow> [RequestDone f success ecode result (rq_user_data op)])"

text \<open>The last reference cancels the PDU of the request.  Its destroy function is \<^verbatim>\<open>async_req_unref\<close> of the same request, which
  finds a negative count and returns.\<close>

definition bt_gatt_request_unref :: "att_env \<Rightarrow> gatt_client \<Rightarrow> nat \<Rightarrow> gatt_client option" where
  "bt_gatt_request_unref env c a = do {
     r \<leftarrow> gc_reqs c a;
     let r = r\<lparr>rq_ref_count := rq_ref_count r - 1\<rparr>;
     (if rq_ref_count r \<noteq> 0 then Some (set_req a r c)
      else
        let att = (if rq_id r = 0 then gc_att c else snd (bt_att_cancel env (gc_att c) (rq_id r)));
            es = drop (length (att_log (gc_att c))) (att_log att)
        in if \<exists>e\<in>set es. case e of OpDestroyed f ud \<Rightarrow> f \<noteq> ASYNC_REQ_UNREF \<or> ud \<noteq> a | _ \<Rightarrow> False then None
           else Some (gc_emit (case rq_destroy r of None \<Rightarrow> [] | Some f \<Rightarrow> [RequestDestroyed f (rq_user_data r)])
                  (c\<lparr>gc_att := att, gc_reqs := (gc_reqs c)(a := None)\<rparr>)))
   }"

definition read_included_unref :: "att_env \<Rightarrow> gatt_client \<Rightarrow> nat \<Rightarrow> gatt_client option" where
  "read_included_unref env c d = do {
     x \<leftarrow> gc_incls c d;
     let x = x\<lparr>ri_ref_count := ri_ref_count x - 1\<rparr>;
     (if ri_ref_count x \<noteq> 0 then Some (c\<lparr>gc_incls := (gc_incls c)(d := Some x)\<rparr>)
      else map_option (\<lambda>c. c\<lparr>gc_incls := (gc_incls c)(d := None)\<rparr>) (bt_gatt_request_unref env c (ri_op x)))
   }"

definition destroy_mtu_op :: "gatt_client \<Rightarrow> nat \<Rightarrow> gatt_client option" where
  "destroy_mtu_op c m = do {
     op \<leftarrow> gc_mtus c m;
     Some (gc_emit (case mo_destroy op of None \<Rightarrow> [] | Some f \<Rightarrow> [MtuDestroyed f (mo_user_data op)])
       (c\<lparr>gc_mtus := (gc_mtus c)(m := None)\<rparr>))
   }"

text \<open>The destroy functions that the transport calls.\<close>

definition gc_destroyed :: "att_env \<Rightarrow> gatt_client \<Rightarrow> nat \<Rightarrow> nat \<Rightarrow> gatt_client option" where
  "gc_destroyed env c f user_data =
     (if f = ASYNC_REQ_UNREF then bt_gatt_request_unref env c user_data
      else if f = READ_INCLUDED_UNREF then read_included_unref env c user_data
      else if f = DESTROY_MTU_OP then destroy_mtu_op c user_data
      else Some c)"

fun destroyed_events :: "att_env \<Rightarrow> gatt_client \<Rightarrow> att_event list \<Rightarrow> gatt_client option" where
  "destroyed_events env c [] = Some c"
| "destroyed_events env c (OpDestroyed f ud # es) = do { c \<leftarrow> gc_destroyed env c f ud; destroyed_events env c es }"
| "destroyed_events env c (_ # es) = destroyed_events env c es"

definition bt_gatt_request_cancel :: "att_env \<Rightarrow> gatt_client \<Rightarrow> nat \<Rightarrow> gatt_client option" where
  "bt_gatt_request_cancel env c a = do {
     r \<leftarrow> gc_reqs c a;
     (if rq_id r = 0 then Some c
      else do {
        let att = snd (bt_att_cancel env (gc_att c) (rq_id r));
        c \<leftarrow> destroyed_events env (c\<lparr>gc_att := att\<rparr>) (drop (length (att_log (gc_att c))) (att_log att));
        r \<leftarrow> gc_reqs c a;
        Some (set_req a (r\<lparr>rq_id := 0\<rparr>) c)
      })
   }"

definition discovery_op_complete :: "att_env \<Rightarrow> gatt_client \<Rightarrow> nat \<Rightarrow> bool \<Rightarrow> u8 \<Rightarrow> gatt_client option" where
  "discovery_op_complete env c a success ecode = do {
     op \<leftarrow> gc_reqs c a;
     let success = (success \<or> ecode = of_int BT_ATT_ERROR_ATTRIBUTE_NOT_FOUND \<and> rq_results op \<noteq> []);
     let c = gc_emit (done_events op success ecode (if success then rq_results op else [])) c;
     (if rq_id op = 0 then bt_gatt_request_unref env c a else Some (set_req a (op\<lparr>rq_id := 0\<rparr>) c))
   }"

text \<open>The next PDU of a procedure; when it cannot be sent the procedure ends.\<close>

definition send_next :: "att_env \<Rightarrow> gatt_client \<Rightarrow> nat \<Rightarrow> u8 \<Rightarrow> bytes \<Rightarrow> nat \<Rightarrow> gatt_client option" where
  "send_next env c a opcode pdu callback = do {
     c \<leftarrow> bt_gatt_request_ref c a;
     (i, c) \<leftarrow> gc_send env c opcode pdu callback a ASYNC_REQ_UNREF;
     op \<leftarrow> gc_reqs c a;
     let c = set_req a (op\<lparr>rq_id := i\<rparr>) c;
     (if i \<noteq> 0 then Some c else discovery_op_complete env c a False 0)
   }"

text \<open>The first PDU of a procedure.  The result is the address of the request, or \<^verbatim>\<open>NULL\<close>.\<close>

definition send_first :: "att_env \<Rightarrow> gatt_client \<Rightarrow> bt_gatt_request \<Rightarrow> u8 \<Rightarrow> bytes \<Rightarrow> nat \<Rightarrow> (nat option \<times> gatt_client) option" where
  "send_first env c op opcode pdu callback = do {
     let a = gc_brk c;
     let c = set_req a op (c\<lparr>gc_brk := a + 1\<rparr>);
     c \<leftarrow> bt_gatt_request_ref c a;
     (i, c) \<leftarrow> gc_send env c opcode pdu callback a ASYNC_REQ_UNREF;
     op \<leftarrow> gc_reqs c a;
     (if i = 0 then Some (None, c\<lparr>gc_reqs := (gc_reqs c)(a := None)\<rparr>)
      else map_option (Pair (Some a)) (bt_gatt_request_ref (set_req a (op\<lparr>rq_id := i\<rparr>) c) a))
   }"

definition new_request :: "u16 \<Rightarrow> u16 \<Rightarrow> bt_uuid_t \<Rightarrow> u16 \<Rightarrow> nat option \<Rightarrow> nat \<Rightarrow> nat option \<Rightarrow> bt_gatt_request" where
  "new_request start endh uuid service_type callback user_data destroy =
     \<lparr>rq_id = 0, rq_start_handle = start, rq_end_handle = endh, rq_ref_count = 0, rq_uuid = uuid, rq_service_type = service_type,
      rq_results = [], rq_callback = callback, rq_user_data = user_data, rq_destroy = destroy\<rparr>"

text \<open>Whether the PDU of a response has the opcode and at least \<open>n\<close> bytes.\<close>

definition rsp_has :: "u8 \<Rightarrow> bytes option \<Rightarrow> u8 \<Rightarrow> nat \<Rightarrow> bool" where
  "rsp_has opcode pdu rsp n \<longleftrightarrow> opcode = rsp \<and> (case pdu of None \<Rightarrow> False | Some p \<Rightarrow> n \<le> length p)"

definition process_error :: "bytes option \<Rightarrow> u8" where
  "process_error pdu = (case pdu of None \<Rightarrow> 0 | Some p \<Rightarrow> if length p \<noteq> 4 then 0 else p ! 3)"

section \<open>Exchange of the MTU\<close>

definition mtu_cb :: "gatt_client \<Rightarrow> nat \<Rightarrow> u8 \<Rightarrow> bytes option \<Rightarrow> gatt_client option" where
  "mtu_cb c m opcode pdu = do {
     op \<leftarrow> gc_mtus c m;
     let finish = (\<lambda>success ecode c. gc_emit (case mo_callback op of None \<Rightarrow> [] | Some f \<Rightarrow> [MtuDone f success ecode (mo_user_data op)]) c);
     (if opcode = BT_ATT_OP_ERROR_RSP then Some (finish False (process_error pdu) c)
      else if opcode \<noteq> BT_ATT_OP_MTU_RSP then Some (finish False 0 c)
      else (case pdu of
              None \<Rightarrow> Some (finish False 0 c)
            | Some p \<Rightarrow>
                if length p \<noteq> 2 then Some (finish False 0 c)
                else do {
                  server_rx_mtu \<leftarrow> pdu_le16 p 0;
                  Some (finish True 0 (c\<lparr>gc_att := snd (bt_att_set_mtu (gc_att c) (min (mo_client_rx_mtu op) server_rx_mtu))\<rparr>))
                }))
   }"

definition bt_gatt_exchange_mtu ::
  "att_env \<Rightarrow> gatt_client \<Rightarrow> u16 \<Rightarrow> nat option \<Rightarrow> nat \<Rightarrow> nat option \<Rightarrow> (u32 \<times> gatt_client) option" where
  "bt_gatt_exchange_mtu env c client_rx_mtu callback user_data destroy =
     (if client_rx_mtu = 0 then Some (0, c)
      else do {
        let m = gc_brk c;
        let op = \<lparr>mo_client_rx_mtu = client_rx_mtu, mo_callback = callback, mo_user_data = user_data, mo_destroy = destroy\<rparr>;
        (i, c) \<leftarrow> gc_send env (c\<lparr>gc_brk := m + 1, gc_mtus := (gc_mtus c)(m := Some op)\<rparr>) BT_ATT_OP_MTU_REQ (le16 client_rx_mtu) GH_MTU_CB m DESTROY_MTU_OP;
        Some (i, if i = 0 then c\<lparr>gc_mtus := (gc_mtus c)(m := None)\<rparr> else c)
      })"

section \<open>Discovery of services\<close>

definition gh_read_by_grp_type_cb :: "att_env \<Rightarrow> gatt_client \<Rightarrow> nat \<Rightarrow> u8 \<Rightarrow> bytes option \<Rightarrow> gatt_client option" where
  "gh_read_by_grp_type_cb env c a opcode pdu =
     (if opcode = BT_ATT_OP_ERROR_RSP then discovery_op_complete env c a False (process_error pdu)
      else if \<not> rsp_has opcode pdu BT_ATT_OP_READ_BY_GRP_TYPE_RSP 7 then discovery_op_complete env c a False 0
      else do {
        p \<leftarrow> pdu;
        data_length \<leftarrow> map_option unat (load8 p 0);
        let list_length = length p - 1;
        (if data_length \<noteq> 6 \<and> data_length \<noteq> 20 \<or> list_length mod data_length \<noteq> 0 then discovery_op_complete env c a False 0
         else do {
           op \<leftarrow> gc_reqs c a;
           let op = result_append opcode (drop 1 p) data_length op;
           last_end \<leftarrow> pdu_le16 p (length p - data_length + 2);
           (if last_end < rq_start_handle op then discovery_op_complete env (set_req a op c) a False 0
            else
              let op = op\<lparr>rq_start_handle := last_end + 1\<rparr>;
                  c = set_req a op c
              in if last_end < rq_end_handle op
                 then send_next env c a BT_ATT_OP_READ_BY_GRP_TYPE_REQ
                        (le16 (rq_start_handle op) @ le16 (rq_end_handle op) @ le16 (rq_service_type op)) GH_READ_BY_GRP_TYPE_CB
                 else if last_end = 0xFFFF \<and> last_end \<noteq> rq_end_handle op
                 then do {
                   let cur = last (rq_results op);
                   q \<leftarrow> mem_write (rs_pdu cur) (length p - data_length + 1) (le16 (rq_end_handle op));
                   discovery_op_complete env (set_req a (op\<lparr>rq_results := butlast (rq_results op) @ [cur\<lparr>rs_pdu := q\<rparr>]\<rparr>) c) a True 0
                 }
                 else discovery_op_complete env c a True 0)
         })
      })"

definition get_uuid_len :: "bt_uuid_t \<Rightarrow> nat" where
  "get_uuid_len uuid = (case uuid of BT_UUID16 _ \<Rightarrow> 2 | _ \<Rightarrow> 16)"

text \<open>The bytes that \<^verbatim>\<open>bt_uuid_to_le\<close> writes behind a header; the rest of the PDU is not initialised.\<close>

definition uuid_field :: "(nat \<Rightarrow> u8) \<Rightarrow> bt_uuid_t \<Rightarrow> bytes option" where
  "uuid_field junk uuid = map_option snd (bt_uuid_to_le uuid (map junk [0..<get_uuid_len uuid]))"

definition gh_find_by_type_val_cb :: "att_env \<Rightarrow> (nat \<Rightarrow> u8) \<Rightarrow> gatt_client \<Rightarrow> nat \<Rightarrow> u8 \<Rightarrow> bytes option \<Rightarrow> gatt_client option" where
  "gh_find_by_type_val_cb env junk c a opcode pdu =
     (if opcode = BT_ATT_OP_ERROR_RSP then discovery_op_complete env c a False (process_error pdu)
      else if \<not> rsp_has opcode pdu BT_ATT_OP_FIND_BY_TYPE_RSP 1 then discovery_op_complete env c a False 0
      else do {
        p \<leftarrow> pdu;
        (if length p mod 4 \<noteq> 0 then discovery_op_complete env c a False 0
         else do {
           op \<leftarrow> gc_reqs c a;
           let op = result_append opcode p 4 op;
           last_end \<leftarrow> pdu_le16 p (length p - 2);
           (if last_end < rq_start_handle op then discovery_op_complete env (set_req a op c) a False 0
            else do {
              let op = op\<lparr>rq_start_handle := last_end + 1\<rparr>;
              let c = set_req a op c;
              (if last_end < rq_end_handle op
               then do {
                 u \<leftarrow> uuid_field junk (rq_uuid op);
                 send_next env c a BT_ATT_OP_FIND_BY_TYPE_REQ
                   (le16 (rq_start_handle op) @ le16 (rq_end_handle op) @ le16 (rq_service_type op) @ u) GH_FIND_BY_TYPE_VAL_CB
               }
               else discovery_op_complete env c a True 0)
            })
         })
      })"

definition discover_services ::
  "att_env \<Rightarrow> (nat \<Rightarrow> u8) \<Rightarrow> gatt_client \<Rightarrow> bt_uuid_t option \<Rightarrow> u16 \<Rightarrow> u16 \<Rightarrow> nat option \<Rightarrow> nat \<Rightarrow> nat option \<Rightarrow> bool
     \<Rightarrow> (nat option \<times> gatt_client) option" where
  "discover_services env junk c uuid start endh callback user_data destroy primary =
     (let service_type = (if primary then GATT_PRIM_SVC_UUID else GATT_SND_SVC_UUID);
          header = le16 start @ le16 endh @ le16 service_type
      in case uuid of
           None \<Rightarrow> send_first env c (new_request start endh BT_UUID_UNSPEC service_type callback user_data destroy)
                     BT_ATT_OP_READ_BY_GRP_TYPE_REQ header GH_READ_BY_GRP_TYPE_CB
         | Some u \<Rightarrow>
             if u = BT_UUID_UNSPEC then Some (None, c\<lparr>gc_brk := gc_brk c + 1\<rparr>)
             else do {
               field \<leftarrow> uuid_field junk u;
               send_first env c (new_request start endh u service_type callback user_data destroy)
                 BT_ATT_OP_FIND_BY_TYPE_REQ (header @ field) GH_FIND_BY_TYPE_VAL_CB
             })"

definition bt_gatt_discover_primary_services ::
  "att_env \<Rightarrow> (nat \<Rightarrow> u8) \<Rightarrow> gatt_client \<Rightarrow> bt_uuid_t option \<Rightarrow> u16 \<Rightarrow> u16 \<Rightarrow> nat option \<Rightarrow> nat \<Rightarrow> nat option
     \<Rightarrow> (nat option \<times> gatt_client) option" where
  "bt_gatt_discover_primary_services env junk c uuid start endh callback user_data destroy =
     discover_services env junk c uuid start endh callback user_data destroy True"

definition bt_gatt_discover_all_primary_services ::
  "att_env \<Rightarrow> (nat \<Rightarrow> u8) \<Rightarrow> gatt_client \<Rightarrow> bt_uuid_t option \<Rightarrow> nat option \<Rightarrow> nat \<Rightarrow> nat option
     \<Rightarrow> (nat option \<times> gatt_client) option" where
  "bt_gatt_discover_all_primary_services env junk c uuid callback user_data destroy =
     bt_gatt_discover_primary_services env junk c uuid 0x0001 0xFFFF callback user_data destroy"

definition bt_gatt_discover_secondary_services ::
  "att_env \<Rightarrow> (nat \<Rightarrow> u8) \<Rightarrow> gatt_client \<Rightarrow> bt_uuid_t option \<Rightarrow> u16 \<Rightarrow> u16 \<Rightarrow> nat option \<Rightarrow> nat \<Rightarrow> nat option
     \<Rightarrow> (nat option \<times> gatt_client) option" where
  "bt_gatt_discover_secondary_services env junk c uuid start endh callback user_data destroy =
     discover_services env junk c uuid start endh callback user_data destroy False"

section \<open>Discovery of included services\<close>

text \<open>The result at a position of the chain.\<close>

definition result_at :: "bt_gatt_request \<Rightarrow> nat \<Rightarrow> bt_gatt_result option" where
  "result_at op k = (if k < length (rq_results op) then Some (rq_results op ! k) else None)"

definition read_included :: "att_env \<Rightarrow> gatt_client \<Rightarrow> nat \<Rightarrow> gatt_client option" where
  "read_included env c d = do {
     data \<leftarrow> gc_incls c d;
     op \<leftarrow> gc_reqs c (ri_op data);
     res \<leftarrow> result_at op (ri_result data);
     pdu \<leftarrow> mem_read (rs_pdu res) 2 2;
     let data = data\<lparr>ri_pos := ri_pos data + rs_data_len res, ri_ref_count := ri_ref_count data + 1\<rparr>;
     (i, c) \<leftarrow> gc_send env (c\<lparr>gc_incls := (gc_incls c)(d := Some data)\<rparr>) BT_ATT_OP_READ_REQ pdu READ_INCLUDED_CB d READ_INCLUDED_UNREF;
     (if i \<noteq> 0 then Some c else read_included_unref env (gc_emit (done_events op False 0 []) c) d)
   }"

definition discover_included_cb :: "att_env \<Rightarrow> gatt_client \<Rightarrow> nat \<Rightarrow> u8 \<Rightarrow> bytes option \<Rightarrow> gatt_client option" where
  "discover_included_cb env c a opcode pdu =
     (if opcode = BT_ATT_OP_ERROR_RSP then discovery_op_complete env c a False (process_error pdu)
      else if \<not> rsp_has opcode pdu BT_ATT_OP_READ_BY_TYPE_RSP 6 then discovery_op_complete env c a False 0
      else do {
        p \<leftarrow> pdu;
        data_length \<leftarrow> map_option unat (load8 p 0);
        (if data_length \<noteq> 8 \<and> data_length \<noteq> 6 \<or> (length p - 1) mod data_length \<noteq> 0 then discovery_op_complete env c a False 0
         else do {
           op \<leftarrow> gc_reqs c a;
           let op = result_append opcode (drop 1 p) data_length op;
           let c = set_req a op c;
           (if data_length = 6
            then do {
              let d = gc_brk c;
              c \<leftarrow> bt_gatt_request_ref (c\<lparr>gc_brk := d + 1\<rparr>) a;
              let data = \<lparr>ri_op = a, ri_result = length (rq_results op) - 1, ri_pos = 0, ri_ref_count = 0\<rparr>;
              read_included env (c\<lparr>gc_incls := (gc_incls c)(d := Some data)\<rparr>) d
            }
            else do {
              last_handle \<leftarrow> pdu_le16 p (length p - data_length);
              (if last_handle < rq_start_handle op then discovery_op_complete env c a False 0
               else
                 let op = op\<lparr>rq_start_handle := last_handle + 1\<rparr>;
                     c = set_req a op c
                 in if last_handle \<noteq> rq_end_handle op
                    then send_next env c a BT_ATT_OP_READ_BY_TYPE_REQ
                           (le16 (rq_start_handle op) @ le16 (rq_end_handle op) @ le16 GATT_INCLUDE_UUID) DISCOVER_INCLUDED_CB
                    else discovery_op_complete env c a True 0)
            })
         })
      })"

definition read_included_cb :: "att_env \<Rightarrow> gatt_client \<Rightarrow> nat \<Rightarrow> u8 \<Rightarrow> bytes option \<Rightarrow> gatt_client option" where
  "read_included_cb env c d opcode pdu = do {
     data \<leftarrow> gc_incls c d;
     let a = ri_op data;
     (if opcode = BT_ATT_OP_ERROR_RSP then discovery_op_complete env c a False (process_error pdu)
      else if \<not> rsp_has opcode pdu BT_ATT_OP_READ_RSP 16 then discovery_op_complete env c a False 0
      else do {
        p \<leftarrow> pdu;
        (if length p \<noteq> 16 then discovery_op_complete env c a False 0
         else do {
           op \<leftarrow> gc_reqs c a;
           let op = result_append opcode p 16 op;
           let c = set_req a op c;
           res \<leftarrow> result_at op (ri_result data);
           (if ri_pos data = length (rs_pdu res)
            then do {
              last_handle \<leftarrow> pdu_le16 (rs_pdu res) (ri_pos data - rs_data_len res);
              (if last_handle = rq_end_handle op then discovery_op_complete env c a True 0
               else send_next env c a BT_ATT_OP_READ_BY_TYPE_REQ
                      (le16 (last_handle + 1) @ le16 (rq_end_handle op) @ le16 GATT_INCLUDE_UUID) DISCOVER_INCLUDED_CB)
            }
            else do {
              read_pdu \<leftarrow> mem_read (rs_pdu res) (ri_pos data + 2) 2;
              let data = data\<lparr>ri_pos := ri_pos data + rs_data_len res, ri_ref_count := ri_ref_count data + 1\<rparr>;
              (i, c) \<leftarrow> gc_send env (c\<lparr>gc_incls := (gc_incls c)(d := Some data)\<rparr>) BT_ATT_OP_READ_REQ read_pdu READ_INCLUDED_CB d READ_INCLUDED_UNREF;
              (if i \<noteq> 0 then Some c
               else do { c \<leftarrow> read_included_unref env c d; discovery_op_complete env c a False 0 })
            })
         })
      })
   }"

definition bt_gatt_discover_included_services ::
  "att_env \<Rightarrow> gatt_client \<Rightarrow> u16 \<Rightarrow> u16 \<Rightarrow> nat option \<Rightarrow> nat \<Rightarrow> nat option \<Rightarrow> (nat option \<times> gatt_client) option" where
  "bt_gatt_discover_included_services env c start endh callback user_data destroy =
     send_first env c (new_request start endh BT_UUID_UNSPEC 0 callback user_data destroy)
       BT_ATT_OP_READ_BY_TYPE_REQ (le16 start @ le16 endh @ le16 GATT_INCLUDE_UUID) DISCOVER_INCLUDED_CB"

section \<open>Discovery of characteristics and descriptors, reading by type\<close>

definition discover_chrcs_cb :: "att_env \<Rightarrow> gatt_client \<Rightarrow> nat \<Rightarrow> u8 \<Rightarrow> bytes option \<Rightarrow> gatt_client option" where
  "discover_chrcs_cb env c a opcode pdu =
     (if opcode = BT_ATT_OP_ERROR_RSP then discovery_op_complete env c a False (process_error pdu)
      else if \<not> rsp_has opcode pdu BT_ATT_OP_READ_BY_TYPE_RSP 8 then discovery_op_complete env c a False 0
      else do {
        p \<leftarrow> pdu;
        data_length \<leftarrow> map_option unat (load8 p 0);
        (if data_length \<noteq> 7 \<and> data_length \<noteq> 21 \<or> (length p - 1) mod data_length \<noteq> 0 then discovery_op_complete env c a False 0
         else do {
           op \<leftarrow> gc_reqs c a;
           let op = result_append opcode (drop 1 p) data_length op;
           last_handle \<leftarrow> pdu_le16 p (length p - data_length);
           (if last_handle < rq_start_handle op then discovery_op_complete env (set_req a op c) a False 0
            else
              let op = op\<lparr>rq_start_handle := last_handle + 1\<rparr>;
                  c = set_req a op c
              in if last_handle \<noteq> rq_end_handle op
                 then send_next env c a BT_ATT_OP_READ_BY_TYPE_REQ
                        (le16 (rq_start_handle op) @ le16 (rq_end_handle op) @ le16 GATT_CHARAC_UUID) DISCOVER_CHRCS_CB
                 else discovery_op_complete env c a True 0)
         })
      })"

definition bt_gatt_discover_characteristics ::
  "att_env \<Rightarrow> gatt_client \<Rightarrow> u16 \<Rightarrow> u16 \<Rightarrow> nat option \<Rightarrow> nat \<Rightarrow> nat option \<Rightarrow> (nat option \<times> gatt_client) option" where
  "bt_gatt_discover_characteristics env c start endh callback user_data destroy =
     send_first env c (new_request start endh BT_UUID_UNSPEC 0 callback user_data destroy)
       BT_ATT_OP_READ_BY_TYPE_REQ (le16 start @ le16 endh @ le16 GATT_CHARAC_UUID) DISCOVER_CHRCS_CB"

text \<open>The size of an item comes from the PDU unchecked: 0 divides by zero, and an empty list makes the last item lie outside.\<close>

definition gh_read_by_type_cb :: "att_env \<Rightarrow> (nat \<Rightarrow> u8) \<Rightarrow> gatt_client \<Rightarrow> nat \<Rightarrow> u8 \<Rightarrow> bytes option \<Rightarrow> gatt_client option" where
  "gh_read_by_type_cb env junk c a opcode pdu =
     (if opcode = BT_ATT_OP_ERROR_RSP then discovery_op_complete env c a False (process_error pdu)
      else if \<not> rsp_has opcode pdu BT_ATT_OP_READ_BY_TYPE_RSP 0 then discovery_op_complete env c a False 0
      else do {
        p \<leftarrow> pdu;
        data_length \<leftarrow> map_option unat (load8 p 0);
        (if data_length = 0 then None
         else if (length p - 1) mod data_length \<noteq> 0 then discovery_op_complete env c a False 0
         else do {
           op \<leftarrow> gc_reqs c a;
           let op = result_append opcode (drop 1 p) data_length op;
           last_handle \<leftarrow> (if length p < data_length then None else pdu_le16 p (length p - data_length));
           (if last_handle < rq_start_handle op then discovery_op_complete env (set_req a op c) a False 0
            else do {
              let op = op\<lparr>rq_start_handle := last_handle + 1\<rparr>;
              let c = set_req a op c;
              (if last_handle \<noteq> rq_end_handle op
               then do {
                 u \<leftarrow> uuid_field junk (rq_uuid op);
                 send_next env c a BT_ATT_OP_READ_BY_TYPE_REQ (le16 (rq_start_handle op) @ le16 (rq_end_handle op) @ u) GH_READ_BY_TYPE_CB
               }
               else discovery_op_complete env c a True 0)
            })
         })
      })"

definition bt_gatt_read_by_type ::
  "att_env \<Rightarrow> (nat \<Rightarrow> u8) \<Rightarrow> gatt_client \<Rightarrow> u16 \<Rightarrow> u16 \<Rightarrow> bt_uuid_t option \<Rightarrow> nat option \<Rightarrow> nat \<Rightarrow> nat option \<Rightarrow> (bool \<times> gatt_client) option" where
  "bt_gatt_read_by_type env junk c start endh uuid callback user_data destroy =
     (case uuid of
        None \<Rightarrow> Some (False, c)
      | Some u \<Rightarrow>
          if u = BT_UUID_UNSPEC then Some (False, c)
          else do {
            field \<leftarrow> uuid_field junk u;
            let a = gc_brk c;
            let op = (new_request start endh u 0 callback user_data destroy)\<lparr>rq_ref_count := 1\<rparr>;
            (i, c) \<leftarrow> gc_send env (set_req a op (c\<lparr>gc_brk := a + 1\<rparr>)) BT_ATT_OP_READ_BY_TYPE_REQ (le16 start @ le16 endh @ field)
              GH_READ_BY_TYPE_CB a ASYNC_REQ_UNREF;
            Some (if i \<noteq> 0 then (True, set_req a (op\<lparr>rq_id := i\<rparr>) c) else (False, c\<lparr>gc_reqs := (gc_reqs c)(a := None)\<rparr>))
          })"

definition discover_descs_cb :: "att_env \<Rightarrow> gatt_client \<Rightarrow> nat \<Rightarrow> u8 \<Rightarrow> bytes option \<Rightarrow> gatt_client option" where
  "discover_descs_cb env c a opcode pdu =
     (if opcode = BT_ATT_OP_ERROR_RSP then discovery_op_complete env c a False (process_error pdu)
      else if \<not> rsp_has opcode pdu BT_ATT_OP_FIND_INFO_RSP 5 then discovery_op_complete env c a False 0
      else do {
        p \<leftarrow> pdu;
        format \<leftarrow> load8 p 0;
        (if format \<noteq> 1 \<and> format \<noteq> 2 then discovery_op_complete env c a False 0
         else
           let data_length = (if format = 1 then 4 else 18)
           in if (length p - 1) mod data_length \<noteq> 0 then discovery_op_complete env c a False 0
              else do {
                op \<leftarrow> gc_reqs c a;
                let op = result_append opcode (drop 1 p) data_length op;
                last_handle \<leftarrow> pdu_le16 p (length p - data_length);
                (if last_handle < rq_start_handle op then discovery_op_complete env (set_req a op c) a False 0
                 else
                   let op = op\<lparr>rq_start_handle := last_handle + 1\<rparr>;
                       c = set_req a op c
                   in if last_handle \<noteq> rq_end_handle op
                      then send_next env c a BT_ATT_OP_FIND_INFO_REQ (le16 (rq_start_handle op) @ le16 (rq_end_handle op)) DISCOVER_DESCS_CB
                      else discovery_op_complete env c a True 0)
              })
      })"

definition bt_gatt_discover_descriptors ::
  "att_env \<Rightarrow> gatt_client \<Rightarrow> u16 \<Rightarrow> u16 \<Rightarrow> nat option \<Rightarrow> nat \<Rightarrow> nat option \<Rightarrow> (nat option \<times> gatt_client) option" where
  "bt_gatt_discover_descriptors env c start endh callback user_data destroy =
     send_first env c (new_request start endh BT_UUID_UNSPEC 0 callback user_data destroy)
       BT_ATT_OP_FIND_INFO_REQ (le16 start @ le16 endh) DISCOVER_DESCS_CB"

section \<open>Events\<close>

definition gc_response :: "att_env \<Rightarrow> (nat \<Rightarrow> u8) \<Rightarrow> gatt_client \<Rightarrow> nat \<Rightarrow> nat \<Rightarrow> u8 \<Rightarrow> bytes option \<Rightarrow> gatt_client option" where
  "gc_response env junk c f user_data opcode pdu =
     (if f = GH_MTU_CB then mtu_cb c user_data opcode pdu
      else if f = GH_READ_BY_GRP_TYPE_CB then gh_read_by_grp_type_cb env c user_data opcode pdu
      else if f = GH_FIND_BY_TYPE_VAL_CB then gh_find_by_type_val_cb env junk c user_data opcode pdu
      else if f = READ_INCLUDED_CB then read_included_cb env c user_data opcode pdu
      else if f = DISCOVER_INCLUDED_CB then discover_included_cb env c user_data opcode pdu
      else if f = DISCOVER_CHRCS_CB then discover_chrcs_cb env c user_data opcode pdu
      else if f = GH_READ_BY_TYPE_CB then gh_read_by_type_cb env junk c user_data opcode pdu
      else if f = DISCOVER_DESCS_CB then discover_descs_cb env c user_data opcode pdu
      else Some c)"

fun gc_events :: "att_env \<Rightarrow> (nat \<Rightarrow> u8) \<Rightarrow> gatt_client \<Rightarrow> att_event list \<Rightarrow> gatt_client option" where
  "gc_events env junk c [] = Some c"
| "gc_events env junk c (ResponseCallback f ud opcode pdu # es) = do { c \<leftarrow> gc_response env junk c f ud opcode pdu; gc_events env junk c es }"
| "gc_events env junk c (OpDestroyed f ud # es) = do { c \<leftarrow> gc_destroyed env c f ud; gc_events env junk c es }"
| "gc_events env junk c (_ # es) = gc_events env junk c es"

text \<open>A received PDU.  The callbacks only queue PDUs and cancel their own, so that they can run after the transport has recorded
  the calls.\<close>

definition client_receive :: "att_env \<Rightarrow> (nat \<Rightarrow> u8) \<Rightarrow> gatt_client \<Rightarrow> bytes option \<Rightarrow> (bool \<times> gatt_client) option" where
  "client_receive env junk c bytes_read = do {
     (r, att) \<leftarrow> can_read_data env (gc_att c) bytes_read;
     c' \<leftarrow> gc_events env junk (c\<lparr>gc_att := att\<rparr>) (drop (length (att_log (gc_att c))) (att_log att));
     Some (r, c')
   }"

text \<open>A call of the transport's write handler.  When the PDU cannot be written the callback is told.\<close>

definition client_write :: "att_env \<Rightarrow> (nat \<Rightarrow> u8) \<Rightarrow> gatt_client \<Rightarrow> (bool \<times> gatt_client) option" where
  "client_write env junk c = do {
     let (r, att) = can_write_data env (gc_att c);
     c' \<leftarrow> gc_events env junk (c\<lparr>gc_att := att\<rparr>) (drop (length (att_log (gc_att c))) (att_log att));
     Some (r, c')
   }"

end
