(* ===== verification/Gatt_Db_Inv.thy ===== *)
theory Gatt_Db_Inv
  imports Gatt_Db Transition
begin

text \<open>
  The invariant of the attribute database: services are sorted by handle and do not overlap, the attributes of a
  service fill its array from the front with consecutive handles, and values have their stated length.  Every
  operation keeps it, except for an insertion around an existing service, and the operations that take a handle
  for an attribute, which are outside the system of this theory.
\<close>

section \<open>Services\<close>

definition attr_ok :: "gatt_db_attribute \<Rightarrow> bool" where
  "attr_ok a \<longleftrightarrow> uuid_ok (a_uuid a)
     \<and> (case a_value a of None \<Rightarrow> a_value_len a = 0 | Some v \<Rightarrow> length v = unat (a_value_len a))"

definition decl_ok :: "gatt_db_attribute \<Rightarrow> bool" where
  "decl_ok a \<longleftrightarrow> (a_uuid a = primary_service_uuid \<or> a_uuid a = secondary_service_uuid)
     \<and> (a_value_len a = 2 \<or> a_value_len a = 16) \<and> a_value a \<noteq> None"

text \<open>\<open>dense s as\<close>: the array of \<open>s\<close> holds \<open>as\<close>, with consecutive handles, and is empty behind.\<close>

definition dense :: "gatt_db_service \<Rightarrow> gatt_db_attribute list \<Rightarrow> bool" where
  "dense s as \<longleftrightarrow> (\<exists>k. s_attributes s = map Some as @ replicate k None \<and> unat (s_num_handles s) = length as + k)
     \<and> as \<noteq> [] \<and> decl_ok (hd as) \<and> (\<forall>a\<in>set as. attr_ok a) \<and> 0 < unat (a_handle (hd as))
     \<and> unat (a_handle (hd as)) + unat (s_num_handles s) \<le> 2 ^ 16
     \<and> (\<forall>i<length as. unat (a_handle (as ! i)) = unat (a_handle (hd as)) + i)"

definition svc_ok :: "gatt_db_service \<Rightarrow> bool" where
  "svc_ok s \<longleftrightarrow> (\<exists>as. dense s as)"

definition svc_start :: "gatt_db_service \<Rightarrow> nat" where
  "svc_start s = (case s_attributes s of Some a # _ \<Rightarrow> unat (a_handle a) | _ \<Rightarrow> 0)"

definition svc_end :: "gatt_db_service \<Rightarrow> nat" where
  "svc_end s = svc_start s + unat (s_num_handles s) - 1"

lemma denseE:
  assumes "dense s as"
  obtains a bs k where "as = a # bs" "s_attributes s = map Some as @ replicate k None" "unat (s_num_handles s) = length as + k"
    "decl_ok a" "\<forall>a\<in>set as. attr_ok a" "0 < unat (a_handle a)" "unat (a_handle a) + unat (s_num_handles s) \<le> 2 ^ 16"
    "\<forall>i<length as. unat (a_handle (as ! i)) = unat (a_handle a) + i" "svc_start s = unat (a_handle a)"
    "svc_end s = unat (a_handle a) + unat (s_num_handles s) - 1"
proof -
  obtain a bs where as: "as = a # bs"
    using assms by (cases as) (simp_all add: dense_def)
  obtain k where k: "s_attributes s = map Some as @ replicate k None" "unat (s_num_handles s) = length as + k"
    using assms by (auto simp: dense_def)
  show ?thesis
    using assms k by (intro that [OF as]) (simp_all add: dense_def as svc_start_def svc_end_def)
qed

lemma attr_of_dense: "dense s as \<Longrightarrow> attr_of s i = (if i < length as then Some (as ! i) else None)"
  unfolding dense_def by (auto simp: attr_of_def array_at_def nth_append)

lemma of_nat_unat_u16: "of_nat (unat (x :: u16)) = x"
  by simp

lemma unat_u16_add: "unat (x :: u16) + unat y < 2 ^ 16 \<Longrightarrow> unat (x + y) = unat x + unat y"
  by (simp add: unat_word_ariths)

lemma unat_u16_end: "0 < unat n \<Longrightarrow> unat (x :: u16) + unat n \<le> 2 ^ 16 \<Longrightarrow> unat (x + n - 1) = unat x + unat n - 1"
proof -
  assume n: "0 < unat n" "unat x + unat n \<le> 2 ^ 16"
  then have m: "unat (n - 1) = unat n - 1"
    by (metis One_nat_def Suc_leI unat_1 unat_sub word_le_nat_alt)
  then have "unat (x + (n - 1)) = unat x + unat (n - 1)"
    using n by (intro unat_u16_add) simp
  then show ?thesis
    using m n by (simp add: algebra_simps)
qed

lemma svc_bounds:
  assumes "svc_ok s"
  shows "0 < svc_start s" "svc_start s \<le> svc_end s" "svc_end s < 2 ^ 16" "0 < unat (s_num_handles s)"
  using assms unfolding svc_ok_def by (auto elim!: denseE)

lemma get_handles_ok:
  assumes "svc_ok s"
  shows "\<exists>h e. gatt_db_service_get_handles s = Some (h, e) \<and> unat h = svc_start s \<and> unat e = svc_end s"
proof -
  obtain as where d: "dense s as"
    using assms by (auto simp: svc_ok_def)
  then show ?thesis
    using attr_of_dense [OF d, of 0] svc_bounds(4) [OF assms]
    by (elim denseE) (simp add: gatt_db_service_get_handles_def unat_u16_end)
qed

lemma dense_attrs: "dense s as \<Longrightarrow> as = map the (takeWhile (\<lambda>a. a \<noteq> None) (s_attributes s))"
  unfolding dense_def by (auto simp: takeWhile_append takeWhile_replicate)

lemma dense_unique: "dense s as \<Longrightarrow> dense s bs \<Longrightarrow> bs = as"
  using dense_attrs by metis

text \<open>Adding attributes behind the last one.\<close>

lemma dense_free_index: "dense s as \<Longrightarrow> free_index (s_attributes s) n = min n (length as)"
proof -
  have "free_index (map Some as @ replicate k None) n = min n (length as)" for k
  proof (induction as arbitrary: n)
    case Nil
    show ?case
      by (cases n; cases k) simp_all
  next
    case (Cons a as)
    then show ?case
      by (cases n) simp_all
  qed
  then show "dense s as \<Longrightarrow> free_index (s_attributes s) n = min n (length as)"
    by (auto elim: denseE)
qed

lemma dense_index:
  assumes "dense s as" "e \<le> unat (s_num_handles s)"
  shows "get_attribute_index s e = (if length as < unat (s_num_handles s) - e then length as else 0)"
  using assms by (auto simp: get_attribute_index_def dense_free_index min_def Let_def elim: denseE)

lemma dense_append:
  assumes "dense s as" "length as + length bs \<le> unat (s_num_handles s)" "\<forall>b\<in>set bs. attr_ok b"
    and "\<forall>i<length bs. unat (a_handle (bs ! i)) = svc_start s + length as + i"
    and "s_num_handles t = s_num_handles s" "s_attributes t = map Some (as @ bs) @ replicate (unat (s_num_handles s) - (length as + length bs)) None"
  shows "dense t (as @ bs)"
  using assms(1)
proof (rule denseE)
  fix a cs k
  assume as: "as = a # cs" and num: "unat (s_num_handles s) = length as + k" and h: "svc_start s = unat (a_handle a)"
    and i: "\<forall>i<length as. unat (a_handle (as ! i)) = unat (a_handle a) + i"
    and ok: "decl_ok a" "\<forall>a\<in>set as. attr_ok a" "0 < unat (a_handle a)" "unat (a_handle a) + unat (s_num_handles s) \<le> 2 ^ 16"
  have "unat (a_handle ((as @ bs) ! j)) = unat (a_handle a) + j" if "j < length (as @ bs)" for j
    using i assms(4) that h by (cases "j < length as") (auto simp: nth_append)
  then show "dense t (as @ bs)"
    using as num ok assms(2,3,5,6) unfolding dense_def by auto
qed

lemma set_entry_dense:
  assumes "s_attributes s = map Some as @ replicate (Suc k) None"
  shows "s_attributes (set_entry s (length as) (Some a)) = map Some (as @ [a]) @ replicate k None"
    "s_num_handles (set_entry s i a') = s_num_handles s"
  using assms by (simp_all add: set_entry_def list_update_append)

lemma uuid_to_le_ok:
  assumes "uuid_ok u"
  shows "\<exists>b. uuid_to_le u = Some b \<and> b = (case u of BT_UUID16 v \<Rightarrow> le16 v | _ \<Rightarrow> rev (u128 u)) \<and> (length b = 2 \<or> length b = 16)"
  using to_uuid128_u128 [OF assms, of BT_UUID_UNSPEC] length_u128 [OF assms] assms
  by (cases u) (auto simp: uuid_to_le_def bswap_128_def simp del: u128.simps)

lemma new_attribute_value:
  "bs \<noteq> [] \<Longrightarrow> length bs < 2 ^ 16 \<Longrightarrow> \<exists>a. new_attribute h u (Some bs) (of_nat (length bs)) = Some a
     \<and> a_handle a = h \<and> a_uuid a = u \<and> a_value a = Some bs \<and> unat (a_value_len a) = length bs \<and> a_pending_reads a = [] \<and> a_pending_writes a = []"
proof -
  assume b: "bs \<noteq> []" "length bs < 2 ^ 16"
  then have n: "unat (of_nat (length bs) :: u16) = length bs"
    by (simp only: unat_of_nat) simp
  then have "(of_nat (length bs) :: u16) \<noteq> 0"
    using b(1) by (metis length_0_conv unat_0)
  then show ?thesis
    using n by (simp add: new_attribute_def mem_read_def)
qed

lemma new_attribute_empty:
  "\<exists>a. new_attribute h u None 0 = Some a \<and> a_handle a = h \<and> a_uuid a = u \<and> a_value a = None \<and> a_value_len a = 0"
  by (simp add: new_attribute_def)

lemma set_attribute_data_fields [simp]:
  "a_handle (set_attribute_data r w p d a) = a_handle a" "a_uuid (set_attribute_data r w p d a) = a_uuid a"
  "a_value (set_attribute_data r w p d a) = a_value a" "a_value_len (set_attribute_data r w p d a) = a_value_len a"
  by (simp_all add: set_attribute_data_def)

lemma uuid_ok_const [simp]:
  "uuid_ok primary_service_uuid" "uuid_ok secondary_service_uuid" "uuid_ok included_service_uuid" "uuid_ok characteristic_uuid"
  by (simp_all add: primary_service_uuid_def secondary_service_uuid_def included_service_uuid_def characteristic_uuid_def)

text \<open>\<open>extends s t\<close>: \<open>t\<close> is \<open>s\<close> with attributes added.\<close>

definition extends :: "gatt_db_service \<Rightarrow> gatt_db_service \<Rightarrow> bool" where
  "extends s t \<longleftrightarrow> s_active t = s_active s \<and> s_claimed t = s_claimed s \<and> s_num_handles t = s_num_handles s
     \<and> (\<forall>as. dense s as \<longrightarrow> (\<exists>bs. dense t (as @ bs)))"

lemma last_handle:
  assumes "dense s as"
  shows "\<exists>h. get_handle_at_index s (length as - 1) = Some h \<and> unat h = svc_start s + length as - 1"
  using assms attr_of_dense [OF assms, of "length as - 1"]
  by (elim denseE) (auto simp: get_handle_at_index_def nth_append)

text \<open>The handles of the next one or two attributes of a service with room for them.\<close>

lemma next_handles:
  assumes "dense s as" "unat (h :: u16) = svc_start s + length as - 1" "length as + n \<le> unat (s_num_handles s)" "n \<le> 2"
  shows "unat (h + of_nat n) = svc_start s + length as - 1 + n"
proof -
  have n: "unat (of_nat n :: u16) = n"
    using assms(4) by (simp only: unat_of_nat) simp
  have "0 < length as" "svc_start s + unat (s_num_handles s) \<le> 2 ^ 16"
    using assms(1) by (auto elim: denseE)
  then have "svc_start s + length as - 1 + n < 2 ^ 16"
    using assms(3) by linarith
  then show ?thesis
    using assms(2) n unat_u16_add [of h "of_nat n"] by simp
qed

lemma add_descriptor_ok:
  assumes "dense s as" "uuid_ok u"
  shows "\<exists>r t. service_insert_descriptor s 0 u perm rfn wfn ud = Some (r, t)
    \<and> (if length as < unat (s_num_handles s)
       then r = Some (length as) \<and> (\<exists>a. dense t (as @ [a]) \<and> a_uuid a = u \<and> unat (a_handle a) = svc_start s + length as) \<and> extends s t
       else r = None \<and> t = s)"
proof (cases "length as < unat (s_num_handles s)")
  case True
  have i: "get_attribute_index s 0 = length as" "length as \<noteq> 0"
    using True dense_index [OF assms(1)] assms(1) by (auto simp: dense_def)
  obtain k where k: "s_attributes s = map Some as @ replicate (Suc k) None" "unat (s_num_handles s) = length as + Suc k"
    using assms(1) True by (elim denseE) (metis add_less_cancel_left less_imp_Suc_add add_0_right)
  obtain h where h: "get_handle_at_index s (length as - 1) = Some h" "unat h = svc_start s + length as - 1"
    using last_handle [OF assms(1)] by blast
  obtain f where f: "get_handle_at_index s 0 = Some f"
    using attr_of_dense [OF assms(1), of 0] i(2) by (simp add: get_handle_at_index_def)
  obtain a where a: "new_attribute (h + 1) u None 0 = Some a" "a_handle a = h + 1" "a_uuid a = u" "a_value a = None" "a_value_len a = 0"
    using new_attribute_empty by blast
  let ?a = "set_attribute_data rfn wfn perm ud a" and ?t = "set_entry s (length as) (Some (set_attribute_data rfn wfn perm ud a))"
  have uh: "unat (a_handle ?a) = svc_start s + length as"
    using next_handles [OF assms(1) h(2), of 1] a(2) i(2) True by simp
  have d: "dense ?t (as @ [?a])"
    using a uh k True assms(2) set_entry_dense [OF k(1)] by (intro dense_append [OF assms(1)]) (simp_all add: attr_ok_def)
  have "extends s ?t"
    using d dense_unique [OF assms(1)] by (auto simp: extends_def set_entry_def)
  moreover have "service_insert_descriptor s 0 u perm rfn wfn ud = Some (Some (length as), ?t)"
    using i h f a by (simp add: service_insert_descriptor_def Let_def)
  ultimately show ?thesis
    using True d uh a(3) by auto
next
  case False
  then have "get_attribute_index s 0 = 0"
    using dense_index [OF assms(1)] by simp
  then show ?thesis
    using False by (simp add: service_insert_descriptor_def)
qed

lemma add_characteristic_ok:
  assumes "dense s as" "uuid_ok u"
  shows "\<exists>r t. service_insert_characteristic s 0 u perm pty rfn wfn ud = Some (r, t)
    \<and> (if length as + 1 < unat (s_num_handles s)
       then r = Some (length as + 1) \<and> extends s t \<and> (\<exists>d v le. dense t (as @ [d, v]) \<and> a_uuid d = characteristic_uuid
          \<and> uuid_to_le u = Some le \<and> a_value d = Some ([pty] @ le16 (a_handle v) @ le)
          \<and> unat (a_handle d) = svc_start s + length as \<and> a_uuid v = u \<and> unat (a_handle v) = svc_start s + length as + 1)
       else r = None \<and> t = s)"
proof -
  obtain f where f: "get_handle_at_index s 0 = Some f" and ne: "length as \<noteq> 0" and num: "1 \<le> unat (s_num_handles s)"
    using attr_of_dense [OF assms(1), of 0] assms(1) by (auto simp: get_handle_at_index_def elim: denseE)
  show ?thesis
  proof (cases "length as + 1 < unat (s_num_handles s)")
    case True
    then have i: "get_attribute_index s 1 = length as"
      using dense_index [OF assms(1) num] by auto
    obtain k where k: "s_attributes s = map Some as @ replicate (Suc (Suc k)) None" "unat (s_num_handles s) = length as + Suc (Suc k)"
    proof -
      obtain k where "s_attributes s = map Some as @ replicate k None" "unat (s_num_handles s) = length as + k"
        using assms(1) by (auto simp: dense_def)
      then show thesis
        using True that [of "k - 2"] by (cases k; cases "k - 1") auto
    qed
    obtain h where h: "get_handle_at_index s (length as - 1) = Some h" "unat h = svc_start s + length as - 1"
      using last_handle [OF assms(1)] by blast
    obtain le where le: "uuid_to_le u = Some le" "length le = 2 \<or> length le = 16"
      using uuid_to_le_ok [OF assms(2)] by blast
    let ?pdu = "[pty] @ le16 (h + 2) @ le"
    obtain d where d: "new_attribute (h + 2 - 1) characteristic_uuid (Some ?pdu) (of_nat (length ?pdu)) = Some d"
        "a_handle d = h + 2 - 1" "a_uuid d = characteristic_uuid" "a_value d = Some ?pdu" "unat (a_value_len d) = length ?pdu"
      using new_attribute_value [of ?pdu "h + 2 - 1" characteristic_uuid] le(2) by auto
    obtain v where v: "new_attribute (h + 2) u None 0 = Some v" "a_handle v = h + 2" "a_uuid v = u" "a_value v = None" "a_value_len v = 0"
      using new_attribute_empty by blast
    let ?v = "set_attribute_data rfn wfn perm ud v"
    let ?t1 = "set_entry s (length as) (Some d)"
    let ?t = "set_entry ?t1 (length as + 1) (Some ?v)"
    have uh: "unat (a_handle d) = svc_start s + length as" "unat (a_handle ?v) = svc_start s + length as + 1"
      using next_handles [OF assms(1) h(2), of 1] next_handles [OF assms(1) h(2), of 2] d(2) v(2) ne True by (simp_all add: add.commute)
    have t1: "s_attributes ?t1 = map Some (as @ [d]) @ replicate (Suc k) None"
      using set_entry_dense(1) [OF k(1)] .
    have t: "s_attributes ?t = map Some (as @ [d, ?v]) @ replicate k None"
      using set_entry_dense(1) [OF t1, of ?v] by simp
    have dt: "dense ?t (as @ [d, ?v])"
    proof (rule dense_append [OF assms(1)])
      show "\<forall>i<length [d, ?v]. unat (a_handle ([d, ?v] ! i)) = svc_start s + length as + i"
        using uh by (simp add: less_Suc_eq nth_Cons')
    qed (use True k(2) d v t assms(2) in \<open>simp_all add: attr_ok_def set_entry_def\<close>)
    have "extends s ?t"
      using dt dense_unique [OF assms(1)] by (auto simp: extends_def set_entry_def)
    moreover have "array_at ?t1 (length as + 1) = Some None"
      using t1 by (simp add: array_at_def nth_append)
    then have "service_insert_characteristic s 0 u perm pty rfn wfn ud = Some (Some (length as + 1), ?t)"
      using i h f le d v ne unfolding service_insert_characteristic_def by (simp add: Let_def)
    moreover have "\<exists>d v le. dense ?t (as @ [d, v]) \<and> a_uuid d = characteristic_uuid
          \<and> uuid_to_le u = Some le \<and> a_value d = Some ([pty] @ le16 (a_handle v) @ le)
          \<and> unat (a_handle d) = svc_start s + length as \<and> a_uuid v = u \<and> unat (a_handle v) = svc_start s + length as + 1"
      using dt uh le(1) d(3,4) v(2,3) by (intro exI [of _ d] exI [of _ ?v] exI [of _ le]) simp
    ultimately show ?thesis
      using True by simp
  next
    case False
    then have "get_attribute_index s 1 = 0"
      using dense_index [OF assms(1) num] by auto
    then show ?thesis
      using False f by (simp add: service_insert_characteristic_def Let_def)
  qed
qed

lemma add_included_ok:
  assumes "dense s as" "dense s' as'"
  shows "\<exists>r t. service_add_included s' s = Some (r, t)
    \<and> (if length as < unat (s_num_handles s)
       then r = Some (length as) \<and> extends s t \<and> (\<exists>a bs. dense t (as @ [a]) \<and> a_uuid a = included_service_uuid
          \<and> unat (a_handle a) = svc_start s + length as \<and> a_value a = Some (le16 (of_nat (svc_start s')) @ le16 (of_nat (svc_end s')) @ bs)
          \<and> (bs = [] \<or> length bs = 2))
       else r = None \<and> t = s)"
proof -
  obtain i0 bs0 where as': "as' = i0 # bs0" and i0: "decl_ok i0" "attr_ok i0" "svc_start s' = unat (a_handle i0)"
      "svc_end s' = unat (a_handle i0) + unat (s_num_handles s') - 1" "0 < unat (s_num_handles s')"
      "unat (a_handle i0) + unat (s_num_handles s') \<le> 2 ^ 16"
    using assms(2) by (elim denseE) auto
  have inc: "attr_of s' 0 = Some i0"
    using attr_of_dense [OF assms(2), of 0] as' by simp
  have handles: "a_handle i0 = of_nat (svc_start s')" "of_nat (svc_start s') + s_num_handles s' - 1 = (of_nat (svc_end s') :: u16)"
    using i0(3-6) unat_u16_end [OF i0(5,6)] by (metis of_nat_unat_u16)+
  let ?v = "le16 (of_nat (svc_start s')) @ le16 (of_nat (svc_end s'))"
  obtain bs where bs: "(if a_value_len i0 = 2 then do { v \<leftarrow> a_value i0; bs \<leftarrow> mem_read v 0 2; Some (?v @ bs) } else Some ?v) = Some (?v @ bs)"
      "bs = [] \<or> length bs = 2"
    using i0(1,2) by (cases "a_value i0") (auto simp: decl_ok_def attr_ok_def mem_read_def)
  have body: "service_add_included s' s = (if get_attribute_index s 0 = 0 then Some (None, s)
      else do {
        a \<leftarrow> new_attribute 0 included_service_uuid (Some (?v @ bs)) (of_nat (length (?v @ bs)));
        t \<leftarrow> attribute_update (set_entry s (get_attribute_index s 0) (Some (set_attribute_data None None 0 0 a))) (get_attribute_index s 0);
        Some (Some (get_attribute_index s 0), t)
      })"
    unfolding service_add_included_def Let_def inc bind.bind_lunit handles bs(1) by simp
  have index: "get_attribute_index s 0 = (if length as < unat (s_num_handles s) then length as else 0)"
    using dense_index [OF assms(1), of 0] by simp
  show ?thesis
  proof (cases "length as < unat (s_num_handles s)")
    case True
    have ne: "length as \<noteq> 0"
      using assms(1) by (auto simp: dense_def)
    obtain k where k: "s_attributes s = map Some as @ replicate (Suc k) None" "unat (s_num_handles s) = length as + Suc k"
      using assms(1) True by (elim denseE) (metis add_less_cancel_left less_imp_Suc_add add_0_right)
    obtain h where h: "get_handle_at_index s (length as - 1) = Some h" "unat h = svc_start s + length as - 1"
      using last_handle [OF assms(1)] by blast
    obtain a where a: "new_attribute 0 included_service_uuid (Some (?v @ bs)) (of_nat (length (?v @ bs))) = Some a"
        "a_uuid a = included_service_uuid" "a_value a = Some (?v @ bs)" "unat (a_value_len a) = length (?v @ bs)"
    proof -
      have "?v @ bs \<noteq> []" "length (?v @ bs) < 2 ^ 16"
        using bs(2) by (auto simp: le16_def)
      then show thesis
        using new_attribute_value [of "?v @ bs" 0 included_service_uuid] that by blast
    qed
    let ?a = "(set_attribute_data None None 0 0 a)\<lparr>a_handle := h + 1\<rparr>"
    let ?t1 = "set_entry s (length as) (Some (set_attribute_data None None 0 0 a))"
    let ?t = "set_entry ?t1 (length as) (Some ?a)"
    have t: "s_attributes ?t = map Some (as @ [?a]) @ replicate k None"
      by (simp add: set_entry_def k(1) list_update_append)
    have uh: "unat (a_handle ?a) = svc_start s + length as"
      using next_handles [OF assms(1) h(2), of 1] ne True by simp
    have d: "dense ?t (as @ [?a])"
      using a uh k(2) True t by (intro dense_append [OF assms(1)]) (simp_all add: attr_ok_def set_entry_def)
    have "attr_of ?t1 (length as - 1) = attr_of s (length as - 1)" "attr_of ?t1 (length as) = Some (set_attribute_data None None 0 0 a)"
      using ne by (simp_all add: attr_of_def array_at_def set_entry_def k(1) nth_append list_update_append)
    then have "attribute_update ?t1 (length as) = Some ?t"
      using h(1) by (auto simp: attribute_update_def get_handle_at_index_def)
    then have "service_add_included s' s = Some (Some (length as), ?t)"
      using index True ne a(1) unfolding body by simp
    moreover have "extends s ?t"
      using d dense_unique [OF assms(1)] by (auto simp: extends_def set_entry_def)
    ultimately show ?thesis
      using True d uh a(2,3) bs(2) by auto
  next
    case False
    then show ?thesis
      using index unfolding body by simp
  qed
qed

section \<open>The queue of services\<close>

definition before :: "nat \<times> gatt_db_service \<Rightarrow> nat \<times> gatt_db_service \<Rightarrow> bool" where
  "before s t \<longleftrightarrow> svc_end (snd s) < svc_start (snd t)"

definition db_ok :: "gatt_db \<Rightarrow> bool" where
  "db_ok db \<longleftrightarrow> distinct (map fst (services db)) \<and> (\<forall>s\<in>set (services db). fst s < db_brk db \<and> svc_ok (snd s))
     \<and> sorted_wrt before (services db) \<and> (\<forall>n\<in>set (notify_list db). n_service_added n \<noteq> None \<and> n_service_removed n \<noteq> None)"

text \<open>No service lies strictly inside the handles from \<open>lo\<close> to \<open>hi\<close>.\<close>

definition encloses_none :: "gatt_db \<Rightarrow> nat \<Rightarrow> nat \<Rightarrow> bool" where
  "encloses_none db lo hi \<longleftrightarrow> (\<forall>s\<in>set (services db). \<not> (lo < svc_start (snd s) \<and> svc_end (snd s) < hi))"

lemma find_insert_loop_ok:
  assumes "\<forall>s\<in>set ss. svc_ok (snd s)" "unat lo \<le> unat hi" "find_insert_loop ss lo hi after = Some (None, r)"
  shows "\<exists>xs ys. ss = xs @ ys \<and> (\<forall>x\<in>set xs. svc_end (snd x) < unat hi \<and> (svc_end (snd x) < unat lo \<or> unat lo < svc_start (snd x)))
    \<and> (ys = [] \<or> unat hi < svc_start (snd (hd ys))) \<and> r = (if xs = [] then after else Some (fst (last xs)))"
  using assms
proof (induction ss arbitrary: after)
  case (Cons s ss)
  obtain h e where he: "gatt_db_service_get_handles (snd s) = Some (h, e)" "unat h = svc_start (snd s)" "unat e = svc_end (snd s)"
    using get_handles_ok Cons.prems(1) by (meson list.set_intros(1))
  note le = word_le_nat_alt word_less_nat_alt he(2,3)
  show ?case
  proof (cases "hi < h")
    case True
    then have "r = after" "unat hi < svc_start (snd s)"
      using Cons.prems(3) he by (auto simp: le split: if_splits)
    then show ?thesis
      by (intro exI [of _ "[]"] exI [of _ "s # ss"]) simp
  next
    case False
    then have step: "find_insert_loop ss lo hi (Some (fst s)) = Some (None, r)" and s: "svc_end (snd s) < unat hi"
        "svc_end (snd s) < unat lo \<or> unat lo < svc_start (snd s)"
      using Cons.prems(3) he by (auto simp: le split: if_splits)
    obtain xs ys where x: "ss = xs @ ys" "\<forall>x\<in>set xs. svc_end (snd x) < unat hi \<and> (svc_end (snd x) < unat lo \<or> unat lo < svc_start (snd x))"
        "ys = [] \<or> unat hi < svc_start (snd (hd ys))" "r = (if xs = [] then Some (fst s) else Some (fst (last xs)))"
      using Cons.IH [OF _ Cons.prems(2) step] Cons.prems(1) by auto
    show ?thesis
      using x s by (intro exI [of _ "s # xs"] exI [of _ ys]) auto
  qed
qed simp

lemma find_insert_loop_total:
  assumes "\<forall>s\<in>set ss. svc_ok (snd s)"
  shows "\<exists>r a. find_insert_loop ss lo hi after = Some (r, a)
    \<and> (r \<noteq> None \<longrightarrow> (\<exists>s. (the r, s) \<in> set ss \<and> (svc_start s \<le> unat lo \<and> unat lo \<le> svc_end s \<or> svc_start s \<le> unat hi \<and> unat hi \<le> svc_end s)))"
  using assms
proof (induction ss arbitrary: after)
  case (Cons s ss)
  obtain h e where he: "gatt_db_service_get_handles (snd s) = Some (h, e)" "unat h = svc_start (snd s)" "unat e = svc_end (snd s)"
    using get_handles_ok Cons.prems(1) by (meson list.set_intros(1))
  show ?case
    using Cons.IH [of "Some (fst s)"] Cons.prems he by (cases s) (auto simp: word_le_nat_alt)
qed simp

lemma push_after_last:
  "xs \<noteq> [] \<Longrightarrow> distinct (map fst (xs @ ys)) \<Longrightarrow> push_after (fst (last xs)) s (xs @ ys) = xs @ s # ys"
proof (induction xs)
  case (Cons x xs)
  then show ?case
    by (cases "xs = []") (auto simp: image_iff)
qed simp

lemma sorted_insert:
  assumes "sorted_wrt before (xs @ ys)" "\<forall>x\<in>set xs. before x s" "ys = [] \<or> before s (hd ys)"
    and "\<forall>y\<in>set ys. svc_start (snd y) \<le> svc_end (snd y)"
  shows "sorted_wrt before (xs @ s # ys)"
proof -
  have "before s y" if "y \<in> set ys" for y
  proof (cases ys)
    case (Cons z zs)
    then have "before s z" "y = z \<or> before z y" "svc_start (snd z) \<le> svc_end (snd z)"
      using assms that by (auto simp: sorted_wrt_append)
    then show ?thesis
      by (auto simp: before_def)
  qed (use that in simp)
  then show ?thesis
    using assms(1,2) by (simp add: sorted_wrt_append)
qed

lemma service_create_ok:
  assumes "uuid_ok u" "0 < unat n" "0 < unat h" "unat h + unat n \<le> 2 ^ 16"
  shows "\<exists>s. gatt_db_service_create u h primary n = Some (Some s) \<and> \<not> s_active s
    \<and> (\<exists>a le. dense (s\<lparr>s_num_handles := n\<rparr>) [a] \<and> a_handle a = h \<and> uuid_to_le u = Some le \<and> a_value a = Some le
        \<and> a_uuid a = (if primary then primary_service_uuid else secondary_service_uuid) \<and> unat (a_value_len a) = length le)"
proof -
  let ?type = "if primary then primary_service_uuid else secondary_service_uuid"
  obtain le where le: "uuid_to_le u = Some le" "length le = 2 \<or> length le = 16"
    using uuid_to_le_ok [OF assms(1)] by blast
  obtain a where a: "new_attribute h ?type (Some le) (of_nat (length le)) = Some a" "a_handle a = h" "a_uuid a = ?type"
      "a_value a = Some le" "unat (a_value_len a) = length le"
    using new_attribute_value [of le h ?type] le(2) by fastforce
  have len: "a_value_len a = 2 \<or> a_value_len a = 16"
    using a(5) le(2) by (metis of_nat_unat_u16 of_nat_numeral)
  have n: "\<not> n < 1"
    using assms(2) by (simp add: word_less_nat_alt)
  obtain k where k: "unat n = Suc k"
    using assms(2) gr0_implies_Suc by blast
  let ?s = "\<lparr>s_active = False, s_claimed = False, s_num_handles = 0, s_attributes = (replicate (unat n) None)[0 := Some a]\<rparr>"
  have "dense (?s\<lparr>s_num_handles := n\<rparr>) [a]"
    using assms a len k by (auto simp: dense_def decl_ok_def attr_ok_def)
  moreover have "gatt_db_service_create u h primary n = Some (Some ?s)"
    using n le(1) a(1) by (simp add: gatt_db_service_create_def Let_def)
  ultimately show ?thesis
    using a le(1) by auto
qed

lemma decl_uuid_ok:
  assumes "dense s as"
  shows "\<exists>v. gatt_db_attribute_get_service_uuid (Some s) = Some (Some v) \<and> uuid_ok v"
proof -
  obtain a bs where as: "as = a # bs" "decl_ok a" "attr_ok a"
    using assms by (elim denseE) auto
  obtain v where v: "a_value a = Some v" "length v = unat (a_value_len a)"
    using as(2,3) by (auto simp: decl_ok_def attr_ok_def)
  show ?thesis
    using attr_of_dense [OF assms, of 0] as v
    by (auto simp: gatt_db_attribute_get_service_uuid_def decl_ok_def mem_read_def bswap_128_def bt_uuid16_create_def bt_uuid128_create_def)
qed

lemma uuid_cmp_Some: "uuid_ok u \<Longrightarrow> uuid_ok v \<Longrightarrow> bt_uuid_cmp u v = Some (memcmp (u128 u) (u128 v))"
  by (simp add: bt_uuid_cmp_def to_uuid128_u128)

lemma service_matches_total:
  assumes "svc_ok s" "uuid_ok u"
  shows "\<exists>m. service_matches s h u primary n = Some m"
proof -
  obtain as where d: "dense s as"
    using assms(1) by (auto simp: svc_ok_def)
  obtain a where a: "attr_of s 0 = Some a" "attr_ok a"
    using attr_of_dense [OF d, of 0] d by (elim denseE) auto
  then show ?thesis
    using decl_uuid_ok [OF d] assms(2) by (auto simp: service_matches_def uuid_cmp_Some attr_ok_def Let_def)
qed

lemma service_at_mem: "distinct (map fst (services db)) \<Longrightarrow> service_at db p = Some s \<longleftrightarrow> (p, s) \<in> set (services db)"
  by (simp add: service_at_def)

lemma insert_service_ok:
  assumes "db_ok d" "uuid_ok u" "0 < unat h" "0 < unat n" "unat h + unat n \<le> 2 ^ 16"
    and "encloses_none d (unat h) (unat h + unat n - 1)"
  shows "(\<exists>p s m. service_at d p = Some s \<and> svc_start s \<le> unat h + unat n - 1 \<and> unat h \<le> svc_end s
        \<and> service_matches s h u primary n = Some m
        \<and> gatt_db_insert_service (Some d) h u primary n = Some (if m then Some (p, 0) else None, Some d))
    \<or> (\<exists>xs ys s a le. services d = xs @ ys \<and> dense s [a] \<and> s_num_handles s = n \<and> \<not> s_active s
        \<and> a_handle a = h \<and> uuid_to_le u = Some le \<and> a_value a = Some le \<and> unat (a_value_len a) = length le
        \<and> a_uuid a = (if primary then primary_service_uuid else secondary_service_uuid)
        \<and> (let d' = d\<lparr>services := xs @ (db_brk d, s) # ys, db_brk := Suc (db_brk d),
              next_handle := of_nat (max (unat h + unat n) (unat (next_handle d)))\<rparr>
           in db_ok d' \<and> gatt_db_insert_service (Some d) h u primary n = Some (Some (db_brk d, 0), Some d')))"
proof -
  let ?e = "h + n - 1"
  have e: "unat ?e = unat h + unat n - 1"
    using unat_u16_end [OF assms(4,5)] .
  have ok: "distinct (map fst (services d))" "\<forall>s\<in>set (services d). fst s < db_brk d \<and> svc_ok (snd s)" "sorted_wrt before (services d)"
    using assms(1) by (simp_all add: db_ok_def)
  have guard: "\<not> h < 1" "\<not> n < 1" "\<not> 0xFFFF < unat h + unat n - 1"
    using assms(3-5) by (simp_all add: word_less_nat_alt)
  obtain r a where ra: "find_insert_loop (services d) h ?e None = Some (r, a)" "r \<noteq> None \<longrightarrow> (\<exists>s. (the r, s) \<in> set (services d)
        \<and> (svc_start s \<le> unat h \<and> unat h \<le> svc_end s \<or> svc_start s \<le> unat ?e \<and> unat ?e \<le> svc_end s))"
    using find_insert_loop_total [of "services d" h ?e None] ok(2) by auto
  show ?thesis
  proof (cases r)
    case (Some p)
    then obtain s where s: "service_at d p = Some s" "svc_ok s" "svc_start s \<le> unat h + unat n - 1" "unat h \<le> svc_end s"
      using ra(2) ok service_at_mem [OF ok(1)] e assms(4) by fastforce
    obtain m where m: "service_matches s h u primary n = Some m"
      using service_matches_total [OF s(2) assms(2)] by blast
    then have "gatt_db_insert_service (Some d) h u primary n = Some (if m then Some (p, 0) else None, Some d)"
      using guard ra(1) Some s(1) by (simp add: gatt_db_insert_service_def find_insert_loc_def)
    then show ?thesis
      using m s by blast
  next
    case None
    have "unat h \<le> unat ?e"
      using e assms(4) by simp
    then obtain xs ys where x: "services d = xs @ ys"
        "\<forall>x\<in>set xs. svc_end (snd x) < unat ?e \<and> (svc_end (snd x) < unat h \<or> unat h < svc_start (snd x))"
        "ys = [] \<or> unat ?e < svc_start (snd (hd ys))" "a = (if xs = [] then None else Some (fst (last xs)))"
      using find_insert_loop_ok [of "services d" h ?e None a] ra(1) None ok(2) by auto
    obtain s b le where s: "gatt_db_service_create u h primary n = Some (Some s)" "\<not> s_active s"
        "dense (s\<lparr>s_num_handles := n\<rparr>) [b]" "a_handle b = h" "uuid_to_le u = Some le" "a_value b = Some le" "unat (a_value_len b) = length le"
        "a_uuid b = (if primary then primary_service_uuid else secondary_service_uuid)"
      using service_create_ok [OF assms(2,4,3,5)] by blast
    let ?s = "s\<lparr>s_num_handles := n\<rparr>"
    let ?d = "d\<lparr>services := xs @ (db_brk d, ?s) # ys, db_brk := Suc (db_brk d),
              next_handle := of_nat (max (unat h + unat n) (unat (next_handle d)))\<rparr>"
    have se: "svc_start ?s = unat h" "svc_end ?s = unat ?e"
      using s(3,4) e by (auto elim: denseE)
    have "before x (db_brk d, ?s)" if "x \<in> set xs" for x
      using x(1,2) that assms(6) e se by (auto simp: before_def encloses_none_def)
    moreover have "ys = [] \<or> before (db_brk d, ?s) (hd ys)"
      using x(3) se by (simp add: before_def)
    moreover have "\<forall>y\<in>set ys. svc_start (snd y) \<le> svc_end (snd y)"
      using ok(2) x(1) svc_bounds(2) by simp
    ultimately have "sorted_wrt before (xs @ (db_brk d, ?s) # ys)"
      using sorted_insert ok(3) x(1) by auto
    moreover have fresh: "db_brk d \<notin> fst ` set (services d)"
      using ok(2) by fastforce
    have "distinct (map fst (xs @ (db_brk d, ?s) # ys))"
      using ok(1) fresh by (auto simp: x(1))
    moreover have "svc_ok ?s"
      using s(3) svc_ok_def by blast
    ultimately have db: "db_ok ?d"
      using assms(1) x(1) by (auto simp: db_ok_def less_Suc_eq)
    have q: "(case a of Some p \<Rightarrow> push_after p (db_brk d, ?s) (services d) | None \<Rightarrow> (db_brk d, ?s) # services d) = xs @ (db_brk d, ?s) # ys"
      using x(1,4) push_after_last [of xs ys] ok(1) by (cases "xs = []") simp_all
    have "gatt_db_insert_service (Some d) h u primary n = Some (Some (db_brk d, 0), Some ?d)"
      using guard ra(1) None s(1) q by (simp add: gatt_db_insert_service_def find_insert_loc_def Let_def)
    then show ?thesis
      using x(1) s db unfolding Let_def
      by (intro disjI2 exI [of _ xs] exI [of _ ys] exI [of _ ?s] exI [of _ b] exI [of _ le]) auto
  qed
qed

section \<open>The other operations\<close>

lemma db_ok_log [simp]: "db_ok (d\<lparr>db_log := l\<rparr>) = db_ok d" "db_ok (emit es d) = db_ok d"
  by (simp_all add: db_ok_def emit_def)

lemma those_Some: "\<forall>x\<in>set xs. f x \<noteq> None \<Longrightarrow> those (map f xs) = Some (map (the \<circ> f) xs)"
  by (induction xs) auto

definition notify_ok :: "gatt_db \<Rightarrow> bool" where
  "notify_ok d \<longleftrightarrow> (\<forall>n\<in>set (notify_list d). n_service_added n \<noteq> None \<and> n_service_removed n \<noteq> None)"

lemma notify_total: "notify_ok d \<Longrightarrow> \<exists>l. notify_service_changed d p added = Some (d\<lparr>db_log := l\<rparr>)"
  unfolding notify_service_changed_def by (subst those_Some) (auto simp: notify_ok_def handle_notify_def emit_def)

lemma service_destroy_total: "notify_ok d \<Longrightarrow> \<exists>l. gatt_db_service_destroy d s = Some (d\<lparr>db_log := l\<rparr>)"
  using notify_total [of d "fst s" False] by (auto simp: gatt_db_service_destroy_def emit_def)

lemma destroy_services_total: "notify_ok d \<Longrightarrow> \<exists>l. destroy_services d ss = Some (d\<lparr>db_log := l\<rparr>)"
proof (induction ss arbitrary: d)
  case (Cons s ss)
  obtain l where l: "gatt_db_service_destroy d s = Some (d\<lparr>db_log := l\<rparr>)"
    using service_destroy_total [OF Cons.prems] by blast
  then show ?case
    using Cons.IH [of "d\<lparr>db_log := l\<rparr>"] Cons.prems by (auto simp: notify_ok_def)
next
  case Nil
  show ?case
    by (rule exI [of _ "db_log d"]) simp
qed

lemma db_ok_filter: "db_ok d \<Longrightarrow> db_ok (d\<lparr>services := filter P (services d)\<rparr>)"
  by (auto simp: db_ok_def sorted_wrt_filter distinct_map_filter)

lemma db_ok_set_service:
  assumes "db_ok d" "service_at d p = Some s" "svc_ok t" "svc_start t = svc_start s" "svc_end t = svc_end s"
  shows "db_ok (set_service d p t)"
proof -
  let ?f = "\<lambda>(q, r). (q, if q = p then t else r)"
  have e: "svc_start (snd (?f x)) = svc_start (snd x) \<and> svc_end (snd (?f x)) = svc_end (snd x)" if "x \<in> set (services d)" for x
  proof -
    obtain q r where x: "x = (q, r)"
      by (cases x)
    have "service_at d q = Some r"
      using assms(1) that service_at_mem x unfolding db_ok_def by blast
    then show ?thesis
      using assms(2,4,5) by (auto simp: x)
  qed
  have m: "before (?f x) (?f y)" if "x \<in> set (services d)" "y \<in> set (services d)" "before x y" for x y
    using e [OF that(1)] e [OF that(2)] that(3) unfolding before_def by simp
  have "sorted_wrt before (services d)"
    using assms(1) by (simp add: db_ok_def)
  then have "sorted_wrt (\<lambda>x y. before (?f x) (?f y)) (services d)"
    by (rule sorted_wrt_mono_rel [where P = before, rotated]) (rule m)
  then have "sorted_wrt before (map ?f (services d))"
    by (simp add: sorted_wrt_map)
  moreover have "fst \<circ> ?f = fst"
    by auto
  ultimately show ?thesis
    using assms(1,3) unfolding db_ok_def set_service_def by auto
qed

lemma extends_ok:
  assumes "extends s t" "svc_ok s"
  shows "svc_ok t" "svc_start t = svc_start s" "svc_end t = svc_end s"
proof -
  obtain as bs where d: "dense s as" "dense t (as @ bs)" and n: "s_num_handles t = s_num_handles s"
    using assms by (auto simp: extends_def svc_ok_def)
  show "svc_ok t"
    using d(2) svc_ok_def by blast
  show "svc_start t = svc_start s"
    using d by (elim denseE) auto
  then show "svc_end t = svc_end s"
    by (simp add: svc_end_def n)
qed

lemma db_ok_service: "db_ok d \<Longrightarrow> service_at d p = Some s \<Longrightarrow> svc_ok s"
  using service_at_mem [of d p s] by (force simp: db_ok_def)

lemma db_ok_notify: "db_ok d \<Longrightarrow> notify_ok d" "notify_ok (d\<lparr>services := ss\<rparr>) = notify_ok d" "notify_ok (set_service d p s) = notify_ok d"
  by (simp_all add: db_ok_def notify_ok_def set_service_def)

text \<open>An operation on a service that adds attributes.\<close>

lemma on_service_ok:
  assumes "db_ok d" "service_at d p = Some s" "f s = Some (r, t)" "t = s \<or> extends s t"
  shows "on_service d p f = Some (map_option (Pair p) r, set_service d p t)" "db_ok (set_service d p t)"
proof -
  have s: "svc_ok s"
    using db_ok_service [OF assms(1,2)] .
  have "svc_ok t" "svc_start t = svc_start s" "svc_end t = svc_end s"
    using assms(4) s extends_ok by blast+
  then show "db_ok (set_service d p t)"
    using db_ok_set_service [OF assms(1,2)] by blast
  show "on_service d p f = Some (map_option (Pair p) r, set_service d p t)"
    using assms(2,3) by (simp add: on_service_def)
qed

lemma partition_filter:
  "\<forall>x\<in>set xs. f x \<noteq> None \<Longrightarrow> partition_opt f xs = Some (filter (\<lambda>x. f x = Some True) xs, filter (\<lambda>x. f x \<noteq> Some True) xs)"
  by (induction xs) auto

lemma match_range_total: "svc_ok (snd s) \<Longrightarrow> match_range lo hi s \<noteq> None"
  using get_handles_ok [of "snd s"] by (auto simp: match_range_def)

section \<open>Calls\<close>

datatype db_op =
    InsertService u16 bt_uuid_t bool u16
  | AddService bt_uuid_t bool u16
  | AddCharacteristic attr_ptr bt_uuid_t u32 u8 "nat option" "nat option" nat
  | AddDescriptor attr_ptr bt_uuid_t u32 "nat option" "nat option" nat
  | AddIncluded attr_ptr attr_ptr
  | SetActive attr_ptr bool
  | SetClaimed attr_ptr bool
  | RemoveService attr_ptr
  | ClearRange u16 u16
  | Clear
  | Register nat nat "nat option"
  | Unregister u32

fun db_run :: "db_op \<Rightarrow> gatt_db \<Rightarrow> gatt_db option" where
  "db_run (InsertService h u primary n) db = do { (_, db) \<leftarrow> gatt_db_insert_service (Some db) h u primary n; db }"
| "db_run (AddService u primary n) db = do { (_, db) \<leftarrow> gatt_db_add_service db u primary n; db }"
| "db_run (AddCharacteristic a u perm pty r w ud) db = map_option snd (gatt_db_service_add_characteristic db (Some a) u perm pty r w ud)"
| "db_run (AddDescriptor a u perm r w ud) db = map_option snd (gatt_db_service_add_descriptor db (Some a) u perm r w ud)"
| "db_run (AddIncluded a b) db = map_option snd (gatt_db_service_add_included db (Some a) (Some b))"
| "db_run (SetActive a x) db = map_option snd (gatt_db_service_set_active db (Some a) x)"
| "db_run (SetClaimed a x) db = map_option snd (gatt_db_service_set_claimed db (Some a) x)"
| "db_run (RemoveService a) db = do { (_, db) \<leftarrow> gatt_db_remove_service (Some db) (Some a); db }"
| "db_run (ClearRange lo hi) db = do { (_, db) \<leftarrow> gatt_db_clear_range (Some db) lo hi; db }"
| "db_run Clear db = do { (_, db) \<leftarrow> gatt_db_clear (Some db); db }"
| "db_run (Register f g d) db = Some (snd (gatt_db_register db (Some f) (Some g) d))"
| "db_run (Unregister i) db = Some (snd (gatt_db_unregister db i))"

text \<open>What the caller has to observe: UUIDs are well formed, pointers point to live services, a new service is not put
  around an existing one.\<close>

definition live :: "gatt_db \<Rightarrow> attr_ptr \<Rightarrow> bool" where
  "live db a \<longleftrightarrow> service_at db (fst a) \<noteq> None"

fun op_ok :: "gatt_db \<Rightarrow> db_op \<Rightarrow> bool" where
  "op_ok db (InsertService h u primary n) = (uuid_ok u \<and> encloses_none db (unat h) (unat h + unat n - 1))"
| "op_ok db (AddService u primary n) = (uuid_ok u \<and> encloses_none db (unat (next_handle db)) (unat (next_handle db) + unat n - 1))"
| "op_ok db (AddCharacteristic a u perm pty r w ud) = (uuid_ok u \<and> live db a)"
| "op_ok db (AddDescriptor a u perm r w ud) = (uuid_ok u \<and> live db a)"
| "op_ok db (AddIncluded a b) = (live db a \<and> live db b)"
| "op_ok db (SetActive a x) = live db a"
| "op_ok db (SetClaimed a x) = live db a"
| "op_ok db (RemoveService a) = live db a"
| "op_ok db _ = True"

lemma insert_service_keeps:
  assumes "db_ok d" "uuid_ok u" "encloses_none d (unat h) (unat h + unat n - 1)"
  shows "\<exists>r d'. gatt_db_insert_service (Some d) h u primary n = Some (r, Some d') \<and> db_ok d'"
proof (cases "0 < unat h \<and> 0 < unat n \<and> unat h + unat n \<le> 2 ^ 16")
  case True
  then show ?thesis
    using insert_service_ok [OF assms(1,2) _ _ _ assms(3), of primary] assms(1) by (auto simp: Let_def)
next
  case False
  then have "h < 1 \<or> n < 1 \<or> 0xFFFF < unat h + unat n - 1"
    by (auto simp: word_less_nat_alt)
  then show ?thesis
    using assms(1) by (auto simp: gatt_db_insert_service_def)
qed

lemma add_service_keeps:
  assumes "db_ok d" "service_at d p = Some s"
  shows "uuid_ok u \<Longrightarrow> \<exists>r d'. gatt_db_service_add_characteristic d (Some (p, i)) u perm pty rfn wfn ud = Some (r, d') \<and> db_ok d'"
    and "uuid_ok u \<Longrightarrow> \<exists>r d'. gatt_db_service_add_descriptor d (Some (p, i)) u perm rfn wfn ud = Some (r, d') \<and> db_ok d'"
    and "service_at d q = Some s' \<Longrightarrow> \<exists>r d'. gatt_db_service_add_included d (Some (p, i)) (Some (q, j)) = Some (r, d') \<and> db_ok d'"
proof -
  obtain as where as: "dense s as"
    using db_ok_service [OF assms] by (auto simp: svc_ok_def)
  show "\<exists>r d'. gatt_db_service_add_characteristic d (Some (p, i)) u perm pty rfn wfn ud = Some (r, d') \<and> db_ok d'" if u: "uuid_ok u"
  proof -
    obtain r t where rt: "service_insert_characteristic s 0 u perm pty rfn wfn ud = Some (r, t)" "t = s \<or> extends s t"
      using add_characteristic_ok [OF as u, of perm pty rfn wfn ud] by (auto split: if_splits)
    then show ?thesis
      using on_service_ok [OF assms, of "\<lambda>s. service_insert_characteristic s 0 u perm pty rfn wfn ud" r t]
      by (simp add: gatt_db_service_add_characteristic_def)
  qed
  show "\<exists>r d'. gatt_db_service_add_descriptor d (Some (p, i)) u perm rfn wfn ud = Some (r, d') \<and> db_ok d'" if u: "uuid_ok u"
  proof -
    obtain r t where "service_insert_descriptor s 0 u perm rfn wfn ud = Some (r, t)" "t = s \<or> extends s t"
      using add_descriptor_ok [OF as u, of perm rfn wfn ud] by (auto split: if_splits)
    then show ?thesis
      using on_service_ok [OF assms, of "\<lambda>s. service_insert_descriptor s 0 u perm rfn wfn ud" r t]
      by (simp add: gatt_db_service_add_descriptor_def)
  qed
  show "\<exists>r d'. gatt_db_service_add_included d (Some (p, i)) (Some (q, j)) = Some (r, d') \<and> db_ok d'" if q: "service_at d q = Some s'"
  proof -
    obtain as' where as': "dense s' as'"
      using db_ok_service [OF assms(1) q] by (auto simp: svc_ok_def)
    obtain r t where "service_add_included s' s = Some (r, t)" "t = s \<or> extends s t"
      using add_included_ok [OF as as'] by (auto split: if_splits)
    then show ?thesis
      using on_service_ok [OF assms, of "service_add_included s'" r t] q by (simp add: gatt_db_service_add_included_def)
  qed
qed

lemma flags_ok:
  "svc_ok (s\<lparr>s_active := x\<rparr>) = svc_ok s" "svc_ok (s\<lparr>s_claimed := x\<rparr>) = svc_ok s"
  "svc_start (s\<lparr>s_active := x\<rparr>) = svc_start s" "svc_start (s\<lparr>s_claimed := x\<rparr>) = svc_start s"
  "svc_end (s\<lparr>s_active := x\<rparr>) = svc_end s" "svc_end (s\<lparr>s_claimed := x\<rparr>) = svc_end s"
  by (simp_all add: svc_ok_def dense_def svc_start_def svc_end_def)

lemma db_run_ok:
  assumes "db_ok d" "op_ok d k"
  shows "\<exists>d'. db_run k d = Some d' \<and> db_ok d'"
proof (cases k)
  case (InsertService h u primary n)
  then show ?thesis
    using insert_service_keeps [OF assms(1), of u h n primary] assms(2) by auto
next
  case (AddService u primary n)
  then show ?thesis
    using insert_service_keeps [OF assms(1), of u "next_handle d" n primary] assms(2) by (auto simp: gatt_db_add_service_def)
next
  case (AddCharacteristic a u perm pty r w ud)
  then obtain s where "service_at d (fst a) = Some s" "uuid_ok u"
    using assms(2) by (auto simp: live_def)
  then show ?thesis
    using add_service_keeps(1) [OF assms(1), of "fst a" s u "snd a" perm pty r w ud] AddCharacteristic by auto
next
  case (AddDescriptor a u perm r w ud)
  then obtain s where "service_at d (fst a) = Some s" "uuid_ok u"
    using assms(2) by (auto simp: live_def)
  then show ?thesis
    using add_service_keeps(2) [OF assms(1), of "fst a" s u "snd a" perm r w ud] AddDescriptor by auto
next
  case (AddIncluded a b)
  then obtain s s' where "service_at d (fst a) = Some s" "service_at d (fst b) = Some s'"
    using assms(2) by (auto simp: live_def)
  then show ?thesis
    using add_service_keeps(3) [OF assms(1), of "fst a" s "fst b" s' "snd a" "snd b"] AddIncluded by auto
next
  case (SetActive a x)
  then obtain s where s: "service_at d (fst a) = Some s"
    using assms(2) by (auto simp: live_def)
  let ?d = "set_service d (fst a) (s\<lparr>s_active := x\<rparr>)"
  have ok: "db_ok ?d"
    using db_ok_set_service [OF assms(1) s] db_ok_service [OF assms(1) s] by (simp add: flags_ok)
  obtain l where "notify_service_changed ?d (fst a) x = Some (?d\<lparr>db_log := l\<rparr>)"
    using notify_total [OF db_ok_notify(1) [OF ok]] by blast
  then show ?thesis
    using SetActive s ok assms(1) by (cases a) (auto simp: gatt_db_service_set_active_def)
next
  case (SetClaimed a x)
  then obtain s where s: "service_at d (fst a) = Some s"
    using assms(2) by (auto simp: live_def)
  then show ?thesis
    using SetClaimed db_ok_set_service [OF assms(1) s] db_ok_service [OF assms(1) s]
    by (cases a) (auto simp: gatt_db_service_set_claimed_def flags_ok)
next
  case (RemoveService a)
  then obtain s where s: "service_at d (fst a) = Some s"
    using assms(2) by (auto simp: live_def)
  let ?d = "d\<lparr>services := filter (\<lambda>(q, t). q \<noteq> fst a) (services d)\<rparr>"
  obtain l where "gatt_db_service_destroy ?d (fst a, s) = Some (?d\<lparr>db_log := l\<rparr>)"
    using service_destroy_total [of ?d] db_ok_notify assms(1) by blast
  then show ?thesis
    using RemoveService s db_ok_filter [OF assms(1)] by (cases a) (auto simp: gatt_db_remove_service_def)
next
  case (ClearRange lo hi)
  let ?f = "match_range lo hi"
  let ?d = "d\<lparr>services := filter (\<lambda>x. ?f x \<noteq> Some True) (services d)\<rparr>"
  have p: "partition_opt ?f (services d) = Some (filter (\<lambda>x. ?f x = Some True) (services d), filter (\<lambda>x. ?f x \<noteq> Some True) (services d))"
    using assms(1) match_range_total by (intro partition_filter) (auto simp: db_ok_def)
  obtain l where "destroy_services ?d (filter (\<lambda>x. ?f x = Some True) (services d)) = Some (?d\<lparr>db_log := l\<rparr>)"
    using destroy_services_total [of ?d] db_ok_notify assms(1) by blast
  then show ?thesis
    using ClearRange p db_ok_filter [OF assms(1)] assms(1) by (auto simp: gatt_db_clear_range_def)
next
  case Clear
  let ?d = "d\<lparr>services := []\<rparr>"
  obtain l where "destroy_services ?d (services d) = Some (?d\<lparr>db_log := l\<rparr>)"
    using destroy_services_total [of ?d] db_ok_notify assms(1) by blast
  then show ?thesis
    using Clear assms(1) by (auto simp: gatt_db_clear_def db_ok_def)
next
  case (Register f g x)
  then show ?thesis
    using assms(1) by (auto simp: gatt_db_register_def db_ok_def Let_def)
next
  case (Unregister i)
  then show ?thesis
    using assms(1) by (auto simp: gatt_db_unregister_def emit_def db_ok_def split: option.splits dest: notin_set_remove1 set_remove1_subset [THEN subsetD])
qed

definition db_initial :: "gatt_db \<Rightarrow> bool" where
  "db_initial d \<longleftrightarrow> gatt_db_new = Some d"

definition db_step :: "db_op \<Rightarrow> gatt_db \<Rightarrow> gatt_db option" where
  "db_step k d = (if op_ok d k then db_run k d else None)"

interpretation db_system: invariant_system db_initial db_step db_ok
proof unfold_locales
  show "db_ok d" if "db_initial d" for d
    using that by (auto simp: db_initial_def gatt_db_new_def gatt_db_ref_def db_ok_def)
  show "db_ok d'" if "db_ok d" "db_step k d = Some d'" for d k d'
    using that db_run_ok [of d k] by (simp add: db_step_def split: if_splits)
qed

end
