(* ===== verification/Gatt_Db_Props.thy ===== *)
theory Gatt_Db_Props
  imports Gatt_Db_Inv
begin

text \<open>Properties of the attribute database: what lookups, queries and the accessors return, reads and writes of values,
  and the calls after which the database is not what its comments promise.\<close>

section \<open>Lookup\<close>

lemma sorted_cases: "sorted_wrt R xs \<Longrightarrow> x \<in> set xs \<Longrightarrow> y \<in> set xs \<Longrightarrow> x = y \<or> R x y \<or> R y x"
  by (induction xs) auto

lemma handle_in_range:
  assumes "dense s as" "i < length as"
  shows "svc_start s \<le> unat (a_handle (as ! i))" "unat (a_handle (as ! i)) \<le> svc_end s" "unat (a_handle (as ! i)) = svc_start s + i"
  using assms by (auto elim!: denseE)

lemma service_unique:
  assumes "db_ok d" "x \<in> set (services d)" "y \<in> set (services d)"
    and "svc_start (snd x) \<le> h" "h \<le> svc_end (snd x)" "svc_start (snd y) \<le> h" "h \<le> svc_end (snd y)"
  shows "x = y"
  using sorted_cases [of before "services d" x y] assms by (auto simp: db_ok_def before_def)

lemma attribute_at_dense:
  "service_at d p = Some s \<Longrightarrow> dense s as \<Longrightarrow> attribute_at d (p, i) = Some a \<longleftrightarrow> i < length as \<and> a = as ! i"
  by (auto simp: attribute_at_def attr_of_dense)

lemma attribute_atE:
  assumes "db_ok d" "attribute_at d x = Some a"
  obtains s as where "(fst x, s) \<in> set (services d)" "service_at d (fst x) = Some s" "dense s as" "snd x < length as" "a = as ! snd x"
proof -
  obtain s where s: "service_at d (fst x) = Some s"
    using assms(2) by (cases "service_at d (fst x)") (auto simp: attribute_at_def)
  obtain as where as: "dense s as"
    using db_ok_service [OF assms(1) s] by (auto simp: svc_ok_def)
  have "(fst x, s) \<in> set (services d)"
    using s service_at_mem assms(1) by (auto simp: db_ok_def)
  then show thesis
    using that s as assms(2) attribute_at_dense [OF s as, of "snd x" a] by simp
qed

lemma handle_unique:
  assumes "db_ok d" "attribute_at d x = Some a" "attribute_at d y = Some b" "a_handle a = a_handle b"
  shows "x = y"
proof -
  obtain s as where s: "(fst x, s) \<in> set (services d)" "service_at d (fst x) = Some s" "dense s as" "snd x < length as" "a = as ! snd x"
    using assms(1,2) by (rule attribute_atE)
  obtain t bs where t: "(fst y, t) \<in> set (services d)" "service_at d (fst y) = Some t" "dense t bs" "snd y < length bs" "b = bs ! snd y"
    using assms(1,3) by (rule attribute_atE)
  note r = handle_in_range [OF s(3,4)] handle_in_range [OF t(3,4)]
  have "(fst x, s) = (fst y, t)"
    using service_unique [OF assms(1) s(1) t(1), of "unat (a_handle a)"] r s(5) t(5) assms(4) by simp
  moreover from this have "svc_start s + snd x = svc_start s + snd y"
    using r(3,6) s(5) t(5) assms(4) by simp
  ultimately show ?thesis
    by (simp add: prod_eq_iff)
qed

lemma take_array: "dense s as \<Longrightarrow> take (unat (s_num_handles s)) (s_attributes s) = s_attributes s"
  by (auto elim!: denseE)

lemma for_handle_eq:
  assumes "db_ok d"
  shows "queue_find_in (find_service_for_handle h) (services d)
    = Some (find_index (\<lambda>x. svc_start (snd x) \<le> unat h \<and> unat h \<le> svc_end (snd x)) (services d))"
proof (rule find_in_defined, rule ballI)
  fix x assume "x \<in> set (services d)"
  then have "svc_ok (snd x)"
    using assms by (simp add: db_ok_def)
  then show "find_service_for_handle h x = Some (svc_start (snd x) \<le> unat h \<and> unat h \<le> svc_end (snd x))"
    using get_handles_ok [of "snd x"] by (auto simp: find_service_for_handle_def word_le_nat_alt)
qed

lemma attribute_service:
  assumes "db_ok d" "attribute_at d x = Some a"
  obtains s where "(fst x, s) \<in> set (services d)" "Some a \<in> set (s_attributes s)"
    "0 < unat (a_handle a)" "svc_start s \<le> unat (a_handle a)" "unat (a_handle a) \<le> svc_end s"
  using assms
proof (rule attribute_atE)
  fix s as assume s: "(fst x, s) \<in> set (services d)" "dense s as" "snd x < length as" "a = as ! snd x"
  have "Some a \<in> set (s_attributes s)"
    using s(2-4) by (auto simp: dense_def)
  moreover have "0 < svc_start s"
    using s(2) svc_bounds(1) svc_ok_def by blast
  ultimately show thesis
    using that s(1,4) handle_in_range [OF s(2,3)] by simp
qed

text \<open>The search in the service whose range has the handle.\<close>

lemma service_lookup:
  assumes "db_ok d" "(p, s) \<in> set (services d)" "svc_start s \<le> unat h" "unat h \<le> svc_end s"
    and r: "r = find_index (\<lambda>a. case a of None \<Rightarrow> False | Some a \<Rightarrow> a_handle a = h) (s_attributes s)"
  shows "r = Some i \<Longrightarrow> \<exists>a. attribute_at d (p, i) = Some a \<and> a_handle a = h"
    and "r = None \<Longrightarrow> attribute_at d x = Some a \<Longrightarrow> a_handle a \<noteq> h"
proof -
  have at: "service_at d p = Some s"
    using assms(1,2) service_at_mem by (simp add: db_ok_def)
  show "\<exists>a. attribute_at d (p, i) = Some a \<and> a_handle a = h" if "r = Some i"
    using find_index_Some [OF that [unfolded r]] at by (auto simp: attribute_at_def attr_of_def array_at_def split: option.splits)
  show "a_handle a \<noteq> h" if "r = None" "attribute_at d x = Some a"
    using assms(1) that(2)
  proof (rule attribute_service)
    fix t assume t: "(fst x, t) \<in> set (services d)" "Some a \<in> set (s_attributes t)" "svc_start t \<le> unat (a_handle a)" "unat (a_handle a) \<le> svc_end t"
    show "a_handle a \<noteq> h"
      using service_unique [OF assms(1) t(1) assms(2), of "unat h"] assms(3,4) t that(1) by (fastforce simp: r find_index_None)
  qed
qed

lemma get_attribute_found:
  assumes "db_ok d"
  shows "\<exists>r. gatt_db_get_attribute (Some d) h = Some r \<and> (\<forall>x. r = Some x \<longrightarrow> (\<exists>a. attribute_at d x = Some a \<and> a_handle a = h))
    \<and> (r = None \<longrightarrow> (\<forall>x a. attribute_at d x = Some a \<longrightarrow> a_handle a \<noteq> h))"
proof (cases "h = 0")
  case True
  have "a_handle a \<noteq> 0" if "attribute_at d x = Some a" for x a
    using assms that by (rule attribute_service) auto
  then show ?thesis
    using True by (simp add: gatt_db_get_attribute_def)
next
  case False
  let ?in = "\<lambda>x. svc_start (snd x) \<le> unat h \<and> unat h \<le> svc_end (snd x)"
  show ?thesis
  proof (cases "find_index ?in (services d)")
    case None
    have "a_handle a \<noteq> h" if "attribute_at d x = Some a" for x a
      using assms that by (rule attribute_service) (use None in \<open>auto simp: find_index_None\<close>)
    then show ?thesis
      using False None for_handle_eq [OF assms, of h] by (simp add: gatt_db_get_attribute_def)
  next
    case (Some k)
    obtain p s where ps: "services d ! k = (p, s)"
      by (cases "services d ! k")
    have k: "(p, s) \<in> set (services d)" "svc_start s \<le> unat h" "unat h \<le> svc_end s"
      using find_index_Some [OF Some] ps nth_mem by (metis, simp_all)
    obtain as where as: "dense s as"
      using assms k(1) by (auto simp: db_ok_def svc_ok_def)
    define r where "r = find_index (\<lambda>a. case a of None \<Rightarrow> False | Some a \<Rightarrow> a_handle a = h) (s_attributes s)"
    have "gatt_db_get_attribute (Some d) h = Some (map_option (Pair p) r)"
      using False Some ps for_handle_eq [OF assms, of h] take_array [OF as] by (simp add: gatt_db_get_attribute_def r_def)
    then show ?thesis
      using service_lookup [OF assms k r_def] by (cases r) auto
  qed
qed

section \<open>Queries as filters\<close>

text \<open>The attributes in the array of a service, and those of all active services, with their pointers.\<close>

fun entries_of :: "nat \<Rightarrow> nat \<Rightarrow> gatt_db_attribute option list \<Rightarrow> (attr_ptr \<times> gatt_db_attribute) list" where
  "entries_of p i [] = []"
| "entries_of p i (None # as) = entries_of p (Suc i) as"
| "entries_of p i (Some a # as) = ((p, i), a) # entries_of p (Suc i) as"

definition service_attrs :: "nat \<times> gatt_db_service \<Rightarrow> (attr_ptr \<times> gatt_db_attribute) list" where
  "service_attrs x = (if s_active (snd x) then entries_of (fst x) 0 (s_attributes (snd x)) else [])"

definition active_attrs :: "gatt_db \<Rightarrow> (attr_ptr \<times> gatt_db_attribute) list" where
  "active_attrs d = concat (map service_attrs (services d))"

abbreviation in_range :: "u16 \<Rightarrow> u16 \<Rightarrow> gatt_db_attribute \<Rightarrow> bool" where
  "in_range lo hi a \<equiv> lo \<le> a_handle a \<and> a_handle a \<le> hi"

abbreviation of_type :: "bt_uuid_t \<Rightarrow> gatt_db_attribute \<Rightarrow> bool" where
  "of_type u a \<equiv> u128 (a_uuid a) = u128 u"

lemma entries_replicate: "entries_of p i (replicate n None) = []"
  by (induction n arbitrary: i) simp_all

lemma entries_mem: "(x, a) \<in> set (entries_of p i as) \<Longrightarrow> Some a \<in> set as"
  by (induction p i as rule: entries_of.induct) auto

lemma entries_handles: "map (\<lambda>x. a_handle (snd x)) (entries_of p i (map Some as @ replicate n None)) = map a_handle as"
  by (induction as arbitrary: i) (simp_all add: entries_replicate)

lemma loops_replicate:
  "find_information_loop p i (replicate n None) lo hi = []" "read_by_type_loop p i (replicate n None) lo hi u = Some []"
  "find_by_type_loop p i (replicate n None) lo hi u v = Some []"
  by (induction n arbitrary: i) simp_all

lemma memcmp_type:
  assumes "uuid_ok u" "uuid_ok v"
  shows "\<exists>c. bt_uuid_cmp u v = Some c \<and> (c = 0 \<longleftrightarrow> u128 v = u128 u)"
  using assms by (auto simp: uuid_cmp_Some memcmp_eq length_u128)

text \<open>A loop may stop at the first handle above the range because handles ascend.\<close>

lemma beyond_range:
  assumes "sorted_wrt (\<lambda>a b. a_handle a < a_handle b) (a # as)" "hi < a_handle a"
  shows "filter (\<lambda>x. in_range lo hi (snd x) \<and> P x) (entries_of p i (map Some (a # as) @ replicate n None)) = []"
proof -
  have "hi < a_handle (snd x)" if "x \<in> set (entries_of p i (map Some (a # as) @ replicate n None))" for x
    using that assms entries_mem [of "fst x" "snd x"] by (fastforce dest: order.strict_trans)
  then have "\<forall>x\<in>set (entries_of p i (map Some (a # as) @ replicate n None)). \<not> a_handle (snd x) \<le> hi"
    by (meson leD)
  then show ?thesis
    unfolding filter_empty_conv by blast
qed

lemma loops_filter:
  assumes "sorted_wrt (\<lambda>a b. a_handle a < a_handle b) as" "\<forall>a\<in>set as. attr_ok a" "uuid_ok u"
  shows "find_information_loop p i (map Some as @ replicate n None) lo hi = map fst (filter (\<lambda>x. in_range lo hi (snd x)) (entries_of p i (map Some as @ replicate n None)))"
    and "read_by_type_loop p i (map Some as @ replicate n None) lo hi u
      = Some (map fst (filter (\<lambda>x. in_range lo hi (snd x) \<and> of_type u (snd x)) (entries_of p i (map Some as @ replicate n None))))"
    and "find_by_type_loop p i (map Some as @ replicate n None) lo hi u None
      = Some (map fst (filter (\<lambda>x. in_range lo hi (snd x) \<and> of_type u (snd x)) (entries_of p i (map Some as @ replicate n None))))"
  using assms(1,2)
proof (induction as arbitrary: i)
  case (Cons a as)
  {
    case 1
    then show ?case
      using Cons.IH(1) [of "Suc i"] beyond_range [OF 1(1), of hi lo "\<lambda>x. True" p i n] by (auto simp: not_less)
  next
    case 2
    then show ?case
      using Cons.IH(2) [of "Suc i"] beyond_range [OF 2(1), of hi lo "\<lambda>x. of_type u (snd x)" p i n]
        memcmp_type [OF assms(3), of "a_uuid a"] by (auto simp: not_less attr_ok_def)
  next
    case 3
    then show ?case
      using Cons.IH(3) [of "Suc i"] memcmp_type [OF assms(3), of "a_uuid a"] by (auto simp: not_less not_le attr_ok_def)
  }
qed (simp_all add: loops_replicate entries_replicate)

lemma collect_concat: "\<forall>x\<in>set xs. f x = Some (g x) \<Longrightarrow> collect f xs = Some (concat (map g xs))"
  by (induction xs) (auto simp: collect_def)

lemma dense_sorted:
  assumes "dense s as"
  shows "sorted_wrt (\<lambda>a b. a_handle a < a_handle b) as"
proof -
  have "\<forall>i<length as. unat (a_handle (as ! i)) = unat (a_handle (hd as)) + i"
    using assms by (simp add: dense_def)
  then show ?thesis
    by (auto simp: sorted_wrt_iff_nth_less word_less_nat_alt)
qed

lemma service_loops:
  assumes "svc_ok (snd x)" "uuid_ok u"
  shows "find_information x lo hi = Some (map fst (filter (\<lambda>y. in_range lo hi (snd y)) (service_attrs x)))"
    and "read_by_type x lo hi u = Some (map fst (filter (\<lambda>y. in_range lo hi (snd y) \<and> of_type u (snd y)) (service_attrs x)))"
    and "find_by_type x lo hi u None = Some (map fst (filter (\<lambda>y. in_range lo hi (snd y) \<and> of_type u (snd y)) (service_attrs x)))"
proof -
  obtain as where as: "dense (snd x) as"
    using assms(1) svc_ok_def by blast
  obtain n where n: "s_attributes (snd x) = map Some as @ replicate n None" and ok: "\<forall>a\<in>set as. attr_ok a"
    using as by (auto simp: dense_def)
  note loops = loops_filter [OF dense_sorted [OF as] ok assms(2), of "fst x" 0 n lo hi]
  note body = loops service_attrs_def take_array [OF as] n
  obtain h where h: "attr_of (snd x) 0 = Some h" "svc_start (snd x) = unat (a_handle h)"
    using attr_of_dense [OF as, of 0] as by (auto elim!: denseE)
  show "read_by_type x lo hi u = Some (map fst (filter (\<lambda>y. in_range lo hi (snd y) \<and> of_type u (snd y)) (service_attrs x)))"
    using body by (simp add: read_by_type_def)
  show "find_by_type x lo hi u None = Some (map fst (filter (\<lambda>y. in_range lo hi (snd y) \<and> of_type u (snd y)) (service_attrs x)))"
    using body by (simp add: find_by_type_def)
  have below: "filter (\<lambda>y. in_range lo hi (snd y)) (entries_of (fst x) 0 (s_attributes (snd x))) = []"
    if "svc_end (snd x) < unat lo"
  proof -
    have "a_handle (snd y) < lo" if y: "y \<in> set (entries_of (fst x) 0 (s_attributes (snd x)))" for y
    proof -
      have "snd y \<in> set as"
        using entries_mem [of "fst y" "snd y"] y n by fastforce
      then show ?thesis
        using handle_in_range(2) [OF as] \<open>svc_end (snd x) < unat lo\<close> by (metis in_set_conv_nth le_less_trans word_less_nat_alt)
    qed
    then show ?thesis
      unfolding filter_empty_conv by (meson leD)
  qed
  have "int (unat (a_handle h)) + int (unat (s_num_handles (snd x))) - 1 < int (unat lo) \<longleftrightarrow> svc_end (snd x) < unat lo"
    using svc_bounds(4) [OF assms(1)] h(2) unfolding svc_end_def by linarith
  then show "find_information x lo hi = Some (map fst (filter (\<lambda>y. in_range lo hi (snd y)) (service_attrs x)))"
    using body below h(1) by (simp add: find_information_def del: of_nat_unat)
qed

lemma filter_services:
  "map fst (filter P (active_attrs d)) = concat (map (\<lambda>x. map fst (filter P (service_attrs x))) (services d))"
  by (simp add: active_attrs_def filter_concat map_concat comp_def)

lemma service_attrs_range:
  assumes "svc_ok (snd x)" "y \<in> set (service_attrs x)"
  shows "svc_start (snd x) \<le> unat (a_handle (snd y))" "unat (a_handle (snd y)) \<le> svc_end (snd x)"
proof -
  obtain as where as: "dense (snd x) as"
    using assms(1) svc_ok_def by blast
  have "Some (snd y) \<in> set (s_attributes (snd x))"
    using assms(2) entries_mem [of "fst y" "snd y" "fst x" 0] by (auto simp: service_attrs_def split: if_splits)
  then have "snd y \<in> set as"
    using as by (auto simp: dense_def)
  then obtain i where "i < length as" "snd y = as ! i"
    by (auto simp: in_set_conv_nth)
  then show "svc_start (snd x) \<le> unat (a_handle (snd y))" "unat (a_handle (snd y)) \<le> svc_end (snd x)"
    using handle_in_range(1,2) [OF as] by simp_all
qed

lemma service_attrs_sorted:
  assumes "svc_ok (snd x)"
  shows "sorted_wrt (<) (map (\<lambda>y. a_handle (snd y)) (service_attrs x))"
proof -
  obtain as where as: "dense (snd x) as"
    using assms svc_ok_def by blast
  then obtain n where n: "s_attributes (snd x) = map Some as @ replicate n None"
    by (auto simp: dense_def)
  have "sorted_wrt (<) (map a_handle as)"
    using dense_sorted [OF as] by (simp add: sorted_wrt_map)
  then show ?thesis
    using entries_handles [of "fst x" 0 as n] n by (simp add: service_attrs_def)
qed

lemma sorted_services:
  "sorted_wrt before ss \<Longrightarrow> \<forall>x\<in>set ss. svc_ok (snd x) \<Longrightarrow> sorted_wrt (<) (map (\<lambda>y. a_handle (snd y)) (concat (map service_attrs ss)))"
proof (induction ss)
  case (Cons s ss)
  have "a_handle (snd y) < a_handle (snd z)" if "y \<in> set (service_attrs s)" "x \<in> set ss" "z \<in> set (service_attrs x)" for x y z
    using that Cons.prems service_attrs_range(2) [of s y] service_attrs_range(1) [of x z] by (auto simp: before_def word_less_nat_alt intro: order.strict_trans1 [OF _ order.strict_trans2])
  then show ?case
    using Cons service_attrs_sorted [of s] by (auto simp: sorted_wrt_append)
qed simp

lemma query_filters:
  assumes "db_ok d" "uuid_ok u"
  shows "gatt_db_find_information d lo hi q = Some (q @ map fst (filter (\<lambda>x. in_range lo hi (snd x)) (active_attrs d)))"
    and "gatt_db_read_by_type d lo hi u q = Some (q @ map fst (filter (\<lambda>x. in_range lo hi (snd x) \<and> of_type u (snd x)) (active_attrs d)))"
    and "gatt_db_find_by_type d lo hi u = (let r = map fst (filter (\<lambda>x. in_range lo hi (snd x) \<and> of_type u (snd x)) (active_attrs d))
        in Some (of_nat (length r), r))"
proof -
  have ok: "\<forall>x\<in>set (services d). svc_ok (snd x)" "sorted_wrt before (services d)"
    using assms(1) by (simp_all add: db_ok_def)
  have fs: "collect f (services d) = Some (map fst (filter P (active_attrs d)))"
    if "\<And>x. svc_ok (snd x) \<Longrightarrow> f x = Some (map fst (filter P (service_attrs x)))" for f P
    unfolding filter_services using that ok(1) by (intro collect_concat) blast
  show "gatt_db_find_information d lo hi q = Some (q @ map fst (filter (\<lambda>x. in_range lo hi (snd x)) (active_attrs d)))"
    using fs [OF service_loops(1) [OF _ assms(2)]] by (simp add: gatt_db_find_information_def)
  show "gatt_db_read_by_type d lo hi u q = Some (q @ map fst (filter (\<lambda>x. in_range lo hi (snd x) \<and> of_type u (snd x)) (active_attrs d)))"
    using fs [OF service_loops(2) [OF _ assms(2)]] by (simp add: gatt_db_read_by_type_def)
  show "gatt_db_find_by_type d lo hi u = (let r = map fst (filter (\<lambda>x. in_range lo hi (snd x) \<and> of_type u (snd x)) (active_attrs d))
        in Some (of_nat (length r), r))"
    using fs [OF service_loops(3) [OF _ assms(2)]] by (simp add: gatt_db_find_by_type_def Let_def)
qed

text \<open>C30.  What a server answers to discovery requests is a selection from the attributes of the active services, in the order of
  their handles: with the invariant, Find Information gives those in the range of handles, Read By Type and Find By Type
  those that also have the type asked for, whatever width the UUIDs have, although the loops stop early at the end of
  the range and skip services below it.  Results are appended to the queue of the caller.\<close>

theorem queries_are_filters:
  assumes "db_ok d" "uuid_ok u"
  shows "gatt_db_find_information d lo hi q = Some (q @ map fst (filter (\<lambda>x. in_range lo hi (snd x)) (active_attrs d)))
    \<and> gatt_db_read_by_type d lo hi u q = Some (q @ map fst (filter (\<lambda>x. in_range lo hi (snd x) \<and> of_type u (snd x)) (active_attrs d)))
    \<and> gatt_db_find_by_type d lo hi u = (let r = map fst (filter (\<lambda>x. in_range lo hi (snd x) \<and> of_type u (snd x)) (active_attrs d))
        in Some (of_nat (length r), r))
    \<and> sorted_wrt (<) (map (\<lambda>x. a_handle (snd x)) (active_attrs d))"
  using query_filters [OF assms, of lo hi] sorted_services [of "services d"] assms(1) by (simp add: active_attrs_def db_ok_def Let_def)

section \<open>A database with a battery service\<close>

text \<open>Handles 1 to 4: the service, its characteristic with declaration and value, and a descriptor.\<close>

definition battery_ops :: "db_op list" where
  "battery_ops = [Register 1 2 None, AddService (BT_UUID16 0x180F) True 5, AddCharacteristic (0, 0) (BT_UUID16 0x2A19) 1 2 None None 0,
     AddDescriptor (0, 0) (BT_UUID16 0x2902) 3 None None 0, SetActive (0, 0) True]"

definition sample_attr :: "u16 \<Rightarrow> u16 \<Rightarrow> u32 \<Rightarrow> bytes option \<Rightarrow> gatt_db_attribute" where
  "sample_attr h u perm v = \<lparr>a_handle = h, a_uuid = BT_UUID16 u, a_permissions = perm,
     a_value_len = (case v of None \<Rightarrow> 0 | Some bs \<Rightarrow> of_nat (length bs)), a_value = v, a_read_func = None,
     a_write_func = None, a_user_data = 0, a_read_id = 0, a_pending_reads = [], a_write_id = 0, a_pending_writes = []\<rparr>"

definition battery_db :: gatt_db where
  "battery_db = \<lparr>db_ref_count = 1, next_handle = 6,
     services = [(0, \<lparr>s_active = True, s_claimed = False, s_num_handles = 5,
       s_attributes = [Some (sample_attr 1 0x2800 0 (Some [0x0F, 0x18])), Some (sample_attr 2 0x2803 0 (Some [2, 3, 0, 0x19, 0x2A])),
         Some (sample_attr 3 0x2A19 1 None), Some (sample_attr 4 0x2902 3 None), None]\<rparr>)],
     notify_list = [\<lparr>n_id = 1, n_service_added = Some 1, n_service_removed = Some 2, n_destroy = None\<rparr>],
     next_notify_id = 2, db_brk = 1, db_log = [ServiceAdded 1 (0, 0)]\<rparr>"

lemmas db_defs = gatt_db_new_def gatt_db_ref_def db_step_def gatt_db_register_def gatt_db_add_service_def gatt_db_insert_service_def
  find_insert_loc_def gatt_db_service_create_def uuid_to_le_def new_attribute_def primary_service_uuid_def GATT_PRIM_SVC_UUID_def
  characteristic_uuid_def GATT_CHARAC_UUID_def gatt_db_service_add_characteristic_def on_service_def service_insert_characteristic_def
  service_at_def get_handle_at_index_def attr_of_def array_at_def get_attribute_index_def set_entry_def set_service_def set_attribute_data_def
  gatt_db_service_add_descriptor_def service_insert_descriptor_def gatt_db_service_set_active_def notify_service_changed_def handle_notify_def
  emit_def live_def encloses_none_def sample_attr_def le16_def mem_read_def

lemma free_index_numeral: "free_index (Some a # as) (numeral k) = Suc (free_index as (pred_numeral k))"
  by (simp add: numeral_eq_Suc)

lemma replicate_5: "replicate 5 x = [x, x, x, x, x]"
  by (simp add: eval_nat_numeral)

lemma battery_run: "run_sched db_step battery_ops (the gatt_db_new) = Some battery_db"
  by (simp add: battery_ops_def battery_db_def db_defs free_index_numeral replicate_5 Let_def)

lemma battery_reach: "reach db_initial db_step battery_db"
proof -
  have "reach db_initial db_step (the gatt_db_new)"
    by (rule reach_init) (simp add: db_initial_def gatt_db_new_def gatt_db_ref_def)
  then show ?thesis
    using battery_run by (rule reach_run_sched)
qed

lemma battery_ok: "db_ok battery_db"
  using battery_reach by (rule db_system.reach_inv)

section \<open>Properties\<close>

text \<open>C28.  The calls are those of \<open>db_op\<close>: inserting, adding, removing, claiming and activating services, adding
  characteristics, descriptors and included services, clearing, and registering observers.  The condition \<open>op_ok\<close> on them is
  that the UUID is valid, the services are live, and a new service does not enclose an existing one.  Every database that is
  reached by such calls is well formed: the services are
  sorted and do not overlap, the attributes of each have consecutive handles from its first handle on, values have their
  stated length.  A further such call has no undefined behaviour and keeps this; and \<^verbatim>\<open>gatt_db_get_attribute\<close> finds, for every
  handle, the attribute that has it, exactly when there is one.  Excluded are a new service around an existing one, which
  breaks the invariant (\<open>insert_around_overlaps\<close>), and the insertion of a characteristic or descriptor at a handle of the
  caller's choice, which is not one of these calls (for characteristics it can break the invariant too,
  \<open>insert_characteristic_duplicate\<close>).\<close>

theorem gatt_db_invariant:
  assumes "reach db_initial db_step d"
  shows "db_ok d \<and> (op_ok d k \<longrightarrow> (\<exists>d'. db_run k d = Some d' \<and> db_ok d'))
    \<and> (\<exists>r. gatt_db_get_attribute (Some d) h = Some r \<and> (\<forall>x. r = Some x \<longleftrightarrow> (\<exists>a. attribute_at d x = Some a \<and> a_handle a = h)))"
proof -
  have ok: "db_ok d"
    using assms by (rule db_system.reach_inv)
  obtain r where r: "gatt_db_get_attribute (Some d) h = Some r" "\<And>x. r = Some x \<Longrightarrow> \<exists>a. attribute_at d x = Some a \<and> a_handle a = h"
      "r = None \<Longrightarrow> \<forall>x a. attribute_at d x = Some a \<longrightarrow> a_handle a \<noteq> h"
    using get_attribute_found [OF ok, of h] by blast
  have "r = Some x" if "attribute_at d x = Some a" "a_handle a = h" for x a
  proof (cases r)
    case (Some y)
    then show ?thesis
      using r(2) [OF Some] handle_unique [OF ok that(1)] that(2) by metis
  qed (use r(3) that in blast)
  then show ?thesis
    using ok db_run_ok [OF ok] r(1,2) by blast
qed

theorem gatt_db_invariant_witness:
  "reach db_initial db_step battery_db \<and> db_ok battery_db \<and> (\<exists>d'. db_run (RemoveService (0, 2)) battery_db = Some d' \<and> db_ok d')
    \<and> gatt_db_get_attribute (Some battery_db) 4 = Some (Some (0, 3))"
proof -
  have "op_ok battery_db (RemoveService (0, 2)) \<and> gatt_db_get_attribute (Some battery_db) 4 = Some (Some (0, 3))"
    by (simp add: battery_db_def db_defs gatt_db_get_attribute_def find_service_for_handle_def gatt_db_service_get_handles_def)
  then show ?thesis
    using gatt_db_invariant [OF battery_reach, of "RemoveService (0, 2)" 4] battery_reach by simp
qed

theorem queries_are_filters_witness:
  "gatt_db_read_by_type battery_db 1 0xFFFF (BT_UUID16 0x2803) [] = Some [(0, 1)]
    \<and> gatt_db_find_information battery_db 2 3 [] = Some [(0, 1), (0, 2)]"
proof -
  have u: "uuid_ok (BT_UUID16 0x2803)"
    by simp
  have "map fst (filter (\<lambda>x. in_range 1 0xFFFF (snd x) \<and> of_type (BT_UUID16 0x2803) (snd x)) (active_attrs battery_db)) = [(0, 1)]
    \<and> map fst (filter (\<lambda>x. in_range 2 3 (snd x)) (active_attrs battery_db)) = [(0, 1), (0, 2)]"
    by (simp add: battery_db_def active_attrs_def service_attrs_def sample_attr_def Let_def) code_simp
  then show ?thesis
    using queries_are_filters [OF battery_ok u, of 1 "0xFFFF" "[]"] queries_are_filters [OF battery_ok u, of 2 3 "[]"] by simp
qed

section \<open>Declarations read back\<close>

text \<open>The UUID as declarations store it: 16-bit UUIDs stay, others become 128-bit ones.\<close>

definition stored_uuid :: "bt_uuid_t \<Rightarrow> bt_uuid_t" where
  "stored_uuid u = (case u of BT_UUID16 _ \<Rightarrow> u | _ \<Rightarrow> BT_UUID128 (u128 u))"

lemma le_to_uuid_stored:
  assumes "uuid_ok u" "uuid_to_le u = Some le"
  shows "le_to_uuid le = Some (stored_uuid u)" "length le = 2 \<or> length le = 16"
proof -
  have le: "le = (case u of BT_UUID16 v \<Rightarrow> le16 v | _ \<Rightarrow> rev (u128 u))" "length le = 2 \<or> length le = 16"
    using uuid_to_le_ok [OF assms(1)] assms(2) by auto
  show "length le = 2 \<or> length le = 16"
    by (rule le(2))
  show "le_to_uuid le = Some (stored_uuid u)"
    using length_u128 [OF assms(1)] le(1) le16_of_le16 [of _ "[]"]
    by (cases u) (simp_all add: le_to_uuid_def stored_uuid_def bswap_128_def bt_uuid16_create_def bt_uuid128_create_def del: u128.simps)
qed

lemma unat_len_eq: "unat (n :: u16) = k \<Longrightarrow> k < 2 ^ 16 \<Longrightarrow> n = of_nat k"
  by auto

lemma secondary_cmp:
  "bt_uuid_cmp (if primary then primary_service_uuid else secondary_service_uuid) secondary_service_uuid
     = Some c \<Longrightarrow> (c \<noteq> 0) = primary"
proof -
  have "u128 primary_service_uuid \<noteq> u128 secondary_service_uuid"
    by (simp add: primary_service_uuid_def secondary_service_uuid_def GATT_PRIM_SVC_UUID_def GATT_SND_SVC_UUID_def be16_def)
  then show "bt_uuid_cmp (if primary then primary_service_uuid else secondary_service_uuid) secondary_service_uuid
     = Some c \<Longrightarrow> (c \<noteq> 0) = primary"
    using memcmp_type [of primary_service_uuid secondary_service_uuid] memcmp_type [of secondary_service_uuid secondary_service_uuid]
    by (auto split: if_splits)
qed

text \<open>C34.  A service inserted at handles that no other service uses can be found by its handle, is not active, and its declaration gives
  back the handles, the kind and the UUID it was inserted with, widened to 128 bits unless it has 16.  The other
  services are untouched, and the database stays well formed.\<close>

theorem insert_service_data:
  assumes "db_ok d" "uuid_ok u" "0 < unat h" "0 < unat n" "unat h + unat n \<le> 2 ^ 16"
    and "\<forall>s\<in>set (services d). svc_end (snd s) < unat h \<or> unat h + unat n - 1 < svc_start (snd s)"
  shows "\<exists>d' s. gatt_db_insert_service (Some d) h u primary n = Some (Some (db_brk d, 0), Some d') \<and> db_ok d'
    \<and> service_at d' (db_brk d) = Some s \<and> \<not> s_active s
    \<and> gatt_db_attribute_get_service_data (Some s) = Some (Some (h, h + n - 1, primary, stored_uuid u))
    \<and> gatt_db_get_attribute (Some d') h = Some (Some (db_brk d, 0))
    \<and> (\<forall>p. p \<noteq> db_brk d \<longrightarrow> service_at d' p = service_at d p)"
proof -
  have none: "encloses_none d (unat h) (unat h + unat n - 1)"
    unfolding encloses_none_def
  proof
    fix s assume s: "s \<in> set (services d)"
    then have "svc_start (snd s) \<le> svc_end (snd s)"
      using assms(1) svc_bounds(2) by (auto simp: db_ok_def)
    then show "\<not> (unat h < svc_start (snd s) \<and> svc_end (snd s) < unat h + unat n - 1)"
      using assms(6) s by fastforce
  qed
  have clear: "\<not> (svc_start s \<le> unat h + unat n - 1 \<and> unat h \<le> svc_end s)" if "service_at d p = Some s" for p s
    using assms(1,6) service_at_mem [of d p s] that by (fastforce simp: db_ok_def)
  obtain xs ys s a le where x: "services d = xs @ ys" and s: "dense s [a]" "s_num_handles s = n" "\<not> s_active s"
      and a: "a_handle a = h" "uuid_to_le u = Some le" "a_value a = Some le" "unat (a_value_len a) = length le"
        "a_uuid a = (if primary then primary_service_uuid else secondary_service_uuid)"
      and d': "let d' = d\<lparr>services := xs @ (db_brk d, s) # ys, db_brk := Suc (db_brk d),
              next_handle := of_nat (max (unat h + unat n) (unat (next_handle d)))\<rparr>
           in db_ok d' \<and> gatt_db_insert_service (Some d) h u primary n = Some (Some (db_brk d, 0), Some d')"
    using insert_service_ok [OF assms(1-5) none, of primary] clear by blast
  define d' where "d' = d\<lparr>services := xs @ (db_brk d, s) # ys, db_brk := Suc (db_brk d),
              next_handle := of_nat (max (unat h + unat n) (unat (next_handle d)))\<rparr>"
  have ok: "db_ok d'" and res: "gatt_db_insert_service (Some d) h u primary n = Some (Some (db_brk d, 0), Some d')"
    using d' by (simp_all add: d'_def Let_def)
  have at: "service_at d' (db_brk d) = Some s"
    using ok service_at_mem [of d' "db_brk d" s] by (simp add: db_ok_def d'_def)
  have others: "service_at d' p = service_at d p" if "p \<noteq> db_brk d" for p
    using that by (simp add: service_at_def d'_def x map_add_def split: option.splits)
  have "attribute_at d' (db_brk d, 0) = Some a"
    using attribute_at_dense [OF at s(1), of 0 a] by simp
  then have found: "gatt_db_get_attribute (Some d') h = Some (Some (db_brk d, 0))"
    using get_attribute_found [OF ok, of h] handle_unique [OF ok] a(1) by (metis option.exhaust)
  have len: "length le = 2 \<or> length le = 16" "le_to_uuid le = Some (stored_uuid u)"
    using le_to_uuid_stored [OF assms(2) a(2)] by auto
  obtain c where c: "bt_uuid_cmp (a_uuid a) secondary_service_uuid = Some c"
    using uuid_cmp_Some [of "a_uuid a" secondary_service_uuid] a(5) by (auto split: if_splits)
  have "(if a_value_len a = 0 then Some [] else do { w \<leftarrow> a_value a; mem_read w 0 (unat (a_value_len a)) }) = Some le"
    using a(3,4) len(1) by (auto simp: mem_read_def)
  then have "gatt_db_attribute_get_service_data (Some s) = Some (Some (h, h + n - 1, primary, stored_uuid u))"
    using attr_of_dense [OF s(1), of 0] c secondary_cmp [of primary c] a(1,5) s(2) len(2)
    by (simp add: gatt_db_attribute_get_service_data_def gatt_db_service_get_handles_def)
  then show ?thesis
    using res ok at s(3) found others by blast
qed

theorem insert_service_data_witness:
  "\<exists>d' s. gatt_db_insert_service (Some battery_db) 0x10 (BT_UUID32 7) False 2 = Some (Some (1, 0), Some d')
    \<and> service_at d' 1 = Some s \<and> gatt_db_attribute_get_service_data (Some s) = Some (Some (0x10, 0x11, False, BT_UUID128 (u128 (BT_UUID32 7))))"
proof -
  have "\<forall>s\<in>set (services battery_db). svc_end (snd s) < unat (0x10 :: u16) \<or> unat (0x10 :: u16) + unat (2 :: u16) - 1 < svc_start (snd s)"
    by (simp add: battery_db_def svc_end_def svc_start_def sample_attr_def)
  moreover have "db_brk battery_db = 1"
    by (simp add: battery_db_def)
  ultimately show ?thesis
    using insert_service_data [OF battery_ok, of "BT_UUID32 7" "0x10" 2 False] by (auto simp: stored_uuid_def)
qed

lemma char_data_read:
  assumes "uuid_ok u" "uuid_to_le u = Some le" "attr_ok d" "a_uuid d = characteristic_uuid" "a_value d = Some ([pty] @ le16 vh @ le)"
  shows "gatt_db_attribute_get_char_data (Some d) = Some (Some (a_handle d, vh, pty, stored_uuid u))"
proof -
  have len: "length le = 2 \<or> length le = 16" "le_to_uuid le = Some (stored_uuid u)"
    using le_to_uuid_stored [OF assms(1,2)] by auto
  have n: "unat (a_value_len d) = 3 + length le"
    using assms(3,5) by (simp add: attr_ok_def)
  have "a_value_len d = 5 \<or> a_value_len d = 19"
    using len(1) unat_len_eq [OF n] by auto
  moreover have "bt_uuid_cmp characteristic_uuid (a_uuid d) = Some 0"
    using memcmp_type [of characteristic_uuid characteristic_uuid] assms(4) by auto
  moreover have "mem_read ([pty] @ le16 vh @ le) 1 2 = Some (le16 vh)" "mem_read ([pty] @ le16 vh @ le) 3 (unat (a_value_len d) - 3) = Some le"
    using n by (simp_all add: mem_read_def le16_def)
  ultimately show ?thesis
    using assms(5) len(2) le16_of_le16 [of vh "[]"] by (auto simp: gatt_db_attribute_get_char_data_def mem_simps)
qed

lemma incl_data_read:
  assumes "attr_ok a" "a_uuid a = included_service_uuid" "a_value a = Some (le16 lo @ le16 hi @ bs)" "bs = [] \<or> length bs = 2"
  shows "gatt_db_attribute_get_incl_data (Some a) = Some (Some (a_handle a, lo, hi))"
proof -
  have n: "unat (a_value_len a) = 4 + length bs"
    using assms(1,3) by (simp add: attr_ok_def)
  then have "\<not> (a_value_len a < 4 \<or> 6 < a_value_len a)"
    using assms(4) by (auto simp: word_less_nat_alt)
  moreover have "bt_uuid_cmp included_service_uuid (a_uuid a) = Some 0"
    using memcmp_type [of included_service_uuid included_service_uuid] assms(2) by auto
  moreover have "mem_read (le16 lo @ le16 hi @ bs) 0 2 = Some (le16 lo)" "mem_read (le16 lo @ le16 hi @ bs) 2 2 = Some (le16 hi)"
    by (simp_all add: mem_read_def le16_def)
  ultimately show ?thesis
    using assms(3) le16_of_le16 [of _ "[]"] by (simp add: gatt_db_attribute_get_incl_data_def)
qed

lemma service_at_set: "service_at d p = Some s \<Longrightarrow> service_at (set_service d p t) q = (if q = p then Some t else service_at d q)"
proof -
  have "map_of (map (\<lambda>(q, r). (q, if q = p then t else r)) ss) q = (if q = p \<and> map_of ss q \<noteq> None then Some t else map_of ss q)" for ss
    by (induction ss) auto
  then show "service_at d p = Some s \<Longrightarrow> service_at (set_service d p t) q = (if q = p then Some t else service_at d q)"
    by (auto simp: service_at_def set_service_def)
qed

lemma dense_last_ok: "dense t (as @ bs) \<Longrightarrow> b \<in> set bs \<Longrightarrow> attr_ok b"
  by (simp add: dense_def)

lemma set_service_same:
  assumes "db_ok d" "service_at d p = Some s"
  shows "set_service d p s = d"
proof -
  have "\<And>r. (p, r) \<in> set (services d) \<Longrightarrow> r = s"
    using assms service_at_mem [of d p] by (fastforce simp: db_ok_def)
  then show ?thesis
    unfolding set_service_def by (auto intro!: gatt_db.equality map_idI)
qed

lemma service_at_same: "service_at d p = Some s \<Longrightarrow> service_at (set_service d p t) p = Some t"
  using service_at_set [of d p s t p] by simp

lemma handle_of_nat: "unat (a_handle b) = n \<Longrightarrow> a_handle b = of_nat n"
  by auto

lemma added_characteristic_data:
  assumes "db_ok d" "service_at d p = Some s" "dense s as" "uuid_ok u"
  shows "if length as + 1 < unat (s_num_handles s)
     then \<exists>d' decl v. gatt_db_service_add_characteristic d (Some (p, i)) u perm pty rfn wfn ud = Some (Some (p, length as + 1), d')
       \<and> attribute_at d' (p, length as) = Some decl \<and> attribute_at d' (p, length as + 1) = Some v \<and> a_uuid v = u
       \<and> gatt_db_attribute_get_char_data (Some decl) = Some (Some (of_nat (svc_start s + length as), of_nat (svc_start s + length as + 1), pty, stored_uuid u))
       \<and> a_handle v = of_nat (svc_start s + length as + 1)
     else gatt_db_service_add_characteristic d (Some (p, i)) u perm pty rfn wfn ud = Some (None, d)"
proof -
  obtain r t where rt: "service_insert_characteristic s 0 u perm pty rfn wfn ud = Some (r, t)"
    and c: "if length as + 1 < unat (s_num_handles s)
       then r = Some (length as + 1) \<and> extends s t \<and> (\<exists>d v le. dense t (as @ [d, v]) \<and> a_uuid d = characteristic_uuid
          \<and> uuid_to_le u = Some le \<and> a_value d = Some ([pty] @ le16 (a_handle v) @ le)
          \<and> unat (a_handle d) = svc_start s + length as \<and> a_uuid v = u \<and> unat (a_handle v) = svc_start s + length as + 1)
       else r = None \<and> t = s"
    using add_characteristic_ok [OF assms(3,4), of perm pty rfn wfn ud] by blast
  have add: "gatt_db_service_add_characteristic d (Some (p, i)) u perm pty rfn wfn ud = Some (map_option (Pair p) r, set_service d p t)"
    using rt assms(2) by (simp add: gatt_db_service_add_characteristic_def on_service_def)
  show ?thesis
  proof (cases "length as + 1 < unat (s_num_handles s)")
    case True
    then obtain e v le where e: "dense t (as @ [e, v])" "a_uuid e = characteristic_uuid" "uuid_to_le u = Some le"
        "a_value e = Some ([pty] @ le16 (a_handle v) @ le)" "unat (a_handle e) = svc_start s + length as" "a_uuid v = u"
        "unat (a_handle v) = svc_start s + length as + 1" and r: "r = Some (length as + 1)"
      using c by auto
    have "gatt_db_attribute_get_char_data (Some e) = Some (Some (a_handle e, a_handle v, pty, stored_uuid u))"
      using char_data_read [OF assms(4) e(3) dense_last_ok [OF e(1), of e] e(2,4)] by simp
    then show ?thesis
      using True add r e(6) handle_of_nat [OF e(5)] handle_of_nat [OF e(7)] attribute_at_dense [OF service_at_same [OF assms(2)] e(1)] by (auto simp: nth_append)
  qed (use c add set_service_same [OF assms(1,2)] in auto)
qed

lemma added_include_data:
  assumes "db_ok d" "service_at d p = Some s" "dense s as" "service_at d q = Some s'"
  shows "if length as < unat (s_num_handles s)
     then \<exists>d' a. gatt_db_service_add_included d (Some (p, i)) (Some (q, j)) = Some (Some (p, length as), d')
       \<and> attribute_at d' (p, length as) = Some a
       \<and> gatt_db_attribute_get_incl_data (Some a) = Some (Some (of_nat (svc_start s + length as), of_nat (svc_start s'), of_nat (svc_end s')))
     else gatt_db_service_add_included d (Some (p, i)) (Some (q, j)) = Some (None, d)"
proof -
  obtain as' where as': "dense s' as'"
    using db_ok_service [OF assms(1,4)] svc_ok_def by blast
  obtain r t where rt: "service_add_included s' s = Some (r, t)"
    and c: "if length as < unat (s_num_handles s)
       then r = Some (length as) \<and> extends s t \<and> (\<exists>a bs. dense t (as @ [a]) \<and> a_uuid a = included_service_uuid
          \<and> unat (a_handle a) = svc_start s + length as \<and> a_value a = Some (le16 (of_nat (svc_start s')) @ le16 (of_nat (svc_end s')) @ bs)
          \<and> (bs = [] \<or> length bs = 2))
       else r = None \<and> t = s"
    using add_included_ok [OF assms(3) as'] by blast
  have add: "gatt_db_service_add_included d (Some (p, i)) (Some (q, j)) = Some (map_option (Pair p) r, set_service d p t)"
    using rt assms(2,4) by (simp add: gatt_db_service_add_included_def on_service_def)
  show ?thesis
  proof (cases "length as < unat (s_num_handles s)")
    case True
    then obtain a bs where a: "dense t (as @ [a])" "a_uuid a = included_service_uuid" "unat (a_handle a) = svc_start s + length as"
        "a_value a = Some (le16 (of_nat (svc_start s')) @ le16 (of_nat (svc_end s')) @ bs)" "bs = [] \<or> length bs = 2"
      and r: "r = Some (length as)"
      using c by auto
    then show ?thesis
      using True add handle_of_nat [OF a(3)] attribute_at_dense [OF service_at_same [OF assms(2)] a(1)] incl_data_read [OF dense_last_ok [OF a(1), of a] a(2,4,5)] by (auto simp: nth_append)
  qed (use c add set_service_same [OF assms(1,2)] in auto)
qed

text \<open>A characteristic added to a service with room for two more attributes gets the next two handles: the declaration, from which its
  own handle, that of the value, the properties and the UUID are read back, and the value, which has the UUID.  An
  include declaration takes the next handle, and the range of the included service is read back from it.  Without room
  the calls return NULL and change nothing.\<close>

theorem added_declarations_data:
  assumes "db_ok d" "service_at d p = Some s" "dense s as" "uuid_ok u" "service_at d q = Some s'"
  shows "(if length as + 1 < unat (s_num_handles s)
     then \<exists>d' decl v. gatt_db_service_add_characteristic d (Some (p, i)) u perm pty rfn wfn ud = Some (Some (p, length as + 1), d')
       \<and> attribute_at d' (p, length as) = Some decl \<and> attribute_at d' (p, length as + 1) = Some v \<and> a_uuid v = u
       \<and> gatt_db_attribute_get_char_data (Some decl) = Some (Some (of_nat (svc_start s + length as), of_nat (svc_start s + length as + 1), pty, stored_uuid u))
       \<and> a_handle v = of_nat (svc_start s + length as + 1)
     else gatt_db_service_add_characteristic d (Some (p, i)) u perm pty rfn wfn ud = Some (None, d))
   \<and> (if length as < unat (s_num_handles s)
     then \<exists>d' a. gatt_db_service_add_included d (Some (p, i)) (Some (q, j)) = Some (Some (p, length as), d')
       \<and> attribute_at d' (p, length as) = Some a
       \<and> gatt_db_attribute_get_incl_data (Some a) = Some (Some (of_nat (svc_start s + length as), of_nat (svc_start s'), of_nat (svc_end s')))
     else gatt_db_service_add_included d (Some (p, i)) (Some (q, j)) = Some (None, d))"
  using added_characteristic_data [OF assms(1-4)] added_include_data [OF assms(1-3,5)] by blast

theorem added_declarations_data_witness:
  "\<exists>d' a. gatt_db_service_add_included battery_db (Some (0, 0)) (Some (0, 0)) = Some (Some (0, 4), d')
     \<and> attribute_at d' (0, 4) = Some a \<and> gatt_db_attribute_get_incl_data (Some a) = Some (Some (5, 1, 5))"
proof -
  let ?as = "[sample_attr 1 0x2800 0 (Some [0x0F, 0x18]), sample_attr 2 0x2803 0 (Some [2, 3, 0, 0x19, 0x2A]), sample_attr 3 0x2A19 1 None,
    sample_attr 4 0x2902 3 None]"
  obtain s where s: "service_at battery_db 0 = Some s" "s_attributes s = map Some ?as @ [None]" "s_num_handles s = 5"
    by (simp add: battery_db_def service_at_def)
  obtain as where as: "dense s as"
    using db_ok_service [OF battery_ok s(1)] svc_ok_def by blast
  have "length as = 4"
    using dense_attrs [OF as] s(2) by simp
  moreover have "svc_start s = 1" "svc_end s = 5"
    using s(2,3) by (simp_all add: svc_start_def svc_end_def sample_attr_def)
  ultimately show ?thesis
    using added_declarations_data [OF battery_ok s(1) as, of "BT_UUID16 0" 0 s 0 0 0 None None 0 0] s by simp
qed

section \<open>Values\<close>

lemma mem_write_take: "off + length bs \<le> length b \<Longrightarrow> mem_write b off bs = Some (take off b @ bs @ drop (off + length bs) b)"
  by (simp add: mem_write_def)

lemma attr_ok_bytes: "attr_ok a \<Longrightarrow> length (value_bytes a) = unat (a_value_len a)"
  by (auto simp: attr_ok_def value_bytes_def split: option.splits)

text \<open>What a write to the stored value leaves: the bytes before the offset and behind the data stay, the gap to an
  offset behind an empty value is zero.\<close>

lemma write_stored_ok:
  assumes "attr_ok a" "bs \<noteq> []" "unat off + length bs < 2 ^ 16" "unat off \<le> unat (a_value_len a) \<or> a_value_len a = 0"
  shows "\<exists>a'. write_stored a off bs junk = Some a' \<and> attr_ok a' \<and> a_read_func a' = a_read_func a
    \<and> value_bytes a' = take (unat off) (value_bytes a @ replicate (unat off) 0) @ bs @ drop (unat off + length bs) (value_bytes a)"
proof -
  let ?o = "unat off" and ?n = "length bs" and ?old = "value_bytes a"
  let ?grow = "a_value a = None \<or> a_value_len a \<le> off \<or> unat (a_value_len a) - ?o < ?n"
  have old: "length ?old = unat (a_value_len a)" and u: "uuid_ok (a_uuid a)"
    using attr_ok_bytes [OF assms(1)] assms(1) by (simp_all add: attr_ok_def)
  have len: "unat (of_nat (?n + ?o) :: u16) = ?n + ?o"
    using assms(3) by (simp only: unat_of_nat) simp
  show ?thesis
  proof (cases ?grow)
    case True
    then have short: "length ?old \<le> ?n + ?o"
      using old by (auto simp: value_bytes_def word_le_nat_alt)
    let ?b = "grow_value a ?o (?n + ?o) junk"
    have lb: "length ?b = ?n + ?o"
      using short old by (simp add: grow_value_def Let_def)
    have tb: "take ?o ?b = take ?o (?old @ replicate ?o 0)"
      using assms(4) old short by (auto simp: grow_value_def Let_def)
    let ?v = "take ?o ?b @ bs @ drop (?o + ?n) ?b"
    have w: "mem_write ?b ?o bs = Some ?v"
      using lb by (intro mem_write_take) simp
    have v: "?v = take ?o (?old @ replicate ?o 0) @ bs @ drop (?o + ?n) ?old" "length ?v = ?n + ?o"
      using tb lb short by (simp_all add: add.commute)
    let ?a = "a\<lparr>a_value := Some ?v, a_value_len := of_nat (?n + ?o)\<rparr>"
    have "write_stored a off bs junk = Some ?a"
      using True assms(2) w unfolding write_stored_def by (auto simp: Let_def)
    moreover have "attr_ok ?a" "value_bytes ?a = ?v"
      using u v(2) len by (simp_all only: attr_ok_def value_bytes_def) simp_all
    ultimately show ?thesis
      using v(1) by (intro exI [of _ ?a]) simp
  next
    case False
    then have fits: "?o + ?n \<le> length ?old" and val: "a_value a = Some ?old"
      using old by (auto simp: word_le_nat_alt value_bytes_def)
    let ?a = "a\<lparr>a_value := Some (take ?o ?old @ bs @ drop (?o + ?n) ?old)\<rparr>"
    have "write_stored a off bs junk = Some ?a"
      using False assms(2) val mem_write_take [OF fits] unfolding write_stored_def by (simp add: Let_def)
    moreover have "attr_ok ?a"
      using u fits old by (simp add: attr_ok_def)
    ultimately show ?thesis
      using fits by (intro exI [of _ ?a]) (simp add: value_bytes_def)
  qed
qed

lemma attribute_read_ok:
  assumes "attr_ok a" "a_read_func a = None"
  shows "gatt_db_attribute_read (Some a) off opc (Some fn) ud tid = Some (True, Some a,
     [if unat (a_value_len a) < unat off then ReadDone fn BT_ATT_ERROR_INVALID_OFFSET None 0
      else if unat off = unat (a_value_len a) then ReadDone fn 0 None 0
      else ReadDone fn 0 (Some (drop (unat off) (value_bytes a))) (unat (a_value_len a) - unat off)])"
proof (cases "a_value a")
  case None
  then have "a_value_len a = 0"
    using assms(1) by (simp add: attr_ok_def)
  then show ?thesis
    using assms(2) None by (simp add: gatt_db_attribute_read_def word_less_nat_alt unat_gt_0)
next
  case (Some v)
  then have "length v = unat (a_value_len a)"
    using assms(1) by (simp add: attr_ok_def)
  then show ?thesis
    using assms(2) Some by (auto simp: gatt_db_attribute_read_def value_bytes_def word_less_nat_alt word_unat_eq_iff mem_read_def)
qed

text \<open>A value kept in the database: after a write at an offset up to its length (or anywhere when it is empty) that ends below
  65536 the bytes from the offset on are the data written, those around it stay and a gap is zero; a read at any offset
  then reports the rest of the value from there with its length, nothing at the end, and the error Invalid Offset
  beyond it.  The function of the caller is called once.\<close>

theorem write_then_read:
  assumes "attr_ok a" "a_write_func a = None" "a_read_func a = None" "bs \<noteq> []" "unat off + length bs < 2 ^ 16"
    and "unat off \<le> unat (a_value_len a) \<or> a_value_len a = 0"
  shows "\<exists>a'. gatt_db_attribute_write (Some a) off bs opc (Some fn) ud tid junk = Some (True, Some a', [WriteDone fn 0]) \<and> attr_ok a'
    \<and> value_bytes a' = take (unat off) (value_bytes a @ replicate (unat off) 0) @ bs @ drop (unat off + length bs) (value_bytes a)
    \<and> (\<forall>n. gatt_db_attribute_read (Some a') n opc' (Some fn') ud' tid' = Some (True, Some a',
       [if length (value_bytes a') < unat n then ReadDone fn' BT_ATT_ERROR_INVALID_OFFSET None 0
        else if unat n = length (value_bytes a') then ReadDone fn' 0 None 0
        else ReadDone fn' 0 (Some (drop (unat n) (value_bytes a'))) (length (value_bytes a') - unat n)]))"
proof -
  obtain a' where a': "write_stored a off bs junk = Some a'" "attr_ok a'" "a_read_func a' = a_read_func a"
      "value_bytes a' = take (unat off) (value_bytes a @ replicate (unat off) 0) @ bs @ drop (unat off + length bs) (value_bytes a)"
    using write_stored_ok [OF assms(1,4,5,6)] by blast
  have "gatt_db_attribute_write (Some a) off bs opc (Some fn) ud tid junk = Some (True, Some a', [WriteDone fn 0])"
    using assms(2) a'(1) by (simp add: gatt_db_attribute_write_def)
  moreover have "gatt_db_attribute_read (Some a') n opc' (Some fn') ud' tid' = Some (True, Some a',
       [if length (value_bytes a') < unat n then ReadDone fn' BT_ATT_ERROR_INVALID_OFFSET None 0
        else if unat n = length (value_bytes a') then ReadDone fn' 0 None 0
        else ReadDone fn' 0 (Some (drop (unat n) (value_bytes a'))) (length (value_bytes a') - unat n)])" for n
    unfolding attr_ok_bytes [OF a'(2)] using a'(2,3) assms(3) by (intro attribute_read_ok) simp_all
  ultimately show ?thesis
    using a'(2,4) by blast
qed

theorem write_then_read_witness:
  "\<exists>a'. gatt_db_attribute_write (Some (sample_attr 3 0x2A19 1 (Some [1, 2, 3]))) 2 [7, 8] 0x12 (Some 5) 0 0 (\<lambda>_. 0xAA) = Some (True, Some a', [WriteDone 5 0])
    \<and> value_bytes a' = [1, 2, 7, 8]
    \<and> gatt_db_attribute_read (Some a') 1 0x0c (Some 6) 0 0 = Some (True, Some a', [ReadDone 6 0 (Some [2, 7, 8]) 3])"
proof -
  have "attr_ok (sample_attr 3 0x2A19 1 (Some [1, 2, 3]))"
    by (simp add: attr_ok_def sample_attr_def)
  then obtain a' where a': "gatt_db_attribute_write (Some (sample_attr 3 0x2A19 1 (Some [1, 2, 3]))) 2 [7, 8] 0x12 (Some 5) 0 0 (\<lambda>_. 0xAA)
      = Some (True, Some a', [WriteDone 5 0])" "value_bytes a' = [1, 2, 7, 8]"
      "\<And>n. gatt_db_attribute_read (Some a') n 0x0c (Some 6) 0 0 = Some (True, Some a',
       [if length (value_bytes a') < unat n then ReadDone 6 BT_ATT_ERROR_INVALID_OFFSET None 0
        else if unat n = length (value_bytes a') then ReadDone 6 0 None 0
        else ReadDone 6 0 (Some (drop (unat n) (value_bytes a'))) (length (value_bytes a') - unat n)])"
    using write_then_read [of "sample_attr 3 0x2A19 1 (Some [1, 2, 3])" "[7, 8]" 2 "0x12" 5 0 0 "\<lambda>_. 0xAA" "0x0c" 6 0 0]
    by (auto simp: sample_attr_def value_bytes_def)
  then show ?thesis
    using a'(3) [of 1] by (intro exI [of _ a']) simp
qed

section \<open>Calls that break promises\<close>

text \<open>\<^verbatim>\<open>gatt_db_clear\<close> removes all services but leaves \<^verbatim>\<open>next_handle\<close> at 0, which is no handle, where a new database has 1:
  every later \<^verbatim>\<open>gatt_db_add_service\<close> returns NULL and changes nothing, until a service is inserted at a given handle.\<close>

theorem clear_refuses_services:
  assumes "db_ok d"
  shows "\<exists>d'. gatt_db_clear (Some d) = Some (True, Some d') \<and> db_ok d' \<and> gatt_db_isempty (Some d')
    \<and> (\<forall>u primary n. gatt_db_add_service d' u primary n = Some (None, Some d'))"
proof -
  let ?d = "d\<lparr>services := []\<rparr>"
  obtain l where "destroy_services ?d (services d) = Some (?d\<lparr>db_log := l\<rparr>)"
    using destroy_services_total [of ?d] db_ok_notify assms by blast
  then show ?thesis
    using assms by (auto simp: gatt_db_clear_def db_ok_def gatt_db_isempty_def gatt_db_add_service_def gatt_db_insert_service_def)
qed

theorem clear_refuses_services_witness:
  "\<exists>d'. gatt_db_clear (Some battery_db) = Some (True, Some d') \<and> gatt_db_add_service d' (BT_UUID16 0x180F) True 5 = Some (None, Some d')"
  using clear_refuses_services [OF battery_ok] by blast

text \<open>The test of \<^verbatim>\<open>find_insert_loc\<close> looks only at the two ends of the new range: a service around an existing one is accepted,
  and the database then has two services with common handles.\<close>

lemma insert_around_overlaps:
  assumes "services d = [(p, s)]" "svc_ok s" "uuid_ok u" "0 < unat h" "unat h + unat n \<le> 2 ^ 16"
    and "unat h < svc_start s" "svc_end s < unat h + unat n - 1"
  shows "\<exists>d' t. gatt_db_insert_service (Some d) h u primary n = Some (Some (db_brk d, 0), Some d') \<and> services d' = [(p, s), (db_brk d, t)]
    \<and> svc_start t < svc_start s \<and> svc_end s < svc_end t"
proof -
  have n: "0 < unat n"
    using assms(6,7) svc_bounds(2) [OF assms(2)] by linarith
  let ?e = "h + n - 1"
  have e: "unat ?e = unat h + unat n - 1"
    using unat_u16_end [OF n assms(5)] .
  obtain lo hi where lh: "gatt_db_service_get_handles s = Some (lo, hi)" "unat lo = svc_start s" "unat hi = svc_end s"
    using get_handles_ok [OF assms(2)] by blast
  have "find_insert_loc d h ?e = Some (None, Some p)"
    using assms(1,6,7) lh e svc_bounds(2) [OF assms(2)] by (simp add: find_insert_loc_def word_le_nat_alt word_less_nat_alt)
  moreover obtain t b where t: "gatt_db_service_create u h primary n = Some (Some t)" "dense (t\<lparr>s_num_handles := n\<rparr>) [b]" "a_handle b = h"
    using service_create_ok [OF assms(3) n assms(4,5), of primary] by blast
  moreover have "\<not> h < 1" "\<not> n < 1" "\<not> 0xFFFF < unat h + unat n - 1"
    using assms(4,5) n by (simp_all add: word_less_nat_alt)
  moreover have "svc_start (t\<lparr>s_num_handles := n\<rparr>) = unat h" "svc_end (t\<lparr>s_num_handles := n\<rparr>) = unat h + unat n - 1"
    using t(2,3) by (auto elim: denseE)
  ultimately show ?thesis
    using assms(1,6,7) by (simp add: gatt_db_insert_service_def Let_def)
qed

text \<open>A characteristic inserted with the handle after that of its service gets a declaration with the handle of the service itself.\<close>

lemma insert_characteristic_duplicate:
  assumes "dense s as" "uuid_ok u" "length as + 1 < unat (s_num_handles s)" "h = a_handle (hd as) + 1" "h \<noteq> 0xFFFF"
  shows "\<exists>t d. service_insert_characteristic s h u perm pty rfn wfn ud = Some (Some (length as + 1), t)
    \<and> attr_of t (length as) = Some d \<and> a_handle d = a_handle (hd as) \<and> attr_of t 0 = Some (hd as)"
proof -
  obtain a bs k where as: "as = a # bs" "s_attributes s = map Some as @ replicate k None" "unat (s_num_handles s) = length as + k"
      "unat (a_handle a) + unat (s_num_handles s) \<le> 2 ^ 16"
    using assms(1) by (rule denseE)
  have first: "attr_of s 0 = Some a" "get_handle_at_index s 0 = Some (a_handle a)"
    using attr_of_dense [OF assms(1), of 0] as(1) by (simp_all add: get_handle_at_index_def)
  have h: "unat h = unat (a_handle a) + 1"
    using assms(3,4) as(1,4) unat_u16_add [of "a_handle a" 1] by simp
  then have guard: "\<not> h \<le> a_handle a" "h \<noteq> 0"
    by (auto simp: word_le_nat_alt)
  have i: "get_attribute_index s 1 = length as"
    using dense_index [OF assms(1), of 1] assms(3) by auto
  obtain le where le: "uuid_to_le u = Some le" "length le = 2 \<or> length le = 16"
    using uuid_to_le_ok [OF assms(2)] by blast
  let ?pdu = "[pty] @ le16 h @ le"
  obtain d where d: "new_attribute (h - 1) characteristic_uuid (Some ?pdu) (of_nat (length ?pdu)) = Some d" "a_handle d = h - 1"
    using new_attribute_value [of ?pdu "h - 1" characteristic_uuid] le(2) by auto
  obtain v where v: "new_attribute h u None 0 = Some v"
    using new_attribute_empty by blast
  let ?t1 = "set_entry s (length as) (Some d)"
  let ?t = "set_entry ?t1 (length as + 1) (Some (set_attribute_data rfn wfn perm ud v))"
  have k: "2 \<le> k"
    using assms(3) as(3) by simp
  have "service_insert_characteristic s h u perm pty rfn wfn ud = Some (Some (length as + 1), ?t)"
    using first(2) guard assms(5) i le(1) d(1) v k as(1,2)
    unfolding service_insert_characteristic_def by (simp add: Let_def array_at_def set_entry_def)
  moreover have "attr_of ?t (length as) = Some d" "attr_of ?t 0 = Some a"
    using k as(1,2) by (simp_all add: attr_of_def array_at_def set_entry_def nth_append list_update_append)
  ultimately show ?thesis
    using d(2) assms(4) as(1) by auto
qed

end
