(* ===== verification/Bt_Att_Props.thy ===== *)
theory Bt_Att_Props
  imports Bt_Att Transition "HOL-Library.Multiset"
begin

text \<open>Properties of the transport: every operation that was accepted is released once and answered at most once, requests
  go out one at a time, and signatures of received PDUs are never verified.\<close>

section \<open>Calls\<close>

datatype att_call =
    Send u8 "bytes option" u16 "nat option" nat "nat option"
  | SendError u8 u16 int
  | CanWrite
  | WriteWatchGone
  | CanRead "bytes option"
  | Timeout u32
  | Cancel u32
  | CancelAll
  | Disconnect int
  | Register u8 "nat option" nat "nat option"
  | Unregister u32
  | RegisterDisconnect "nat option" nat "nat option"
  | UnregisterDisconnect u32
  | UnregisterAll
  | SetMtu u16
  | SetTimeoutCb "nat option" nat "nat option"
  | SetSecurity int
  | SetLocalKey bytes nat nat
  | SetRemoteKey bytes nat nat

fun att_run :: "att_env \<Rightarrow> att_call \<Rightarrow> bt_att \<Rightarrow> bt_att option" where
  "att_run env (Send opcode pdu len cb ud d) att = map_option snd (bt_att_send env att opcode pdu len cb ud d)"
| "att_run env (SendError opcode h err) att = map_option snd (bt_att_send_error_rsp env att opcode h err)"
| "att_run env CanWrite att = Some (snd (can_write_data env att))"
| "att_run env WriteWatchGone att = Some (write_watch_destroy att)"
| "att_run env (CanRead b) att = map_option snd (can_read_data env att b)"
| "att_run env (Timeout i) att = Some (timeout_cb i att)"
| "att_run env (Cancel i) att = Some (snd (bt_att_cancel env att i))"
| "att_run env CancelAll att = Some (bt_att_cancel_all att)"
| "att_run env (Disconnect err) att = Some (disconnect_cb att err)"
| "att_run env (Register opcode cb ud d) att = Some (snd (bt_att_register att opcode cb ud d))"
| "att_run env (Unregister i) att = Some (snd (bt_att_unregister att i))"
| "att_run env (RegisterDisconnect cb ud d) att = Some (snd (bt_att_register_disconnect att cb ud d))"
| "att_run env (UnregisterDisconnect i) att = Some (snd (bt_att_unregister_disconnect att i))"
| "att_run env UnregisterAll att = Some (bt_att_unregister_all att)"
| "att_run env (SetMtu m) att = Some (snd (bt_att_set_mtu att m))"
| "att_run env (SetTimeoutCb cb ud d) att = Some (bt_att_set_timeout_cb att cb ud d)"
| "att_run env (SetSecurity l) att = Some (snd (bt_att_set_security env att l))"
| "att_run env (SetLocalKey k f ud) att = Some (bt_att_set_local_key att k f ud)"
| "att_run env (SetRemoteKey k f ud) att = Some (bt_att_set_remote_key att k f ud)"

section \<open>Conservation of operations\<close>

text \<open>The operations that the object holds, those with a destroy function, those with a callback; and the calls of these in
  the log.\<close>

definition held :: "bt_att \<Rightarrow> att_send_op list" where
  "held att = req_queue att @ ind_queue att @ write_queue att
     @ (case pending_req att of None \<Rightarrow> [] | Some op \<Rightarrow> [op]) @ (case pending_ind att of None \<Rightarrow> [] | Some op \<Rightarrow> [op])"

definition to_destroy :: "att_send_op \<Rightarrow> (nat \<times> nat) multiset" where
  "to_destroy op = (case op_destroy op of None \<Rightarrow> {#} | Some f \<Rightarrow> {#(f, op_user_data op)#})"

definition to_answer :: "att_send_op \<Rightarrow> (nat \<times> nat) multiset" where
  "to_answer op = (case op_callback op of None \<Rightarrow> {#} | Some f \<Rightarrow> {#(f, op_user_data op)#})"

fun destroyed :: "att_event list \<Rightarrow> (nat \<times> nat) multiset" where
  "destroyed [] = {#}"
| "destroyed (OpDestroyed f u # es) = add_mset (f, u) (destroyed es)"
| "destroyed (_ # es) = destroyed es"

fun answered :: "att_event list \<Rightarrow> (nat \<times> nat) multiset" where
  "answered [] = {#}"
| "answered (ResponseCallback f u _ _ # es) = add_mset (f, u) (answered es)"
| "answered (_ # es) = answered es"

text \<open>What is still to be destroyed and what has been destroyed; the same for answers.\<close>

definition destroy_balance :: "bt_att \<Rightarrow> (nat \<times> nat) multiset" where
  "destroy_balance att = sum_list (map to_destroy (held att)) + destroyed (att_log att)"

definition answer_balance :: "bt_att \<Rightarrow> (nat \<times> nat) multiset" where
  "answer_balance att = sum_list (map to_answer (held att)) + answered (att_log att)"

lemma destroyed_append [simp]: "destroyed (xs @ ys) = destroyed xs + destroyed ys"
  by (induction xs rule: destroyed.induct) simp_all

lemma answered_append [simp]: "answered (xs @ ys) = answered xs + answered ys"
  by (induction xs rule: answered.induct) simp_all

lemma destroyed_concat: "destroyed (concat (map f xs)) = sum_list (map (\<lambda>x. destroyed (f x)) xs)"
  by (induction xs) simp_all

lemma answered_concat: "answered (concat (map f xs)) = sum_list (map (\<lambda>x. answered (f x)) xs)"
  by (induction xs) simp_all

lemma op_events [simp]:
  "destroyed (destroy_att_send_op op) = to_destroy op" "answered (destroy_att_send_op op) = {#}"
  "destroyed (response_event op c p) = {#}" "answered (response_event op c p) = to_answer op"
  "destroyed (fst (cancel_att_send_op op)) = to_destroy op" "answered (fst (cancel_att_send_op op)) = {#}"
  "to_destroy (snd (cancel_att_send_op op)) = {#}" "to_answer (snd (cancel_att_send_op op)) = {#}"
  by (auto simp: destroy_att_send_op_def destroy_event_def response_event_def cancel_att_send_op_def to_destroy_def to_answer_def
      split: option.splits)

lemma op_fields [simp]:
  "to_destroy (op\<lparr>op_timeout_id := t\<rparr>) = to_destroy op" "to_answer (op\<lparr>op_timeout_id := t\<rparr>) = to_answer op"
  "to_destroy (op\<lparr>op_id := i\<rparr>) = to_destroy op" "to_answer (op\<lparr>op_id := i\<rparr>) = to_answer op"
  by (simp_all add: to_destroy_def to_answer_def split: option.split)

lemma other_events [simp]:
  "destroyed (destroy_att_notify n) = {#}" "answered (destroy_att_notify n) = {#}"
  "destroyed (destroy_att_disconn d) = {#}" "answered (destroy_att_disconn d) = {#}"
  "destroyed (disconn_handler e d) = {#}" "answered (disconn_handler e d) = {#}"
  by (auto simp: destroy_att_notify_def destroy_att_disconn_def disconn_handler_def split: option.splits)

lemma notify_events_none [simp]: "destroyed (notify_events att c p) = {#}" "answered (notify_events att c p) = {#}"
proof -
  have "destroyed (concat (map (\<lambda>n. if opcode_match (an_opcode n) c
      then (case an_callback n of None \<Rightarrow> [] | Some f \<Rightarrow> [NotifyCallback f (an_user_data n) c p]) else []) ns)) = {#}"
    "answered (concat (map (\<lambda>n. if opcode_match (an_opcode n) c
      then (case an_callback n of None \<Rightarrow> [] | Some f \<Rightarrow> [NotifyCallback f (an_user_data n) c p]) else []) ns)) = {#}" for ns
    by (induction ns) (auto split: option.splits)
  then show "destroyed (notify_events att c p) = {#}" "answered (notify_events att c p) = {#}"
    by (simp_all add: notify_events_def)
qed

lemmas balance_defs = destroy_balance_def answer_balance_def held_def att_emit_def

lemma wakeup_balance [simp]:
  "destroy_balance (wakeup_writer env att) = destroy_balance att" "answer_balance (wakeup_writer env att) = answer_balance att"
  by (simp_all add: wakeup_writer_def balance_defs)

lemma sum_remove_first:
  "find p xs = Some x \<Longrightarrow> sum_list (map (f :: 'a \<Rightarrow> 'b multiset) xs) = f x + sum_list (map f (remove_first p xs))"
  by (induction xs) (auto split: if_splits)

lemma enqueue_balance:
  "destroy_balance (enqueue_op op att) = destroy_balance att + to_destroy op" "answer_balance (enqueue_op op att) = answer_balance att + to_answer op"
  by (simp_all add: enqueue_op_def balance_defs split: att_op_type.splits)

lemma created_op:
  assumes "create_att_send_op env att opcode pdu len cb ud d = Some (Some op)"
  shows "op_destroy op = d" "op_callback op = cb" "op_user_data op = ud" "op_type op = get_op_type opcode" "op_opcode op = opcode"
    "cb \<noteq> None \<longleftrightarrow> get_op_type opcode = ATT_OP_TYPE_REQ \<or> get_op_type opcode = ATT_OP_TYPE_IND"
    "encode_pdu env att opcode pdu len = Some (Some (op_pdu op))"
  using assms by (auto simp: create_att_send_op_def Let_def split: if_splits)

text \<open>A send is refused, or appends a new operation.\<close>

lemma sendE:
  assumes "bt_att_send env att opcode pdu len cb ud d = Some (i, att')"
  obtains "i = 0" "att' = att"
  | op j where "i = j" "j \<noteq> 0" "att_io att" "create_att_send_op env att opcode pdu len cb ud d = Some (Some op)"
      "att' = wakeup_writer env (enqueue_op (op\<lparr>op_id := j\<rparr>) (att\<lparr>next_send_id := j + 1\<rparr>))"
  using assms by (auto simp: bt_att_send_def bind_eq_Some_conv Let_def split: if_splits option.splits)

lemma balance_next [simp]:
  "destroy_balance (att\<lparr>next_send_id := j\<rparr>) = destroy_balance att" "answer_balance (att\<lparr>next_send_id := j\<rparr>) = answer_balance att"
  by (simp_all add: balance_defs)

lemma send_balance:
  assumes "bt_att_send env att opcode pdu len cb ud d = Some (i, att')"
  shows "destroy_balance att' = destroy_balance att + (if i \<noteq> 0 \<and> d \<noteq> None then {#(the d, ud)#} else {#})"
    and "answer_balance att' = answer_balance att + (if i \<noteq> 0 \<and> cb \<noteq> None then {#(the cb, ud)#} else {#})"
  using assms by (cases rule: sendE; auto simp: enqueue_balance to_destroy_def to_answer_def created_op)+

lemma send_error_balance:
  assumes "bt_att_send_error_rsp env att opcode h err = Some (i, att')"
  shows "destroy_balance att' = destroy_balance att" "answer_balance att' = answer_balance att"
  using assms send_balance [of env att BT_ATT_OP_ERROR_RSP _ 4 None 0 None i att'] by (auto simp: bt_att_send_error_rsp_def split: if_splits)

lemma pick_balance:
  assumes "pick_next_send_op att = (Some op, att')"
  shows "destroy_balance att = destroy_balance att' + to_destroy op" "answer_balance att = answer_balance att' + to_answer op"
    "op_type op = ATT_OP_TYPE_REQ \<Longrightarrow> att_log att' = att_log att"
  using assms by (auto simp: pick_next_send_op_def balance_defs split: list.splits option.splits)

section \<open>The queues\<close>

definition att_ok :: "bt_att \<Rightarrow> bool" where
  "att_ok att \<longleftrightarrow> (\<forall>op\<in>set (req_queue att). op_type op = ATT_OP_TYPE_REQ) \<and> (\<forall>op\<in>set (ind_queue att). op_type op = ATT_OP_TYPE_IND)
     \<and> (\<forall>op\<in>set (write_queue att). op_type op \<noteq> ATT_OP_TYPE_REQ \<and> op_type op \<noteq> ATT_OP_TYPE_IND)
     \<and> (\<forall>op. pending_req att = Some op \<longrightarrow> op_type op = ATT_OP_TYPE_REQ) \<and> (\<forall>op. pending_ind att = Some op \<longrightarrow> op_type op = ATT_OP_TYPE_IND)"

lemma att_ok_log [simp]: "att_ok (att_emit es att) = att_ok att" "att_ok (att\<lparr>in_req := x\<rparr>) = att_ok att" "att_ok (att\<lparr>next_send_id := i\<rparr>) = att_ok att"
  by (simp_all add: att_ok_def att_emit_def)

lemma wakeup_ok [simp]: "att_ok (wakeup_writer env att) = att_ok att"
  by (simp add: wakeup_writer_def att_ok_def)

lemma enqueue_ok: "att_ok att \<Longrightarrow> att_ok (enqueue_op op att)"
  by (auto simp: enqueue_op_def att_ok_def split: att_op_type.splits)

lemma pick_ok:
  assumes "att_ok att" "pick_next_send_op att = (Some op, att')"
  shows "att_ok att'" "op_type op = ATT_OP_TYPE_REQ \<Longrightarrow> pending_req att' = None" "op_type op = ATT_OP_TYPE_IND \<Longrightarrow> pending_ind att' = None"
  using assms by (auto simp: pick_next_send_op_def att_ok_def split: list.splits option.splits)

lemma send_ok: "att_ok att \<Longrightarrow> bt_att_send env att opcode pdu len cb ud d = Some (i, att') \<Longrightarrow> att_ok att'"
  by (erule sendE) (auto simp: enqueue_ok)

lemma balance_emit:
  "destroy_balance (att_emit es att) = destroy_balance att + destroyed es" "answer_balance (att_emit es att) = answer_balance att + answered es"
  by (simp_all add: balance_defs)

lemma balance_pending:
  "pending_req att = None \<Longrightarrow> destroy_balance (att\<lparr>pending_req := Some op\<rparr>) = destroy_balance att + to_destroy op"
  "pending_req att = None \<Longrightarrow> answer_balance (att\<lparr>pending_req := Some op\<rparr>) = answer_balance att + to_answer op"
  "pending_ind att = None \<Longrightarrow> destroy_balance (att\<lparr>pending_ind := Some op\<rparr>) = destroy_balance att + to_destroy op"
  "pending_ind att = None \<Longrightarrow> answer_balance (att\<lparr>pending_ind := Some op\<rparr>) = answer_balance att + to_answer op"
  by (simp_all add: balance_defs split: option.splits)

lemma balance_unpend:
  "pending_req att = Some op \<Longrightarrow> destroy_balance att = destroy_balance (att\<lparr>pending_req := None\<rparr>) + to_destroy op"
  "pending_req att = Some op \<Longrightarrow> answer_balance att = answer_balance (att\<lparr>pending_req := None\<rparr>) + to_answer op"
  "pending_ind att = Some op \<Longrightarrow> destroy_balance att = destroy_balance (att\<lparr>pending_ind := None\<rparr>) + to_destroy op"
  "pending_ind att = Some op \<Longrightarrow> answer_balance att = answer_balance (att\<lparr>pending_ind := None\<rparr>) + to_answer op"
  by (simp_all add: balance_defs split: option.splits)

lemma balance_in_req [simp]:
  "destroy_balance (att\<lparr>in_req := x\<rparr>) = destroy_balance att" "answer_balance (att\<lparr>in_req := x\<rparr>) = answer_balance att"
  by (simp_all add: balance_defs)

lemma pend_ok:
  "att_ok att \<Longrightarrow> op_type op = ATT_OP_TYPE_REQ \<Longrightarrow> att_ok (att\<lparr>pending_req := Some op\<rparr>)"
  "att_ok att \<Longrightarrow> op_type op = ATT_OP_TYPE_IND \<Longrightarrow> att_ok (att\<lparr>pending_ind := Some op\<rparr>)"
  "att_ok att \<Longrightarrow> att_ok (att\<lparr>pending_req := None\<rparr>)" "att_ok att \<Longrightarrow> att_ok (att\<lparr>pending_ind := None\<rparr>)"
  by (simp_all add: att_ok_def)

text \<open>One call: the invariant, and what it adds to the balances.\<close>

definition accounts :: "bt_att \<Rightarrow> bt_att \<Rightarrow> bool" where
  "accounts att att' \<longleftrightarrow> att_ok att' \<and> destroy_balance att' = destroy_balance att \<and> answer_balance att' \<subseteq># answer_balance att"

lemma accounts_refl: "att_ok att \<Longrightarrow> accounts att att"
  by (simp add: accounts_def)

lemma emit_pending [simp]:
  "pending_req (att_emit es att) = pending_req att" "pending_ind (att_emit es att) = pending_ind att"
  by (simp_all add: att_emit_def)

lemma write_accounts:
  assumes "att_ok att"
  shows "accounts att (snd (can_write_data env att))"
proof (cases "pick_next_send_op att")
  case (Pair r att1)
  show ?thesis
  proof (cases r)
    case None
    then have "att1 = att"
      using Pair by (auto simp: pick_next_send_op_def split: list.splits option.splits)
    then show ?thesis
      using Pair None assms by (simp add: can_write_data_def accounts_def)
  next
    case (Some op)
    note pick = pick_balance [of att op att1] pick_ok [OF assms, of op att1]
    have pr: "att_ok att1" "destroy_balance att = destroy_balance att1 + to_destroy op" "answer_balance att = answer_balance att1 + to_answer op"
        "op_type op = ATT_OP_TYPE_REQ \<Longrightarrow> pending_req att1 = None" "op_type op = ATT_OP_TYPE_IND \<Longrightarrow> pending_ind att1 = None"
      using pick Pair Some by simp_all
    show ?thesis
    proof (cases "env_send env < 0")
      case True
      then show ?thesis
        using Pair Some pr(1-3) by (simp add: can_write_data_def accounts_def balance_emit)
    next
      case False
      then show ?thesis
        using Pair Some pr by (cases "op_type op") (simp_all add: can_write_data_def accounts_def balance_emit balance_pending pend_ok Let_def)
    qed
  qed
qed

lemma timeout_accounts:
  assumes "att_ok att"
  shows "accounts att (timeout_cb i att)"
proof -
  have none: "destroyed (case timeout_callback att of None \<Rightarrow> [] | Some f \<Rightarrow> [TimeoutCallback f j c]) = {#}"
    "answered (case timeout_callback att of None \<Rightarrow> [] | Some f \<Rightarrow> [TimeoutCallback f j c]) = {#}" for j c
    by (auto split: option.splits)
  have req: "accounts att (att_emit ((case timeout_callback att of None \<Rightarrow> [] | Some f \<Rightarrow> [TimeoutCallback f j c])
      @ destroy_att_send_op (op\<lparr>op_timeout_id := 0\<rparr>) @ [IoShutdown]) (att\<lparr>pending_req := None\<rparr>))" if "pending_req att = Some op" for op j c
    using assms balance_unpend(1,2) [OF that] by (simp add: accounts_def balance_emit pend_ok none)
  have ind: "accounts att (att_emit ((case timeout_callback att of None \<Rightarrow> [] | Some f \<Rightarrow> [TimeoutCallback f j c])
      @ destroy_att_send_op (op\<lparr>op_timeout_id := 0\<rparr>) @ [IoShutdown]) (att\<lparr>pending_ind := None\<rparr>))" if "pending_ind att = Some op" for op j c
    using assms balance_unpend(3,4) [OF that] by (simp add: accounts_def balance_emit pend_ok none)
  show ?thesis
    using accounts_refl [OF assms] req ind by (auto simp: timeout_cb_def Let_def split: option.splits)
qed

lemma push_back:
  assumes "pending_req att = Some op"
  shows "destroy_balance (att\<lparr>pending_req := None, req_queue := op # req_queue att\<rparr>) = destroy_balance att"
    "answer_balance (att\<lparr>pending_req := None, req_queue := op # req_queue att\<rparr>) = answer_balance att"
    "att_ok att \<Longrightarrow> att_ok (att\<lparr>pending_req := None, req_queue := op # req_queue att\<rparr>)"
  using assms by (simp_all add: balance_defs att_ok_def)

lemma security_same:
  assumes "bt_att_set_security env att l = (r, att')"
  shows "held att' = held att" "destroyed (att_log att') = destroyed (att_log att)" "answered (att_log att') = answered (att_log att)"
    "att_ok att' = att_ok att" "pending_req att' = pending_req att" "req_queue att' = req_queue att"
  using assms by (auto simp: bt_att_set_security_def held_def att_emit_def att_ok_def split: if_splits)

lemma change_same:
  assumes "change_security env att e = (r, att')"
  shows "held att' = held att" "destroyed (att_log att') = destroyed (att_log att)" "answered (att_log att') = answered (att_log att)"
    "att_ok att' = att_ok att" "pending_req att' = pending_req att" "req_queue att' = req_queue att"
  using assms by (auto simp: change_security_def Let_def dest: security_same split: if_splits)

lemma rsp_accounts:
  assumes "att_ok att"
  shows "accounts att (handle_rsp env att opcode pdu)"
proof (cases "pending_req att")
  case None
  then show ?thesis
    using assms by (simp add: handle_rsp_def accounts_def balance_emit)
next
  case (Some op)
  have fin: "accounts att (wakeup_writer env ((att_emit (response_event op c p @ destroy_att_send_op op) att1)\<lparr>pending_req := None\<rparr>))"
    if "destroy_balance att1 = destroy_balance att" "answer_balance att1 = answer_balance att" "att_ok att1" "pending_req att1 = Some op" for att1 c p
  proof -
    have "(att_emit es att1)\<lparr>pending_req := None\<rparr> = att_emit es (att1\<lparr>pending_req := None\<rparr>)" for es
      by (simp add: att_emit_def)
    then show ?thesis
      using that balance_unpend(1,2) [OF that(4)] by (simp add: accounts_def balance_emit pend_ok)
  qed
  show ?thesis
  proof (cases "opcode = BT_ATT_OP_ERROR_RSP \<and> length pdu = 4")
    case True
    obtain r att1 where c: "change_security env att (uint (pdu ! 3)) = (r, att1)"
      by (cases "change_security env att (uint (pdu ! 3))")
    note same = change_same [OF c]
    have b: "destroy_balance att1 = destroy_balance att" "answer_balance att1 = answer_balance att"
      using same by (simp_all add: destroy_balance_def answer_balance_def)
    have "accounts att (wakeup_writer env (att1\<lparr>pending_req := None, req_queue := op # req_queue att1\<rparr>))"
      using push_back [of att1 op] assms Some b same(4,5) by (simp add: accounts_def)
    then show ?thesis
      using True Some c fin [OF b] same(4,5) assms by (cases r) (simp_all add: handle_rsp_def handle_error_rsp_def Let_def)
  next
    case False
    then show ?thesis
      using Some assms fin [of att] by (auto simp: handle_rsp_def handle_error_rsp_def Let_def)
  qed
qed

lemma conf_accounts:
  assumes "att_ok att"
  shows "accounts att (handle_conf env att pdu)"
proof (cases "pending_ind att")
  case None
  then show ?thesis
    using assms by (simp add: handle_conf_def accounts_def balance_emit)
next
  case (Some op)
  have "(att_emit es att)\<lparr>pending_ind := None\<rparr> = att_emit es (att\<lparr>pending_ind := None\<rparr>)" for es
    by (simp add: att_emit_def)
  then show ?thesis
    using Some assms balance_unpend(3,4) [OF Some] by (simp add: handle_conf_def accounts_def balance_emit pend_ok)
qed

lemma send_accounts:
  assumes "att_ok att" "bt_att_send env att opcode pdu len None ud None = Some (i, att')"
  shows "accounts att att'"
  using send_balance [OF assms(2)] send_ok [OF assms] by (simp add: accounts_def)

lemma notify_accounts:
  assumes "att_ok att" "att_handle_notify env att opcode pdu = Some att'"
  shows "accounts att att'"
proof -
  have deliver: "accounts att a"
    if "(if \<not> (\<exists>n\<in>set (att_notify_list att). opcode_match (an_opcode n) opcode) \<and> get_op_type opcode = ATT_OP_TYPE_REQ
        then respond_not_supported env (att_emit (notify_events att opcode q) att) opcode
        else Some (att_emit (notify_events att opcode q) att)) = Some a" for q a
    using that send_accounts [of "att_emit (notify_events att opcode q) att"] assms(1)
    by (auto simp: respond_not_supported_def accounts_def balance_emit split: if_splits)
  show ?thesis
    using assms(2) deliver accounts_refl [OF assms(1)]
    by (auto simp: att_handle_notify_def Let_def split: if_splits prod.splits bool.splits)
qed

lemma cancel_pending_balance:
  assumes "att_ok att"
  shows "pending_req att = Some op \<Longrightarrow> accounts att (att_emit (fst (cancel_att_send_op op)) (att\<lparr>pending_req := Some (snd (cancel_att_send_op op))\<rparr>))"
    and "pending_ind att = Some op \<Longrightarrow> accounts att (att_emit (fst (cancel_att_send_op op)) (att\<lparr>pending_ind := Some (snd (cancel_att_send_op op))\<rparr>))"
proof -
  have ty: "pending_req att = Some op \<Longrightarrow> op_type (snd (cancel_att_send_op op)) = ATT_OP_TYPE_REQ"
    "pending_ind att = Some op \<Longrightarrow> op_type (snd (cancel_att_send_op op)) = ATT_OP_TYPE_IND"
    using assms by (simp_all add: cancel_att_send_op_def att_ok_def)
  show "accounts att (att_emit (fst (cancel_att_send_op op)) (att\<lparr>pending_req := Some (snd (cancel_att_send_op op))\<rparr>))" if p: "pending_req att = Some op"
    using assms p ty balance_unpend(1,2) [OF p] balance_pending(1,2) [of "att\<lparr>pending_req := None\<rparr>" "snd (cancel_att_send_op op)"]
    by (simp add: accounts_def balance_emit pend_ok)
  show "accounts att (att_emit (fst (cancel_att_send_op op)) (att\<lparr>pending_ind := Some (snd (cancel_att_send_op op))\<rparr>))" if p: "pending_ind att = Some op"
    using assms p ty balance_unpend(3,4) [OF p] balance_pending(3,4) [of "att\<lparr>pending_ind := None\<rparr>" "snd (cancel_att_send_op op)"]
    by (simp add: accounts_def balance_emit pend_ok)
qed

lemma set_remove_first: "set (remove_first p xs) \<subseteq> set xs"
  by (induction xs) auto

lemma removed_accounts:
  assumes "att_ok att"
  shows "find p (req_queue att) = Some op \<Longrightarrow> accounts att (wakeup_writer env (att_emit (destroy_att_send_op op) (att\<lparr>req_queue := remove_first p (req_queue att)\<rparr>)))"
    and "find p (ind_queue att) = Some op \<Longrightarrow> accounts att (wakeup_writer env (att_emit (destroy_att_send_op op) (att\<lparr>ind_queue := remove_first p (ind_queue att)\<rparr>)))"
    and "find p (write_queue att) = Some op \<Longrightarrow> accounts att (wakeup_writer env (att_emit (destroy_att_send_op op) (att\<lparr>write_queue := remove_first p (write_queue att)\<rparr>)))"
proof -
  note sums = sum_remove_first [where f = to_destroy] sum_remove_first [where f = to_answer]
  have mem: "x \<in> set (remove_first p xs) \<Longrightarrow> x \<in> set xs" for x and xs :: "att_send_op list"
    using set_remove_first [of p xs] by blast
  show "find p (req_queue att) = Some op \<Longrightarrow> accounts att (wakeup_writer env (att_emit (destroy_att_send_op op) (att\<lparr>req_queue := remove_first p (req_queue att)\<rparr>)))"
    using assms by (simp add: accounts_def balance_emit) (auto simp: att_ok_def destroy_balance_def answer_balance_def held_def sums dest: mem)
  show "find p (ind_queue att) = Some op \<Longrightarrow> accounts att (wakeup_writer env (att_emit (destroy_att_send_op op) (att\<lparr>ind_queue := remove_first p (ind_queue att)\<rparr>)))"
    using assms by (simp add: accounts_def balance_emit) (auto simp: att_ok_def destroy_balance_def answer_balance_def held_def sums dest: mem)
  show "find p (write_queue att) = Some op \<Longrightarrow> accounts att (wakeup_writer env (att_emit (destroy_att_send_op op) (att\<lparr>write_queue := remove_first p (write_queue att)\<rparr>)))"
    using assms by (simp add: accounts_def balance_emit) (auto simp: att_ok_def destroy_balance_def answer_balance_def held_def sums dest: mem)
qed

lemma cancel_accounts:
  assumes "att_ok att"
  shows "accounts att (snd (bt_att_cancel env att i))"
  using cancel_pending_balance [OF assms] removed_accounts [OF assms, of "\<lambda>op. op_id op = i" _ env] accounts_refl [OF assms]
  by (auto simp: bt_att_cancel_def Let_def case_prod_beta split: option.splits)

lemma sum_queue:
  "destroyed (concat (map destroy_att_send_op ops)) = sum_list (map to_destroy ops)" "answered (concat (map destroy_att_send_op ops)) = {#}"
  "destroyed (concat (map disc_att_send_op ops)) = sum_list (map to_destroy ops)"
  "answered (concat (map disc_att_send_op ops)) = sum_list (map to_answer ops)"
  "destroyed (concat (map destroy_att_notify ns)) = {#}" "answered (concat (map destroy_att_notify ns)) = {#}"
  "destroyed (concat (map destroy_att_disconn ds)) = {#}" "answered (concat (map destroy_att_disconn ds)) = {#}"
  "destroyed (concat (map (disconn_handler e) ds)) = {#}" "answered (concat (map (disconn_handler e) ds)) = {#}"
  by (induction ops; simp add: disc_att_send_op_def; fail)+ (induction ns; simp; fail | induction ds; simp; fail)+

lemma unregister_accounts: "att_ok att \<Longrightarrow> accounts att (bt_att_unregister_all att)"
  by (simp add: bt_att_unregister_all_def accounts_def balance_emit sum_queue) (simp add: balance_defs att_ok_def)

lemma disconnect_accounts:
  assumes "att_ok att"
  shows "accounts att (disconnect_cb att err)" "held (disconnect_cb att err) = []"
proof -
  have *: "destroyed (case p of None \<Rightarrow> [] | Some op \<Rightarrow> disc_att_send_op op) = sum_list (map to_destroy (case p of None \<Rightarrow> [] | Some op \<Rightarrow> [op]))"
    "answered (case p of None \<Rightarrow> [] | Some op \<Rightarrow> disc_att_send_op op) = sum_list (map to_answer (case p of None \<Rightarrow> [] | Some op \<Rightarrow> [op]))" for p
    by (auto simp: disc_att_send_op_def split: option.splits)
  show "accounts att (disconnect_cb att err)"
    by (simp add: disconnect_cb_def accounts_def bt_att_unregister_all_def balance_emit sum_queue Let_def) (simp add: balance_defs sum_queue att_ok_def *)
  show "held (disconnect_cb att err) = []"
    by (simp add: disconnect_cb_def bt_att_unregister_all_def held_def att_emit_def Let_def)
qed

lemma cancel_all_accounts:
  assumes "att_ok att"
  shows "accounts att (bt_att_cancel_all att)"
proof -
  have *: "destroyed (fst (cancel_pending p)) = sum_list (map to_destroy (case p of None \<Rightarrow> [] | Some op \<Rightarrow> [op]))"
    "answered (fst (cancel_pending p)) = {#}"
    "sum_list (map to_destroy (case snd (cancel_pending p) of None \<Rightarrow> [] | Some op \<Rightarrow> [op])) = {#}"
    "sum_list (map to_answer (case snd (cancel_pending p) of None \<Rightarrow> [] | Some op \<Rightarrow> [op])) = {#}" for p
    by (auto simp: cancel_pending_def split: option.splits)
  have ty: "(\<forall>op. snd (cancel_pending p) = Some op \<longrightarrow> op_type op = k) = (\<forall>op. p = Some op \<longrightarrow> op_type op = k)" for p k
    by (cases p) (simp_all add: cancel_pending_def cancel_att_send_op_def)
  have "destroy_balance (bt_att_cancel_all att) = destroy_balance att" "answer_balance (bt_att_cancel_all att) \<subseteq># answer_balance att"
    by (simp_all add: bt_att_cancel_all_def Let_def case_prod_beta balance_defs sum_queue *)
  moreover have "att_ok (bt_att_cancel_all att)"
    using assms by (simp add: bt_att_cancel_all_def Let_def case_prod_beta) (simp add: att_ok_def ty)
  ultimately show ?thesis
    by (simp add: accounts_def)
qed

lemma read_accounts:
  assumes "att_ok att" "can_read_data env att b = Some (r, att')"
  shows "accounts att att'"
proof -
  have req: "accounts att att1" if "att_handle_notify env (att\<lparr>in_req := True\<rparr>) c p = Some att1" for c p att1
    using notify_accounts [OF _ that] assms(1) by (simp add: accounts_def)
  have shut: "accounts att (att_emit [IoShutdown] att)"
    using assms(1) by (simp add: accounts_def balance_emit)
  show ?thesis
  proof (cases b)
    case (Some cs)
    show ?thesis
    proof (cases cs)
      case (Cons c p)
      then show ?thesis
        using assms Some req shut rsp_accounts [OF assms(1), of env c p] conf_accounts [OF assms(1), of env p] notify_accounts [OF assms(1), of env c p]
        by (cases "get_op_type c") (auto simp: can_read_data_def split: if_splits)
    qed (use assms Some accounts_refl in \<open>simp add: can_read_data_def\<close>)
  qed (use assms accounts_refl in \<open>simp add: can_read_data_def\<close>)
qed

text \<open>What a call that was accepted has to destroy and to answer later.\<close>

fun accepted :: "att_env \<Rightarrow> att_call \<Rightarrow> bt_att \<Rightarrow> (nat \<times> nat) multiset \<times> (nat \<times> nat) multiset" where
  "accepted env (Send opcode pdu len cb ud d) att =
     (case bt_att_send env att opcode pdu len cb ud d of
        None \<Rightarrow> ({#}, {#})
      | Some (i, _) \<Rightarrow> (if i \<noteq> 0 \<and> d \<noteq> None then {#(the d, ud)#} else {#}, if i \<noteq> 0 \<and> cb \<noteq> None then {#(the cb, ud)#} else {#}))"
| "accepted env _ att = ({#}, {#})"

lemma fields_accounts:
  assumes "att_ok att" "held att' = held att" "att_log att' = att_log att @ es" "destroyed es = {#}" "answered es = {#}" "att_ok att' = att_ok att"
  shows "accounts att att'"
  using assms by (simp add: accounts_def destroy_balance_def answer_balance_def)

lemma register_accounts:
  assumes "att_ok att"
  shows "accounts att (snd (bt_att_register att opcode cb ud d))" "accounts att (snd (bt_att_unregister att i))"
    "accounts att (snd (bt_att_register_disconnect att cb ud d))" "accounts att (snd (bt_att_unregister_disconnect att i))"
    "accounts att (snd (bt_att_set_mtu att m))" "accounts att (bt_att_set_timeout_cb att cb ud d)" "accounts att (snd (bt_att_set_security env att l))"
    "accounts att (bt_att_set_local_key att key f ud)" "accounts att (bt_att_set_remote_key att key f ud)" "accounts att (write_watch_destroy att)"
  using assms
  by (auto simp: bt_att_register_def bt_att_unregister_def bt_att_register_disconnect_def bt_att_unregister_disconnect_def bt_att_set_mtu_def
      bt_att_set_timeout_cb_def bt_att_set_security_def bt_att_set_local_key_def bt_att_set_remote_key_def write_watch_destroy_def
      accounts_def destroy_balance_def answer_balance_def held_def att_emit_def att_ok_def Let_def split: option.splits)

lemma run_accounts:
  assumes "att_ok att" "att_run env k att = Some att'"
  shows "att_ok att' \<and> destroy_balance att' = destroy_balance att + fst (accepted env k att)
    \<and> answer_balance att' \<subseteq># answer_balance att + snd (accepted env k att)"
proof -
  have plain: ?thesis if "accounts att att'" "accepted env k att = ({#}, {#})"
    using that by (simp add: accounts_def)
  show ?thesis
  proof (cases k)
    case (Send opcode pdu len cb ud d)
    then obtain i where i: "bt_att_send env att opcode pdu len cb ud d = Some (i, att')"
      using assms(2) by auto
    show ?thesis
      using Send i send_ok [OF assms(1) i] send_balance [OF i] by simp
  next
    case (SendError opcode h err)
    then obtain i where i: "bt_att_send_error_rsp env att opcode h err = Some (i, att')"
      using assms(2) by auto
    then have "accounts att att'"
      using assms(1) send_accounts [OF assms(1), of env BT_ATT_OP_ERROR_RSP _ 4 0 i att'] accounts_refl by (auto simp: bt_att_send_error_rsp_def split: if_splits)
    then show ?thesis
      using plain SendError by simp
  next
    case (CanRead b)
    then show ?thesis
      using plain read_accounts [OF assms(1)] assms(2) by auto
  qed (use plain assms register_accounts write_accounts timeout_accounts cancel_accounts cancel_all_accounts disconnect_accounts(1) unregister_accounts in auto)
qed

fun att_runs :: "(att_env \<times> att_call) list \<Rightarrow> bt_att \<Rightarrow> ((nat \<times> nat) multiset \<times> (nat \<times> nat) multiset \<times> bt_att) option" where
  "att_runs [] att = Some ({#}, {#}, att)"
| "att_runs ((env, k) # ks) att = do {
     att1 \<leftarrow> att_run env k att;
     (ds, as, att2) \<leftarrow> att_runs ks att1;
     Some (fst (accepted env k att) + ds, snd (accepted env k att) + as, att2)
   }"

lemma runs_account:
  assumes "att_ok att" "att_runs ks att = Some (ds, as, att')"
  shows "att_ok att' \<and> destroy_balance att' = destroy_balance att + ds \<and> answer_balance att' \<subseteq># answer_balance att + as"
  using assms
proof (induction ks arbitrary: att ds as)
  case (Cons k ks)
  obtain env c where k: "k = (env, c)"
    by (cases k)
  obtain att1 ds1 as1 where s: "att_run env c att = Some att1" "att_runs ks att1 = Some (ds1, as1, att')"
      "ds = fst (accepted env c att) + ds1" "as = snd (accepted env c att) + as1"
    using Cons.prems(2) k by (auto simp: bind_eq_Some_conv)
  have 1: "att_ok att1" "destroy_balance att1 = destroy_balance att + fst (accepted env c att)"
      "answer_balance att1 \<subseteq># answer_balance att + snd (accepted env c att)"
    using run_accounts [OF Cons.prems(1) s(1)] by simp_all
  have 2: "att_ok att'" "destroy_balance att' = destroy_balance att1 + ds1" "answer_balance att' \<subseteq># answer_balance att1 + as1"
    using Cons.IH [OF 1(1) s(2)] by simp_all
  have "answer_balance att1 + as1 \<subseteq># answer_balance att + snd (accepted env c att) + as1"
    using 1(3) by (rule mset_subset_eq_mono_add_right_cancel [THEN iffD2])
  then show ?case
    using 1 2 s(3,4) by (auto simp: ac_simps intro: subset_mset.order_trans)
qed simp

section \<open>Properties\<close>

lemma new_ok:
  assumes "bt_att_new ext l2cap m crypto = Some att"
  shows "att_ok att" "held att = []" "att_log att = []"
  using assms by (auto simp: bt_att_new_def att_ok_def held_def Let_def split: if_splits option.splits)

lemma free_balance:
  assumes "att_ok att"
  shows "destroyed (bt_att_free (bt_att_cancel_all att)) = destroy_balance att" "answered (bt_att_free (bt_att_cancel_all att)) \<subseteq># answer_balance att"
proof -
  let ?c = "bt_att_cancel_all att"
  have empty: "req_queue ?c = []" "ind_queue ?c = []" "write_queue ?c = []"
    by (simp_all add: bt_att_cancel_all_def Let_def case_prod_beta att_emit_def)
  have rest: "destroyed (case timeout_destroy ?c of None \<Rightarrow> [] | Some f \<Rightarrow> [RegDestroyed f (timeout_data ?c)]) = {#}"
    "answered (case timeout_destroy ?c of None \<Rightarrow> [] | Some f \<Rightarrow> [RegDestroyed f (timeout_data ?c)]) = {#}"
    by (auto split: option.splits)
  have pend: "destroyed (case p of None \<Rightarrow> [] | Some op \<Rightarrow> destroy_att_send_op op) = sum_list (map to_destroy (case p of None \<Rightarrow> [] | Some op \<Rightarrow> [op]))"
    "answered (case p of None \<Rightarrow> [] | Some op \<Rightarrow> destroy_att_send_op op) = {#}" for p
    by (auto split: option.splits)
  have "destroyed (bt_att_free ?c) = destroy_balance ?c" "answered (bt_att_free ?c) \<subseteq># answer_balance ?c"
    by (simp_all add: bt_att_free_def rest pend destroy_balance_def answer_balance_def held_def empty ac_simps)
  then show "destroyed (bt_att_free ?c) = destroy_balance att" "answered (bt_att_free ?c) \<subseteq># answer_balance att"
    using cancel_all_accounts [OF assms] by (auto simp: accounts_def intro: subset_mset.order_trans)
qed

text \<open>C14.  Every PDU handed to the transport is accounted for: after any sequence of sends, writes, received PDUs, timeouts, cancels
  and disconnects, the operations that were accepted with a destroy function are exactly those still held together with
  those whose destroy function has been called, as multisets, so that each is released once.  A response callback is
  called at most once per accepted operation.  When the last reference is dropped all of them have been released.\<close>

theorem att_ops_once:
  assumes "bt_att_new ext l2cap m crypto = Some att0" "att_runs ks att0 = Some (ds, as, att)"
  shows "ds = sum_list (map to_destroy (held att)) + destroyed (att_log att)
    \<and> sum_list (map to_answer (held att)) + answered (att_log att) \<subseteq># as
    \<and> (att_ref_count att = 1 \<longrightarrow> (\<exists>l. bt_att_unref att = Inl l \<and> destroyed l = ds \<and> answered l \<subseteq># as))"
proof -
  have b: "att_ok att" "destroy_balance att = ds" "answer_balance att \<subseteq># as"
    using runs_account [OF new_ok(1) [OF assms(1)] assms(2)] new_ok(2,3) [OF assms(1)] by (simp_all add: destroy_balance_def answer_balance_def)
  have u: "att_ok (bt_att_unregister_all att)" "destroy_balance (bt_att_unregister_all att) = ds" "answer_balance (bt_att_unregister_all att) \<subseteq># as"
    using unregister_accounts [OF b(1)] b(2,3) by (auto simp: accounts_def intro: subset_mset.order_trans)
  have "destroyed (bt_att_free (bt_att_cancel_all (bt_att_unregister_all att))) = ds"
    "answered (bt_att_free (bt_att_cancel_all (bt_att_unregister_all att))) \<subseteq># as"
    using free_balance [OF u(1)] u(2,3) by (auto intro: subset_mset.order_trans)
  then show ?thesis
    using b(2,3) by (simp add: bt_att_unref_def destroy_balance_def answer_balance_def)
qed

definition quiet_env :: att_env where
  "quiet_env = \<lparr>env_send = 0, env_handler = True, env_timer = 9, env_level = 1, env_set_level = True,
     env_counter = (\<lambda>_ _ c. Some c), env_sign = (\<lambda>_ _ _. Some (replicate 12 0))\<rparr>"

definition exchange_calls :: "(att_env \<times> att_call) list" where
  "exchange_calls = [(quiet_env, Send BT_ATT_OP_MTU_REQ (Some [23, 0]) 2 (Some 1) 5 (Some 2)), (quiet_env, CanWrite),
     (quiet_env, CanRead (Some [BT_ATT_OP_MTU_RSP, 23, 0]))]"

theorem att_ops_once_witness:
  "\<exists>att0 att. bt_att_new True False None False = Some att0 \<and> att_runs exchange_calls att0 = Some ({#(2, 5)#}, {#(1, 5)#}, att)
     \<and> destroyed (att_log att) = {#(2, 5)#}"
proof -
  obtain att0 att where s: "bt_att_new True False None False = Some att0" "att_runs exchange_calls att0 = Some ({#(2, 5)#}, {#(1, 5)#}, att)" "held att = []"
    by (simp add: exchange_calls_def quiet_env_def bt_att_new_def bt_att_send_def create_att_send_op_def encode_pdu_def get_op_type_def
        att_opcode_type_table_def att_opcodes enqueue_op_def wakeup_writer_def can_write_data_def pick_next_send_op_def can_read_data_def
        handle_rsp_def get_req_opcode_def att_req_rsp_mapping_table_def att_emit_def held_def BT_ATT_DEFAULT_LE_MTU_def ATT_OP_SIGNED_MASK_def
        store8_def mem_write_def mem_read_def Let_def)
  then show ?thesis
    using att_ops_once [OF s(1,2)] by auto
qed

section \<open>One request at a time\<close>

text \<open>\<open>quiet\<close> events write nothing.  \<open>same_op\<close>: the same operation is pending, perhaps with its handlers removed.\<close>

definition quiet :: "att_event list \<Rightarrow> bool" where
  "quiet es \<longleftrightarrow> (\<forall>t p. Written t p \<notin> set es)"

definition logs :: "bt_att \<Rightarrow> bt_att \<Rightarrow> bool" where
  "logs att att' \<longleftrightarrow> (\<exists>es. att_log att' = att_log att @ es \<and> quiet es)"

fun same_op :: "att_send_op option \<Rightarrow> att_send_op option \<Rightarrow> bool" where
  "same_op (Some op) (Some op') \<longleftrightarrow> op_id op' = op_id op \<and> op_pdu op' = op_pdu op"
| "same_op None None \<longleftrightarrow> True"
| "same_op _ _ \<longleftrightarrow> False"

definition keeps :: "bt_att \<Rightarrow> bt_att \<Rightarrow> bool" where
  "keeps att att' \<longleftrightarrow> logs att att' \<and> same_op (pending_req att) (pending_req att') \<and> same_op (pending_ind att) (pending_ind att')"

lemma same_op_refl [simp]: "same_op x x"
  by (cases x) simp_all

lemma quiet_simps [simp]:
  "quiet []" "quiet (xs @ ys) \<longleftrightarrow> quiet xs \<and> quiet ys" "quiet (e # es) \<longleftrightarrow> (\<forall>t p. e \<noteq> Written t p) \<and> quiet es"
  "quiet (destroy_att_send_op op)" "quiet (response_event op c b)" "quiet (fst (cancel_att_send_op op))" "quiet (destroy_event x y)"
  "quiet (destroy_att_notify n)" "quiet (destroy_att_disconn d)" "quiet (disconn_handler err d)" "quiet (disc_att_send_op op)"
  by (auto simp: quiet_def destroy_att_send_op_def destroy_event_def response_event_def cancel_att_send_op_def destroy_att_notify_def
      destroy_att_disconn_def disconn_handler_def disc_att_send_op_def split: option.splits if_splits)

lemma quiet_concat [simp]: "\<forall>x\<in>set xs. quiet (f x) \<Longrightarrow> quiet (concat (map f xs))"
  by (induction xs) simp_all

lemma logs_refl [simp]: "logs att att"
  by (simp add: logs_def)

lemma logs_trans: "logs a b \<Longrightarrow> logs b c \<Longrightarrow> logs a c"
  unfolding logs_def by (metis append.assoc quiet_simps(2))

lemma emit_log [simp]: "att_log (att_emit es att) = att_log att @ es"
  by (simp add: att_emit_def)

lemma wakeup_fields [simp]:
  "att_log (wakeup_writer env att) = att_log att" "pending_req (wakeup_writer env att) = pending_req att" "pending_ind (wakeup_writer env att) = pending_ind att"
  by (simp_all add: wakeup_writer_def)

lemma enqueue_fields [simp]:
  "att_log (enqueue_op op att) = att_log att" "pending_req (enqueue_op op att) = pending_req att" "pending_ind (enqueue_op op att) = pending_ind att"
  by (simp_all add: enqueue_op_def split: att_op_type.splits)

lemma send_keeps: "bt_att_send env att opcode pdu len cb ud d = Some (i, att') \<Longrightarrow> keeps att att'"
  by (erule sendE) (simp_all add: keeps_def logs_def)

lemma notify_quiet [simp]: "quiet (notify_events att c p)"
  by (auto simp: notify_events_def split: option.splits intro!: quiet_concat)

lemma notify_keeps:
  assumes "att_handle_notify env att opcode pdu = Some att'"
  shows "keeps att att'"
proof -
  have deliver: "keeps att a"
    if "(if \<not> (\<exists>n\<in>set (att_notify_list att). opcode_match (an_opcode n) opcode) \<and> get_op_type opcode = ATT_OP_TYPE_REQ
        then respond_not_supported env (att_emit (notify_events att opcode q) att) opcode
        else Some (att_emit (notify_events att opcode q) att)) = Some a" for q a
  proof -
    have "keeps att (att_emit (notify_events att opcode q) att)"
      by (auto simp: keeps_def logs_def)
    then show ?thesis
      using that send_keeps [of env "att_emit (notify_events att opcode q) att"]
      by (auto simp: respond_not_supported_def keeps_def intro: logs_trans split: if_splits)
  qed
  have "keeps att att"
    by (simp add: keeps_def)
  then show ?thesis
    using assms deliver by (auto simp: att_handle_notify_def Let_def split: if_splits prod.splits bool.splits)
qed

lemma cancel_keeps: "keeps att (snd (bt_att_cancel env att i))"
proof -
  have c: "op_id (snd (cancel_att_send_op op)) = op_id op" "op_pdu (snd (cancel_att_send_op op)) = op_pdu op" for op
    by (simp_all add: cancel_att_send_op_def)
  show ?thesis
    by (auto simp: bt_att_cancel_def keeps_def logs_def c Let_def case_prod_beta split: option.splits)
qed

lemma cancel_all_keeps: "keeps att (bt_att_cancel_all att)"
proof -
  have "quiet (fst (cancel_pending p)) \<and> same_op p (snd (cancel_pending p))" for p
    by (cases p) (simp_all add: cancel_pending_def, simp add: cancel_att_send_op_def)
  then show ?thesis
    by (auto simp: bt_att_cancel_all_def keeps_def logs_def Let_def case_prod_beta)
qed

lemma set_keeps:
  "keeps att (snd (bt_att_register att opcode cb ud d))" "keeps att (snd (bt_att_unregister att i))"
  "keeps att (snd (bt_att_register_disconnect att cb ud d))" "keeps att (snd (bt_att_unregister_disconnect att i))"
  "keeps att (snd (bt_att_set_mtu att m))" "keeps att (bt_att_set_timeout_cb att cb ud d)" "keeps att (snd (bt_att_set_security env att l))"
  "keeps att (bt_att_set_local_key att key f ud)" "keeps att (bt_att_set_remote_key att key f ud)" "keeps att (write_watch_destroy att)"
  "keeps att (bt_att_unregister_all att)"
  by (auto simp: bt_att_register_def bt_att_unregister_def bt_att_register_disconnect_def bt_att_unregister_disconnect_def bt_att_set_mtu_def
      bt_att_set_timeout_cb_def bt_att_set_security_def bt_att_set_local_key_def bt_att_set_remote_key_def write_watch_destroy_def
      bt_att_unregister_all_def keeps_def logs_def Let_def split: option.splits)

lemma rsp_logs: "logs att (handle_rsp env att opcode pdu)" "same_op (pending_ind att) (pending_ind (handle_rsp env att opcode pdu))"
proof -
  have sec: "logs att att' \<and> pending_ind att' = pending_ind att" if "change_security env att e = (r, att')" for e r att'
    using that by (auto simp: change_security_def bt_att_set_security_def logs_def Let_def split: if_splits)
  have err: "logs att att' \<and> pending_ind att' = pending_ind att" if "handle_error_rsp env att op pdu = (r, c, att')" for op r c att'
    using that sec [of "uint (pdu ! 3)"] by (auto simp: handle_error_rsp_def logs_def split: if_splits prod.splits bool.splits)
  have fin: "logs att ((att_emit es att1)\<lparr>pending_req := None\<rparr>)" if "logs att att1" "quiet es" for att1 es
    using that by (auto simp: logs_def)
  show "logs att (handle_rsp env att opcode pdu)" "same_op (pending_ind att) (pending_ind (handle_rsp env att opcode pdu))"
    using err fin [of att] fin by (auto simp: handle_rsp_def Let_def logs_def split: option.splits prod.splits)
qed

lemma conf_logs: "logs att (handle_conf env att pdu)" "same_op (pending_req att) (pending_req (handle_conf env att pdu))"
  by (auto simp: handle_conf_def logs_def split: option.splits)

lemma timeout_logs:
  "logs att (timeout_cb i att)"
  "pending_req att \<noteq> None \<and> \<not> (pending_req att \<noteq> None \<and> op_id (the (pending_req att)) = i) \<longrightarrow> same_op (pending_req att) (pending_req (timeout_cb i att))"
  "pending_ind att \<noteq> None \<and> \<not> (pending_ind att \<noteq> None \<and> op_id (the (pending_ind att)) = i) \<longrightarrow> same_op (pending_ind att) (pending_ind (timeout_cb i att))"
  by (auto simp: timeout_cb_def logs_def Let_def split: option.splits)

lemma disconnect_logs: "logs att (disconnect_cb att err)"
  by (auto simp: disconnect_cb_def bt_att_unregister_all_def logs_def Let_def split: option.splits)

text \<open>A call of the transport obeys the sequential protocol for the PDUs of type \<open>t\<close>, where \<open>p\<close> is the pending operation of
  that type and \<open>ends\<close> says that the call ends its transaction.\<close>

definition in_turn :: "att_op_type \<Rightarrow> (bt_att \<Rightarrow> att_send_op option) \<Rightarrow> bool \<Rightarrow> bt_att \<Rightarrow> bt_att \<Rightarrow> att_event list \<Rightarrow> bool" where
  "in_turn t p ends att att' es \<longleftrightarrow>
     (\<forall>b. Written t b \<in> set es \<longrightarrow> p att = None \<and> (\<exists>op. p att' = Some op \<and> op_pdu op = b))
     \<and> (p att \<noteq> None \<and> \<not> ends \<longrightarrow> same_op (p att) (p att'))"

lemma write_in_turn:
  assumes "att_ok att"
  shows "\<exists>es. att_log (snd (can_write_data env att)) = att_log att @ es
    \<and> in_turn ATT_OP_TYPE_REQ pending_req e1 att (snd (can_write_data env att)) es
    \<and> in_turn ATT_OP_TYPE_IND pending_ind e2 att (snd (can_write_data env att)) es"
proof (cases "pick_next_send_op att")
  case (Pair r att1)
  have same: "pending_req att1 = pending_req att" "pending_ind att1 = pending_ind att" "att_log att1 = att_log att"
    using Pair by (auto simp: pick_next_send_op_def split: list.splits option.splits)
  have q: "Written t b \<notin> set (destroy_att_send_op op)" "Written t b \<notin> set (response_event op c x)" for t b op c x
    using quiet_simps(4,5) unfolding quiet_def by blast+
  show ?thesis
  proof (cases r)
    case None
    then show ?thesis
      using Pair same by (auto simp: can_write_data_def in_turn_def intro!: exI [of _ "[]"])
  next
    case (Some op)
    note free = pick_ok(2,3) [OF assms, of op att1]
    show ?thesis
    proof (cases "env_send env < 0")
      case True
      then show ?thesis
        using Pair Some same q by (auto simp: can_write_data_def in_turn_def)
    next
      case False
      then show ?thesis
        using Pair Some same q free by (cases "op_type op") (auto simp: can_write_data_def in_turn_def Let_def)
    qed
  qed
qed

lemma quiet_in_turn:
  assumes "quiet es" "p att \<noteq> None \<and> \<not> ends \<longrightarrow> same_op (p att) (p att')"
  shows "in_turn t p ends att att' es"
  using assms by (simp add: in_turn_def quiet_def)

fun ends_request :: "att_call \<Rightarrow> att_send_op option \<Rightarrow> bool" where
  "ends_request (CanRead (Some (c # b))) p \<longleftrightarrow> get_op_type c = ATT_OP_TYPE_RSP"
| "ends_request (Timeout i) p \<longleftrightarrow> p \<noteq> None \<and> op_id (the p) = i"
| "ends_request (Disconnect e) p \<longleftrightarrow> True"
| "ends_request _ p \<longleftrightarrow> False"

fun ends_indication :: "att_call \<Rightarrow> att_send_op option \<Rightarrow> bool" where
  "ends_indication (CanRead (Some (c # b))) p \<longleftrightarrow> get_op_type c = ATT_OP_TYPE_CONF"
| "ends_indication (Timeout i) p \<longleftrightarrow> p \<noteq> None \<and> op_id (the p) = i"
| "ends_indication (Disconnect e) p \<longleftrightarrow> True"
| "ends_indication _ p \<longleftrightarrow> False"

definition att_initial :: "bt_att \<Rightarrow> bool" where
  "att_initial att \<longleftrightarrow> (\<exists>ext l2cap m crypto. bt_att_new ext l2cap m crypto = Some att)"

definition att_step :: "att_env \<times> att_call \<Rightarrow> bt_att \<Rightarrow> bt_att option" where
  "att_step k att = att_run (fst k) (snd k) att"

interpretation att_system: invariant_system att_initial att_step att_ok
proof unfold_locales
  show "att_ok att" if "att_initial att" for att
    using that new_ok(1) by (auto simp: att_initial_def)
  show "att_ok att'" if "att_ok att" "att_step k att = Some att'" for att k att'
    using that run_accounts [of att "fst k" "snd k" att'] by (simp add: att_step_def)
qed

lemma read_in_turn:
  assumes "can_read_data env att b = Some (r, att')"
  shows "logs att att'" "pending_req att \<noteq> None \<and> \<not> ends_request (CanRead b) p \<longrightarrow> same_op (pending_req att) (pending_req att')"
    "pending_ind att \<noteq> None \<and> \<not> ends_indication (CanRead b) p \<longrightarrow> same_op (pending_ind att) (pending_ind att')"
proof -
  have req: "keeps att att1" if "att_handle_notify env (att\<lparr>in_req := True\<rparr>) c q = Some att1" for c q att1
    using notify_keeps [OF that] by (simp add: keeps_def logs_def)
  have shut: "keeps att (att_emit [IoShutdown] att)"
    by (auto simp: keeps_def logs_def)
  have all: "logs att att' \<and> (pending_req att \<noteq> None \<and> \<not> ends_request (CanRead b) p \<longrightarrow> same_op (pending_req att) (pending_req att'))
    \<and> (pending_ind att \<noteq> None \<and> \<not> ends_indication (CanRead b) p \<longrightarrow> same_op (pending_ind att) (pending_ind att'))"
  proof (cases b)
    case (Some cs)
    show ?thesis
    proof (cases cs)
      case (Cons c q)
      then show ?thesis
        using assms Some req shut rsp_logs [of att env c q] conf_logs [of att env q] notify_keeps [of env att c q]
        by (cases "get_op_type c") (auto simp: can_read_data_def keeps_def split: if_splits)
    qed (use assms Some in \<open>simp add: can_read_data_def\<close>)
  qed (use assms in \<open>simp add: can_read_data_def\<close>)
  then show "logs att att'" "pending_req att \<noteq> None \<and> \<not> ends_request (CanRead b) p \<longrightarrow> same_op (pending_req att) (pending_req att')"
    "pending_ind att \<noteq> None \<and> \<not> ends_indication (CanRead b) p \<longrightarrow> same_op (pending_ind att) (pending_ind att')"
    by blast+
qed

text \<open>C16.  The transport follows the sequential protocol: in every reachable state a call writes a request to the link only when no
  other request is pending, and that request is pending afterwards; a pending request stays pending until a response
  arrives, its timer fires or the link is gone, whatever is sent, cancelled or received meanwhile.  The same holds for
  indications and confirmations.\<close>

theorem att_sequential:
  assumes "reach att_initial att_step att" "att_run env k att = Some att'"
  shows "\<exists>es. att_log att' = att_log att @ es
    \<and> in_turn ATT_OP_TYPE_REQ pending_req (ends_request k (pending_req att)) att att' es
    \<and> in_turn ATT_OP_TYPE_IND pending_ind (ends_indication k (pending_ind att)) att att' es"
proof -
  have ok: "att_ok att"
    using assms(1) by (rule att_system.reach_inv)
  have logged: ?thesis if "logs att att'"
      "pending_req att \<noteq> None \<and> \<not> ends_request k (pending_req att) \<longrightarrow> same_op (pending_req att) (pending_req att')"
      "pending_ind att \<noteq> None \<and> \<not> ends_indication k (pending_ind att) \<longrightarrow> same_op (pending_ind att) (pending_ind att')"
    using that by (auto simp: logs_def intro!: quiet_in_turn)
  have kept: ?thesis if "keeps att att'"
    using that logged by (simp add: keeps_def)
  show ?thesis
  proof (cases k)
    case CanWrite
    then show ?thesis
      using write_in_turn [OF ok] assms(2) by auto
  next
    case (CanRead b)
    then obtain r where "can_read_data env att b = Some (r, att')"
      using assms(2) by auto
    then show ?thesis
      using logged read_in_turn [of env att b r att'] CanRead by blast
  next
    case (Timeout i)
    then show ?thesis
      using logged timeout_logs [of att i] assms(2) by simp
  next
    case (Disconnect e)
    then show ?thesis
      using logged disconnect_logs assms(2) by auto
  next
    case (SendError opcode h err)
    have "keeps att att"
      by (simp add: keeps_def)
    then show ?thesis
      using kept assms(2) SendError send_keeps by (auto simp: bt_att_send_error_rsp_def split: if_splits)
  qed (use kept assms(2) send_keeps cancel_keeps cancel_all_keeps set_keeps in auto)
qed

theorem att_sequential_witness:
  "\<exists>att att' es op. reach att_initial att_step att \<and> att_run quiet_env CanWrite att = Some att' \<and> pending_req att = None
     \<and> att_log att' = att_log att @ es \<and> Written ATT_OP_TYPE_REQ [BT_ATT_OP_MTU_REQ, 23, 0] \<in> set es
     \<and> pending_req att' = Some op \<and> op_pdu op = [BT_ATT_OP_MTU_REQ, 23, 0]"
proof -
  obtain att0 att att' where s: "bt_att_new True False None False = Some att0"
      "att_step (quiet_env, Send BT_ATT_OP_MTU_REQ (Some [23, 0]) 2 (Some 1) 5 (Some 2)) att0 = Some att"
      "att_run quiet_env CanWrite att = Some att'" "att_log att = []" "att_log att' = [Written ATT_OP_TYPE_REQ [BT_ATT_OP_MTU_REQ, 23, 0]]"
    by (simp add: att_step_def quiet_env_def bt_att_new_def bt_att_send_def create_att_send_op_def encode_pdu_def get_op_type_def
        att_opcode_type_table_def att_opcodes enqueue_op_def wakeup_writer_def can_write_data_def pick_next_send_op_def
        att_emit_def BT_ATT_DEFAULT_LE_MTU_def ATT_OP_SIGNED_MASK_def store8_def mem_write_def mem_read_def Let_def)
  have r: "reach att_initial att_step att"
    using s(1,2) by (meson att_initial_def reach.intros)
  show ?thesis
    using att_sequential [OF r s(3)] s(3,4,5) r by (auto simp: in_turn_def)
qed

section \<open>Signatures\<close>

text \<open>C22.  Signatures of received commands are never verified.  With a crypto object a signed PDU is delivered to the handlers as it
  is, signature included, whatever the signature function says.  Without one every signed PDU is dropped.\<close>

theorem signed_never_verified:
  assumes "opcode AND ATT_OP_SIGNED_MASK \<noteq> 0" "get_op_type opcode \<noteq> ATT_OP_TYPE_REQ"
  shows "att_handle_notify env att opcode pdu = Some (if att_crypto att then att_emit (notify_events att opcode pdu) att else att)"
proof -
  have "\<not> att_crypto att \<Longrightarrow> \<not> fst (handle_signed env att pdu)"
    by (auto simp: handle_signed_def Let_def split: option.splits)
  then show ?thesis
    using assms by (cases "handle_signed env att pdu") (auto simp: att_handle_notify_def Let_def)
qed

theorem signed_never_verified_witness:
  "\<exists>att. bt_att_new False False None True = Some att
     \<and> att_handle_notify (quiet_env\<lparr>env_sign := \<lambda>_ _ _. None\<rparr>) (snd (bt_att_register att BT_ATT_OP_SIGNED_WRITE_CMD (Some 1) 2 None))
         BT_ATT_OP_SIGNED_WRITE_CMD [1, 0, 7]
       = Some (att_emit [NotifyCallback 1 2 BT_ATT_OP_SIGNED_WRITE_CMD [1, 0, 7]] (snd (bt_att_register att BT_ATT_OP_SIGNED_WRITE_CMD (Some 1) 2 None)))"
  using signed_never_verified [of BT_ATT_OP_SIGNED_WRITE_CMD "quiet_env\<lparr>env_sign := \<lambda>_ _ _. None\<rparr>"
      "snd (bt_att_register (the (bt_att_new False False None True)) BT_ATT_OP_SIGNED_WRITE_CMD (Some 1) 2 None)" "[1, 0, 7]"]
  by (simp add: get_op_type_def att_opcode_type_table_def att_opcodes ATT_OP_SIGNED_MASK_def bt_att_new_def bt_att_register_def
      notify_events_def opcode_match_def Let_def)

text \<open>The length of a PDU is computed in 16 bits: parameters of 65535 bytes give a buffer of no bytes, into which the opcode
  is written.\<close>

lemma encode_pdu_overflow: "local_sign att = None \<Longrightarrow> encode_pdu env att opcode (Some pdu) 0xFFFF = None"
proof -
  have w: "(1 + 0xFFFF :: u16) = 0"
    by code_simp
  have "(1 + 0 + (if (0xFFFF :: u16) \<noteq> 0 \<and> Some pdu \<noteq> None then 0xFFFF else 0) :: u16) = 0"
    using w by simp
  then show "local_sign att = None \<Longrightarrow> encode_pdu env att opcode (Some pdu) 0xFFFF = None"
    by (simp only: encode_pdu_def Let_def not_True_eq_False simp_thms if_True if_False) (simp add: store8_def mem_write_def)
qed

text \<open>Otherwise an unsigned PDU is the opcode with its parameters, if the MTU allows it.\<close>

lemma encode_pdu_plain:
  assumes "local_sign att = None \<or> opcode AND ATT_OP_SIGNED_MASK = 0" "length pdu < 0xFFFF"
  shows "encode_pdu env att opcode (Some pdu) (of_nat (length pdu)) = Some (if length pdu < unat (att_mtu att) then Some (opcode # pdu) else None)"
proof -
  define len :: u16 where "len = of_nat (length pdu)"
  have n: "unat len = length pdu"
    unfolding len_def using assms(2) by (simp only: unat_of_nat) simp
  have "1 + len = of_nat (Suc (length pdu))"
    by (simp add: len_def)
  then have n1: "unat (1 + len) = Suc (length pdu)"
    using assms(2) by (simp only: unat_of_nat) simp
  have nz: "len = 0 \<longleftrightarrow> pdu = []"
    using n by (auto simp: unat_eq_zero [symmetric])
  have lt: "att_mtu att < 1 + len \<longleftrightarrow> \<not> length pdu < unat (att_mtu att)" "1 < 1 + len \<longleftrightarrow> pdu \<noteq> []"
    unfolding word_less_nat_alt n1 by auto
  have total: "1 + (if local_sign att \<noteq> None \<and> opcode AND ATT_OP_SIGNED_MASK \<noteq> 0 then of_nat BT_ATT_SIGNATURE_LEN else 0)
      + (if len \<noteq> 0 \<and> Some pdu \<noteq> None then len else 0) = 1 + len"
    using assms(1) by auto
  have mem: "mem_read pdu 0 (length pdu) = Some pdu" "mem_write (opcode # replicate (length pdu) 0) 1 pdu = Some (opcode # pdu)"
    "store8 (replicate (Suc (length pdu)) 0) 0 opcode = Some (opcode # replicate (length pdu) 0)"
    by (simp_all add: mem_read_def mem_write_def store8_def)
  have "encode_pdu env att opcode (Some pdu) len = Some (if length pdu < unat (att_mtu att) then Some (opcode # pdu) else None)"
    unfolding encode_pdu_def Let_def total unfolding lt n n1 mem unfolding nz using assms(1) mem
    by (cases "pdu = []"; cases "local_sign att") auto
  then show ?thesis
    by (simp add: len_def)
qed

end
