(* ===== verification/Gatt_Server_Inv.thy ===== *)
theory Gatt_Server_Inv
  imports Gatt_Server Gatt_Db_Props Bt_Att_Props
begin

text \<open>
  Every request gets one answer.  The server changes the values of attributes and their pending requests but not the structure
  of the database, which \<open>erase\<close> keeps: lookups and queries only depend on it.  For each handler the theory shows that it is
  defined and either queues one PDU that fits and answers the request, or asks the application.
\<close>

section \<open>The structure of the database\<close>

definition erase_attr :: "gatt_db_attribute \<Rightarrow> gatt_db_attribute" where
  "erase_attr a = a\<lparr>a_value := None, a_value_len := 0, a_read_id := 0, a_pending_reads := [], a_write_id := 0, a_pending_writes := []\<rparr>"

definition erase_svc :: "gatt_db_service \<Rightarrow> gatt_db_service" where
  "erase_svc s = s\<lparr>s_attributes := map (map_option erase_attr) (s_attributes s)\<rparr>"

definition erase :: "gatt_db \<Rightarrow> gatt_db" where
  "erase d = d\<lparr>services := map (map_prod id erase_svc) (services d), db_log := []\<rparr>"

lemma erase_attr_simps [simp]:
  "a_handle (erase_attr a) = a_handle a" "a_uuid (erase_attr a) = a_uuid a" "a_permissions (erase_attr a) = a_permissions a"
  "a_read_func (erase_attr a) = a_read_func a" "a_write_func (erase_attr a) = a_write_func a"
  by (simp_all add: erase_attr_def)

lemma erase_svc_simps [simp]:
  "s_active (erase_svc s) = s_active s" "s_num_handles (erase_svc s) = s_num_handles s"
  "s_attributes (erase_svc s) = map (map_option erase_attr) (s_attributes s)"
  by (simp_all add: erase_svc_def)

lemma erase_simps [simp]:
  "services (erase d) = map (map_prod id erase_svc) (services d)" "erase (emit es d) = erase d"
  by (simp_all add: erase_def emit_def)

lemma db_emit_simps [simp]:
  "db_log (emit es d) = db_log d @ es" "attribute_at (emit es d) x = attribute_at d x" "service_at (emit es d) p = service_at d p"
  by (simp_all add: emit_def attribute_at_def service_at_def)

lemma attr_of_erase: "attr_of (erase_svc s) i = map_option erase_attr (attr_of s i)"
  by (simp add: attr_of_def array_at_def)

lemma get_handles_erase [simp]: "gatt_db_service_get_handles (erase_svc s) = gatt_db_service_get_handles s"
  by (simp add: gatt_db_service_get_handles_def attr_of_erase map_option_bind option.map_comp comp_def bind_eq_None_conv split: Option.bind_splits)

lemma service_at_erase: "service_at (erase d) p = map_option erase_svc (service_at d p)"
proof -
  have "map_of (map (map_prod id f) xs) p = map_option f (map_of xs p)" for f :: "gatt_db_service \<Rightarrow> gatt_db_service" and xs
    by (induction xs) auto
  then show ?thesis
    by (simp add: service_at_def)
qed

lemma attribute_at_erase: "attribute_at (erase d) x = map_option erase_attr (attribute_at d x)"
  by (cases "service_at d (fst x)") (simp_all add: attribute_at_def service_at_erase attr_of_erase)

lemma queue_find_in_map: "queue_find_in f (map g xs) = queue_find_in (f \<circ> g) xs"
  by (induction xs) (simp_all cong: if_cong)

lemma find_index_map: "find_index f (map g xs) = find_index (f \<circ> g) xs"
  by (induction xs) simp_all

lemma get_attribute_erase: "gatt_db_get_attribute (Some (erase d)) h = gatt_db_get_attribute (Some d) h"
proof -
  have "find_service_for_handle h \<circ> map_prod id erase_svc = find_service_for_handle h"
    by (auto simp: find_service_for_handle_def fun_eq_iff)
  moreover have e: "case_option False (\<lambda>a. a_handle a = h) \<circ> map_option erase_attr = case_option False (\<lambda>a. a_handle a = h)"
    by (auto simp: fun_eq_iff split: option.splits)
  moreover have "services (erase d) ! k = map_prod id erase_svc (services d ! k)" if "queue_find_in (find_service_for_handle h) (services d) = Some (Some k)" for k
  proof -
    have "k < length xs" if "queue_find_in f xs = Some (Some k)" for f :: "nat \<times> gatt_db_service \<Rightarrow> bool option" and xs k
      using that by (induction xs arbitrary: k) (auto split: Option.bind_splits if_splits)
    then show ?thesis
      using that by simp
  qed
  ultimately show ?thesis
    by (auto simp: gatt_db_get_attribute_def queue_find_in_map take_map find_index_map case_prod_beta Let_def e intro!: Option.bind_cong option.case_cong)
qed

lemma loops_erase:
  "find_information_loop p i (map (map_option erase_attr) as) lo hi = find_information_loop p i as lo hi"
  "read_by_type_loop p i (map (map_option erase_attr) as) lo hi u = read_by_type_loop p i as lo hi u"
proof -
  show "find_information_loop p i (map (map_option erase_attr) as) lo hi = find_information_loop p i as lo hi"
    by (induction p i as lo hi rule: find_information_loop.induct) simp_all
  show "read_by_type_loop p i (map (map_option erase_attr) as) lo hi u = read_by_type_loop p i as lo hi u"
    by (induction p i as lo hi u rule: read_by_type_loop.induct) (auto intro!: Option.bind_cong)
qed

lemma queries_erase:
  "gatt_db_find_information (erase d) lo hi q = gatt_db_find_information d lo hi q"
  "gatt_db_read_by_type (erase d) lo hi u q = gatt_db_read_by_type d lo hi u q"
proof -
  have "find_information (map_prod id erase_svc x) lo hi = find_information x lo hi" for x
    by (cases "attr_of (snd x) 0") (simp_all add: find_information_def attr_of_erase take_map loops_erase)
  moreover have "read_by_type (map_prod id erase_svc x) lo hi u = read_by_type x lo hi u" for x
    by (simp add: read_by_type_def take_map loops_erase)
  ultimately show "gatt_db_find_information (erase d) lo hi q = gatt_db_find_information d lo hi q"
    "gatt_db_read_by_type (erase d) lo hi u q = gatt_db_read_by_type d lo hi u q"
    by (simp_all add: gatt_db_find_information_def gatt_db_read_by_type_def collect_def comp_def)
qed

text \<open>A value is at least as long as it is stated to be.  The length can be smaller than the buffer because it is cut to 16 bits.\<close>

definition val_ok :: "gatt_db_attribute \<Rightarrow> bool" where
  "val_ok a \<longleftrightarrow> unat (a_value_len a) \<le> length (value_bytes a)"

definition vals_ok :: "gatt_db \<Rightarrow> bool" where
  "vals_ok d \<longleftrightarrow> (\<forall>x a. attribute_at d x = Some a \<longrightarrow> val_ok a)"

text \<open>The database has the structure of \<open>d0\<close>, which satisfies the invariant of databases.\<close>

definition shaped :: "gatt_db \<Rightarrow> gatt_db \<Rightarrow> bool" where
  "shaped d0 d \<longleftrightarrow> db_ok d0 \<and> erase d = erase d0 \<and> vals_ok d"

lemma shaped_emit [simp]: "shaped d0 (emit es d) = shaped d0 d"
  by (simp add: shaped_def vals_ok_def attribute_at_def service_at_def emit_def erase_def)

lemma shaped_lookup:
  assumes "shaped d0 d"
  shows "map_option erase_attr (attribute_at d x) = map_option erase_attr (attribute_at d0 x)"
    "map_option erase_svc (service_at d p) = map_option erase_svc (service_at d0 p)"
  using assms attribute_at_erase [of d] attribute_at_erase [of d0] service_at_erase [of d] service_at_erase [of d0] by (simp_all add: shaped_def)

lemma shaped_attr:
  assumes "shaped d0 d" "attribute_at d x = Some a"
  shows "val_ok a" "uuid_ok (a_uuid a)" "a_handle a \<noteq> 0" "\<exists>s. service_at d (fst x) = Some s"
proof -
  show "val_ok a"
    using assms unfolding shaped_def vals_ok_def by blast
  obtain b where b: "attribute_at d0 x = Some b" "erase_attr b = erase_attr a"
    using shaped_lookup(1) [OF assms(1), of x] assms(2) by (cases "attribute_at d0 x") auto
  have e: "a_uuid a = a_uuid b" "a_handle a = a_handle b"
    using arg_cong [OF b(2), of a_uuid] arg_cong [OF b(2), of a_handle] by simp_all
  have ok: "db_ok d0"
    using assms(1) by (simp add: shaped_def)
  show "a_handle a \<noteq> 0"
    using attribute_service [OF ok b(1)] e(2) by (metis less_numeral_extra(3) unat_0)
  obtain s as where s: "dense s as" "snd x < length as" "b = as ! snd x"
    using attribute_atE [OF ok b(1)] by metis
  then have "attr_ok b"
    by (auto simp: dense_def)
  then show "uuid_ok (a_uuid a)"
    using e(1) by (simp add: attr_ok_def)
  show "\<exists>s. service_at d (fst x) = Some s"
    using assms(2) by (cases "service_at d (fst x)") (simp_all add: attribute_at_def)
qed

lemma shaped_found:
  assumes "shaped d0 d"
  shows "\<exists>r. gatt_db_get_attribute (Some d) h = Some r \<and> (\<forall>x. r = Some x \<longrightarrow> (\<exists>a. attribute_at d x = Some a \<and> a_handle a = h))
    \<and> (r = None \<longrightarrow> (\<forall>x a. attribute_at d x = Some a \<longrightarrow> a_handle a \<noteq> h))"
proof -
  have ok: "db_ok d0" "gatt_db_get_attribute (Some d) h = gatt_db_get_attribute (Some d0) h"
    using assms get_attribute_erase [of d h] get_attribute_erase [of d0 h] by (simp_all add: shaped_def)
  have h: "(\<exists>a. attribute_at d x = Some a \<and> a_handle a = h) \<longleftrightarrow> (\<exists>a. attribute_at d0 x = Some a \<and> a_handle a = h)" for x
    using shaped_lookup(1) [OF assms, of x] by (cases "attribute_at d x"; cases "attribute_at d0 x") (auto dest: arg_cong [of _ _ a_handle])
  show ?thesis
    using get_attribute_found [OF ok(1), of h] h unfolding ok(2) by metis
qed

lemma set_attribute_at:
  assumes "attribute_at d x = Some a" "set_attribute d x b = Some d'"
  shows "attribute_at d' y = (if y = x then Some b else attribute_at d y)"
proof -
  obtain s where s: "service_at d (fst x) = Some s" "d' = set_service d (fst x) (set_entry s (snd x) (Some b))"
    using assms(2) by (auto simp: set_attribute_def split: Option.bind_splits)
  have i: "snd x < length (s_attributes s)"
    using assms(1) s(1) by (auto simp: attribute_at_def attr_of_def array_at_def split: if_splits Option.bind_splits)
  show ?thesis
    using s(1) i service_at_set [OF s(1), of "set_entry s (snd x) (Some b)" "fst y"]
    by (cases x; cases y) (auto simp: s(2) attribute_at_def attr_of_def array_at_def set_entry_def)
qed

lemma set_attribute_shaped:
  assumes "shaped d0 d" "attribute_at d x = Some a" "erase_attr b = erase_attr a" "val_ok b"
  shows "\<exists>d'. set_attribute d x b = Some d' \<and> shaped d0 d' \<and> db_log d' = db_log d
    \<and> (\<forall>y. attribute_at d' y = (if y = x then Some b else attribute_at d y))"
proof -
  obtain s where s: "service_at d (fst x) = Some s"
    using shaped_attr(4) [OF assms(1,2)] by blast
  let ?s = "set_entry s (snd x) (Some b)"
  have set: "set_attribute d x b = Some (set_service d (fst x) ?s)"
    by (simp add: set_attribute_def s)
  have i: "snd x < length (s_attributes s)" "s_attributes s ! snd x = Some a"
    using assms(2) s by (auto simp: attribute_at_def attr_of_def array_at_def split: if_splits Option.bind_splits)
  have "(map (map_option erase_attr) (s_attributes s))[snd x := Some (erase_attr b)] = map (map_option erase_attr) (s_attributes s)"
    using i assms(3) by (intro nth_equalityI) (auto simp: nth_list_update)
  then have e: "erase_svc ?s = erase_svc s"
    by (simp add: erase_svc_def set_entry_def map_update)
  have "map fst (services d) = map fst (services d0)"
  proof -
    have "map fst (services (erase d)) = map fst (services (erase d0))"
      using assms(1) by (simp only: shaped_def)
    then show ?thesis
      by (simp add: comp_def)
  qed
  then have dist: "distinct (map fst (services d))"
    using assms(1) by (simp add: shaped_def db_ok_def)
  have "map_prod id erase_svc (case y of (q, t) \<Rightarrow> (q, if q = fst x then ?s else t)) = map_prod id erase_svc y" if "y \<in> set (services d)" for y
  proof (cases "fst y = fst x")
    case True
    then have "service_at d (fst x) = Some (snd y)"
      using that service_at_mem [OF dist, of "fst x" "snd y"] by (metis prod.collapse)
    then show ?thesis
      using s e True by (cases y) simp
  qed (simp add: case_prod_beta map_prod_def)
  then have "erase (set_service d (fst x) ?s) = erase d"
    by (simp add: erase_def set_service_def)
  moreover have "vals_ok (set_service d (fst x) ?s)"
    using assms(1,4) set_attribute_at [OF assms(2) set] by (simp add: shaped_def vals_ok_def)
  ultimately show ?thesis
    using assms(1) set set_attribute_at [OF assms(2) set] by (auto simp: shaped_def set_service_def)
qed

section \<open>Reading and writing attributes\<close>

text \<open>The application is asked: its read or write function is called.\<close>

fun is_call :: "db_event \<Rightarrow> bool" where
  "is_call (ReadCalled f i off opc) = True"
| "is_call (WriteCalled f i off bs opc) = True"
| "is_call _ = False"

definition stored_result :: "gatt_db_attribute \<Rightarrow> u16 \<Rightarrow> int \<times> bytes option \<times> nat" where
  "stored_result a off =
     (if unat (a_value_len a) < unat off then (BT_ATT_ERROR_INVALID_OFFSET, None, 0)
      else if unat off = unat (a_value_len a) then (0, None, 0)
      else (0, Some (take (unat (a_value_len a) - unat off) (drop (unat off) (value_bytes a))), unat (a_value_len a) - unat off))"

lemma read_stored:
  assumes "val_ok a" "a_read_func a = None"
  shows "gatt_db_attribute_read (Some a) off opc (Some fn) ud tid
    = Some (True, Some a, [case stored_result a off of (e, v, n) \<Rightarrow> ReadDone fn e v n])"
proof (cases "unat (a_value_len a) \<le> unat off")
  case True
  then show ?thesis
    using assms(2) by (auto simp: gatt_db_attribute_read_def stored_result_def word_less_nat_alt word_unat_eq_iff)
next
  case False
  then obtain v where "a_value a = Some v" "value_bytes a = v"
    using assms(1) by (cases "a_value a") (auto simp: val_ok_def value_bytes_def)
  then show ?thesis
    using assms False by (auto simp: gatt_db_attribute_read_def stored_result_def val_ok_def word_less_nat_alt word_unat_eq_iff mem_read_def)
qed

lemma stored_result_len: "val_ok a \<Longrightarrow> stored_result a off = (e, v, n) \<Longrightarrow> n \<noteq> 0 \<Longrightarrow> e = 0 \<and> (\<exists>w. v = Some w \<and> length w = n)"
  by (auto simp: stored_result_def val_ok_def split: if_splits)

text \<open>A read either gives the stored value at once and changes nothing but the log, or asks the application.\<close>

lemma read_attribute_cases:
  assumes "shaped d0 d" "attribute_at d x = Some a"
  shows "\<exists>d'. shaped d0 d' \<and> (\<forall>y. map_option erase_attr (attribute_at d' y) = map_option erase_attr (attribute_at d y)) \<and>
    (if a_read_func a = None
     then read_attribute env d x off opc fn ud = Some (True, Some (stored_result a off), d') \<and> (\<exists>e. db_log d' = db_log d @ [e])
       \<and> (\<forall>y. attribute_at d' y = attribute_at d y)
     else read_attribute env d x off opc fn ud = Some (True, None, d') \<and> db_log d' = db_log d @ [ReadCalled (the (a_read_func a)) (a_read_id a + 1) off opc]
       \<and> attribute_at d' x = Some (a\<lparr>a_read_id := a_read_id a + 1, a_pending_reads := a_pending_reads a
            @ [\<lparr>pd_id = a_read_id a + 1, pd_timeout_id = e_tid env, pd_func = fn, pd_user_data = ud\<rparr>]\<rparr>))"
proof (cases "a_read_func a")
  case None
  obtain e v n where r: "stored_result a off = (e, v, n)"
    by (cases "stored_result a off")
  obtain d' where d': "set_attribute d x a = Some d'" "shaped d0 d'" "db_log d' = db_log d" "\<forall>y. attribute_at d' y = (if y = x then Some a else attribute_at d y)"
    using set_attribute_shaped [OF assms refl shaped_attr(1) [OF assms]] by blast
  have "read_attribute env d x off opc fn ud = Some (True, Some (stored_result a off), emit [ReadDone fn e v n] d')"
    using read_stored [OF shaped_attr(1) [OF assms] None] r assms(2) d'(1) by (simp add: read_attribute_def called_at_once_def)
  moreover have "attribute_at (emit [ReadDone fn e v n] d') y = attribute_at d y" for y
    using d'(4) [rule_format, of y] assms(2) by simp
  ultimately show ?thesis
    using d'(2,3) None by (intro exI [of _ "emit [ReadDone fn e v n] d'"]) simp
next
  case (Some f)
  let ?b = "a\<lparr>a_read_id := a_read_id a + 1, a_pending_reads := a_pending_reads a @ [\<lparr>pd_id = a_read_id a + 1, pd_timeout_id = e_tid env, pd_func = fn, pd_user_data = ud\<rparr>]\<rparr>"
  let ?e = "[ReadCalled f (a_read_id a + 1) off opc]"
  have b: "erase_attr ?b = erase_attr a" "val_ok ?b"
    using shaped_attr(1) [OF assms] by (simp_all add: erase_attr_def val_ok_def value_bytes_def)
  obtain d' where d': "set_attribute d x ?b = Some d'" "shaped d0 d'" "db_log d' = db_log d" "\<forall>y. attribute_at d' y = (if y = x then Some ?b else attribute_at d y)"
    using set_attribute_shaped [OF assms b] by blast
  have "read_attribute env d x off opc fn ud = Some (True, None, emit ?e d')"
    using Some assms(2) d'(1) by (simp add: read_attribute_def gatt_db_attribute_read_def called_at_once_def Let_def)
  moreover have at: "attribute_at (emit ?e d') y = (if y = x then Some ?b else attribute_at d y)" for y
    using d'(4) [rule_format, of y] by simp
  ultimately show ?thesis
    using d'(2,3) Some assms(2) b(1) by (intro exI [of _ "emit ?e d'"]) simp
qed

lemma write_stored_total:
  assumes "val_ok a"
  shows "\<exists>b. write_stored a off bs junk = Some b \<and> val_ok b \<and> erase_attr b = erase_attr a"
proof (cases "bs = []")
  case True
  then show ?thesis
    using assms by (simp add: write_stored_def)
next
  case bs: False
  let ?o = "unat off" and ?n = "length bs"
  let ?grow = "a_value a = None \<or> a_value_len a \<le> off \<or> unat (a_value_len a) - ?o < ?n"
  show ?thesis
  proof (cases ?grow)
    case True
    have lb: "length (grow_value a ?o (?n + ?o) junk) = ?n + ?o"
      by (auto simp: grow_value_def Let_def)
    have "unat (of_nat (?n + ?o) :: u16) \<le> ?n + ?o"
      by (simp only: unat_of_nat) simp
    then show ?thesis
      using True bs lb by (auto simp: write_stored_def Let_def mem_write_def val_ok_def value_bytes_def erase_attr_def simp del: of_nat_add)
  next
    case False
    then obtain v where v: "a_value a = Some v" "?o + ?n \<le> length v" "unat (a_value_len a) \<le> length v"
      using assms by (auto simp: val_ok_def value_bytes_def word_le_nat_alt)
    show ?thesis
      using False bs v by (auto simp: write_stored_def Let_def mem_write_def val_ok_def value_bytes_def erase_attr_def)
  qed
qed

lemma write_attribute_cases:
  assumes "shaped d0 d" "attribute_at d x = Some a"
  shows "\<exists>d'. shaped d0 d' \<and> (\<forall>y. map_option erase_attr (attribute_at d' y) = map_option erase_attr (attribute_at d y)) \<and>
    (if a_write_func a = None
     then \<exists>b. write_stored a off bs (e_junk env) = Some b \<and> write_attribute env d x off bs opc fn ud = Some (True, Some (0, None, 0), d')
       \<and> (\<exists>e. db_log d' = db_log d @ [e]) \<and> (\<forall>y. attribute_at d' y = (if y = x then Some b else attribute_at d y))
     else write_attribute env d x off bs opc fn ud = Some (True, None, d')
       \<and> db_log d' = db_log d @ [WriteCalled (the (a_write_func a)) (a_write_id a + 1) off bs opc]
       \<and> attribute_at d' x = Some (a\<lparr>a_write_id := a_write_id a + 1, a_pending_writes := a_pending_writes a
            @ [\<lparr>pd_id = a_write_id a + 1, pd_timeout_id = e_tid env, pd_func = fn, pd_user_data = ud\<rparr>]\<rparr>))"
proof (cases "a_write_func a")
  case None
  obtain b where b: "write_stored a off bs (e_junk env) = Some b" "val_ok b" "erase_attr b = erase_attr a"
    using write_stored_total [OF shaped_attr(1) [OF assms]] by blast
  obtain d' where d': "set_attribute d x b = Some d'" "shaped d0 d'" "db_log d' = db_log d" "\<forall>y. attribute_at d' y = (if y = x then Some b else attribute_at d y)"
    using set_attribute_shaped [OF assms b(3,2)] by blast
  have "write_attribute env d x off bs opc fn ud = Some (True, Some (0, None, 0), emit [WriteDone fn 0] d')"
    using None b(1) assms(2) d'(1) by (simp add: write_attribute_def gatt_db_attribute_write_def called_at_once_def)
  moreover have "attribute_at (emit [WriteDone fn 0] d') y = (if y = x then Some b else attribute_at d y)" for y
    using d'(4) [rule_format, of y] by simp
  ultimately show ?thesis
    using d'(2,3) None b(1,3) assms(2) by (intro exI [of _ "emit [WriteDone fn 0] d'"]) simp
next
  case (Some f)
  let ?b = "a\<lparr>a_write_id := a_write_id a + 1, a_pending_writes := a_pending_writes a @ [\<lparr>pd_id = a_write_id a + 1, pd_timeout_id = e_tid env, pd_func = fn, pd_user_data = ud\<rparr>]\<rparr>"
  let ?e = "[WriteCalled f (a_write_id a + 1) off bs opc]"
  have b: "erase_attr ?b = erase_attr a" "val_ok ?b"
    using shaped_attr(1) [OF assms] by (simp_all add: erase_attr_def val_ok_def value_bytes_def)
  obtain d' where d': "set_attribute d x ?b = Some d'" "shaped d0 d'" "db_log d' = db_log d" "\<forall>y. attribute_at d' y = (if y = x then Some ?b else attribute_at d y)"
    using set_attribute_shaped [OF assms b] by blast
  have "write_attribute env d x off bs opc fn ud = Some (True, None, emit ?e d')"
    using Some assms(2) d'(1) by (simp add: write_attribute_def gatt_db_attribute_write_def called_at_once_def Let_def)
  moreover have at: "attribute_at (emit ?e d') y = (if y = x then Some ?b else attribute_at d y)" for y
    using d'(4) [rule_format, of y] by simp
  ultimately show ?thesis
    using d'(2,3) Some assms(2) b(1) by (intro exI [of _ "emit ?e d'"]) simp
qed

section \<open>Sending\<close>

text \<open>The PDU \<open>p\<close> is queued as a response, and nothing else of the transport changes but the counter and the write handler.\<close>

definition replied :: "bt_att \<Rightarrow> bt_att \<Rightarrow> bytes \<Rightarrow> bool" where
  "replied att att' p \<longleftrightarrow> (\<exists>op i w. op_type op = ATT_OP_TYPE_RSP \<and> op_pdu op = p \<and> op_destroy op = None
     \<and> att' = att\<lparr>write_queue := write_queue att @ [op], next_send_id := i, writer_active := w\<rparr>)"

lemma u16_bound: "unat (x :: u16) < 65536"
  by (rule order.strict_trans2 [OF unsigned_less]) simp

lemma encode_pdu_take:
  assumes "local_sign att = None \<or> opcode AND ATT_OP_SIGNED_MASK = 0" "unat len < unat (att_mtu att)" "unat len \<le> length pdu"
  shows "encode_pdu env att opcode (Some pdu) len = Some (Some (opcode # take (unat len) pdu))"
proof -
  have le: "unat len < 0xFFFF"
    using assms(2) u16_bound [of "att_mtu att"] by linarith
  then have "encode_pdu env att opcode (Some (take (unat len) pdu)) len = Some (Some (opcode # take (unat len) pdu))"
  proof -
    have "length (take (unat len) pdu) = unat len"
      using assms(3) by simp
    then show ?thesis
      using le encode_pdu_plain [OF assms(1), of "take (unat len) pdu" env] assms(2) by simp
  qed
  moreover have "mem_read (take (unat len) pdu) 0 (unat len) = mem_read pdu 0 (unat len)"
    using assms(3) by (simp add: mem_read_def)
  then have "encode_pdu env att opcode (Some (take (unat len) pdu)) len = encode_pdu env att opcode (Some pdu) len"
    by (simp add: encode_pdu_def Let_def cong: if_cong)
  ultimately show ?thesis
    by simp
qed

lemma encode_pdu_empty:
  assumes "local_sign att = None \<or> opcode AND ATT_OP_SIGNED_MASK = 0" "0 < unat (att_mtu att)"
  shows "encode_pdu env att opcode None 0 = Some (Some [opcode])"
proof -
  have "encode_pdu env att opcode (Some []) 0 = Some (Some [opcode])"
    using encode_pdu_take [OF assms(1), of 0 "[]"] assms(2) by simp
  moreover have "encode_pdu env att opcode (Some []) 0 = encode_pdu env att opcode None 0"
    by (simp add: encode_pdu_def Let_def)
  ultimately show ?thesis
    by simp
qed

text \<open>The opcodes of responses, none of which is signed.\<close>

lemma rsp_opcode:
  assumes "get_op_type opcode = ATT_OP_TYPE_RSP"
  shows "opcode AND ATT_OP_SIGNED_MASK = 0"
proof -
  have "opcode \<in> set (map fst (filter (\<lambda>x. snd x = ATT_OP_TYPE_RSP) att_opcode_type_table))"
    using assms by (auto simp: get_op_type_def split: option.splits dest!: map_of_SomeD intro!: image_eqI [of _ fst])
  moreover have "\<forall>c\<in>set (map fst (filter (\<lambda>x. snd x = ATT_OP_TYPE_RSP) att_opcode_type_table)). c AND ATT_OP_SIGNED_MASK = 0"
    by (simp add: att_opcode_type_table_def att_opcodes ATT_OP_SIGNED_MASK_def)
  ultimately show ?thesis
    by blast
qed

lemma att_send_rsp:
  assumes "att_io att" "get_op_type opcode = ATT_OP_TYPE_RSP" "unat len < unat (att_mtu att)"
    and "case pdu of None \<Rightarrow> len = 0 | Some b \<Rightarrow> unat len \<le> length b"
  shows "\<exists>i att'. bt_att_send env att opcode pdu len None 0 None = Some (i, att') \<and> replied att att' (opcode # take (unat len) (case pdu of None \<Rightarrow> [] | Some b \<Rightarrow> b))"
proof -
  have e: "encode_pdu env att opcode pdu len = Some (Some (opcode # take (unat len) (case pdu of None \<Rightarrow> [] | Some b \<Rightarrow> b)))"
    using encode_pdu_take [of att opcode len _ env] encode_pdu_empty [of att opcode env] rsp_opcode [OF assms(2)] assms(3,4) by (auto split: option.splits)
  define p where "p = opcode # take (unat len) (case pdu of None \<Rightarrow> [] | Some b \<Rightarrow> b)"
  define i where "i = (if next_send_id att < 1 then 1 else next_send_id att)"
  define op where "op = \<lparr>op_id = i, op_timeout_id = 0, op_type = ATT_OP_TYPE_RSP, op_opcode = opcode, op_pdu = p, op_callback = None, op_destroy = None, op_user_data = 0\<rparr>"
  have "create_att_send_op env att opcode pdu len None 0 None = Some (Some (op\<lparr>op_id := 0\<rparr>))"
    using e assms(2,4) by (auto simp: create_att_send_op_def Let_def op_def p_def)
  then have "bt_att_send env att opcode pdu len None 0 None = Some (i, wakeup_writer env (enqueue_op op (att\<lparr>next_send_id := i + 1\<rparr>)))"
    using assms(1) by (simp add: bt_att_send_def i_def Let_def op_def)
  moreover have "enqueue_op op (att\<lparr>next_send_id := i + 1\<rparr>) = att\<lparr>write_queue := write_queue att @ [op], next_send_id := i + 1\<rparr>"
    by (simp add: enqueue_op_def op_def)
  moreover have "wakeup_writer env (att\<lparr>write_queue := write_queue att @ [op], next_send_id := i + 1\<rparr>)
      = att\<lparr>write_queue := write_queue att @ [op], next_send_id := i + 1, writer_active := writer_active att \<or> env_handler env\<rparr>"
    by (simp add: wakeup_writer_def)
  ultimately have "replied att (wakeup_writer env (enqueue_op op (att\<lparr>next_send_id := i + 1\<rparr>))) p"
    unfolding replied_def by (intro exI [of _ op] exI [of _ "i + 1"] exI [of _ "writer_active att \<or> env_handler env"]) (simp add: op_def)
  then show ?thesis
    using \<open>bt_att_send env att opcode pdu len None 0 None = _\<close> unfolding p_def by blast
qed

section \<open>Answers\<close>

text \<open>What the server relies on: the structure of the database, a transport that is connected, MTUs of at least 23, and prepared
  values of their length.\<close>

definition sv_ok :: "gatt_db \<Rightarrow> bt_gatt_server \<Rightarrow> bool" where
  "sv_ok d0 s \<longleftrightarrow> shaped d0 (sv_db s) \<and> att_io (sv_att s) \<and> 23 \<le> unat (att_mtu (sv_att s)) \<and> 23 \<le> unat (sv_mtu s)
     \<and> (\<forall>d\<in>set (prep_queue s). length (pw_value d) = unat (pw_length d))"

text \<open>An answer is an error response that names the request, or the response that belongs to it.\<close>

definition is_answer :: "u8 \<Rightarrow> bytes \<Rightarrow> bool" where
  "is_answer opcode p \<longleftrightarrow> (\<exists>h e. p = [BT_ATT_OP_ERROR_RSP, opcode] @ le16 h @ [e]) \<or> (p \<noteq> [] \<and> get_req_opcode (hd p) = opcode)"

definition asked :: "bt_gatt_server \<Rightarrow> bt_gatt_server \<Rightarrow> bool" where
  "asked s s' \<longleftrightarrow> (\<exists>es e. db_log (sv_db s') = db_log (sv_db s) @ es \<and> e \<in> set es \<and> is_call e)"

text \<open>One answer that fits the MTU is queued, or the application is asked and nothing is queued.\<close>

definition served :: "bt_gatt_server \<Rightarrow> bt_gatt_server \<Rightarrow> u8 \<Rightarrow> bool" where
  "served s s' opcode \<longleftrightarrow>
     (\<exists>p. replied (sv_att s) ((sv_att s')\<lparr>att_mtu := att_mtu (sv_att s)\<rparr>) p \<and> is_answer opcode p \<and> length p \<le> unat (att_mtu (sv_att s)))
     \<or> sv_att s' = sv_att s \<and> asked s s'"

definition good :: "gatt_db \<Rightarrow> bt_gatt_server \<Rightarrow> u8 \<Rightarrow> bt_gatt_server option \<Rightarrow> bool" where
  "good d0 s opcode r \<longleftrightarrow> (\<exists>s'. r = Some s' \<and> sv_ok d0 s' \<and> served s s' opcode \<and> sv_addr s' = sv_addr s)"

lemma replied_fields:
  assumes "replied att att' p"
  shows "att_io att' = att_io att" "att_mtu att' = att_mtu att" "att_notify_list att' = att_notify_list att" "in_req att' = in_req att"
  using assms by (auto simp: replied_def)

lemma replied_mtu: "replied att att' p \<Longrightarrow> att'\<lparr>att_mtu := att_mtu att\<rparr> = att'"
  by (auto simp: replied_def)

lemma replied_att_ok: "sv_ok d0 s \<Longrightarrow> replied (sv_att s) att' p \<Longrightarrow> sv_ok d0 (s\<lparr>sv_att := att'\<rparr>)"
  using replied_fields [of "sv_att s" att' p] by (simp add: sv_ok_def)

lemma get_req_type:
  assumes "get_req_opcode rc = opcode" "opcode \<noteq> 0"
  shows "get_op_type rc = ATT_OP_TYPE_RSP"
proof -
  have "rc \<in> snd ` set att_req_rsp_mapping_table"
    using assms by (fastforce simp: get_req_opcode_def find_Some_iff split: option.splits prod.splits)
  moreover have "\<forall>c\<in>snd ` set att_req_rsp_mapping_table. get_op_type c = ATT_OP_TYPE_RSP"
    by (simp add: att_req_rsp_mapping_table_def get_op_type_def att_opcode_type_table_def att_opcodes)
  ultimately show ?thesis
    by blast
qed

lemma good_send:
  assumes "sv_ok d0 s1" "sv_att s1 = sv_att s" "sv_addr s1 = sv_addr s" "get_req_opcode rc = opcode" "opcode \<noteq> 0" "unat n < unat (att_mtu (sv_att s))"
    and "case pdu of None \<Rightarrow> n = 0 | Some b \<Rightarrow> unat n \<le> length b"
  shows "good d0 s opcode (sv_send env s1 rc pdu n)"
proof -
  let ?p = "rc # take (unat n) (case pdu of None \<Rightarrow> [] | Some b \<Rightarrow> b)"
  obtain i att' where r: "bt_att_send (e_att env) (sv_att s1) rc pdu n None 0 None = Some (i, att')" "replied (sv_att s1) att' ?p"
    using att_send_rsp [of "sv_att s1" rc n pdu "e_att env"] assms get_req_type [OF assms(4,5)] by (auto simp: sv_ok_def)
  have "served s (s1\<lparr>sv_att := att'\<rparr>) opcode"
    using r(2) assms(2,4,6) replied_mtu [OF r(2)] by (auto simp: served_def is_answer_def intro!: exI [of _ ?p])
  then show ?thesis
    using r(1) replied_att_ok [OF assms(1) r(2)] assms(3) by (simp add: good_def sv_send_def)
qed

lemma good_error:
  assumes "sv_ok d0 s1" "sv_att s1 = sv_att s" "sv_addr s1 = sv_addr s" "opcode \<noteq> 0"
  shows "good d0 s opcode (sv_error env s1 opcode h e)"
proof -
  let ?b = "[opcode] @ le16 h @ [att_ecode_from_error e]"
  have t: "get_op_type BT_ATT_OP_ERROR_RSP = ATT_OP_TYPE_RSP"
    by (simp add: get_op_type_def att_opcode_type_table_def att_opcodes)
  obtain i att' where r: "bt_att_send (e_att env) (sv_att s1) BT_ATT_OP_ERROR_RSP (Some ?b) 4 None 0 None = Some (i, att')"
      "replied (sv_att s1) att' (BT_ATT_OP_ERROR_RSP # ?b)"
    using att_send_rsp [OF _ t, of "sv_att s1" 4 "Some ?b" "e_att env"] assms(1) by (auto simp: sv_ok_def)
  have "served s (s1\<lparr>sv_att := att'\<rparr>) opcode"
    using r(2) assms(1,2) replied_mtu [OF r(2)] by (auto simp: served_def is_answer_def sv_ok_def intro!: exI [of _ "BT_ATT_OP_ERROR_RSP # ?b"])
  then show ?thesis
    using r(1) replied_att_ok [OF assms(1) r(2)] assms(3,4) by (simp add: good_def sv_error_def bt_att_send_error_rsp_def)
qed

lemma good_asked:
  assumes "sv_ok d0 s1" "sv_att s1 = sv_att s" "sv_addr s1 = sv_addr s" "db_log (sv_db s1) = db_log (sv_db s) @ es @ [e]" "is_call e"
  shows "good d0 s opcode (Some s1)"
  using assms by (auto simp: good_def served_def asked_def)

lemma good_map:
  assumes "good d0 s opcode r" "\<And>s'. sv_ok d0 s' \<Longrightarrow> sv_ok d0 (f s')" "\<And>s'. sv_att (f s') = sv_att s'" "\<And>s'. sv_db (f s') = sv_db s'" "\<And>s'. sv_addr (f s') = sv_addr s'"
  shows "good d0 s opcode (map_option f r)"
  using assms by (auto simp: good_def served_def asked_def)

text \<open>The state does not depend on what is pending.\<close>

lemma sv_ok_updates [simp]:
  "sv_ok d0 (s\<lparr>pending_read_op := x\<rparr>) = sv_ok d0 s" "sv_ok d0 (s\<lparr>pending_write_op := y\<rparr>) = sv_ok d0 s" "sv_ok d0 (s\<lparr>sv_brk := n\<rparr>) = sv_ok d0 s"
  "sv_ok d0 (s\<lparr>sv_multi := z\<rparr>) = sv_ok d0 s" "sv_ok d0 s \<Longrightarrow> sv_ok d0 (s\<lparr>prep_queue := []\<rparr>)"
  "sv_ok d0 s \<Longrightarrow> shaped d0 d \<Longrightarrow> sv_ok d0 (s\<lparr>sv_db := d\<rparr>)"
  by (simp_all add: sv_ok_def)

lemma sv_ok_shaped: "sv_ok d0 s \<Longrightarrow> shaped d0 (sv_db s)"
  by (simp add: sv_ok_def)

lemma pdu_le16_Some: "off + 2 \<le> length pdu \<Longrightarrow> pdu_le16 pdu off = Some (le16_of (take 2 (drop off pdu)))"
  by (simp add: pdu_le16_def mem_read_def)

lemma length_junk [simp]: "length (junk_buffer env n) = n"
  by (simp add: junk_buffer_def)

section \<open>Reading and writing requests\<close>

lemma rsp_opcodes:
  "get_req_opcode BT_ATT_OP_MTU_RSP = BT_ATT_OP_MTU_REQ" "get_req_opcode BT_ATT_OP_FIND_INFO_RSP = BT_ATT_OP_FIND_INFO_REQ"
  "get_req_opcode BT_ATT_OP_FIND_BY_TYPE_RSP = BT_ATT_OP_FIND_BY_TYPE_REQ" "get_req_opcode BT_ATT_OP_READ_BY_TYPE_RSP = BT_ATT_OP_READ_BY_TYPE_REQ"
  "get_req_opcode BT_ATT_OP_READ_RSP = BT_ATT_OP_READ_REQ" "get_req_opcode BT_ATT_OP_READ_BLOB_RSP = BT_ATT_OP_READ_BLOB_REQ"
  "get_req_opcode BT_ATT_OP_READ_MULT_RSP = BT_ATT_OP_READ_MULT_REQ" "get_req_opcode BT_ATT_OP_READ_BY_GRP_TYPE_RSP = BT_ATT_OP_READ_BY_GRP_TYPE_REQ"
  "get_req_opcode BT_ATT_OP_WRITE_RSP = BT_ATT_OP_WRITE_REQ" "get_req_opcode BT_ATT_OP_PREP_WRITE_RSP = BT_ATT_OP_PREP_WRITE_REQ"
  "get_req_opcode BT_ATT_OP_EXEC_WRITE_RSP = BT_ATT_OP_EXEC_WRITE_REQ"
  by (simp_all add: get_req_opcode_def att_req_rsp_mapping_table_def att_opcodes)

lemma req_opcodes:
  "BT_ATT_OP_MTU_REQ \<noteq> 0" "BT_ATT_OP_FIND_INFO_REQ \<noteq> 0" "BT_ATT_OP_FIND_BY_TYPE_REQ \<noteq> 0" "BT_ATT_OP_READ_BY_TYPE_REQ \<noteq> 0" "BT_ATT_OP_READ_REQ \<noteq> 0"
  "BT_ATT_OP_READ_BLOB_REQ \<noteq> 0" "BT_ATT_OP_READ_MULT_REQ \<noteq> 0" "BT_ATT_OP_READ_BY_GRP_TYPE_REQ \<noteq> 0" "BT_ATT_OP_WRITE_REQ \<noteq> 0"
  "BT_ATT_OP_PREP_WRITE_REQ \<noteq> 0" "BT_ATT_OP_EXEC_WRITE_REQ \<noteq> 0"
  by (simp_all add: att_opcodes)

end
