(* ===== verification/Gatt_Server_Answers.thy ===== *)
theory Gatt_Server_Answers
  imports Gatt_Server_Inv
begin

text \<open>The handlers of the server, one by one: each is defined and serves its request.\<close>

declare exec_next_prep_write.simps [simp del] read_multiple_complete_cb.simps [simp del]

section \<open>Reading and writing\<close>

lemma handle_read_good:
  assumes "sv_ok d0 s" "opcode = BT_ATT_OP_READ_REQ \<or> opcode = BT_ATT_OP_READ_BLOB_REQ"
  shows "good d0 s opcode (handle_read_req env s opcode h off)"
proof -
  have o: "opcode \<noteq> 0" "get_req_opcode (get_read_rsp_opcode opcode) = opcode"
    using assms(2) req_opcodes rsp_opcodes by (auto simp: get_read_rsp_opcode_def att_opcodes)
  note sh = sv_ok_shaped [OF assms(1)]
  obtain r where r: "gatt_db_get_attribute (Some (sv_db s)) h = Some r" "\<And>x. r = Some x \<Longrightarrow> \<exists>a. attribute_at (sv_db s) x = Some a"
    using shaped_found [OF sh, of h] by blast
  show ?thesis
  proof (cases r)
    case None
    then show ?thesis
      using r(1) good_error [OF assms(1) refl refl o(1)] by (simp add: handle_read_req_def)
  next
    case (Some x)
    obtain a where a: "attribute_at (sv_db s) x = Some a"
      using r(2) [OF Some] by blast
    note err = good_error [OF assms(1) refl refl o(1)]
    show ?thesis
    proof (cases "check_permissions env s a READ_MASK = 0 \<and> pending_read_op s = None")
      case False
      then show ?thesis
        using r(1) Some a err by (auto simp: handle_read_req_def Let_def)
    next
      case True
      define op where "op = \<lparr>ro_opcode = opcode, ro_done = False, ro_pdu = [], ro_pdu_len = 0, ro_value_len = 0, ro_db_data = []\<rparr>"
      define s1 where "s1 = s\<lparr>pending_read_op := Some (sv_brk s, op), sv_brk := sv_brk s + 1\<rparr>"
      obtain d' where d': "shaped d0 d'" "if a_read_func a = None
          then read_attribute env (sv_db s) x off opcode READ_COMPLETE_CB (sv_brk s) = Some (True, Some (stored_result a off), d') \<and> (\<exists>e. db_log d' = db_log (sv_db s) @ [e])
          else read_attribute env (sv_db s) x off opcode READ_COMPLETE_CB (sv_brk s) = Some (True, None, d') \<and> db_log d' = db_log (sv_db s) @ [ReadCalled (the (a_read_func a)) (a_read_id a + 1) off opcode]"
        using read_attribute_cases [OF sh a, of env off opcode READ_COMPLETE_CB "sv_brk s"] by (auto split: if_splits)
      have ok: "sv_ok d0 (s1\<lparr>sv_db := d'\<rparr>)"
        using assms(1) d'(1) by (simp add: s1_def)
      show ?thesis
      proof (cases "a_read_func a")
        case None
        obtain e v n where q: "stored_result a off = (e, v, n)"
          by (cases "stored_result a off")
        have n: "unat (of_nat (min (unat (att_mtu (sv_att s)) - 1) n) :: u16) = min (unat (att_mtu (sv_att s)) - 1) n"
          using u16_bound [of "att_mtu (sv_att s)"] by (simp only: unat_of_nat) (simp add: min_def)
        have m: "0 < unat (att_mtu (sv_att s))"
          using assms(1) by (simp add: sv_ok_def)
        have v: "case (if n \<noteq> 0 then v else None) of None \<Rightarrow> (of_nat (min (unat (att_mtu (sv_att s)) - 1) n) :: u16) = 0
            | Some b \<Rightarrow> unat (of_nat (min (unat (att_mtu (sv_att s)) - 1) n) :: u16) \<le> length b"
          using stored_result_len [OF shaped_attr(1) [OF sh a] q] n by (auto split: option.splits)
        have "good d0 s opcode (read_complete_cb env (s1\<lparr>sv_db := d'\<rparr>) a e v n (sv_brk s))"
          using good_error [OF ok, of s opcode] good_send [OF ok, of s "get_read_rsp_opcode opcode" opcode, OF _ _ o(2,1) _ v] n m o(1)
          by (auto simp: read_complete_cb_def s1_def op_def intro!: good_map)
        then show ?thesis
          using d'(2) None q True by (simp add: handle_read_req_def Let_def r(1) \<open>r = Some x\<close> a s1_def op_def)
      next
        case (Some f)
        then show ?thesis
          using d'(2) True good_asked [OF ok, of s "[]" "ReadCalled f (a_read_id a + 1) off opcode" opcode]
          by (simp add: handle_read_req_def Let_def r(1) \<open>r = Some x\<close> a s1_def op_def)
      qed
    qed
  qed
qed

lemma read_good:
  assumes "sv_ok d0 s"
  shows "good d0 s BT_ATT_OP_READ_REQ (read_cb env s BT_ATT_OP_READ_REQ pdu)" "good d0 s BT_ATT_OP_READ_BLOB_REQ (read_blob_cb env s BT_ATT_OP_READ_BLOB_REQ pdu)"
  using handle_read_good [OF assms] good_error [OF assms refl refl] req_opcodes by (simp_all add: read_cb_def read_blob_cb_def pdu_le16_Some)

text \<open>A command has no answer.\<close>

definition quietly :: "gatt_db \<Rightarrow> bt_gatt_server \<Rightarrow> bt_gatt_server option \<Rightarrow> bool" where
  "quietly d0 s r \<longleftrightarrow> (\<exists>s'. r = Some s' \<and> sv_ok d0 s' \<and> sv_att s' = sv_att s \<and> sv_addr s' = sv_addr s)"

definition write_served :: "gatt_db \<Rightarrow> bt_gatt_server \<Rightarrow> u8 \<Rightarrow> bt_gatt_server option \<Rightarrow> bool" where
  "write_served d0 s opcode r \<longleftrightarrow> (if opcode = BT_ATT_OP_WRITE_CMD then quietly d0 s r else good d0 s opcode r)"

lemma write_good:
  assumes "sv_ok d0 s" "opcode = BT_ATT_OP_WRITE_REQ \<or> opcode = BT_ATT_OP_WRITE_CMD"
  shows "write_served d0 s opcode (write_cb env s opcode pdu)"
proof -
  have o: "BT_ATT_OP_WRITE_REQ \<noteq> BT_ATT_OP_WRITE_CMD"
    by (simp add: att_opcodes)
  note sh = sv_ok_shaped [OF assms(1)]
  have fail: "write_served d0 s opcode (if opcode = BT_ATT_OP_WRITE_CMD then Some s else sv_error env s opcode h e)" for h e
    using assms good_error [OF assms(1) refl refl req_opcodes(9)] by (auto simp: write_served_def quietly_def)
  show ?thesis
  proof (cases "length pdu < 2")
    case True
    then show ?thesis
      using fail by (simp add: write_cb_def Let_def)
  next
    case False
    define h where "h = le16_of (take 2 pdu)"
    have h: "pdu_le16 pdu 0 = Some h"
      using False pdu_le16_Some [of 0 pdu] by (simp add: h_def)
    obtain r where r: "gatt_db_get_attribute (Some (sv_db s)) h = Some r" "\<And>x. r = Some x \<Longrightarrow> \<exists>a. attribute_at (sv_db s) x = Some a"
      using shaped_found [OF sh, of h] by blast
    note head = write_cb_def Let_def h r(1)
    show ?thesis
    proof (cases r)
      case None
      then show ?thesis
        using False fail by (simp add: head)
    next
      case (Some x)
      obtain a where a: "attribute_at (sv_db s) x = Some a"
        using r(2) [OF Some] by blast
      show ?thesis
      proof (cases "check_permissions env s a WRITE_MASK = 0 \<and> pending_write_op s = None")
        case no: False
        then show ?thesis
          using False Some a fail by (auto simp: head)
      next
        case yes: True
        define s1 where "s1 = s\<lparr>pending_write_op := Some (sv_brk s, \<lparr>wo_opcode = opcode\<rparr>), sv_brk := sv_brk s + 1\<rparr>"
        note cases = write_attribute_cases [OF sh a, of 0 "drop 2 pdu" env opcode WRITE_COMPLETE_CB "sv_brk s"]
        show ?thesis
        proof (cases "a_write_func a")
          case None
          obtain b d' where d': "write_attribute env (sv_db s) x 0 (drop 2 pdu) opcode WRITE_COMPLETE_CB (sv_brk s) = Some (True, Some (0, None, 0), d')"
              "shaped d0 d'" "attribute_at d' x = Some b"
            using cases None by (auto simp del: split_paired_All)
          have ok: "sv_ok d0 (s1\<lparr>sv_db := d'\<rparr>)"
            using assms(1) d'(2) by (simp add: s1_def)
          have m: "0 < unat (att_mtu (sv_att s))"
            using assms(1) by (simp add: sv_ok_def)
          have "write_cb env s opcode pdu = write_complete_cb env (s1\<lparr>sv_db := d'\<rparr>) b 0 (sv_brk s)"
            using False Some a yes d' by (simp add: head s1_def)
          moreover have "good d0 s BT_ATT_OP_WRITE_REQ (sv_send env (s1\<lparr>sv_db := d'\<rparr>) BT_ATT_OP_WRITE_RSP None 0)"
            using good_send [OF ok _ _ rsp_opcodes(9) req_opcodes(9), of s 0 None] m by (simp add: s1_def)
          then have "good d0 s BT_ATT_OP_WRITE_REQ (map_option (\<lambda>s. s\<lparr>pending_write_op := None\<rparr>) (sv_send env (s1\<lparr>sv_db := d'\<rparr>) BT_ATT_OP_WRITE_RSP None 0))"
            by (rule good_map) simp_all
          moreover have "sv_ok d0 (s\<lparr>sv_brk := Suc (sv_brk s), sv_db := d'\<rparr>)"
            using assms(1) d'(2) by simp
          ultimately show ?thesis
            using assms(2) o by (auto simp: write_served_def quietly_def write_complete_cb_def s1_def)
        next
          case (Some f)
          obtain d' where d': "write_attribute env (sv_db s) x 0 (drop 2 pdu) opcode WRITE_COMPLETE_CB (sv_brk s) = Some (True, None, d')"
              "shaped d0 d'" "db_log d' = db_log (sv_db s) @ [WriteCalled f (a_write_id a + 1) 0 (drop 2 pdu) opcode]"
            using cases Some by auto
          have ok: "sv_ok d0 (s1\<lparr>sv_db := d'\<rparr>)"
            using assms(1) d'(2) by (simp add: s1_def)
          have "write_cb env s opcode pdu = Some (s1\<lparr>sv_db := d'\<rparr>)"
            using False \<open>r = Some x\<close> a yes d' by (simp add: head s1_def)
          then show ?thesis
            using assms(2) ok o d'(3) good_asked [OF ok, of s "[]"] by (auto simp: write_served_def quietly_def s1_def)
        qed
      qed
    qed
  qed
qed

lemma exchange_mtu_good:
  assumes "sv_ok d0 s"
  shows "good d0 s BT_ATT_OP_MTU_REQ (exchange_mtu_cb env s BT_ATT_OP_MTU_REQ pdu)"
proof (cases "length pdu = 2")
  case False
  then show ?thesis
    using good_error [OF assms refl refl req_opcodes(1)] by (simp add: exchange_mtu_cb_def)
next
  case True
  define m where "m = max (min (le16_of (take 2 pdu)) (sv_mtu s)) BT_ATT_DEFAULT_LE_MTU"
  have m: "\<not> m < BT_ATT_DEFAULT_LE_MTU"
    by (simp add: m_def not_less)
  then have m23: "23 \<le> unat m"
    by (simp add: BT_ATT_DEFAULT_LE_MTU_def word_less_nat_alt)
  obtain s1 where s1: "sv_send env s BT_ATT_OP_MTU_RSP (Some (le16 (sv_mtu s))) 2 = Some s1" "sv_ok d0 s1" "served s s1 BT_ATT_OP_MTU_REQ"
      "sv_addr s1 = sv_addr s"
    using good_send [OF assms refl refl rsp_opcodes(1) req_opcodes(1), of 2 "Some (le16 (sv_mtu s))" env] assms by (auto simp: good_def sv_ok_def)
  let ?s = "s1\<lparr>sv_mtu := m, sv_att := (sv_att s1)\<lparr>att_mtu := m\<rparr>\<rparr>"
  have "exchange_mtu_cb env s BT_ATT_OP_MTU_REQ pdu = Some ?s"
    using True s1(1) m pdu_le16_Some [of 0 pdu] by (simp add: exchange_mtu_cb_def Let_def m_def bt_att_set_mtu_def)
  moreover have "sv_ok d0 ?s"
    using s1(2) m23 by (simp add: sv_ok_def)
  moreover have "\<not> asked s s1"
    using s1(1) by (auto simp: sv_send_def asked_def)
  then have "served s ?s BT_ATT_OP_MTU_REQ"
    using s1(3) by (simp add: served_def)
  ultimately show ?thesis
    using s1(4) by (simp add: good_def)
qed

section \<open>Prepared writes\<close>

lemma append_prep_ok:
  assumes "length (pw_value d) = unat (pw_length d)" "unat (pw_length d) + length bs < 2 ^ 16"
  shows "append_prep_data env d bs = Some (d\<lparr>pw_value := pw_value d @ bs, pw_length := of_nat (unat (pw_length d) + length bs)\<rparr>)"
    and "unat (of_nat (unat (pw_length d) + length bs) :: u16) = unat (pw_length d) + length bs"
proof -
  show u: "unat (of_nat (unat (pw_length d) + length bs) :: u16) = unat (pw_length d) + length bs"
    using assms(2) by (simp only: unat_of_nat) simp
  define len :: u16 where "len = pw_length d + of_nat (length bs)"
  have l: "unat len = unat (pw_length d) + length bs" "of_nat (unat (pw_length d) + length bs) = len"
    using u by (simp_all add: len_def)
  show "append_prep_data env d bs = Some (d\<lparr>pw_value := pw_value d @ bs, pw_length := of_nat (unat (pw_length d) + length bs)\<rparr>)"
  proof (cases "bs = []")
    case False
    then have "len \<noteq> 0"
      using l(1) by auto
    then show ?thesis
      using False assms(1) l unfolding append_prep_data_def len_def [symmetric] Let_def l(2) by (simp add: mem_write_def)
  qed (use assms(1) in \<open>simp add: append_prep_data_def\<close>)
qed

lemma foreach_desc_total:
  "(\<And>a. Some a \<in> set as \<Longrightarrow> uuid_ok (a_uuid a)) \<Longrightarrow>
    \<exists>xs. foreach_desc_loop p i as = Some xs \<and> (\<forall>x\<in>set xs. fst x = p \<and> (\<exists>j<length as. snd x = i + j \<and> as ! j \<noteq> None))"
proof (induction p i as rule: foreach_desc_loop.induct)
  case (2 p i as)
  then obtain xs where "foreach_desc_loop p (Suc i) as = Some xs" "\<forall>x\<in>set xs. fst x = p \<and> (\<exists>j<length as. snd x = Suc i + j \<and> as ! j \<noteq> None)"
    by auto
  then show ?case
    by (fastforce intro: exI [of _ "Suc _"])
next
  case (3 p i a as)
  obtain c1 c2 where c: "bt_uuid_cmp characteristic_uuid (a_uuid a) = Some c1" "bt_uuid_cmp included_service_uuid (a_uuid a) = Some c2"
    using 3(2) [of a] by (simp add: uuid_cmp_Some)
  show ?case
  proof (cases "c1 = 0 \<or> c2 = 0")
    case False
    then obtain xs where "foreach_desc_loop p (Suc i) as = Some xs" "\<forall>x\<in>set xs. fst x = p \<and> (\<exists>j<length as. snd x = Suc i + j \<and> as ! j \<noteq> None)"
      using 3(1) [OF c] 3(2) by auto
    then show ?thesis
      using c False by (fastforce intro: exI [of _ "Suc _"])
  qed (use c in simp)
qed simp

lemma attrs_uuid_ok:
  assumes "shaped d0 d" "service_at d p = Some s" "Some a \<in> set (s_attributes s)"
  shows "uuid_ok (a_uuid a)"
proof -
  obtain i where "i < length (s_attributes s)" "s_attributes s ! i = Some a"
    using assms(3) by (metis in_set_conv_nth)
  then have "attribute_at d (p, i) = Some a"
    using assms(2) by (simp add: attribute_at_def attr_of_def array_at_def)
  then show ?thesis
    using shaped_attr(2) [OF assms(1)] by blast
qed

lemma service_desc_total:
  assumes "shaped d0 d" "attribute_at d x = Some a"
  shows "\<exists>xs. gatt_db_service_foreach_desc d (Some x) = Some xs \<and> (\<forall>y\<in>set xs. attribute_at d y \<noteq> None)"
proof -
  obtain p i where x: "x = (p, i)"
    by (cases x)
  obtain s where s: "service_at d p = Some s"
    using shaped_attr(4) [OF assms] x by auto
  obtain c where c: "bt_uuid_cmp characteristic_uuid (a_uuid a) = Some c"
    using shaped_attr(2) [OF assms] by (simp add: uuid_cmp_Some)
  let ?as = "drop (i + 2) (take (unat (s_num_handles s)) (s_attributes s))"
  have u: "uuid_ok (a_uuid b)" if "Some b \<in> set ?as" for b
    using attrs_uuid_ok [OF assms(1) s] that by (meson in_set_dropD in_set_takeD)
  obtain xs where xs: "foreach_desc_loop p (i + 2) ?as = Some xs" "\<forall>y\<in>set xs. fst y = p \<and> (\<exists>j<length ?as. snd y = i + 2 + j \<and> ?as ! j \<noteq> None)"
    using foreach_desc_total [of ?as p "i + 2"] u by blast
  have "attribute_at d y \<noteq> None" if y: "y \<in> set xs" for y
  proof -
    obtain j where j: "y = (p, i + 2 + j)" "j < length ?as" "?as ! j \<noteq> None"
      using bspec [OF xs(2) y] by (cases y) auto
    moreover from j(2) have "i + 2 + j < unat (s_num_handles s)" "i + 2 + j < length (s_attributes s)"
      by simp_all
    ultimately have "i + 2 + j < length (s_attributes s)" "s_attributes s ! (i + 2 + j) \<noteq> None"
      by (simp_all add: nth_drop)
    then show ?thesis
      using s by (auto simp: j(1) attribute_at_def attr_of_def array_at_def)
  qed
  then show ?thesis
    using xs(1) s c assms(2) by (simp add: gatt_db_service_foreach_desc_def x)
qed

lemma read_ext_prop_total:
  assumes "shaped d0 d" "attribute_at d x \<noteq> None"
  shows "\<exists>e' d'. read_ext_prop cb addr tid x (e, d) = Some (e', d') \<and> shaped d0 d' \<and> (\<forall>y. attribute_at d' y = None \<longleftrightarrow> attribute_at d y = None)"
proof (cases "e = 0")
  case True
  obtain a where a: "attribute_at d x = Some a"
    using assms(2) by blast
  obtain c where c: "bt_uuid_cmp ext_desc_uuid (a_uuid a) = Some c"
    using shaped_attr(2) [OF assms(1) a] by (simp add: uuid_cmp_Some ext_desc_uuid_def)
  note head = read_ext_prop_def True a c
  show ?thesis
  proof (cases "a_read_func a")
    case None
    obtain er v n where q: "stored_result a 0 = (er, v, n)"
      by (cases "stored_result a 0")
    have "\<exists>e'. read_ext_prop_value er v n 0 = Some e'"
    proof (cases "er \<noteq> 0 \<or> n \<noteq> 2")
      case False
      then obtain w where "v = Some w" "length w = 2"
        using stored_result_len [OF shaped_attr(1) [OF assms(1) a] q] by auto
      then show ?thesis
        using False by (cases w) (simp_all add: read_ext_prop_value_def load8_def)
    qed (simp add: read_ext_prop_value_def)
    then show ?thesis
      using read_stored [OF shaped_attr(1) [OF assms(1) a] None] q assms(1) by (auto simp: head)
  next
    case (Some f)
    let ?b = "a\<lparr>a_read_id := a_read_id a + 1, a_pending_reads := a_pending_reads a @ [\<lparr>pd_id = a_read_id a + 1, pd_timeout_id = tid, pd_func = cb, pd_user_data = addr\<rparr>]\<rparr>"
    have b: "erase_attr ?b = erase_attr a" "val_ok ?b"
      using shaped_attr(1) [OF assms(1) a] by (simp_all add: erase_attr_def val_ok_def value_bytes_def)
    obtain d' where d': "set_attribute d x ?b = Some d'" "shaped d0 d'" "\<forall>y. attribute_at d' y = (if y = x then Some ?b else attribute_at d y)"
      using set_attribute_shaped [OF assms(1) a b] by blast
    have n: "\<forall>y. attribute_at d' y = None \<longleftrightarrow> attribute_at d y = None"
      using d'(3) a by (metis option.distinct(1))
    show ?thesis
    proof (cases "c = 0")
      case True
      have "read_ext_prop cb addr tid x (e, d) = Some (e, emit [ReadCalled f (a_read_id a + 1) 0 BT_ATT_OP_READ_REQ] d')"
        using Some d'(1) True by (simp add: head gatt_db_attribute_read_def Let_def)
      then show ?thesis
        using d'(2) n by simp
    qed (use assms(1) in \<open>simp add: head\<close>)
  qed
qed (use assms(1) in \<open>simp add: read_ext_prop_def\<close>)

lemma read_ext_props_total:
  "shaped d0 d \<Longrightarrow> \<forall>x\<in>set xs. attribute_at d x \<noteq> None \<Longrightarrow> \<exists>e' d'. read_ext_props cb addr tid xs (e, d) = Some (e', d') \<and> shaped d0 d'"
proof (induction xs arbitrary: e d)
  case (Cons x xs)
  obtain e1 d1 where d1: "read_ext_prop cb addr tid x (e, d) = Some (e1, d1)" "shaped d0 d1" "\<forall>y. attribute_at d1 y = None \<longleftrightarrow> attribute_at d y = None"
    using read_ext_prop_total [of d0 d x cb addr tid e] Cons.prems by auto
  then show ?case
    using Cons.IH [of d1 e1] Cons.prems(2) by (simp del: split_paired_All)
qed simp

lemma reliable_total:
  assumes "shaped d0 d"
  shows "\<exists>b d'. is_reliable_write_supported env d h = Some (b, d') \<and> shaped d0 d'"
proof -
  obtain r where r: "gatt_db_get_attribute (Some d) h = Some r" "\<And>x. r = Some x \<Longrightarrow> \<exists>a. attribute_at d x = Some a"
    using shaped_found [OF assms, of h] by blast
  show ?thesis
  proof (cases r)
    case (Some x)
    obtain a where a: "attribute_at d x = Some a"
      using r(2) [OF Some] by blast
    obtain c where c: "bt_uuid_cmp characteristic_uuid (a_uuid a) = Some c"
      using shaped_attr(2) [OF assms a] by (simp add: uuid_cmp_Some)
    have "\<exists>e d'. get_char_ext_prop env d x = Some (e, d') \<and> shaped d0 d'"
    proof (cases "c \<noteq> 0 \<or> a_value a = None \<or> a_value_len a \<noteq> 5 \<and> a_value_len a \<noteq> 19")
      case True
      then show ?thesis
        using a c assms by (auto simp: get_char_ext_prop_def)
    next
      case False
      obtain v where v: "a_value a = Some v" "v \<noteq> []"
      proof -
        obtain w where "a_value a = Some w"
          using False by (cases "a_value a") auto
        then show ?thesis
          using that [of w] False shaped_attr(1) [OF assms a] by (cases w) (auto simp: val_ok_def value_bytes_def)
      qed
      obtain xs where xs: "gatt_db_service_foreach_desc d (Some x) = Some xs" "\<forall>y\<in>set xs. attribute_at d y \<noteq> None"
        using service_desc_total [OF assms a] by blast
      show ?thesis
        using False a c v xs read_ext_props_total [OF assms xs(2), of READ_EXT_PROP_CB 0 "e_tid env" 0] assms
        by (auto simp: get_char_ext_prop_def get_char_extended_prop_def load8_def)
    qed
    then show ?thesis
      using r(1) Some by (auto simp: is_reliable_write_supported_def)
  qed (use r(1) assms in \<open>auto simp: is_reliable_write_supported_def\<close>)
qed

text \<open>The queue after a prepared write: it continues the last one or is a new one.\<close>

definition continues :: "bt_gatt_server \<Rightarrow> u16 \<Rightarrow> u16 \<Rightarrow> bool" where
  "continues s h off \<longleftrightarrow> (let q = prep_queue s in q \<noteq> [] \<and> pw_handle (last q) = h \<and> unat off = unat (pw_length (last q)) + unat (pw_offset (last q)))"

lemma store_prep_ok:
  assumes "sv_ok d0 s" "length bs < 2 ^ 16" "continues s h off \<Longrightarrow> unat (pw_length (last (prep_queue s))) + length bs < 2 ^ 16"
  shows "\<exists>s'. store_prep_data env s h off bs = Some s' \<and> sv_ok d0 s' \<and> sv_att s' = sv_att s \<and> sv_addr s' = sv_addr s
    \<and> prep_queue s' = (if continues s h off
        then butlast (prep_queue s) @ [(last (prep_queue s))\<lparr>pw_value := pw_value (last (prep_queue s)) @ bs,
               pw_length := of_nat (unat (pw_length (last (prep_queue s))) + length bs)\<rparr>]
        else prep_queue s @ [\<lparr>pw_value = bs, pw_handle = h, pw_offset = off, pw_length = of_nat (length bs),
               pw_reliable_supported = fst (the (is_reliable_write_supported env (sv_db s) (h - 1)))\<rparr>])"
proof (cases "continues s h off")
  case True
  let ?d = "last (prep_queue s)"
  have l: "length (pw_value ?d) = unat (pw_length ?d)" "\<forall>d\<in>set (butlast (prep_queue s)). length (pw_value d) = unat (pw_length d)"
    using assms(1) True by (auto simp: sv_ok_def continues_def Let_def dest: in_set_butlastD)
  note a = append_prep_ok [OF l(1) assms(3) [OF True]]
  show ?thesis
    using True a assms(1) l by (auto simp: store_prep_data_def continues_def Let_def sv_ok_def simp del: of_nat_add)
next
  case False
  let ?e = "\<lparr>pw_value = [], pw_handle = 0, pw_offset = 0, pw_length = 0, pw_reliable_supported = False\<rparr>"
  have u: "unat (of_nat (length bs) :: u16) = length bs"
    using assms(2) by (simp only: unat_of_nat) simp
  have a: "append_prep_data env ?e bs = Some (?e\<lparr>pw_value := bs, pw_length := of_nat (length bs)\<rparr>)"
    using append_prep_ok(1) [of ?e bs env] assms(2) by simp
  obtain b d' where r: "is_reliable_write_supported env (sv_db s) (h - 1) = Some (b, d')" "shaped d0 d'"
    using reliable_total [OF sv_ok_shaped [OF assms(1)]] by blast
  show ?thesis
    using False a r assms(1) u by (auto simp: store_prep_data_def prep_data_new_def continues_def Let_def sv_ok_def)
qed

lemma prep_write_good:
  assumes "sv_ok d0 s" "length pdu < unat (att_mtu (sv_att s))"
    and "4 \<le> length pdu \<Longrightarrow> continues s (le16_of (take 2 pdu)) (le16_of (take 2 (drop 2 pdu))) \<Longrightarrow> unat (pw_length (last (prep_queue s))) + (length pdu - 4) < 2 ^ 16"
  shows "good d0 s BT_ATT_OP_PREP_WRITE_REQ (prep_write_cb env s BT_ATT_OP_PREP_WRITE_REQ pdu)"
proof (cases "length pdu < 4 \<or> unat (max_prep_queue_len s) \<le> length (prep_queue s)")
  case True
  then show ?thesis
    using good_error [OF assms(1) refl refl req_opcodes(10)] by (auto simp: prep_write_cb_def)
next
  case False
  define h where "h = le16_of (take 2 pdu)"
  define off where "off = le16_of (take 2 (drop 2 pdu))"
  have g: "pdu_le16 pdu 0 = Some h" "pdu_le16 pdu 2 = Some off"
    using False pdu_le16_Some [of 0 pdu] pdu_le16_Some [of 2 pdu] by (simp_all add: h_def off_def)
  note err = good_error [OF assms(1) refl refl req_opcodes(10)]
  obtain r where r: "gatt_db_get_attribute (Some (sv_db s)) h = Some r" "\<And>x. r = Some x \<Longrightarrow> \<exists>a. attribute_at (sv_db s) x = Some a"
    using shaped_found [OF sv_ok_shaped [OF assms(1)], of h] by blast
  note head = prep_write_cb_def Let_def g r(1)
  show ?thesis
  proof (cases r)
    case None
    then show ?thesis
      using False err by (simp add: head)
  next
    case (Some x)
    obtain a where a: "attribute_at (sv_db s) x = Some a"
      using r(2) [OF Some] by blast
    show ?thesis
    proof (cases "check_permissions env s a WRITE_MASK = 0")
      case True
      have n: "length pdu < 2 ^ 16"
        using assms(2) u16_bound [of "att_mtu (sv_att s)"] by simp
      then have u: "unat (of_nat (length pdu) :: u16) = length pdu"
        by (simp only: unat_of_nat) simp
      obtain s1 where s1: "store_prep_data env s h off (drop 4 pdu) = Some s1" "sv_ok d0 s1" "sv_att s1 = sv_att s" "sv_addr s1 = sv_addr s"
      proof -
        have "length (drop 4 pdu) < 2 ^ 16" "continues s h off \<Longrightarrow> unat (pw_length (last (prep_queue s))) + length (drop 4 pdu) < 2 ^ 16"
          using n assms(3) False by (simp_all add: h_def off_def)
        then show ?thesis
          using store_prep_ok [OF assms(1), of "drop 4 pdu" h off env] that by blast
      qed
      have "prep_write_cb env s BT_ATT_OP_PREP_WRITE_REQ pdu = sv_send env s1 BT_ATT_OP_PREP_WRITE_RSP (Some pdu) (of_nat (length pdu))"
        using False Some a True s1(1) by (simp add: head)
      then show ?thesis
        using good_send [OF s1(2,3,4) rsp_opcodes(10) req_opcodes(10), of "of_nat (length pdu)" "Some pdu" env] u assms(2) by simp
    qed (use False Some a err in \<open>simp add: head\<close>)
  qed
qed

lemma good_step:
  assumes "good d0 s1 opcode r" "sv_att s1 = sv_att s" "sv_addr s1 = sv_addr s" "db_log (sv_db s1) = db_log (sv_db s) @ es"
  shows "good d0 s opcode r"
  using assms unfolding good_def served_def asked_def by (metis UnCI append.assoc set_append)

lemmas exec_next_Nil = exec_next_prep_write.simps [of _ _ _ _ "[]"]
lemmas exec_next_Cons = exec_next_prep_write.simps [of _ _ _ _ "_ # _"]

lemma exec_next_good:
  "sv_ok d0 s \<Longrightarrow> \<forall>d\<in>set q. length (pw_value d) = unat (pw_length d) \<Longrightarrow>
    good d0 s BT_ATT_OP_EXEC_WRITE_REQ (exec_next_prep_write env s h err q)"
proof (induction q arbitrary: s h err)
  case Nil
  have ok: "sv_ok d0 (s\<lparr>prep_queue := []\<rparr>)"
    using Nil.prems(1) by simp
  have "0 < unat (att_mtu (sv_att s))"
    using Nil.prems(1) by (simp add: sv_ok_def)
  then show ?case
    using good_error [OF ok _ _ req_opcodes(11), of s] good_send [OF ok _ _ rsp_opcodes(11) req_opcodes(11), of s 0 None env] by (simp add: exec_next_Nil)
next
  case (Cons pw q)
  have ok: "sv_ok d0 (s\<lparr>prep_queue := []\<rparr>)"
    using Cons.prems(1) by simp
  note fail = good_error [OF ok _ _ req_opcodes(11), of s]
  note sh = sv_ok_shaped [OF Cons.prems(1)]
  show ?case
  proof (cases "err = 0")
    case True
    obtain r where r: "gatt_db_get_attribute (Some (sv_db s)) (pw_handle pw) = Some r" "\<And>x. r = Some x \<Longrightarrow> \<exists>a. attribute_at (sv_db s) x = Some a"
      using shaped_found [OF sh, of "pw_handle pw"] by blast
    show ?thesis
    proof (cases r)
      case None
      then show ?thesis
        using True r(1) fail by (simp add: exec_next_Cons)
    next
      case (Some x)
      obtain a where a: "attribute_at (sv_db s) x = Some a"
        using r(2) [OF Some] by blast
      have m: "mem_read (pw_value pw) 0 (unat (pw_length pw)) = Some (pw_value pw)"
        using Cons.prems(2) by (simp add: mem_read_def)
      note cases = write_attribute_cases [OF sh a, of "pw_offset pw" "pw_value pw" env BT_ATT_OP_EXEC_WRITE_REQ EXEC_WRITE_COMPLETE_CB "sv_addr s"]
      show ?thesis
      proof (cases "a_write_func a")
        case None
        obtain b d' e where d': "write_attribute env (sv_db s) x (pw_offset pw) (pw_value pw) BT_ATT_OP_EXEC_WRITE_REQ EXEC_WRITE_COMPLETE_CB (sv_addr s)
            = Some (True, Some (0, None, 0), d')" "shaped d0 d'" "attribute_at d' x = Some b" "db_log d' = db_log (sv_db s) @ [e]"
          using cases None by (auto simp del: split_paired_All)
        have ok': "sv_ok d0 (s\<lparr>sv_db := d'\<rparr>)"
          using Cons.prems(1) d'(2) by simp
        have "good d0 (s\<lparr>sv_db := d'\<rparr>) BT_ATT_OP_EXEC_WRITE_REQ (exec_next_prep_write env (s\<lparr>sv_db := d'\<rparr>) (a_handle b) 0 q)"
          using Cons.IH [OF ok'] Cons.prems(2) by simp
        then have "good d0 s BT_ATT_OP_EXEC_WRITE_REQ (exec_next_prep_write env (s\<lparr>sv_db := d'\<rparr>) (a_handle b) 0 q)"
          by (rule good_step) (use d'(4) in simp_all)
        then show ?thesis
          using True Some r(1) m d' by (simp add: gatt_db_attribute_get_handle_def exec_next_Cons)
      next
        case f: (Some f)
        obtain d' where d': "write_attribute env (sv_db s) x (pw_offset pw) (pw_value pw) BT_ATT_OP_EXEC_WRITE_REQ EXEC_WRITE_COMPLETE_CB (sv_addr s)
            = Some (True, None, d')" "shaped d0 d'" "db_log d' = db_log (sv_db s) @ [WriteCalled f (a_write_id a + 1) (pw_offset pw) (pw_value pw) BT_ATT_OP_EXEC_WRITE_REQ]"
          using cases f by (auto simp del: split_paired_All)
        have ok': "sv_ok d0 (s\<lparr>sv_db := d', prep_queue := q\<rparr>)"
          using Cons.prems d'(2) by (auto simp: sv_ok_def)
        then show ?thesis
          using True Some r(1) m d' good_asked [OF ok', of s "[]" "WriteCalled f (a_write_id a + 1) (pw_offset pw) (pw_value pw) BT_ATT_OP_EXEC_WRITE_REQ"] by (simp add: exec_next_Cons)
      qed
    qed
  qed (use fail in \<open>simp add: exec_next_Cons\<close>)
qed

lemma exec_write_good:
  assumes "sv_ok d0 s"
  shows "good d0 s BT_ATT_OP_EXEC_WRITE_REQ (exec_write_cb env s BT_ATT_OP_EXEC_WRITE_REQ pdu)"
proof -
  have ok: "sv_ok d0 (s\<lparr>prep_queue := []\<rparr>)"
    using assms by simp
  have m: "0 < unat (att_mtu (sv_att s))"
    using assms by (simp add: sv_ok_def)
  note fail = good_error [OF ok _ _ req_opcodes(11), of s]
  note send = good_send [OF ok _ _ rsp_opcodes(11) req_opcodes(11), of s 0 None env]
  have n: "good d0 s BT_ATT_OP_EXEC_WRITE_REQ (exec_next_prep_write env s 0 0 (prep_queue s))"
    using exec_next_good [OF assms] assms by (simp add: sv_ok_def)
  show ?thesis
    using fail send n m by (auto simp: exec_write_cb_def Let_def load8_def split: option.splits)
qed

section \<open>Discovery\<close>

text \<open>What the queries find exists.\<close>

lemma active_attrs_valid:
  assumes "db_ok d" "(x, a) \<in> set (active_attrs d)"
  shows "attribute_at d x = Some a"
proof -
  obtain y where y: "y \<in> set (services d)" "(x, a) \<in> set (service_attrs y)"
    using assms(2) by (auto simp: active_attrs_def)
  have e: "fst x = p \<and> i \<le> snd x \<and> snd x < i + length as \<and> as ! (snd x - i) = Some a" if "(x, a) \<in> set (entries_of p i as)" for p i as
    using that
  proof (induction p i as rule: entries_of.induct)
    case (2 p i as)
    then have "fst x = p \<and> Suc i \<le> snd x \<and> snd x < Suc i + length as \<and> as ! (snd x - Suc i) = Some a"
      by simp
    then show ?case
      by (auto simp: nth_Cons' Suc_le_eq)
  next
    case (3 p i b as)
    then show ?case
      by (cases "(x, a) = ((p, i), b)") (auto simp: nth_Cons' Suc_le_eq)
  qed simp
  have "s_active (snd y)" "(x, a) \<in> set (entries_of (fst y) 0 (s_attributes (snd y)))"
    using y(2) by (auto simp: service_attrs_def split: if_splits)
  moreover have "service_at d (fst y) = Some (snd y)"
    using y(1) assms(1) service_at_mem by (simp add: db_ok_def)
  ultimately show ?thesis
    using e [of "fst y" 0 "s_attributes (snd y)"] by (auto simp: attribute_at_def attr_of_def array_at_def)
qed

lemma shaped_valid: "shaped d0 d \<Longrightarrow> attribute_at d0 x \<noteq> None \<longleftrightarrow> attribute_at d x \<noteq> None"
  using shaped_lookup(1) [of d0 d x] by (cases "attribute_at d0 x"; cases "attribute_at d x") simp_all

lemma query_valid:
  assumes "shaped d0 d" "uuid_ok u"
  shows "\<exists>q. gatt_db_find_information d lo hi [] = Some q \<and> (\<forall>x\<in>set q. attribute_at d x \<noteq> None)"
    "\<exists>q. gatt_db_read_by_type d lo hi u [] = Some q \<and> (\<forall>x\<in>set q. attribute_at d x \<noteq> None)"
proof -
  have ok: "db_ok d0" and e: "gatt_db_find_information d lo hi [] = gatt_db_find_information d0 lo hi []"
      "gatt_db_read_by_type d lo hi u [] = gatt_db_read_by_type d0 lo hi u []"
    using assms(1) queries_erase [of d] queries_erase [of d0] by (metis shaped_def)+
  have v: "attribute_at d x \<noteq> None" if "x \<in> set (map fst (filter P (active_attrs d0)))" for x P
    using that active_attrs_valid [OF ok] shaped_valid [OF assms(1), of x] by fastforce
  have f: "gatt_db_find_information d0 lo hi [] = Some (map fst (filter (\<lambda>x. in_range lo hi (snd x)) (active_attrs d0)))"
      "gatt_db_read_by_type d0 lo hi u [] = Some (map fst (filter (\<lambda>x. in_range lo hi (snd x) \<and> of_type u (snd x)) (active_attrs d0)))"
    by (simp_all add: query_filters(1,2) [OF ok assms(2)])
  show "\<exists>q. gatt_db_find_information d lo hi [] = Some q \<and> (\<forall>x\<in>set q. attribute_at d x \<noteq> None)"
    "\<exists>q. gatt_db_read_by_type d lo hi u [] = Some q \<and> (\<forall>x\<in>set q. attribute_at d x \<noteq> None)"
    unfolding e f using v by blast+
qed

text \<open>The loops that fill a response take units of one kind as long as they fit.  \<open>fit room u xs\<close> is what they put into \<open>room\<close> bytes
  from the units \<open>xs\<close>, each with its kind.\<close>

fun fit :: "nat \<Rightarrow> nat \<Rightarrow> (nat \<times> bytes) list \<Rightarrow> bytes" where
  "fit room u [] = []"
| "fit room u ((k, b) # xs) = (if k \<noteq> u \<or> room < length b then [] else b @ fit (room - length b) u xs)"

lemma fit_length: "length (fit room u xs) \<le> room"
proof (induction room u xs rule: fit.induct)
  case (2 room u k b xs)
  then show ?case
    by auto
qed simp

locale unit_loop =
  fixes loop :: "'x list \<Rightarrow> 's \<Rightarrow> bytes \<Rightarrow> nat \<Rightarrow> (bytes \<times> nat \<times> 's) option" and valid :: "'s \<Rightarrow> 'x \<Rightarrow> bool"
    and unit_of :: "'s \<Rightarrow> 'x \<Rightarrow> nat \<times> bytes" and after :: "'s \<Rightarrow> 'x \<Rightarrow> 's" and u :: nat and mtu :: nat
  assumes loop_nil: "loop [] st pdu iter = Some (pdu, iter, st)"
    and loop_step: "valid st x \<Longrightarrow> length pdu = mtu \<Longrightarrow> 1 \<le> iter \<Longrightarrow> iter \<le> mtu - 1 \<Longrightarrow>
      loop (x # q) st pdu iter =
        (if fst (unit_of st x) \<noteq> u \<or> mtu - 1 < iter + length (snd (unit_of st x)) then Some (pdu, iter, after st x)
         else loop q (after st x) (take iter pdu @ snd (unit_of st x) @ drop (iter + length (snd (unit_of st x))) pdu) (iter + length (snd (unit_of st x))))"
    and after_valid: "valid st x \<Longrightarrow> valid st y \<Longrightarrow> valid (after st x) y \<and> unit_of (after st x) y = unit_of st y"
begin

lemma loop_fits:
  "\<forall>x\<in>set q. valid st x \<Longrightarrow> length pdu = mtu \<Longrightarrow> 1 \<le> iter \<Longrightarrow> iter \<le> mtu - 1 \<Longrightarrow>
    \<exists>pdu' st'. loop q st pdu iter = Some (pdu', iter + length (fit (mtu - 1 - iter) u (map (unit_of st) q)), st') \<and> length pdu' = mtu
      \<and> take (iter + length (fit (mtu - 1 - iter) u (map (unit_of st) q))) pdu' = take iter pdu @ fit (mtu - 1 - iter) u (map (unit_of st) q)
      \<and> (\<forall>y. valid st y \<longrightarrow> valid st' y)"
proof (induction q arbitrary: st pdu iter)
  case Nil
  then show ?case
    by (simp add: loop_nil)
next
  case (Cons x q)
  obtain k b where kb: "unit_of st x = (k, b)"
    by (cases "unit_of st x")
  have v: "valid st x"
    using Cons.prems(1) by simp
  show ?case
  proof (cases "k \<noteq> u \<or> mtu - 1 < iter + length b")
    case True
    then have "mtu - 1 - iter < length b \<or> k \<noteq> u"
      using Cons.prems(4) by linarith
    then show ?thesis
      using True loop_step [OF v Cons.prems(2-4), of q] kb Cons.prems(2) after_valid [OF v] by auto
  next
    case False
    let ?pdu = "take iter pdu @ b @ drop (iter + length b) pdu"
    have l: "length ?pdu = mtu" "iter + length b \<le> mtu - 1" "1 \<le> iter + length b"
      using False Cons.prems(2-4) by auto
    have vs: "\<forall>y\<in>set q. valid (after st x) y" "map (unit_of (after st x)) q = map (unit_of st) q"
      using after_valid [OF v] Cons.prems(1) by auto
    have room: "mtu - 1 - (iter + length b) = mtu - 1 - iter - length b"
      by simp
    let ?f = "fit (mtu - 1 - iter - length b) u (map (unit_of st) q)"
    obtain pdu' st' where ih: "loop q (after st x) ?pdu (iter + length b) = Some (pdu', iter + length b + length ?f, st')" "length pdu' = mtu"
        "take (iter + length b + length ?f) pdu' = take (iter + length b) ?pdu @ ?f" "\<forall>y. valid (after st x) y \<longrightarrow> valid st' y"
      using Cons.IH [OF vs(1) l(1,3,2)] unfolding vs(2) room by blast
    have "take (iter + length b) ?pdu = take iter pdu @ b"
      using Cons.prems(2,4) by simp
    then show ?thesis
      using False loop_step [OF v Cons.prems(2-4), of q] kb ih after_valid [OF v] by (auto simp: add.assoc)
  qed
qed

end

section \<open>Find Information\<close>

definition le_bytes :: "bt_uuid_t \<Rightarrow> bytes" where
  "le_bytes u = (case u of BT_UUID16 v \<Rightarrow> le16 v | _ \<Rightarrow> rev (u128 u))"

lemma le_bytes_props:
  assumes "uuid_ok u"
  shows "length (le_bytes u) = (if bt_uuid_len u = 2 then 2 else 16)" "bt_uuid_len u \<in> {2, 4, 16}"
    "length (le_bytes u) \<le> length dst \<Longrightarrow> bt_uuid_to_le u dst = Some (0, le_bytes u @ drop (length (le_bytes u)) dst)"
proof -
  show l: "length (le_bytes u) = (if bt_uuid_len u = 2 then 2 else 16)" "bt_uuid_len u \<in> {2, 4, 16}"
    using assms length_u128 [OF assms] by (cases u; simp add: le_bytes_def bt_uuid_len_def)+
  show "length (le_bytes u) \<le> length dst \<Longrightarrow> bt_uuid_to_le u dst = Some (0, le_bytes u @ drop (length (le_bytes u)) dst)"
  proof (cases u)
    case (BT_UUID32 v)
    have "length (u128 u) = 16"
      using length_u128 [OF assms] .
    then have "bt_uuid32_to_uuid128 v = Some (BT_UUID128 (u128 u))"
      using to_uuid128_u128 [OF assms, of BT_UUID_UNSPEC] by (simp add: bt_uuid_to_uuid128_def BT_UUID32)
    then show "length (le_bytes u) \<le> length dst \<Longrightarrow> ?thesis"
      using \<open>length (u128 u) = 16\<close> BT_UUID32 by (simp add: bt_uuid_to_le_def le_bytes_def bswap_128_def mem_write_def)
  next
    case (BT_UUID128 b)
    then show "length (le_bytes u) \<le> length dst \<Longrightarrow> ?thesis"
      using assms by (simp add: bt_uuid_to_le_def le_bytes_def bswap_128_def mem_write_def)
  qed (use assms in \<open>simp_all add: bt_uuid_to_le_def le_bytes_def mem_write_def numeral_2_eq_2\<close>)
qed

definition info_bytes :: "gatt_db_attribute \<Rightarrow> bytes" where
  "info_bytes a = le16 (a_handle a) @ le_bytes (a_uuid a)"

definition info_unit :: "gatt_db \<Rightarrow> unit \<Rightarrow> attr_ptr \<Rightarrow> nat \<times> bytes" where
  "info_unit db st x = (case attribute_at db x of None \<Rightarrow> (0, []) | Some a \<Rightarrow> (nat (bt_uuid_len (a_uuid a)), info_bytes a))"

definition info_valid :: "gatt_db \<Rightarrow> unit \<Rightarrow> attr_ptr \<Rightarrow> bool" where
  "info_valid db st x \<longleftrightarrow> (case attribute_at db x of None \<Rightarrow> False | Some a \<Rightarrow> a_handle a \<noteq> 0 \<and> uuid_ok (a_uuid a))"

definition info_loop :: "gatt_db \<Rightarrow> u16 \<Rightarrow> int \<Rightarrow> attr_ptr list \<Rightarrow> unit \<Rightarrow> bytes \<Rightarrow> nat \<Rightarrow> (bytes \<times> nat \<times> unit) option" where
  "info_loop db mtu u q st pdu iter =
     (case encode_find_info_rsp db q mtu pdu iter u of Some (True, pdu', n) \<Rightarrow> Some (pdu', n, ()) | _ \<Rightarrow> None)"

lemma info_loop_step:
  assumes "info_valid db st x" "length pdu = unat mtu" "1 \<le> iter" "iter \<le> unat mtu - 1" "u = 2 \<or> u = 16"
  shows "info_loop db mtu u (x # q) st pdu iter =
    (if fst (info_unit db st x) \<noteq> nat u \<or> unat mtu - 1 < iter + length (snd (info_unit db st x)) then Some (pdu, iter, ())
     else info_loop db mtu u q () (take iter pdu @ snd (info_unit db st x) @ drop (iter + length (snd (info_unit db st x))) pdu) (iter + length (snd (info_unit db st x))))"
proof -
  obtain a where a: "attribute_at db x = Some a" "a_handle a \<noteq> 0" "uuid_ok (a_uuid a)"
    using assms(1) by (auto simp: info_valid_def split: option.splits)
  let ?l = "bt_uuid_len (a_uuid a)"
  note le = le_bytes_props [OF a(3)]
  have kind: "nat ?l = nat u \<longleftrightarrow> ?l = u"
    using le(2) assms(5) by auto
  have len: "?l = u \<Longrightarrow> int (length (info_bytes a)) = u + 2"
    using le(1) assms(5) by (auto simp: info_bytes_def)
  have room: "?l = u \<Longrightarrow> int (unat mtu) - 1 < int iter + u + 2 \<longleftrightarrow> unat mtu - 1 < iter + length (info_bytes a)"
    using len assms(3,4) by linarith
  note head = info_loop_def info_unit_def a(1) gatt_db_attribute_get_handle_def gatt_db_attribute_get_type_def
  show ?thesis
  proof (cases "?l = u \<and> \<not> unat mtu - 1 < iter + length (info_bytes a)")
    case False
    then show ?thesis
      using assms(3) a(2) kind room by (auto simp: head Let_def)
  next
    case True
    have fits: "iter + length (info_bytes a) \<le> length pdu" "length (info_bytes a) = 2 + length (le_bytes (a_uuid a))"
      using True assms(2,3) by (auto simp: info_bytes_def)
    let ?p1 = "take iter pdu @ le16 (a_handle a) @ drop (iter + 2) pdu"
    have w: "mem_write pdu iter (le16 (a_handle a)) = Some ?p1"
      using fits by (simp add: mem_write_def)
    have ul: "bt_uuid_to_le (a_uuid a) (drop (iter + 2) ?p1) = Some (0, le_bytes (a_uuid a) @ drop (length (le_bytes (a_uuid a))) (drop (iter + 2) pdu))"
      using le(3) [of "drop (iter + 2) ?p1"] fits by simp
    have pdu: "take (iter + 2) ?p1 @ le_bytes (a_uuid a) @ drop (length (le_bytes (a_uuid a))) (drop (iter + 2) pdu)
        = take iter pdu @ info_bytes a @ drop (iter + length (info_bytes a)) pdu"
      using fits by (simp add: info_bytes_def add.commute add.left_commute)
    have n: "iter + nat u + 2 = iter + length (info_bytes a)"
      using len [OF conjunct1 [OF True]] assms(5) by auto
    have "encode_find_info_rsp db (x # q) mtu pdu iter u
        = encode_find_info_rsp db q mtu (take (iter + 2) ?p1 @ le_bytes (a_uuid a) @ drop (length (le_bytes (a_uuid a))) (drop (iter + 2) pdu)) (iter + nat u + 2) u"
      using assms(3) a(2) True room w ul by (simp add: head)
    then show ?thesis
      using True kind unfolding pdu n by (simp add: info_loop_def info_unit_def a(1))
  qed
qed

interpretation info16: unit_loop "info_loop db mtu 2" "info_valid db" "info_unit db" "\<lambda>_ _. ()" 2 "unat mtu" for db mtu
  using info_loop_step [of db _ _ _ mtu _ 2] by unfold_locales (simp_all add: info_loop_def)

interpretation info128: unit_loop "info_loop db mtu 16" "info_valid db" "info_unit db" "\<lambda>_ _. ()" 16 "unat mtu" for db mtu
  using info_loop_step [of db _ _ _ mtu _ 16] by unfold_locales (simp_all add: info_loop_def)

text \<open>The content of the response: the format, the first attribute, and those behind it that have UUIDs of the same size and fit.\<close>

definition info_content :: "gatt_db \<Rightarrow> u16 \<Rightarrow> attr_ptr list \<Rightarrow> bytes" where
  "info_content db mtu q =
     (let b = snd (info_unit db () (hd q)); u = length b - 2
      in (if u = 2 then 1 else 2) # b @ fit (unat mtu - 2 - length b) u (map (info_unit db ()) (tl q)))"

lemma find_info_content:
  assumes "q \<noteq> []" "\<forall>x\<in>set q. info_valid db () x" "length pdu = unat mtu" "23 \<le> unat mtu"
  shows "\<exists>pdu'. encode_find_info_rsp db q mtu pdu 0 0 = Some (True, pdu', length (info_content db mtu q)) \<and> length pdu' = unat mtu
    \<and> take (length (info_content db mtu q)) pdu' = info_content db mtu q \<and> length (info_content db mtu q) \<le> unat mtu - 1"
proof -
  obtain x q' where q: "q = x # q'"
    using assms(1) by (cases q) auto
  obtain a where a: "attribute_at db x = Some a" "a_handle a \<noteq> 0" "uuid_ok (a_uuid a)"
    using assms(2) q by (auto simp: info_valid_def split: option.splits)
  note le = le_bytes_props [OF a(3)]
  define u :: int where "u = (if bt_uuid_len (a_uuid a) = 2 then 2 else 16)"
  define f :: u8 where "f = (if u = 2 then 1 else 2)"
  define b where "b = info_bytes a"
  have b: "length b = nat u + 2" "length b - 2 = nat u" "u = 2 \<or> u = 16" "length b \<le> 18"
    using le(1) by (auto simp: b_def info_bytes_def u_def)
  obtain c cs where pdu: "pdu = c # cs"
    using assms(3,4) by (cases pdu) auto
  let ?p0 = "f # cs"
  have p0: "store8 pdu 0 f = Some ?p0" "length ?p0 = unat mtu"
    using assms(3) by (simp_all add: store8_def mem_write_def pdu)
  let ?p1 = "take 1 ?p0 @ le16 (a_handle a) @ drop 3 ?p0"
  have w: "mem_write ?p0 1 (le16 (a_handle a)) = Some ?p1"
    using p0(2) assms(4) by (simp add: mem_write_def numeral_eq_Suc)
  let ?l = "length (le_bytes (a_uuid a))"
  have ul: "bt_uuid_to_le (a_uuid a) (drop 3 ?p1) = Some (0, le_bytes (a_uuid a) @ drop ?l (drop 3 ?p0))"
    using le(3) [of "drop 3 ?p1"] p0(2) assms(4) b(4) by (simp add: b_def info_bytes_def)
  let ?p2 = "take 1 ?p0 @ b @ drop (1 + length b) ?p0"
  have p2: "take 3 ?p1 @ le_bytes (a_uuid a) @ drop ?l (drop 3 ?p0) = ?p2" "length ?p2 = unat mtu" "take (1 + length b) ?p2 = f # b"
    using p0(2) assms(4) b(4) by (simp_all add: b_def info_bytes_def)
  have room: "\<not> int (unat mtu) - 1 < 1 + u + 2"
    using assms(4) b(3) by (auto simp del: of_nat_unat)
  have n: "Suc (nat u + 2) = 1 + length b"
    using b(1) by simp
  have "encode_find_info_rsp db q mtu pdu 0 0 = encode_find_info_rsp db q' mtu (take 3 ?p1 @ le_bytes (a_uuid a) @ drop ?l (drop 3 ?p0)) (Suc (nat u + 2)) u"
    using a le(2) p0(1) w ul room by (auto simp: q u_def f_def gatt_db_attribute_get_handle_def gatt_db_attribute_get_type_def numeral_3_eq_3)
  then have e: "encode_find_info_rsp db q mtu pdu 0 0 = encode_find_info_rsp db q' mtu ?p2 (1 + length b) u"
    unfolding p2(1) n .
  let ?fit = "fit (unat mtu - 1 - (1 + length b)) (nat u) (map (info_unit db ()) q')"
  have c: "info_content db mtu q = f # b @ ?fit"
    using b by (auto simp: info_content_def info_unit_def q a(1) Let_def b_def [symmetric] f_def)
  have vs: "\<forall>x\<in>set q'. info_valid db () x" and i: "1 \<le> 1 + length b" "1 + length b \<le> unat mtu - 1"
    using assms(2,4) q b(4) by auto
  obtain pdu' where l: "info_loop db mtu u q' () ?p2 (1 + length b) = Some (pdu', 1 + length b + length ?fit, ())" "length pdu' = unat mtu"
      "take (1 + length b + length ?fit) pdu' = take (1 + length b) ?p2 @ ?fit"
    using info16.loop_fits [OF vs p2(2) i] info128.loop_fits [OF vs p2(2) i] b(3) by auto
  have "encode_find_info_rsp db q' mtu ?p2 (1 + length b) u = Some (True, pdu', 1 + length b + length ?fit)"
    using l(1) by (auto simp: info_loop_def split: option.splits prod.splits bool.splits)
  moreover have "1 + length b + length ?fit \<le> unat mtu - 1"
    using fit_length [of "unat mtu - 1 - (1 + length b)" "nat u" "map (info_unit db ()) q'"] i(2) by linarith
  ultimately show ?thesis
    using l(2,3) p2(3) unfolding e c by simp
qed

lemma below_mtu: "n \<le> unat mtu - 1 \<Longrightarrow> 23 \<le> unat (mtu :: u16) \<Longrightarrow> unat (of_nat n :: u16) = n \<and> n < unat mtu"
  using u16_bound [of mtu] by (simp only: unat_of_nat) auto

lemma find_info_good:
  assumes "sv_ok d0 s"
  shows "good d0 s BT_ATT_OP_FIND_INFO_REQ (find_info_cb env s BT_ATT_OP_FIND_INFO_REQ pdu)"
proof (cases "length pdu = 4")
  case False
  then show ?thesis
    using good_error [OF assms refl refl req_opcodes(2)] by (simp add: find_info_cb_def Let_def)
next
  case True
  note err = good_error [OF assms refl refl req_opcodes(2)]
  obtain lo hi where g: "pdu_le16 pdu 0 = Some lo" "pdu_le16 pdu 2 = Some hi"
    using True pdu_le16_Some by simp
  note sh = sv_ok_shaped [OF assms]
  obtain q where q: "gatt_db_find_information (sv_db s) lo hi [] = Some q" "\<forall>x\<in>set q. attribute_at (sv_db s) x \<noteq> None"
    using query_valid(1) [OF sh uuid_ok_const(4), of lo hi] by blast
  let ?m = "att_mtu (sv_att s)"
  have m: "23 \<le> unat ?m"
    using assms by (simp add: sv_ok_def)
  have v: "\<forall>x\<in>set q. info_valid (sv_db s) () x"
    using q(2) shaped_attr(2,3) [OF sh] by (fastforce simp: info_valid_def)
  show ?thesis
  proof (cases "q = []")
    case False
    obtain p n where p: "encode_find_info_rsp (sv_db s) q ?m (junk_buffer env (unat ?m)) 0 0 = Some (True, p, n)" "length p = unat ?m" "n \<le> unat ?m - 1"
      using find_info_content [OF False v _ m, of "junk_buffer env (unat ?m)"] by auto
    then show ?thesis
      using err g q(1) False good_send [OF assms refl refl rsp_opcodes(2) req_opcodes(2), of "of_nat n" "Some p" env] below_mtu [OF p(3) m] True
      by (auto simp: find_info_cb_def Let_def)
  qed (use err g q(1) True in \<open>simp add: find_info_cb_def Let_def\<close>)
qed

section \<open>Read By Group Type and Read By Type\<close>

lemma shaped_service:
  assumes "shaped d0 d" "service_at d p = Some s"
  shows "\<exists>a. attr_of s 0 = Some a \<and> a_handle a \<noteq> 0 \<and> uuid_ok (a_uuid a)"
    "\<exists>h e. gatt_db_service_get_handles s = Some (h, e) \<and> h \<noteq> 0 \<and> e \<noteq> 0"
proof -
  obtain t where t: "service_at d0 p = Some t" "erase_svc t = erase_svc s"
    using shaped_lookup(2) [OF assms(1), of p] assms(2) by (cases "service_at d0 p") auto
  have ok: "db_ok d0"
    using assms(1) by (simp add: shaped_def)
  note svc = db_ok_service [OF ok t(1)]
  obtain h e where h: "gatt_db_service_get_handles t = Some (h, e)" "unat h = svc_start t" "unat e = svc_end t"
    using get_handles_ok [OF svc] by blast
  have "gatt_db_service_get_handles s = Some (h, e)"
    using h(1) t(2) get_handles_erase [of t] get_handles_erase [of s] by simp
  moreover have "h \<noteq> 0" "e \<noteq> 0"
    using h(2,3) svc_bounds(1,2) [OF svc] by auto
  ultimately show "\<exists>h e. gatt_db_service_get_handles s = Some (h, e) \<and> h \<noteq> 0 \<and> e \<noteq> 0"
    by blast
  then obtain a where a: "attr_of s 0 = Some a"
    by (auto simp: gatt_db_service_get_handles_def split: Option.bind_splits)
  then have "attribute_at d (p, 0) = Some a"
    using assms(2) by (simp add: attribute_at_def)
  then show "\<exists>a. attr_of s 0 = Some a \<and> a_handle a \<noteq> 0 \<and> uuid_ok (a_uuid a)"
    using shaped_attr(2,3) [OF assms(1)] a by blast
qed

lemma group_loop_total:
  assumes "\<forall>(p, s)\<in>set xs. \<exists>a. attr_of s 0 = Some a \<and> uuid_ok (a_uuid a)" "uuid_ok u"
  shows "\<exists>q'. read_by_group_loop xs lo hi u n q = Some q' \<and> (\<forall>x\<in>set q'. x \<in> set q \<or> (\<exists>s. (fst x, s) \<in> set xs \<and> snd x = 0))"
  using assms(1)
proof (induction xs arbitrary: n q)
  case (Cons x xs)
  obtain p s where x: "x = (p, s)"
    by (cases x)
  obtain a where a: "attr_of s 0 = Some a" "uuid_ok (a_uuid a)"
    using Cons.prems x by auto
  obtain c where c: "bt_uuid_cmp u (a_uuid a) = Some c"
    using a(2) assms(2) by (simp add: uuid_cmp_Some)
  have ih: "\<exists>q'. read_by_group_loop xs lo hi u n q = Some q' \<and> (\<forall>x\<in>set q'. x \<in> set q \<or> (\<exists>s. (fst x, s) \<in> set xs \<and> snd x = 0))" for n q
    using Cons.IH [of n q] Cons.prems by (simp del: split_paired_All split_paired_Ex)
  have "\<exists>q'. read_by_group_loop xs lo hi u n q = Some q' \<and> (\<forall>y\<in>set q'. y \<in> set q \<or> (\<exists>s. (fst y, s) \<in> set (x # xs) \<and> snd y = 0))" for n q
    using ih [of n q] by fastforce
  moreover have "\<exists>q'. read_by_group_loop xs lo hi u n (q @ [(p, 0)]) = Some q' \<and> (\<forall>y\<in>set q'. y \<in> set q \<or> (\<exists>s. (fst y, s) \<in> set (x # xs) \<and> snd y = 0))" for n q
    using ih [of n "q @ [(p, 0)]"] x by fastforce
  moreover have "\<forall>y\<in>set q. y \<in> set q \<or> (\<exists>s. (fst y, s) \<in> set (x # xs) \<and> snd y = 0)"
    by simp
  ultimately show ?case
    using a(1) c unfolding x by (simp add: Let_def del: split_paired_All split_paired_Ex)
qed simp

lemma group_valid:
  assumes "shaped d0 d" "uuid_ok u"
  shows "\<exists>q. gatt_db_read_by_group_type d lo hi u [] = Some q \<and> (\<forall>x\<in>set q. attribute_at d x \<noteq> None)"
proof -
  have "map fst (services (erase d)) = map fst (services (erase d0))"
    using assms(1) by (simp only: shaped_def)
  then have "distinct (map fst (services d))"
    using assms(1) by (simp add: shaped_def db_ok_def comp_def)
  then have at: "service_at d p = Some s" if "(p, s) \<in> set (services d)" for p s
    using that service_at_mem by blast
  have "\<forall>(p, s)\<in>set (services d). \<exists>a. attr_of s 0 = Some a \<and> uuid_ok (a_uuid a)"
    using shaped_service(1) [OF assms(1) at] by fastforce
  then obtain q where q: "gatt_db_read_by_group_type d lo hi u [] = Some q" "\<forall>x\<in>set q. \<exists>s. (fst x, s) \<in> set (services d) \<and> snd x = 0"
    using group_loop_total [OF _ assms(2), of "services d" lo hi 0 "[]"] by (auto simp: gatt_db_read_by_group_type_def simp del: split_paired_All)
  have "attribute_at d x \<noteq> None" if "x \<in> set q" for x
    using bspec [OF q(2) that] at shaped_service(1) [OF assms(1)] by (fastforce simp: attribute_at_def)
  then show ?thesis
    using q(1) by blast
qed

lemma first_byte: "0 < length b \<Longrightarrow> \<exists>p. (if c then store8 b 0 v else Some b) = Some p \<and> length p = length b"
  by (cases b) (auto simp: store8_def mem_write_def)

lemma mem_write_ok: "i + length xs \<le> length b \<Longrightarrow> \<exists>p. mem_write b i xs = Some p \<and> length p = length b"
  by (simp add: mem_write_def)

lemma memcpy_ok: "k \<le> length w \<Longrightarrow> i + k \<le> length b \<Longrightarrow> \<exists>p. memcpy b i w 0 k = Some p \<and> length p = length b"
  by (simp add: memcpy_def mem_read_def mem_write_ok)

text \<open>The loop of Read By Group Type, whatever the declarations hold: it is defined and stays inside the buffer.\<close>

lemma encode_grp_total:
  "shaped d0 d \<Longrightarrow> \<forall>x\<in>set q. attribute_at d x \<noteq> None \<Longrightarrow> length pdu = unat mtu \<Longrightarrow> 23 \<le> unat mtu \<Longrightarrow> iter \<le> unat mtu - 1 \<Longrightarrow>
    \<exists>r pdu' n d'. encode_read_by_grp_type_rsp env d q mtu pdu iter k = Some (r, pdu', n, d') \<and> length pdu' = unat mtu \<and> n \<le> unat mtu - 1
      \<and> shaped d0 d' \<and> (\<exists>es. db_log d' = db_log d @ es)"
proof (induction q arbitrary: d pdu iter k)
  case (Cons x q)
  obtain a where a: "attribute_at d x = Some a"
    using Cons.prems(2) by auto
  note cases = read_attribute_cases [OF Cons.prems(1) a, of env 0 BT_ATT_OP_READ_BY_GRP_TYPE_REQ ATTRIBUTE_READ_CB 0]
  show ?case
  proof (cases "a_read_func a")
    case (Some f)
    then obtain d' where "read_attribute env d x 0 BT_ATT_OP_READ_BY_GRP_TYPE_REQ ATTRIBUTE_READ_CB 0 = Some (True, None, d')" "shaped d0 d'"
        "\<exists>es. db_log d' = db_log d @ es"
      using cases by (auto simp del: split_paired_All)
    then show ?thesis
      using Cons.prems(3) by auto
  next
    case None
    obtain e v n where r: "stored_result a 0 = (e, v, n)"
      by (cases "stored_result a 0")
    obtain d' l where d': "read_attribute env d x 0 BT_ATT_OP_READ_BY_GRP_TYPE_REQ ATTRIBUTE_READ_CB 0 = Some (True, Some (e, v, n), d')" "shaped d0 d'"
        "db_log d' = db_log d @ [l]" "\<forall>y. attribute_at d' y = attribute_at d y"
      using cases None r by (auto simp del: split_paired_All)
    obtain s h eh where s: "service_at d' (fst x) = Some s" "gatt_db_service_get_handles s = Some (h, eh)"
      using shaped_attr(4) [OF d'(2), of x a] shaped_service(2) [OF d'(2)] d'(4) a by metis
    have vs: "\<forall>x\<in>set q. attribute_at d' x \<noteq> None"
      using Cons.prems(2) d'(4) by (simp del: split_paired_All)
    define k' where "k' = (if iter = 0 then min (min (unat mtu - 6) 251) n else k)"
    define i' where "i' = (if iter = 0 then 1 else iter)"
    obtain p1 where p1: "(if iter = 0 then store8 pdu 0 (of_nat (k' + 4)) else Some pdu) = Some p1" "length p1 = unat mtu"
      using first_byte [of pdu "iter = 0" "of_nat (k' + 4)"] Cons.prems(3,4) by auto
    have i': "i' \<le> unat mtu - 1"
      using Cons.prems(4,5) by (cases "iter = 0") (auto simp: i'_def)
    show ?thesis
    proof (cases "n = 0 \<or> iter \<noteq> 0 \<and> n \<noteq> k \<or> unat mtu - 1 < i' + k' + 4")
      case True
      then show ?thesis
        using d'(1-3) p1 Cons.prems(3) i' by (auto simp: k'_def i'_def split: if_splits)
    next
      case False
      then obtain w where w: "v = Some w" "length w = n" "k' \<le> n"
        using stored_result_len [OF shaped_attr(1) [OF Cons.prems(1) a] r] by (auto simp: k'_def)
      have fits: "i' + k' + 4 \<le> unat mtu - 1" "i' + 4 + k' \<le> length p1"
        using False p1(2) by auto
      obtain p2 where p2: "mem_write p1 i' (le16 h) = Some p2" "length p2 = length p1"
        using fits(2) mem_write_ok [of i' "le16 h" p1] by force
      obtain p3 where p3: "mem_write p2 (i' + 2) (le16 eh) = Some p3" "length p3 = length p1"
        using fits(2) p2(2) mem_write_ok [of "i' + 2" "le16 eh" p2] by force
      obtain p4 where p4: "memcpy p3 (i' + 4) w 0 k' = Some p4" "length p4 = length p1"
        using fits(2) p3(2) w memcpy_ok [of k' w "i' + 4" p3] by force
      note m = p2(1) p3(1) p4(1)
      obtain res pdu' n' d'' es where ih: "encode_read_by_grp_type_rsp env d' q mtu p4 (i' + k' + 4) k' = Some (res, pdu', n', d'')" "length pdu' = unat mtu" "n' \<le> unat mtu - 1"
          "shaped d0 d''" "db_log d'' = db_log d' @ es"
        using Cons.IH [OF d'(2) vs trans [OF p4(2) p1(2)] Cons.prems(4) fits(1)] by blast
      have "encode_read_by_grp_type_rsp env d (x # q) mtu pdu iter k = encode_read_by_grp_type_rsp env d' q mtu p4 (i' + k' + 4) k'"
        using d'(1) False p1(1) s w(1) m(1-3) by (cases "iter = 0") (simp_all add: k'_def i'_def)
      then show ?thesis
        using ih d'(3) by simp
    qed
  qed
qed auto

lemma get_uuid_ok: "length b = 2 \<or> length b = 16 \<Longrightarrow> \<exists>u. get_uuid_le b = Some u \<and> uuid_ok u"
  by (auto simp: get_uuid_le_def bt_uuid16_create_def bt_uuid128_create_def bswap_128_def)

lemma read_by_grp_good:
  assumes "sv_ok d0 s"
  shows "good d0 s BT_ATT_OP_READ_BY_GRP_TYPE_REQ (read_by_grp_type_cb env s BT_ATT_OP_READ_BY_GRP_TYPE_REQ pdu)"
proof (cases "length pdu = 6 \<or> length pdu = 20")
  case False
  then show ?thesis
    using good_error [OF assms refl refl req_opcodes(8)] by (simp add: read_by_grp_type_cb_def Let_def)
next
  case True
  note err = good_error [OF assms refl refl req_opcodes(8)]
  obtain lo hi where g: "pdu_le16 pdu 0 = Some lo" "pdu_le16 pdu 2 = Some hi"
    using True pdu_le16_Some [of 0 pdu] pdu_le16_Some [of 2 pdu] by fastforce
  obtain u where u: "get_uuid_le (drop 4 pdu) = Some u" "uuid_ok u"
    using True get_uuid_ok [of "drop 4 pdu"] by auto
  obtain c1 c2 where c: "bt_uuid_cmp u (bt_uuid16_create GATT_PRIM_SVC_UUID) = Some c1" "bt_uuid_cmp u (bt_uuid16_create GATT_SND_SVC_UUID) = Some c2"
    using u(2) by (simp add: uuid_cmp_Some bt_uuid16_create_def)
  note sh = sv_ok_shaped [OF assms]
  obtain q where q: "gatt_db_read_by_group_type (sv_db s) lo hi u [] = Some q" "\<forall>x\<in>set q. attribute_at (sv_db s) x \<noteq> None"
    using group_valid [OF sh u(2), of lo hi] by blast
  let ?m = "att_mtu (sv_att s)"
  have m: "23 \<le> unat ?m"
    using assms by (simp add: sv_ok_def)
  obtain r p n d' where p: "encode_read_by_grp_type_rsp env (sv_db s) q ?m (junk_buffer env (unat ?m)) 0 0 = Some (r, p, n, d')" "length p = unat ?m" "n \<le> unat ?m - 1" "shaped d0 d'"
    using encode_grp_total [OF sh q(2) length_junk m le0, where env = env and k = 0] by blast
  have ok: "sv_ok d0 (s\<lparr>sv_db := d'\<rparr>)"
    using assms p(4) by simp
  show ?thesis
    using err g u(1) c q(1) p(1,2) True good_error [OF ok _ _ req_opcodes(8), of s] below_mtu [OF p(3) m]
      good_send [OF ok _ _ rsp_opcodes(8) req_opcodes(8), of s "of_nat n" "Some p" env]
    by (auto simp: read_by_grp_type_cb_def Let_def)
qed

text \<open>The operation of Read By Type: its buffer has the size of the MTU, and what is written fits.\<close>

definition op_fits :: "bt_gatt_server \<Rightarrow> async_read_op \<Rightarrow> bool" where
  "op_fits s op \<longleftrightarrow> length (ro_pdu op) = unat (att_mtu (sv_att s)) \<and> ro_pdu_len op \<le> unat (att_mtu (sv_att s)) - 1"

text \<open>A result that can be delivered: the bytes have the stated length.\<close>

definition result_ok :: "int \<Rightarrow> bytes option \<Rightarrow> nat \<Rightarrow> bool" where
  "result_ok err v n \<longleftrightarrow> (err = 0 \<and> n \<noteq> 0 \<longrightarrow> (\<exists>w. v = Some w \<and> length w = n))"

lemma stored_result_ok: "val_ok a \<Longrightarrow> stored_result a off = (e, v, n) \<Longrightarrow> result_ok e v n"
  using stored_result_len by (auto simp: result_ok_def)

lemma by_type_complete:
  assumes "sv_ok d0 s1" "sv_att s1 = sv_att s" "sv_addr s1 = sv_addr s" "op_fits s op" "result_ok err v n"
  shows "(\<exists>s'. read_by_type_read_complete env s1 op a err v n = Some (Inl s') \<and> good d0 s BT_ATT_OP_READ_BY_TYPE_REQ (Some s'))
    \<or> (\<exists>op'. read_by_type_read_complete env s1 op a err v n = Some (Inr op') \<and> op_fits s op')"
proof (cases "err = 0")
  case False
  have "good d0 s BT_ATT_OP_READ_BY_TYPE_REQ (map_option (\<lambda>s. s\<lparr>pending_read_op := None\<rparr>) (sv_error env s1 BT_ATT_OP_READ_BY_TYPE_REQ (a_handle a) err))"
    using good_error [OF assms(1-3) req_opcodes(4)] by (rule good_map) simp_all
  then obtain s' where "sv_error env s1 BT_ATT_OP_READ_BY_TYPE_REQ (a_handle a) err = Some s'" "good d0 s BT_ATT_OP_READ_BY_TYPE_REQ (Some (s'\<lparr>pending_read_op := None\<rparr>))"
    by (cases "sv_error env s1 BT_ATT_OP_READ_BY_TYPE_REQ (a_handle a) err") (simp_all add: good_def)
  then show ?thesis
    using False by (simp add: read_by_type_read_complete_def gatt_db_attribute_get_handle_def)
next
  case True
  let ?m = "unat (att_mtu (sv_att s))"
  have m: "23 \<le> ?m"
    using assms(1,2) by (simp add: sv_ok_def)
  define first where "first \<longleftrightarrow> ro_pdu_len op = 0"
  define k where "k = (if first then min (min (?m - 4) 253) n else ro_value_len op)"
  define i where "i = (if first then 1 else ro_pdu_len op)"
  obtain p1 where p1: "(if first then store8 (ro_pdu op) 0 (of_nat (k + 2)) else Some (ro_pdu op)) = Some p1" "length p1 = ?m"
  proof -
    have "length (ro_pdu op) = ?m"
      using assms(4) by (simp add: op_fits_def)
    moreover from this have "0 < length (ro_pdu op)"
      using m by linarith
    ultimately show ?thesis
      using first_byte [of "ro_pdu op" first "of_nat (k + 2)"] that by metis
  qed
  define op1 where "op1 = (if first then op\<lparr>ro_value_len := k, ro_pdu := p1, ro_pdu_len := 1\<rparr> else op)"
  have op1: "ro_value_len op1 = k" "ro_pdu_len op1 = i" "ro_pdu op1 = p1" "op_fits s op1"
    using p1 assms(4) m by (auto simp: op1_def k_def i_def op_fits_def)
  have head: "read_by_type_read_complete env s1 op a err v n =
    (if \<not> first \<and> n \<noteq> k \<or> ?m - 1 < i + k + 2 then Some (Inr (op1\<lparr>ro_done := True\<rparr>))
     else do {
       p \<leftarrow> mem_write p1 i (le16 (a_handle a));
       w \<leftarrow> (if k = 0 then Some [] else v);
       p \<leftarrow> memcpy p (i + 2) w 0 k;
       let op = op1\<lparr>ro_pdu := p, ro_pdu_len := i + k + 2\<rparr>;
       Some (Inr (if i + k + 2 = ?m - 1 then op\<lparr>ro_done := True\<rparr> else op))
     })"
  proof -
    have start: "(if first then map_option (\<lambda>p. op\<lparr>ro_value_len := min (min (?m - 4) 253) n, ro_pdu := p, ro_pdu_len := 1\<rparr>)
        (store8 (ro_pdu op) 0 (of_nat (min (min (?m - 4) 253) n + 2))) else Some op) = Some op1"
      using p1(1) by (cases first) (simp_all add: op1_def k_def)
    show ?thesis
      unfolding read_by_type_read_complete_def gatt_db_attribute_get_handle_def first_def [symmetric] Let_def assms(2) Option.bind.simps start op1(1-3)
      by (cases "\<not> first \<and> n \<noteq> k"; cases "?m - 1 < i + k + 2")
        (simp_all only: True simp_thms if_True if_False option.case async_read_op.simps op1 refl, simp)
  qed
  show ?thesis
  proof (cases "\<not> first \<and> n \<noteq> k \<or> ?m - 1 < i + k + 2")
    case True
    then show ?thesis
      using head op1(4) by (simp add: op_fits_def)
  next
    case False
    obtain w where w: "(if k = 0 then Some [] else v) = Some w" "k \<le> length w"
    proof (cases "k = 0")
      case True
      then show ?thesis
        using that by simp
    next
      case pos: False
      have kn: "k \<le> n"
        using False by (auto simp: k_def)
      obtain w where "v = Some w" "length w = n"
        using pos kn assms(5) \<open>err = 0\<close> by (auto simp: result_ok_def)
      then show ?thesis
        using that pos kn by simp
    qed
    obtain p2 where p2: "mem_write p1 i (le16 (a_handle a)) = Some p2" "length p2 = ?m"
      using False p1(2) m mem_write_ok [of i "le16 (a_handle a)" p1] by force
    obtain p3 where p3: "memcpy p2 (i + 2) w 0 k = Some p3" "length p3 = ?m"
      using False p2(2) w(2) m memcpy_ok [of k w "i + 2" p2] by force
    show ?thesis
      using p3(2) p2(1) w(1) p3(1) False unfolding head if_not_P [OF False] by (simp add: op_fits_def Let_def)
  qed
qed

lemma process_good:
  "sv_ok d0 s1 \<Longrightarrow> sv_att s1 = sv_att s \<Longrightarrow> sv_addr s1 = sv_addr s \<Longrightarrow> db_log (sv_db s1) = db_log (sv_db s) @ es \<Longrightarrow> op_fits s op \<Longrightarrow>
    \<forall>x\<in>set q. attribute_at (sv_db s1) x \<noteq> None \<Longrightarrow> good d0 s BT_ATT_OP_READ_BY_TYPE_REQ (process_read_by_type env s1 addr op q)"
proof (induction q arbitrary: s1 op es)
  case Nil
  have m: "23 \<le> unat (att_mtu (sv_att s))"
    using Nil(1,2) by (simp add: sv_ok_def)
  have "good d0 s BT_ATT_OP_READ_BY_TYPE_REQ (sv_send env s1 BT_ATT_OP_READ_BY_TYPE_RSP (Some (ro_pdu op)) (of_nat (ro_pdu_len op)))"
    using good_send [OF Nil(1-3) rsp_opcodes(4) req_opcodes(4), of "of_nat (ro_pdu_len op)" "Some (ro_pdu op)" env] Nil(5) below_mtu [OF _ m, of "ro_pdu_len op"]
    by (simp add: op_fits_def)
  then have "good d0 s BT_ATT_OP_READ_BY_TYPE_REQ (map_option (\<lambda>s. s\<lparr>pending_read_op := None\<rparr>)
      (sv_send env s1 BT_ATT_OP_READ_BY_TYPE_RSP (Some (ro_pdu op)) (of_nat (ro_pdu_len op))))"
    by (rule good_map) simp_all
  then show ?case
    by simp
next
  case (Cons x q)
  have m: "23 \<le> unat (att_mtu (sv_att s))"
    using Cons.prems(1,2) by (simp add: sv_ok_def)
  have fin: "good d0 s BT_ATT_OP_READ_BY_TYPE_REQ (map_option (\<lambda>s. s\<lparr>pending_read_op := None\<rparr>)
      (sv_send env s1 BT_ATT_OP_READ_BY_TYPE_RSP (Some (ro_pdu op)) (of_nat (ro_pdu_len op))))"
    using good_send [OF Cons.prems(1-3) rsp_opcodes(4) req_opcodes(4), of "of_nat (ro_pdu_len op)" "Some (ro_pdu op)" env] Cons.prems(5)
      below_mtu [OF _ m, of "ro_pdu_len op"] by (intro good_map) (simp_all add: op_fits_def)
  obtain a where a: "attribute_at (sv_db s1) x = Some a"
    using Cons.prems(6) by auto
  have fail: "good d0 s BT_ATT_OP_READ_BY_TYPE_REQ (map_option (\<lambda>s. s\<lparr>pending_read_op := None\<rparr>) (sv_error env s1 BT_ATT_OP_READ_BY_TYPE_REQ h e))" for h e
    using good_error [OF Cons.prems(1-3) req_opcodes(4)] by (intro good_map) simp_all
  note sh = sv_ok_shaped [OF Cons.prems(1)]
  note cases = read_attribute_cases [OF sh a, of env 0 "ro_opcode op" READ_BY_TYPE_COMPLETE_CB addr]
  show ?case
  proof (cases "ro_done op \<or> check_permissions env s1 a READ_MASK \<noteq> 0")
    case True
    then show ?thesis
      using fin fail a by (auto simp: Let_def)
  next
    case run: False
    show ?thesis
    proof (cases "a_read_func a")
      case None
      obtain e v n where r: "stored_result a 0 = (e, v, n)"
        by (cases "stored_result a 0")
      obtain d' l where d': "read_attribute env (sv_db s1) x 0 (ro_opcode op) READ_BY_TYPE_COMPLETE_CB addr = Some (True, Some (e, v, n), d')" "shaped d0 d'"
          "db_log d' = db_log (sv_db s1) @ [l]" "\<forall>y. attribute_at d' y = attribute_at (sv_db s1) y"
        using cases None r by (auto simp del: split_paired_All)
      let ?s = "s1\<lparr>sv_db := d'\<rparr>"
      have ok: "sv_ok d0 ?s" "sv_att ?s = sv_att s" "sv_addr ?s = sv_addr s" "db_log (sv_db ?s) = db_log (sv_db s) @ (es @ [l])" "\<forall>x\<in>set q. attribute_at (sv_db ?s) x \<noteq> None"
        using Cons.prems d'(2-4) by (simp_all del: split_paired_All)
      have body: "process_read_by_type env s1 addr op (x # q) = do {
          next \<leftarrow> read_by_type_read_complete env ?s op a e v n;
          (case next of Inl s \<Rightarrow> Some s | Inr op \<Rightarrow> process_read_by_type env ?s addr op q) }"
        using run a d'(1) by (simp add: Let_def)
      show ?thesis
        using by_type_complete [OF ok(1-3) Cons.prems(5) stored_result_ok [OF shaped_attr(1) [OF sh a] r], of env a]
      proof (elim disjE exE conjE)
        fix s' assume "read_by_type_read_complete env ?s op a e v n = Some (Inl s')" "good d0 s BT_ATT_OP_READ_BY_TYPE_REQ (Some s')"
        then show ?thesis
          unfolding body by simp
      next
        fix op' assume "read_by_type_read_complete env ?s op a e v n = Some (Inr op')" "op_fits s op'"
        then show ?thesis
          using Cons.IH [OF ok(1-4) _ ok(5), of op'] unfolding body by simp
      qed
    next
      case (Some f)
      obtain d' where d': "read_attribute env (sv_db s1) x 0 (ro_opcode op) READ_BY_TYPE_COMPLETE_CB addr = Some (True, None, d')" "shaped d0 d'"
          "db_log d' = db_log (sv_db s1) @ [ReadCalled f (a_read_id a + 1) 0 (ro_opcode op)]"
        using cases Some by (auto simp del: split_paired_All)
      have ok: "sv_ok d0 (s1\<lparr>sv_db := d', pending_read_op := Some (addr, op\<lparr>ro_db_data := q\<rparr>)\<rparr>)"
        using Cons.prems(1) d'(2) by simp
      show ?thesis
        using run a d'(1,3) Cons.prems(2-4) good_asked [OF ok, of s es "ReadCalled f (a_read_id a + 1) 0 (ro_opcode op)"] by (simp add: Let_def)
    qed
  qed
qed

lemma read_by_type_good:
  assumes "sv_ok d0 s"
  shows "good d0 s BT_ATT_OP_READ_BY_TYPE_REQ (read_by_type_cb env s BT_ATT_OP_READ_BY_TYPE_REQ pdu)"
proof (cases "length pdu = 6 \<or> length pdu = 20")
  case False
  then show ?thesis
    using good_error [OF assms refl refl req_opcodes(4)] by (simp add: read_by_type_cb_def Let_def)
next
  case True
  note err = good_error [OF assms refl refl req_opcodes(4)]
  obtain lo hi where g: "pdu_le16 pdu 0 = Some lo" "pdu_le16 pdu 2 = Some hi"
    using True pdu_le16_Some [of 0 pdu] pdu_le16_Some [of 2 pdu] by fastforce
  obtain u where u: "get_uuid_le (drop 4 pdu) = Some u" "uuid_ok u"
    using True get_uuid_ok [of "drop 4 pdu"] by auto
  note sh = sv_ok_shaped [OF assms]
  obtain q where q: "gatt_db_read_by_type (sv_db s) lo hi u [] = Some q" "\<forall>x\<in>set q. attribute_at (sv_db s) x \<noteq> None"
    using query_valid(2) [OF sh u(2), of lo hi] by blast
  define op where "op = \<lparr>ro_opcode = BT_ATT_OP_READ_BY_TYPE_REQ, ro_done = False, ro_pdu = junk_buffer env (unat (att_mtu (sv_att s))), ro_pdu_len = 0,
    ro_value_len = 0, ro_db_data = q\<rparr>"
  let ?s = "s\<lparr>pending_read_op := Some (sv_brk s, op), sv_brk := sv_brk s + 1\<rparr>"
  have "good d0 s BT_ATT_OP_READ_BY_TYPE_REQ (process_read_by_type env ?s (sv_brk s) op q)"
    by (rule process_good [where es = "[]"]) (use assms q(2) in \<open>simp_all add: op_def op_fits_def\<close>)
  then show ?thesis
    using err g u(1) q(1) True by (auto simp: read_by_type_cb_def Let_def op_def)
qed

end
