(* ===== verification/Gatt_Server_Total.thy ===== *)
theory Gatt_Server_Total
  imports Gatt_Server_Answers
begin

text \<open>The remaining handlers, Find By Type Value and Read Multiple, and all of them together.\<close>

section \<open>Find By Type Value\<close>

lemma find_by_type_loop_fst: "find_by_type_loop p i as lo hi u v = Some q \<Longrightarrow> \<forall>x\<in>set q. fst x = p"
proof (induction as arbitrary: i q)
  case (Cons b as)
  show ?case
  proof (cases b)
    case None
    then show ?thesis
      using Cons by simp
  next
    case (Some a)
    obtain r where r: "find_by_type_loop p (Suc i) as lo hi u v = Some r" "q = r \<or> q = (p, i) # r"
      using Cons.prems Some by (auto split: if_splits Option.bind_splits)
    then show ?thesis
      using Cons.IH [OF r(1)] by auto
  qed
qed simp

lemma collect_services:
  assumes "collect (\<lambda>s. find_by_type s lo hi u v) ss = Some q" "x \<in> set q"
  shows "\<exists>s. (fst x, s) \<in> set ss"
proof -
  obtain qs where qs: "those (map (\<lambda>s. find_by_type s lo hi u v) ss) = Some qs" "q = concat qs"
    using assms(1) by (auto simp: collect_def)
  have "\<forall>r\<in>set qs. \<exists>s\<in>set ss. find_by_type s lo hi u v = Some r"
    using qs(1)
  proof (induction ss arbitrary: qs)
    case (Cons s ss)
    then obtain r z where "find_by_type s lo hi u v = Some r" "those (map (\<lambda>s. find_by_type s lo hi u v) ss) = Some z" "qs = r # z"
      by (auto split: option.splits)
    then show ?case
      using Cons.IH [of z] by auto
  qed simp
  then obtain s r where s: "s \<in> set ss" "find_by_type s lo hi u v = Some r" "x \<in> set r"
    using assms(2) qs(2) by auto
  then have "fst x = fst s"
    using find_by_type_loop_fst by (fastforce simp: find_by_type_def split: if_splits)
  then show ?thesis
    using s(1) by (metis prod.collapse)
qed

lemma atts_total:
  "shaped d0 d \<Longrightarrow> \<forall>x\<in>set xs. service_at d (fst x) \<noteq> None \<Longrightarrow> 23 \<le> unat mtu \<Longrightarrow> length pdu = unat mtu \<Longrightarrow> unat len \<le> unat mtu - 1 \<Longrightarrow>
    \<exists>pdu' len' e'. find_by_type_val_atts d mtu xs (pdu, len, e) = Some (pdu', len', e') \<and> length pdu' = unat mtu \<and> unat len' \<le> unat mtu - 1"
proof (induction xs arbitrary: pdu len e)
  case (Cons x xs)
  obtain s where s: "service_at d (fst x) = Some s"
    using Cons.prems(2) by auto
  obtain h eh where h: "gatt_db_service_get_handles s = Some (h, eh)" "h \<noteq> 0" "eh \<noteq> 0"
    using shaped_service(2) [OF Cons.prems(1) s] by blast
  show ?case
  proof (cases "e \<noteq> 0 \<or> int (unat mtu) - 1 < int (unat len) + 4")
    case True
    then have "find_by_type_val_att_cb d mtu x (pdu, len, e) = Some (pdu, len, e)"
      by (auto simp: find_by_type_val_att_cb_def Let_def)
    then show ?thesis
      using Cons.IH [OF Cons.prems(1) _ Cons.prems(3-5), of e] Cons.prems(2) by simp
  next
    case False
    have le: "unat len + 4 \<le> unat mtu - 1"
      using False Cons.prems(3) by linarith
    obtain p2 where p2: "mem_write pdu (unat len) (le16 h) = Some p2" "length p2 = unat mtu"
      using le Cons.prems(3,4) mem_write_ok [of "unat len" "le16 h" pdu] by force
    obtain p3 where p3: "mem_write p2 (unat len + 2) (le16 eh) = Some p3" "length p3 = unat mtu"
      using le Cons.prems(3) p2(2) mem_write_ok [of "unat len + 2" "le16 eh" p2] by force
    have len: "unat (len + 4) = unat len + 4"
      using le u16_bound [of mtu] by (subst unat_add_lem [THEN iffD1]) simp_all
    have "find_by_type_val_att_cb d mtu x (pdu, len, e) = Some (p3, len + 4, 0)"
      using False s h p2(1) p3(1) by (simp add: find_by_type_val_att_cb_def Let_def)
    then show ?thesis
      using Cons.IH [OF Cons.prems(1) _ Cons.prems(3) p3(2), of "len + 4" 0] Cons.prems(2) le len by simp
  qed
qed simp

lemma find_by_type_good:
  assumes "sv_ok d0 s" "6 \<le> length pdu \<Longrightarrow> gatt_db_find_by_type_value (sv_db s) 0 (le16_of (take 2 pdu)) (le16_of (take 2 (drop 2 pdu)))
    (bt_uuid16_create (le16_of (take 2 (drop 4 pdu)))) (Some (drop 6 pdu)) \<noteq> None"
  shows "good d0 s BT_ATT_OP_FIND_BY_TYPE_REQ (find_by_type_val_cb env s BT_ATT_OP_FIND_BY_TYPE_REQ pdu)"
proof (cases "length pdu < 6")
  case True
  then show ?thesis
    using good_error [OF assms(1) refl refl req_opcodes(3)] by (simp add: find_by_type_val_cb_def Let_def)
next
  case False
  note err = good_error [OF assms(1) refl refl req_opcodes(3)]
  define lo hi t where "lo = le16_of (take 2 pdu)" and "hi = le16_of (take 2 (drop 2 pdu))" and "t = le16_of (take 2 (drop 4 pdu))"
  have g: "pdu_le16 pdu 0 = Some lo" "pdu_le16 pdu 2 = Some hi" "pdu_le16 pdu 4 = Some t"
    using False by (simp_all add: lo_def hi_def t_def pdu_le16_Some)
  note sh = sv_ok_shaped [OF assms(1)]
  obtain n q where q: "gatt_db_find_by_type_value (sv_db s) 0 lo hi (bt_uuid16_create t) (Some (drop 6 pdu)) = Some (n, q)"
    using assms(2) False by (auto simp: lo_def hi_def t_def)
  have "map fst (services (erase (sv_db s))) = map fst (services (erase d0))"
    using sh by (simp only: shaped_def)
  then have dist: "distinct (map fst (services (sv_db s)))"
    using sh by (simp add: shaped_def db_ok_def comp_def)
  then have v: "\<forall>x\<in>set q. service_at (sv_db s) (fst x) \<noteq> None"
  proof -
    have "collect (\<lambda>x. find_by_type x lo hi (bt_uuid16_create t) (Some (drop 6 pdu))) (services (sv_db s)) = Some q"
      using q by (auto simp: gatt_db_find_by_type_value_def split: Option.bind_splits)
    then show ?thesis
      using collect_services service_at_mem [OF dist] by blast
  qed
  let ?m = "att_mtu (sv_att s)"
  have m: "23 \<le> unat ?m"
    using assms(1) by (simp add: sv_ok_def)
  obtain p l e where p: "find_by_type_val_atts (sv_db s) ?m q (junk_buffer env (unat ?m), 0, 0) = Some (p, l, e)" "length p = unat ?m" "unat l \<le> unat ?m - 1"
    using atts_total [OF sh v m length_junk, of 0 env 0] by auto
  show ?thesis
    using False g q p err m good_send [OF assms(1) refl refl rsp_opcodes(3) req_opcodes(3), of l "Some p" env]
    by (auto simp: find_by_type_val_cb_def Let_def)
qed

section \<open>Read Multiple\<close>

lemma get_handles_total: "2 * n \<le> length pdu \<Longrightarrow> \<exists>hs. get_handles pdu n = Some hs \<and> length hs = n"
proof (induction n)
  case (Suc n)
  then show ?case
    using pdu_le16_Some [of "n * 2" pdu] by auto
qed simp

text \<open>The buffer of the answer has room for what is not filled yet, and \<open>n\<close> handles are left.\<close>

definition multi_ok :: "bt_gatt_server \<Rightarrow> read_multiple_resp_data \<Rightarrow> nat \<Rightarrow> bool" where
  "multi_ok s data n \<longleftrightarrow> length (rm_rsp_data data) = unat (att_mtu (sv_att s)) - 1 \<and> rm_mtu data = unat (att_mtu (sv_att s))
     \<and> rm_length data \<le> unat (att_mtu (sv_att s)) - 1 \<and> rm_cur_handle data + Suc n = length (rm_handles data)"

lemma multiple_step_good:
  assumes "sv_ok d0 s1" "sv_att s1 = sv_att s" "sv_addr s1 = sv_addr s" "multi_ok s data n" "result_ok err v k"
  shows "(\<exists>s'. read_multiple_step env s1 data a err v k = Some (Inl s') \<and> good d0 s BT_ATT_OP_READ_MULT_REQ (Some s'))
    \<or> (\<exists>data' n'. read_multiple_step env s1 data a err v k = Some (Inr data') \<and> n = Suc n' \<and> multi_ok s data' n')"
proof (cases "err = 0 \<and> check_permissions env s1 a READ_MASK = 0")
  case False
  have e: "\<exists>s'. map_option Inl (sv_error env s1 BT_ATT_OP_READ_MULT_REQ h e) = Some (Inl s') \<and> good d0 s BT_ATT_OP_READ_MULT_REQ (Some s')" for h e
    using good_error [OF assms(1-3) req_opcodes(7), of env h e] unfolding good_def by force
  show ?thesis
    using False e [of "a_handle a" err] e [of "a_handle a" "check_permissions env s1 a READ_MASK"]
    by (cases "err = 0") (simp_all add: read_multiple_step_def Let_def gatt_db_attribute_get_handle_def)
next
  case True
  let ?m = "unat (att_mtu (sv_att s))"
  have m: "23 \<le> ?m"
    using assms(1,2) by (simp add: sv_ok_def)
  note ok = assms(4) [unfolded multi_ok_def]
  define j where "j = min k (rm_mtu data - rm_length data - 1)"
  obtain w where w: "(if j = 0 then Some [] else v) = Some w" "j \<le> length w"
  proof (cases "j = 0")
    case True
    then show ?thesis
      using that by simp
  next
    case pos: False
    then obtain w where w: "v = Some w" "length w = k"
      using assms(5) True by (auto simp: result_ok_def j_def)
    have "j \<le> length w"
      by (simp add: j_def w(2))
    then show ?thesis
      using pos w(1) by (intro that [of w]) simp_all
  qed
  have room: "rm_length data + j \<le> ?m - 1"
    using ok m by (auto simp: j_def)
  obtain p where p: "memcpy (rm_rsp_data data) (rm_length data) w 0 j = Some p" "length p = ?m - 1"
    using memcpy_ok [OF w(2), of "rm_length data" "rm_rsp_data data"] ok room by auto
  let ?data = "data\<lparr>rm_rsp_data := p, rm_length := rm_length data + j, rm_cur_handle := rm_cur_handle data + 1\<rparr>"
  have step: "read_multiple_step env s1 data a err v k =
    (if rm_mtu data - 1 \<le> rm_length data + j \<or> rm_cur_handle data + 1 = length (rm_handles data)
     then map_option Inl (sv_send env s1 BT_ATT_OP_READ_MULT_RSP (Some p) (of_nat (rm_length data + j))) else Some (Inr ?data))"
    unfolding read_multiple_step_def Let_def j_def [symmetric] w(1) p(1) Option.bind.simps using True by simp
  show ?thesis
  proof (cases "rm_mtu data - 1 \<le> rm_length data + j \<or> rm_cur_handle data + 1 = length (rm_handles data)")
    case True
    have "good d0 s BT_ATT_OP_READ_MULT_REQ (sv_send env s1 BT_ATT_OP_READ_MULT_RSP (Some p) (of_nat (rm_length data + j)))"
      using good_send [OF assms(1-3) rsp_opcodes(7) req_opcodes(7), of "of_nat (rm_length data + j)" "Some p" env] below_mtu [OF room m] p(2) room by simp
    then show ?thesis
      unfolding step if_P [OF True] good_def by force
  next
    case False
    then have "\<exists>n'. n = Suc n' \<and> multi_ok s ?data n'"
      using ok p(2) room by (cases n) (simp_all add: multi_ok_def)
    then show ?thesis
      unfolding step if_not_P [OF False] by blast
  qed
qed

lemmas multiple_complete = read_multiple_complete_cb.simps

lemma multiple_good:
  "sv_ok d0 s1 \<Longrightarrow> sv_att s1 = sv_att s \<Longrightarrow> sv_addr s1 = sv_addr s \<Longrightarrow> db_log (sv_db s1) = db_log (sv_db s) @ es \<Longrightarrow> multi_ok s data (length hs) \<Longrightarrow>
    result_ok err v k \<Longrightarrow> good d0 s BT_ATT_OP_READ_MULT_REQ (read_multiple_complete_cb env s1 addr data a err v k hs)"
proof (induction hs arbitrary: s1 es data a err v k)
  case Nil
  have ok: "sv_ok d0 (s1\<lparr>sv_multi := None\<rparr>)"
    using Nil(1) by simp
  show ?case
    using multiple_step_good [OF ok _ _ Nil(5,6), of env a] Nil(2,3) by (auto simp: multiple_complete)
next
  case (Cons h hs)
  have ok: "sv_ok d0 (s1\<lparr>sv_multi := None\<rparr>)"
    using Cons.prems(1) by simp
  have step_att: "sv_att (s1\<lparr>sv_multi := None\<rparr>) = sv_att s" and step_addr: "sv_addr (s1\<lparr>sv_multi := None\<rparr>) = sv_addr s"
    using Cons.prems(2,3) by simp_all
  note err = good_error [OF ok step_att step_addr req_opcodes(7), of env h]
  show ?case
    using multiple_step_good [OF ok step_att step_addr Cons.prems(5,6), of env a]
  proof (elim disjE exE conjE)
    fix s' assume "read_multiple_step env (s1\<lparr>sv_multi := None\<rparr>) data a err v k = Some (Inl s')" "good d0 s BT_ATT_OP_READ_MULT_REQ (Some s')"
    then show ?thesis
      by (simp add: multiple_complete)
  next
    fix data' n' assume step: "read_multiple_step env (s1\<lparr>sv_multi := None\<rparr>) data a err v k = Some (Inr data')" and n': "length (h # hs) = Suc n'" "multi_ok s data' n'"
    note sh = sv_ok_shaped [OF Cons.prems(1)]
    obtain r where r: "gatt_db_get_attribute (Some (sv_db s1)) h = Some r" "\<And>x. r = Some x \<Longrightarrow> \<exists>b. attribute_at (sv_db s1) x = Some b"
      using shaped_found [OF sh, of h] by blast
    show ?thesis
    proof (cases r)
      case None
      then show ?thesis
        using r(1) step err Cons.prems(2,3) by (simp add: multiple_complete)
    next
      case (Some x)
      obtain b where b: "attribute_at (sv_db s1) x = Some b"
        using r(2) [OF Some] by blast
      note cases = read_attribute_cases [OF sh b, of env 0 BT_ATT_OP_READ_MULT_REQ READ_MULTIPLE_COMPLETE_CB addr]
      show ?thesis
      proof (cases "a_read_func b")
        case None
        obtain e w n where q: "stored_result b 0 = (e, w, n)"
          by (cases "stored_result b 0")
        obtain d' l where d': "read_attribute env (sv_db s1) x 0 BT_ATT_OP_READ_MULT_REQ READ_MULTIPLE_COMPLETE_CB addr = Some (True, Some (e, w, n), d')" "shaped d0 d'"
            "db_log d' = db_log (sv_db s1) @ [l]"
          using cases None q by (auto simp del: split_paired_All)
        have ih: "good d0 s BT_ATT_OP_READ_MULT_REQ (read_multiple_complete_cb env (s1\<lparr>sv_db := d'\<rparr>) addr data' b e w n hs)"
          by (rule Cons.IH [where es = "es @ [l]"])
            (use Cons.prems(1-4) d'(2,3) n' stored_result_ok [OF shaped_attr(1) [OF sh b] q] in simp_all)
        then show ?thesis
          using step r(1) Some b d'(1) by (simp add: multiple_complete [of _ _ _ _ _ _ _ _ "_ # _"])
      next
        case (Some f)
        obtain d' where d': "read_attribute env (sv_db s1) x 0 BT_ATT_OP_READ_MULT_REQ READ_MULTIPLE_COMPLETE_CB addr = Some (True, None, d')" "shaped d0 d'"
            "db_log d' = db_log (sv_db s1) @ [ReadCalled f (a_read_id b + 1) 0 BT_ATT_OP_READ_MULT_REQ]"
          using cases Some by (auto simp del: split_paired_All)
        have "sv_ok d0 (s1\<lparr>sv_db := d', sv_multi := Some (addr, data')\<rparr>)"
          using Cons.prems(1) d'(2) by simp
        then show ?thesis
          using step r(1) \<open>r = Some x\<close> b d'(1,3) Cons.prems(2-4) good_asked [of d0 _ s es "ReadCalled f (a_read_id b + 1) 0 BT_ATT_OP_READ_MULT_REQ"]
          by (simp add: multiple_complete)
      qed
    qed
  qed
qed

lemma read_multiple_good:
  assumes "sv_ok d0 s"
  shows "good d0 s BT_ATT_OP_READ_MULT_REQ (read_multiple_cb env s BT_ATT_OP_READ_MULT_REQ pdu)"
proof (cases "length pdu < 4")
  case True
  then show ?thesis
    using good_error [OF assms refl refl req_opcodes(7)] by (simp add: read_multiple_cb_def)
next
  case False
  note err = good_error [OF assms refl refl req_opcodes(7)]
  note sh = sv_ok_shaped [OF assms]
  let ?m = "unat (att_mtu (sv_att s))"
  obtain h hs where hs: "get_handles pdu (length pdu div 2) = Some (h # hs)"
  proof -
    obtain xs where "get_handles pdu (length pdu div 2) = Some xs" "length xs = length pdu div 2"
      using get_handles_total [of "length pdu div 2" pdu] by auto
    moreover from this have "xs \<noteq> []"
      using False by auto
    ultimately show ?thesis
      using that by (cases xs) simp_all
  qed
  define data where "data = \<lparr>rm_handles = h # hs, rm_cur_handle = 0, rm_rsp_data = junk_buffer env (?m - 1), rm_length = 0, rm_mtu = ?m\<rparr>"
  have data: "multi_ok s data (length hs)"
    by (simp add: multi_ok_def data_def)
  obtain r where r: "gatt_db_get_attribute (Some (sv_db s)) h = Some r" "\<And>x. r = Some x \<Longrightarrow> \<exists>b. attribute_at (sv_db s) x = Some b"
    using shaped_found [OF sh, of h] by blast
  show ?thesis
  proof (cases r)
    case None
    then show ?thesis
      using False hs r(1) err by (simp add: read_multiple_cb_def Let_def)
  next
    case (Some x)
    obtain b where b: "attribute_at (sv_db s) x = Some b"
      using r(2) [OF Some] by blast
    note cases = read_attribute_cases [OF sh b, of env 0 BT_ATT_OP_READ_MULT_REQ READ_MULTIPLE_COMPLETE_CB "sv_brk s"]
    show ?thesis
    proof (cases "a_read_func b")
      case None
      obtain e w n where q: "stored_result b 0 = (e, w, n)"
        by (cases "stored_result b 0")
      obtain d' l where d': "read_attribute env (sv_db s) x 0 BT_ATT_OP_READ_MULT_REQ READ_MULTIPLE_COMPLETE_CB (sv_brk s) = Some (True, Some (e, w, n), d')" "shaped d0 d'"
          "db_log d' = db_log (sv_db s) @ [l]"
        using cases None q by (auto simp del: split_paired_All)
      have "good d0 s BT_ATT_OP_READ_MULT_REQ (read_multiple_complete_cb env (s\<lparr>sv_db := d', sv_brk := sv_brk s + 1\<rparr>) (sv_brk s) data b e w n hs)"
        by (rule multiple_good [where es = "[l]"]) (use assms d'(2,3) data stored_result_ok [OF shaped_attr(1) [OF sh b] q] in simp_all)
      then show ?thesis
        using False hs r(1) Some b d'(1) by (simp add: read_multiple_cb_def Let_def data_def)
    next
      case (Some f)
      obtain d' where d': "read_attribute env (sv_db s) x 0 BT_ATT_OP_READ_MULT_REQ READ_MULTIPLE_COMPLETE_CB (sv_brk s) = Some (True, None, d')" "shaped d0 d'"
          "db_log d' = db_log (sv_db s) @ [ReadCalled f (a_read_id b + 1) 0 BT_ATT_OP_READ_MULT_REQ]"
        using cases Some by (auto simp del: split_paired_All)
      have "sv_ok d0 (s\<lparr>sv_db := d', sv_brk := sv_brk s + 1, sv_multi := Some (sv_brk s, data)\<rparr>)"
        using assms d'(2) by simp
      then show ?thesis
        using False hs r(1) \<open>r = Some x\<close> b d'(1,3) good_asked [of d0 _ s "[]" "ReadCalled f (a_read_id b + 1) 0 BT_ATT_OP_READ_MULT_REQ"]
        by (simp add: read_multiple_cb_def Let_def data_def)
    qed
  qed
qed

end
