(* ===== verification/Gatt_Server_Props.thy ===== *)
theory Gatt_Server_Props
  imports Gatt_Server_Total
begin

text \<open>What the server promises to its clients and to the application.\<close>

section \<open>Requests are answered\<close>

definition server_table :: "(u8 \<times> nat) list" where
  "server_table =
     [(BT_ATT_OP_MTU_REQ, EXCHANGE_MTU_CB), (BT_ATT_OP_READ_BY_GRP_TYPE_REQ, READ_BY_GRP_TYPE_CB), (BT_ATT_OP_READ_BY_TYPE_REQ, READ_BY_TYPE_CB),
      (BT_ATT_OP_FIND_INFO_REQ, FIND_INFO_CB), (BT_ATT_OP_FIND_BY_TYPE_REQ, FIND_BY_TYPE_VAL_CB), (BT_ATT_OP_WRITE_REQ, WRITE_CB),
      (BT_ATT_OP_WRITE_CMD, WRITE_CB), (BT_ATT_OP_READ_REQ, READ_CB), (BT_ATT_OP_READ_BLOB_REQ, READ_BLOB_CB),
      (BT_ATT_OP_READ_MULT_REQ, READ_MULTIPLE_CB), (BT_ATT_OP_PREP_WRITE_REQ, PREP_WRITE_CB), (BT_ATT_OP_EXEC_WRITE_REQ, EXEC_WRITE_CB)]"

text \<open>The handlers of the server, and no others, are registered with the transport.\<close>

definition listening :: "bt_gatt_server \<Rightarrow> bool" where
  "listening s \<longleftrightarrow> map (\<lambda>n. (an_opcode n, an_callback n, an_user_data n)) (att_notify_list (sv_att s))
     = map (\<lambda>(c, f). (c, Some f, sv_addr s)) server_table"

text \<open>The two requests that can go wrong: a comparison that reads behind a stored value, and prepared writes of 65536 bytes or more.\<close>

definition request_ok :: "bt_gatt_server \<Rightarrow> u8 \<Rightarrow> bytes \<Rightarrow> bool" where
  "request_ok s opcode pdu \<longleftrightarrow>
     (opcode = BT_ATT_OP_FIND_BY_TYPE_REQ \<and> 6 \<le> length pdu \<longrightarrow>
        gatt_db_find_by_type_value (sv_db s) 0 (le16_of (take 2 pdu)) (le16_of (take 2 (drop 2 pdu)))
          (bt_uuid16_create (le16_of (take 2 (drop 4 pdu)))) (Some (drop 6 pdu)) \<noteq> None)
     \<and> (opcode = BT_ATT_OP_PREP_WRITE_REQ \<and> 4 \<le> length pdu \<and> continues s (le16_of (take 2 pdu)) (le16_of (take 2 (drop 2 pdu))) \<longrightarrow>
        unat (pw_length (last (prep_queue s))) + (length pdu - 4) < 2 ^ 16)"

lemma handler_good:
  assumes "sv_ok d0 s" "(opcode, f) \<in> set server_table" "opcode \<noteq> BT_ATT_OP_WRITE_CMD" "length pdu < unat (att_mtu (sv_att s))" "request_ok s opcode pdu"
  shows "good d0 s opcode (sv_handler env s f opcode pdu)"
proof -
  note nums = EXCHANGE_MTU_CB_def READ_BY_GRP_TYPE_CB_def READ_BY_TYPE_CB_def FIND_INFO_CB_def FIND_BY_TYPE_VAL_CB_def WRITE_CB_def READ_CB_def
    READ_BLOB_CB_def READ_MULTIPLE_CB_def PREP_WRITE_CB_def EXEC_WRITE_CB_def
  have fbt: "good d0 s BT_ATT_OP_FIND_BY_TYPE_REQ (find_by_type_val_cb env s BT_ATT_OP_FIND_BY_TYPE_REQ pdu)" if "opcode = BT_ATT_OP_FIND_BY_TYPE_REQ"
    using find_by_type_good [OF assms(1), of pdu env] assms(5) that by (simp add: request_ok_def)
  have prep: "good d0 s BT_ATT_OP_PREP_WRITE_REQ (prep_write_cb env s BT_ATT_OP_PREP_WRITE_REQ pdu)" if "opcode = BT_ATT_OP_PREP_WRITE_REQ"
    using prep_write_good [OF assms(1,4)] assms(5) that by (simp add: request_ok_def)
  have wr: "good d0 s BT_ATT_OP_WRITE_REQ (write_cb env s BT_ATT_OP_WRITE_REQ pdu)"
    using write_good [OF assms(1), of BT_ATT_OP_WRITE_REQ env pdu] by (simp add: write_served_def att_opcodes)
  have f: "sv_handler env s EXCHANGE_MTU_CB c pdu = exchange_mtu_cb env s c pdu"
      "sv_handler env s READ_BY_GRP_TYPE_CB c pdu = read_by_grp_type_cb env s c pdu"
      "sv_handler env s READ_BY_TYPE_CB c pdu = read_by_type_cb env s c pdu"
      "sv_handler env s FIND_INFO_CB c pdu = find_info_cb env s c pdu"
      "sv_handler env s FIND_BY_TYPE_VAL_CB c pdu = find_by_type_val_cb env s c pdu"
      "sv_handler env s WRITE_CB c pdu = write_cb env s c pdu"
      "sv_handler env s READ_CB c pdu = read_cb env s c pdu"
      "sv_handler env s READ_BLOB_CB c pdu = read_blob_cb env s c pdu"
      "sv_handler env s READ_MULTIPLE_CB c pdu = read_multiple_cb env s c pdu"
      "sv_handler env s PREP_WRITE_CB c pdu = prep_write_cb env s c pdu"
      "sv_handler env s EXEC_WRITE_CB c pdu = exec_write_cb env s c pdu" for c
    by (simp_all add: sv_handler_def nums)
  show ?thesis
    using assms(2,3) unfolding server_table_def
    by (auto simp: f exchange_mtu_good [OF assms(1)] read_by_grp_good [OF assms(1)] read_by_type_good [OF assms(1)] find_info_good [OF assms(1)]
        read_good [OF assms(1)] read_multiple_good [OF assms(1)] exec_write_good [OF assms(1)] wr fbt prep)
qed

lemma table_types:
  assumes "(opcode, f) \<in> set server_table" "opcode \<noteq> BT_ATT_OP_WRITE_CMD"
  shows "get_op_type opcode = ATT_OP_TYPE_REQ" "opcode AND ATT_OP_SIGNED_MASK = 0"
proof -
  have "\<forall>(c, f)\<in>set server_table. c \<noteq> BT_ATT_OP_WRITE_CMD \<longrightarrow> get_op_type c = ATT_OP_TYPE_REQ \<and> c AND ATT_OP_SIGNED_MASK = 0"
    by (simp add: server_table_def get_op_type_def att_opcode_type_table_def att_opcodes ATT_OP_SIGNED_MASK_def)
  then show "get_op_type opcode = ATT_OP_TYPE_REQ" "opcode AND ATT_OP_SIGNED_MASK = 0"
    using assms by blast+
qed

lemma table_events:
  assumes "listening s" "(opcode, f) \<in> set server_table"
  shows "notify_events (sv_att s) opcode pdu = [NotifyCallback f (sv_addr s) opcode pdu]"
    "\<exists>n\<in>set (att_notify_list (sv_att s)). opcode_match (an_opcode n) opcode"
proof -
  define g where "g = (\<lambda>(c, cb, ud). if opcode_match c opcode then (case cb of None \<Rightarrow> [] | Some f \<Rightarrow> [NotifyCallback f ud opcode pdu]) else [])"
  have "notify_events (sv_att s) opcode pdu = concat (map g (map (\<lambda>n. (an_opcode n, an_callback n, an_user_data n)) (att_notify_list (sv_att s))))"
    by (simp add: notify_events_def g_def comp_def)
  also have "\<dots> = concat (map (\<lambda>(c, f). if opcode_match c opcode then [NotifyCallback f (sv_addr s) opcode pdu] else []) server_table)"
    unfolding assms(1) [unfolded listening_def] map_map by (intro arg_cong [of _ _ concat] map_cong refl) (auto simp: g_def)
  also have "\<dots> = [NotifyCallback f (sv_addr s) opcode pdu]"
  proof -
    have all: "c \<noteq> BT_ATT_ALL_REQUESTS" if "(c, f) \<in> set server_table" for c f
      using that by (auto simp: server_table_def att_opcodes BT_ATT_ALL_REQUESTS_def)
    have "concat (map (\<lambda>(c, f). if opcode_match c opcode then [NotifyCallback f (sv_addr s) opcode pdu] else []) xs)
        = map (\<lambda>(c, f). NotifyCallback f (sv_addr s) opcode pdu) (filter (\<lambda>(c, f). c = opcode) xs)" if "set xs \<subseteq> set server_table" for xs
      using that all by (induction xs) (auto simp: opcode_match_def)
    moreover have "filter (\<lambda>(c, f). c = opcode) server_table = [(opcode, f)]"
      using assms(2) by (auto simp: server_table_def att_opcodes)
    ultimately show ?thesis
      by simp
  qed
  finally show "notify_events (sv_att s) opcode pdu = [NotifyCallback f (sv_addr s) opcode pdu]" .
  have "(opcode, Some f, sv_addr s) \<in> set (map (\<lambda>n. (an_opcode n, an_callback n, an_user_data n)) (att_notify_list (sv_att s)))"
    unfolding assms(1) [unfolded listening_def] using assms(2) by force
  then show "\<exists>n\<in>set (att_notify_list (sv_att s)). opcode_match (an_opcode n) opcode"
    by (auto simp: opcode_match_def)
qed

text \<open>The state in which the handler of a request runs.\<close>

definition taken :: "bt_gatt_server \<Rightarrow> att_event list \<Rightarrow> bt_gatt_server" where
  "taken s es = s\<lparr>sv_att := att_emit es ((sv_att s)\<lparr>in_req := True\<rparr>)\<rparr>"

lemma receive_request:
  assumes "listening s" "\<not> in_req (sv_att s)" "(opcode, f) \<in> set server_table" "opcode \<noteq> BT_ATT_OP_WRITE_CMD"
  shows "server_receive env s (Some (opcode # pdu))
    = map_option (Pair True) (sv_handler env (taken s [NotifyCallback f (sv_addr s) opcode pdu]) f opcode pdu)"
proof -
  note t = table_types [OF assms(3,4)]
  note e = table_events(1) [OF assms(1,3), of pdu] table_events(2) [OF assms(1,3)]
  have n: "notify_events ((sv_att s)\<lparr>in_req := True\<rparr>) opcode pdu = [NotifyCallback f (sv_addr s) opcode pdu]"
    using e(1) by (simp add: notify_events_def)
  let ?att = "att_emit [NotifyCallback f (sv_addr s) opcode pdu] ((sv_att s)\<lparr>in_req := True\<rparr>)"
  have "can_read_data (e_att env) (sv_att s) (Some (opcode # pdu)) = Some (True, ?att)"
    using assms(2) t e(2) n by (simp add: can_read_data_def att_handle_notify_def Let_def)
  moreover have "drop (length (att_log (sv_att s))) (att_log ?att) = [NotifyCallback f (sv_addr s) opcode pdu]"
    by (simp add: att_emit_def)
  ultimately show ?thesis
    by (cases "sv_handler env (taken s [NotifyCallback f (sv_addr s) opcode pdu]) f opcode pdu") (simp_all add: server_receive_def taken_def)
qed

text \<open>C19.  Every request is answered.  On a transport whose handlers are those of the server, while no request is
  unanswered, the receipt of a request that the server handles is defined and keeps the invariant of the server.  It
  queues exactly one PDU, the error response that names the request or the response that belongs to it, within the MTU,
  or it asks the application and queues nothing.  Excluded are a Find By Type Value request that makes the comparison read
  behind a stored value, and prepared writes that reach 65536 bytes.\<close>

theorem server_answers:
  assumes "sv_ok d0 s" "listening s" "\<not> in_req (sv_att s)" "(opcode, f) \<in> set server_table" "opcode \<noteq> BT_ATT_OP_WRITE_CMD"
    and "length pdu < unat (att_mtu (sv_att s))" "request_ok s opcode pdu"
  shows "\<exists>s'. server_receive env s (Some (opcode # pdu)) = Some (True, s') \<and> sv_ok d0 s' \<and> listening s' \<and>
    ((\<exists>op. write_queue (sv_att s') = write_queue (sv_att s) @ [op] \<and> is_answer opcode (op_pdu op) \<and> length (op_pdu op) \<le> unat (att_mtu (sv_att s)))
     \<or> write_queue (sv_att s') = write_queue (sv_att s) \<and> asked s s')"
proof -
  define s1 where "s1 = taken s [NotifyCallback f (sv_addr s) opcode pdu]"
  have s1: "att_mtu (sv_att s1) = att_mtu (sv_att s)" "sv_db s1 = sv_db s" "prep_queue s1 = prep_queue s" "sv_addr s1 = sv_addr s"
      "write_queue (sv_att s1) = write_queue (sv_att s)" "att_notify_list (sv_att s1) = att_notify_list (sv_att s)"
    by (simp_all add: s1_def taken_def att_emit_def)
  have ok: "sv_ok d0 s1" "request_ok s1 opcode pdu"
    using assms(1,7) by (simp_all add: s1_def taken_def att_emit_def sv_ok_def request_ok_def continues_def)
  obtain s' where s': "sv_handler env s1 f opcode pdu = Some s'" "sv_ok d0 s'" "served s1 s' opcode" "sv_addr s' = sv_addr s1"
    using handler_good [OF ok(1) assms(4,5) _ ok(2)] assms(6) s1(1) by (auto simp: good_def)
  have "listening s'"
    using assms(2) s'(3,4) s1(4,6) by (auto simp: listening_def served_def dest!: replied_fields(3))
  moreover have "(\<exists>op. write_queue (sv_att s') = write_queue (sv_att s) @ [op] \<and> is_answer opcode (op_pdu op) \<and> length (op_pdu op) \<le> unat (att_mtu (sv_att s)))
     \<or> write_queue (sv_att s') = write_queue (sv_att s) \<and> asked s s'"
    using s'(3) s1(1,2,5) by (fastforce simp: served_def replied_def asked_def dest: arg_cong [of _ _ write_queue])
  ultimately show ?thesis
    using receive_request [OF assms(2-5), where env = env and pdu = pdu] s'(1,2) by (simp add: s1_def)
qed

section \<open>Replies of single requests\<close>

definition at_handle :: "bt_gatt_server \<Rightarrow> u16 \<Rightarrow> attr_ptr \<Rightarrow> gatt_db_attribute \<Rightarrow> bool" where
  "at_handle s h x a \<longleftrightarrow> gatt_db_get_attribute (Some (sv_db s)) h = Some (Some x) \<and> attribute_at (sv_db s) x = Some a"

lemma send_replies:
  assumes "sv_ok d0 s" "get_op_type rc = ATT_OP_TYPE_RSP" "unat n < unat (att_mtu (sv_att s))" "case pdu of None \<Rightarrow> n = 0 | Some b \<Rightarrow> unat n \<le> length b"
  shows "\<exists>att'. sv_send env s rc pdu n = Some (s\<lparr>sv_att := att'\<rparr>) \<and> replied (sv_att s) att' (rc # take (unat n) (case pdu of None \<Rightarrow> [] | Some b \<Rightarrow> b))"
proof -
  obtain i att' where "bt_att_send (e_att env) (sv_att s) rc pdu n None 0 None = Some (i, att')"
      "replied (sv_att s) att' (rc # take (unat n) (case pdu of None \<Rightarrow> [] | Some b \<Rightarrow> b))"
    using att_send_rsp [of "sv_att s" rc n pdu "e_att env"] assms by (auto simp: sv_ok_def)
  then show ?thesis
    by (intro exI [of _ att']) (simp add: sv_send_def)
qed

lemma error_replies:
  assumes "sv_ok d0 s" "opcode \<noteq> 0"
  shows "\<exists>att'. sv_error env s opcode h e = Some (s\<lparr>sv_att := att'\<rparr>) \<and> replied (sv_att s) att' (BT_ATT_OP_ERROR_RSP # opcode # le16 h @ [att_ecode_from_error e])"
proof -
  have t: "get_op_type BT_ATT_OP_ERROR_RSP = ATT_OP_TYPE_RSP"
    by (simp add: get_op_type_def att_opcode_type_table_def att_opcodes)
  let ?b = "[opcode] @ le16 h @ [att_ecode_from_error e]"
  obtain att' where "sv_send env s BT_ATT_OP_ERROR_RSP (Some ?b) 4 = Some (s\<lparr>sv_att := att'\<rparr>)" "replied (sv_att s) att' (BT_ATT_OP_ERROR_RSP # ?b)"
    using send_replies [OF assms(1) t, of 4 "Some ?b" env] assms(1) by (auto simp: sv_ok_def)
  then show ?thesis
    using assms(2) by (auto simp: sv_send_def sv_error_def bt_att_send_error_rsp_def)
qed

lemma rsp_types:
  "get_op_type BT_ATT_OP_READ_RSP = ATT_OP_TYPE_RSP" "get_op_type BT_ATT_OP_WRITE_RSP = ATT_OP_TYPE_RSP" "get_op_type BT_ATT_OP_PREP_WRITE_RSP = ATT_OP_TYPE_RSP"
  "get_op_type BT_ATT_OP_EXEC_WRITE_RSP = ATT_OP_TYPE_RSP" "get_op_type BT_ATT_OP_FIND_INFO_RSP = ATT_OP_TYPE_RSP" "get_op_type BT_ATT_OP_MTU_RSP = ATT_OP_TYPE_RSP"
  by (simp_all add: get_op_type_def att_opcode_type_table_def att_opcodes)

lemma pdu_le16_le16 [simp]: "pdu_le16 (le16 h @ r) 0 = Some h" "pdu_le16 (le16 h @ le16 k @ r) 2 = Some k"
  using le16_of_le16 [of h "[]"] le16_of_le16 [of k "[]"] by (simp_all add: pdu_le16_Some)

lemma same_security: "replied att att' p \<Longrightarrow> bt_att_get_security env att' = bt_att_get_security env att"
  by (auto simp: replied_def bt_att_get_security_def)

lemma check_permissions_same:
  assumes "bt_att_get_security (e_att env) (sv_att s') = bt_att_get_security (e_att env) (sv_att s)" "erase_attr a' = erase_attr a"
  shows "check_permissions env s' a' msk = check_permissions env s a msk"
proof -
  have "a_permissions a' = a_permissions a"
    using arg_cong [OF assms(2), of a_permissions] by simp
  then show ?thesis
    using assms(1) by (simp add: check_permissions_def gatt_db_attribute_get_permissions_def Let_def)
qed

text \<open>A stored value of any length is sent up to the MTU.\<close>

lemma read_complete_replies:
  assumes "sv_ok d0 s" "pending_read_op s = Some (addr, op)" "ro_opcode op = BT_ATT_OP_READ_REQ" "length v = n" "w = (if n = 0 then r else Some v)"
  shows "\<exists>att'. read_complete_cb env s a 0 w n addr = Some (s\<lparr>sv_att := att', pending_read_op := None\<rparr>)
    \<and> replied (sv_att s) att' (BT_ATT_OP_READ_RSP # take (unat (att_mtu (sv_att s)) - 1) v)"
proof -
  let ?m = "unat (att_mtu (sv_att s))" and ?n = "of_nat (min (unat (att_mtu (sv_att s)) - 1) n) :: u16"
  have m: "23 \<le> ?m"
    using assms(1) by (simp add: sv_ok_def)
  have n: "unat ?n = min (?m - 1) n" "unat ?n < ?m"
    using below_mtu [of "min (?m - 1) n" "att_mtu (sv_att s)"] m by auto
  let ?w = "if n \<noteq> 0 then w else None"
  have c: "case ?w of None \<Rightarrow> ?n = 0 | Some b \<Rightarrow> unat ?n \<le> length b"
    using assms(4,5) n by auto
  have t: "take (unat ?n) (case ?w of None \<Rightarrow> [] | Some b \<Rightarrow> b) = take (?m - 1) v"
    using assms(4,5) unfolding n(1) by (auto simp: min_def)
  obtain att' where "sv_send env s BT_ATT_OP_READ_RSP ?w ?n = Some (s\<lparr>sv_att := att'\<rparr>)"
      "replied (sv_att s) att' (BT_ATT_OP_READ_RSP # take (?m - 1) v)"
    using send_replies [OF assms(1) rsp_types(1) n(2) c, of env] unfolding t by blast
  then show ?thesis
    using assms(2,3) by (intro exI [of _ att']) (simp add: read_complete_cb_def get_read_rsp_opcode_def)
qed

text \<open>The database keeps its structure: handles stay where they are.\<close>

lemma at_handle_shaped:
  assumes "shaped d0 (sv_db s)" "shaped d0 (sv_db s')" "at_handle s h x a"
  shows "\<exists>a'. at_handle s' h x a' \<and> erase_attr a' = erase_attr a"
proof -
  have "gatt_db_get_attribute (Some (sv_db s')) h = gatt_db_get_attribute (Some (sv_db s)) h"
    using assms(1,2) get_attribute_erase [of "sv_db s" h] get_attribute_erase [of "sv_db s'" h] by (simp add: shaped_def)
  moreover have "map_option erase_attr (attribute_at (sv_db s') x) = map_option erase_attr (attribute_at (sv_db s) x)"
    using shaped_lookup(1) [OF assms(1)] shaped_lookup(1) [OF assms(2)] by simp
  ultimately show ?thesis
    using assms(3) by (cases "attribute_at (sv_db s') x") (auto simp: at_handle_def)
qed

lemma write_request_ok:
  assumes "sv_ok d0 s" "at_handle s h x a" "attr_ok a" "a_write_func a = None" "check_permissions env s a WRITE_MASK = 0" "pending_write_op s = None"
    and "bs \<noteq> []" "length bs < 2 ^ 16"
  shows "\<exists>s' b. write_cb env s BT_ATT_OP_WRITE_REQ (le16 h @ bs) = Some s' \<and> replied (sv_att s) (sv_att s') [BT_ATT_OP_WRITE_RSP] \<and> sv_ok d0 s'
    \<and> at_handle s' h x b \<and> value_bytes b = bs @ drop (length bs) (value_bytes a) \<and> attr_ok b \<and> erase_attr b = erase_attr a
    \<and> pending_read_op s' = pending_read_op s \<and> pending_write_op s' = None"
proof -
  note sh = sv_ok_shaped [OF assms(1)]
  have a: "attribute_at (sv_db s) x = Some a"
    using assms(2) by (simp add: at_handle_def)
  obtain b where b: "write_stored a 0 bs (e_junk env) = Some b" "attr_ok b" "value_bytes b = bs @ drop (length bs) (value_bytes a)"
    using write_stored_ok [OF assms(3,7), of 0 "e_junk env"] assms(8) by auto
  obtain d' where d': "shaped d0 d'" "write_attribute env (sv_db s) x 0 bs BT_ATT_OP_WRITE_REQ WRITE_COMPLETE_CB (sv_brk s) = Some (True, Some (0, None, 0), d')"
      "attribute_at d' x = Some b"
    using write_attribute_cases [OF sh a, of 0 bs env BT_ATT_OP_WRITE_REQ WRITE_COMPLETE_CB "sv_brk s"] assms(4) b(1) by (auto simp del: split_paired_All)
  define s1 where "s1 = s\<lparr>pending_write_op := Some (sv_brk s, \<lparr>wo_opcode = BT_ATT_OP_WRITE_REQ\<rparr>), sv_brk := sv_brk s + 1, sv_db := d'\<rparr>"
  have ok: "sv_ok d0 s1"
    using assms(1) d'(1) by (simp add: s1_def)
  obtain att' where r: "sv_send env s1 BT_ATT_OP_WRITE_RSP None 0 = Some (s1\<lparr>sv_att := att'\<rparr>)" "replied (sv_att s1) att' [BT_ATT_OP_WRITE_RSP]"
    using send_replies [OF ok rsp_types(2), of 0 None env] ok by (auto simp: sv_ok_def)
  let ?s = "s1\<lparr>sv_att := att', pending_write_op := None\<rparr>"
  have "write_cb env s BT_ATT_OP_WRITE_REQ (le16 h @ bs) = Some ?s"
    using assms(2,5,6) d'(2,3) r(1) by (simp add: write_cb_def Let_def at_handle_def write_complete_cb_def s1_def att_opcodes)
  moreover have "sv_ok d0 ?s"
    using replied_att_ok [OF ok r(2)] by simp
  moreover obtain b' where "at_handle ?s h x b'" "erase_attr b' = erase_attr a"
    using at_handle_shaped [OF sh sv_ok_shaped [OF \<open>sv_ok d0 ?s\<close>] assms(2)] by blast
  then have "at_handle ?s h x b" "erase_attr b = erase_attr a"
    using d'(3) by (simp_all add: at_handle_def s1_def)
  ultimately show ?thesis
    using r(2) b(2,3) by (intro exI [of _ ?s] exI [of _ b]) (simp add: s1_def)
qed

lemma read_request_ok:
  assumes "sv_ok d0 s" "at_handle s h x a" "attr_ok a" "a_read_func a = None" "check_permissions env s a READ_MASK = 0" "pending_read_op s = None"
  shows "\<exists>s'. read_cb env s BT_ATT_OP_READ_REQ (le16 h) = Some s'
    \<and> replied (sv_att s) (sv_att s') (BT_ATT_OP_READ_RSP # take (unat (att_mtu (sv_att s)) - 1) (value_bytes a))"
proof -
  note sh = sv_ok_shaped [OF assms(1)]
  have a: "attribute_at (sv_db s) x = Some a"
    using assms(2) by (simp add: at_handle_def)
  have len: "unat (a_value_len a) = length (value_bytes a)"
    using assms(3) by (auto simp: attr_ok_def value_bytes_def split: option.splits)
  define w where "w = (if value_bytes a = [] then None else Some (value_bytes a))"
  have st: "stored_result a 0 = (0, w, length (value_bytes a))"
    using len by (simp add: stored_result_def w_def)
  obtain d' where d': "shaped d0 d'" "read_attribute env (sv_db s) x 0 BT_ATT_OP_READ_REQ READ_COMPLETE_CB (sv_brk s) = Some (True, Some (0, w, length (value_bytes a)), d')"
    using read_attribute_cases [OF sh a, of env 0 BT_ATT_OP_READ_REQ READ_COMPLETE_CB "sv_brk s"] assms(4) st by (auto simp del: split_paired_All)
  define op where "op = \<lparr>ro_opcode = BT_ATT_OP_READ_REQ, ro_done = False, ro_pdu = [], ro_pdu_len = 0, ro_value_len = 0, ro_db_data = []\<rparr>"
  define s1 where "s1 = s\<lparr>pending_read_op := Some (sv_brk s, op), sv_brk := sv_brk s + 1, sv_db := d'\<rparr>"
  have ok: "sv_ok d0 s1"
    using assms(1) d'(1) by (simp add: s1_def)
  obtain att' where r: "read_complete_cb env s1 a 0 w (length (value_bytes a)) (sv_brk s) = Some (s1\<lparr>sv_att := att', pending_read_op := None\<rparr>)"
      "replied (sv_att s1) att' (BT_ATT_OP_READ_RSP # take (unat (att_mtu (sv_att s1)) - 1) (value_bytes a))"
    using read_complete_replies [OF ok, of "sv_brk s" op "value_bytes a" "length (value_bytes a)" w None env a] by (auto simp: s1_def op_def w_def)
  have g: "pdu_le16 (le16 h) 0 = Some h"
    using pdu_le16_le16(1) [of h "[]"] by simp
  have "read_cb env s BT_ATT_OP_READ_REQ (le16 h) = read_complete_cb env s1 a 0 w (length (value_bytes a)) (sv_brk s)"
    using assms(2,5,6) d'(2) g by (simp add: read_cb_def handle_read_req_def Let_def at_handle_def s1_def op_def)
  then show ?thesis
    using r by (simp add: s1_def)
qed

text \<open>C21.  For a stored attribute that may be written and read, while no other operation is pending: a Write Request of
  some bytes is acknowledged, and a Read Request then answers with these bytes and what the old value had behind them, cut
  to MTU - 1 bytes.  Writing is permitted where the permissions are 0, as for the declarations of services.\<close>

theorem write_request_read_back:
  assumes "sv_ok d0 s" "at_handle s h x a" "attr_ok a" "a_write_func a = None" "a_read_func a = None" "pending_write_op s = None" "pending_read_op s = None"
    and "check_permissions env s a WRITE_MASK = 0" "check_permissions env s a READ_MASK = 0" "bs \<noteq> []" "length bs < 2 ^ 16"
  shows "\<exists>s1 s2. write_cb env s BT_ATT_OP_WRITE_REQ (le16 h @ bs) = Some s1 \<and> replied (sv_att s) (sv_att s1) [BT_ATT_OP_WRITE_RSP]
    \<and> read_cb env s1 BT_ATT_OP_READ_REQ (le16 h) = Some s2
    \<and> replied (sv_att s1) (sv_att s2) (BT_ATT_OP_READ_RSP # take (unat (att_mtu (sv_att s)) - 1) (bs @ drop (length bs) (value_bytes a)))"
proof -
  obtain s1 b where s1: "write_cb env s BT_ATT_OP_WRITE_REQ (le16 h @ bs) = Some s1" "replied (sv_att s) (sv_att s1) [BT_ATT_OP_WRITE_RSP]" "sv_ok d0 s1"
      "at_handle s1 h x b" "value_bytes b = bs @ drop (length bs) (value_bytes a)" "attr_ok b" "erase_attr b = erase_attr a"
      "pending_read_op s1 = pending_read_op s"
    using write_request_ok [OF assms(1-4,8,6,10,11)] by blast
  have rf: "a_read_func b = None"
    using arg_cong [OF s1(7), of a_read_func] assms(5) by simp
  have cp: "check_permissions env s1 b READ_MASK = 0"
    using check_permissions_same [OF same_security [OF s1(2)] s1(7)] assms(9) by simp
  show ?thesis
    using read_request_ok [OF s1(3,4,6) rf cp] s1 assms(7) replied_fields(2) [OF s1(2)] by auto
qed

section \<open>Reads that the application answers later\<close>

lemma find_pending_last: "find (find_pending i) ps = None \<Longrightarrow> find (find_pending i) (ps @ [p]) = (if pd_id p = i then Some p else None)"
  by (induction ps) (auto simp: find_pending_def split: if_splits)

lemma sv_read_result_ok:
  assumes "sv_ok d0 s" "attribute_at (sv_db s) x = Some a" "i \<noteq> 0" "find (find_pending i) (a_pending_reads a) = Some p" "pd_func p = READ_COMPLETE_CB" "sv_multi s = None"
  shows "\<exists>s1 b. sv_ok d0 s1 \<and> sv_att s1 = sv_att s \<and> pending_read_op s1 = pending_read_op s \<and> a_handle b = a_handle a
    \<and> sv_read_result env s nested x i err v n = read_complete_cb env s1 b err v n (pd_user_data p)"
proof -
  define b where "b = a\<lparr>a_pending_reads := remove_first (find_pending i) (a_pending_reads a)\<rparr>"
  have b: "erase_attr b = erase_attr a" "val_ok b" "a_handle b = a_handle a"
    using shaped_attr(1) [OF sv_ok_shaped [OF assms(1)] assms(2)] by (simp_all add: b_def erase_attr_def val_ok_def value_bytes_def)
  obtain d' where d': "set_attribute (sv_db s) x b = Some d'" "shaped d0 d'"
    using set_attribute_shaped [OF sv_ok_shaped [OF assms(1)] assms(2) b(1,2)] by blast
  let ?s = "s\<lparr>sv_db := emit (pending_read_result p err v n) d', sv_multi := None\<rparr>"
  have "READ_COMPLETE_CB \<noteq> READ_BY_TYPE_COMPLETE_CB"
    by (simp add: READ_COMPLETE_CB_def READ_BY_TYPE_COMPLETE_CB_def)
  then have "sv_read_result env s nested x i err v n = read_complete_cb env ?s b err v n (pd_user_data p)"
    using assms(2-6) d'(1) by (simp add: sv_read_result_def gatt_db_attribute_read_result_def read_done_def b_def)
  moreover have "sv_ok d0 ?s"
    using assms(1) d'(2) by simp
  ultimately show ?thesis
    using b(3) by (intro exI [of _ ?s] exI [of _ b]) simp
qed

text \<open>The answers that the application can give to a deferred read.\<close>

definition deferred_answer :: "u16 \<Rightarrow> nat \<Rightarrow> int \<Rightarrow> bytes \<Rightarrow> bytes" where
  "deferred_answer h mtu err v =
     (if err = 0 then BT_ATT_OP_READ_RSP # take (mtu - 1) v
      else BT_ATT_OP_ERROR_RSP # BT_ATT_OP_READ_REQ # le16 h @ [att_ecode_from_error err])"

text \<open>C24.  A Read Request for an attribute with a read function that may be read, while no other operation is pending and
  the next id is neither 0 nor in use, sends nothing and calls the function with this id.
  Whatever result the application gives for this id later is answered: a value with a Read Response, cut to the MTU, an
  error with an error response that names the handle.\<close>

theorem deferred_read_answered:
  assumes "sv_ok d0 s" "at_handle s h x a" "a_read_func a = Some f" "check_permissions env s a READ_MASK = 0" "pending_read_op s = None" "sv_multi s = None"
    and "a_read_id a + 1 \<noteq> 0" "find (find_pending (a_read_id a + 1)) (a_pending_reads a) = None"
  shows "\<exists>s1. read_cb env s BT_ATT_OP_READ_REQ (le16 h) = Some s1 \<and> sv_att s1 = sv_att s
    \<and> db_log (sv_db s1) = db_log (sv_db s) @ [ReadCalled f (a_read_id a + 1) 0 BT_ATT_OP_READ_REQ]
    \<and> (\<forall>err v. \<exists>s2. sv_read_result env s1 nested x (a_read_id a + 1) err (Some v) (length v) = Some s2 \<and> pending_read_op s2 = None
        \<and> replied (sv_att s) (sv_att s2) (deferred_answer (a_handle a) (unat (att_mtu (sv_att s))) err v))"
proof -
  note sh = sv_ok_shaped [OF assms(1)]
  have a: "attribute_at (sv_db s) x = Some a"
    using assms(2) by (simp add: at_handle_def)
  define op where "op = \<lparr>ro_opcode = BT_ATT_OP_READ_REQ, ro_done = False, ro_pdu = [], ro_pdu_len = 0, ro_value_len = 0, ro_db_data = []\<rparr>"
  define p where "p = \<lparr>pd_id = a_read_id a + 1, pd_timeout_id = e_tid env, pd_func = READ_COMPLETE_CB, pd_user_data = sv_brk s\<rparr>"
  define a1 where "a1 = a\<lparr>a_read_id := a_read_id a + 1, a_pending_reads := a_pending_reads a @ [p]\<rparr>"
  obtain d' where d': "shaped d0 d'" "read_attribute env (sv_db s) x 0 BT_ATT_OP_READ_REQ READ_COMPLETE_CB (sv_brk s) = Some (True, None, d')"
      "db_log d' = db_log (sv_db s) @ [ReadCalled f (a_read_id a + 1) 0 BT_ATT_OP_READ_REQ]" "attribute_at d' x = Some a1"
    using read_attribute_cases [OF sh a, of env 0 BT_ATT_OP_READ_REQ READ_COMPLETE_CB "sv_brk s"] assms(3) by (auto simp: a1_def p_def simp del: split_paired_All)
  define s1 where "s1 = s\<lparr>pending_read_op := Some (sv_brk s, op), sv_brk := sv_brk s + 1, sv_db := d'\<rparr>"
  have ok: "sv_ok d0 s1"
    using assms(1) d'(1) by (simp add: s1_def)
  have g: "pdu_le16 (le16 h) 0 = Some h"
    using pdu_le16_le16(1) [of h "[]"] by simp
  have read: "read_cb env s BT_ATT_OP_READ_REQ (le16 h) = Some s1"
    using assms(2,4,5) d'(2) g by (simp add: read_cb_def handle_read_req_def Let_def at_handle_def s1_def op_def)
  have "\<exists>s2. sv_read_result env s1 nested x (a_read_id a + 1) err (Some v) (length v) = Some s2 \<and> pending_read_op s2 = None
        \<and> replied (sv_att s) (sv_att s2) (deferred_answer (a_handle a) (unat (att_mtu (sv_att s))) err v)" for err v
  proof -
    have f: "find (find_pending (a_read_id a + 1)) (a_pending_reads a1) = Some p"
      using find_pending_last [OF assms(8), of p] by (simp add: a1_def p_def)
    have at: "attribute_at (sv_db s1) x = Some a1"
      using d'(4) by (simp add: s1_def)
    obtain s2 b where s2: "sv_ok d0 s2" "sv_att s2 = sv_att s" "pending_read_op s2 = Some (sv_brk s, op)" "a_handle b = a_handle a"
        "sv_read_result env s1 nested x (a_read_id a + 1) err (Some v) (length v) = read_complete_cb env s2 b err (Some v) (length v) (sv_brk s)"
      using sv_read_result_ok [OF ok at assms(7) f, of env nested err "Some v" "length v"] assms(6) by (auto simp: s1_def p_def a1_def)
    show ?thesis
    proof (cases "err = 0")
      case True
      obtain att' where "read_complete_cb env s2 b 0 (Some v) (length v) (sv_brk s) = Some (s2\<lparr>sv_att := att', pending_read_op := None\<rparr>)"
          "replied (sv_att s2) att' (BT_ATT_OP_READ_RSP # take (unat (att_mtu (sv_att s2)) - 1) v)"
        using read_complete_replies [OF s2(1,3), of v "length v" "Some v" "Some v" env b] by (auto simp: op_def)
      then show ?thesis
        using True s2(2,5) by (simp add: deferred_answer_def)
    next
      case False
      obtain att' where "sv_error env s2 BT_ATT_OP_READ_REQ (a_handle a) err = Some (s2\<lparr>sv_att := att'\<rparr>)"
          "replied (sv_att s2) att' (BT_ATT_OP_ERROR_RSP # BT_ATT_OP_READ_REQ # le16 (a_handle a) @ [att_ecode_from_error err])"
        using error_replies [OF s2(1) req_opcodes(5)] by blast
      then show ?thesis
        using False s2(2-5) by (simp add: deferred_answer_def read_complete_cb_def op_def gatt_db_attribute_get_handle_def)
    qed
  qed
  then show ?thesis
    using read d'(3) by (intro exI [of _ s1]) (simp add: s1_def)
qed

section \<open>Find Information\<close>

lemma find_info_replies:
  assumes "sv_ok d0 s" "lo \<noteq> 0" "lo \<le> hi" "q = map fst (filter (\<lambda>x. in_range lo hi (snd x)) (active_attrs d0))"
  shows "\<exists>att'. find_info_cb env s BT_ATT_OP_FIND_INFO_REQ (le16 lo @ le16 hi) = Some (s\<lparr>sv_att := att'\<rparr>) \<and> replied (sv_att s) att'
    (if q = [] then BT_ATT_OP_ERROR_RSP # BT_ATT_OP_FIND_INFO_REQ # le16 lo @ [0x0A]
     else BT_ATT_OP_FIND_INFO_RSP # info_content (sv_db s) (att_mtu (sv_att s)) q)"
proof -
  note sh = sv_ok_shaped [OF assms(1)]
  have d0: "db_ok d0" "gatt_db_find_information (sv_db s) lo hi [] = gatt_db_find_information d0 lo hi []"
    using sh queries_erase(1) [of "sv_db s"] queries_erase(1) [of d0] by (auto simp: shaped_def)
  have q: "gatt_db_find_information (sv_db s) lo hi [] = Some q"
    unfolding d0(2) query_filters(1) [OF d0(1) uuid_ok_const(4)] assms(4) by simp
  have valid: "\<forall>x\<in>set q. info_valid (sv_db s) () x"
    using query_valid(1) [OF sh uuid_ok_const(4), of lo hi] q shaped_attr(2,3) [OF sh] by (fastforce simp: info_valid_def)
  have g: "pdu_le16 (le16 lo @ le16 hi) 0 = Some lo" "pdu_le16 (le16 lo @ le16 hi) 2 = Some hi"
    using pdu_le16_le16(2) [of lo hi "[]"] by simp_all
  have nlt: "\<not> hi < lo"
    using assms(3) by simp
  have hi: "hi \<noteq> 0"
    using assms(2,3) by (auto simp: word_le_nat_alt unat_eq_0)
  let ?m = "att_mtu (sv_att s)"
  have m: "23 \<le> unat ?m"
    using assms(1) by (simp add: sv_ok_def)
  show ?thesis
  proof (cases "q = []")
    case True
    have e: "att_ecode_from_error BT_ATT_ERROR_ATTRIBUTE_NOT_FOUND = 0x0A"
      by (simp add: att_ecode_from_error_def BT_ATT_ERROR_ATTRIBUTE_NOT_FOUND_def)
    obtain att' where "sv_error env s BT_ATT_OP_FIND_INFO_REQ lo BT_ATT_ERROR_ATTRIBUTE_NOT_FOUND = Some (s\<lparr>sv_att := att'\<rparr>)"
        "replied (sv_att s) att' (BT_ATT_OP_ERROR_RSP # BT_ATT_OP_FIND_INFO_REQ # le16 lo @ [0x0A])"
      using error_replies [OF assms(1) req_opcodes(2), of env lo BT_ATT_ERROR_ATTRIBUTE_NOT_FOUND] e by auto
    then show ?thesis
      using g q True assms(2) hi nlt by (intro exI [of _ att']) (simp add: find_info_cb_def Let_def)
  next
    case False
    let ?c = "info_content (sv_db s) ?m q"
    obtain p where p: "encode_find_info_rsp (sv_db s) q ?m (junk_buffer env (unat ?m)) 0 0 = Some (True, p, length ?c)" "length p = unat ?m"
        "take (length ?c) p = ?c" "length ?c \<le> unat ?m - 1"
      using find_info_content [OF False valid _ m, of "junk_buffer env (unat ?m)"] by auto
    have n: "unat (of_nat (length ?c) :: u16) = length ?c" "length ?c < unat ?m"
      using below_mtu [OF p(4) m] by simp_all
    obtain att' where "sv_send env s BT_ATT_OP_FIND_INFO_RSP (Some p) (of_nat (length ?c)) = Some (s\<lparr>sv_att := att'\<rparr>)"
        "replied (sv_att s) att' (BT_ATT_OP_FIND_INFO_RSP # ?c)"
      using send_replies [OF assms(1) rsp_types(5), of "of_nat (length ?c)" "Some p" env] n p(2,3) by auto
    then show ?thesis
      using g q False assms(2) hi nlt p(1) by (intro exI [of _ att']) (simp add: find_info_cb_def Let_def)
  qed
qed

text \<open>C36.  In a valid state of the server (the database well formed, the MTU at least 23), a Find Information request for
  the handles from \<open>lo\<close> to \<open>hi\<close>, where \<open>0 < lo \<le> hi\<close>, is answered with the active attributes in this range, in their order: the first one, and those behind it as long as their UUIDs have the same size and there is room.
  Without any attribute in the range the answer is the error Attribute Not Found.\<close>

theorem find_info_answer:
  assumes "sv_ok d0 s" "lo \<noteq> 0" "lo \<le> hi" "q = map fst (filter (\<lambda>x. in_range lo hi (snd x)) (active_attrs d0))"
  shows "\<exists>s'. find_info_cb env s BT_ATT_OP_FIND_INFO_REQ (le16 lo @ le16 hi) = Some s' \<and> replied (sv_att s) (sv_att s')
    (if q = [] then BT_ATT_OP_ERROR_RSP # BT_ATT_OP_FIND_INFO_REQ # le16 lo @ [0x0A]
     else BT_ATT_OP_FIND_INFO_RSP # info_content (sv_db s) (att_mtu (sv_att s)) q)"
  using find_info_replies [OF assms, of env] by fastforce

section \<open>Prepared writes\<close>

text \<open>A client writes a long value: Prepare Write requests with parts at consecutive offsets.\<close>

fun prepare :: "sv_env \<Rightarrow> bt_gatt_server \<Rightarrow> u16 \<Rightarrow> nat \<Rightarrow> bytes list \<Rightarrow> bt_gatt_server option" where
  "prepare env s h off [] = Some s"
| "prepare env s h off (b # bs) = do {
     s \<leftarrow> prep_write_cb env s BT_ATT_OP_PREP_WRITE_REQ (le16 h @ le16 (of_nat off) @ b);
     prepare env s h (off + length b) bs
   }"

fun echoes :: "u16 \<Rightarrow> nat \<Rightarrow> bytes list \<Rightarrow> bytes list" where
  "echoes h off [] = []"
| "echoes h off (b # bs) = (BT_ATT_OP_PREP_WRITE_RSP # le16 h @ le16 (of_nat off) @ b) # echoes h (off + length b) bs"

definition sent :: "bt_gatt_server \<Rightarrow> bytes list" where
  "sent s = map op_pdu (write_queue (sv_att s))"

lemma prep_write_step:
  assumes "sv_ok d0 s" "at_handle s h x a" "check_permissions env s a WRITE_MASK = 0" "length (prep_queue s) < unat (max_prep_queue_len s)"
    and "length b + 4 < unat (att_mtu (sv_att s))" "continues s h off \<Longrightarrow> unat (pw_length (last (prep_queue s))) + length b < 2 ^ 16"
  shows "\<exists>s1. store_prep_data env s h off b = Some s1 \<and> (\<exists>s'. prep_write_cb env s BT_ATT_OP_PREP_WRITE_REQ (le16 h @ le16 off @ b) = Some s' \<and> sv_ok d0 s'
    \<and> sent s' = sent s @ [BT_ATT_OP_PREP_WRITE_RSP # le16 h @ le16 off @ b] \<and> prep_queue s' = prep_queue s1
    \<and> (\<exists>a'. at_handle s' h x a' \<and> erase_attr a' = erase_attr a \<and> check_permissions env s' a' WRITE_MASK = 0)
    \<and> att_mtu (sv_att s') = att_mtu (sv_att s) \<and> max_prep_queue_len s' = max_prep_queue_len s \<and> sv_addr s' = sv_addr s)"
proof -
  have len: "length b < 2 ^ 16"
    using assms(5) u16_bound [of "att_mtu (sv_att s)"] by simp
  obtain s1 where s1: "store_prep_data env s h off b = Some s1" "sv_ok d0 s1" "sv_att s1 = sv_att s" "sv_addr s1 = sv_addr s"
    using store_prep_ok [OF assms(1) len assms(6)] by blast
  have mx: "max_prep_queue_len s1 = max_prep_queue_len s"
    using s1(1) by (auto simp: store_prep_data_def prep_data_new_def Let_def split: if_splits Option.bind_splits)
  let ?pdu = "le16 h @ le16 off @ b"
  have n: "unat (of_nat (length ?pdu) :: u16) = length ?pdu" "length ?pdu < unat (att_mtu (sv_att s1))"
    using assms(5) below_mtu [of "length ?pdu" "att_mtu (sv_att s1)"] assms(1) s1(3) by (auto simp: sv_ok_def)
  have c: "case Some ?pdu of None \<Rightarrow> (of_nat (length ?pdu) :: u16) = 0 | Some b \<Rightarrow> unat (of_nat (length ?pdu) :: u16) \<le> length b"
    unfolding n(1) by simp
  obtain att' where r: "sv_send env s1 BT_ATT_OP_PREP_WRITE_RSP (Some ?pdu) (of_nat (length ?pdu)) = Some (s1\<lparr>sv_att := att'\<rparr>)"
      "replied (sv_att s1) att' (BT_ATT_OP_PREP_WRITE_RSP # ?pdu)"
    using send_replies [OF s1(2) rsp_types(3) _ c, of env] n by (auto simp del: of_nat_add)
  let ?s = "s1\<lparr>sv_att := att'\<rparr>"
  have g: "pdu_le16 ?pdu 0 = Some h" "pdu_le16 ?pdu 2 = Some off"
    by simp_all
  have ok: "sv_ok d0 ?s"
    by (rule replied_att_ok [OF s1(2) r(2)])
  have "prep_write_cb env s BT_ATT_OP_PREP_WRITE_REQ ?pdu = Some ?s"
    using assms(2-4) s1(1) r(1) g by (simp add: prep_write_cb_def at_handle_def Let_def del: of_nat_add)
  moreover obtain a' where a': "at_handle ?s h x a'" "erase_attr a' = erase_attr a"
    using at_handle_shaped [OF sv_ok_shaped [OF assms(1)] sv_ok_shaped [OF ok] assms(2)] by blast
  moreover have "check_permissions env ?s a' WRITE_MASK = 0"
    using check_permissions_same [OF _ a'(2), of env ?s s] same_security [OF r(2)] s1(3) assms(3) by simp
  moreover have "sent ?s = sent s @ [BT_ATT_OP_PREP_WRITE_RSP # ?pdu]"
    using r(2) s1(3) by (auto simp: sent_def replied_def)
  ultimately show ?thesis
    using s1 ok mx replied_fields(2) [OF r(2)] by (intro exI [of _ s1] conjI exI [of _ ?s] exI [of _ a']) simp_all
qed

text \<open>The queue of prepared writes holds the value that was written so far.\<close>

definition holds :: "bt_gatt_server \<Rightarrow> u16 \<Rightarrow> u16 \<Rightarrow> bytes \<Rightarrow> bool" where
  "holds s h off v \<longleftrightarrow> (\<exists>r. prep_queue s = [\<lparr>pw_value = v, pw_handle = h, pw_offset = off, pw_length = of_nat (length v), pw_reliable_supported = r\<rparr>])"

lemma unat_u16: "n < 2 ^ 16 \<Longrightarrow> unat (of_nat n :: u16) = n"
  by (simp only: unat_of_nat) simp

lemma prepare_more:
  "sv_ok d0 s \<Longrightarrow> at_handle s h x a \<Longrightarrow> check_permissions env s a WRITE_MASK = 0 \<Longrightarrow> 1 < unat (max_prep_queue_len s) \<Longrightarrow> holds s h off v \<Longrightarrow>
    \<forall>b\<in>set bs. length b + 4 < unat (att_mtu (sv_att s)) \<Longrightarrow> unat off + length (v @ concat bs) < 2 ^ 16 \<Longrightarrow>
    \<exists>s'. prepare env s h (unat off + length v) bs = Some s' \<and> sv_ok d0 s' \<and> sent s' = sent s @ echoes h (unat off + length v) bs \<and> holds s' h off (v @ concat bs)
      \<and> (\<exists>a'. at_handle s' h x a' \<and> erase_attr a' = erase_attr a \<and> check_permissions env s' a' WRITE_MASK = 0)
      \<and> att_mtu (sv_att s') = att_mtu (sv_att s) \<and> max_prep_queue_len s' = max_prep_queue_len s \<and> sv_addr s' = sv_addr s"
proof (induction bs arbitrary: s a v)
  case Nil
  then show ?case
    by auto
next
  case (Cons b bs)
  let ?off = "of_nat (unat off + length v) :: u16"
  obtain r where q: "prep_queue s = [\<lparr>pw_value = v, pw_handle = h, pw_offset = off, pw_length = of_nat (length v), pw_reliable_supported = r\<rparr>]"
    using Cons.prems(5) by (auto simp: holds_def)
  have u: "unat (of_nat (length v) :: u16) = length v" "unat ?off = unat off + length v"
    using Cons.prems(7) by (intro unat_u16; simp)+
  have c: "continues s h ?off"
    using q u by (simp add: continues_def del: of_nat_add)
  have fits: "unat (pw_length (last (prep_queue s))) + length b < 2 ^ 16" "length b < 2 ^ 16" "length b + 4 < unat (att_mtu (sv_att s))"
    using Cons.prems(6,7) q u(1) by simp_all
  have room: "length (prep_queue s) < unat (max_prep_queue_len s)"
    using Cons.prems(4) q by simp
  obtain s1 s' a' where s': "store_prep_data env s h ?off b = Some s1" "prep_write_cb env s BT_ATT_OP_PREP_WRITE_REQ (le16 h @ le16 ?off @ b) = Some s'" "sv_ok d0 s'"
      "sent s' = sent s @ [BT_ATT_OP_PREP_WRITE_RSP # le16 h @ le16 ?off @ b]" "prep_queue s' = prep_queue s1"
      "at_handle s' h x a'" "erase_attr a' = erase_attr a" "check_permissions env s' a' WRITE_MASK = 0" "att_mtu (sv_att s') = att_mtu (sv_att s)"
      "max_prep_queue_len s' = max_prep_queue_len s" "sv_addr s' = sv_addr s"
    using prep_write_step [OF Cons.prems(1-3) room fits(3) fits(1)] by blast
  have h': "holds s' h off (v @ b)"
    using store_prep_ok [OF Cons.prems(1) fits(2) fits(1), where h = h and off = ?off and env = env] s'(1,5) c q u(1) by (auto simp: holds_def)
  have len: "unat off + length ((v @ b) @ concat bs) < 2 ^ 16" "1 < unat (max_prep_queue_len s')" "\<forall>b\<in>set bs. length b + 4 < unat (att_mtu (sv_att s'))"
    using Cons.prems(4,6,7) s'(9,10) by simp_all
  obtain s2 a2 where s2: "prepare env s' h (unat off + length (v @ b)) bs = Some s2" "sv_ok d0 s2" "sent s2 = sent s' @ echoes h (unat off + length (v @ b)) bs"
      "holds s2 h off ((v @ b) @ concat bs)" "at_handle s2 h x a2" "erase_attr a2 = erase_attr a'" "check_permissions env s2 a2 WRITE_MASK = 0"
      "att_mtu (sv_att s2) = att_mtu (sv_att s')" "max_prep_queue_len s2 = max_prep_queue_len s'" "sv_addr s2 = sv_addr s'"
    using Cons.IH [OF s'(3,6,8) len(2) h' len(3,1)] by blast
  show ?case
    using s2 s' by (auto simp: add.assoc simp del: of_nat_add)
qed

lemma prepare_ok:
  assumes "sv_ok d0 s" "at_handle s h x a" "check_permissions env s a WRITE_MASK = 0" "1 < unat (max_prep_queue_len s)" "prep_queue s = []" "bs \<noteq> []"
    and "\<forall>b\<in>set bs. length b + 4 < unat (att_mtu (sv_att s))" "unat off + length (concat bs) < 2 ^ 16"
  shows "\<exists>s'. prepare env s h (unat off) bs = Some s' \<and> sv_ok d0 s' \<and> sent s' = sent s @ echoes h (unat off) bs \<and> holds s' h off (concat bs)
      \<and> (\<exists>a'. at_handle s' h x a' \<and> erase_attr a' = erase_attr a \<and> check_permissions env s' a' WRITE_MASK = 0)
      \<and> att_mtu (sv_att s') = att_mtu (sv_att s) \<and> max_prep_queue_len s' = max_prep_queue_len s \<and> sv_addr s' = sv_addr s"
proof -
  obtain b r where bs: "bs = b # r"
    using assms(6) by (cases bs) auto
  have fits: "length b < 2 ^ 16" "length b + 4 < unat (att_mtu (sv_att s))" "length (prep_queue s) < unat (max_prep_queue_len s)" and c: "\<not> continues s h off"
    using assms(4,5,7,8) bs by (simp_all add: continues_def)
  obtain s1 s' a' where s': "store_prep_data env s h off b = Some s1" "prep_write_cb env s BT_ATT_OP_PREP_WRITE_REQ (le16 h @ le16 off @ b) = Some s'" "sv_ok d0 s'"
      "sent s' = sent s @ [BT_ATT_OP_PREP_WRITE_RSP # le16 h @ le16 off @ b]" "prep_queue s' = prep_queue s1"
      "at_handle s' h x a'" "erase_attr a' = erase_attr a" "check_permissions env s' a' WRITE_MASK = 0" "att_mtu (sv_att s') = att_mtu (sv_att s)"
      "max_prep_queue_len s' = max_prep_queue_len s" "sv_addr s' = sv_addr s"
    using prep_write_step [OF assms(1-3) fits(3,2)] c by blast
  have h': "holds s' h off b"
    using store_prep_ok [OF assms(1) fits(1), where h = h and off = off and env = env] s'(1,5) c assms(5) by (auto simp: holds_def)
  have len: "unat off + length (b @ concat r) < 2 ^ 16" "1 < unat (max_prep_queue_len s')" "\<forall>b\<in>set r. length b + 4 < unat (att_mtu (sv_att s'))"
    using assms(4,7,8) s'(9,10) bs by simp_all
  obtain s2 a2 where s2: "prepare env s' h (unat off + length b) r = Some s2" "sv_ok d0 s2" "sent s2 = sent s' @ echoes h (unat off + length b) r"
      "holds s2 h off (b @ concat r)" "at_handle s2 h x a2" "erase_attr a2 = erase_attr a'" "check_permissions env s2 a2 WRITE_MASK = 0"
      "att_mtu (sv_att s2) = att_mtu (sv_att s')" "max_prep_queue_len s2 = max_prep_queue_len s'" "sv_addr s2 = sv_addr s'"
    using prepare_more [OF s'(3,6,8) len(2) h' len(3,1)] by blast
  show ?thesis
    using s2 s' bs by auto
qed

lemma execute_ok:
  assumes "sv_ok d0 s" "at_handle s h x a" "a_write_func a = Some f" "holds s h off v" "length v < 2 ^ 16"
  shows "\<exists>s' i. exec_write_cb env s BT_ATT_OP_EXEC_WRITE_REQ [1] = Some s' \<and> sv_att s' = sv_att s \<and> prep_queue s' = []
    \<and> db_log (sv_db s') = db_log (sv_db s) @ [WriteCalled f i off v BT_ATT_OP_EXEC_WRITE_REQ]"
proof -
  note sh = sv_ok_shaped [OF assms(1)]
  have a: "attribute_at (sv_db s) x = Some a" "gatt_db_get_attribute (Some (sv_db s)) h = Some (Some x)"
    using assms(2) by (simp_all add: at_handle_def)
  obtain r where q: "prep_queue s = [\<lparr>pw_value = v, pw_handle = h, pw_offset = off, pw_length = of_nat (length v), pw_reliable_supported = r\<rparr>]"
    using assms(4) by (auto simp: holds_def)
  obtain d' where d': "write_attribute env (sv_db s) x off v BT_ATT_OP_EXEC_WRITE_REQ EXEC_WRITE_COMPLETE_CB (sv_addr s) = Some (True, None, d')"
      "db_log d' = db_log (sv_db s) @ [WriteCalled f (a_write_id a + 1) off v BT_ATT_OP_EXEC_WRITE_REQ]"
    using write_attribute_cases [OF sh a(1), of off v env BT_ATT_OP_EXEC_WRITE_REQ EXEC_WRITE_COMPLETE_CB "sv_addr s"] assms(3) by auto
  have "exec_write_cb env s BT_ATT_OP_EXEC_WRITE_REQ [1] = Some (s\<lparr>sv_db := d', prep_queue := []\<rparr>)"
    using q a(2) d'(1) unat_u16 [OF assms(5)] by (simp add: exec_write_cb_def exec_next_Cons load8_def mem_read_def Let_def)
  then show ?thesis
    using d'(2) by simp
qed

text \<open>C32.  A long write.  Prepare Write requests for an attribute with a write function, with parts of a value at consecutive
  offsets, are echoed one by one, and nothing else is sent.  The Execute Write request then calls the write function once,
  with the whole value at the offset of the first part.\<close>

theorem long_write:
  assumes "sv_ok d0 s" "at_handle s h x a" "check_permissions env s a WRITE_MASK = 0" "1 < unat (max_prep_queue_len s)" "prep_queue s = []" "bs \<noteq> []"
    and "\<forall>b\<in>set bs. length b + 4 < unat (att_mtu (sv_att s))" "unat off + length (concat bs) < 2 ^ 16" "a_write_func a = Some f"
  shows "\<exists>s1 s2 i. prepare env s h (unat off) bs = Some s1 \<and> sent s1 = sent s @ echoes h (unat off) bs
    \<and> exec_write_cb env s1 BT_ATT_OP_EXEC_WRITE_REQ [1] = Some s2 \<and> sent s2 = sent s1 \<and> prep_queue s2 = []
    \<and> db_log (sv_db s2) = db_log (sv_db s1) @ [WriteCalled f i off (concat bs) BT_ATT_OP_EXEC_WRITE_REQ]"
proof -
  obtain s1 a1 where s1: "prepare env s h (unat off) bs = Some s1" "sv_ok d0 s1" "sent s1 = sent s @ echoes h (unat off) bs" "holds s1 h off (concat bs)"
      "at_handle s1 h x a1" "erase_attr a1 = erase_attr a"
    using prepare_ok [OF assms(1-8)] by blast
  have f: "a_write_func a1 = Some f"
    using arg_cong [OF s1(6), of a_write_func] assms(9) by simp
  have "length (concat bs) < 2 ^ 16"
    using assms(8) by linarith
  then show ?thesis
    using execute_ok [OF s1(2,5) f s1(4), of env] s1(1,3) by (fastforce simp: sent_def)
qed

lemma append_wraps:
  assumes "length v < 2 ^ 16" "length bs < 2 ^ 16" "2 ^ 16 \<le> length v + length bs" "pw_value d = v" "pw_length d = of_nat (length v)"
  shows "append_prep_data env d bs = None"
proof -
  define len :: u16 where "len = of_nat (length v) + of_nat (length bs)"
  have u: "unat (of_nat (length v) :: u16) = length v"
    by (rule unat_u16 [OF assms(1)])
  have "unat len = (length v + length bs) mod 2 ^ 16"
    unfolding len_def of_nat_add [symmetric] by (simp only: unat_of_nat) simp
  then have l: "unat len < length v + length bs"
    using assms(1-3) by (simp add: mod_if) linarith
  have bs: "bs \<noteq> []"
    using assms(1,3) by auto
  have "length (take (unat len) v @ map (e_junk env) [length v..<unat len]) = unat len"
    by simp
  then have "mem_write (take (unat len) v @ map (e_junk env) [length v..<unat len]) (length v) bs = None"
    unfolding mem_write_None using l by simp
  then show ?thesis
    unfolding append_prep_data_def assms(4,5) Let_def len_def [symmetric] u using bs by simp
qed

text \<open>C40.  The length of a prepared write has 16 bits.  After parts with less than 65536 bytes together, which are all
  accepted, a further part that reaches 65536 bytes makes the length wrap around: the buffer shrinks and the part is copied
  behind it.\<close>

theorem prep_write_overflow:
  assumes "sv_ok d0 s" "at_handle s h x a" "check_permissions env s a WRITE_MASK = 0" "1 < unat (max_prep_queue_len s)" "prep_queue s = []" "bs \<noteq> []"
    and "\<forall>b\<in>set bs. length b + 4 < unat (att_mtu (sv_att s))" "length (concat bs) < 2 ^ 16"
    and "length b + 4 < unat (att_mtu (sv_att s))" "2 ^ 16 \<le> length (concat bs) + length b"
  shows "\<exists>s1. prepare env s h 0 bs = Some s1 \<and> sv_ok d0 s1
    \<and> prep_write_cb env s1 BT_ATT_OP_PREP_WRITE_REQ (le16 h @ le16 (of_nat (length (concat bs))) @ b) = None"
proof -
  let ?v = "concat bs"
  obtain s1 a1 where s1: "prepare env s h 0 bs = Some s1" "sv_ok d0 s1" "holds s1 h 0 ?v" "at_handle s1 h x a1" "check_permissions env s1 a1 WRITE_MASK = 0"
      "max_prep_queue_len s1 = max_prep_queue_len s"
    using prepare_ok [OF assms(1-7), of 0] assms(8) by auto
  obtain r where q: "prep_queue s1 = [\<lparr>pw_value = ?v, pw_handle = h, pw_offset = 0, pw_length = of_nat (length ?v), pw_reliable_supported = r\<rparr>]"
    using s1(3) by (auto simp: holds_def)
  have len: "length b < 2 ^ 16"
    using assms(9) u16_bound [of "att_mtu (sv_att s)"] by simp
  have w: "append_prep_data env (last (prep_queue s1)) b = None"
    by (rule append_wraps [OF assms(8) len assms(10)]) (simp_all add: q)
  have st: "store_prep_data env s1 h (of_nat (length ?v)) b = None"
    using q w unat_u16 [OF assms(8)] by (simp add: store_prep_data_def Let_def)
  have "prep_write_cb env s1 BT_ATT_OP_PREP_WRITE_REQ (le16 h @ le16 (of_nat (length ?v)) @ b) = None"
    using s1(4-6) st q assms(4) by (simp add: prep_write_cb_def at_handle_def Let_def)
  then show ?thesis
    using s1(1,2) by blast
qed

section \<open>Servers that were just created\<close>

lemma register_all:
  "att_io att \<Longrightarrow> \<exists>js att'. register_handlers att sv hs = (True, js, att')
    \<and> map (\<lambda>n. (an_opcode n, an_callback n, an_user_data n)) (att_notify_list att')
      = map (\<lambda>n. (an_opcode n, an_callback n, an_user_data n)) (att_notify_list att) @ map (\<lambda>(c, f). (c, Some f, sv)) hs
    \<and> att'\<lparr>next_reg_id := next_reg_id att, att_notify_list := att_notify_list att\<rparr> = att"
proof (induction hs arbitrary: att)
  case (Cons h hs)
  obtain c f where h: "h = (c, f)"
    by (cases h)
  define i where "i = (if next_reg_id att < 1 then 1 else next_reg_id att)"
  define n where "n = \<lparr>an_id = i, an_opcode = c, an_callback = Some f, an_destroy = None, an_user_data = sv\<rparr>"
  define att1 where "att1 = att\<lparr>next_reg_id := i + 1, att_notify_list := att_notify_list att @ [n]\<rparr>"
  have reg: "bt_att_register att c (Some f) sv None = (i, att1)" "i \<noteq> 0"
    using Cons.prems by (auto simp: bt_att_register_def i_def n_def att1_def Let_def)
  obtain js att' where ih: "register_handlers att1 sv hs = (True, js, att')"
      "map (\<lambda>n. (an_opcode n, an_callback n, an_user_data n)) (att_notify_list att')
       = map (\<lambda>n. (an_opcode n, an_callback n, an_user_data n)) (att_notify_list att1) @ map (\<lambda>(c, f). (c, Some f, sv)) hs"
      "att'\<lparr>next_reg_id := next_reg_id att1, att_notify_list := att_notify_list att1\<rparr> = att1"
    using Cons.IH [of att1] Cons.prems by (auto simp: att1_def)
  have "att'\<lparr>next_reg_id := next_reg_id att, att_notify_list := att_notify_list att\<rparr>
      = (att'\<lparr>next_reg_id := next_reg_id att1, att_notify_list := att_notify_list att1\<rparr>)\<lparr>next_reg_id := next_reg_id att, att_notify_list := att_notify_list att\<rparr>"
    by simp
  also have "\<dots> = att"
    unfolding ih(3) by (simp add: att1_def)
  finally show ?case
    using reg ih(1,2) by (simp add: h Let_def att1_def n_def)
qed simp

text \<open>A server for a well-formed database on a fresh transport listens and satisfies its invariant.\<close>

lemma new_server:
  assumes "db_ok db" "att_io att" "att_notify_list att = []" "23 \<le> unat (att_mtu att)"
  shows "\<exists>s. bt_gatt_server_new db att mtu addr = Some (Inr s) \<and> sv_ok (sv_db s) s \<and> listening s \<and> sv_db s = db\<lparr>db_ref_count := db_ref_count db + 1\<rparr>
    \<and> att_mtu (sv_att s) = att_mtu att \<and> in_req (sv_att s) = in_req att \<and> write_queue (sv_att s) = write_queue att
    \<and> (\<forall>env. bt_att_get_security env (sv_att s) = bt_att_get_security env att)
    \<and> prep_queue s = [] \<and> max_prep_queue_len s = 30 \<and> pending_read_op s = None \<and> pending_write_op s = None \<and> sv_multi s = None"
proof -
  let ?db = "db\<lparr>db_ref_count := db_ref_count db + 1\<rparr>"
  obtain js att' where r: "register_handlers (bt_att_ref att) addr server_table = (True, js, att')"
      "map (\<lambda>n. (an_opcode n, an_callback n, an_user_data n)) (att_notify_list att') = map (\<lambda>(c, f). (c, Some f, addr)) server_table"
      "att'\<lparr>next_reg_id := next_reg_id (bt_att_ref att), att_notify_list := att_notify_list (bt_att_ref att)\<rparr> = bt_att_ref att"
    using register_all [of "bt_att_ref att" addr server_table] assms(2,3) by (auto simp: bt_att_ref_def)
  have f: "att_io att' = att_io att" "att_mtu att' = att_mtu att" "in_req att' = in_req att" "write_queue att' = write_queue att"
      "bt_att_get_security env att' = bt_att_get_security env att" for env
    using arg_cong [OF r(3), of att_io] arg_cong [OF r(3), of att_mtu] arg_cong [OF r(3), of in_req] arg_cong [OF r(3), of write_queue]
      arg_cong [OF r(3), of io_on_l2cap] arg_cong [OF r(3), of io_sec_level] by (simp_all add: bt_att_ref_def bt_att_get_security_def)
  have "db_ok ?db"
    using assms(1) by (simp add: db_ok_def)
  moreover have "vals_ok ?db"
    unfolding vals_ok_def
  proof (intro allI impI)
    fix x a assume "attribute_at ?db x = Some a"
    then obtain t as where "dense t as" "snd x < length as" "a = as ! snd x"
      using attribute_atE [OF \<open>db_ok ?db\<close>] by metis
    then have "attr_ok a"
      by (auto simp: dense_def)
    then show "val_ok a"
      by (auto simp: attr_ok_def val_ok_def value_bytes_def split: option.splits)
  qed
  ultimately have "shaped ?db ?db"
    by (simp add: shaped_def)
  then show ?thesis
    using r(1,2) f assms(2,4) by (auto simp: bt_gatt_server_new_def gatt_server_register_att_handlers_def server_table_def [symmetric] gatt_db_ref_def
        bt_gatt_server_ref_def sv_ok_def listening_def DEFAULT_MAX_PREP_QUEUE_LEN_def BT_ATT_DEFAULT_LE_MTU_def Let_def max_def word_le_nat_alt)
qed

text \<open>A gauge whose value is read and written through functions of the application, at handles 1 to 3.\<close>

definition gauge_ops :: "db_op list" where
  "gauge_ops = [AddService (BT_UUID16 0x180F) True 4, AddCharacteristic (0, 0) (BT_UUID16 0x2A19) 3 10 (Some 5) (Some 6) 0, SetActive (0, 0) True]"

definition gauge_attr :: gatt_db_attribute where
  "gauge_attr = (sample_attr 3 0x2A19 3 None)\<lparr>a_read_func := Some 5, a_write_func := Some 6\<rparr>"

definition gauge_db :: gatt_db where
  "gauge_db = \<lparr>db_ref_count = 1, next_handle = 5,
     services = [(0, \<lparr>s_active = True, s_claimed = False, s_num_handles = 4,
       s_attributes = [Some (sample_attr 1 0x2800 0 (Some [0x0F, 0x18])), Some (sample_attr 2 0x2803 0 (Some [10, 3, 0, 0x19, 0x2A])),
         Some gauge_attr, None]\<rparr>)],
     notify_list = [], next_notify_id = 0, db_brk = 1, db_log = []\<rparr>"

lemma replicate_4: "replicate 4 x = [x, x, x, x]"
  by (simp add: eval_nat_numeral)

lemma gauge_run: "run_sched db_step gauge_ops (the gatt_db_new) = Some gauge_db"
  by (simp add: gauge_ops_def gauge_db_def gauge_attr_def db_defs free_index_numeral replicate_4 Let_def)

lemma gauge_ok: "db_ok gauge_db"
proof -
  have "reach db_initial db_step (the gatt_db_new)"
    by (rule reach_init) (simp add: db_initial_def gatt_db_new_def gatt_db_ref_def)
  then have "reach db_initial db_step gauge_db"
    using gauge_run by (rule reach_run_sched)
  then show ?thesis
    by (rule db_system.reach_inv)
qed

definition quiet_sv :: sv_env where
  "quiet_sv = \<lparr>e_att = quiet_env, e_tid = 9, e_junk = (\<lambda>_. 0)\<rparr>"

definition fresh_att :: bt_att where
  "fresh_att = the (bt_att_new False False None False)"

lemma fresh_att_simps:
  "att_io fresh_att" "att_notify_list fresh_att = []" "unat (att_mtu fresh_att) = 23" "\<not> in_req fresh_att" "write_queue fresh_att = []"
  by (simp_all add: fresh_att_def bt_att_new_def BT_ATT_DEFAULT_LE_MTU_def)

text \<open>A server in its first state, on a transport with an MTU of 23.\<close>

definition started :: "gatt_db \<Rightarrow> bt_gatt_server \<Rightarrow> bool" where
  "started db s \<longleftrightarrow> bt_gatt_server_new db fresh_att 50 7 = Some (Inr s) \<and> sv_ok (sv_db s) s \<and> listening s \<and> sv_db s = db\<lparr>db_ref_count := 2\<rparr>
    \<and> unat (att_mtu (sv_att s)) = 23 \<and> \<not> in_req (sv_att s) \<and> write_queue (sv_att s) = [] \<and> prep_queue s = [] \<and> max_prep_queue_len s = 30
    \<and> pending_read_op s = None \<and> pending_write_op s = None \<and> sv_multi s = None"

lemma startedD:
  assumes "started db s"
  shows "sv_ok (sv_db s) s" "listening s" "sv_db s = db\<lparr>db_ref_count := 2\<rparr>" "unat (att_mtu (sv_att s)) = 23" "\<not> in_req (sv_att s)"
    "write_queue (sv_att s) = []" "prep_queue s = []" "max_prep_queue_len s = 30" "pending_read_op s = None" "pending_write_op s = None" "sv_multi s = None"
  using assms unfolding started_def by blast+

lemma started_server:
  assumes "db_ok db" "db_ref_count db = 1"
  shows "\<exists>s. started db s"
  using new_server [OF assms(1) fresh_att_simps(1,2), of 50 7] assms(2) by (auto simp: started_def fresh_att_simps)

lemma sample_servers: "\<exists>s. started battery_db s" "\<exists>s. started gauge_db s"
  using started_server [OF battery_ok] started_server [OF gauge_ok] by (simp_all add: battery_db_def gauge_db_def)

text \<open>Where attributes are found, and who may use them.\<close>

lemma sample_at:
  "sv_db s = battery_db\<lparr>db_ref_count := 2\<rparr> \<Longrightarrow> at_handle s 1 (0, 0) (sample_attr 1 0x2800 0 (Some [0x0F, 0x18]))"
  "sv_db s = battery_db\<lparr>db_ref_count := 2\<rparr> \<Longrightarrow> at_handle s 4 (0, 3) (sample_attr 4 0x2902 3 None)"
  "sv_db s = gauge_db\<lparr>db_ref_count := 2\<rparr> \<Longrightarrow> at_handle s 3 (0, 2) gauge_attr"
  by (simp_all add: at_handle_def battery_db_def gauge_db_def gauge_attr_def db_defs gatt_db_get_attribute_def find_service_for_handle_def gatt_db_service_get_handles_def
      attribute_at_def)

lemma sample_permissions:
  "check_permissions env s (sample_attr h u 0 v) msk = 0" "check_permissions env s gauge_attr READ_MASK = 0" "check_permissions env s gauge_attr WRITE_MASK = 0"
  by (simp_all add: check_permissions_def gatt_db_attribute_get_permissions_def sample_attr_def gauge_attr_def READ_MASK_def WRITE_MASK_def BT_ATT_PERM_READ_def
      BT_ATT_PERM_WRITE_def BT_ATT_PERM_SECURE_def BT_ATT_PERM_AUTHEN_def BT_ATT_PERM_ENCRYPT_def BT_ATT_PERM_READ_AUTHEN_def BT_ATT_PERM_WRITE_AUTHEN_def
      BT_ATT_PERM_READ_ENCRYPT_def BT_ATT_PERM_WRITE_ENCRYPT_def BT_ATT_PERM_READ_SECURE_def BT_ATT_PERM_WRITE_SECURE_def Let_def)

section \<open>Witnesses\<close>

text \<open>A Read Request for the descriptor of the battery service.\<close>

theorem server_answers_witness:
  "\<exists>s s'. started battery_db s \<and> server_receive quiet_sv s (Some (BT_ATT_OP_READ_REQ # le16 4)) = Some (True, s') \<and>
    ((\<exists>op. write_queue (sv_att s') = [op] \<and> is_answer BT_ATT_OP_READ_REQ (op_pdu op) \<and> length (op_pdu op) \<le> 23)
     \<or> write_queue (sv_att s') = [] \<and> asked s s')"
proof -
  obtain s where s: "started battery_db s"
    using sample_servers by blast
  have p: "sv_ok (sv_db s) s" "listening s" "\<not> in_req (sv_att s)" "length (le16 4) < unat (att_mtu (sv_att s))" "unat (att_mtu (sv_att s)) = 23" "write_queue (sv_att s) = []"
    using startedD [OF s] by simp_all
  have t: "(BT_ATT_OP_READ_REQ, READ_CB) \<in> set server_table" "BT_ATT_OP_READ_REQ \<noteq> BT_ATT_OP_WRITE_CMD" "request_ok s BT_ATT_OP_READ_REQ (le16 4)"
    by (simp_all add: server_table_def request_ok_def att_opcodes)
  show ?thesis
    using server_answers [OF p(1-3) t(1,2) p(4) t(3), of quiet_sv] s p(5,6) by auto
qed

text \<open>A Write Request of two bytes overwrites the UUID in the declaration of the battery service.\<close>

theorem write_request_read_back_witness:
  "\<exists>s s1 s2. started battery_db s \<and> write_cb quiet_sv s BT_ATT_OP_WRITE_REQ (le16 1 @ [0xEE, 0xFF]) = Some s1
    \<and> replied (sv_att s) (sv_att s1) [BT_ATT_OP_WRITE_RSP] \<and> read_cb quiet_sv s1 BT_ATT_OP_READ_REQ (le16 1) = Some s2
    \<and> replied (sv_att s1) (sv_att s2) [BT_ATT_OP_READ_RSP, 0xEE, 0xFF]"
proof -
  obtain s where s: "started battery_db s"
    using sample_servers by blast
  have p: "sv_ok (sv_db s) s" "sv_db s = battery_db\<lparr>db_ref_count := 2\<rparr>" "pending_write_op s = None" "pending_read_op s = None" "unat (att_mtu (sv_att s)) = 23"
    using startedD [OF s] by simp_all
  let ?a = "sample_attr 1 0x2800 0 (Some [0x0F, 0x18])"
  have a: "attr_ok ?a" "a_write_func ?a = None" "a_read_func ?a = None" "value_bytes ?a = [0x0F, 0x18]"
    by (simp_all add: attr_ok_def sample_attr_def value_bytes_def)
  show ?thesis
    using write_request_read_back [OF p(1) sample_at(1) [OF p(2)] a(1-3) p(3,4) sample_permissions(1) sample_permissions(1), where env = quiet_sv and bs = "[0xEE, 0xFF]"] s a(4) p(5)
    by auto
qed

text \<open>The application answers the read of the gauge with 72.\<close>

theorem deferred_read_answered_witness:
  "\<exists>s s1 s2. started gauge_db s \<and> read_cb quiet_sv s BT_ATT_OP_READ_REQ (le16 3) = Some s1 \<and> sv_att s1 = sv_att s
    \<and> db_log (sv_db s1) = db_log (sv_db s) @ [ReadCalled 5 1 0 BT_ATT_OP_READ_REQ]
    \<and> sv_read_result quiet_sv s1 False (0, 2) 1 0 (Some [72]) 1 = Some s2 \<and> replied (sv_att s) (sv_att s2) [BT_ATT_OP_READ_RSP, 72]"
proof -
  obtain s where s: "started gauge_db s"
    using sample_servers by blast
  have p: "sv_ok (sv_db s) s" "sv_db s = gauge_db\<lparr>db_ref_count := 2\<rparr>" "pending_read_op s = None" "sv_multi s = None" "unat (att_mtu (sv_att s)) = 23"
    using startedD [OF s] by simp_all
  have a: "a_read_func gauge_attr = Some 5" "a_read_id gauge_attr = 0" "a_pending_reads gauge_attr = []" "a_handle gauge_attr = 3"
    by (simp_all add: gauge_attr_def sample_attr_def)
  obtain s1 where s1: "read_cb quiet_sv s BT_ATT_OP_READ_REQ (le16 3) = Some s1" "sv_att s1 = sv_att s"
      "db_log (sv_db s1) = db_log (sv_db s) @ [ReadCalled 5 1 0 BT_ATT_OP_READ_REQ]"
      "\<forall>err v. \<exists>s2. sv_read_result quiet_sv s1 False (0, 2) 1 err (Some v) (length v) = Some s2 \<and> pending_read_op s2 = None
        \<and> replied (sv_att s) (sv_att s2) (deferred_answer 3 23 err v)"
    using deferred_read_answered [OF p(1) sample_at(3) [OF p(2)] a(1) sample_permissions(2) p(3,4), where env = quiet_sv and nested = False] a(2-4) p(5) by auto
  then show ?thesis
    using s s1(4) [rule_format, of 0 "[72]"] by (auto simp: deferred_answer_def)
qed

text \<open>All four handles of the battery service.\<close>

theorem find_info_answer_witness:
  "\<exists>s s'. started battery_db s \<and> find_info_cb quiet_sv s BT_ATT_OP_FIND_INFO_REQ (le16 1 @ le16 0xFFFF) = Some s' \<and> replied (sv_att s) (sv_att s')
    [BT_ATT_OP_FIND_INFO_RSP, 1, 1, 0, 0x00, 0x28, 2, 0, 0x03, 0x28, 3, 0, 0x19, 0x2A, 4, 0, 0x02, 0x29]"
proof -
  obtain s where s: "started battery_db s"
    using sample_servers by blast
  have p: "sv_ok (sv_db s) s" "sv_db s = battery_db\<lparr>db_ref_count := 2\<rparr>" "unat (att_mtu (sv_att s)) = 23"
    using startedD [OF s] by simp_all
  have q: "[(0, 0), (0, 1), (0, 2), (0, 3)] = map fst (filter (\<lambda>x. in_range 1 0xFFFF (snd x)) (active_attrs (sv_db s)))"
    unfolding p(2) by (simp add: active_attrs_def battery_db_def service_attrs_def sample_attr_def)
  have c: "info_content (sv_db s) (att_mtu (sv_att s)) [(0, 0), (0, 1), (0, 2), (0, 3)]
      = [1, 1, 0, 0x00, 0x28, 2, 0, 0x03, 0x28, 3, 0, 0x19, 0x2A, 4, 0, 0x02, 0x29]"
    using p(3) unfolding p(2) by (simp add: info_content_def info_unit_def info_bytes_def le_bytes_def attribute_at_def service_at_def attr_of_def array_at_def
        battery_db_def sample_attr_def le16_def bt_uuid_len_def Let_def)
  show ?thesis
    using find_info_answer [OF p(1) _ _ q, of quiet_sv] c s by auto
qed

text \<open>Two parts of a value for the gauge.\<close>

theorem long_write_witness:
  "\<exists>s s1 s2 i. started gauge_db s \<and> prepare quiet_sv s 3 0 [[1, 2], [3]] = Some s1
    \<and> sent s1 = [BT_ATT_OP_PREP_WRITE_RSP # [3, 0, 0, 0, 1, 2], BT_ATT_OP_PREP_WRITE_RSP # [3, 0, 2, 0, 3]]
    \<and> exec_write_cb quiet_sv s1 BT_ATT_OP_EXEC_WRITE_REQ [1] = Some s2
    \<and> db_log (sv_db s2) = db_log (sv_db s1) @ [WriteCalled 6 i 0 [1, 2, 3] BT_ATT_OP_EXEC_WRITE_REQ]"
proof -
  obtain s where s: "started gauge_db s"
    using sample_servers by blast
  have p: "sv_ok (sv_db s) s" "sv_db s = gauge_db\<lparr>db_ref_count := 2\<rparr>" "1 < unat (max_prep_queue_len s)" "prep_queue s = []" "unat (att_mtu (sv_att s)) = 23" "sent s = []"
    using startedD [OF s] by (simp_all add: sent_def)
  have f: "a_write_func gauge_attr = Some 6"
    by (simp add: gauge_attr_def sample_attr_def)
  show ?thesis
    using long_write [OF p(1) sample_at(3) [OF p(2)] sample_permissions(3) p(3,4), of "[[1, 2], [3]]" 0 6 quiet_sv] f p(5,6) s by (auto simp: le16_def)
qed

text \<open>3640 parts of 18 bytes, and one more.\<close>

theorem prep_write_overflow_witness:
  "\<exists>s s1. started gauge_db s \<and> prepare quiet_sv s 3 0 (replicate 3640 (replicate 18 7)) = Some s1 \<and> sv_ok (sv_db s) s1
    \<and> prep_write_cb quiet_sv s1 BT_ATT_OP_PREP_WRITE_REQ (le16 3 @ le16 65520 @ replicate 18 7) = None"
proof -
  obtain s where s: "started gauge_db s"
    using sample_servers by blast
  have p: "sv_ok (sv_db s) s" "sv_db s = gauge_db\<lparr>db_ref_count := 2\<rparr>" "1 < unat (max_prep_queue_len s)" "prep_queue s = []" "unat (att_mtu (sv_att s)) = 23"
    using startedD [OF s] by simp_all
  let ?bs = "replicate 3640 (replicate 18 (7 :: u8))"
  have len: "length (concat ?bs) = 65520" "?bs \<noteq> []"
    by (simp_all add: length_concat sum_list_replicate)
  show ?thesis
    using prep_write_overflow [OF p(1) sample_at(3) [OF p(2)] sample_permissions(3) p(3,4) len(2), of "replicate 18 7" quiet_sv] len(1) p(5) s by auto
qed

end
