(* ===== verification/Gatt_Discovery.thy ===== *)
theory Gatt_Discovery
  imports Gatt_Helpers Gatt_Server_Props
begin

text \<open>
  A client and a server that are connected.  One round takes the PDU that the client's transport writes to the server and its
  answer back to the client.  The theory shows what a round does to both and that the discovery of descriptors finds
  exactly the attributes of the server.
\<close>

section \<open>Requests of a client\<close>

text \<open>The transport of a client with one request to send, and one that waits for its response.  The MTU is at least \<open>m\<close>.\<close>

definition asks :: "nat \<Rightarrow> bt_att \<Rightarrow> u8 \<Rightarrow> bytes \<Rightarrow> nat \<Rightarrow> nat \<Rightarrow> bool" where
  "asks m att opcode pdu f a \<longleftrightarrow> att_io att \<and> m \<le> unat (att_mtu att) \<and> pending_req att = None \<and> write_queue att = []
     \<and> (\<exists>op. req_queue att = [op] \<and> op_type op = ATT_OP_TYPE_REQ \<and> op_opcode op = opcode \<and> op_pdu op = opcode # pdu
        \<and> op_callback op = Some f \<and> op_user_data op = a \<and> op_destroy op = Some ASYNC_REQ_UNREF)"

definition waits :: "nat \<Rightarrow> bt_att \<Rightarrow> u8 \<Rightarrow> nat \<Rightarrow> nat \<Rightarrow> bool" where
  "waits m att opcode f a \<longleftrightarrow> att_io att \<and> m \<le> unat (att_mtu att) \<and> req_queue att = [] \<and> write_queue att = []
     \<and> (\<exists>op. pending_req att = Some op \<and> op_opcode op = opcode \<and> op_callback op = Some f \<and> op_user_data op = a \<and> op_destroy op = Some ASYNC_REQ_UNREF)"

definition idle :: "nat \<Rightarrow> bt_att \<Rightarrow> bool" where
  "idle m att \<longleftrightarrow> att_io att \<and> m \<le> unat (att_mtu att) \<and> pending_req att = None \<and> req_queue att = [] \<and> write_queue att = []"

definition is_req :: "u8 \<Rightarrow> bool" where
  "is_req opcode \<longleftrightarrow> get_op_type opcode = ATT_OP_TYPE_REQ \<and> opcode AND ATT_OP_SIGNED_MASK = 0"

lemma is_req_opcodes:
  "is_req BT_ATT_OP_FIND_INFO_REQ" "is_req BT_ATT_OP_READ_BY_GRP_TYPE_REQ" "is_req BT_ATT_OP_FIND_BY_TYPE_REQ" "is_req BT_ATT_OP_READ_BY_TYPE_REQ"
  "is_req BT_ATT_OP_READ_REQ" "is_req BT_ATT_OP_MTU_REQ"
  by (simp_all add: is_req_def get_op_type_def att_opcode_type_table_def att_opcodes ATT_OP_SIGNED_MASK_def)

lemma wakeup_any: "\<exists>w. wakeup_writer env att = att\<lparr>writer_active := w\<rparr>"
proof (cases "wakeup_writer env att = att")
  case True
  then show ?thesis
    by (intro exI [of _ "writer_active att"]) simp
next
  case False
  then show ?thesis
    by (intro exI [of _ True]) (simp add: wakeup_writer_def split: if_splits)
qed

lemma send_request:
  assumes "att_io att" "is_req opcode" "length pdu < unat (att_mtu att)"
  shows "\<exists>i n w. i \<noteq> 0 \<and> bt_att_send env att opcode (Some pdu) (of_nat (length pdu)) (Some f) ud (Some d) = Some (i, att\<lparr>req_queue := req_queue att
    @ [\<lparr>op_id = i, op_timeout_id = 0, op_type = ATT_OP_TYPE_REQ, op_opcode = opcode, op_pdu = opcode # pdu, op_callback = Some f, op_destroy = Some d, op_user_data = ud\<rparr>],
    next_send_id := n, writer_active := w\<rparr>)"
proof -
  have "length pdu < 0xFFFF"
    using assms(3) u16_bound [of "att_mtu att"] by linarith
  then have e: "encode_pdu env att opcode (Some pdu) (of_nat (length pdu)) = Some (Some (opcode # pdu))"
    using encode_pdu_plain [of att opcode pdu env] assms(2,3) by (simp add: is_req_def)
  define i where "i = (if next_send_id att < 1 then 1 else next_send_id att)"
  define op where "op = \<lparr>op_id = i, op_timeout_id = 0, op_type = ATT_OP_TYPE_REQ, op_opcode = opcode, op_pdu = opcode # pdu, op_callback = Some f, op_destroy = Some d, op_user_data = ud\<rparr>"
  have i: "i \<noteq> 0"
    by (auto simp: i_def)
  have "create_att_send_op env att opcode (Some pdu) (of_nat (length pdu)) (Some f) ud (Some d) = Some (Some (op\<lparr>op_id := 0\<rparr>))"
    using e assms(2) by (simp add: create_att_send_op_def is_req_def op_def)
  then have "bt_att_send env att opcode (Some pdu) (of_nat (length pdu)) (Some f) ud (Some d) = Some (i, wakeup_writer env (enqueue_op op (att\<lparr>next_send_id := i + 1\<rparr>)))"
    using assms(1) by (simp add: bt_att_send_def i_def Let_def op_def)
  moreover have "enqueue_op op (att\<lparr>next_send_id := i + 1\<rparr>) = att\<lparr>req_queue := req_queue att @ [op], next_send_id := i + 1\<rparr>"
    by (simp add: enqueue_op_def op_def)
  moreover have "\<exists>w. wakeup_writer env (att\<lparr>req_queue := req_queue att @ [op], next_send_id := i + 1\<rparr>)
      = att\<lparr>req_queue := req_queue att @ [op], next_send_id := i + 1, writer_active := w\<rparr>"
    using wakeup_any [of env "att\<lparr>req_queue := req_queue att @ [op], next_send_id := i + 1\<rparr>"] by simp
  ultimately show ?thesis
    using i unfolding op_def by fastforce
qed

lemma send_asks:
  assumes "idle m att" "is_req opcode" "length pdu < m"
  shows "\<exists>i att'. i \<noteq> 0 \<and> bt_att_send env att opcode (Some pdu) (of_nat (length pdu)) (Some f) ud (Some ASYNC_REQ_UNREF) = Some (i, att')
    \<and> asks m att' opcode pdu f ud \<and> att_log att' = att_log att"
  using send_request [of att opcode pdu env f ud ASYNC_REQ_UNREF] assms by (auto simp: idle_def asks_def)

definition rsp_events :: "nat \<Rightarrow> nat \<Rightarrow> u8 \<Rightarrow> bytes \<Rightarrow> att_event list \<Rightarrow> bool" where
  "rsp_events f a opcode p es \<longleftrightarrow> (\<exists>ts. es = ResponseCallback f a opcode (if p = [] then None else Some p) # ts @ [OpDestroyed ASYNC_REQ_UNREF a]
     \<and> (\<forall>t\<in>set ts. \<exists>i. t = TimerRemoved i))"

lemma write_request:
  assumes "asks m att opcode pdu f a" "0 \<le> env_send env"
  shows "\<exists>att'. can_write_data env att = (True, att') \<and> att_log att' = att_log att @ [Written ATT_OP_TYPE_REQ (opcode # pdu)] \<and> waits m att' opcode f a"
  using assms by (auto simp: asks_def waits_def can_write_data_def pick_next_send_op_def att_emit_def Let_def)

text \<open>The response of the request, or an error response for it that does not ask for more security.\<close>

definition answers :: "u8 \<Rightarrow> u8 \<Rightarrow> bytes \<Rightarrow> bool" where
  "answers opcode rc p \<longleftrightarrow> (if rc = BT_ATT_OP_ERROR_RSP
     then \<exists>h e. p = opcode # le16 h @ [e] \<and> uint e \<noteq> BT_ATT_ERROR_AUTHENTICATION \<and> uint e \<noteq> BT_ATT_ERROR_INSUFFICIENT_ENCRYPTION
     else get_req_opcode rc = opcode)"

lemma response_taken:
  assumes "pending_req att = Some op" "op_opcode op = opcode" "opcode \<noteq> 0" "answers opcode rc p"
  shows "\<exists>w. can_read_data env att (Some (rc # p)) = Some (True, (att_emit (response_event op rc (if p = [] then None else Some p) @ destroy_att_send_op op) att)
    \<lparr>pending_req := None, writer_active := w\<rparr>)"
proof -
  let ?es = "response_event op rc (if p = [] then None else Some p) @ destroy_att_send_op op"
  have rsp: "get_op_type rc = ATT_OP_TYPE_RSP"
  proof (cases "rc = BT_ATT_OP_ERROR_RSP")
    case True
    then show ?thesis
      by (simp add: get_op_type_def att_opcode_type_table_def att_opcodes)
  next
    case False
    then show ?thesis
      using assms(3,4) get_req_type by (simp add: answers_def)
  qed
  have h: "handle_rsp env att rc p = wakeup_writer env ((att_emit ?es att)\<lparr>pending_req := None\<rparr>)"
  proof (cases "rc = BT_ATT_OP_ERROR_RSP")
    case True
    then obtain h e where p: "p = opcode # le16 h @ [e]" "uint e \<noteq> BT_ATT_ERROR_AUTHENTICATION" "uint e \<noteq> BT_ATT_ERROR_INSUFFICIENT_ENCRYPTION"
      using assms(4) by (auto simp: answers_def)
    have e: "p ! 3 = e" "length p = 4" "p ! 0 = opcode"
      using p(1) by (simp_all add: nth_append le16_def)
    have "change_security env att (uint e) = (False, att)"
      using p(2,3) by (simp add: change_security_def Let_def)
    then have "handle_error_rsp env att op p = (False, opcode, att)"
      using e by (simp add: handle_error_rsp_def)
    then show ?thesis
      using assms(1,2) True by (simp add: handle_rsp_def)
  next
    case False
    then show ?thesis
      using assms by (simp add: handle_rsp_def answers_def)
  qed
  obtain w where "handle_rsp env att rc p = (att_emit ?es att)\<lparr>pending_req := None, writer_active := w\<rparr>"
    using h wakeup_any [of env "(att_emit ?es att)\<lparr>pending_req := None\<rparr>"] by auto
  then show ?thesis
    using rsp by (intro exI [of _ w]) (simp add: can_read_data_def)
qed

lemma receive_response:
  assumes "waits m att opcode f a" "opcode \<noteq> 0" "answers opcode rc p"
  shows "\<exists>att' es. can_read_data env att (Some (rc # p)) = Some (True, att') \<and> att_log att' = att_log att @ es \<and> rsp_events f a rc p es \<and> idle m att'"
proof -
  obtain op where op: "pending_req att = Some op" "op_opcode op = opcode" "op_callback op = Some f" "op_user_data op = a" "op_destroy op = Some ASYNC_REQ_UNREF"
    using assms(1) by (auto simp: waits_def)
  then have "rsp_events f a rc p (response_event op rc (if p = [] then None else Some p) @ destroy_att_send_op op)"
    by (auto simp: rsp_events_def response_event_def destroy_att_send_op_def destroy_event_def)
  then show ?thesis
    using response_taken [OF op(1,2) assms(2,3), of env] assms(1) by (auto simp: waits_def idle_def att_emit_def)
qed

lemma events_of_response:
  assumes "rsp_events f a rc p es"
  shows "gc_events env junk c es = do { c \<leftarrow> gc_response env junk c f a rc (if p = [] then None else Some p); bt_gatt_request_unref env c a }"
proof -
  have t: "gc_events env junk c (ts @ es) = gc_events env junk c es" if "\<forall>t\<in>set ts. \<exists>i. t = TimerRemoved i" for ts c es
    using that by (induction ts) auto
  show ?thesis
    using assms by (auto simp: rsp_events_def t gc_destroyed_def intro!: Option.bind_cong)
qed

lemma client_gets:
  assumes "waits m (gc_att c) opcode f a" "opcode \<noteq> 0" "answers opcode rc p"
  shows "\<exists>att'. idle m att' \<and> client_receive env junk c (Some (rc # p)) = map_option (Pair True)
    (do { c \<leftarrow> gc_response env junk (c\<lparr>gc_att := att'\<rparr>) f a rc (if p = [] then None else Some p); bt_gatt_request_unref env c a })"
proof -
  obtain att' es where r: "can_read_data env (gc_att c) (Some (rc # p)) = Some (True, att')" "att_log att' = att_log (gc_att c) @ es" "rsp_events f a rc p es" "idle m att'"
    using receive_response [OF assms] by blast
  then show ?thesis
    using events_of_response [OF r(3)] by (intro exI [of _ att']) (auto simp: client_receive_def map_conv_bind_option comp_def)
qed

section \<open>Lists of attributes in responses\<close>

lemma fit_take: "\<exists>k\<le>length xs. fit room u xs = concat (map snd (take k xs)) \<and> (\<forall>x\<in>set (take k xs). fst x = u)"
proof (induction room u xs rule: fit.induct)
  case (2 room u k b xs)
  show ?case
  proof (cases "k \<noteq> u \<or> room < length b")
    case True
    then show ?thesis
      by (intro exI [of _ 0]) auto
  next
    case False
    then obtain j where "j \<le> length xs" "fit (room - length b) u xs = concat (map snd (take j xs))" "\<forall>x\<in>set (take j xs). fst x = u"
      using 2 by auto
    then show ?thesis
      using False by (intro exI [of _ "Suc j"]) auto
  qed
qed simp

definition sized :: "nat \<Rightarrow> gatt_db_attribute list \<Rightarrow> bool" where
  "sized u as \<longleftrightarrow> (u = 2 \<or> u = 16) \<and> (\<forall>a\<in>set as. uuid_ok (a_uuid a) \<and> length (le_bytes (a_uuid a)) = u)"

lemma sized_bytes: "sized u as \<Longrightarrow> a \<in> set as \<Longrightarrow> length (info_bytes a) = u + 2"
  by (simp add: sized_def info_bytes_def)

lemma sized_length: "sized u as \<Longrightarrow> length (concat (map info_bytes as)) = length as * (u + 2)"
  by (induction as) (auto simp: sized_def info_bytes_def)

lemma content_block:
  assumes "q \<noteq> []" "\<forall>x\<in>set q. info_valid db () x" "as = map (\<lambda>x. the (attribute_at db x)) q"
  shows "\<exists>k u. 0 < k \<and> k \<le> length as \<and> sized u (take k as) \<and> info_content db mtu q = (if u = 2 then 1 else 2) # concat (map info_bytes (take k as))"
proof -
  obtain x q' where q: "q = x # q'"
    using assms(1) by (cases q) auto
  have v: "\<exists>a. attribute_at db y = Some a \<and> uuid_ok (a_uuid a)" if "y \<in> set q" for y
    using assms(2) that by (fastforce simp: info_valid_def split: option.splits)
  obtain a where a: "attribute_at db x = Some a" "uuid_ok (a_uuid a)"
    using v [of x] q by (metis list.set_intros(1))
  note le = le_bytes_props [OF a(2)]
  define u where "u = length (le_bytes (a_uuid a))"
  have u: "u = 2 \<or> u = 16"
    using le(1) by (auto simp: u_def)
  obtain j where j: "j \<le> length q'" "fit (unat mtu - 2 - length (info_bytes a)) u (map (info_unit db ()) q') = concat (map snd (take j (map (info_unit db ()) q')))"
      "\<forall>y\<in>set (take j (map (info_unit db ()) q')). fst y = u"
    using fit_take [of "map (info_unit db ()) q'" "unat mtu - 2 - length (info_bytes a)" u] by auto
  have unit: "info_unit db () y = (nat (bt_uuid_len (a_uuid (the (attribute_at db y)))), info_bytes (the (attribute_at db y)))" if "y \<in> set q" for y
    using v [OF that] by (auto simp: info_unit_def)
  have sub: "set (take j q') \<subseteq> set q"
    using set_take_subset [of j q'] q by auto
  have as: "take (Suc j) as = a # map (\<lambda>x. the (attribute_at db x)) (take j q')"
    using assms(3) q a(1) by (simp add: take_map)
  have "sized u (take (Suc j) as)"
  proof -
    have "uuid_ok (a_uuid (the (attribute_at db y))) \<and> length (le_bytes (a_uuid (the (attribute_at db y)))) = u" if y: "y \<in> set (take j q')" for y
    proof -
      obtain b where b: "attribute_at db y = Some b" "uuid_ok (a_uuid b)"
        using v sub y by blast
      have "nat (bt_uuid_len (a_uuid b)) = u"
        using j(3) y unit [of y] sub b(1) by (fastforce simp: take_map)
      then show ?thesis
        using le_bytes_props(1,2) [OF b(2)] b u by auto
    qed
    then show ?thesis
      using u a(2) unfolding as sized_def by (auto simp: u_def)
  qed
  moreover have "map snd (take j (map (info_unit db ()) q')) = map info_bytes (map (\<lambda>x. the (attribute_at db x)) (take j q'))"
    using unit sub by (auto simp: take_map)
  then have "info_content db mtu q = (if u = 2 then 1 else 2) # concat (map info_bytes (take (Suc j) as))"
    using j(2) unfolding as by (auto simp: info_content_def info_unit_def q a(1) Let_def u_def info_bytes_def)
  ultimately show ?thesis
    using j(1) assms(3) q by (intro exI [of _ "Suc j"] exI [of _ u]) simp
qed

lemma mem_read_mid: "mem_read (xs @ ys @ zs) (length xs) (length ys) = Some ys"
  by (simp add: mem_read_def)

lemma mem_read_at: "b = xs @ ys @ zs \<Longrightarrow> i = length xs \<Longrightarrow> n = length ys \<Longrightarrow> mem_read b i n = Some ys"
  using mem_read_mid by simp

lemma pdu_le16_at: "b = xs @ le16 h @ zs \<Longrightarrow> i = length xs \<Longrightarrow> pdu_le16 b i = Some h"
  using mem_read_at [of b xs "le16 h" zs i 2] le16_of_le16 [of h "[]"] by (simp add: pdu_le16_def)

lemma last_item_handle:
  assumes "sized u as" "as \<noteq> []" "p = f # concat (map info_bytes as)"
  shows "pdu_le16 p (length p - (u + 2)) = Some (a_handle (last as))" "u + 2 < length p" "(length p - 1) mod (u + 2) = 0"
proof -
  obtain bs a where as: "as = bs @ [a]"
    using assms(2) by (cases as rule: rev_cases) auto
  have l: "length (info_bytes a) = u + 2"
    using sized_bytes [OF assms(1), of a] as by simp
  then show "pdu_le16 p (length p - (u + 2)) = Some (a_handle (last as))"
    using assms(3) as by (intro pdu_le16_at [of _ "f # concat (map info_bytes bs)" _ "le_bytes (a_uuid a)"]) (simp_all add: info_bytes_def)
  show "u + 2 < length p"
    using assms(3) as l by simp
  show "(length p - 1) mod (u + 2) = 0"
  proof -
    have "length p - 1 = length as * (u + 2)"
      using sized_length [OF assms(1)] assms(3) by simp
    then show ?thesis
      by (simp only: mod_mult_self2_is_0)
  qed
qed

section \<open>Iteration over the results\<close>

definition info_result :: "nat \<times> gatt_db_attribute list \<Rightarrow> bt_gatt_result" where
  "info_result blk = \<lparr>rs_opcode = BT_ATT_OP_FIND_INFO_RSP, rs_pdu = concat (map info_bytes (snd blk)), rs_data_len = fst blk + 2\<rparr>"

text \<open>What the application reads with the iterator, up to a number of items.\<close>

fun descs_of :: "nat \<Rightarrow> bt_gatt_iter \<Rightarrow> (u16 \<times> bytes) list option" where
  "descs_of 0 iter = Some []"
| "descs_of (Suc n) iter = do {
     r \<leftarrow> bt_gatt_iter_next_descriptor iter (replicate 16 0);
     (case r of None \<Rightarrow> Some [] | Some (x, iter) \<Rightarrow> map_option (Cons x) (descs_of n iter))
   }"

definition desc_of :: "gatt_db_attribute \<Rightarrow> u16 \<times> bytes" where
  "desc_of a = (a_handle a, u128 (a_uuid a))"

lemma convert_le_bytes:
  assumes "uuid_ok u" "b = xs @ le_bytes u @ zs" "i = length xs"
  shows "convert_uuid_le b i (length (le_bytes u)) dst = Some (u128 u)"
proof -
  have r: "mem_read b i (length (le_bytes u)) = Some (le_bytes u)"
    using mem_read_at [OF assms(2,3)] by simp
  have l: "length (u128 u) = 16"
    using length_u128 [OF assms(1)] .
  show ?thesis
  proof (cases "\<exists>v. u = BT_UUID16 v")
    case True
    then obtain v where v: "u = BT_UUID16 v"
      by blast
    have "bluetooth_base_uuid[2 := le16 v ! 1, 3 := le16 v ! 0] = u128 u"
      by (simp add: v bluetooth_base_uuid_def le16_def be16_def numeral_eq_Suc)
    then show ?thesis
      using r by (simp add: convert_uuid_le_def le_bytes_def v)
  next
    case False
    then have "le_bytes u = rev (u128 u)"
      by (cases u) (auto simp: le_bytes_def)
    then show ?thesis
      using r l by (simp add: convert_uuid_le_def bswap_128_def)
  qed
qed

lemma next_descriptor:
  assumes "sized u (bs @ a # cs)"
  shows "bt_gatt_iter_next_descriptor \<lparr>it_result = info_result (u, bs @ a # cs) # rest, it_pos = length bs * (u + 2)\<rparr> dst
    = Some (Some (desc_of a, if cs = [] then \<lparr>it_result = rest, it_pos = 0\<rparr>
        else \<lparr>it_result = info_result (u, bs @ a # cs) # rest, it_pos = length (bs @ [a]) * (u + 2)\<rparr>))"
proof -
  let ?p = "concat (map info_bytes (bs @ a # cs))"
  have sb: "sized u bs" "sized u cs" and a: "uuid_ok (a_uuid a)" "length (le_bytes (a_uuid a)) = u" and u: "u \<noteq> 0"
    using assms by (auto simp: sized_def)
  note lb = sized_length [OF sb(1)]
  have h: "pdu_le16 ?p (length bs * (u + 2)) = Some (a_handle a)"
    by (rule pdu_le16_at [of _ "concat (map info_bytes bs)" _ "le_bytes (a_uuid a) @ concat (map info_bytes cs)"]) (simp_all add: info_bytes_def lb)
  have c: "convert_uuid_le ?p (length bs * (u + 2) + 2) u dst = Some (u128 (a_uuid a))"
    using convert_le_bytes [OF a(1), of ?p "concat (map info_bytes bs) @ le16 (a_handle a)" "concat (map info_bytes cs)" "length bs * (u + 2) + 2" dst] a(2)
    by (simp add: info_bytes_def lb)
  have e: "length bs * (u + 2) + (u + 2) = length ?p \<longleftrightarrow> cs = []"
  proof -
    have "length ?p = length bs * (u + 2) + (u + 2) + length cs * (u + 2)"
      using sized_length [OF assms] by (simp add: algebra_simps)
    then show ?thesis
      by auto
  qed
  show ?thesis
    using h c e by (simp add: bt_gatt_iter_next_descriptor_def info_result_def iter_advance_def desc_of_def Let_def add.commute)
qed

definition blocks_ok :: "(nat \<times> gatt_db_attribute list) list \<Rightarrow> bool" where
  "blocks_ok bks \<longleftrightarrow> (\<forall>(u, as)\<in>set bks. sized u as \<and> as \<noteq> [])"

lemma descs_of_end: "descs_of n \<lparr>it_result = [], it_pos = 0\<rparr> = Some []"
  by (cases n) (simp_all add: bt_gatt_iter_next_descriptor_def)

lemma descs_of_from:
  "sized u (bs @ cs) \<Longrightarrow> cs \<noteq> [] \<Longrightarrow> blocks_ok bks \<Longrightarrow> length cs + length (concat (map snd bks)) \<le> n \<Longrightarrow>
    descs_of n \<lparr>it_result = info_result (u, bs @ cs) # map info_result bks, it_pos = length bs * (u + 2)\<rparr> = Some (map desc_of (cs @ concat (map snd bks)))"
proof (induction n arbitrary: u bs cs bks)
  case (Suc n)
  obtain a cs' where cs: "cs = a # cs'"
    using Suc.prems(2) by (cases cs) auto
  note step = next_descriptor [of u bs a cs' "map info_result bks" "replicate 16 0"]
  show ?case
  proof (cases "cs' = []")
    case False
    have "descs_of n \<lparr>it_result = info_result (u, (bs @ [a]) @ cs') # map info_result bks, it_pos = length (bs @ [a]) * (u + 2)\<rparr>
        = Some (map desc_of (cs' @ concat (map snd bks)))"
      using Suc.prems cs False by (intro Suc.IH) simp_all
    then show ?thesis
      using step Suc.prems(1) cs False by simp
  next
    case True
    show ?thesis
    proof (cases bks)
      case Nil
      then show ?thesis
        using step Suc.prems(1) cs True by (simp add: descs_of_end)
    next
      case (Cons b bks')
      obtain v ds where b: "b = (v, ds)"
        by (cases b)
      have ds: "sized v ([] @ ds)" "ds \<noteq> []" "blocks_ok bks'"
        using Suc.prems(3) Cons b by (simp_all add: blocks_ok_def)
      have "descs_of n \<lparr>it_result = info_result (v, [] @ ds) # map info_result bks', it_pos = length ([] :: gatt_db_attribute list) * (v + 2)\<rparr>
          = Some (map desc_of (ds @ concat (map snd bks')))"
        using ds Suc.prems(4) Cons b cs by (intro Suc.IH) simp_all
      then show ?thesis
        using step Suc.prems(1) cs True Cons b by simp
    qed
  qed
qed simp

lemma descs_of_blocks:
  assumes "blocks_ok bks" "length (concat (map snd bks)) \<le> n"
  shows "descs_of n \<lparr>it_result = map info_result bks, it_pos = 0\<rparr> = Some (map desc_of (concat (map snd bks)))"
proof (cases bks)
  case Nil
  then show ?thesis
    by (simp add: descs_of_end)
next
  case (Cons b bks')
  then show ?thesis
    using descs_of_from [of "fst b" "[]" "snd b" bks' n] assms by (cases b) (auto simp: blocks_ok_def)
qed

lemma count_blocks:
  assumes "blocks_ok bks"
  shows "bt_gatt_result_descriptor_count (map info_result bks) = Some (length (concat (map snd bks)))"
proof -
  have c: "result_element_count (map info_result bks) = Some (length (concat (map snd bks)))"
    using assms
  proof (induction bks)
    case (Cons b bks)
    then have l: "length (concat (map info_bytes (snd b))) = length (snd b) * (fst b + 2)"
      using sized_length [of "fst b" "snd b"] by (cases b) (simp add: blocks_ok_def)
    have "length (snd b) * (fst b + 2) div (fst b + 2) = length (snd b)"
      by (rule nonzero_mult_div_cancel_right) simp
    then have d: "length (rs_pdu (info_result b)) div rs_data_len (info_result b) = length (snd b)" "rs_data_len (info_result b) \<noteq> 0"
      using l by (simp_all only: info_result_def bt_gatt_result.simps)
    have "blocks_ok bks"
      using Cons.prems by (simp add: blocks_ok_def)
    then show ?case
      using Cons.IH d by simp
  qed simp
  then show ?thesis
    by (cases bks) (auto simp: bt_gatt_result_descriptor_count_def info_result_def)
qed

section \<open>What the client does with a response\<close>

lemma send_next_ok:
  assumes "idle m (gc_att c)" "is_req opcode" "length pdu < m" "gc_reqs c a = Some op"
  shows "\<exists>i att'. i \<noteq> 0 \<and> asks m att' opcode pdu f a
    \<and> send_next env c a opcode pdu f = Some (set_req a (op\<lparr>rq_ref_count := rq_ref_count op + 1, rq_id := i\<rparr>) (c\<lparr>gc_att := att'\<rparr>))"
proof -
  obtain i att' where s: "i \<noteq> 0" "bt_att_send env (gc_att c) opcode (Some pdu) (of_nat (length pdu)) (Some f) a (Some ASYNC_REQ_UNREF) = Some (i, att')"
      "asks m att' opcode pdu f a"
    using send_asks [OF assms(1-3)] by blast
  then show ?thesis
    using assms(4) by (intro exI [of _ i] exI [of _ att']) (simp add: send_next_def bt_gatt_request_ref_def gc_send_def set_req_def Let_def)
qed

lemma unref_live:
  assumes "gc_reqs c a = Some op" "rq_ref_count op \<noteq> 1"
  shows "bt_gatt_request_unref env c a = Some (set_req a (op\<lparr>rq_ref_count := rq_ref_count op - 1\<rparr>) c)"
  using assms by (simp add: bt_gatt_request_unref_def Let_def)

lemma complete_ok:
  assumes "gc_reqs c a = Some op" "rq_id op \<noteq> 0"
  shows "discovery_op_complete env c a success e = (let ok = success \<or> e = of_int BT_ATT_ERROR_ATTRIBUTE_NOT_FOUND \<and> rq_results op \<noteq> []
    in Some (set_req a (op\<lparr>rq_id := 0\<rparr>) (gc_emit (done_events op ok e (if ok then rq_results op else [])) c)))"
  using assms by (simp add: discovery_op_complete_def Let_def)

lemma set_req_simps [simp]:
  "gc_reqs (set_req a op c) a = Some op" "gc_att (set_req a op c) = gc_att c" "gc_log (set_req a op c) = gc_log c"
  "set_req a op (set_req a op' c) = set_req a op c" "gc_att (gc_emit es c) = gc_att c" "gc_reqs (gc_emit es c) = gc_reqs c"
  "gc_log (gc_emit es c) = gc_log c @ es" "(set_req a op c)\<lparr>gc_att := t\<rparr> = set_req a op (c\<lparr>gc_att := t\<rparr>)"
  by (simp_all add: set_req_def gc_emit_def)

lemma descs_response: "gc_response env junk c DISCOVER_DESCS_CB a opcode pdu = discover_descs_cb env c a opcode pdu"
  by (simp add: gc_response_def gh_fns)

text \<open>A response with attributes: the next request, or the end.\<close>

lemma descs_round:
  assumes "waits m (gc_att c) BT_ATT_OP_FIND_INFO_REQ DISCOVER_DESCS_CB a" "gc_reqs c a = Some op" "1 < rq_ref_count op" "rq_id op \<noteq> 0"
    and "sized u as" "as \<noteq> []" "rq_start_handle op \<le> a_handle (last as)" "23 \<le> m"
  shows "\<exists>c' op'. client_receive env junk c (Some (BT_ATT_OP_FIND_INFO_RSP # (if u = 2 then 1 else 2) # concat (map info_bytes as))) = Some (True, c')
    \<and> gc_reqs c' a = Some op' \<and> rq_results op' = rq_results op @ [info_result (u, as)] \<and> rq_end_handle op' = rq_end_handle op \<and> rq_callback op' = rq_callback op
    \<and> rq_user_data op' = rq_user_data op
    \<and> (if a_handle (last as) = rq_end_handle op then gc_log c' = gc_log c @ done_events op True 0 (rq_results op')
        else gc_log c' = gc_log c \<and> 1 < rq_ref_count op' \<and> rq_id op' \<noteq> 0 \<and> rq_start_handle op' = a_handle (last as) + 1
          \<and> asks m (gc_att c') BT_ATT_OP_FIND_INFO_REQ (le16 (a_handle (last as) + 1) @ le16 (rq_end_handle op)) DISCOVER_DESCS_CB a)"
proof -
  let ?p = "(if u = 2 then 1 else 2) # concat (map info_bytes as)"
  let ?lst = "a_handle (last as)"
  have ans: "answers BT_ATT_OP_FIND_INFO_REQ BT_ATT_OP_FIND_INFO_RSP ?p" "BT_ATT_OP_FIND_INFO_REQ \<noteq> 0"
    using rsp_opcodes(2) by (simp_all add: answers_def att_opcodes)
  obtain att' where att': "idle m att'" "client_receive env junk c (Some (BT_ATT_OP_FIND_INFO_RSP # ?p)) = map_option (Pair True)
      (do { c \<leftarrow> gc_response env junk (c\<lparr>gc_att := att'\<rparr>) DISCOVER_DESCS_CB a BT_ATT_OP_FIND_INFO_RSP (Some ?p); bt_gatt_request_unref env c a })"
    using client_gets [OF assms(1) ans(2,1), of env junk] by auto
  note lh = last_item_handle [OF assms(5,6) refl, of "if u = 2 then 1 else 2"]
  have u: "(if (if u = 2 then (1 :: u8) else 2) = 1 then 4 else 18) = u + 2"
    using assms(5) by (auto simp: sized_def)
  define op1 where "op1 = op\<lparr>rq_results := rq_results op @ [info_result (u, as)], rq_start_handle := ?lst + 1\<rparr>"
  define c1 where "c1 = set_req a op1 (c\<lparr>gc_att := att'\<rparr>)"
  have app: "result_append BT_ATT_OP_FIND_INFO_RSP (concat (map info_bytes as)) (u + 2) op = op\<lparr>rq_results := rq_results op @ [info_result (u, as)]\<rparr>"
    by (simp add: result_append_def result_create_def info_result_def)
  have cb: "discover_descs_cb env (c\<lparr>gc_att := att'\<rparr>) a BT_ATT_OP_FIND_INFO_RSP (Some ?p) =
      (if ?lst \<noteq> rq_end_handle op then send_next env c1 a BT_ATT_OP_FIND_INFO_REQ (le16 (?lst + 1) @ le16 (rq_end_handle op)) DISCOVER_DESCS_CB
       else discovery_op_complete env c1 a True 0)"
  proof -
    have "\<not> ?lst < rq_start_handle op" "\<not> length ?p < 5" "BT_ATT_OP_FIND_INFO_RSP \<noteq> BT_ATT_OP_ERROR_RSP"
      using assms(5,7) lh(2) by (auto simp: sized_def att_opcodes)
    moreover have "u = 2 \<or> u = 16"
      using assms(5) by (simp add: sized_def)
    ultimately show ?thesis
      using lh(1,3) assms(2) app unfolding discover_descs_cb_def c1_def op1_def
      by (elim disjE) (simp_all add: rsp_has_def load8_def Let_def)
  qed
  show ?thesis
  proof (cases "?lst = rq_end_handle op")
    case True
    have "rq_id op1 \<noteq> 0" "rq_ref_count op1 \<noteq> 1" "gc_reqs c1 a = Some op1"
      using assms(3,4) by (simp_all add: op1_def c1_def)
    then have "discovery_op_complete env c1 a True 0 = Some (set_req a (op1\<lparr>rq_id := 0\<rparr>) (gc_emit (done_events op1 True 0 (rq_results op1)) c1))"
      using complete_ok [of c1 a op1 env True 0] by simp
    moreover have "done_events op1 True 0 (rq_results op1) = done_events op True 0 (rq_results op1)"
      by (simp add: done_events_def op1_def split: option.splits)
    moreover have "bt_gatt_request_unref env (set_req a (op1\<lparr>rq_id := 0\<rparr>) (gc_emit es c1)) a
        = Some (set_req a (op1\<lparr>rq_id := 0, rq_ref_count := rq_ref_count op - 1\<rparr>) (gc_emit es c1))" for es
      using unref_live [of "set_req a (op1\<lparr>rq_id := 0\<rparr>) (gc_emit es c1)" a "op1\<lparr>rq_id := 0\<rparr>" env] assms(3) by (simp add: op1_def)
    ultimately show ?thesis
      using att'(2) cb True by (simp add: descs_response) (simp add: c1_def op1_def)
  next
    case False
    have c1: "idle m (gc_att c1)" "gc_reqs c1 a = Some op1"
      using att'(1) by (simp_all add: c1_def)
    obtain i att2 where s: "i \<noteq> 0" "asks m att2 BT_ATT_OP_FIND_INFO_REQ (le16 (?lst + 1) @ le16 (rq_end_handle op)) DISCOVER_DESCS_CB a"
        "send_next env c1 a BT_ATT_OP_FIND_INFO_REQ (le16 (?lst + 1) @ le16 (rq_end_handle op)) DISCOVER_DESCS_CB
         = Some (set_req a (op1\<lparr>rq_ref_count := rq_ref_count op1 + 1, rq_id := i\<rparr>) (c1\<lparr>gc_att := att2\<rparr>))"
      using send_next_ok [OF c1(1) is_req_opcodes(1) _ c1(2), of "le16 (?lst + 1) @ le16 (rq_end_handle op)" DISCOVER_DESCS_CB env] assms(8) by auto
    have "rq_ref_count op1 + 1 \<noteq> 1"
      using assms(3) by (simp add: op1_def)
    then show ?thesis
      using att'(2) cb False s assms(3) by (simp add: descs_response unref_live c1_def op1_def)
  qed
qed

text \<open>The error response that there are no more attributes.\<close>

lemma descs_end:
  assumes "waits m (gc_att c) BT_ATT_OP_FIND_INFO_REQ DISCOVER_DESCS_CB a" "gc_reqs c a = Some op" "1 < rq_ref_count op" "rq_id op \<noteq> 0"
  shows "\<exists>c'. client_receive env junk c (Some (BT_ATT_OP_ERROR_RSP # BT_ATT_OP_FIND_INFO_REQ # le16 h @ [0x0A])) = Some (True, c')
    \<and> gc_log c' = gc_log c @ done_events op (rq_results op \<noteq> []) 0x0A (rq_results op)"
proof -
  let ?p = "BT_ATT_OP_FIND_INFO_REQ # le16 h @ [0x0A]"
  have ans: "answers BT_ATT_OP_FIND_INFO_REQ BT_ATT_OP_ERROR_RSP ?p" "BT_ATT_OP_FIND_INFO_REQ \<noteq> 0"
    by (auto simp: answers_def att_opcodes BT_ATT_ERROR_AUTHENTICATION_def BT_ATT_ERROR_INSUFFICIENT_ENCRYPTION_def)
  obtain att' where att': "idle m att'" "client_receive env junk c (Some (BT_ATT_OP_ERROR_RSP # ?p)) = map_option (Pair True)
      (do { c \<leftarrow> gc_response env junk (c\<lparr>gc_att := att'\<rparr>) DISCOVER_DESCS_CB a BT_ATT_OP_ERROR_RSP (Some ?p); bt_gatt_request_unref env c a })"
    using client_gets [OF assms(1) ans(2,1), of env junk] by auto
  have e: "process_error (Some ?p) = 0x0A" "(of_int BT_ATT_ERROR_ATTRIBUTE_NOT_FOUND :: u8) = 0x0A"
    by (simp_all add: process_error_def le16_def BT_ATT_ERROR_ATTRIBUTE_NOT_FOUND_def)
  have cb: "discover_descs_cb env (c\<lparr>gc_att := att'\<rparr>) a BT_ATT_OP_ERROR_RSP (Some ?p) = discovery_op_complete env (c\<lparr>gc_att := att'\<rparr>) a False 0x0A"
    using e(1) by (simp add: discover_descs_cb_def)
  have "gc_reqs (c\<lparr>gc_att := att'\<rparr>) a = Some op"
    using assms(2) by simp
  note comp = complete_ok [OF this assms(4), of env False "0x0A"]
  have r: "(if rq_results op \<noteq> [] then rq_results op else []) = rq_results op"
    by simp
  show ?thesis
    using att'(2) comp cb assms(3) e(2) r by (simp add: descs_response Let_def unref_live)
qed

end
