(* ===== verification/Gatt_Link.thy ===== *)
theory Gatt_Link
  imports Gatt_Discovery
begin

text \<open>
  A client and a server that are connected: the PDUs that the transport of one writes are received by the other.  The
  discovery of descriptors goes through the requests and responses of both and finds exactly the attributes of the server.
\<close>

section \<open>The connection\<close>

fun first_written :: "att_event list \<Rightarrow> bytes option" where
  "first_written [] = None"
| "first_written (Written t p # es) = Some p"
| "first_written (_ # es) = first_written es"

text \<open>A call of the write handler: the PDU that goes out.\<close>

definition transmit :: "att_env \<Rightarrow> bt_att \<Rightarrow> bytes option \<times> bt_att" where
  "transmit env att = (let att' = snd (can_write_data env att) in (first_written (drop (length (att_log att)) (att_log att')), att'))"

text \<open>One round: the client's PDU, its handling by the server, and the server's PDU.  A receiver reads at most its MTU.\<close>

definition link_round :: "att_env \<Rightarrow> sv_env \<Rightarrow> (nat \<Rightarrow> u8) \<Rightarrow> gatt_client \<times> bt_gatt_server \<Rightarrow> (gatt_client \<times> bt_gatt_server) option" where
  "link_round env senv junk = (\<lambda>(c, s). do {
     let (req, catt) = transmit env (gc_att c);
     req \<leftarrow> req;
     (_, s) \<leftarrow> server_receive senv s (Some (take (unat (att_mtu (sv_att s))) req));
     let (rsp, satt) = transmit (e_att senv) (sv_att s);
     rsp \<leftarrow> rsp;
     (_, c) \<leftarrow> client_receive env junk (c\<lparr>gc_att := catt\<rparr>) (Some (take (unat (att_mtu catt)) rsp));
     Some (c, s\<lparr>sv_att := satt\<rparr>)
   })"

fun link_rounds :: "att_env \<Rightarrow> sv_env \<Rightarrow> (nat \<Rightarrow> u8) \<Rightarrow> nat \<Rightarrow> gatt_client \<times> bt_gatt_server \<Rightarrow> (gatt_client \<times> bt_gatt_server) option" where
  "link_rounds env senv junk 0 x = Some x"
| "link_rounds env senv junk (Suc n) x = do { x \<leftarrow> link_round env senv junk x; link_rounds env senv junk n x }"

section \<open>A round of the server\<close>

text \<open>A server that waits for a request.\<close>

definition ready :: "gatt_db \<Rightarrow> bt_gatt_server \<Rightarrow> bool" where
  "ready d0 s \<longleftrightarrow> sv_ok d0 s \<and> listening s \<and> \<not> in_req (sv_att s) \<and> write_queue (sv_att s) = []"

lemma transmit_reply:
  assumes "replied att att' p" "write_queue att = []" "0 \<le> env_send env"
  shows "\<exists>att2. transmit env att' = (Some p, att2) \<and> \<not> in_req att2 \<and> write_queue att2 = [] \<and> att_io att2 = att_io att \<and> att_mtu att2 = att_mtu att
    \<and> att_notify_list att2 = att_notify_list att"
  using assms by (auto simp: replied_def transmit_def can_write_data_def pick_next_send_op_def att_emit_def destroy_att_send_op_def destroy_event_def Let_def)

lemma transmit_request:
  assumes "asks m att opcode pdu f a" "0 \<le> env_send env"
  shows "\<exists>att'. transmit env att = (Some (opcode # pdu), att') \<and> att_log att' = att_log att @ [Written ATT_OP_TYPE_REQ (opcode # pdu)] \<and> waits m att' opcode f a"
  using write_request [OF assms] by (auto simp: transmit_def)

text \<open>The attributes of the database in the range of a request.\<close>

definition attrs_in :: "gatt_db \<Rightarrow> u16 \<Rightarrow> u16 \<Rightarrow> gatt_db_attribute list" where
  "attrs_in d lo hi = filter (in_range lo hi) (map snd (active_attrs d))"

definition info_answer :: "u16 \<Rightarrow> gatt_db_attribute list \<Rightarrow> bytes \<Rightarrow> bool" where
  "info_answer lo as p \<longleftrightarrow> (if as = [] then p = BT_ATT_OP_ERROR_RSP # BT_ATT_OP_FIND_INFO_REQ # le16 lo @ [0x0A]
     else \<exists>k u. 0 < k \<and> k \<le> length as \<and> sized u (take k as)
       \<and> p = BT_ATT_OP_FIND_INFO_RSP # (if u = 2 then 1 else 2) # concat (map info_bytes (take k as)))"

lemma stored_attr:
  assumes "shaped d0 d" "(x, a) \<in> set (active_attrs d0)"
  shows "\<exists>b. attribute_at d x = Some b \<and> a_handle b = a_handle a \<and> a_uuid b = a_uuid a"
proof -
  have "attribute_at d0 x = Some a"
    using active_attrs_valid assms by (auto simp: shaped_def)
  then have "map_option erase_attr (attribute_at d x) = Some (erase_attr a)"
    using shaped_lookup(1) [OF assms(1), of x] by simp
  then obtain b where "attribute_at d x = Some b" "erase_attr b = erase_attr a"
    by auto
  then show ?thesis
    using erase_attr_simps(1,2) [of a] erase_attr_simps(1,2) [of b] by metis
qed

lemma info_answers:
  assumes "sv_ok d0 s" "lo \<noteq> 0" "lo \<le> hi"
  shows "\<exists>att' p. find_info_cb env s BT_ATT_OP_FIND_INFO_REQ (le16 lo @ le16 hi) = Some (s\<lparr>sv_att := att'\<rparr>) \<and> replied (sv_att s) att' p
    \<and> info_answer lo (attrs_in d0 lo hi) p \<and> length p \<le> unat (att_mtu (sv_att s))"
proof -
  have m: "23 \<le> unat (att_mtu (sv_att s))"
    using assms(1) by (simp add: sv_ok_def)
  note sh = sv_ok_shaped [OF assms(1)]
  define xs where "xs = filter (\<lambda>x. in_range lo hi (snd x)) (active_attrs d0)"
  have A: "attrs_in d0 lo hi = map snd xs"
    by (simp add: attrs_in_def xs_def filter_map comp_def)
  obtain att' where r: "find_info_cb env s BT_ATT_OP_FIND_INFO_REQ (le16 lo @ le16 hi) = Some (s\<lparr>sv_att := att'\<rparr>)"
      "replied (sv_att s) att' (if map fst xs = [] then BT_ATT_OP_ERROR_RSP # BT_ATT_OP_FIND_INFO_REQ # le16 lo @ [0x0A]
       else BT_ATT_OP_FIND_INFO_RSP # info_content (sv_db s) (att_mtu (sv_att s)) (map fst xs))"
    using find_info_replies [OF assms refl, of env] unfolding xs_def by blast
  show ?thesis
  proof (cases "xs = []")
    case True
    then show ?thesis
      using r m by (auto simp: A info_answer_def)
  next
    case False
    let ?as = "map (\<lambda>x. the (attribute_at (sv_db s) x)) (map fst xs)"
    have st: "\<exists>b. attribute_at (sv_db s) (fst x) = Some b \<and> a_handle b = a_handle (snd x) \<and> a_uuid b = a_uuid (snd x)" if "x \<in> set xs" for x
      using stored_attr [OF sh, of "fst x" "snd x"] that by (simp add: xs_def)
    then have v: "\<forall>x\<in>set (map fst xs). info_valid (sv_db s) () x"
      using shaped_attr(2,3) [OF sh] by (fastforce simp: info_valid_def)
    have ne: "map fst xs \<noteq> []"
      using False by simp
    obtain k u where k: "0 < k" "k \<le> length ?as" "sized u (take k ?as)"
        "info_content (sv_db s) (att_mtu (sv_att s)) (map fst xs) = (if u = 2 then 1 else 2) # concat (map info_bytes (take k ?as))"
      using content_block [OF ne v refl, where mtu = "att_mtu (sv_att s)"] by blast
    have l: "length (info_content (sv_db s) (att_mtu (sv_att s)) (map fst xs)) < unat (att_mtu (sv_att s))"
      using find_info_content [OF _ v _ m, of "replicate (unat (att_mtu (sv_att s))) 0"] False m by auto
    have sub: "set (take k xs) \<subseteq> set xs"
      by (rule set_take_subset)
    have "map info_bytes (take k ?as) = map info_bytes (take k (map snd xs))"
      using st sub by (fastforce simp: take_map info_bytes_def)
    moreover have "map a_uuid (take k ?as) = map a_uuid (take k (map snd xs))"
      using st sub by (fastforce simp: take_map)
    then have "sized u (take k (map snd xs))"
      using k(3) unfolding sized_def by (metis (no_types, lifting) image_eqI image_set imageE)
    ultimately have "info_answer lo (attrs_in d0 lo hi) (BT_ATT_OP_FIND_INFO_RSP # info_content (sv_db s) (att_mtu (sv_att s)) (map fst xs))"
      unfolding info_answer_def A using False k(1,2,4) by (simp only: if_False map_is_Nil_conv length_map) blast
    then show ?thesis
      using r False l by (intro exI [of _ att']) auto
  qed
qed

lemma server_round:
  assumes "ready d0 s" "lo \<noteq> 0" "lo \<le> hi" "0 \<le> env_send (e_att senv)"
  shows "\<exists>s1 att2 p. server_receive senv s (Some (BT_ATT_OP_FIND_INFO_REQ # le16 lo @ le16 hi)) = Some (True, s1)
    \<and> transmit (e_att senv) (sv_att s1) = (Some p, att2) \<and> info_answer lo (attrs_in d0 lo hi) p \<and> length p \<le> unat (att_mtu (sv_att s))
    \<and> ready d0 (s1\<lparr>sv_att := att2\<rparr>) \<and> att_mtu att2 = att_mtu (sv_att s)"
proof -
  let ?pdu = "le16 lo @ le16 hi"
  define s0 where "s0 = taken s [NotifyCallback FIND_INFO_CB (sv_addr s) BT_ATT_OP_FIND_INFO_REQ ?pdu]"
  have s0: "sv_ok d0 s0" "write_queue (sv_att s0) = []" "att_mtu (sv_att s0) = att_mtu (sv_att s)" "att_notify_list (sv_att s0) = att_notify_list (sv_att s)"
      "sv_addr s0 = sv_addr s" "att_io (sv_att s0)"
    using assms(1) by (simp_all add: s0_def taken_def att_emit_def sv_ok_def ready_def)
  obtain att' p where h: "find_info_cb senv s0 BT_ATT_OP_FIND_INFO_REQ ?pdu = Some (s0\<lparr>sv_att := att'\<rparr>)" "replied (sv_att s0) att' p"
      "info_answer lo (attrs_in d0 lo hi) p" "length p \<le> unat (att_mtu (sv_att s0))"
    using info_answers [OF s0(1) assms(2,3), of senv] by auto
  have t: "(BT_ATT_OP_FIND_INFO_REQ, FIND_INFO_CB) \<in> set server_table" "BT_ATT_OP_FIND_INFO_REQ \<noteq> BT_ATT_OP_WRITE_CMD"
    by (simp_all add: server_table_def att_opcodes)
  have hd: "sv_handler senv s0 FIND_INFO_CB BT_ATT_OP_FIND_INFO_REQ ?pdu = find_info_cb senv s0 BT_ATT_OP_FIND_INFO_REQ ?pdu"
    by (simp add: sv_handler_def sv_fns)
  have r: "server_receive senv s (Some (BT_ATT_OP_FIND_INFO_REQ # ?pdu)) = Some (True, s0\<lparr>sv_att := att'\<rparr>)"
    using receive_request [OF _ _ t, of s senv ?pdu] assms(1) h(1) hd by (simp add: ready_def s0_def)
  obtain att2 where w: "transmit (e_att senv) att' = (Some p, att2)" "\<not> in_req att2" "write_queue att2 = []" "att_io att2 = att_io (sv_att s0)"
      "att_mtu att2 = att_mtu (sv_att s0)" "att_notify_list att2 = att_notify_list (sv_att s0)"
    using transmit_reply [OF h(2) s0(2) assms(4)] by blast
  have "ready d0 (s0\<lparr>sv_att := att2\<rparr>)"
    using w s0 assms(1) by (simp add: ready_def sv_ok_def listening_def)
  then show ?thesis
    using r w(1,5) h(3,4) s0(3) by (intro exI [of _ "s0\<lparr>sv_att := att'\<rparr>"] exI [of _ att2] exI [of _ p]) simp
qed

section \<open>The discovery of descriptors\<close>

text \<open>The client has a running discovery of the handles from \<open>lo\<close> to \<open>hi\<close>, whose results so far are the blocks \<open>bks\<close>, and is
  about to send the next request.\<close>

definition discovering :: "nat \<Rightarrow> gatt_client \<Rightarrow> nat \<Rightarrow> u16 \<Rightarrow> u16 \<Rightarrow> nat option \<Rightarrow> nat \<Rightarrow> (nat \<times> gatt_db_attribute list) list \<Rightarrow> bool" where
  "discovering m c a lo hi f ud bks \<longleftrightarrow> asks m (gc_att c) BT_ATT_OP_FIND_INFO_REQ (le16 lo @ le16 hi) DISCOVER_DESCS_CB a
     \<and> (\<exists>op. gc_reqs c a = Some op \<and> 1 < rq_ref_count op \<and> rq_id op \<noteq> 0 \<and> rq_start_handle op = lo \<and> rq_end_handle op = hi
        \<and> rq_callback op = f \<and> rq_user_data op = ud \<and> rq_results op = map info_result bks) \<and> blocks_ok bks"

text \<open>It has ended with the attributes \<open>as\<close>.\<close>

definition discovered :: "gatt_client \<Rightarrow> gatt_client \<Rightarrow> nat option \<Rightarrow> nat \<Rightarrow> gatt_db_attribute list \<Rightarrow> bool" where
  "discovered c c' f ud as \<longleftrightarrow> (\<exists>bks e. blocks_ok bks \<and> concat (map snd bks) = as
     \<and> gc_log c' = gc_log c @ (case f of None \<Rightarrow> [] | Some f \<Rightarrow> [RequestDone f (as \<noteq> []) e (map info_result bks) ud]))"

lemma discovery_round:
  assumes "discovering m c a lo hi f ud bks" "ready d0 s" "lo \<noteq> 0" "lo \<le> hi" "0 \<le> env_send env" "0 \<le> env_send (e_att senv)" "23 \<le> m" "unat (att_mtu (sv_att s)) = m"
  shows "\<exists>c' s'. link_round env senv junk (c, s) = Some (c', s') \<and> ready d0 s' \<and> att_mtu (sv_att s') = att_mtu (sv_att s)
    \<and> (attrs_in d0 lo hi = [] \<and> discovered c c' f ud (concat (map snd bks))
      \<or> (\<exists>k u. let as = take k (attrs_in d0 lo hi); h = a_handle (last as) in 0 < k \<and> k \<le> length (attrs_in d0 lo hi)
          \<and> (if h = hi then discovered c c' f ud (concat (map snd bks) @ as)
             else gc_log c' = gc_log c \<and> discovering m c' a (h + 1) hi f ud (bks @ [(u, as)]))))"
proof -
  obtain op where op: "gc_reqs c a = Some op" "1 < rq_ref_count op" "rq_id op \<noteq> 0" "rq_start_handle op = lo" "rq_end_handle op = hi"
      "rq_callback op = f" "rq_user_data op = ud" "rq_results op = map info_result bks" and bks: "blocks_ok bks"
    using assms(1) by (auto simp: discovering_def)
  have asks: "asks m (gc_att c) BT_ATT_OP_FIND_INFO_REQ (le16 lo @ le16 hi) DISCOVER_DESCS_CB a"
    using assms(1) by (simp add: discovering_def)
  obtain catt where catt: "transmit env (gc_att c) = (Some (BT_ATT_OP_FIND_INFO_REQ # le16 lo @ le16 hi), catt)" "waits m catt BT_ATT_OP_FIND_INFO_REQ DISCOVER_DESCS_CB a"
    using transmit_request [OF asks assms(5)] by blast
  obtain s1 att2 p where sv: "server_receive senv s (Some (BT_ATT_OP_FIND_INFO_REQ # le16 lo @ le16 hi)) = Some (True, s1)"
      "transmit (e_att senv) (sv_att s1) = (Some p, att2)" "info_answer lo (attrs_in d0 lo hi) p" "length p \<le> unat (att_mtu (sv_att s))"
      "ready d0 (s1\<lparr>sv_att := att2\<rparr>)" "att_mtu att2 = att_mtu (sv_att s)"
    using server_round [OF assms(2-4,6)] by blast
  let ?c = "c\<lparr>gc_att := catt\<rparr>"
  have w: "waits m (gc_att ?c) BT_ATT_OP_FIND_INFO_REQ DISCOVER_DESCS_CB a" "gc_reqs ?c a = Some op"
    using catt(2) op(1) by simp_all
  have cut: "take (unat (att_mtu (sv_att s))) (BT_ATT_OP_FIND_INFO_REQ # le16 lo @ le16 hi) = BT_ATT_OP_FIND_INFO_REQ # le16 lo @ le16 hi"
      "take (unat (att_mtu catt)) p = p"
    using assms(7,8) sv(4) catt(2) by (simp_all add: waits_def)
  have round: "link_round env senv junk (c, s) = Some (c', s1\<lparr>sv_att := att2\<rparr>)" if "client_receive env junk ?c (Some p) = Some (True, c')" for c'
    using that catt(1) sv(1,2) unfolding link_round_def by (simp only: prod.case Let_def Option.bind.simps cut)
  show ?thesis
  proof (cases "attrs_in d0 lo hi = []")
    case True
    then have p: "p = BT_ATT_OP_ERROR_RSP # BT_ATT_OP_FIND_INFO_REQ # le16 lo @ [0x0A]"
      using sv(3) by (simp add: info_answer_def)
    obtain c' where c': "client_receive env junk ?c (Some p) = Some (True, c')" "gc_log c' = gc_log ?c @ done_events op (rq_results op \<noteq> []) 0x0A (rq_results op)"
      using descs_end [OF w op(2,3), of env junk lo] p by auto
    have "concat (map snd bks) = [] \<longleftrightarrow> bks = []"
      using bks by (cases bks) (auto simp: blocks_ok_def)
    then have "discovered c c' f ud (concat (map snd bks))"
      unfolding discovered_def using bks c'(2) op(6-8) by (intro exI [of _ bks] exI [of _ "0x0A"]) (auto simp: done_events_def split: option.splits)
    then show ?thesis
      using round [OF c'(1)] sv(5,6) True by auto
  next
    case False
    obtain k u where k: "0 < k" "k \<le> length (attrs_in d0 lo hi)" "sized u (take k (attrs_in d0 lo hi))"
        "p = BT_ATT_OP_FIND_INFO_RSP # (if u = 2 then 1 else 2) # concat (map info_bytes (take k (attrs_in d0 lo hi)))"
      using sv(3) False by (auto simp: info_answer_def)
    define as where "as = take k (attrs_in d0 lo hi)"
    have ne: "as \<noteq> []"
      using k(1) False by (simp add: as_def)
    have "last as \<in> set (attrs_in d0 lo hi)"
      using last_in_set [OF ne] set_take_subset [of k "attrs_in d0 lo hi"] by (auto simp: as_def)
    then have "rq_start_handle op \<le> a_handle (last as)"
      using op(4) by (simp add: attrs_in_def)
    note dr = descs_round [OF w op(2,3) k(3) [folded as_def] ne this assms(7), of env junk]
    then obtain c' op' where c': "client_receive env junk ?c (Some p) = Some (True, c')" "gc_reqs c' a = Some op'"
        "rq_results op' = rq_results op @ [info_result (u, as)]" "rq_end_handle op' = rq_end_handle op" "rq_callback op' = rq_callback op" "rq_user_data op' = rq_user_data op"
        "if a_handle (last as) = rq_end_handle op then gc_log c' = gc_log ?c @ done_events op True 0 (rq_results op')
         else gc_log c' = gc_log ?c \<and> 1 < rq_ref_count op' \<and> rq_id op' \<noteq> 0 \<and> rq_start_handle op' = a_handle (last as) + 1
          \<and> asks m (gc_att c') BT_ATT_OP_FIND_INFO_REQ (le16 (a_handle (last as) + 1) @ le16 (rq_end_handle op)) DISCOVER_DESCS_CB a"
      unfolding k(4) as_def [symmetric] by blast
    have b: "blocks_ok (bks @ [(u, as)])"
      using bks k(3) ne by (simp add: blocks_ok_def as_def)
    have "if a_handle (last as) = hi then discovered c c' f ud (concat (map snd bks) @ as)
        else gc_log c' = gc_log c \<and> discovering m c' a (a_handle (last as) + 1) hi f ud (bks @ [(u, as)])"
    proof (cases "a_handle (last as) = hi")
      case True
      then have "discovered c c' f ud (concat (map snd bks) @ as)"
        unfolding discovered_def using b c'(3,7) ne op(5-8) by (intro exI [of _ "bks @ [(u, as)]"] exI [of _ 0]) (auto simp: done_events_def split: option.splits)
      then show ?thesis
        using True by simp
    next
      case False
      then show ?thesis
        using b c' op by (simp add: discovering_def)
    qed
    then show ?thesis
      using round [OF c'(1)] sv(5,6) k(1,2) unfolding as_def Let_def by (intro exI [of _ c'] exI [of _ "s1\<lparr>sv_att := att2\<rparr>"] conjI disjI2 exI [of _ k] exI [of _ u]) simp_all
  qed
qed

lemma attrs_rest:
  assumes "db_ok d" "0 < k" "k \<le> length (attrs_in d lo hi)" "h = a_handle (last (take k (attrs_in d lo hi)))"
  shows "h \<noteq> hi \<Longrightarrow> attrs_in d (h + 1) hi = drop k (attrs_in d lo hi) \<and> h + 1 \<le> hi \<and> h + 1 \<noteq> 0" "h = hi \<Longrightarrow> drop k (attrs_in d lo hi) = []"
proof -
  let ?A = "attrs_in d lo hi"
  have "sorted_wrt (<) (map a_handle (map snd (active_attrs d)))"
    using sorted_services [of "services d"] assms(1) by (simp add: db_ok_def active_attrs_def comp_def)
  then have srt: "sorted_wrt (\<lambda>a b. a_handle a < a_handle b) (take k ?A @ drop k ?A)"
    by (simp add: attrs_in_def sorted_wrt_map sorted_wrt_filter)
  obtain bs b where tk: "take k ?A = bs @ [b]"
    using assms(2,3) by (cases "take k ?A" rule: rev_cases) auto
  have h: "h = a_handle b"
    using assms(4) tk by simp
  have low: "\<forall>a\<in>set (take k ?A). a_handle a \<le> h" and up: "\<forall>a\<in>set (drop k ?A). h < a_handle a"
    using srt unfolding tk h by (auto simp: sorted_wrt_append)
  have "b \<in> set ?A"
    using set_take_subset [of k ?A] tk by auto
  then have b: "lo \<le> h" "h \<le> hi"
    by (auto simp: attrs_in_def h)
  have le: "a_handle a \<le> hi" if "a \<in> set (drop k ?A)" for a
    using set_drop_subset [of k ?A] that by (auto simp: attrs_in_def)
  show "drop k ?A = []" if "h = hi"
    using up le that by (cases "drop k ?A") fastforce+
  assume "h \<noteq> hi"
  then have hh: "h < hi"
    using b(2) by simp
  have nz: "1 + h \<noteq> 0"
  proof
    assume "1 + h = 0"
    then have "h = - 1"
      by (metis add.inverse_unique add.commute minus_minus)
    then show False
      using hh word_order.extremum [of hi] by simp
  qed
  have succ: "h + 1 \<le> x \<longleftrightarrow> h < x" for x
    using unatSuc [OF nz] by (simp add: word_le_nat_alt word_less_nat_alt add.commute Suc_le_eq)
  have "attrs_in d (h + 1) hi = filter (\<lambda>a. h < a_handle a) ?A"
    using b(1) by (auto simp: attrs_in_def succ intro!: filter_cong)
  also have "\<dots> = filter (\<lambda>a. h < a_handle a) (take k ?A) @ filter (\<lambda>a. h < a_handle a) (drop k ?A)"
    by (metis append_take_drop_id filter_append)
  also have "\<dots> = drop k ?A"
  proof -
    have "filter (\<lambda>a. h < a_handle a) (take k ?A) = []"
      using low by (auto simp: filter_empty_conv linorder_not_less)
    moreover have "filter (\<lambda>a. h < a_handle a) (drop k ?A) = drop k ?A"
      using up by (simp only: filter_id_conv) 
    ultimately show ?thesis
      by simp
  qed
  finally show "attrs_in d (h + 1) hi = drop k ?A \<and> h + 1 \<le> hi \<and> h + 1 \<noteq> 0"
    using hh succ [of hi] nz by (simp add: add.commute)
qed

lemma discovery_ends:
  assumes "db_ok d0" "0 \<le> env_send env" "0 \<le> env_send (e_att senv)" "23 \<le> m"
  shows "discovering m c a lo hi f ud bks \<Longrightarrow> ready d0 s \<Longrightarrow> lo \<noteq> 0 \<Longrightarrow> lo \<le> hi \<Longrightarrow> unat (att_mtu (sv_att s)) = m \<Longrightarrow>
    \<exists>n\<le>length (attrs_in d0 lo hi) + 1. \<exists>c' s'. link_rounds env senv junk n (c, s) = Some (c', s') \<and> ready d0 s'
      \<and> discovered c c' f ud (concat (map snd bks) @ attrs_in d0 lo hi)"
proof (induction "length (attrs_in d0 lo hi)" arbitrary: c s lo bks rule: less_induct)
  case less
  let ?A = "attrs_in d0 lo hi"
  obtain c' s' where r: "link_round env senv junk (c, s) = Some (c', s')" "ready d0 s'" "att_mtu (sv_att s') = att_mtu (sv_att s)"
      "?A = [] \<and> discovered c c' f ud (concat (map snd bks))
      \<or> (\<exists>k u. let as = take k ?A; h = a_handle (last as) in 0 < k \<and> k \<le> length ?A
          \<and> (if h = hi then discovered c c' f ud (concat (map snd bks) @ as)
             else gc_log c' = gc_log c \<and> discovering m c' a (h + 1) hi f ud (bks @ [(u, as)])))"
    using discovery_round [OF less.prems(1-4) assms(2-4) less.prems(5), of junk] by blast
  have one: ?case if "discovered c c' f ud (concat (map snd bks) @ ?A)"
    using that r(1,2) by (intro exI [of _ 1] conjI exI [of _ c'] exI [of _ s']) simp_all
  show ?case
  proof (cases "?A = []")
    case True
    then have "discovered c c' f ud (concat (map snd bks))"
      using r(4) by (auto simp: Let_def)
    then show ?thesis
      using one True by simp
  next
    case False
    then obtain k u where k: "0 < k" "k \<le> length ?A" and
      step: "if a_handle (last (take k ?A)) = hi then discovered c c' f ud (concat (map snd bks) @ take k ?A)
             else gc_log c' = gc_log c \<and> discovering m c' a (a_handle (last (take k ?A)) + 1) hi f ud (bks @ [(u, take k ?A)])"
      using r(4) by (auto simp: Let_def)
    define h where "h = a_handle (last (take k ?A))"
    note rest = attrs_rest [OF assms(1) k h_def]
    show ?thesis
    proof (cases "h = hi")
      case True
      then have "take k ?A = ?A"
        using rest(2) by (metis append_Nil2 append_take_drop_id)
      then show ?thesis
        using one step True by (simp add: h_def)
    next
      case False
      note rest = rest(1) [OF False]
      have d: "discovering m c' a (h + 1) hi f ud (bks @ [(u, take k ?A)])" "gc_log c' = gc_log c"
        using step False by (simp_all add: h_def)
      have "length (attrs_in d0 (h + 1) hi) < length ?A" "unat (att_mtu (sv_att s')) = m"
        using rest k r(3) less.prems(5) by simp_all
      then obtain n c2 s2 where n: "n \<le> length (attrs_in d0 (h + 1) hi) + 1" "link_rounds env senv junk n (c', s') = Some (c2, s2)" "ready d0 s2"
          "discovered c' c2 f ud (concat (map snd (bks @ [(u, take k ?A)])) @ attrs_in d0 (h + 1) hi)"
        using less.hyps [OF _ d(1) r(2)] rest by blast
      have "discovered c c2 f ud (concat (map snd bks) @ ?A)"
        using n(4) d(2) rest by (simp add: discovered_def)
      then show ?thesis
        using n r(1) rest k by (intro exI [of _ "Suc n"] conjI exI [of _ c2] exI [of _ s2]) simp_all
    qed
  qed
qed

lemma discovery_starts:
  assumes "idle m (gc_att c)" "23 \<le> m"
  shows "\<exists>a c1. bt_gatt_discover_descriptors env c lo hi f ud d = Some (Some a, c1) \<and> discovering m c1 a lo hi f ud [] \<and> gc_log c1 = gc_log c"
proof -
  let ?a = "gc_brk c" and ?op = "(new_request lo hi BT_UUID_UNSPEC 0 f ud d)\<lparr>rq_ref_count := 1\<rparr>"
  let ?c = "set_req ?a ?op (c\<lparr>gc_brk := ?a + 1\<rparr>)"
  have idle: "idle m (gc_att ?c)"
    using assms(1) by simp
  obtain i att' where snd: "i \<noteq> 0" "bt_att_send env (gc_att ?c) BT_ATT_OP_FIND_INFO_REQ (Some (le16 lo @ le16 hi)) (of_nat (length (le16 lo @ le16 hi)))
      (Some DISCOVER_DESCS_CB) ?a (Some ASYNC_REQ_UNREF) = Some (i, att')" "asks m att' BT_ATT_OP_FIND_INFO_REQ (le16 lo @ le16 hi) DISCOVER_DESCS_CB ?a"
    using send_asks [OF idle is_req_opcodes(1), of "le16 lo @ le16 hi" env DISCOVER_DESCS_CB ?a] assms(2) by auto
  define c1 where "c1 = set_req ?a (?op\<lparr>rq_id := i, rq_ref_count := 2\<rparr>) (c\<lparr>gc_brk := ?a + 1, gc_att := att'\<rparr>)"
  have first: "bt_gatt_discover_descriptors env c lo hi f ud d = Some (Some ?a, c1)"
    using snd(1,2) by (simp add: bt_gatt_discover_descriptors_def send_first_def bt_gatt_request_ref_def gc_send_def new_request_def set_req_def c1_def Let_def)
  moreover have "discovering m c1 ?a lo hi f ud []"
    using snd(1,3) by (simp add: discovering_def c1_def new_request_def blocks_ok_def)
  moreover have "gc_log c1 = gc_log c"
    by (simp add: c1_def)
  ultimately show ?thesis
    by blast
qed

text \<open>C27.  The discovery of descriptors is complete.  A client whose transport is idle discovers the descriptors of the handles
  from \<open>lo\<close> to \<open>hi\<close> on a server that is ready.  After at most one round more than the server has attributes in this range the
  application is called once, and nothing else is called.  The call reports success when there is an attribute.  The
  number of results is the number of these attributes, and the iterator returns exactly the handle and the 128-bit UUID of each of
  them, in the order of the handles, and then ends.  The server is ready again.\<close>

theorem discover_descriptors_complete:
  assumes "ready d0 s" "idle (unat (att_mtu (sv_att s))) (gc_att c)" "lo \<noteq> 0" "lo \<le> hi" "0 \<le> env_send env" "0 \<le> env_send (e_att senv)"
    and "as = attrs_in d0 lo hi"
  shows "\<exists>a c1 n c2 s2 e results. bt_gatt_discover_descriptors env c lo hi (Some f) ud d = Some (Some a, c1)
    \<and> n \<le> length as + 1 \<and> link_rounds env senv junk n (c1, s) = Some (c2, s2) \<and> ready d0 s2
    \<and> gc_log c2 = gc_log c @ [RequestDone f (as \<noteq> []) e results ud]
    \<and> bt_gatt_result_descriptor_count results = Some (length as)
    \<and> (\<forall>k\<ge>length as. descs_of k \<lparr>it_result = results, it_pos = 0\<rparr> = Some (map desc_of as))"
proof -
  define m where "m = unat (att_mtu (sv_att s))"
  have m: "23 \<le> m" and ok: "db_ok d0"
    using assms(1) by (auto simp: m_def ready_def sv_ok_def shaped_def)
  obtain a c1 where c1: "bt_gatt_discover_descriptors env c lo hi (Some f) ud d = Some (Some a, c1)" "discovering m c1 a lo hi (Some f) ud []" "gc_log c1 = gc_log c"
    using discovery_starts [OF assms(2) [folded m_def] m] by blast
  obtain n c2 s2 where n: "n \<le> length as + 1" "link_rounds env senv junk n (c1, s) = Some (c2, s2)" "ready d0 s2" "discovered c1 c2 (Some f) ud as"
    using discovery_ends [OF ok assms(5,6) m c1(2) assms(1,3,4) m_def [symmetric], of junk] assms(7) by auto
  obtain bks e where b: "blocks_ok bks" "concat (map snd bks) = as" "gc_log c2 = gc_log c1 @ [RequestDone f (as \<noteq> []) e (map info_result bks) ud]"
    using n(4) by (auto simp: discovered_def)
  have "bt_gatt_result_descriptor_count (map info_result bks) = Some (length as)"
    "\<forall>k\<ge>length as. descs_of k \<lparr>it_result = map info_result bks, it_pos = 0\<rparr> = Some (map desc_of as)"
    using count_blocks [OF b(1)] descs_of_blocks [OF b(1)] b(2) by auto
  then show ?thesis
    using c1(1,3) n(1-3) b(3) by (intro exI [of _ a] exI [of _ c1] exI [of _ n] exI [of _ c2] exI [of _ s2] exI [of _ e] exI [of _ "map info_result bks"]) simp
qed

text \<open>A client without requests, on a transport with an MTU of 23.\<close>

definition new_client :: gatt_client where
  "new_client = \<lparr>gc_att = fresh_att, gc_reqs = (\<lambda>_. None), gc_incls = (\<lambda>_. None), gc_mtus = (\<lambda>_. None), gc_brk = 0, gc_log = []\<rparr>"

lemma new_client_idle: "idle 23 (gc_att new_client)" "gc_log new_client = []"
  by (simp_all add: new_client_def idle_def fresh_att_def bt_att_new_def BT_ATT_DEFAULT_LE_MTU_def)

text \<open>All four attributes of the battery service.\<close>

theorem discover_descriptors_complete_witness:
  "\<exists>s a c1 n c2 s2 e results. started battery_db s \<and> bt_gatt_discover_descriptors quiet_env new_client 1 0xFFFF (Some 6) 0 None = Some (Some a, c1)
    \<and> n \<le> 5 \<and> link_rounds quiet_env quiet_sv (\<lambda>_. 0) n (c1, s) = Some (c2, s2) \<and> gc_log c2 = [RequestDone 6 True e results 0]
    \<and> bt_gatt_result_descriptor_count results = Some 4
    \<and> descs_of 9 \<lparr>it_result = results, it_pos = 0\<rparr> = Some (map (\<lambda>(h, u). (h, u128 (BT_UUID16 u))) [(1, 0x2800), (2, 0x2803), (3, 0x2A19), (4, 0x2902)])"
proof -
  obtain s where s: "started battery_db s"
    using sample_servers by blast
  have p: "ready (sv_db s) s" "sv_db s = battery_db\<lparr>db_ref_count := 2\<rparr>" "unat (att_mtu (sv_att s)) = 23"
    using startedD [OF s] by (simp_all add: ready_def)
  have A: "map desc_of (attrs_in (sv_db s) 1 0xFFFF) = map (\<lambda>(h, u). (h, u128 (BT_UUID16 u))) [(1, 0x2800), (2, 0x2803), (3, 0x2A19), (4, 0x2902)]"
    "length (attrs_in (sv_db s) 1 0xFFFF) = 4"
    unfolding p(2) by (simp_all add: attrs_in_def active_attrs_def battery_db_def service_attrs_def sample_attr_def desc_of_def)
  have env: "0 \<le> env_send quiet_env" "0 \<le> env_send (e_att quiet_sv)"
    by (simp_all add: quiet_env_def quiet_sv_def)
  have ne: "attrs_in (sv_db s) 1 0xFFFF \<noteq> []"
    using A(2) by auto
  show ?thesis
    using discover_descriptors_complete [OF p(1) _ _ _ env refl, of new_client 1 "0xFFFF" 6 0 None "\<lambda>_. 0"] new_client_idle p(3) s A ne by fastforce
qed

end
