(* ===== verification/Gatt_Results.thy ===== *)
theory Gatt_Results
  imports Gatt_Helpers Transition
begin

text \<open>
  Results that reach the application are well formed: the size of the items divides the size of the list and belongs to its
  opcode.  Counting them never divides by zero and the iterators stay inside the PDUs, whatever the server sends.
\<close>

section \<open>Well-formed results\<close>

definition item_size :: "u8 \<Rightarrow> nat \<Rightarrow> bool" where
  "item_size opcode n \<longleftrightarrow>
     (if opcode = BT_ATT_OP_READ_BY_GRP_TYPE_RSP then n = 6 \<or> n = 20
      else if opcode = BT_ATT_OP_FIND_BY_TYPE_RSP then n = 4
      else if opcode = BT_ATT_OP_FIND_INFO_RSP then n = 4 \<or> n = 18
      else if opcode = BT_ATT_OP_READ_RSP then n = 16
      else opcode = BT_ATT_OP_READ_BY_TYPE_RSP \<and> 2 \<le> n)"

definition result_wf :: "bt_gatt_result \<Rightarrow> bool" where
  "result_wf r \<longleftrightarrow> item_size (rs_opcode r) (rs_data_len r) \<and> rs_pdu r \<noteq> [] \<and> rs_data_len r dvd length (rs_pdu r)"

definition results_wf :: "bt_gatt_result list \<Rightarrow> bool" where
  "results_wf rs \<longleftrightarrow> (\<forall>r\<in>set rs. result_wf r)"

fun event_wf :: "gh_event \<Rightarrow> bool" where
  "event_wf (RequestDone f success e rs ud) = results_wf rs"
| "event_wf _ = True"

definition client_wf :: "gatt_client \<Rightarrow> bool" where
  "client_wf c \<longleftrightarrow> (\<forall>a op. gc_reqs c a = Some op \<longrightarrow> results_wf (rq_results op)) \<and> (\<forall>e\<in>set (gc_log c). event_wf e)"

lemma client_wfD: "client_wf c \<Longrightarrow> gc_reqs c a = Some op \<Longrightarrow> results_wf (rq_results op)"
  by (auto simp: client_wf_def)

lemma client_wf_simps [simp]:
  "client_wf (c\<lparr>gc_att := att\<rparr>) = client_wf c" "client_wf (c\<lparr>gc_incls := is\<rparr>) = client_wf c" "client_wf (c\<lparr>gc_mtus := ms\<rparr>) = client_wf c"
  "client_wf (c\<lparr>gc_brk := b\<rparr>) = client_wf c" "client_wf (gc_emit es c) \<longleftrightarrow> client_wf c \<and> (\<forall>e\<in>set es. event_wf e)"
  by (auto simp: client_wf_def gc_emit_def)

lemma set_req_wf [simp]: "client_wf c \<Longrightarrow> results_wf (rq_results op) \<Longrightarrow> client_wf (set_req a op c)"
  by (simp add: client_wf_def set_req_def)

lemma drop_req_wf [simp]: "client_wf c \<Longrightarrow> client_wf (c\<lparr>gc_reqs := (gc_reqs c)(a := None)\<rparr>)"
  by (simp add: client_wf_def)

text \<open>A function of the client that keeps this.\<close>

definition keeps_wf :: "gatt_client option \<Rightarrow> bool" where
  "keeps_wf r \<longleftrightarrow> (\<forall>c. r = Some c \<longrightarrow> client_wf c)"

lemma keeps_wf_simps [simp]: "keeps_wf None" "keeps_wf (Some c) = client_wf c"
  by (simp_all add: keeps_wf_def)

lemma keeps_bind: "(\<And>x. r = Some x \<Longrightarrow> keeps_wf (f x)) \<Longrightarrow> keeps_wf (r \<bind> f)"
  by (cases r) simp_all

lemma keeps_chain: "keeps_wf r \<Longrightarrow> (\<And>c. client_wf c \<Longrightarrow> keeps_wf (f c)) \<Longrightarrow> keeps_wf (r \<bind> f)"
  by (cases r) simp_all

lemma keeps_req: "client_wf c \<Longrightarrow> (\<And>op. results_wf (rq_results op) \<Longrightarrow> keeps_wf (f op)) \<Longrightarrow> keeps_wf (gc_reqs c a \<bind> f)"
  by (cases "gc_reqs c a") (auto dest: client_wfD)

lemma keeps_send: "client_wf c \<Longrightarrow> (\<And>i c. client_wf c \<Longrightarrow> keeps_wf (f (i, c))) \<Longrightarrow> keeps_wf (gc_send env c opcode pdu g ud d \<bind> f)"
  by (rule keeps_bind) (auto simp: gc_send_def)

lemma keeps_if: "(b \<Longrightarrow> keeps_wf x) \<Longrightarrow> (\<not> b \<Longrightarrow> keeps_wf y) \<Longrightarrow> keeps_wf (if b then x else y)"
  by simp

lemma keeps_map: "keeps_wf r \<Longrightarrow> (\<And>c. client_wf c \<Longrightarrow> client_wf (f c)) \<Longrightarrow> keeps_wf (map_option f r)"
  by (cases r) simp_all

section \<open>Every call keeps the results well formed\<close>

lemma results_wf_Nil [simp]: "results_wf []"
  by (simp add: results_wf_def)

lemma done_wf [simp]: "results_wf rs \<Longrightarrow> \<forall>x\<in>set (done_events op success e rs). event_wf x"
  by (auto simp: done_events_def split: option.splits)

lemma done_if_wf [simp]: "results_wf rs \<Longrightarrow> \<forall>x\<in>set (done_events op success e (if b then rs else [])). event_wf x"
  by (auto simp: done_events_def split: option.splits)

lemma ref_wf: "client_wf c \<Longrightarrow> keeps_wf (bt_gatt_request_ref c a)"
  using client_wfD [of c a] by (cases "gc_reqs c a") (simp_all add: bt_gatt_request_ref_def)

lemma unref_wf: "client_wf c \<Longrightarrow> keeps_wf (bt_gatt_request_unref env c a)"
  unfolding bt_gatt_request_unref_def Let_def by (rule keeps_req, assumption) (auto simp: client_wf_def gc_emit_def set_req_def split: option.splits)

lemma incl_unref_wf: "client_wf c \<Longrightarrow> keeps_wf (read_included_unref env c d)"
  unfolding read_included_unref_def Let_def by (intro keeps_bind keeps_if keeps_map unref_wf) simp_all

lemma complete_wf: "client_wf c \<Longrightarrow> keeps_wf (discovery_op_complete env c a success e)"
  unfolding discovery_op_complete_def Let_def by (intro keeps_req keeps_if unref_wf) (simp_all del: if_split split del: if_split)

lemma send_next_wf: "client_wf c \<Longrightarrow> keeps_wf (send_next env c a opcode pdu f)"
  unfolding send_next_def Let_def split_beta by (intro keeps_chain [OF ref_wf] keeps_send keeps_req keeps_if complete_wf) auto

lemma send_first_wf: "client_wf c \<Longrightarrow> results_wf (rq_results op) \<Longrightarrow> keeps_wf (map_option snd (send_first env c op opcode pdu f))"
  unfolding send_first_def Let_def split_beta map_option_bind comp_def if_distrib [of "map_option snd"] option.map(2) option.map_comp snd_conv
  by (intro keeps_chain [OF ref_wf] keeps_send keeps_req keeps_if keeps_map ref_wf) auto

lemma destroyed_wf: "client_wf c \<Longrightarrow> keeps_wf (gc_destroyed env c f ud)"
  unfolding gc_destroyed_def destroy_mtu_op_def by (intro keeps_if keeps_bind unref_wf incl_unref_wf) (auto split: option.splits)

lemma destroyed_events_wf: "client_wf c \<Longrightarrow> keeps_wf (destroyed_events env c es)"
proof (induction env c es rule: destroyed_events.induct)
  case (2 env c f ud es)
  then show ?case
    using destroyed_wf [of c env f ud] by (cases "gc_destroyed env c f ud") simp_all
qed simp_all

lemma cancel_wf: "client_wf c \<Longrightarrow> keeps_wf (bt_gatt_request_cancel env c a)"
  unfolding bt_gatt_request_cancel_def Let_def by (intro keeps_req keeps_if keeps_chain [OF destroyed_events_wf]) simp_all

section \<open>Responses\<close>

lemma append_wf [simp]:
  "results_wf (rq_results op) \<Longrightarrow> result_wf (result_create opcode pdu n) \<Longrightarrow> results_wf (rq_results (result_append opcode pdu n op))"
  by (simp add: result_append_def results_wf_def)

lemma sizes [simp]:
  "item_size BT_ATT_OP_READ_BY_GRP_TYPE_RSP n \<longleftrightarrow> n = 6 \<or> n = 20" "item_size BT_ATT_OP_FIND_BY_TYPE_RSP n \<longleftrightarrow> n = 4"
  "item_size BT_ATT_OP_FIND_INFO_RSP n \<longleftrightarrow> n = 4 \<or> n = 18" "item_size BT_ATT_OP_READ_RSP n \<longleftrightarrow> n = 16"
  "item_size BT_ATT_OP_READ_BY_TYPE_RSP n \<longleftrightarrow> 2 \<le> n"
  by (simp_all add: item_size_def att_opcodes)

lemma write_length: "mem_write b i xs = Some q \<Longrightarrow> length q = length b"
  by (auto simp: mem_write_def split: if_splits)

lemma append_results [simp]: "rq_results (result_append opcode pdu n op) \<noteq> []"
  by (simp add: result_append_def)

lemma patch_wf:
  assumes "results_wf rs" "mem_write (rs_pdu (last rs)) i xs = Some q" "rs \<noteq> []"
  shows "results_wf (butlast rs @ [(last rs)\<lparr>rs_pdu := q\<rparr>])"
  using assms write_length [OF assms(2)] last_in_set [OF assms(3)] by (auto simp: results_wf_def result_wf_def dest: in_set_butlastD)

lemmas response_wf = rsp_has_def result_wf_def result_create_def

lemmas keeps_rules = keeps_if complete_wf send_next_wf unref_wf incl_unref_wf keeps_req keeps_send keeps_chain [OF ref_wf] keeps_chain [OF incl_unref_wf]

lemma mtu_wf: "client_wf c \<Longrightarrow> keeps_wf (mtu_cb c m opcode pdu)"
  unfolding mtu_cb_def Let_def by (intro keeps_bind keeps_if) (auto intro!: keeps_bind split: option.splits)

lemma grp_wf: "client_wf c \<Longrightarrow> keeps_wf (gh_read_by_grp_type_cb env c a opcode pdu)"
  unfolding gh_read_by_grp_type_cb_def Let_def
  by (intro keeps_rules keeps_bind) (auto intro!: set_req_wf append_wf patch_wf simp: response_wf)

lemma by_value_wf: "client_wf c \<Longrightarrow> keeps_wf (gh_find_by_type_val_cb env junk c a opcode pdu)"
  unfolding gh_find_by_type_val_cb_def Let_def
  by (intro keeps_rules keeps_bind) (auto intro!: set_req_wf append_wf simp: response_wf)

lemma chrcs_wf: "client_wf c \<Longrightarrow> keeps_wf (discover_chrcs_cb env c a opcode pdu)"
  unfolding discover_chrcs_cb_def Let_def
  by (intro keeps_rules keeps_bind) (auto intro!: set_req_wf append_wf simp: response_wf)

lemma descs_wf: "client_wf c \<Longrightarrow> keeps_wf (discover_descs_cb env c a opcode pdu)"
  unfolding discover_descs_cb_def Let_def
  by (intro keeps_rules keeps_bind) (auto intro!: set_req_wf append_wf simp: response_wf)

lemma by_type_wf: "client_wf c \<Longrightarrow> keeps_wf (gh_read_by_type_cb env junk c a opcode pdu)"
  unfolding gh_read_by_type_cb_def Let_def
  by (intro keeps_rules keeps_bind) (auto intro!: set_req_wf append_wf simp: response_wf pdu_le16_def mem_read_def split: if_splits)

lemma read_incl_wf: "client_wf c \<Longrightarrow> keeps_wf (read_included env c d)"
  unfolding read_included_def Let_def split_beta
  by (intro keeps_rules keeps_bind) (auto simp: done_events_def split: option.splits)

lemma included_wf: "client_wf c \<Longrightarrow> keeps_wf (discover_included_cb env c a opcode pdu)"
  unfolding discover_included_cb_def Let_def
  by (intro keeps_rules read_incl_wf keeps_bind) (auto intro!: set_req_wf append_wf simp: response_wf)

lemma read_included_wf: "client_wf c \<Longrightarrow> keeps_wf (read_included_cb env c d opcode pdu)"
  unfolding read_included_cb_def Let_def split_beta
  by (intro keeps_rules keeps_bind) (auto intro!: set_req_wf append_wf simp: response_wf)

lemma response_wf_all: "client_wf c \<Longrightarrow> keeps_wf (gc_response env junk c f ud opcode pdu)"
  by (simp add: gc_response_def mtu_wf grp_wf by_value_wf read_included_wf included_wf chrcs_wf by_type_wf descs_wf)

lemma events_wf: "client_wf c \<Longrightarrow> keeps_wf (gc_events env junk c es)"
proof (induction env junk c es rule: gc_events.induct)
  case (2 env junk c f ud opcode pdu es)
  then show ?case
    using response_wf_all [of c env junk f ud opcode pdu] by (cases "gc_response env junk c f ud opcode pdu") simp_all
next
  case (3 env junk c f ud es)
  then show ?case
    using destroyed_wf [of c env f ud] by (cases "gc_destroyed env c f ud") simp_all
qed simp_all

section \<open>The calls of an application\<close>

datatype gc_call =
    DiscoverServices "bt_uuid_t option" u16 u16 "nat option" nat "nat option" bool
  | DiscoverIncluded u16 u16 "nat option" nat "nat option"
  | DiscoverCharacteristics u16 u16 "nat option" nat "nat option"
  | DiscoverDescriptors u16 u16 "nat option" nat "nat option"
  | ReadByType u16 u16 "bt_uuid_t option" "nat option" nat "nat option"
  | ExchangeMtu u16 "nat option" nat "nat option"
  | RequestRef nat
  | RequestUnref nat
  | RequestCancel nat
  | ClientWrite
  | ClientReceive "bytes option"

text \<open>A call, or an event of the connection, with what the environment does and the bytes that the stack holds.\<close>

fun gc_step :: "att_env \<times> (nat \<Rightarrow> u8) \<times> gc_call \<Rightarrow> gatt_client \<Rightarrow> gatt_client option" where
  "gc_step (env, junk, DiscoverServices uuid start endh f ud d primary) c = map_option snd (discover_services env junk c uuid start endh f ud d primary)"
| "gc_step (env, junk, DiscoverIncluded start endh f ud d) c = map_option snd (bt_gatt_discover_included_services env c start endh f ud d)"
| "gc_step (env, junk, DiscoverCharacteristics start endh f ud d) c = map_option snd (bt_gatt_discover_characteristics env c start endh f ud d)"
| "gc_step (env, junk, DiscoverDescriptors start endh f ud d) c = map_option snd (bt_gatt_discover_descriptors env c start endh f ud d)"
| "gc_step (env, junk, ReadByType start endh uuid f ud d) c = map_option snd (bt_gatt_read_by_type env junk c start endh uuid f ud d)"
| "gc_step (env, junk, ExchangeMtu mtu f ud d) c = map_option snd (bt_gatt_exchange_mtu env c mtu f ud d)"
| "gc_step (env, junk, RequestRef a) c = bt_gatt_request_ref c a"
| "gc_step (env, junk, RequestUnref a) c = bt_gatt_request_unref env c a"
| "gc_step (env, junk, RequestCancel a) c = bt_gatt_request_cancel env c a"
| "gc_step (env, junk, ClientWrite) c = map_option snd (client_write env junk c)"
| "gc_step (env, junk, ClientReceive bytes_read) c = map_option snd (client_receive env junk c bytes_read)"

text \<open>A client on any transport, without requests.\<close>

definition gc_initial :: "gatt_client \<Rightarrow> bool" where
  "gc_initial c \<longleftrightarrow> (\<forall>a. gc_reqs c a = None) \<and> gc_log c = []"

lemma new_wf [simp]: "results_wf (rq_results (new_request start endh u ty f ud d))"
  by (simp add: new_request_def)

lemmas map_snd = map_option_bind comp_def if_distrib [of "map_option snd"] option.map(2) option.map_comp snd_conv map_option_case

lemma services_wf: "client_wf c \<Longrightarrow> keeps_wf (map_option snd (discover_services env junk c uuid start endh f ud d primary))"
proof (cases uuid)
  case (Some u)
  assume c: "client_wf c"
  show ?thesis
    unfolding discover_services_def Let_def Some option.case map_option_bind comp_def if_distrib [of "map_option snd"] using c
    by (intro keeps_if keeps_bind send_first_wf) simp_all
qed (simp add: discover_services_def Let_def send_first_wf)

lemma read_by_type_wf: "client_wf c \<Longrightarrow> keeps_wf (map_option snd (bt_gatt_read_by_type env junk c start endh uuid f ud d))"
proof (cases uuid)
  case (Some u)
  assume c: "client_wf c"
  show ?thesis
    unfolding bt_gatt_read_by_type_def Let_def Some option.case map_option_bind comp_def if_distrib [of "map_option snd"] option.map(2) split_beta using c
    by (intro keeps_if keeps_send keeps_bind) auto
qed (simp add: bt_gatt_read_by_type_def)

lemma exchange_wf: "client_wf c \<Longrightarrow> keeps_wf (map_option snd (bt_gatt_exchange_mtu env c mtu f ud d))"
  unfolding bt_gatt_exchange_mtu_def Let_def map_option_bind comp_def if_distrib [of "map_option snd"] option.map(2) split_beta
  by (intro keeps_if keeps_send) simp_all

lemma step_wf: "client_wf c \<Longrightarrow> keeps_wf (gc_step x c)"
proof (cases x)
  case (fields env junk call)
  assume c: "client_wf c"
  have w: "keeps_wf (map_option snd (client_write env junk c))"
    unfolding client_write_def Let_def split_beta map_option_bind comp_def option.map(2) snd_conv by (intro keeps_chain [OF events_wf]) (use c in simp_all)
  have r: "keeps_wf (map_option snd (client_receive env junk c b))" for b
    unfolding client_receive_def split_beta map_option_bind comp_def option.map(2) snd_conv by (intro keeps_bind keeps_chain [OF events_wf]) (use c in simp_all)
  show ?thesis
    unfolding fields using c w r
    by (cases call) (simp_all add: services_wf send_first_wf read_by_type_wf exchange_wf ref_wf unref_wf cancel_wf
        bt_gatt_discover_included_services_def bt_gatt_discover_characteristics_def bt_gatt_discover_descriptors_def)
qed

interpretation client_system: invariant_system gc_initial gc_step client_wf
proof unfold_locales
  show "client_wf c" if "gc_initial c" for c
    using that by (simp add: gc_initial_def client_wf_def)
  show "client_wf c'" if "client_wf c" "gc_step x c = Some c'" for c x c'
    using step_wf [OF that(1), of x] that(2) by simp
qed

section \<open>Reading the results\<close>

definition iter_wf :: "bt_gatt_iter \<Rightarrow> bool" where
  "iter_wf it \<longleftrightarrow> results_wf (it_result it) \<and>
     (case it_result it of [] \<Rightarrow> True | r # _ \<Rightarrow> it_pos it < length (rs_pdu r) \<and> rs_data_len r dvd it_pos it)"

lemma wf_bounds:
  assumes "iter_wf it" "it_result it = r # rest"
  shows "it_pos it + rs_data_len r \<le> length (rs_pdu r)" "0 < rs_data_len r" "item_size (rs_opcode r) (rs_data_len r)" "results_wf rest"
proof -
  have r: "result_wf r" "results_wf rest" "it_pos it < length (rs_pdu r)" "rs_data_len r dvd it_pos it"
    using assms by (simp_all add: iter_wf_def results_wf_def)
  then show n: "0 < rs_data_len r" "item_size (rs_opcode r) (rs_data_len r)" "results_wf rest"
    by (auto simp: result_wf_def item_size_def split: if_splits)
  obtain i k where "it_pos it = rs_data_len r * i" "length (rs_pdu r) = rs_data_len r * k"
    using r by (auto simp: result_wf_def elim!: dvdE)
  moreover from this have "i < k"
    using r(3) by simp
  then have "rs_data_len r * (i + 1) \<le> rs_data_len r * k"
    by (intro mult_le_mono2) simp
  ultimately show "it_pos it + rs_data_len r \<le> length (rs_pdu r)"
    by (simp add: algebra_simps)
qed

lemma advance_wf:
  assumes "iter_wf it" "it_result it = r # rest" "results_wf rest'"
  shows "iter_wf (iter_advance it r rest')"
proof -
  have "rs_pdu x \<noteq> []" if "rest' = x # xs" for x xs
    using assms(3) that by (simp add: results_wf_def result_wf_def)
  then show ?thesis
    using assms wf_bounds(1) [OF assms(1,2)] by (auto simp: iter_wf_def iter_advance_def Let_def split: list.splits)
qed

lemma read16: "i + 2 \<le> length b \<Longrightarrow> \<exists>h. pdu_le16 b i = Some h"
  by (simp add: pdu_le16_def mem_read_def)

lemma convert_total: "i + n \<le> length b \<Longrightarrow> \<exists>u. convert_uuid_le b i n dst = Some u"
  by (auto simp: convert_uuid_le_def mem_read_def bswap_128_def)

text \<open>The iterators that an application gets from a list of results.\<close>

inductive iterates :: "bt_gatt_result list \<Rightarrow> bt_gatt_iter \<Rightarrow> bool" for rs where
  iterates_init: "bt_gatt_iter_init rs = Some it \<Longrightarrow> iterates rs it"
| iterates_service: "iterates rs it \<Longrightarrow> bt_gatt_iter_next_service op it dst = Some (Some (x, it')) \<Longrightarrow> iterates rs it'"
| iterates_included: "iterates rs it \<Longrightarrow> bt_gatt_iter_next_included_service op it dst = Some (Some (x, it')) \<Longrightarrow> iterates rs it'"
| iterates_characteristic: "iterates rs it \<Longrightarrow> bt_gatt_iter_next_characteristic op it dst = Some (Some (x, it')) \<Longrightarrow> iterates rs it'"
| iterates_descriptor: "iterates rs it \<Longrightarrow> bt_gatt_iter_next_descriptor it dst = Some (Some (x, it')) \<Longrightarrow> iterates rs it'"
| iterates_read_by_type: "iterates rs it \<Longrightarrow> bt_gatt_iter_next_read_by_type op it = Some (Some (x, it')) \<Longrightarrow> iterates rs it'"

lemma next_wf:
  assumes "iter_wf it"
  shows "bt_gatt_iter_next_service op it dst = Some (Some (x, it')) \<Longrightarrow> iter_wf it'"
    "bt_gatt_iter_next_included_service op it dst = Some (Some (y, it')) \<Longrightarrow> iter_wf it'"
    "bt_gatt_iter_next_characteristic op it dst = Some (Some (z, it')) \<Longrightarrow> iter_wf it'"
    "bt_gatt_iter_next_descriptor it dst = Some (Some (u, it')) \<Longrightarrow> iter_wf it'"
    "bt_gatt_iter_next_read_by_type op it = Some (Some (v, it')) \<Longrightarrow> iter_wf it'"
proof -
  have adv: "iter_wf (iter_advance it r rest)" if "it_result it = r # rest" for r rest
    using advance_wf [OF assms that] wf_bounds(4) [OF assms that] by simp
  have skip: "iter_wf (iter_advance it r rest')" if "it_result it = r # rest" "drop n rest = r' # rest'" for r rest n r' rest'
    using advance_wf [OF assms that(1), of rest'] wf_bounds(4) [OF assms that(1)] set_drop_subset [of n rest] that(2) by (auto simp: results_wf_def)
  show "bt_gatt_iter_next_service op it dst = Some (Some (x, it')) \<Longrightarrow> iter_wf it'"
    using adv by (auto simp: bt_gatt_iter_next_service_def bind_eq_Some_conv split: list.splits if_splits)
  show "bt_gatt_iter_next_included_service op it dst = Some (Some (y, it')) \<Longrightarrow> iter_wf it'"
  proof (cases "it_result it")
    case (Cons r rest)
    then show ?thesis if "bt_gatt_iter_next_included_service op it dst = Some (Some (y, it'))"
      using adv [OF Cons] skip [OF Cons, of "it_pos it div rs_data_len r"] that
      by (cases "drop (it_pos it div rs_data_len r) rest") (auto simp: bt_gatt_iter_next_included_service_def bind_eq_Some_conv split: if_splits)
  qed (simp add: bt_gatt_iter_next_included_service_def)
  show "bt_gatt_iter_next_characteristic op it dst = Some (Some (z, it')) \<Longrightarrow> iter_wf it'"
    using adv by (auto simp: bt_gatt_iter_next_characteristic_def bind_eq_Some_conv Let_def split: list.splits if_splits)
  show "bt_gatt_iter_next_descriptor it dst = Some (Some (u, it')) \<Longrightarrow> iter_wf it'"
    using adv by (auto simp: bt_gatt_iter_next_descriptor_def bind_eq_Some_conv split: list.splits if_splits)
  show "bt_gatt_iter_next_read_by_type op it = Some (Some (v, it')) \<Longrightarrow> iter_wf it'"
    using adv by (auto simp: bt_gatt_iter_next_read_by_type_def bind_eq_Some_conv split: list.splits if_splits)
qed

lemma iterates_wf: "iterates rs it \<Longrightarrow> results_wf rs \<Longrightarrow> iter_wf it"
proof (induction rule: iterates.induct)
  case (iterates_init it)
  then show ?case
    by (cases rs) (auto simp: bt_gatt_iter_init_def iter_wf_def results_wf_def result_wf_def)
qed (blast intro: next_wf)+

lemma uuid128_some: "u \<noteq> BT_UUID_UNSPEC \<Longrightarrow> \<exists>b. bt_uuid_to_uuid128 u BT_UUID_UNSPEC = Some (BT_UUID128 b)"
  using to_uuid128_u128 [of u BT_UUID_UNSPEC]
  by (cases u) (simp_all add: bt_uuid_to_uuid128_def)

lemma next_total:
  assumes "iter_wf it"
  shows "rq_uuid op \<noteq> BT_UUID_UNSPEC \<or> (\<forall>r\<in>set (it_result it). rs_opcode r \<noteq> BT_ATT_OP_FIND_BY_TYPE_RSP) \<Longrightarrow> bt_gatt_iter_next_service op it dst \<noteq> None"
    "bt_gatt_iter_next_included_service op it dst \<noteq> None" "bt_gatt_iter_next_characteristic op it dst \<noteq> None"
    "bt_gatt_iter_next_descriptor it dst \<noteq> None" "bt_gatt_iter_next_read_by_type op it \<noteq> None"
proof -
  have head: "\<exists>x. pdu_le16 (rs_pdu r) (it_pos it + j) = Some x" if "it_result it = r # rest" "j + 2 \<le> rs_data_len r" for r rest j
    using read16 [of "it_pos it + j" "rs_pdu r"] wf_bounds(1) [OF assms that(1)] that(2) by simp
  have uuid: "\<exists>u. convert_uuid_le (rs_pdu r) (it_pos it + j) n dst = Some u" if "it_result it = r # rest" "j + n \<le> rs_data_len r" for r rest j n
    using convert_total [of "it_pos it + j" n "rs_pdu r" dst] wf_bounds(1) [OF assms that(1)] that(2) by simp
  have size: "item_size (rs_opcode r) (rs_data_len r)" if "it_result it = r # rest" for r rest
    using wf_bounds(3) [OF assms that] .
  have start: "\<exists>h. pdu_le16 (rs_pdu r') (it_pos it') = Some h" if "iter_wf it'" "it_result it' = r' # rest'" for it' r' rest'
    using read16 [of "it_pos it'" "rs_pdu r'"] wf_bounds(1,3) [OF that] by (auto simp: item_size_def split: if_splits)
  show "bt_gatt_iter_next_descriptor it dst \<noteq> None"
  proof (cases "it_result it")
    case (Cons r rest)
    then show ?thesis
      using size [OF Cons] head [OF Cons, of 0] uuid [OF Cons, of 2 "rs_data_len r - 2"] by (auto simp: bt_gatt_iter_next_descriptor_def)
  qed (simp add: bt_gatt_iter_next_descriptor_def)
  show "bt_gatt_iter_next_read_by_type op it \<noteq> None"
  proof (cases "it_result it")
    case (Cons r rest)
    then show ?thesis
      using size [OF Cons] head [OF Cons, of 0] by (auto simp: bt_gatt_iter_next_read_by_type_def)
  qed (simp add: bt_gatt_iter_next_read_by_type_def)
  show "bt_gatt_iter_next_included_service op it dst \<noteq> None"
  proof (cases "it_result it")
    case (Cons r rest)
    have "\<exists>u. convert_uuid_le (rs_pdu r') 0 (rs_data_len r') dst = Some u" if "drop n rest = r' # rest'" for n r' rest'
    proof -
      have "r' \<in> set rest"
        using set_drop_subset [of n rest] that by auto
      then have "result_wf r'"
        using wf_bounds(4) [OF assms Cons] by (simp add: results_wf_def)
      then have "rs_data_len r' \<le> length (rs_pdu r')"
        by (auto simp: result_wf_def intro: dvd_imp_le)
      then show ?thesis
        using convert_total [of 0 "rs_data_len r'" "rs_pdu r'" dst] by simp
    qed
    then show ?thesis
      using head [OF Cons, of 0] head [OF Cons, of 2] head [OF Cons, of 4] uuid [OF Cons, of 6 2] Cons
      by (fastforce simp: bt_gatt_iter_next_included_service_def split: list.splits)
  qed (simp add: bt_gatt_iter_next_included_service_def)
  show "bt_gatt_iter_next_characteristic op it dst \<noteq> None"
  proof (cases "it_result it")
    case (Cons r rest)
    have pr: "\<exists>x. load8 (rs_pdu r) (it_pos it + 2) = Some x" if "7 \<le> rs_data_len r"
      using wf_bounds(1) [OF assms Cons] that by (simp add: load8_def)
    have "\<exists>h. (case it_result (iter_advance it r rest) of [] \<Rightarrow> Some (rq_end_handle op)
        | r' # _ \<Rightarrow> map_option (\<lambda>h. h - 1) (pdu_le16 (rs_pdu r') (it_pos (iter_advance it r rest)))) = Some h"
      using start [OF advance_wf [OF assms Cons wf_bounds(4) [OF assms Cons]]] by (auto split: list.splits)
    then show ?thesis
      using head [OF Cons, of 0] head [OF Cons, of 3] pr uuid [OF Cons, of 5 "rs_data_len r - 5"] Cons
      by (auto simp: bt_gatt_iter_next_characteristic_def Let_def)
  qed (simp add: bt_gatt_iter_next_characteristic_def)
  show "bt_gatt_iter_next_service op it dst \<noteq> None"
    if u: "rq_uuid op \<noteq> BT_UUID_UNSPEC \<or> (\<forall>r\<in>set (it_result it). rs_opcode r \<noteq> BT_ATT_OP_FIND_BY_TYPE_RSP)"
  proof (cases "it_result it")
    case (Cons r rest)
    have "\<exists>b. bt_uuid_to_uuid128 (rq_uuid op) BT_UUID_UNSPEC = Some (BT_UUID128 b)" if "rs_opcode r = BT_ATT_OP_FIND_BY_TYPE_RSP"
      using uuid128_some u Cons that by auto
    then show ?thesis
      using size [OF Cons] head [OF Cons, of 0] head [OF Cons, of 2] uuid [OF Cons, of 4 "rs_data_len r - 4"] Cons
      by (auto simp: bt_gatt_iter_next_service_def item_size_def split: if_splits)
  qed (simp add: bt_gatt_iter_next_service_def)
qed

lemma count_wf: "results_wf rs \<Longrightarrow> \<exists>n. result_element_count rs = Some n"
proof (induction rs)
  case (Cons r rs)
  then have "rs_data_len r \<noteq> 0"
    by (auto simp: results_wf_def result_wf_def item_size_def split: if_splits)
  then show ?case
    using Cons by (auto simp: results_wf_def)
qed simp

end
