(* ===== verification/Gatt_Client_Props.thy ===== *)
theory Gatt_Client_Props
  imports Gatt_Link Gatt_Results
begin

text \<open>What the procedures of the client do when the server or the application does something unusual.\<close>

section \<open>Reported results\<close>

text \<open>C18.  The results that a client reports can be read.  After any calls of the application and any PDUs from the server, the
  results that a callback was given are counted without a division by zero, and an iterator over them that has been advanced in any way
  is advanced again without an access outside the PDUs; for services a request by UUID has one.\<close>

theorem reported_results_readable:
  assumes "reach gc_initial gc_step c" "RequestDone f success ecode rs ud \<in> set (gc_log c)"
  shows "bt_gatt_result_service_count rs \<noteq> None \<and> bt_gatt_result_characteristic_count rs \<noteq> None
    \<and> bt_gatt_result_descriptor_count rs \<noteq> None \<and> bt_gatt_result_included_count rs \<noteq> None
    \<and> (\<forall>it op dst. iterates rs it \<longrightarrow> bt_gatt_iter_next_included_service op it dst \<noteq> None \<and> bt_gatt_iter_next_characteristic op it dst \<noteq> None
      \<and> bt_gatt_iter_next_descriptor it dst \<noteq> None \<and> bt_gatt_iter_next_read_by_type op it \<noteq> None
      \<and> (rq_uuid op \<noteq> BT_UUID_UNSPEC \<or> (\<forall>r\<in>set (it_result it). rs_opcode r \<noteq> BT_ATT_OP_FIND_BY_TYPE_RSP) \<longrightarrow> bt_gatt_iter_next_service op it dst \<noteq> None))"
proof -
  have "client_wf c"
    using client_system.reach_inv [OF assms(1)] .
  then have wf: "results_wf rs"
    using assms(2) by (fastforce simp: client_wf_def)
  then have "results_wf (filter P rs)" for P
    by (simp add: results_wf_def)
  then have "bt_gatt_result_service_count rs \<noteq> None" "bt_gatt_result_characteristic_count rs \<noteq> None"
    "bt_gatt_result_descriptor_count rs \<noteq> None" "bt_gatt_result_included_count rs \<noteq> None"
    using count_wf [OF wf] count_wf
    unfolding bt_gatt_result_service_count_def bt_gatt_result_characteristic_count_def bt_gatt_result_descriptor_count_def bt_gatt_result_included_count_def
    by (force split: list.splits)+
  moreover have "iter_wf it" if "iterates rs it" for it
    using iterates_wf [OF that] wf by blast
  ultimately show ?thesis
    using next_total by blast
qed

section \<open>A discovery without end\<close>

text \<open>The client's PDU goes out and the same answer comes back, a number of times.\<close>

fun peer_rounds :: "att_env \<Rightarrow> (nat \<Rightarrow> u8) \<Rightarrow> bytes \<Rightarrow> nat \<Rightarrow> gatt_client \<Rightarrow> gatt_client option" where
  "peer_rounds env junk p 0 c = Some c"
| "peer_rounds env junk p (Suc n) c = do { (_, c) \<leftarrow> client_write env junk c; (_, c) \<leftarrow> client_receive env junk c (Some p); peer_rounds env junk p n c }"

text \<open>The answer with the last handle.\<close>

definition last_answer :: "u16 \<Rightarrow> bytes" where
  "last_answer u = [BT_ATT_OP_FIND_INFO_RSP, 1, 0xFF, 0xFF] @ le16 u"

lemma write_discovery:
  assumes "asks m (gc_att c) opcode pdu f a" "0 \<le> env_send env"
  shows "\<exists>att'. client_write env junk c = Some (True, c\<lparr>gc_att := att'\<rparr>) \<and> waits m att' opcode f a"
  using write_request [OF assms] by (auto simp: client_write_def)

lemma endless_round:
  assumes "discovering m c a lo hi f ud bks" "hi \<noteq> 0xFFFF" "23 \<le> m" "0 \<le> env_send env"
  shows "\<exists>c1 c2 bks'. client_write env junk c = Some (True, c1) \<and> client_receive env junk c1 (Some (last_answer u)) = Some (True, c2)
    \<and> gc_log c2 = gc_log c \<and> discovering m c2 a 0 hi f ud bks'"
proof -
  let ?as = "[sample_attr 0xFFFF u 0 None]"
  obtain op where op: "gc_reqs c a = Some op" "1 < rq_ref_count op" "rq_id op \<noteq> 0" "rq_start_handle op = lo" "rq_end_handle op = hi"
      "rq_callback op = f" "rq_user_data op = ud" "rq_results op = map info_result bks" and bks: "blocks_ok bks"
    using assms(1) by (auto simp: discovering_def)
  have asks: "asks m (gc_att c) BT_ATT_OP_FIND_INFO_REQ (le16 lo @ le16 hi) DISCOVER_DESCS_CB a"
    using assms(1) by (simp add: discovering_def)
  obtain catt where catt: "client_write env junk c = Some (True, c\<lparr>gc_att := catt\<rparr>)" "waits m catt BT_ATT_OP_FIND_INFO_REQ DISCOVER_DESCS_CB a"
    using write_discovery [OF asks assms(4)] by blast
  have w: "waits m (gc_att (c\<lparr>gc_att := catt\<rparr>)) BT_ATT_OP_FIND_INFO_REQ DISCOVER_DESCS_CB a" "gc_reqs (c\<lparr>gc_att := catt\<rparr>) a = Some op"
    using catt(2) op(1) by simp_all
  have ffff: "(0xFFFF :: u16) = - 1"
    by simp
  have "(65536 :: u16) = 0xFFFF + 1"
    by simp
  then have wrap: "(65536 :: u16) = 0"
    unfolding ffff by simp
  have le: "rq_start_handle op \<le> 0xFFFF"
    unfolding ffff by (rule word_order.extremum)
  have sz: "sized 2 ?as" "?as \<noteq> []" "rq_start_handle op \<le> a_handle (last ?as)"
    using le by (simp_all add: sized_def sample_attr_def le_bytes_def)
  have p: "BT_ATT_OP_FIND_INFO_RSP # (if (2::nat) = 2 then 1 else 2) # concat (map info_bytes ?as) = last_answer u"
    by (simp add: last_answer_def info_bytes_def sample_attr_def le_bytes_def le16_def)
  have last: "a_handle (last ?as) = 0xFFFF"
    by (simp add: sample_attr_def)
  have blk: "blocks_ok (bks @ [(2, ?as)])"
    using bks sz(1) by (simp add: blocks_ok_def)
  show ?thesis
    using descs_round [OF w op(2,3) sz assms(3), of env junk, unfolded p last] catt(1) op assms(2) blk
    by (auto simp: discovering_def wrap intro!: exI [of _ "bks @ [(2, ?as)]"])
qed

lemma endless_rounds:
  assumes "23 \<le> m" "hi \<noteq> 0xFFFF" "0 \<le> env_send env"
  shows "discovering m c a lo hi f ud bks \<Longrightarrow> \<exists>c' bks'. peer_rounds env junk (last_answer u) n c = Some c' \<and> gc_log c' = gc_log c
    \<and> discovering m c' a (if n = 0 then lo else 0) hi f ud bks'"
proof (induction n arbitrary: c lo bks)
  case (Suc n)
  obtain c1 c2 bks' where r: "client_write env junk c = Some (True, c1)" "client_receive env junk c1 (Some (last_answer u)) = Some (True, c2)"
      "gc_log c2 = gc_log c" "discovering m c2 a 0 hi f ud bks'"
    using endless_round [OF Suc.prems assms(2,1,3)] by blast
  then show ?case
    using Suc.IH [OF r(4)] by simp
qed auto

text \<open>C25.  The discovery of descriptors can go on for ever.  The client computes the first handle of the next request as the
  last handle of the answer plus one in 16 bits, and compares only for equality with the end of the range.  A server that answers with
  the handle 0xFFFF, which is not below any start, brings the start to 0, and so does each further answer of this kind: after any
  number of rounds the application has not been called and the client asks again, for the handles from 0.\<close>

theorem endless_discovery:
  assumes "idle m (gc_att c)" "23 \<le> m" "hi \<noteq> 0xFFFF" "0 \<le> env_send env"
  shows "\<exists>a c1. bt_gatt_discover_descriptors env c lo hi (Some f) ud d = Some (Some a, c1) \<and>
    (\<forall>n. \<exists>c2. peer_rounds env junk (last_answer u) n c1 = Some c2 \<and> gc_log c2 = gc_log c
      \<and> (\<exists>m. asks m (gc_att c2) BT_ATT_OP_FIND_INFO_REQ (le16 (if n = 0 then lo else 0) @ le16 hi) DISCOVER_DESCS_CB a))"
proof -
  obtain a c1 where c1: "bt_gatt_discover_descriptors env c lo hi (Some f) ud d = Some (Some a, c1)" "discovering m c1 a lo hi (Some f) ud []" "gc_log c1 = gc_log c"
    using discovery_starts [OF assms(1,2), of env lo hi "Some f" ud d] by blast
  then show ?thesis
    using endless_rounds [OF assms(2-4) c1(2), of junk u] unfolding discovering_def by (intro exI [of _ a] exI [of _ c1]) metis
qed

section \<open>Cancelling the discovery of included services\<close>



section \<open>Responses of any form\<close>

lemma send_total:
  assumes "is_req opcode" "length pdu < 0xFFFF"
  shows "\<exists>i att'. gc_send env c opcode pdu f ud d = Some (i, c\<lparr>gc_att := att'\<rparr>)"
proof -
  have e: "\<exists>r. encode_pdu env (gc_att c) opcode (Some pdu) (of_nat (length pdu)) = Some r"
    using encode_pdu_plain [of "gc_att c" opcode pdu env] assms by (simp add: is_req_def)
  then have "\<exists>r. create_att_send_op env (gc_att c) opcode (Some pdu) (of_nat (length pdu)) (Some f) ud (Some d) = Some r"
    by (auto simp: create_att_send_op_def Let_def)
  then have "\<exists>r. bt_att_send env (gc_att c) opcode (Some pdu) (of_nat (length pdu)) (Some f) ud (Some d) = Some r"
    by (auto simp: bt_att_send_def Let_def split: option.splits)
  then show ?thesis
    by (auto simp: gc_send_def)
qed

lemma complete_total:
  assumes "gc_reqs c a = Some op" "rq_id op \<noteq> 0 \<or> rq_ref_count op \<noteq> 1"
  shows "discovery_op_complete env c a success e \<noteq> None"
proof -
  have "gc_reqs (gc_emit es c) a = Some op" for es
    using assms(1) by simp
  then show ?thesis
    using assms unref_live [of "gc_emit _ c" a op env] by (auto simp: discovery_op_complete_def Let_def)
qed

lemma send_next_total:
  assumes "is_req opcode" "length pdu < 0xFFFF" "gc_reqs c a = Some op" "0 < rq_ref_count op"
  shows "send_next env c a opcode pdu f \<noteq> None"
proof -
  let ?op = "op\<lparr>rq_ref_count := rq_ref_count op + 1\<rparr>"
  obtain i att' where s: "gc_send env (set_req a ?op c) opcode pdu f a ASYNC_REQ_UNREF = Some (i, (set_req a ?op c)\<lparr>gc_att := att'\<rparr>)"
    using send_total [OF assms(1,2)] by blast
  have "discovery_op_complete env (set_req a (?op\<lparr>rq_id := i\<rparr>) (c\<lparr>gc_att := att'\<rparr>)) a False 0 \<noteq> None"
    using assms(4) by (intro complete_total [where op = "?op\<lparr>rq_id := i\<rparr>"]) simp_all
  then show ?thesis
    using s assms(3) by (cases "i = 0") (simp_all add: send_next_def bt_gatt_request_ref_def Let_def)
qed

lemma uuid_field_total: "uuid_ok u \<Longrightarrow> \<exists>b. uuid_field junk u = Some b \<and> length b \<le> 16"
  by (cases u) (auto simp: uuid_field_def get_uuid_len_def bt_uuid_to_le_def bt_uuid_to_uuid128_def bt_uuid32_to_uuid128_def bluetooth_base_uuid_def BASE_UUID32_OFFSET_def
      bswap_128_def mem_write_def length_be32)

lemma list_bounds:
  assumes "(length p - 1) mod k = 0" "2 \<le> length (p :: bytes)" "0 < k"
  shows "k < length p"
proof -
  have "k dvd length p - 1"
    using assms(1) by auto
  then have "k \<le> length p - 1"
    using assms(2) by (intro dvd_imp_le) simp_all
  then show ?thesis
    using assms(2) by simp
qed

text \<open>A running request: the client may end it or go on with it whatever it has appended to its results.\<close>

definition live_request :: "att_env \<Rightarrow> gatt_client \<Rightarrow> nat \<Rightarrow> bt_gatt_request \<Rightarrow> bool" where
  "live_request env c a op \<longleftrightarrow> gc_reqs c a = Some op \<and> rq_id op \<noteq> 0 \<and> 1 < rq_ref_count op"

lemma live_total:
  assumes "live_request env c a op"
  shows "\<exists>c'. discovery_op_complete env c a success e = Some c'"
    "rq_id op' = rq_id op \<Longrightarrow> \<exists>c'. discovery_op_complete env (set_req a op' c) a success e = Some c'"
    "rq_ref_count op' = rq_ref_count op \<Longrightarrow> is_req opcode \<Longrightarrow> length pdu \<le> 100 \<Longrightarrow> \<exists>c'. send_next env (set_req a op' c) a opcode pdu f = Some c'"
  using assms complete_total [of c a op env success e] complete_total [of "set_req a op' c" a op' env success e]
    send_next_total [of opcode pdu "set_req a op' c" a op' env f] by (auto simp: live_request_def)

lemma append_keeps [simp]: "rq_id (result_append opcode pdu n op) = rq_id op" "rq_ref_count (result_append opcode pdu n op) = rq_ref_count op"
  "rq_start_handle (result_append opcode pdu n op) = rq_start_handle op" "rq_end_handle (result_append opcode pdu n op) = rq_end_handle op"
  "rq_uuid (result_append opcode pdu n op) = rq_uuid op" "rq_service_type (result_append opcode pdu n op) = rq_service_type op"
  by (simp_all add: result_append_def)

lemma chrcs_total:
  assumes "live_request env c a op"
  shows "\<exists>c'. discover_chrcs_cb env c a opcode pdu = Some c'"
proof (cases "rsp_has opcode pdu BT_ATT_OP_READ_BY_TYPE_RSP 8")
  case True
  then obtain p where p: "pdu = Some p" "8 \<le> length p"
    by (auto simp: rsp_has_def split: option.splits)
  let ?n = "unat (p ! 0)"
  have l: "load8 p 0 = Some (p ! 0)"
    using p(2) by (cases p) (simp_all add: load8_def)
  have h: "\<exists>h. pdu_le16 p (length p - ?n) = Some h" if "(length p - 1) mod ?n = 0" "?n = 7 \<or> ?n = 21"
    using list_bounds [OF that(1)] that(2) p(2) by (intro read16) auto
  show ?thesis
    using live_total [OF assms] assms p l h True is_req_opcodes unfolding discover_chrcs_cb_def p
    by (auto simp: live_request_def Let_def)
qed (use live_total [OF assms] in \<open>auto simp: discover_chrcs_cb_def\<close>)

lemma descs_total:
  assumes "live_request env c a op"
  shows "\<exists>c'. discover_descs_cb env c a opcode pdu = Some c'"
proof (cases "rsp_has opcode pdu BT_ATT_OP_FIND_INFO_RSP 5")
  case True
  then obtain p where p: "pdu = Some p" "5 \<le> length p"
    by (auto simp: rsp_has_def split: option.splits)
  have l: "load8 p 0 = Some (p ! 0)"
    using p(2) by (cases p) (simp_all add: load8_def)
  have h: "\<exists>h. pdu_le16 p (length p - n) = Some h" if "(length p - 1) mod n = 0" "n = 4 \<or> n = 18" for n
    using list_bounds [OF that(1)] that(2) p(2) by (intro read16) auto
  have h': "(length p - 1) mod 4 = 0 \<longrightarrow> (\<exists>h. pdu_le16 p (length p - 4) = Some h)" "(length p - 1) mod 18 = 0 \<longrightarrow> (\<exists>h. pdu_le16 p (length p - 18) = Some h)"
    using h [of 4] h [of 18] by simp_all
  show ?thesis
    using live_total [OF assms] assms p l h' True is_req_opcodes unfolding discover_descs_cb_def p
    by (cases "p ! 0 = 1") (auto simp: live_request_def Let_def)
qed (use live_total [OF assms] in \<open>auto simp: discover_descs_cb_def\<close>)

lemma grp_total:
  assumes "live_request env c a op"
  shows "\<exists>c'. gh_read_by_grp_type_cb env c a opcode pdu = Some c'"
proof (cases "rsp_has opcode pdu BT_ATT_OP_READ_BY_GRP_TYPE_RSP 7")
  case True
  then obtain p where p: "pdu = Some p" "7 \<le> length p"
    by (auto simp: rsp_has_def split: option.splits)
  let ?n = "unat (p ! 0)"
  have l: "load8 p 0 = Some (p ! 0)"
    using p(2) by (cases p) (simp_all add: load8_def)
  have n: "?n < length p" if "(length p - 1) mod ?n = 0" "?n = 6 \<or> ?n = 20"
    using list_bounds [OF that(1)] that(2) p(2) by auto
  have h: "\<exists>h. pdu_le16 p (length p - ?n + 2) = Some h" if "(length p - 1) mod ?n = 0" "?n = 6 \<or> ?n = 20"
    using n [OF that] that(2) by (intro read16) auto
  have w: "\<exists>q. mem_write (rs_pdu (last (rq_results (result_append opcode (drop 1 p) ?n op)))) (length p - ?n + 1) (le16 v) = Some q"
    if "(length p - 1) mod ?n = 0" "?n = 6 \<or> ?n = 20" for v
    using n [OF that] that(2) by (auto simp: result_append_def result_create_def mem_write_def)
  show ?thesis
  proof (cases "(?n = 6 \<or> ?n = 20) \<and> (length p - 1) mod ?n = 0")
    case ok: True
    obtain last_end where e: "pdu_le16 p (length p - ?n + 2) = Some last_end"
      using h [OF conjunct2 [OF ok] conjunct1 [OF ok]] by blast
    obtain q where q: "mem_write (rs_pdu (last (rq_results (result_append opcode (drop 1 p) ?n op)))) (length p - ?n + 1) (le16 (rq_end_handle op)) = Some q"
      using w [OF conjunct2 [OF ok] conjunct1 [OF ok]] by blast
    show ?thesis
      using live_total [OF assms] assms p l e q ok True is_req_opcodes unfolding gh_read_by_grp_type_cb_def p
      by (auto simp: live_request_def Let_def)
  next
    case False
    then show ?thesis
      using live_total [OF assms] p l True unfolding gh_read_by_grp_type_cb_def p by (auto simp: Let_def)
  qed
qed (use live_total [OF assms] in \<open>auto simp: gh_read_by_grp_type_cb_def\<close>)

lemma by_value_total:
  assumes "live_request env c a op" "uuid_ok (rq_uuid op)"
  shows "\<exists>c'. gh_find_by_type_val_cb env junk c a opcode pdu = Some c'"
proof (cases "rsp_has opcode pdu BT_ATT_OP_FIND_BY_TYPE_RSP 1")
  case True
  then obtain p where p: "pdu = Some p" "1 \<le> length p"
    by (auto simp: rsp_has_def split: option.splits)
  obtain b where b: "uuid_field junk (rq_uuid op) = Some b" "length b \<le> 16"
    using uuid_field_total [OF assms(2)] by blast
  have h: "\<exists>h. pdu_le16 p (length p - 2) = Some h" if "length p mod 4 = 0"
  proof -
    have "4 \<le> length p"
      using that p(2) by (intro dvd_imp_le) auto
    then show ?thesis
      by (intro read16) simp
  qed
  show ?thesis
    using live_total [OF assms(1)] assms(1) p b h True is_req_opcodes unfolding gh_find_by_type_val_cb_def p
    by (auto simp: live_request_def Let_def)
qed (use live_total [OF assms(1)] in \<open>auto simp: gh_find_by_type_val_cb_def\<close>)

lemma by_type_total:
  assumes "live_request env c a op" "uuid_ok (rq_uuid op)"
  shows "gh_read_by_type_cb env junk c a opcode pdu = None \<longleftrightarrow> opcode = BT_ATT_OP_READ_BY_TYPE_RSP \<and> (\<exists>p. pdu = Some p \<and> (length p \<le> 1 \<or> p ! 0 \<le> 1))"
proof (cases "rsp_has opcode pdu BT_ATT_OP_READ_BY_TYPE_RSP 0")
  case True
  then obtain p where p: "pdu = Some p" "opcode = BT_ATT_OP_READ_BY_TYPE_RSP"
    by (auto simp: rsp_has_def split: option.splits)
  have op: "BT_ATT_OP_READ_BY_TYPE_RSP \<noteq> BT_ATT_OP_ERROR_RSP"
    by (simp add: att_opcodes)
  show ?thesis
  proof (cases p)
    case Nil
    then show ?thesis
      using p op True by (simp add: gh_read_by_type_cb_def load8_def)
  next
    case (Cons x xs)
    let ?n = "unat x"
    have l: "load8 p 0 = Some x"
      by (simp add: load8_def Cons)
    have one: "x \<le> 1 \<longleftrightarrow> ?n = 0 \<or> ?n = 1"
      by (auto simp: word_le_nat_alt)
    show ?thesis
    proof (cases "xs = [] \<or> x \<le> 1")
      case True
      then have "?n = 0 \<or> ?n = 1 \<or> length p = 1 \<and> 1 < ?n"
        using Cons one by auto
      moreover have "pdu_le16 p (length p - 1) = None"
        by (auto simp: pdu_le16_def mem_read_def Cons)
      ultimately have "gh_read_by_type_cb env junk c a opcode pdu = None"
        using p op l assms(1) unfolding gh_read_by_type_cb_def p by (auto simp: rsp_has_def live_request_def Let_def)
      then show ?thesis
        using True p Cons by auto
    next
      case False
      then have two: "2 \<le> ?n" "2 \<le> length p"
        using one Cons by (auto simp: Suc_le_eq)
      obtain b where b: "uuid_field junk (rq_uuid op) = Some b" "length b \<le> 16"
        using uuid_field_total [OF assms(2)] by blast
      have n: "?n < length p" if "(length p - 1) mod ?n = 0"
        using list_bounds [OF that two(2)] two(1) by simp
      have h: "\<exists>h. pdu_le16 p (length p - ?n) = Some h" if "(length p - 1) mod ?n = 0"
        using n [OF that] two(1) by (intro read16) auto
      have "\<exists>c'. gh_read_by_type_cb env junk c a opcode pdu = Some c'"
      proof (cases "(length p - 1) mod ?n = 0")
        case True
        obtain hh where hh: "pdu_le16 p (length p - ?n) = Some hh"
          using h [OF True] by blast
        show ?thesis
          using live_total [OF assms(1)] assms(1) p op l two n [OF True] True hh b is_req_opcodes unfolding gh_read_by_type_cb_def p
          by (auto simp: rsp_has_def live_request_def Let_def)
      next
        case False
        then show ?thesis
          using live_total [OF assms(1)] p op l two unfolding gh_read_by_type_cb_def p by (auto simp: rsp_has_def Let_def)
      qed
      then show ?thesis
        using False p Cons by auto
    qed
  qed
next
  case False
  then have "\<not> (opcode = BT_ATT_OP_READ_BY_TYPE_RSP \<and> pdu \<noteq> None)"
    by (cases pdu) (simp_all add: rsp_has_def)
  moreover have "\<exists>c'. gh_read_by_type_cb env junk c a opcode pdu = Some c'"
    using live_total [OF assms(1)] False by (auto simp: gh_read_by_type_cb_def)
  ultimately show ?thesis
    by auto
qed

text \<open>C29.  What a server can answer.  A running discovery or read takes any response, of any opcode and any content, and no access
  leaves a PDU, with one exception: the size of the items in a Read By Type response is used as it comes.  The size 0 is a
  division by zero, and with the size 1 or an empty list the handle of the last item is read beyond the PDU; these, and an
  empty response, are the only responses that are not handled.\<close>

theorem responses_handled:
  assumes "live_request env c a op" "f \<in> {GH_READ_BY_GRP_TYPE_CB, GH_FIND_BY_TYPE_VAL_CB, DISCOVER_CHRCS_CB, DISCOVER_DESCS_CB, GH_READ_BY_TYPE_CB}"
    and "f = GH_FIND_BY_TYPE_VAL_CB \<or> f = GH_READ_BY_TYPE_CB \<longrightarrow> uuid_ok (rq_uuid op)"
  shows "gc_response env junk c f a opcode pdu = None \<longleftrightarrow>
    f = GH_READ_BY_TYPE_CB \<and> opcode = BT_ATT_OP_READ_BY_TYPE_RSP \<and> (\<exists>p. pdu = Some p \<and> (length p \<le> 1 \<or> p ! 0 \<le> 1))"
proof (cases "f = GH_READ_BY_TYPE_CB")
  case True
  then show ?thesis
    using by_type_total [OF assms(1)] assms(3) by (simp add: gc_response_def gh_fns)
next
  case False
  then have "\<exists>c'. gc_response env junk c f a opcode pdu = Some c'"
    using assms(2,3) chrcs_total [OF assms(1)] descs_total [OF assms(1)] grp_total [OF assms(1)] by_value_total [OF assms(1)]
    by (auto simp: gc_response_def gh_fns)
  then show ?thesis
    using False by auto
qed

section \<open>Witnesses\<close>

lemma new_client_initial: "gc_initial new_client"
  by (simp add: new_client_def gc_initial_def)

text \<open>The battery service's handles 1 to 4.\<close>

theorem endless_discovery_witness:
  "\<exists>a c1. bt_gatt_discover_descriptors quiet_env new_client 1 4 (Some 6) 0 None = Some (Some a, c1) \<and>
    (\<exists>c2. peer_rounds quiet_env (\<lambda>_. 0) (last_answer 0x2902) 1000 c1 = Some c2 \<and> gc_log c2 = []
      \<and> (\<exists>m. asks m (gc_att c2) BT_ATT_OP_FIND_INFO_REQ (le16 0 @ le16 4) DISCOVER_DESCS_CB a))"
proof -
  have env: "0 \<le> env_send quiet_env"
    by (simp add: quiet_env_def)
  obtain a c1 where c1: "bt_gatt_discover_descriptors quiet_env new_client 1 4 (Some 6) 0 None = Some (Some a, c1)"
      "\<forall>n. \<exists>c2. peer_rounds quiet_env (\<lambda>_. 0) (last_answer 0x2902) n c1 = Some c2 \<and> gc_log c2 = gc_log new_client
      \<and> (\<exists>m. asks m (gc_att c2) BT_ATT_OP_FIND_INFO_REQ (le16 (if n = 0 then 1 else 0) @ le16 4) DISCOVER_DESCS_CB a)"
    using endless_discovery [OF new_client_idle(1) _ _ env, of 4 1 6 0 None "\<lambda>_. 0" "0x2902"] by auto
  then show ?thesis
    using c1(2) [rule_format, of 1000] new_client_idle(2) by auto
qed




text \<open>A read by type that is answered with items of size 0.\<close>

theorem responses_handled_witness:
  "\<exists>c op. live_request quiet_env c 0 op \<and> rq_uuid op = BT_UUID16 0x2A00
    \<and> gc_response quiet_env (\<lambda>_. 0) c GH_READ_BY_TYPE_CB 0 BT_ATT_OP_READ_BY_TYPE_RSP (Some [0, 3, 0]) = None
    \<and> gc_response quiet_env (\<lambda>_. 0) c GH_READ_BY_TYPE_CB 0 BT_ATT_OP_READ_BY_TYPE_RSP (Some [2, 3, 0]) \<noteq> None"
proof -
  let ?op = "(new_request 1 9 (BT_UUID16 0x2A00) 0 (Some 6) 0 None)\<lparr>rq_id := 1, rq_ref_count := 2\<rparr>"
  let ?c = "set_req 0 ?op new_client"
  have r: "live_request quiet_env ?c 0 ?op" "uuid_ok (rq_uuid ?op)"
    by (simp_all add: live_request_def new_request_def)
  have h: "gc_response quiet_env (\<lambda>_. 0) ?c GH_READ_BY_TYPE_CB 0 BT_ATT_OP_READ_BY_TYPE_RSP (Some p) = None \<longleftrightarrow> length p \<le> 1 \<or> p ! 0 \<le> 1" for p
    using responses_handled [OF r(1), of GH_READ_BY_TYPE_CB "\<lambda>_. 0" BT_ATT_OP_READ_BY_TYPE_RSP "Some p"] r(2) by simp
  show ?thesis
    using r(1) h [of "[0, 3, 0]"] h [of "[2, 3, 0]"] by (intro exI [of _ ?c] exI [of _ ?op]) (simp add: new_request_def word_le_nat_alt)
qed

text \<open>The result of a discovery of the handles 1 and 2.\<close>

definition found_calls :: "(att_env \<times> (nat \<Rightarrow> u8) \<times> gc_call) list" where
  "found_calls = map (\<lambda>call. (quiet_env, (\<lambda>_. 0), call)) [DiscoverDescriptors 1 2 (Some 6) 0 None, ClientWrite,
     ClientReceive (Some [BT_ATT_OP_FIND_INFO_RSP, 1, 1, 0, 0x02, 0x29, 2, 0, 0x01, 0x29])]"

definition found_result :: bt_gatt_result where
  "found_result = \<lparr>rs_opcode = BT_ATT_OP_FIND_INFO_RSP, rs_pdu = [1, 0, 0x02, 0x29, 2, 0, 0x01, 0x29], rs_data_len = 4\<rparr>"

lemma found_run: "map_option gc_log (run_sched gc_step found_calls new_client) = Some [RequestDone 6 True 0 [found_result] 0]"
  by code_simp

theorem reported_results_readable_witness:
  "\<exists>c. run_sched gc_step found_calls new_client = Some c \<and> RequestDone 6 True 0 [found_result] 0 \<in> set (gc_log c)
    \<and> bt_gatt_result_descriptor_count [found_result] \<noteq> None \<and> (\<forall>dst. bt_gatt_iter_next_descriptor \<lparr>it_result = [found_result], it_pos = 0\<rparr> dst \<noteq> None)"
proof -
  obtain c where c: "run_sched gc_step found_calls new_client = Some c" "gc_log c = [RequestDone 6 True 0 [found_result] 0]"
    using found_run by auto
  have r: "reach gc_initial gc_step c"
    using reach_run_sched [OF reach_init [of gc_initial, OF new_client_initial] c(1)] .
  have i: "iterates [found_result] \<lparr>it_result = [found_result], it_pos = 0\<rparr>"
    by (rule iterates_init) (simp add: bt_gatt_iter_init_def)
  show ?thesis
    using reported_results_readable [OF r, of 6 True 0 "[found_result]" 0] c i by auto
qed

end
