(* ===== verification/Spec2Isabelle.thy ===== *)
theory Spec2Isabelle
  imports Control Queue Ringbuf Bdaddr Att_Props Ecc Ad Gatt_Client_Props
begin

text \<open>
  A verification of the RC-plane ground station (\<^verbatim>\<open>src/src\<close>) and of the C code of the Bluetooth stack that
  comes with it (\<^verbatim>\<open>src/libs/gattlib-master/bluez/bluez5\<close>, below \<^verbatim>\<open>bluez5\<close>).

  \<^bold>\<open>The program.\<close>  \<^verbatim>\<open>main\<close> (\<^verbatim>\<open>src/src/main.c\<close>) starts two threads.  \<^verbatim>\<open>hotas_inputs\<close>
  (\<^verbatim>\<open>src/src/throttleinput.c\<close>) reads joystick events and publishes the throttle as a percentage under
  \<^verbatim>\<open>throttle_mutex\<close>; its stop button clears \<^verbatim>\<open>running\<close>.  \<^verbatim>\<open>ble_sender\<close> (\<^verbatim>\<open>src/src/scan.c\<close>) scans for the
  ESP32 through the SimpleBLE C interface, connects, looks for the characteristic and then reports changes of
  the throttle.  \<^verbatim>\<open>main\<close> prints the changes until \<^verbatim>\<open>running\<close> is 0.  The Bluetooth stack below provides the
  containers, the names, the protocol data units and the key exchange of a Bluetooth Low Energy link.

  \<^bold>\<open>Shared theories.\<close>
  \<^item> \<open>Prelude\<close>: the C integer types as words, byte buffers whose out-of-bounds access is \<open>None\<close>, \<^verbatim>\<open>memcpy\<close>, byte
    orders.
  \<^item> \<open>Binary32\<close>: IEEE single-precision rounding on rationals.
  \<^item> \<open>Transition\<close>: the locales \<open>invariant_system\<close>, \<open>ranked_system\<close> (threads that interleave) and
    \<open>data_refinement\<close> (sequences of calls).
  \<^item> \<open>Cstring\<close>: \<^verbatim>\<open>strtol\<close>, \<^verbatim>\<open>sscanf\<close> and \<^verbatim>\<open>snprintf\<close> as far as the sources use them.

  \<^bold>\<open>The ground station.\<close>
  \<^item> \<open>Throttle\<close> models \<^verbatim>\<open>throttleinput.c\<close>: \<^verbatim>\<open>convert_to_percent\<close> is exact for each 16-bit value (C1), the thread
    is free of undefined behaviour and leaves the value of the last event (C2, C3).  The device is an argument:
    the results of \<^verbatim>\<open>open\<close> and of the successive \<^verbatim>\<open>read\<close> calls, a finite list.
  \<^item> \<open>Simpleble\<close> models the calls of the C interface (\<^verbatim>\<open>simpleble/src_c\<close>) with the handles and strings that they
    allocate; what the radio answers is the argument \<open>env\<close>.
  \<^item> \<open>Scan\<close> models \<^verbatim>\<open>scan.c\<close> up to its loop: scan and cleanup (C4), and the two faults of the setup: no device of
    the wanted name (C5), and the read that always fails where the characteristic is reported (C6).
  \<^item> \<open>Control\<close> composes the three threads as a step relation over the shared variables and the mutex: an
    invariant of all reachable states (C7), agreement with the sequential thread (C8), termination of
    \<^verbatim>\<open>main\<close> (C9, C10), the update that the sending loop loses (C11).

  \<^bold>\<open>Containers.\<close>
  \<^item> \<open>Queue\<close> models \<^verbatim>\<open>bluez5/src/shared/queue.c\<close> over a store of queue objects and cells: refinement of lists
    (C12), release of memory (C13), traversal with a callback that changes the queue.  Traversals
    are partial functions, \<open>None\<close> for a fault or a cyclic chain; the theorems show that they return.
  \<^item> \<open>Ringbuf\<close> models \<^verbatim>\<open>bluez5/src/shared/ringbuf.c\<close> with 64-bit counters that wrap: refinement of a bounded
    queue of bytes (C15, the bytes that each \<^verbatim>\<open>writev\<close> sends included), the capacity and its overflow.
  \<^item> \<open>Qlist\<close> has the queue operations on the list that a queue refines to, for components that keep their data in queues
    and whose match functions can have undefined behaviour.

  \<^bold>\<open>Names.\<close>
  \<^item> \<open>Bt_Uuid\<close> models \<^verbatim>\<open>bluez5/lib/uuid.c\<close>: round trip through strings (C17), order (\<open>uuid_cmp_order\<close>), inputs that are cut (\<open>string_to_uuid_truncates\<close>);
    and the little-endian form.
  \<^item> \<open>Bdaddr\<close> models the device addresses of \<^verbatim>\<open>bluez5/lib/bluetooth.c\<close>: round trips, accepted strings;
    and \<^verbatim>\<open>bt_error\<close>.

  \<^bold>\<open>Advertising.\<close>  \<open>Ad\<close> models \<^verbatim>\<open>bluez5/src/shared/ad.c\<close>: the advertisement that is generated reads back as the data that
  was added and has the length computed beforehand (C20); removal removes the wrong entry or faults (\<open>ad_remove_wrong\<close>); manufacturer
  and service data are maps (C26), both instances of the locale \<open>keyed_data\<close>.

  \<^bold>\<open>The Attribute Protocol.\<close>  \<open>Att_Pdu\<close> has the encoders and decoders of \<^verbatim>\<open>bluez5/attrib/att.c\<close> over byte
  buffers, with the stated sizes as 64-bit words.  \<open>Att_Codec\<close> states what an encoder and its decoder promise as the
  locale \<open>pdu_codec\<close> and interprets it for 17 pairs.  \<open>Att_Props\<close> has the round trips (C23, \<open>list_responses_roundtrip\<close> and further theorems without a number), a decoder
  that refuses every PDU of its encoder, memory safety of the decoders (C31), the room that
  their result buffers need (\<open>write_decoders_need_room\<close>) and the overruns of short
  PDUs (\<open>short_pdus_overrun\<close>).  The signature of a signed write is an argument; the theorem assumes that it has 12 bytes.

  \<^bold>\<open>The attribute database\<close> (\<^verbatim>\<open>bluez5/src/shared/gatt-db.c\<close>).  \<open>Gatt_Db\<close> has the database: a queue of services, each with
  the array of its attributes, the operations on them, the queries of a server, and reads and writes of values with
  their pending requests.  Callbacks are recorded in a log.  \<open>Gatt_Db_Inv\<close> has the invariant and its preservation by
  every call, an instance of \<open>invariant_system\<close>.  \<open>Gatt_Db_Props\<close> shows for reachable databases that calls are defined
  and lookup finds each attribute (C28), that queries are filters of the list of active attributes (C30), that
  declarations read back (C34, \<open>added_declarations_data\<close>) and values too (\<open>write_then_read\<close>), and that \<^verbatim>\<open>gatt_db_clear\<close> leaves a database to
  which no service can be added (\<open>clear_refuses_services\<close>); two further calls break the invariant and are excluded
  in C28 (\<open>insert_around_overlaps\<close>, \<open>insert_characteristic_duplicate\<close>).

  \<^bold>\<open>The transport\<close> (\<^verbatim>\<open>bluez5/src/shared/att.c\<close>).  \<open>Att_Types\<close> has the constants of the protocol.  \<open>Bt_Att\<close> models the object that
  carries the protocol over a link: its queues of requests, indications and other PDUs, the pending operations with their
  timers, dispatch of what is received, security and signatures.  The socket, the timers, the counter and the signature
  function are the argument \<open>env\<close>; calls of callbacks are recorded in \<open>att_log\<close>.  \<open>Bt_Att_Props\<close> shows for all sequences of
  calls and events that each accepted PDU is released once (C14) and that requests and indications go out one at a time
  (C16, an instance of \<open>invariant_system\<close>), and that received signatures are never verified (C22).  Not modelled there: debug output, closing of the
  file descriptor, a NULL object, failing allocation.

  \<^bold>\<open>The server\<close> (\<^verbatim>\<open>bluez5/src/shared/gatt-server.c\<close>) answers the requests of the transport from the database.
  \<open>Gatt_Server\<close> has the object and one function per handler; a callback that is called at once is part of the handler,
  the results of deferred reads and writes are events of their own (\<open>sv_read_result\<close>, \<open>sv_write_result\<close>), and
  \<open>server_receive\<close> connects the dispatch of the transport with the handlers.  Bytes of uninitialised buffers are an argument.
  \<open>Gatt_Server_Inv\<close> shows that reads and writes keep the structure of the database and what sending does to the transport;
  \<open>Gatt_Server_Answers\<close> and \<open>Gatt_Server_Total\<close> go through the handlers, with the locale \<open>unit_loop\<close> for the loops that fill a
  response.  \<open>Gatt_Server_Props\<close> concludes that every request is answered (C19), what is written is read back (C21),
  deferred reads are answered (C24), long writes arrive whole (C32) unless they wrap around (C40), and what Find
  Information lists (C36).  Not modelled there: a NULL server, debug output, failing allocation.

  \<^bold>\<open>The client\<close> (\<^verbatim>\<open>bluez5/src/shared/gatt-helpers.c\<close>) discovers what a server has.  \<open>Gatt_Helpers\<close> has the
  procedures: request objects that count their references, the callbacks for the responses (\<open>gc_response\<close>), and the
  results with their counts and iterators; \<open>client_receive\<close> and \<open>client_write\<close> connect them with the transport.
  \<open>Gatt_Discovery\<close> shows what the transport of a client does with a request and its response, and what the client does with
  a list of attributes; \<open>Gatt_Link\<close> connects a client with a server and concludes that the discovery of descriptors is complete
  (C27).  The number of rounds there is existential, with the bound that it needs.  \<open>Gatt_Results\<close> has the invariant that all
  results are well formed, an instance of \<open>invariant_system\<close> over all calls and events.  \<open>Gatt_Client_Props\<close>
  concludes that reported results can be read (C18) and which responses are handled (C29), and shows a discovery without end (C25)
  and a request that is freed too early (C35).  Not modelled there: a NULL request, failing allocation, calls that the
  application makes from within its callbacks.

  \<^bold>\<open>Elliptic curve keys\<close> (\<^verbatim>\<open>bluez5/src/shared/ecc.c\<close>).
  \<^item> \<open>Vli\<close>: 256-bit numbers as four words: sum, difference, comparison (C33), shifts and bits.
  \<^item> \<open>Vli_Mult\<close>: product and square by columns, with the locale \<open>column_method\<close> for the outer loop; both are
    exact up to the carries that the code misses (\<open>vli_products\<close>), and there are such carries (\<open>vli_mult_misses_carry\<close>).
  \<^item> \<open>Vli_Mod\<close>: arithmetic modulo the prime of P-256 (C37) and inversion (C38).  Loops without a bound are
    partial functions; the theorems show that they end.
  \<^item> \<open>Ecc\<close>: points, the ladder, key generation and the shared secret.  Both exported functions return for all
    inputs (C39); key generation can deliver a key that it rejected (\<open>ecc_make_key_accepts_rejected\<close>).  Random numbers are arguments.  That
    the ladder computes multiples of a point is not stated: the products
    that it is built on can be too small.

  \<^bold>\<open>Not modelled.\<close>  The ESP32 sketches and the C++ part of SimpleBLE (device I/O, another language); memory
  release without other effect (\<^verbatim>\<open>ringbuf_free\<close>, \<^verbatim>\<open>att_data_list_free\<close>); the
  gattlib wrappers, \<^verbatim>\<open>gatt.c\<close>, \<^verbatim>\<open>gattrib.c\<close>, \<^verbatim>\<open>btio.c\<close>, the HCI, SDP and management libraries and the event loops, which
  are sockets, ioctl, D-Bus and GLib callbacks; the older \<^verbatim>\<open>bluez4\<close> copy of the stack; the AES of the
  kernel (\<^verbatim>\<open>crypto.c\<close>).

  \<^bold>\<open>Plan.\<close>  What is left of this part is the client object that fills a database with these procedures
  (\<^verbatim>\<open>gatt-client.c\<close>), and completeness of the other discoveries in the way of C27.
\<close>

end
